(* ===== verification/Prelude.thy ===== *)
theory Prelude
  imports Main "HOL-Library.Word"
begin

text \<open>
  Shared vocabulary of the development: the ways a C++ function of the program can fail to
  return a value, the sequencing of fallible steps, the theorem collections the component
  theories add to, a generic argument for loops that are run with fuel, and a few list facts.
\<close>

section \<open>Failures\<close>

text \<open>
  Every way in which a modelled function can stop short of its normal return:
  \<^item> \<open>Assert_fail\<close>: an \<open>assert\<close> is violated (the Makefile does not define NDEBUG);
  \<^item> \<open>Exit_failure\<close>: the code calls \<open>exit(EXIT_FAILURE)\<close>, which ends the whole process;
  \<^item> \<open>Exit_success\<close>: the code calls \<open>exit(EXIT_SUCCESS)\<close>;
  \<^item> \<open>Null_deref\<close>: a \<open>nullptr\<close> returned by \<open>get_proto_out\<close> or \<open>get_proto_in\<close> is used;
  \<^item> \<open>Out_of_bounds\<close>: a vector is indexed outside its length;
  \<^item> \<open>Bad_conversion\<close>: a floating point value without an integer value is converted;
  \<^item> \<open>Uninit_read\<close>: a variable that was never assigned is read;
  \<^item> \<open>Blocked\<close>: the thread waits for a message that nobody sends;
  \<^item> \<open>Terminated\<close>: the C++ runtime calls \<open>std::terminate\<close>, which ends the whole process;
  \<^item> \<open>Thrown msg\<close>: a C++ exception leaves the function;
  \<^item> \<open>Out_of_fuel\<close>: the loop did not end within the given number of rounds.
\<close>

datatype err =
    Assert_fail
  | Exit_failure
  | Exit_success
  | Null_deref
  | Out_of_bounds
  | Bad_conversion
  | Uninit_read
  | Blocked
  | Terminated
  | Thrown string
  | Out_of_fuel

type_synonym 'a res = "err + 'a"

type_synonym byte = "8 word"

definition INT_MAX :: int where
  "INT_MAX = 2147483647"

fun bind_res :: "'a res \<Rightarrow> ('a \<Rightarrow> 'b res) \<Rightarrow> 'b res" where
  "bind_res (Inl e) f = Inl e"
| "bind_res (Inr x) f = f x"

lemma bind_res_Inr_iff: "bind_res m f = Inr y \<longleftrightarrow> (\<exists>x. m = Inr x \<and> f x = Inr y)"
  by (cases m) auto

lemma bind_res_Inl_iff:
  "bind_res m f = Inl e \<longleftrightarrow> m = Inl e \<or> (\<exists>x. m = Inr x \<and> f x = Inl e)"
  by (cases m) auto

lemma bind_res_assoc: "bind_res (bind_res m f) g = bind_res m (\<lambda>x. bind_res (f x) g)"
  by (cases m) auto

lemma bind_res_cong [fundef_cong]:
  "m = m' \<Longrightarrow> (\<And>x. m' = Inr x \<Longrightarrow> f x = f' x) \<Longrightarrow> bind_res m f = bind_res m' f'"
  by (cases m') auto

section \<open>Loops that may not end\<close>

text \<open>
  The result of a function that may loop: \<open>None\<close> when it never returns, otherwise an abort or a
  value.
\<close>

type_synonym 'a run = "'a res option"

abbreviation bind_run :: "'a run \<Rightarrow> ('a \<Rightarrow> 'b run) \<Rightarrow> 'b run" where
  "bind_run m f \<equiv> Option.bind m (\<lambda>r. case r of Inl e \<Rightarrow> Some (Inl e) | Inr x \<Rightarrow> f x)"

abbreviation return_run :: "'a \<Rightarrow> 'a run" where
  "return_run x \<equiv> Some (Inr x)"

section \<open>Theorem collections\<close>

named_theorems config_simps \<open>values of the constants of config.h\<close>
named_theorems ring_simps \<open>equations of the identifier circle on digests in range\<close>
named_theorems node_frame \<open>fields an operation leaves alone\<close>

section \<open>Loops run with fuel\<close>

text \<open>
  A loop of the program whose number of rounds is not fixed by its arguments (forwarding a
  request from node to node, walking round the circle, receiving until a byte count is used
  up) is modelled by a round function that either ends with a result or goes on with a new
  state. The interface below is the termination argument all of them share: a state invariant
  that every round keeps and a measure that every further round decreases. Then the number of
  rounds given by the measure is enough, and the result satisfies whatever the last round
  guarantees.
\<close>

fun run_rounds :: "('s \<Rightarrow> 's + 'r) \<Rightarrow> nat \<Rightarrow> 's \<Rightarrow> 'r option" where
  "run_rounds step 0 s = None"
| "run_rounds step (Suc k) s =
     (case step s of Inl s' \<Rightarrow> run_rounds step k s' | Inr r \<Rightarrow> Some r)"

lemma run_rounds_mono: "run_rounds step k s = Some r \<Longrightarrow> k \<le> k' \<Longrightarrow> run_rounds step k' s = Some r"
proof (induction k arbitrary: k' s)
  case 0
  then show ?case by simp
next
  case (Suc k)
  then obtain j where k': "k' = Suc j" and "k \<le> j"
    by (cases k') auto
  with Suc show ?case
    by (cases "step s") auto
qed

locale bounded_loop =
  fixes step :: "'s \<Rightarrow> 's + 'r"
    and inv :: "'s \<Rightarrow> bool"
    and post :: "'s \<Rightarrow> 'r \<Rightarrow> bool"
    and size_of :: "'s \<Rightarrow> nat"
  assumes step_inv: "inv s \<Longrightarrow> step s = Inl s' \<Longrightarrow> inv s'"
    and step_size: "inv s \<Longrightarrow> step s = Inl s' \<Longrightarrow> size_of s' < size_of s"
    and step_post: "inv s \<Longrightarrow> step s = Inr r \<Longrightarrow> post s r"
    and post_back: "inv s \<Longrightarrow> step s = Inl s' \<Longrightarrow> post s' r \<Longrightarrow> post s r"
begin

lemma terminates: "inv s \<Longrightarrow> size_of s < k \<Longrightarrow> \<exists>r. run_rounds step k s = Some r \<and> post s r"
proof (induction k arbitrary: s)
  case 0
  then show ?case by simp
next
  case (Suc k)
  show ?case
  proof (cases "step s")
    case (Inl s')
    with Suc.prems have "inv s'" and "size_of s' < k"
      using step_inv [of s s'] step_size [of s s'] by auto
    then obtain r where "run_rounds step k s' = Some r" and "post s' r"
      using Suc.IH by blast
    with Inl Suc.prems(1) show ?thesis by (auto dest: post_back)
  next
    case (Inr r)
    with Suc.prems(1) show ?thesis by (auto dest: step_post)
  qed
qed

end

section \<open>Lists\<close>

lemma list_all_upt: "list_all P [0..<n] \<longleftrightarrow> (\<forall>i<n. P i)"
  by (auto simp: list_all_iff)

text \<open>A loop that replaces the elements of a vector one after the other.\<close>

lemma fold_update_nth:
  "k \<le> length xs \<Longrightarrow>
   fold (\<lambda>i xs. xs[i := f i (xs ! i)]) [0..<k] xs = map (\<lambda>i. f i (xs ! i)) [0..<k] @ drop k xs"
proof (induction k)
  case 0
  then show ?case by simp
next
  case (Suc k)
  then have "drop k xs = xs ! k # drop (Suc k) xs" by (simp add: Cons_nth_drop_Suc)
  with Suc show ?case by (simp add: list_update_append nth_append)
qed

text \<open>A loop over the indices of a list is a loop over its elements.\<close>

lemma fold_nth: "fold (\<lambda>i. f (xs ! i)) [0..<length xs] s = fold f xs s"
proof -
  have "fold (\<lambda>i. f (xs ! i)) [0..<length xs] s = fold f (map ((!) xs) [0..<length xs]) s"
    by (simp add: fold_map o_def)
  then show ?thesis by (simp add: map_nth)
qed

end
