(* ===== verification/Socket.thy ===== *)
theory Socket
  imports Prelude
begin

text \<open>
  The wrappers over the socket calls of the operating system (\<open>src/src/util/socket.cpp\<close>). What the
  kernel answers is an argument of each function; the functions return their value or the
  \<open>SocketException\<close> they throw, and what they leave allocated: descriptors that are open and
  address lists that were not freed.
\<close>

text \<open>
  The values the system calls of one function return. The address a server binds to (any address,
  with port 0 when the port string is empty) is data for the kernel and not modelled.
\<close>

record os_replies =
  ai_status :: int     \<comment> \<open>getaddrinfo, 0 on success\<close>
  socket_ret :: int    \<comment> \<open>socket, -1 on failure\<close>
  setopt_ret :: int    \<comment> \<open>setsockopt, not looked at\<close>
  bind_ret :: int
  listen_ret :: int
  connect_ret :: int
  accept_ret :: int

text \<open>What a function has left behind.\<close>

record held =
  open_fds :: "int list"
  addrinfos :: nat

definition nothing_held :: held where
  "nothing_held = \<lparr>open_fds = [], addrinfos = 0\<rparr>"

definition MAX_LENGTH :: nat where
  "MAX_LENGTH = 65536"

definition SocketException :: "string \<Rightarrow> 'a res" where
  "SocketException msg = Inl (Thrown msg)"

section \<open>Connections\<close>

definition initializeServer :: "os_replies \<Rightarrow> int res \<times> held" where
  "initializeServer os =
     (if ai_status os \<noteq> 0 then
        (SocketException ''Error: cannot get address info for host.'', nothing_held)
      else
        let held = nothing_held\<lparr>addrinfos := 1\<rparr>;
            socket_fd = socket_ret os
        in if socket_fd = - 1 then (SocketException ''Error: cannot create socket'', held)
           else
             let held = held\<lparr>open_fds := [socket_fd]\<rparr>
             in if bind_ret os = - 1 then (SocketException ''Error:cannot bind socket'', held)
                else if listen_ret os = - 1 then (SocketException ''Error:cannot listen on socket'', held)
                else (Inr socket_fd, held\<lparr>addrinfos := 0\<rparr>))"

definition serverAcceptConnection :: "os_replies \<Rightarrow> int res \<times> held" where
  "serverAcceptConnection os =
     (if accept_ret os = - 1 then
        (SocketException ''Error: cannot accept connection on socket.'', nothing_held)
      else (Inr (accept_ret os), nothing_held\<lparr>open_fds := [accept_ret os]\<rparr>))"

definition clientRequestConnection :: "os_replies \<Rightarrow> int res \<times> held" where
  "clientRequestConnection os =
     (if ai_status os \<noteq> 0 then
        (SocketException ''Error: cannot get address info for host.'', nothing_held)
      else
        let held = nothing_held\<lparr>addrinfos := 1\<rparr>;
            client_fd = socket_ret os
        in if client_fd = - 1 then (SocketException ''Error: cannot create socket.'', held)
           else
             let held = held\<lparr>open_fds := [client_fd]\<rparr>
             in if connect_ret os = - 1 then (SocketException ''Error: cannot connect to socket.'', held)
                else (Inr client_fd, held\<lparr>addrinfos := 0\<rparr>))"

text \<open>\<open>getsockname\<close> fails, or gives the address, whose port is in network order.\<close>

definition ntohs :: "16 word \<Rightarrow> 16 word" where
  "ntohs w = word_of_nat ((unat w mod 256) * 256 + unat w div 256)"

definition getPortNum :: "16 word option \<Rightarrow> int res" where
  "getPortNum sin_port =
     (case sin_port of
        None \<Rightarrow> SocketException ''Error: cannot getsockname.''
      | Some p \<Rightarrow> Inr (uint (ntohs p)))"

section \<open>Bytes\<close>

text \<open>
  \<open>send\<close> returns the number of bytes it took, which may be less than asked for, or a negative
  number. The wrapper only looks at the sign. The result is what went out, and whether the
  descriptor is still open.
\<close>

definition socketSendMsg :: "int \<Rightarrow> byte list \<Rightarrow> byte list res \<times> bool" where
  "socketSendMsg send_ret buf =
     (if send_ret < 0 then (SocketException ''fail to send msg.'', False)
      else (Inr (take (nat send_ret) buf), True))"

text \<open>
  A connection seen from the receiver: the segments still to come, then the end of the stream.
  One \<open>recv\<close> takes at most what is left of the current segment.
\<close>

type_synonym segments = "byte list list"

fun recv :: "nat \<Rightarrow> segments \<Rightarrow> byte list \<times> segments" where
  "recv k [] = ([], [])"
| "recv k (s # segs) = (take k s, if length s \<le> k then segs else drop k s # segs)"

definition socketRecvMsg :: "segments \<Rightarrow> (byte list \<times> segments) res" where
  "socketRecvMsg segs =
     (let (msg, segs) = recv MAX_LENGTH segs
      in if msg = [] then SocketException ''fail to accept msg.'' else Inr (msg, segs))"

section \<open>Lemmas\<close>

lemma recv_concat: "recv k segs = (msg, segs') \<Longrightarrow> msg @ concat segs' = concat segs"
  by (cases segs) (auto split: if_splits)

lemma recv_progress: "recv k (s # segs) = (msg, segs') \<Longrightarrow> s \<noteq> [] \<Longrightarrow> 0 < k \<Longrightarrow>
    msg \<noteq> [] \<and> ([] \<notin> set segs \<longrightarrow> [] \<notin> set segs')"
  by (auto split: if_splits)

lemma socketRecvMsg_Inr:
  "socketRecvMsg segs = Inr (msg, segs') \<Longrightarrow> msg \<noteq> [] \<and> length msg \<le> MAX_LENGTH \<and> msg @ concat segs' = concat segs"
  using recv_concat [of MAX_LENGTH segs]
  by (cases segs) (auto simp: socketRecvMsg_def SocketException_def split: if_splits)

lemma socketRecvMsg_ok:
  assumes "[] \<notin> set segs" and "concat segs \<noteq> []"
  obtains msg segs' where "socketRecvMsg segs = Inr (msg, segs')" and "[] \<notin> set segs'"
    and "msg \<noteq> []" and "msg @ concat segs' = concat segs"
proof (cases segs)
  case Nil
  with assms show thesis by simp
next
  case (Cons s rest)
  obtain msg segs' where r: "recv MAX_LENGTH segs = (msg, segs')" by (cases "recv MAX_LENGTH segs")
  then have "msg \<noteq> []" "[] \<notin> set segs'"
    using recv_progress [of MAX_LENGTH s rest msg segs'] assms(1) Cons by (auto simp: MAX_LENGTH_def)
  then show thesis
    using that r recv_concat [OF r] by (simp add: socketRecvMsg_def)
qed

section \<open>Properties\<close>

text \<open>
  A connection function that returns gives a descriptor that is open, with nothing else left
  allocated. When it throws after the address list was obtained, the list is never freed, and
  when \<open>bind\<close>, \<open>listen\<close> or \<open>connect\<close> fails the descriptor stays open too, with nobody holding it.
\<close>

theorem connections_held:
  "(case initializeServer os of
      (Inr fd, held) \<Rightarrow> held = nothing_held\<lparr>open_fds := [fd]\<rparr>
    | (Inl e, held) \<Rightarrow> addrinfos held = (if ai_status os = 0 then 1 else 0) \<and>
        open_fds held = (if ai_status os = 0 \<and> socket_ret os \<noteq> - 1 then [socket_ret os] else [])) \<and>
   (case clientRequestConnection os of
      (Inr fd, held) \<Rightarrow> held = nothing_held\<lparr>open_fds := [fd]\<rparr>
    | (Inl e, held) \<Rightarrow> addrinfos held = (if ai_status os = 0 then 1 else 0) \<and>
        open_fds held = (if ai_status os = 0 \<and> socket_ret os \<noteq> - 1 then [socket_ret os] else [])) \<and>
   (case serverAcceptConnection os of
      (Inr fd, held) \<Rightarrow> held = nothing_held\<lparr>open_fds := [fd]\<rparr>
    | (Inl e, held) \<Rightarrow> held = nothing_held)"
  by (simp add: initializeServer_def clientRequestConnection_def serverAcceptConnection_def
      SocketException_def nothing_held_def Let_def)

end
