(* ===== verification/Proto_Stream.thy ===== *)
theory Proto_Stream
  imports Socket
begin

text \<open>
  The streams messages travel on (\<open>src/src/util/proto.cpp\<close>): \<open>ProtoStreamOut\<close> connects to a host when
  its output is first asked for, \<open>ProtoStreamIn\<close> listens on a port and accepts one connection.
  Descriptor 0 stands for \<open>not open\<close>. \<open>proc_fds\<close> are the descriptors the process has open.
\<close>

record ProtoStreamOut =
  po_fd :: int
  po_out :: bool      \<comment> \<open>\<open>out\<close> is not null\<close>

record ProtoStreamIn =
  pi_server_fd :: int
  pi_client_fd :: int
  pi_in :: bool       \<comment> \<open>\<open>in\<close> is not null\<close>

definition ProtoStreamOut_ctor :: ProtoStreamOut where
  "ProtoStreamOut_ctor = \<lparr>po_fd = 0, po_out = False\<rparr>"

definition ProtoStreamIn_ctor :: ProtoStreamIn where
  "ProtoStreamIn_ctor = \<lparr>pi_server_fd = 0, pi_client_fd = 0, pi_in = False\<rparr>"

type_synonym proc_fds = "int list"

definition close_fd :: "int \<Rightarrow> proc_fds \<Rightarrow> proc_fds" where
  "close_fd fd fds = removeAll fd fds"

section \<open>Operations\<close>

text \<open>Whether a stream is returned (\<open>False\<close>: \<open>nullptr\<close>), the object and the open descriptors.\<close>

definition get_proto_out :: "os_replies \<Rightarrow> ProtoStreamOut \<Rightarrow> proc_fds \<Rightarrow> bool \<times> ProtoStreamOut \<times> proc_fds" where
  "get_proto_out os s fds =
     (if po_out s then (True, s, fds)
      else if po_fd s = 0 then
        (case clientRequestConnection os of
           (Inl e, held) \<Rightarrow> (False, s, open_fds held @ fds)
         | (Inr fd, held) \<Rightarrow> (True, s\<lparr>po_fd := fd, po_out := True\<rparr>, open_fds held @ fds))
      else (True, s\<lparr>po_out := True\<rparr>, fds))"

definition close_proto_out :: "ProtoStreamOut \<Rightarrow> proc_fds \<Rightarrow> ProtoStreamOut \<times> proc_fds" where
  "close_proto_out s fds =
     (s\<lparr>po_out := False, po_fd := 0\<rparr>, if po_fd s \<noteq> 0 then close_fd (po_fd s) fds else fds)"

definition get_proto_in :: "os_replies \<Rightarrow> ProtoStreamIn \<Rightarrow> proc_fds \<Rightarrow> bool \<times> ProtoStreamIn \<times> proc_fds" where
  "get_proto_in os s fds =
     (if pi_in s then (True, s, fds)
      else
        let accept_on = (\<lambda>s fds.
              if pi_client_fd s = 0 then
                (case serverAcceptConnection os of
                   (Inl e, held) \<Rightarrow> (False, s, open_fds held @ fds)
                 | (Inr fd, held) \<Rightarrow> (True, s\<lparr>pi_client_fd := fd, pi_in := True\<rparr>, open_fds held @ fds))
              else (True, s\<lparr>pi_in := True\<rparr>, fds))
        in if pi_server_fd s = 0 then
             (case initializeServer os of
                (Inl e, held) \<Rightarrow> (False, s, open_fds held @ fds)
              | (Inr fd, held) \<Rightarrow> accept_on (s\<lparr>pi_server_fd := fd\<rparr>) (open_fds held @ fds))
           else accept_on s fds)"

definition close_proto_in :: "ProtoStreamIn \<Rightarrow> proc_fds \<Rightarrow> ProtoStreamIn \<times> proc_fds" where
  "close_proto_in s fds =
     (s\<lparr>pi_in := False, pi_client_fd := 0\<rparr>, if pi_client_fd s \<noteq> 0 then close_fd (pi_client_fd s) fds else fds)"

definition close_listening_socket :: "ProtoStreamIn \<Rightarrow> proc_fds \<Rightarrow> ProtoStreamIn \<times> proc_fds" where
  "close_listening_socket s fds =
     (s\<lparr>pi_server_fd := 0\<rparr>, if pi_server_fd s \<noteq> 0 then close_fd (pi_server_fd s) fds else fds)"

definition ProtoStreamOut_dtor :: "ProtoStreamOut \<Rightarrow> proc_fds \<Rightarrow> proc_fds" where
  "ProtoStreamOut_dtor s fds = snd (close_proto_out s fds)"

definition ProtoStreamIn_dtor :: "ProtoStreamIn \<Rightarrow> proc_fds \<Rightarrow> proc_fds" where
  "ProtoStreamIn_dtor s fds =
     (let (s, fds) = close_proto_in s fds in snd (close_listening_socket s fds))"

section \<open>The contract of a stream\<close>

text \<open>
  Both classes follow one contract: an object owns some of the descriptors of the process; opening
  it a second time returns the same stream and opens nothing; whatever opening did, the
  destructor gives back exactly what the object owns. The clients of the streams (a lookup, a
  join) rely on no more than that.
\<close>

locale stream_object =
  fixes inv :: "'s \<Rightarrow> proc_fds \<Rightarrow> bool"
    and open_stream :: "'env \<Rightarrow> 's \<Rightarrow> proc_fds \<Rightarrow> bool \<times> 's \<times> proc_fds"
    and owned :: "'s \<Rightarrow> int set"
    and dtor :: "'s \<Rightarrow> proc_fds \<Rightarrow> proc_fds"
    and fresh :: "'env \<Rightarrow> 's \<Rightarrow> proc_fds \<Rightarrow> bool"
  assumes open_inv: "inv s fds \<Longrightarrow> fresh os s fds \<Longrightarrow> open_stream os s fds = (ok, s', fds') \<Longrightarrow> inv s' fds'"
    and open_owned: "inv s fds \<Longrightarrow> fresh os s fds \<Longrightarrow> open_stream os s fds = (True, s', fds') \<Longrightarrow>
      set fds' - owned s' = set fds - owned s"
    and open_again: "open_stream os s fds = (True, s', fds') \<Longrightarrow> open_stream os' s' fds' = (True, s', fds')"
    and dtor_owned: "inv s fds \<Longrightarrow> set (dtor s fds) = set fds - owned s"
begin

lemma open_then_destroy:
  "inv s fds \<Longrightarrow> fresh os s fds \<Longrightarrow> open_stream os s fds = (True, s', fds') \<Longrightarrow>
   set (dtor s' fds') = set fds - owned s"
  using open_inv [of s fds os True s' fds'] open_owned [of s fds os s' fds'] dtor_owned [of s' fds'] by simp

end

definition out_inv :: "ProtoStreamOut \<Rightarrow> proc_fds \<Rightarrow> bool" where
  "out_inv s fds \<longleftrightarrow> (po_out s \<longrightarrow> po_fd s \<noteq> 0) \<and> (po_fd s \<noteq> 0 \<longrightarrow> po_fd s \<in> set fds)"

definition out_owned :: "ProtoStreamOut \<Rightarrow> int set" where
  "out_owned s = {po_fd s} - {0}"

text \<open>The kernel never hands out a descriptor that is open, and not 0 while standard input is.\<close>

definition out_fresh :: "os_replies \<Rightarrow> ProtoStreamOut \<Rightarrow> proc_fds \<Rightarrow> bool" where
  "out_fresh os s fds \<longleftrightarrow> socket_ret os \<notin> set fds \<and> socket_ret os \<noteq> 0"

interpretation out_stream: stream_object out_inv get_proto_out out_owned ProtoStreamOut_dtor out_fresh
proof unfold_locales
  fix s :: ProtoStreamOut and fds fds' os os' ok s'
  show "out_inv s fds \<Longrightarrow> out_fresh os s fds \<Longrightarrow> get_proto_out os s fds = (ok, s', fds') \<Longrightarrow> out_inv s' fds'"
    by (auto simp: out_inv_def out_fresh_def get_proto_out_def clientRequestConnection_def
        SocketException_def nothing_held_def Let_def split: if_splits)
  show "out_inv s fds \<Longrightarrow> out_fresh os s fds \<Longrightarrow> get_proto_out os s fds = (True, s', fds') \<Longrightarrow>
      set fds' - out_owned s' = set fds - out_owned s"
    by (auto simp: out_owned_def out_inv_def out_fresh_def get_proto_out_def clientRequestConnection_def
        SocketException_def nothing_held_def Let_def split: if_splits)
  show "get_proto_out os s fds = (True, s', fds') \<Longrightarrow> get_proto_out os' s' fds' = (True, s', fds')"
    by (auto simp: get_proto_out_def split: if_splits prod.splits sum.splits)
  show "out_inv s fds \<Longrightarrow> set (ProtoStreamOut_dtor s fds) = set fds - out_owned s"
    by (auto simp: ProtoStreamOut_dtor_def close_proto_out_def close_fd_def out_owned_def)
qed

definition in_inv :: "ProtoStreamIn \<Rightarrow> proc_fds \<Rightarrow> bool" where
  "in_inv s fds \<longleftrightarrow> (pi_in s \<longrightarrow> pi_client_fd s \<noteq> 0) \<and> (pi_client_fd s \<noteq> 0 \<longrightarrow> pi_client_fd s \<in> set fds) \<and>
     (pi_server_fd s \<noteq> 0 \<longrightarrow> pi_server_fd s \<in> set fds)"

definition in_owned :: "ProtoStreamIn \<Rightarrow> int set" where
  "in_owned s = {pi_server_fd s, pi_client_fd s} - {0}"

definition in_fresh :: "os_replies \<Rightarrow> ProtoStreamIn \<Rightarrow> proc_fds \<Rightarrow> bool" where
  "in_fresh os s fds \<longleftrightarrow> socket_ret os \<notin> set fds \<and> socket_ret os \<noteq> 0 \<and> accept_ret os \<notin> set fds \<and>
     accept_ret os \<noteq> 0 \<and> accept_ret os \<noteq> socket_ret os"

lemmas in_stream_defs = in_inv_def in_owned_def in_fresh_def get_proto_in_def initializeServer_def
  serverAcceptConnection_def SocketException_def nothing_held_def Let_def

interpretation in_stream: stream_object in_inv get_proto_in in_owned ProtoStreamIn_dtor in_fresh
proof unfold_locales
  fix s :: ProtoStreamIn and fds fds' os os' ok s'
  show "in_inv s fds \<Longrightarrow> in_fresh os s fds \<Longrightarrow> get_proto_in os s fds = (ok, s', fds') \<Longrightarrow> in_inv s' fds'"
    by (auto simp: in_stream_defs split: if_splits)
  show "in_inv s fds \<Longrightarrow> in_fresh os s fds \<Longrightarrow> get_proto_in os s fds = (True, s', fds') \<Longrightarrow>
      set fds' - in_owned s' = set fds - in_owned s"
    by (auto simp: in_stream_defs split: if_splits)
  show "get_proto_in os s fds = (True, s', fds') \<Longrightarrow> get_proto_in os' s' fds' = (True, s', fds')"
    by (auto simp: in_stream_defs split: if_splits)
  show "in_inv s fds \<Longrightarrow> set (ProtoStreamIn_dtor s fds) = set fds - in_owned s"
    by (auto simp: ProtoStreamIn_dtor_def close_proto_in_def close_listening_socket_def close_fd_def in_owned_def)
qed

section \<open>Properties\<close>

text \<open>
  C29: A stream that is opened and destroyed leaves the process with the descriptors it had: a new
  object whose opening succeeds is destroyed with all its descriptors closed, none closed that
  it did not open, for both classes.
\<close>

theorem streams_give_back:
  assumes "out_fresh os ProtoStreamOut_ctor fds" and "get_proto_out os ProtoStreamOut_ctor fds = (True, s, fds1)"
    and "in_fresh os' ProtoStreamIn_ctor fds" and "get_proto_in os' ProtoStreamIn_ctor fds = (True, t, fds2)"
  shows "set (ProtoStreamOut_dtor s fds1) = set fds \<and> set (ProtoStreamIn_dtor t fds2) = set fds"
proof
  have "out_inv ProtoStreamOut_ctor fds" by (simp add: out_inv_def ProtoStreamOut_ctor_def)
  from out_stream.open_then_destroy [OF this assms(1,2)]
  show "set (ProtoStreamOut_dtor s fds1) = set fds" by (simp add: out_owned_def ProtoStreamOut_ctor_def)
  have "in_inv ProtoStreamIn_ctor fds" by (simp add: in_inv_def ProtoStreamIn_ctor_def)
  from in_stream.open_then_destroy [OF this assms(3,4)]
  show "set (ProtoStreamIn_dtor t fds2) = set fds" by (simp add: in_owned_def ProtoStreamIn_ctor_def)
qed

lemma streams_give_back_witness:
  "set (ProtoStreamOut_dtor \<lparr>po_fd = 3, po_out = True\<rparr> [3, 0, 1, 2]) = set [0, 1, 2] \<and>
   set (ProtoStreamIn_dtor \<lparr>pi_server_fd = 3, pi_client_fd = 4, pi_in = True\<rparr> [4, 3, 0, 1, 2]) = set [0, 1, 2]"
  by (rule streams_give_back [where os = "\<lparr>ai_status = 0, socket_ret = 3, setopt_ret = 0, bind_ret = 0, listen_ret = 0, connect_ret = 0, accept_ret = 4\<rparr>"
        and os' = "\<lparr>ai_status = 0, socket_ret = 3, setopt_ret = 0, bind_ret = 0, listen_ret = 0, connect_ret = 0, accept_ret = 4\<rparr>"])
     (simp_all add: out_fresh_def in_fresh_def get_proto_out_def get_proto_in_def clientRequestConnection_def
        initializeServer_def serverAcceptConnection_def nothing_held_def Let_def ProtoStreamOut_ctor_def ProtoStreamIn_ctor_def)

text \<open>
  A failed connection leaks: \<open>get_proto_out\<close> catches the exception and returns a null pointer,
  the object still has descriptor 0, and the socket the failed \<open>connect\<close> was called on stays
  open after the destructor.
\<close>

theorem failed_connection_leaks:
  assumes "ai_status os = 0" and "socket_ret os \<noteq> - 1" and "connect_ret os = - 1"
  shows "\<exists>s fds'. get_proto_out os ProtoStreamOut_ctor fds = (False, s, fds') \<and> s = ProtoStreamOut_ctor \<and>
    ProtoStreamOut_dtor s fds' = socket_ret os # fds"
  using assms by (simp add: get_proto_out_def clientRequestConnection_def SocketException_def nothing_held_def
      Let_def ProtoStreamOut_ctor_def ProtoStreamOut_dtor_def close_proto_out_def)

lemma failed_connection_leaks_witness:
  "\<exists>s fds'. get_proto_out \<lparr>ai_status = 0, socket_ret = 3, setopt_ret = 0, bind_ret = 0, listen_ret = 0, connect_ret = - 1, accept_ret = 4\<rparr>
      ProtoStreamOut_ctor [0, 1, 2] = (False, s, fds') \<and> s = ProtoStreamOut_ctor \<and> ProtoStreamOut_dtor s fds' = [3, 0, 1, 2]"
  using failed_connection_leaks [of "\<lparr>ai_status = 0, socket_ret = 3, setopt_ret = 0, bind_ret = 0, listen_ret = 0, connect_ret = - 1, accept_ret = 4\<rparr>" "[0, 1, 2]"]
  by simp

end
