(* ===== verification/Ring.thy ===== *)
theory Ring
  imports Prelude
begin

text \<open>
  The identifier circle: the constants of \<open>src/src/util/config.h\<close> and the digest arithmetic of
  \<open>src/src/util/util.cpp\<close>, followed by the mathematical circle (clockwise distance modulo
  2^16, successor and predecessor of a point in a set of nodes) against which they are proved.
  A \<open>digest_t\<close> is a C++ \<open>long\<close>. The model uses \<open>int\<close>: the theorems below are about digests in
  range, for which every intermediate value stays below 2^17 in absolute value, so that
  neither 64-bit overflow nor the rounding of the \<open>double\<close> operands (\<open>pow\<close>) can occur.
\<close>

section \<open>Constants (config.h)\<close>

type_synonym digest = int

definition listening_port_num :: string where
  "listening_port_num = ''8888''"

definition user_interface_port_num :: string where
  "user_interface_port_num = ''8889''"

definition finger_table_length :: nat where
  "finger_table_length = 16"

definition total_hash_points :: digest where
  "total_hash_points = 2 ^ finger_table_length"

lemma finger_table_length_val [config_simps]: "finger_table_length = 16"
  by (simp add: finger_table_length_def)

lemma total_hash_points_val [config_simps]: "total_hash_points = 65536"
  by (simp add: total_hash_points_def config_simps)

section \<open>Digest arithmetic (util.cpp)\<close>

text \<open>The clockwise number of steps from \<open>base\<close> to \<open>target\<close>; a full circle if they coincide.\<close>

definition get_distance :: "digest \<Rightarrow> digest \<Rightarrow> digest" where
  "get_distance base target =
     (let d = target - base
      in if d < 0 then d + 2 ^ finger_table_length
         else if d = 0 then 2 ^ finger_table_length
         else d)"

definition hash_value_add :: "digest \<Rightarrow> digest \<Rightarrow> digest res" where
  "hash_value_add h num =
     (if \<bar>num\<bar> < total_hash_points
      then let r = h + num
           in Inr (if r < 0 then r + total_hash_points
                   else if r \<ge> total_hash_points then r - total_hash_points
                   else r)
      else Inl Assert_fail)"

text \<open>
  \<open>rand()\<close> returns some non-negative \<open>int\<close>; the argument is the value it returned.
\<close>

definition get_random_port :: "nat \<Rightarrow> nat" where
  "get_random_port rnd = rnd mod (65535 - 10000 + 1) + 10000"

section \<open>The circle\<close>

definition in_ring :: "digest \<Rightarrow> bool" where
  "in_ring x \<longleftrightarrow> 0 \<le> x \<and> x < 65536"

definition cdist :: "digest \<Rightarrow> digest \<Rightarrow> digest" where
  "cdist a b = (b - a) mod 65536"

lemma cdist_in: "in_ring a \<Longrightarrow> in_ring b \<Longrightarrow> cdist a b = (if a \<le> b then b - a else b - a + 65536)"
proof -
  assume a: "in_ring a" and b: "in_ring b"
  have "(b - a) mod 65536 = (b - a + 65536) mod 65536" by simp
  moreover have "(b - a + 65536) mod 65536 = b - a + 65536" if "\<not> a \<le> b"
    using a b that by (intro mod_pos_pos_trivial) (auto simp: in_ring_def)
  moreover have "(b - a) mod 65536 = b - a" if "a \<le> b"
    using a b that by (intro mod_pos_pos_trivial) (auto simp: in_ring_def)
  ultimately show ?thesis by (simp add: cdist_def)
qed

lemma cdist_range: "0 \<le> cdist a b" "cdist a b < 65536"
  by (simp_all add: cdist_def)

lemma cdist_self [simp]: "cdist a a = 0"
  by (simp add: cdist_def)

lemma cdist_eq_0: "in_ring a \<Longrightarrow> in_ring b \<Longrightarrow> cdist a b = 0 \<longleftrightarrow> a = b"
  by (auto simp: cdist_in in_ring_def)

text \<open>
  The one fact the arithmetic of the circle rests on: going from \<open>a\<close> to \<open>c\<close> by way of \<open>b\<close>
  costs the direct distance, or one full turn more. Everything below follows from it by linear
  arithmetic.
\<close>

lemma cdist_triangle:
  assumes "in_ring a" "in_ring b" "in_ring c"
  shows "cdist a b + cdist b c = cdist a c \<or> cdist a b + cdist b c = cdist a c + 65536"
  using assms by (auto simp: cdist_in)

lemma cdist_back: "in_ring a \<Longrightarrow> in_ring b \<Longrightarrow> a \<noteq> b \<Longrightarrow> cdist a b + cdist b a = 65536"
  by (auto simp: cdist_in)

text \<open>The point \<open>n\<close> steps clockwise of \<open>h\<close>.\<close>

definition ring_add :: "digest \<Rightarrow> digest \<Rightarrow> digest" where
  "ring_add h n = (h + n) mod 65536"

lemma in_ring_add [simp]: "in_ring (ring_add h n)"
  by (simp add: in_ring_def ring_add_def)

lemma cdist_ring_add: "0 \<le> n \<Longrightarrow> n < 65536 \<Longrightarrow> cdist a (ring_add a n) = n"
  by (simp add: cdist_def ring_add_def mod_diff_left_eq)

lemma ring_add_cdist: "in_ring b \<Longrightarrow> ring_add a (cdist a b) = b"
  by (simp add: cdist_def ring_add_def in_ring_def mod_add_right_eq)

lemma ring_add_cases:
  "in_ring h \<Longrightarrow> \<bar>n\<bar> < 65536 \<Longrightarrow>
   ring_add h n = (if h + n < 0 then h + n + 65536 else if 65536 \<le> h + n then h + n - 65536 else h + n)"
proof -
  assume h: "in_ring h" and n: "\<bar>n\<bar> < 65536"
  have "(h + n) mod 65536 = (h + n + 65536) mod 65536" by simp
  moreover have "(h + n) mod 65536 = (h + n - 65536) mod 65536" by simp
  ultimately show ?thesis
    using h n unfolding ring_add_def in_ring_def
    by (auto simp: mod_pos_pos_trivial simp del: mod_add_self2 minus_mod_self2)
qed

section \<open>The code's arithmetic computes on the circle\<close>

lemma get_distance_cdist [ring_simps]:
  "in_ring a \<Longrightarrow> in_ring b \<Longrightarrow> get_distance a b = (if a = b then 65536 else cdist a b)"
  by (auto simp: get_distance_def cdist_in Let_def config_simps)

lemma hash_value_add_ring_add [ring_simps]:
  "in_ring h \<Longrightarrow> \<bar>n\<bar> < 65536 \<Longrightarrow> hash_value_add h n = Inr (ring_add h n)"
  by (auto simp: hash_value_add_def ring_add_cases Let_def config_simps)

lemma hash_value_add_assert: "65536 \<le> \<bar>n\<bar> \<Longrightarrow> hash_value_add h n = Inl Assert_fail"
  by (auto simp: hash_value_add_def config_simps)

section \<open>Successors and predecessors in a set of nodes\<close>

definition succ_of :: "digest set \<Rightarrow> digest \<Rightarrow> digest \<Rightarrow> bool" where
  "succ_of N x s \<longleftrightarrow> s \<in> N \<and> (\<forall>m \<in> N. cdist x s \<le> cdist x m)"

definition pred_of :: "digest set \<Rightarrow> digest \<Rightarrow> digest \<Rightarrow> bool" where
  "pred_of N x p \<longleftrightarrow> p \<in> N \<and> (\<forall>m \<in> N. get_distance p x \<le> get_distance m x)"

definition ring_set :: "digest set \<Rightarrow> bool" where
  "ring_set N \<longleftrightarrow> finite N \<and> N \<noteq> {} \<and> (\<forall>x \<in> N. in_ring x)"

lemma ring_setD: "ring_set N \<Longrightarrow> x \<in> N \<Longrightarrow> in_ring x"
  by (simp add: ring_set_def)

lemma ring_set_insert: "ring_set N \<Longrightarrow> in_ring x \<Longrightarrow> ring_set (insert x N)"
  by (simp add: ring_set_def)

lemma succ_ofD: "succ_of N x s \<Longrightarrow> s \<in> N" "succ_of N x s \<Longrightarrow> m \<in> N \<Longrightarrow> cdist x s \<le> cdist x m"
  by (simp_all add: succ_of_def)

lemma finite_min_exists:
  fixes f :: "'a \<Rightarrow> 'b::linorder"
  assumes "finite N" and "N \<noteq> {}"
  shows "\<exists>s \<in> N. \<forall>m \<in> N. f s \<le> f m"
  using ex_min_if_finite [of "f ` N"] assms by (auto simp: not_less)

lemma succ_of_exists: "ring_set N \<Longrightarrow> \<exists>s. succ_of N x s"
  using finite_min_exists [of N "cdist x"] by (auto simp: succ_of_def ring_set_def)

lemma pred_of_exists: "ring_set N \<Longrightarrow> \<exists>p. pred_of N x p"
  using finite_min_exists [of N "\<lambda>m. get_distance m x"] by (auto simp: pred_of_def ring_set_def)

lemma cdist_inject:
  assumes "in_ring a" "in_ring b" "in_ring c" and "cdist a b = cdist a c"
  shows "b = c"
  using assms by (auto simp: cdist_in in_ring_def split: if_splits)

lemma cdist_inject_left:
  assumes "cdist a c = cdist b c" and "in_ring a" "in_ring b" "in_ring c"
  shows "a = b"
  using assms by (auto simp: cdist_in in_ring_def split: if_splits)

lemma succ_of_unique: "ring_set N \<Longrightarrow> in_ring x \<Longrightarrow> succ_of N x s \<Longrightarrow> succ_of N x t \<Longrightarrow> s = t"
  by (meson antisym cdist_inject ring_setD succ_ofD)

lemma succ_of_self: "x \<in> N \<Longrightarrow> succ_of N x x"
  by (simp add: succ_of_def cdist_range)

lemma succ_of_singleton: "succ_of {a} x a"
  by (simp add: succ_of_def)

section \<open>Properties\<close>

text \<open>
  \<open>hash_value_add\<close> adds on the circle, in both directions: less than one turn gives the sum
  reduced to the circle, one turn or more violates the assertion.
\<close>

theorem hash_value_add_wraps:
  assumes "in_ring h"
  shows "hash_value_add h n = (if \<bar>n\<bar> \<ge> 65536 then Inl Assert_fail else Inr ((h + n) mod 65536))"
  using assms hash_value_add_assert [of n h] by (simp add: hash_value_add_ring_add ring_add_def)

lemma hash_value_add_wraps_witness: "hash_value_add 5 (- 32768) = Inr 32773 \<and> hash_value_add 5 65536 = Inl Assert_fail"
  using hash_value_add_wraps [of 5 "- 32768"] hash_value_add_wraps [of 5 65536] by (simp add: in_ring_def)

text \<open>
  \<open>get_distance\<close> is the clockwise distance, in the range from 1 to a whole turn: two equal
  digests are a whole turn apart, and going that far from the first reaches the second.
\<close>

theorem get_distance_turn:
  assumes "in_ring a" and "in_ring b"
  shows "1 \<le> get_distance a b \<and> get_distance a b \<le> 65536 \<and> (a + get_distance a b) mod 65536 = b \<and>
    (get_distance a b = 65536) = (a = b)"
proof (cases "a = b")
  case True
  then show ?thesis using assms by (simp add: get_distance_cdist in_ring_def)
next
  case False
  then show ?thesis
    using assms ring_add_cdist [of b a] cdist_range [of a b] cdist_eq_0 [of a b]
    by (simp add: get_distance_cdist ring_add_def)
qed

lemma get_distance_turn_witness:
  "1 \<le> get_distance 65000 3 \<and> get_distance 65000 3 \<le> 65536 \<and> (65000 + get_distance 65000 3) mod 65536 = 3 \<and>
    (get_distance 65000 3 = 65536) = (65000 = (3 :: int))"
  by (rule get_distance_turn) (simp_all add: in_ring_def)

end
