(* ===== verification/Successor.thy ===== *)
theory Successor
  imports Ring
begin

text \<open>
  Facts about successors on the circle that the routing and joining code relies on: a finger
  either reaches the responsible node or halves the distance, a node is responsible exactly
  for the digests whose successor it is, and how successors change when a node is added. All
  are stated over an arbitrary set of node digests and proved from the triangle law.
\<close>

section \<open>Integer logarithm\<close>

text \<open>
  \<open>(int)log2(d)\<close> for a positive \<open>d\<close>: the position of the highest set bit. (The C library's
  \<open>log2\<close> is exact on powers of two and the gaps to the next integer are far above one unit in
  the last place for the distances that occur, so truncation gives the integer logarithm.)
\<close>

fun ilog2 :: "nat \<Rightarrow> nat" where
  "ilog2 d = (if d < 2 then 0 else Suc (ilog2 (d div 2)))"

declare ilog2.simps [simp del]

lemma ilog2_bounds: "0 < d \<Longrightarrow> 2 ^ ilog2 d \<le> d \<and> d < 2 ^ Suc (ilog2 d)"
proof (induction d rule: ilog2.induct)
  case (1 d)
  show ?case
  proof (cases "d < 2")
    case True
    with 1 show ?thesis by (simp add: ilog2.simps)
  next
    case False
    with 1 have "2 ^ ilog2 (d div 2) \<le> d div 2 \<and> d div 2 < 2 ^ Suc (ilog2 (d div 2))"
      by auto
    with False show ?thesis by (subst (1 2) ilog2.simps) auto
  qed
qed

lemma ilog2_less: "d < 2 ^ k \<Longrightarrow> 0 < d \<Longrightarrow> ilog2 d < k"
proof -
  assume "d < 2 ^ k" and "0 < d"
  then have "(2::nat) ^ ilog2 d < 2 ^ k" using ilog2_bounds [of d] by linarith
  then show ?thesis by simp
qed

lemma ilog2_eqI: "2 ^ k \<le> d \<Longrightarrow> d < 2 ^ Suc k \<Longrightarrow> ilog2 d = k"
proof -
  assume d: "2 ^ k \<le> d" "d < 2 ^ Suc k"
  have "0 < (2::nat) ^ k" by simp
  with d(1) have "0 < d" by linarith
  then have "(2::nat) ^ ilog2 d < 2 ^ Suc k" "(2::nat) ^ k < 2 ^ Suc (ilog2 d)"
    using ilog2_bounds [of d] d by linarith+
  then have "ilog2 d < Suc k" "k < Suc (ilog2 d)"
    by (simp_all only: power_strict_increasing_iff one_less_numeral_iff semiring_norm)
  then show ?thesis by simp
qed

lemma ilog2_exact: "ilog2 (2 ^ i) = i"
  by (rule ilog2_eqI) simp_all

lemma ilog2_int_bounds: "0 < d \<Longrightarrow> 2 ^ ilog2 (nat d) \<le> d \<and> d < 2 * 2 ^ ilog2 (nat d)"
  using ilog2_bounds [of "nat d"] by (simp add: nat_less_iff le_nat_iff)

section \<open>Fingers\<close>

lemma ring_add_pos:
  assumes "in_ring p" "in_ring h" "0 < K" "K \<le> cdist p h"
  shows "cdist (ring_add p K) h = cdist p h - K"
  using cdist_triangle [of p "ring_add p K" h] cdist_ring_add [of K p]
    cdist_range [of p h] cdist_range [of "ring_add p K" h] assms
  by auto

text \<open>
  The finger for a power of two not above the distance to the target either is the target's
  successor or lies strictly between: the remaining distance drops below that power.
\<close>

lemma finger_progress:
  assumes N: "ring_set N" and p: "in_ring p" and h: "in_ring h"
    and K: "0 < K" "K \<le> cdist p h" "cdist p h < 2 * K"
    and f: "succ_of N (ring_add p K) f"
  shows "succ_of N h f \<or> 0 < cdist f h \<and> cdist f h < K"
proof -
  let ?q = "ring_add p K"
  have qh: "cdist ?q h = cdist p h - K" using p h K(1,2) by (rule ring_add_pos)
  have f_in: "in_ring f" "f \<in> N" using N f by (auto dest: succ_ofD ring_setD)
  show ?thesis
  proof (cases "cdist ?q h \<le> cdist ?q f")
    case True
    have past: "cdist h m = cdist ?q m - cdist ?q h" if "m \<in> N" "cdist ?q h \<le> cdist ?q m" for m
      using cdist_triangle [of ?q h m] that h N ring_setD [OF N that(1)]
        cdist_range [of h m] cdist_range [of ?q m] by auto
    have "cdist h f \<le> cdist h m" if "m \<in> N" for m
      using past [of m] past [of f] that f_in True succ_ofD(2) [OF f that] by linarith
    with f_in have "succ_of N h f" by (simp add: succ_of_def)
    then show ?thesis ..
  next
    case False
    then have "cdist f h = cdist ?q h - cdist ?q f"
      using cdist_triangle [of ?q f h] f_in h cdist_range [of f h] by auto
    with False qh K cdist_range [of ?q f] show ?thesis by linarith
  qed
qed

section \<open>Responsibility\<close>

text \<open>
  With \<open>p\<close> the predecessor of \<open>me\<close>, the digests whose successor is \<open>me\<close> are those in the
  half-open arc from \<open>p\<close> (excluded) to \<open>me\<close> (included).
\<close>

lemma succ_of_iff_arc:
  assumes N: "ring_set N" and me: "me \<in> N" and p: "pred_of N me p" and h: "in_ring h"
  shows "succ_of N h me \<longleftrightarrow> cdist h me < get_distance p me"
proof -
  have me_in: "in_ring me" and p_in: "in_ring p" "p \<in> N"
    using N me p by (auto simp: pred_of_def dest: ring_setD)
  show ?thesis
  proof
    assume s: "succ_of N h me"
    show "cdist h me < get_distance p me"
    proof (cases "p = me")
      case True
      then show ?thesis using me_in by (simp add: ring_simps cdist_range)
    next
      case False
      have "cdist h me \<le> cdist h p" using s p_in by (auto dest: succ_ofD)
      moreover have "cdist h me \<noteq> cdist h p"
        using False cdist_inject [OF h me_in p_in(1)] by blast
      ultimately have "cdist h p + cdist p me = cdist h me + 65536"
        using cdist_triangle [of h p me] h p_in me_in cdist_range [of p me] by linarith
      moreover have "cdist h p < 65536" by (rule cdist_range)
      ultimately show ?thesis using False me_in p_in by (simp add: ring_simps)
    qed
  next
    assume lt: "cdist h me < get_distance p me"
    have "cdist h me \<le> cdist h m" if m: "m \<in> N" for m
    proof (rule ccontr)
      assume nle: "\<not> cdist h me \<le> cdist h m"
      then have "m \<noteq> me" by auto
      have m_in: "in_ring m" using N m by (rule ring_setD)
      have "cdist h m + cdist m me = cdist h me"
        using cdist_triangle [of h m me] h m_in me_in nle cdist_range [of m me] by linarith
      moreover have "get_distance p me \<le> get_distance m me" using p m by (simp add: pred_of_def)
      moreover have "get_distance m me = cdist m me"
        using m_in me_in \<open>m \<noteq> me\<close> by (simp add: ring_simps)
      ultimately show False using lt cdist_range [of h m] by linarith
    qed
    with me show "succ_of N h me" by (simp add: succ_of_def)
  qed
qed

section \<open>Adding a node\<close>

text \<open>The update rule of \<open>handle_update_route_req\<close> turns fingers for \<open>N\<close> into fingers for
  \<open>insert x N\<close>.\<close>

lemma finger_distance:
  assumes N: "ring_set N" and p: "p \<in> N" and K: "0 < K" "K < 65536"
    and f: "succ_of N (ring_add p K) f"
  shows "get_distance p f = K + cdist (ring_add p K) f"
proof -
  let ?q = "ring_add p K"
  have in_p: "in_ring p" and f_in: "in_ring f" using N p f by (auto dest: succ_ofD ring_setD)
  have pq: "cdist p ?q = K" using K by (simp add: cdist_ring_add)
  have "?q \<noteq> p" using pq K by auto
  then have qp: "cdist ?q p = 65536 - K" using cdist_back [of p ?q] in_p pq by auto
  have "cdist ?q f \<le> cdist ?q p" using f p by (auto dest: succ_ofD)
  then show ?thesis
    using cdist_triangle [of p ?q f] in_p f_in pq qp cdist_eq_0 [of p f] cdist_range [of p f]
    by (auto simp: ring_simps)
qed

lemma finger_update:
  assumes N: "ring_set N" and p: "p \<in> N" and x: "in_ring x" "x \<notin> N"
    and K: "0 < K" "K < 65536" and f: "succ_of N (ring_add p K) f"
  shows "succ_of (insert x N) (ring_add p K)
           (if K \<le> get_distance p x \<and> get_distance p x < get_distance p f then x else f)"
proof -
  let ?q = "ring_add p K"
  have in_p: "in_ring p" and f_in: "f \<in> N" using N p f by (auto dest: succ_ofD ring_setD)
  have px: "get_distance p x = cdist p x" using in_p x p by (auto simp: ring_simps)
  have pq: "cdist p ?q = K" using K by (simp add: cdist_ring_add)
  have df: "get_distance p f = K + cdist ?q f" using N p K f by (rule finger_distance)
  have df_le: "get_distance p f \<le> 65536"
    using in_p N f_in cdist_range(2) [of p f] by (auto simp: ring_simps dest: ring_setD)
  have tri: "K + cdist ?q x = cdist p x \<or> K + cdist ?q x = cdist p x + 65536"
    using cdist_triangle [of p ?q x] in_p x pq by auto
  show ?thesis
  proof (cases "K \<le> get_distance p x \<and> get_distance p x < get_distance p f")
    case True
    then have "cdist ?q x < cdist ?q f"
      using tri px df cdist_range [of ?q x] by linarith
    with True f show ?thesis by (force simp: succ_of_def)
  next
    case False
    then have "cdist ?q f \<le> cdist ?q x"
      using tri px df df_le cdist_range [of p x] cdist_range [of ?q x] by linarith
    with False f show ?thesis by (auto simp: succ_of_def)
  qed
qed

text \<open>The choice \<open>help_join_req_handle\<close> makes for each finger of the new node.\<close>

lemma new_finger:
  assumes N: "ring_set N" and e: "in_ring e" and x: "in_ring x" "x \<notin> N" "e \<noteq> x"
    and r: "succ_of N e r" and no_hit: "r \<noteq> e"
  shows "succ_of (insert x N) e (if get_distance e r > get_distance e x then x else r)"
proof -
  have "get_distance e r = cdist e r" "get_distance e x = cdist e x"
    using assms by (auto simp: ring_simps dest: succ_ofD ring_setD)
  with r show ?thesis by (auto simp: succ_of_def intro: order_trans)
qed

text \<open>When the successor sits exactly on the looked-up point, the same choice takes the new node.\<close>

lemma new_finger_exact_hit:
  assumes "in_ring e" "in_ring x" "e \<noteq> x"
  shows "get_distance e e > get_distance e x"
  using assms cdist_range [of e x] by (simp add: ring_simps)

text \<open>The test by which \<open>help_join_req_handle\<close> hands a file over to the new node.\<close>

lemma handover_iff:
  assumes N: "ring_set N" and x: "in_ring x" "x \<notin> N" and me: "succ_of N x me"
    and f: "in_ring f" "succ_of N f me" "f \<noteq> me" "f \<noteq> x"
  shows "get_distance f me > get_distance x me \<longleftrightarrow> succ_of (insert x N) f x"
proof -
  have me_in: "in_ring me" "me \<noteq> x" using N x me by (auto dest: succ_ofD ring_setD)
  have dist: "get_distance f me = cdist f me" "get_distance x me = cdist x me"
    using me_in x f by (simp_all add: ring_simps)
  have fx: "0 < cdist f x" using f x cdist_eq_0 [of f x] cdist_range [of f x] by linarith
  have tri: "cdist f x + cdist x me = cdist f me \<or> cdist f x + cdist x me = cdist f me + 65536"
    using f x me_in by (intro cdist_triangle)
  show ?thesis
  proof
    assume "get_distance f me > get_distance x me"
    then have "cdist f x \<le> cdist f me" using tri dist cdist_range [of f x] cdist_range [of x me] by linarith
    with f show "succ_of (insert x N) f x" by (auto simp: succ_of_def intro: order_trans)
  next
    assume "succ_of (insert x N) f x"
    moreover have "me \<in> insert x N" using me by (auto dest: succ_ofD)
    ultimately have "cdist f x \<le> cdist f me" by (rule succ_ofD)
    moreover have "cdist x me < 65536" by (rule cdist_range)
    ultimately have "cdist f x + cdist x me = cdist f me" using tri by linarith
    with fx dist show "get_distance f me > get_distance x me" by linarith
  qed
qed

text \<open>The new node splits exactly one arc: the responsibilities of the other nodes are unchanged.\<close>

lemma succ_of_insert_other:
  assumes "succ_of N h s" and "\<not> succ_of (insert x N) h x"
  shows "succ_of (insert x N) h s"
  using assms by (force simp: succ_of_def)

lemma succ_of_before:
  assumes N: "ring_set N" and x: "in_ring x" and me: "succ_of N x me" and k: "in_ring k" "succ_of (insert x N) k x"
  shows "succ_of N k me"
proof -
  have split: "cdist k m = cdist k x + cdist x m" if m: "m \<in> N" for m
    using cdist_triangle [of k x m] k x ring_setD [OF N m] succ_ofD(2) [OF k(2), of m] m
      cdist_range [of x m] cdist_range [of k m] by auto
  show ?thesis using me split by (simp add: succ_of_def)
qed

lemma pred_of_new:
  assumes N: "ring_set N" and x: "in_ring x" "x \<notin> N" and me: "succ_of N x me"
  shows "pred_of (insert x N) me x"
proof -
  have me_in: "in_ring me" "me \<in> N" "me \<noteq> x" using N x me by (auto dest: succ_ofD ring_setD)
  have "get_distance x me \<le> get_distance m me" if m: "m \<in> N" for m
  proof (cases "m = me")
    case True
    then show ?thesis using me_in x cdist_range [of x me] by (simp add: ring_simps)
  next
    case False
    have m_in: "in_ring m" using N m by (rule ring_setD)
    have le: "cdist x me \<le> cdist x m" using me m by (rule succ_ofD)
    have "cdist m me + cdist me m = 65536" using False m_in me_in by (intro cdist_back) auto
    moreover have "cdist x me + cdist me m = cdist x m \<or> cdist x me + cdist me m = cdist x m + 65536"
      using x me_in m_in by (intro cdist_triangle)
    ultimately have "cdist x me \<le> cdist m me"
      using le cdist_range [of x m] cdist_range [of me m] by linarith
    with False me_in m_in x show ?thesis by (simp add: ring_simps)
  qed
  then show ?thesis by (simp add: pred_of_def)
qed

section \<open>Going round towards the new node\<close>

lemma cdist_after:
  assumes "in_ring p" "in_ring m" "m \<noteq> p"
  shows "cdist (ring_add p 1) m = cdist p m - 1"
  using assms cdist_eq_0 [of p m] cdist_range [of p m] by (intro ring_add_pos) auto

lemma cdist_after_self: "in_ring p \<Longrightarrow> cdist (ring_add p 1) p = 65535"
  using cdist_back [of p "ring_add p 1"] cdist_ring_add [of 1 p] by force

lemma closer_between:
  assumes "in_ring p" "in_ring m" "in_ring x" and "cdist m x < cdist p x"
  shows "cdist p m = cdist p x - cdist m x" and "m \<noteq> p"
  using assms cdist_triangle [of p m x] cdist_range [of p m] by auto

text \<open>
  From a node \<open>p\<close>, the successor of the next point is either the new node, and then \<open>p\<close> is its
  predecessor, or the next node on the way towards it, with none in between.
\<close>

lemma walk_last:
  assumes N: "ring_set N" and p: "p \<in> N" and x: "in_ring x" "x \<notin> N"
    and s: "succ_of (insert x N) (ring_add p 1) x"
  shows "m \<in> N \<Longrightarrow> cdist p x \<le> cdist m x" and "pred_of (insert x N) x p"
proof -
  have p_in: "in_ring p" "p \<noteq> x" using N p x by (auto dest: ring_setD)
  show closest: "cdist p x \<le> cdist m x" if m: "m \<in> N" for m
  proof (rule ccontr)
    assume "\<not> cdist p x \<le> cdist m x"
    moreover have m_in: "in_ring m" "m \<noteq> x" using N m x by (auto dest: ring_setD)
    ultimately have b: "cdist p m = cdist p x - cdist m x" "m \<noteq> p"
      using closer_between [of p m x] p_in x by auto
    have "cdist (ring_add p 1) x \<le> cdist (ring_add p 1) m" using s m by (auto dest: succ_ofD)
    then have "cdist m x \<le> 0" using b p_in m_in x by (simp add: cdist_after)
    then show False using m_in x cdist_eq_0 [of m x] cdist_range [of m x] by linarith
  qed
  show "pred_of (insert x N) x p"
    using closest p p_in x N cdist_range [of p x]
    by (auto simp: pred_of_def ring_simps dest: ring_setD)
qed

lemma walk_further:
  assumes N: "ring_set N" and p: "p \<in> N" and x: "in_ring x" "x \<notin> N"
    and s: "succ_of (insert x N) (ring_add p 1) f" and f: "f \<noteq> x"
  shows "f \<in> N" and "cdist f x < cdist p x"
    and "m \<in> N \<Longrightarrow> cdist m x < cdist p x \<Longrightarrow> cdist m x \<le> cdist f x"
proof -
  have p_in: "in_ring p" "p \<noteq> x" using N p x by (auto dest: ring_setD)
  show fN: "f \<in> N" using s f by (auto dest: succ_ofD)
  then have f_in: "in_ring f" using N by (auto dest: ring_setD)
  have le: "cdist (ring_add p 1) f \<le> cdist p x - 1"
    using succ_ofD(2) [OF s, of x] p_in x by (simp add: cdist_after)
  have fp: "f \<noteq> p" using le cdist_after_self [OF p_in(1)] cdist_range [of p x] by auto
  then have "cdist p f \<le> cdist p x" using le f_in p_in by (simp add: cdist_after)
  then have fx: "cdist f x = cdist p x - cdist p f"
    using cdist_triangle [of p f x] p_in f_in x cdist_range [of f x] by auto
  then show "cdist f x < cdist p x"
    using fp p_in f_in cdist_eq_0 [of p f] cdist_range [of p f] by auto
  show "cdist m x \<le> cdist f x" if m: "m \<in> N" and lt: "cdist m x < cdist p x"
  proof -
    have m_in: "in_ring m" using N m by (rule ring_setD)
    have b: "cdist p m = cdist p x - cdist m x" "m \<noteq> p"
      using closer_between [OF p_in(1) m_in x(1) lt] by auto
    have "cdist (ring_add p 1) f \<le> cdist (ring_add p 1) m" using s m by (auto dest: succ_ofD)
    with fx b fp p_in f_in m_in show ?thesis by (simp add: cdist_after)
  qed
qed

text \<open>The predecessor of every other node stays the same.\<close>

lemma pred_of_insert_other:
  assumes N: "ring_set N" and x: "in_ring x" "x \<notin> N" and me: "me \<in> N"
    and p: "pred_of N me p" and not: "\<not> succ_of N x me"
  shows "pred_of (insert x N) me p"
proof -
  have "me \<noteq> x" using me x by auto
  moreover have "get_distance p me \<le> cdist x me"
    using not succ_of_iff_arc [OF N me p x(1)] by simp
  ultimately show ?thesis
    using p x ring_setD [OF N me] by (auto simp: pred_of_def get_distance_cdist)
qed

end
