(* ===== verification/Umap.thy ===== *)
theory Umap
  imports Prelude "HOL-Library.AList"
begin

text \<open>
  \<open>std::unordered_map\<close> as the program uses it (the DHT and the table of local files): an
  association list whose order is the iteration order of the container, which C++ leaves open.
  The interface \<open>unordered_map\<close> states what the program relies on, by way of the partial
  function a container denotes; its lemmas are what the clients use, and the interpretation
  at the end discharges it for the association lists of the model.
\<close>

type_synonym ('k, 'v) umap = "('k \<times> 'v) list"

section \<open>Operations\<close>

definition um_find :: "('k, 'v) umap \<Rightarrow> 'k \<Rightarrow> 'v option" where
  "um_find m k = map_of m k"

definition um_count :: "('k, 'v) umap \<Rightarrow> 'k \<Rightarrow> nat" where
  "um_count m k = (case map_of m k of None \<Rightarrow> 0 | Some v \<Rightarrow> 1)"

text \<open>\<open>m[k] = v\<close>\<close>

definition um_put :: "'k \<Rightarrow> 'v \<Rightarrow> ('k, 'v) umap \<Rightarrow> ('k, 'v) umap" where
  "um_put k v m = AList.update k v m"

text \<open>\<open>m.insert({k, v})\<close>: keeps an entry that is already there.\<close>

definition um_insert :: "'k \<Rightarrow> 'v \<Rightarrow> ('k, 'v) umap \<Rightarrow> ('k, 'v) umap" where
  "um_insert k v m = (case map_of m k of None \<Rightarrow> m @ [(k, v)] | Some _ \<Rightarrow> m)"

definition um_erase :: "'k \<Rightarrow> ('k, 'v) umap \<Rightarrow> ('k, 'v) umap" where
  "um_erase k m = AList.delete k m"

text \<open>
  \<open>m[k]\<close> read as an rvalue: the value, and the container, in which a missing key has been
  added with the default value of the element type.
\<close>

definition um_index :: "'v \<Rightarrow> 'k \<Rightarrow> ('k, 'v) umap \<Rightarrow> 'v \<times> ('k, 'v) umap" where
  "um_index d k m = (case map_of m k of None \<Rightarrow> (d, m @ [(k, d)]) | Some v \<Rightarrow> (v, m))"

definition um_wf :: "('k, 'v) umap \<Rightarrow> bool" where
  "um_wf m \<longleftrightarrow> distinct (map fst m)"

section \<open>The interface\<close>

locale unordered_map =
  fixes wf :: "'m \<Rightarrow> bool"
    and find :: "'m \<Rightarrow> 'k \<Rightarrow> 'v option"
    and empty :: "'m"
    and put :: "'k \<Rightarrow> 'v \<Rightarrow> 'm \<Rightarrow> 'm"
    and insert :: "'k \<Rightarrow> 'v \<Rightarrow> 'm \<Rightarrow> 'm"
    and erase :: "'k \<Rightarrow> 'm \<Rightarrow> 'm"
  assumes wf_empty: "wf empty"
    and wf_put: "wf m \<Longrightarrow> wf (put k v m)"
    and wf_insert: "wf m \<Longrightarrow> wf (insert k v m)"
    and wf_erase: "wf m \<Longrightarrow> wf (erase k m)"
    and find_empty: "find empty = Map.empty"
    and find_put: "wf m \<Longrightarrow> find (put k v m) = (find m)(k \<mapsto> v)"
    and find_insert: "wf m \<Longrightarrow> find (insert k v m) = (case find m k of None \<Rightarrow> (find m)(k \<mapsto> v) | Some _ \<Rightarrow> find m)"
    and find_erase: "wf m \<Longrightarrow> find (erase k m) = (find m)(k := None)"
begin

lemma put_same: "wf m \<Longrightarrow> find (put k v m) k = Some v"
  by (simp add: find_put)

lemma put_erase: "wf m \<Longrightarrow> find m k = None \<Longrightarrow> find (erase k (put k v m)) = find m"
  by (simp add: find_put find_erase wf_put fun_eq_iff)

lemma insert_keeps: "wf m \<Longrightarrow> find m k = Some w \<Longrightarrow> find (insert k' v m) k = Some w"
  by (auto simp: find_insert split: option.splits)

text \<open>A loop that inserts the entries of a list one after the other.\<close>

lemma fold_insert:
  "wf m \<Longrightarrow> wf (fold (\<lambda>(k, v). insert k v) kvs m) \<and>
   find (fold (\<lambda>(k, v). insert k v) kvs m) = map_of kvs ++ find m"
proof (induction kvs arbitrary: m)
  case Nil
  then show ?case by simp
next
  case (Cons kv kvs)
  obtain k v where kv: "kv = (k, v)" by (cases kv)
  have "map_of kvs ++ find (insert k v m) = (map_of kvs)(k \<mapsto> v) ++ find m"
    using Cons.prems by (auto simp: find_insert map_add_def fun_eq_iff split: option.splits)
  with Cons kv show ?case by (simp add: wf_insert fun_upd_def)
qed

end

section \<open>The model implements it\<close>

interpretation um: unordered_map um_wf um_find "[]" um_put um_insert um_erase
proof unfold_locales
  show "um_wf []" by (simp add: um_wf_def)
  show "um_wf (um_put k v m)" if "um_wf m" for k :: 'k and v :: 'v and m
    using that by (simp add: um_wf_def um_put_def distinct_update)
  show "um_wf (um_insert k v m)" if "um_wf m" for k :: 'k and v :: 'v and m
    using that by (auto simp: um_wf_def um_insert_def map_of_eq_None_iff split: option.splits)
  show "um_wf (um_erase k m)" if "um_wf m" for k :: 'k and m :: "('k, 'v) umap"
    using that by (simp add: um_wf_def um_erase_def distinct_delete)
  show "um_find [] = Map.empty" by (simp add: um_find_def fun_eq_iff)
  show "um_find (um_put k v m) = (um_find m)(k \<mapsto> v)" for k :: 'k and v :: 'v and m
    by (simp add: um_find_def um_put_def update_conv' fun_eq_iff)
  show "um_find (um_insert k v m) =
      (case um_find m k of None \<Rightarrow> (um_find m)(k \<mapsto> v) | Some _ \<Rightarrow> um_find m)"
    for k :: 'k and v :: 'v and m
    by (auto simp: um_find_def um_insert_def fun_eq_iff map_add_def split: option.splits)
  show "um_find (um_erase k m) = (um_find m)(k := None)" for k :: 'k and m :: "('k, 'v) umap"
    by (simp add: um_find_def um_erase_def delete_conv' fun_eq_iff)
qed

lemma um_count_find: "um_count m k = (if um_find m k = None then 0 else 1)"
  by (simp add: um_count_def um_find_def split: option.splits)

lemma um_index_find:
  "um_index d k m = (v, m') \<Longrightarrow> um_find m' = (um_find m)(k \<mapsto> v) \<and>
     v = (case um_find m k of None \<Rightarrow> d | Some w \<Rightarrow> w)"
  by (auto simp: um_index_def um_find_def fun_eq_iff map_add_def split: option.splits if_splits)

lemma um_index_wf: "um_wf m \<Longrightarrow> um_wf (snd (um_index d k m))"
  by (auto simp: um_wf_def um_index_def map_of_eq_None_iff split: option.splits)

end
