(* ===== verification/Hashing.thy ===== *)
theory Hashing
  imports Ring
begin

text \<open>
  \<open>Node::get_hash\<close> of \<open>src/src/node.cpp\<close>: how host names and file names become digests, and the
  pieces of the C++ library it uses (\<open>sprintf("%d")\<close>, \<open>to_string\<close>, \<open>stoi\<close>, \<open>stoll\<close>). The
  SHA-1 function of OpenSSL is not part of the repository: it is the parameter \<open>sha1\<close>, a
  function from byte lists to byte lists.
\<close>

type_synonym sha = "8 word list \<Rightarrow> 8 word list"

section \<open>Decimal numerals\<close>

definition digit_char :: "nat \<Rightarrow> char" where
  "digit_char d = char_of (48 + d)"

definition is_digit :: "char \<Rightarrow> bool" where
  "is_digit c \<longleftrightarrow> 48 \<le> (of_char c :: nat) \<and> (of_char c :: nat) \<le> 57"

text \<open>\<open>sprintf(buf, "%d", n)\<close> and \<open>to_string(n)\<close> for a non-negative \<open>n\<close>\<close>

fun dec :: "nat \<Rightarrow> string" where
  "dec n = (if n < 10 then [digit_char n] else dec (n div 10) @ [digit_char (n mod 10)])"

declare dec.simps [simp del]

definition dec_value :: "string \<Rightarrow> int" where
  "dec_value s = foldl (\<lambda>v c. 10 * v + (int (of_char c) - 48)) 0 s"

definition is_space :: "char \<Rightarrow> bool" where
  "is_space c \<longleftrightarrow> c = CHR '' '' \<or> (9 \<le> (of_char c :: nat) \<and> (of_char c :: nat) \<le> 13)"

text \<open>
  \<open>strtol\<close> in base 10: white space is skipped, then an optional sign and the longest run of
  digits; what follows is ignored. \<open>None\<close>: there is no digit.
\<close>

definition strtol :: "string \<Rightarrow> int option" where
  "strtol s =
     (let s1 = dropWhile is_space s;
          neg = (case s1 of c # _ \<Rightarrow> c = CHR ''-'' | [] \<Rightarrow> False);
          s2 = (case s1 of c # t \<Rightarrow> if c = CHR ''-'' \<or> c = CHR ''+'' then t else s1 | [] \<Rightarrow> []);
          ds = takeWhile is_digit s2
      in if ds = [] then None else Some (if neg then - dec_value ds else dec_value ds))"

definition stoi :: "string \<Rightarrow> int res" where
  "stoi s = (case strtol s of
       None \<Rightarrow> Inl (Thrown ''invalid_argument'')
     | Some v \<Rightarrow> if - (2 ^ 31) \<le> v \<and> v < 2 ^ 31 then Inr v else Inl (Thrown ''out_of_range''))"

definition stoll :: "string \<Rightarrow> int res" where
  "stoll s = (case strtol s of
       None \<Rightarrow> Inl (Thrown ''invalid_argument'')
     | Some v \<Rightarrow> if - (2 ^ 63) \<le> v \<and> v < 2 ^ 63 then Inr v else Inl (Thrown ''out_of_range''))"

section \<open>get_hash\<close>

text \<open>
  The array handed to SHA1 is the key with its terminating NUL, which \<open>sizeof\<close> counts. Only the
  first \<open>m / 8\<close> bytes of the result are used, and each is appended as a decimal numeral without
  leading zeros.
\<close>

definition hash_input :: "string \<Rightarrow> 8 word list" where
  "hash_input key = map of_char key @ [0]"

definition key_hash :: "sha \<Rightarrow> string \<Rightarrow> string" where
  "key_hash sha1 key =
     (let obuf = sha1 (hash_input key)
      in concat (map (\<lambda>i. dec (unat (obuf ! i))) [0..<finger_table_length div 8]))"

definition get_hash_steps :: "sha \<Rightarrow> string \<Rightarrow> digest res" where
  "get_hash_steps sha1 key = bind_res (stoll (key_hash sha1 key)) (\<lambda>v. Inr (v mod total_hash_points))"

text \<open>The digest \<open>get_hash\<close> returns; \<open>get_hash_returns\<close> below shows that it never throws.\<close>

definition get_hash :: "sha \<Rightarrow> string \<Rightarrow> digest" where
  "get_hash sha1 key = (case get_hash_steps sha1 key of Inl _ \<Rightarrow> 0 | Inr h \<Rightarrow> h)"

section \<open>Numerals are read back\<close>

lemma of_char_digit: "d < 10 \<Longrightarrow> of_char (digit_char d) = (48 + d :: nat)"
  by (simp add: digit_char_def take_bit_nat_def)

lemma is_digit_char: "d < 10 \<Longrightarrow> is_digit (digit_char d)"
  by (simp add: is_digit_def of_char_digit)

lemma dec_digits: "\<forall>c \<in> set (dec n). is_digit c"
  by (induction n rule: dec.induct) (subst dec.simps, auto simp: is_digit_char)

lemma dec_nonempty: "dec n \<noteq> []"
  by (subst dec.simps) simp

lemma dec_value_snoc: "dec_value (s @ [c]) = 10 * dec_value s + (int (of_char c) - 48)"
  by (simp add: dec_value_def)

lemma dec_value_dec: "dec_value (dec n) = int n"
proof (induction n rule: dec.induct)
  case (1 n)
  show ?case
  proof (cases "n < 10")
    case True
    then show ?thesis by (subst dec.simps) (simp add: dec_value_def of_char_digit)
  next
    case False
    with 1 have "dec_value (dec (n div 10)) = int (n div 10)" by simp
    moreover have "10 * int (n div 10) + int (n mod 10) = int n"
      by (simp add: zdiv_int zmod_int)
    ultimately show ?thesis using False
      by (subst dec.simps) (simp add: dec_value_snoc of_char_digit)
  qed
qed

lemma dec_value_foldl: "foldl (\<lambda>v c. 10 * v + (int (of_char c) - 48)) a s = a * 10 ^ length s + dec_value s"
proof (induction s rule: rev_induct)
  case Nil
  then show ?case by (simp add: dec_value_def)
next
  case (snoc c s)
  then show ?case by (simp add: dec_value_snoc algebra_simps)
qed

lemma dec_value_append: "dec_value (s @ t) = dec_value s * 10 ^ length t + dec_value t"
  by (metis dec_value_def dec_value_foldl foldl_append)

lemma digit_facts: "is_digit c \<Longrightarrow> \<not> is_space c \<and> c \<noteq> CHR ''-'' \<and> c \<noteq> CHR ''+''"
  by (auto simp: is_digit_def is_space_def)

lemma strtol_digits:
  assumes "s \<noteq> []" and "\<forall>c \<in> set s. is_digit c"
  shows "strtol s = Some (dec_value s)"
proof -
  obtain c t where s: "s = c # t" using assms(1) by (cases s) auto
  with assms(2) have tw: "takeWhile is_digit t = t" by simp
  from s assms(2) digit_facts [of c] show ?thesis by (simp add: strtol_def Let_def tw)
qed

lemma dec_value_bounds: "\<forall>c \<in> set s. is_digit c \<Longrightarrow> 0 \<le> dec_value s \<and> dec_value s < 10 ^ length s"
proof (induction s rule: rev_induct)
  case Nil
  then show ?case by (simp add: dec_value_def)
next
  case (snoc c s)
  then have "0 \<le> int (of_char c) - 48" "int (of_char c) - 48 \<le> 9" by (auto simp: is_digit_def)
  with snoc show ?case by (auto simp: dec_value_snoc)
qed

lemma stoi_dec: "n < 2 ^ 31 \<Longrightarrow> stoi (dec n) = Inr (int n)"
  by (simp add: stoi_def strtol_digits dec_nonempty dec_digits dec_value_dec)

section \<open>get_hash stays on the circle\<close>

lemma length_dec_byte: "b < 1000 \<Longrightarrow> length (dec b) = (if b < 10 then 1 else if b < 100 then 2 else 3)"
  by (subst dec.simps, subst dec.simps, subst dec.simps) auto

lemma key_hash_two: "key_hash sha1 key =
    dec (unat (sha1 (hash_input key) ! 0)) @ dec (unat (sha1 (hash_input key) ! 1))"
  by (simp add: key_hash_def config_simps Let_def upt_rec)

lemma unat_byte: "unat (b :: 8 word) < 256"
proof -
  have "unat b < 2 ^ LENGTH(8)" by (rule unsigned_less)
  then show ?thesis by simp
qed

lemma key_hash_value:
  fixes sha1 key
  defines "b0 \<equiv> unat (sha1 (hash_input key) ! 0)" and "b1 \<equiv> unat (sha1 (hash_input key) ! 1)"
  shows "stoll (key_hash sha1 key) = Inr (int b0 * 10 ^ length (dec b1) + int b1)"
proof -
  have kh: "key_hash sha1 key = dec b0 @ dec b1" by (simp add: key_hash_two b0_def b1_def)
  have len: "length (dec b0) \<le> 3" "length (dec b1) \<le> 3"
    using unat_byte [of "sha1 (hash_input key) ! 0"] unat_byte [of "sha1 (hash_input key) ! 1"]
    by (simp_all add: length_dec_byte b0_def b1_def)
  have digits: "\<forall>c \<in> set (dec b0 @ dec b1). is_digit c" using dec_digits by auto
  have "(10::int) ^ length (dec b0 @ dec b1) \<le> 10 ^ 6" using len by (intro power_increasing) auto
  then have "0 \<le> dec_value (dec b0 @ dec b1) \<and> dec_value (dec b0 @ dec b1) < 10 ^ 6"
    using dec_value_bounds [OF digits] by linarith
  then have "stoll (dec b0 @ dec b1) = Inr (dec_value (dec b0 @ dec b1))"
    by (simp add: stoll_def strtol_digits dec_nonempty digits)
  then show ?thesis by (simp add: kh dec_value_append dec_value_dec)
qed

lemma get_hash_returns: "get_hash_steps sha1 key = Inr (get_hash sha1 key)"
  by (simp add: get_hash_def get_hash_steps_def key_hash_value)

lemma get_hash_value:
  "get_hash sha1 key =
     (let b0 = unat (sha1 (hash_input key) ! 0); b1 = unat (sha1 (hash_input key) ! 1)
      in (int b0 * 10 ^ length (dec b1) + int b1) mod 65536)"
  by (simp add: get_hash_def get_hash_steps_def key_hash_value Let_def config_simps)

lemma get_hash_in_ring [simp]: "in_ring (get_hash sha1 key)"
  by (simp add: get_hash_value Let_def in_ring_def)

section \<open>Properties\<close>

text \<open>
  C20: \<open>get_hash\<close> never throws, whatever SHA1 returns, and its digest is on the circle.
\<close>

theorem get_hash_total:
  "get_hash_steps sha1 key = Inr (get_hash sha1 key) \<and> 0 \<le> get_hash sha1 key \<and> get_hash sha1 key < 65536"
  using get_hash_returns [of sha1 key] get_hash_in_ring [of sha1 key] by (simp add: in_ring_def)

text \<open>
  C21: The digest is not SHA-1 reduced to the circle: the bytes are written next to each other as
  decimal numerals of different lengths, so that the bytes 1, 11 and 11, 1 give the same digest.
\<close>

theorem get_hash_ambiguous:
  assumes "sha1 (hash_input a) = 1 # 11 # xs" and "sha1 (hash_input b) = 11 # 1 # ys"
  shows "get_hash sha1 a = 111 \<and> get_hash sha1 b = 111"
proof -
  have "char_of (49 :: nat) = CHR ''1''" by code_simp
  then have dec: "dec 1 = ''1''" "dec 11 = ''11''" by (simp_all add: dec.simps digit_char_def)
  have "key_hash sha1 a = ''111''" "key_hash sha1 b = ''111''"
    using assms by (simp_all add: key_hash_two dec del: One_nat_def)
  moreover have "stoll ''111'' = Inr 111" by code_simp
  ultimately show ?thesis by (simp add: get_hash_def get_hash_steps_def config_simps)
qed

lemma get_hash_ambiguous_witness:
  "get_hash (\<lambda>s. if s = hash_input ''a'' then [1, 11, 0] else [11, 1, 0]) ''a'' = 111 \<and>
   get_hash (\<lambda>s. if s = hash_input ''a'' then [1, 11, 0] else [11, 1, 0]) ''b'' = 111"
  by (rule get_hash_ambiguous [where xs = "[0]" and ys = "[0]"]) (simp_all add: hash_input_def)

end
