(* ===== verification/Node_State.thy ===== *)
theory Node_State
  imports Successor Umap Hashing
begin

text \<open>
  The state of a node (\<open>src/src/node.h\<close>, class \<open>Node\<close>) and the two routing decisions of
  \<open>src/src/lookup.cpp\<close> that only look at it: whether the node is responsible for a digest, and
  which finger a request is forwarded to.
\<close>

type_synonym hostname = string

type_synonym contactInfo = "hostname \<times> string"  \<comment> \<open>host name and port\<close>

record node =
  fingerTable :: "(contactInfo \<times> digest) list"
  DHT :: "(digest, contactInfo) umap"
  localFiles :: "(digest, string) umap"
  local_start :: digest
  my_hash :: digest
  entryNode :: contactInfo
  my_hostname :: hostname

text \<open>
  The constructor only sizes the finger table. The single instance is a function-local static
  (\<open>get_instance\<close>), so the other members start zero-initialised.
\<close>

definition Node_ctor :: node where
  "Node_ctor = \<lparr>fingerTable = replicate finger_table_length (([], []), 0), DHT = [], localFiles = [],
     local_start = 0, my_hash = 0, entryNode = ([], []), my_hostname = []\<rparr>"

section \<open>Routing decisions (lookup.cpp)\<close>

text \<open>
  Converting the logarithm of a negative distance to \<open>int\<close> is undefined (\<open>Bad_conversion\<close>), and
  an index beyond the table reads outside the vector (\<open>Out_of_bounds\<close>); both can only happen
  for digests outside the circle.
\<close>

definition get_next_hop_info :: "node \<Rightarrow> digest \<Rightarrow> contactInfo res" where
  "get_next_hop_info n h =
     (let h' = (if h < my_hash n then h + 2 ^ finger_table_length else h)
      in if h' = my_hash n then Inr (my_hostname n, listening_port_num)
         else if h' < my_hash n then Inl Bad_conversion
         else let index = ilog2 (nat (h' - my_hash n))
              in if index < length (fingerTable n) then Inr (fst (fingerTable n ! index))
                 else Inl Out_of_bounds)"

text \<open>
  \<open>file_hash\<close> is a parameter passed by value; \<open>local_start\<close> is the member, which the test
  itself moves below \<open>my_hash\<close>.
\<close>

definition is_responsible_to :: "node \<Rightarrow> digest \<Rightarrow> bool \<times> node" where
  "is_responsible_to n file_hash =
     (let file_hash = (if file_hash > my_hash n then file_hash - 2 ^ finger_table_length else file_hash);
          n = (if local_start n > my_hash n
               then n\<lparr>local_start := local_start n - 2 ^ finger_table_length\<rparr> else n)
      in (file_hash \<ge> local_start n \<and> file_hash \<le> my_hash n, n))"

section \<open>What a node owns\<close>

text \<open>
  \<open>local_start\<close> is kept on the circle or one turn below \<open>my_hash\<close>; either way it denotes the
  same point. \<open>owns n h\<close> is the arc from there to \<open>my_hash\<close>.
\<close>

definition node_range :: "node \<Rightarrow> bool" where
  "node_range n \<longleftrightarrow> in_ring (my_hash n) \<and> my_hash n - 65536 < local_start n \<and> local_start n < 65536"

definition owns :: "node \<Rightarrow> digest \<Rightarrow> bool" where
  "owns n h \<longleftrightarrow> cdist h (my_hash n) \<le> cdist (ring_add (local_start n) 0) (my_hash n)"

lemma ring_add_0_cases:
  "node_range n \<Longrightarrow> ring_add (local_start n) 0 =
     (if local_start n < 0 then local_start n + 65536 else local_start n)"
proof -
  assume r: "node_range n"
  have "local_start n mod 65536 = (local_start n + 65536) mod 65536" by simp
  with r show ?thesis
    unfolding ring_add_def node_range_def in_ring_def
    by (auto simp: mod_pos_pos_trivial simp del: mod_add_self2)
qed

lemma is_responsible_to_owns:
  assumes "node_range n" and "in_ring h"
  shows "fst (is_responsible_to n h) \<longleftrightarrow> owns n h"
proof -
  have "in_ring (ring_add (local_start n) 0)" by simp
  with assms show ?thesis
    by (auto simp: is_responsible_to_def owns_def ring_add_0_cases cdist_in Let_def config_simps
        node_range_def in_ring_def split: if_splits)
qed

text \<open>The side effect keeps the point \<open>local_start\<close> denotes, and everything else.\<close>

lemma is_responsible_to_state:
  assumes "node_range n"
  obtains ls where "snd (is_responsible_to n h) = n\<lparr>local_start := ls\<rparr>"
    and "ring_add ls 0 = ring_add (local_start n) 0"
    and "node_range (n\<lparr>local_start := ls\<rparr>)"
    and "\<not> ls > my_hash n"
proof (cases "local_start n > my_hash n")
  case True
  have "(local_start n - 65536) mod 65536 = local_start n mod 65536" by simp
  with True assms that [of "local_start n - 65536"] show thesis
    by (auto simp: is_responsible_to_def Let_def config_simps node_range_def in_ring_def ring_add_def
        simp del: minus_mod_self2)
next
  case False
  with assms that [of "local_start n"] show thesis
    by (simp add: is_responsible_to_def Let_def)
qed

lemma is_responsible_to_cases:
  assumes "node_range n" and "in_ring h"
  obtains ls where "is_responsible_to n h = (owns n h, n\<lparr>local_start := ls\<rparr>)"
    and "ring_add ls 0 = ring_add (local_start n) 0"
    and "node_range (n\<lparr>local_start := ls\<rparr>)"
proof -
  obtain ls where ls: "snd (is_responsible_to n h) = n\<lparr>local_start := ls\<rparr>"
    "ring_add ls 0 = ring_add (local_start n) 0" "node_range (n\<lparr>local_start := ls\<rparr>)"
    using assms(1) by (rule is_responsible_to_state)
  moreover have "is_responsible_to n h = (owns n h, snd (is_responsible_to n h))"
    using is_responsible_to_owns [OF assms] by (simp add: prod_eq_iff)
  ultimately show thesis using that by simp
qed

section \<open>The hop\<close>

lemma get_next_hop_info_finger:
  assumes me: "in_ring (my_hash n)" and h: "in_ring h" "h \<noteq> my_hash n"
    and len: "length (fingerTable n) = finger_table_length"
  shows "get_next_hop_info n h = Inr (fst (fingerTable n ! ilog2 (nat (cdist (my_hash n) h))))"
    and "ilog2 (nat (cdist (my_hash n) h)) < finger_table_length"
proof -
  have pos: "0 < cdist (my_hash n) h"
    using me h cdist_eq_0 [of "my_hash n" h] cdist_range [of "my_hash n" h] by linarith
  show lt: "ilog2 (nat (cdist (my_hash n) h)) < finger_table_length"
    by (rule ilog2_less) (use pos cdist_range [of "my_hash n" h] in \<open>auto simp: config_simps\<close>)
  have "(if h < my_hash n then h + 2 ^ finger_table_length else h) - my_hash n = cdist (my_hash n) h"
    using me h by (auto simp: cdist_in config_simps)
  with lt len pos show "get_next_hop_info n h = Inr (fst (fingerTable n ! ilog2 (nat (cdist (my_hash n) h))))"
    by (simp add: get_next_hop_info_def Let_def)
qed

lemma get_next_hop_info_self:
  "get_next_hop_info n (my_hash n) = Inr (my_hostname n, listening_port_num)"
  by (simp add: get_next_hop_info_def)

lemma get_next_hop_info_outside:
  "my_hash n + 65536 \<le> h \<Longrightarrow> length (fingerTable n) = finger_table_length \<Longrightarrow>
   get_next_hop_info n h = Inl Out_of_bounds"
proof -
  assume h: "my_hash n + 65536 \<le> h" and len: "length (fingerTable n) = finger_table_length"
  have "\<not> ilog2 (nat (h - my_hash n)) < 16"
  proof
    assume "ilog2 (nat (h - my_hash n)) < 16"
    then have "(2::int) * 2 ^ ilog2 (nat (h - my_hash n)) \<le> 2 * 2 ^ 15"
      by (intro mult_left_mono power_increasing) auto
    then show False using h ilog2_int_bounds [of "h - my_hash n"] by auto
  qed
  with h len show ?thesis by (simp add: get_next_hop_info_def Let_def config_simps)
qed

text \<open>Where \<open>local_start\<close> is written plays no role for the hop.\<close>

lemma get_next_hop_info_start [node_frame]:
  "get_next_hop_info (n\<lparr>local_start := ls\<rparr>) h = get_next_hop_info n h"
  by (simp add: get_next_hop_info_def Let_def)

section \<open>Properties\<close>

text \<open>
  \<open>is_responsible_to\<close> decides whether the digest lies on the arc from \<open>local_start\<close> to
  \<open>my_hash\<close>, and changes the node only in the representation of \<open>local_start\<close>.
\<close>

theorem is_responsible_to_arc:
  assumes "node_range n" and "in_ring h"
  shows "\<exists>ls. is_responsible_to n h = (owns n h, n\<lparr>local_start := ls\<rparr>) \<and>
    ring_add ls 0 = ring_add (local_start n) 0 \<and> node_range (n\<lparr>local_start := ls\<rparr>)"
  using assms by (rule is_responsible_to_cases) blast

lemma is_responsible_to_arc_witness:
  "\<exists>ls. is_responsible_to (Node_ctor\<lparr>my_hash := 20, local_start := 65000\<rparr>) 3 =
     (owns (Node_ctor\<lparr>my_hash := 20, local_start := 65000\<rparr>) 3, Node_ctor\<lparr>my_hash := 20, local_start := ls\<rparr>)"
proof -
  have "node_range (Node_ctor\<lparr>my_hash := 20, local_start := 65000\<rparr>)" "in_ring 3"
    by (simp_all add: node_range_def in_ring_def)
  from is_responsible_to_arc [OF this] show ?thesis by (elim exE conjE) (intro exI, simp)
qed

text \<open>
  C19: A digest a whole turn or more above the node's hash (only a message from outside can carry
  one) makes \<open>get_next_hop_info\<close> read outside the finger table.
\<close>

theorem next_hop_out_of_bounds:
  assumes "my_hash n + 65536 \<le> h" and "length (fingerTable n) = finger_table_length"
  shows "get_next_hop_info n h = Inl Out_of_bounds"
  using assms by (rule get_next_hop_info_outside)

lemma next_hop_out_of_bounds_witness: "get_next_hop_info Node_ctor 65536 = Inl Out_of_bounds"
  by (rule next_hop_out_of_bounds) (simp_all add: Node_ctor_def)

end
