(* ===== verification/Messages.thy ===== *)
theory Messages
  imports Prelude
begin

text \<open>
  The messages nodes exchange, as \<open>src/src/protobuf/P2P_Protocol.proto\<close> declares them and as the
  classes of \<open>P2P_Protocol.pb.h\<close> and \<open>P2P_Protocol.pb.cc\<close> hold them. A singular field is an
  option: \<open>None\<close> stands for a cleared has-bit, and the getter then returns the default value
  (0, false, the empty string, the default instance of a sub-message). A repeated field is a
  list. Fields with numbers the class does not know are kept in \<open>unknown\<close>, as the
  \<open>UnknownFieldSet\<close> of the class does. Values of \<open>int64\<close> fields are integers; the range
  of 64 bits is a matter of the wire format.
  Per message: the record, the default instance, the accessors, then \<open>Clear\<close>, \<open>MergeFrom\<close>,
  \<open>CopyFrom\<close> and \<open>IsInitialized\<close> of the class. Merging is not only used for copying: receiving
  into an object that already holds a message merges the new one into it.
\<close>

datatype unknown_field =
    U_varint nat "64 word"
  | U_fixed64 nat "64 word"
  | U_length_delimited nat "byte list"
  | U_group nat "unknown_field list"
  | U_fixed32 nat "32 word"

text \<open>The value of a field whose has-bit may be cleared.\<close>

definition field_or :: "'a \<Rightarrow> 'a option \<Rightarrow> 'a" where
  "field_or d v = (case v of None \<Rightarrow> d | Some x \<Rightarrow> x)"

lemma field_or_simps [simp]: "field_or d None = d" "field_or d (Some x) = x"
  by (simp_all add: field_or_def)

text \<open>A field after merging: the new value wins where it is present.\<close>

definition field_merge :: "'a option \<Rightarrow> 'a option \<Rightarrow> 'a option" where
  "field_merge old new = (case new of None \<Rightarrow> old | Some x \<Rightarrow> Some x)"

lemma field_merge_simps [simp]: "field_merge old None = old" "field_merge old (Some x) = Some x"
    "field_merge None new = new"
  by (simp_all add: field_merge_def split: option.splits)

text \<open>A sub-message field after merging: the sub-messages are merged.\<close>

definition sub_merge :: "('a \<Rightarrow> 'a \<Rightarrow> 'a) \<Rightarrow> 'a \<Rightarrow> 'a option \<Rightarrow> 'a option \<Rightarrow> 'a option" where
  "sub_merge merge d old new = (case new of None \<Rightarrow> old | Some x \<Rightarrow> Some (merge (field_or d old) x))"

lemma sub_merge_None [simp]: "sub_merge merge d old None = old"
  by (simp add: sub_merge_def)

lemma sub_merge_fresh: "(\<And>x. merge d x = x) \<Longrightarrow> sub_merge merge d None new = new"
  by (simp add: sub_merge_def split: option.splits)

lemma sub_merge_Some: "sub_merge merge d old (Some x) = Some (merge (field_or d old) x)"
  by (simp add: sub_merge_def)

definition sub_init :: "('a \<Rightarrow> bool) \<Rightarrow> 'a option \<Rightarrow> bool" where
  "sub_init init v = (case v of None \<Rightarrow> True | Some x \<Rightarrow> init x)"

lemma sub_init_simps [simp]: "sub_init init None" "sub_init init (Some x) = init x"
  by (simp_all add: sub_init_def)

named_theorems message_defs \<open>definitions of the message classes\<close>
named_theorems accessor_defs \<open>definitions of getters and setters\<close>

section \<open>AddFileRequest\<close>

record AddFileRequest =
  afq_filenamehash :: "int option"
  afq_sourcehostname :: "string option"
  afq_sourceport :: "string option"
  afq_unknown :: "unknown_field list"

definition AddFileRequest_default :: AddFileRequest where
  "AddFileRequest_default = \<lparr>afq_filenamehash = None, afq_sourcehostname = None, afq_sourceport = None, afq_unknown = []\<rparr>"

definition AddFileRequest_has_filenamehash :: "AddFileRequest \<Rightarrow> bool" where
  "AddFileRequest_has_filenamehash m \<longleftrightarrow> afq_filenamehash m \<noteq> None"

definition AddFileRequest_filenamehash :: "AddFileRequest \<Rightarrow> int" where
  "AddFileRequest_filenamehash m = field_or 0 (afq_filenamehash m)"

definition AddFileRequest_set_filenamehash :: "int \<Rightarrow> AddFileRequest \<Rightarrow> AddFileRequest" where
  "AddFileRequest_set_filenamehash v m = m\<lparr>afq_filenamehash := Some v\<rparr>"

definition AddFileRequest_has_sourcehostname :: "AddFileRequest \<Rightarrow> bool" where
  "AddFileRequest_has_sourcehostname m \<longleftrightarrow> afq_sourcehostname m \<noteq> None"

definition AddFileRequest_sourcehostname :: "AddFileRequest \<Rightarrow> string" where
  "AddFileRequest_sourcehostname m = field_or [] (afq_sourcehostname m)"

definition AddFileRequest_set_sourcehostname :: "string \<Rightarrow> AddFileRequest \<Rightarrow> AddFileRequest" where
  "AddFileRequest_set_sourcehostname v m = m\<lparr>afq_sourcehostname := Some v\<rparr>"

definition AddFileRequest_has_sourceport :: "AddFileRequest \<Rightarrow> bool" where
  "AddFileRequest_has_sourceport m \<longleftrightarrow> afq_sourceport m \<noteq> None"

definition AddFileRequest_sourceport :: "AddFileRequest \<Rightarrow> string" where
  "AddFileRequest_sourceport m = field_or [] (afq_sourceport m)"

definition AddFileRequest_set_sourceport :: "string \<Rightarrow> AddFileRequest \<Rightarrow> AddFileRequest" where
  "AddFileRequest_set_sourceport v m = m\<lparr>afq_sourceport := Some v\<rparr>"

definition AddFileRequest_Clear :: "AddFileRequest \<Rightarrow> AddFileRequest" where
  "AddFileRequest_Clear m = m\<lparr>afq_filenamehash := None, afq_sourcehostname := None, afq_sourceport := None, afq_unknown := []\<rparr>"

definition AddFileRequest_MergeFrom :: "AddFileRequest \<Rightarrow> AddFileRequest \<Rightarrow> AddFileRequest" where
  "AddFileRequest_MergeFrom to frm = to\<lparr>
     afq_filenamehash := field_merge (afq_filenamehash to) (afq_filenamehash frm),
     afq_sourcehostname := field_merge (afq_sourcehostname to) (afq_sourcehostname frm),
     afq_sourceport := field_merge (afq_sourceport to) (afq_sourceport frm),
     afq_unknown := afq_unknown to @ afq_unknown frm\<rparr>"


definition AddFileRequest_CopyFrom :: "AddFileRequest \<Rightarrow> AddFileRequest \<Rightarrow> AddFileRequest" where
  "AddFileRequest_CopyFrom to frm = AddFileRequest_MergeFrom (AddFileRequest_Clear to) frm"

definition AddFileRequest_IsInitialized :: "AddFileRequest \<Rightarrow> bool" where
  "AddFileRequest_IsInitialized m \<longleftrightarrow>
     afq_filenamehash m \<noteq> None \<and>
     afq_sourcehostname m \<noteq> None \<and>
     afq_sourceport m \<noteq> None"

declare AddFileRequest_default_def [message_defs] AddFileRequest_Clear_def [message_defs] AddFileRequest_MergeFrom_def [message_defs]
  AddFileRequest_CopyFrom_def [message_defs] AddFileRequest_IsInitialized_def [message_defs]
declare AddFileRequest_has_filenamehash_def [accessor_defs] AddFileRequest_filenamehash_def [accessor_defs] AddFileRequest_set_filenamehash_def [accessor_defs] AddFileRequest_has_sourcehostname_def [accessor_defs] AddFileRequest_sourcehostname_def [accessor_defs] AddFileRequest_set_sourcehostname_def [accessor_defs] AddFileRequest_has_sourceport_def [accessor_defs] AddFileRequest_sourceport_def [accessor_defs] AddFileRequest_set_sourceport_def [accessor_defs]

lemma AddFileRequest_MergeFrom_default: "AddFileRequest_MergeFrom AddFileRequest_default m = m"
  by (cases m) (simp add: AddFileRequest_MergeFrom_def AddFileRequest_default_def)

lemma AddFileRequest_CopyFrom_copies: "AddFileRequest_CopyFrom to m = m"
proof -
  have "AddFileRequest_Clear to = AddFileRequest_default" by (cases to) (simp add: AddFileRequest_Clear_def AddFileRequest_default_def)
  then show ?thesis by (simp add: AddFileRequest_CopyFrom_def AddFileRequest_MergeFrom_default)
qed

section \<open>LookupFileRequest\<close>

record LookupFileRequest =
  lfq_filenamehash :: "int option"
  lfq_sourcehostname :: "string option"
  lfq_sourceport :: "string option"
  lfq_unknown :: "unknown_field list"

definition LookupFileRequest_default :: LookupFileRequest where
  "LookupFileRequest_default = \<lparr>lfq_filenamehash = None, lfq_sourcehostname = None, lfq_sourceport = None, lfq_unknown = []\<rparr>"

definition LookupFileRequest_has_filenamehash :: "LookupFileRequest \<Rightarrow> bool" where
  "LookupFileRequest_has_filenamehash m \<longleftrightarrow> lfq_filenamehash m \<noteq> None"

definition LookupFileRequest_filenamehash :: "LookupFileRequest \<Rightarrow> int" where
  "LookupFileRequest_filenamehash m = field_or 0 (lfq_filenamehash m)"

definition LookupFileRequest_set_filenamehash :: "int \<Rightarrow> LookupFileRequest \<Rightarrow> LookupFileRequest" where
  "LookupFileRequest_set_filenamehash v m = m\<lparr>lfq_filenamehash := Some v\<rparr>"

definition LookupFileRequest_has_sourcehostname :: "LookupFileRequest \<Rightarrow> bool" where
  "LookupFileRequest_has_sourcehostname m \<longleftrightarrow> lfq_sourcehostname m \<noteq> None"

definition LookupFileRequest_sourcehostname :: "LookupFileRequest \<Rightarrow> string" where
  "LookupFileRequest_sourcehostname m = field_or [] (lfq_sourcehostname m)"

definition LookupFileRequest_set_sourcehostname :: "string \<Rightarrow> LookupFileRequest \<Rightarrow> LookupFileRequest" where
  "LookupFileRequest_set_sourcehostname v m = m\<lparr>lfq_sourcehostname := Some v\<rparr>"

definition LookupFileRequest_has_sourceport :: "LookupFileRequest \<Rightarrow> bool" where
  "LookupFileRequest_has_sourceport m \<longleftrightarrow> lfq_sourceport m \<noteq> None"

definition LookupFileRequest_sourceport :: "LookupFileRequest \<Rightarrow> string" where
  "LookupFileRequest_sourceport m = field_or [] (lfq_sourceport m)"

definition LookupFileRequest_set_sourceport :: "string \<Rightarrow> LookupFileRequest \<Rightarrow> LookupFileRequest" where
  "LookupFileRequest_set_sourceport v m = m\<lparr>lfq_sourceport := Some v\<rparr>"

definition LookupFileRequest_Clear :: "LookupFileRequest \<Rightarrow> LookupFileRequest" where
  "LookupFileRequest_Clear m = m\<lparr>lfq_filenamehash := None, lfq_sourcehostname := None, lfq_sourceport := None, lfq_unknown := []\<rparr>"

definition LookupFileRequest_MergeFrom :: "LookupFileRequest \<Rightarrow> LookupFileRequest \<Rightarrow> LookupFileRequest" where
  "LookupFileRequest_MergeFrom to frm = to\<lparr>
     lfq_filenamehash := field_merge (lfq_filenamehash to) (lfq_filenamehash frm),
     lfq_sourcehostname := field_merge (lfq_sourcehostname to) (lfq_sourcehostname frm),
     lfq_sourceport := field_merge (lfq_sourceport to) (lfq_sourceport frm),
     lfq_unknown := lfq_unknown to @ lfq_unknown frm\<rparr>"


definition LookupFileRequest_CopyFrom :: "LookupFileRequest \<Rightarrow> LookupFileRequest \<Rightarrow> LookupFileRequest" where
  "LookupFileRequest_CopyFrom to frm = LookupFileRequest_MergeFrom (LookupFileRequest_Clear to) frm"

definition LookupFileRequest_IsInitialized :: "LookupFileRequest \<Rightarrow> bool" where
  "LookupFileRequest_IsInitialized m \<longleftrightarrow>
     lfq_filenamehash m \<noteq> None \<and>
     lfq_sourcehostname m \<noteq> None \<and>
     lfq_sourceport m \<noteq> None"

declare LookupFileRequest_default_def [message_defs] LookupFileRequest_Clear_def [message_defs] LookupFileRequest_MergeFrom_def [message_defs]
  LookupFileRequest_CopyFrom_def [message_defs] LookupFileRequest_IsInitialized_def [message_defs]
declare LookupFileRequest_has_filenamehash_def [accessor_defs] LookupFileRequest_filenamehash_def [accessor_defs] LookupFileRequest_set_filenamehash_def [accessor_defs] LookupFileRequest_has_sourcehostname_def [accessor_defs] LookupFileRequest_sourcehostname_def [accessor_defs] LookupFileRequest_set_sourcehostname_def [accessor_defs] LookupFileRequest_has_sourceport_def [accessor_defs] LookupFileRequest_sourceport_def [accessor_defs] LookupFileRequest_set_sourceport_def [accessor_defs]

lemma LookupFileRequest_MergeFrom_default: "LookupFileRequest_MergeFrom LookupFileRequest_default m = m"
  by (cases m) (simp add: LookupFileRequest_MergeFrom_def LookupFileRequest_default_def)

lemma LookupFileRequest_CopyFrom_copies: "LookupFileRequest_CopyFrom to m = m"
proof -
  have "LookupFileRequest_Clear to = LookupFileRequest_default" by (cases to) (simp add: LookupFileRequest_Clear_def LookupFileRequest_default_def)
  then show ?thesis by (simp add: LookupFileRequest_CopyFrom_def LookupFileRequest_MergeFrom_default)
qed

section \<open>DeleteFileRequest\<close>

record DeleteFileRequest =
  dfq_filenamehash :: "int option"
  dfq_sourcehostname :: "string option"
  dfq_sourceport :: "string option"
  dfq_unknown :: "unknown_field list"

definition DeleteFileRequest_default :: DeleteFileRequest where
  "DeleteFileRequest_default = \<lparr>dfq_filenamehash = None, dfq_sourcehostname = None, dfq_sourceport = None, dfq_unknown = []\<rparr>"

definition DeleteFileRequest_has_filenamehash :: "DeleteFileRequest \<Rightarrow> bool" where
  "DeleteFileRequest_has_filenamehash m \<longleftrightarrow> dfq_filenamehash m \<noteq> None"

definition DeleteFileRequest_filenamehash :: "DeleteFileRequest \<Rightarrow> int" where
  "DeleteFileRequest_filenamehash m = field_or 0 (dfq_filenamehash m)"

definition DeleteFileRequest_set_filenamehash :: "int \<Rightarrow> DeleteFileRequest \<Rightarrow> DeleteFileRequest" where
  "DeleteFileRequest_set_filenamehash v m = m\<lparr>dfq_filenamehash := Some v\<rparr>"

definition DeleteFileRequest_has_sourcehostname :: "DeleteFileRequest \<Rightarrow> bool" where
  "DeleteFileRequest_has_sourcehostname m \<longleftrightarrow> dfq_sourcehostname m \<noteq> None"

definition DeleteFileRequest_sourcehostname :: "DeleteFileRequest \<Rightarrow> string" where
  "DeleteFileRequest_sourcehostname m = field_or [] (dfq_sourcehostname m)"

definition DeleteFileRequest_set_sourcehostname :: "string \<Rightarrow> DeleteFileRequest \<Rightarrow> DeleteFileRequest" where
  "DeleteFileRequest_set_sourcehostname v m = m\<lparr>dfq_sourcehostname := Some v\<rparr>"

definition DeleteFileRequest_has_sourceport :: "DeleteFileRequest \<Rightarrow> bool" where
  "DeleteFileRequest_has_sourceport m \<longleftrightarrow> dfq_sourceport m \<noteq> None"

definition DeleteFileRequest_sourceport :: "DeleteFileRequest \<Rightarrow> string" where
  "DeleteFileRequest_sourceport m = field_or [] (dfq_sourceport m)"

definition DeleteFileRequest_set_sourceport :: "string \<Rightarrow> DeleteFileRequest \<Rightarrow> DeleteFileRequest" where
  "DeleteFileRequest_set_sourceport v m = m\<lparr>dfq_sourceport := Some v\<rparr>"

definition DeleteFileRequest_Clear :: "DeleteFileRequest \<Rightarrow> DeleteFileRequest" where
  "DeleteFileRequest_Clear m = m\<lparr>dfq_filenamehash := None, dfq_sourcehostname := None, dfq_sourceport := None, dfq_unknown := []\<rparr>"

definition DeleteFileRequest_MergeFrom :: "DeleteFileRequest \<Rightarrow> DeleteFileRequest \<Rightarrow> DeleteFileRequest" where
  "DeleteFileRequest_MergeFrom to frm = to\<lparr>
     dfq_filenamehash := field_merge (dfq_filenamehash to) (dfq_filenamehash frm),
     dfq_sourcehostname := field_merge (dfq_sourcehostname to) (dfq_sourcehostname frm),
     dfq_sourceport := field_merge (dfq_sourceport to) (dfq_sourceport frm),
     dfq_unknown := dfq_unknown to @ dfq_unknown frm\<rparr>"


definition DeleteFileRequest_CopyFrom :: "DeleteFileRequest \<Rightarrow> DeleteFileRequest \<Rightarrow> DeleteFileRequest" where
  "DeleteFileRequest_CopyFrom to frm = DeleteFileRequest_MergeFrom (DeleteFileRequest_Clear to) frm"

definition DeleteFileRequest_IsInitialized :: "DeleteFileRequest \<Rightarrow> bool" where
  "DeleteFileRequest_IsInitialized m \<longleftrightarrow>
     dfq_filenamehash m \<noteq> None \<and>
     dfq_sourcehostname m \<noteq> None \<and>
     dfq_sourceport m \<noteq> None"

declare DeleteFileRequest_default_def [message_defs] DeleteFileRequest_Clear_def [message_defs] DeleteFileRequest_MergeFrom_def [message_defs]
  DeleteFileRequest_CopyFrom_def [message_defs] DeleteFileRequest_IsInitialized_def [message_defs]
declare DeleteFileRequest_has_filenamehash_def [accessor_defs] DeleteFileRequest_filenamehash_def [accessor_defs] DeleteFileRequest_set_filenamehash_def [accessor_defs] DeleteFileRequest_has_sourcehostname_def [accessor_defs] DeleteFileRequest_sourcehostname_def [accessor_defs] DeleteFileRequest_set_sourcehostname_def [accessor_defs] DeleteFileRequest_has_sourceport_def [accessor_defs] DeleteFileRequest_sourceport_def [accessor_defs] DeleteFileRequest_set_sourceport_def [accessor_defs]

lemma DeleteFileRequest_MergeFrom_default: "DeleteFileRequest_MergeFrom DeleteFileRequest_default m = m"
  by (cases m) (simp add: DeleteFileRequest_MergeFrom_def DeleteFileRequest_default_def)

lemma DeleteFileRequest_CopyFrom_copies: "DeleteFileRequest_CopyFrom to m = m"
proof -
  have "DeleteFileRequest_Clear to = DeleteFileRequest_default" by (cases to) (simp add: DeleteFileRequest_Clear_def DeleteFileRequest_default_def)
  then show ?thesis by (simp add: DeleteFileRequest_CopyFrom_def DeleteFileRequest_MergeFrom_default)
qed

section \<open>LookupFileResponse\<close>

record LookupFileResponse =
  lfp_ifexists :: "bool option"
  lfp_successorhostname :: "string option"
  lfp_successorport :: "string option"
  lfp_ownerhostname :: "string option"
  lfp_ownerport :: "string option"
  lfp_unknown :: "unknown_field list"

definition LookupFileResponse_default :: LookupFileResponse where
  "LookupFileResponse_default = \<lparr>lfp_ifexists = None, lfp_successorhostname = None, lfp_successorport = None, lfp_ownerhostname = None, lfp_ownerport = None, lfp_unknown = []\<rparr>"

definition LookupFileResponse_has_ifexists :: "LookupFileResponse \<Rightarrow> bool" where
  "LookupFileResponse_has_ifexists m \<longleftrightarrow> lfp_ifexists m \<noteq> None"

definition LookupFileResponse_ifexists :: "LookupFileResponse \<Rightarrow> bool" where
  "LookupFileResponse_ifexists m = field_or False (lfp_ifexists m)"

definition LookupFileResponse_set_ifexists :: "bool \<Rightarrow> LookupFileResponse \<Rightarrow> LookupFileResponse" where
  "LookupFileResponse_set_ifexists v m = m\<lparr>lfp_ifexists := Some v\<rparr>"

definition LookupFileResponse_has_successorhostname :: "LookupFileResponse \<Rightarrow> bool" where
  "LookupFileResponse_has_successorhostname m \<longleftrightarrow> lfp_successorhostname m \<noteq> None"

definition LookupFileResponse_successorhostname :: "LookupFileResponse \<Rightarrow> string" where
  "LookupFileResponse_successorhostname m = field_or [] (lfp_successorhostname m)"

definition LookupFileResponse_set_successorhostname :: "string \<Rightarrow> LookupFileResponse \<Rightarrow> LookupFileResponse" where
  "LookupFileResponse_set_successorhostname v m = m\<lparr>lfp_successorhostname := Some v\<rparr>"

definition LookupFileResponse_has_successorport :: "LookupFileResponse \<Rightarrow> bool" where
  "LookupFileResponse_has_successorport m \<longleftrightarrow> lfp_successorport m \<noteq> None"

definition LookupFileResponse_successorport :: "LookupFileResponse \<Rightarrow> string" where
  "LookupFileResponse_successorport m = field_or [] (lfp_successorport m)"

definition LookupFileResponse_set_successorport :: "string \<Rightarrow> LookupFileResponse \<Rightarrow> LookupFileResponse" where
  "LookupFileResponse_set_successorport v m = m\<lparr>lfp_successorport := Some v\<rparr>"

definition LookupFileResponse_has_ownerhostname :: "LookupFileResponse \<Rightarrow> bool" where
  "LookupFileResponse_has_ownerhostname m \<longleftrightarrow> lfp_ownerhostname m \<noteq> None"

definition LookupFileResponse_ownerhostname :: "LookupFileResponse \<Rightarrow> string" where
  "LookupFileResponse_ownerhostname m = field_or [] (lfp_ownerhostname m)"

definition LookupFileResponse_set_ownerhostname :: "string \<Rightarrow> LookupFileResponse \<Rightarrow> LookupFileResponse" where
  "LookupFileResponse_set_ownerhostname v m = m\<lparr>lfp_ownerhostname := Some v\<rparr>"

definition LookupFileResponse_has_ownerport :: "LookupFileResponse \<Rightarrow> bool" where
  "LookupFileResponse_has_ownerport m \<longleftrightarrow> lfp_ownerport m \<noteq> None"

definition LookupFileResponse_ownerport :: "LookupFileResponse \<Rightarrow> string" where
  "LookupFileResponse_ownerport m = field_or [] (lfp_ownerport m)"

definition LookupFileResponse_set_ownerport :: "string \<Rightarrow> LookupFileResponse \<Rightarrow> LookupFileResponse" where
  "LookupFileResponse_set_ownerport v m = m\<lparr>lfp_ownerport := Some v\<rparr>"

definition LookupFileResponse_Clear :: "LookupFileResponse \<Rightarrow> LookupFileResponse" where
  "LookupFileResponse_Clear m = m\<lparr>lfp_ifexists := None, lfp_successorhostname := None, lfp_successorport := None, lfp_ownerhostname := None, lfp_ownerport := None, lfp_unknown := []\<rparr>"

definition LookupFileResponse_MergeFrom :: "LookupFileResponse \<Rightarrow> LookupFileResponse \<Rightarrow> LookupFileResponse" where
  "LookupFileResponse_MergeFrom to frm = to\<lparr>
     lfp_ifexists := field_merge (lfp_ifexists to) (lfp_ifexists frm),
     lfp_successorhostname := field_merge (lfp_successorhostname to) (lfp_successorhostname frm),
     lfp_successorport := field_merge (lfp_successorport to) (lfp_successorport frm),
     lfp_ownerhostname := field_merge (lfp_ownerhostname to) (lfp_ownerhostname frm),
     lfp_ownerport := field_merge (lfp_ownerport to) (lfp_ownerport frm),
     lfp_unknown := lfp_unknown to @ lfp_unknown frm\<rparr>"


definition LookupFileResponse_CopyFrom :: "LookupFileResponse \<Rightarrow> LookupFileResponse \<Rightarrow> LookupFileResponse" where
  "LookupFileResponse_CopyFrom to frm = LookupFileResponse_MergeFrom (LookupFileResponse_Clear to) frm"

definition LookupFileResponse_IsInitialized :: "LookupFileResponse \<Rightarrow> bool" where
  "LookupFileResponse_IsInitialized m \<longleftrightarrow>
     lfp_ifexists m \<noteq> None \<and>
     lfp_successorhostname m \<noteq> None \<and>
     lfp_successorport m \<noteq> None"

declare LookupFileResponse_default_def [message_defs] LookupFileResponse_Clear_def [message_defs] LookupFileResponse_MergeFrom_def [message_defs]
  LookupFileResponse_CopyFrom_def [message_defs] LookupFileResponse_IsInitialized_def [message_defs]
declare LookupFileResponse_has_ifexists_def [accessor_defs] LookupFileResponse_ifexists_def [accessor_defs] LookupFileResponse_set_ifexists_def [accessor_defs] LookupFileResponse_has_successorhostname_def [accessor_defs] LookupFileResponse_successorhostname_def [accessor_defs] LookupFileResponse_set_successorhostname_def [accessor_defs] LookupFileResponse_has_successorport_def [accessor_defs] LookupFileResponse_successorport_def [accessor_defs] LookupFileResponse_set_successorport_def [accessor_defs] LookupFileResponse_has_ownerhostname_def [accessor_defs] LookupFileResponse_ownerhostname_def [accessor_defs] LookupFileResponse_set_ownerhostname_def [accessor_defs] LookupFileResponse_has_ownerport_def [accessor_defs] LookupFileResponse_ownerport_def [accessor_defs] LookupFileResponse_set_ownerport_def [accessor_defs]

lemma LookupFileResponse_MergeFrom_default: "LookupFileResponse_MergeFrom LookupFileResponse_default m = m"
  by (cases m) (simp add: LookupFileResponse_MergeFrom_def LookupFileResponse_default_def)

lemma LookupFileResponse_CopyFrom_copies: "LookupFileResponse_CopyFrom to m = m"
proof -
  have "LookupFileResponse_Clear to = LookupFileResponse_default" by (cases to) (simp add: LookupFileResponse_Clear_def LookupFileResponse_default_def)
  then show ?thesis by (simp add: LookupFileResponse_CopyFrom_def LookupFileResponse_MergeFrom_default)
qed

section \<open>FileInfoResponse\<close>

record FileInfoResponse =
  fip_ownerhostname :: "string option"
  fip_ownerport :: "string option"
  fip_unknown :: "unknown_field list"

definition FileInfoResponse_default :: FileInfoResponse where
  "FileInfoResponse_default = \<lparr>fip_ownerhostname = None, fip_ownerport = None, fip_unknown = []\<rparr>"

definition FileInfoResponse_has_ownerhostname :: "FileInfoResponse \<Rightarrow> bool" where
  "FileInfoResponse_has_ownerhostname m \<longleftrightarrow> fip_ownerhostname m \<noteq> None"

definition FileInfoResponse_ownerhostname :: "FileInfoResponse \<Rightarrow> string" where
  "FileInfoResponse_ownerhostname m = field_or [] (fip_ownerhostname m)"

definition FileInfoResponse_set_ownerhostname :: "string \<Rightarrow> FileInfoResponse \<Rightarrow> FileInfoResponse" where
  "FileInfoResponse_set_ownerhostname v m = m\<lparr>fip_ownerhostname := Some v\<rparr>"

definition FileInfoResponse_has_ownerport :: "FileInfoResponse \<Rightarrow> bool" where
  "FileInfoResponse_has_ownerport m \<longleftrightarrow> fip_ownerport m \<noteq> None"

definition FileInfoResponse_ownerport :: "FileInfoResponse \<Rightarrow> string" where
  "FileInfoResponse_ownerport m = field_or [] (fip_ownerport m)"

definition FileInfoResponse_set_ownerport :: "string \<Rightarrow> FileInfoResponse \<Rightarrow> FileInfoResponse" where
  "FileInfoResponse_set_ownerport v m = m\<lparr>fip_ownerport := Some v\<rparr>"

definition FileInfoResponse_Clear :: "FileInfoResponse \<Rightarrow> FileInfoResponse" where
  "FileInfoResponse_Clear m = m\<lparr>fip_ownerhostname := None, fip_ownerport := None, fip_unknown := []\<rparr>"

definition FileInfoResponse_MergeFrom :: "FileInfoResponse \<Rightarrow> FileInfoResponse \<Rightarrow> FileInfoResponse" where
  "FileInfoResponse_MergeFrom to frm = to\<lparr>
     fip_ownerhostname := field_merge (fip_ownerhostname to) (fip_ownerhostname frm),
     fip_ownerport := field_merge (fip_ownerport to) (fip_ownerport frm),
     fip_unknown := fip_unknown to @ fip_unknown frm\<rparr>"


definition FileInfoResponse_CopyFrom :: "FileInfoResponse \<Rightarrow> FileInfoResponse \<Rightarrow> FileInfoResponse" where
  "FileInfoResponse_CopyFrom to frm = FileInfoResponse_MergeFrom (FileInfoResponse_Clear to) frm"

definition FileInfoResponse_IsInitialized :: "FileInfoResponse \<Rightarrow> bool" where
  "FileInfoResponse_IsInitialized m \<longleftrightarrow>
     fip_ownerhostname m \<noteq> None \<and>
     fip_ownerport m \<noteq> None"

declare FileInfoResponse_default_def [message_defs] FileInfoResponse_Clear_def [message_defs] FileInfoResponse_MergeFrom_def [message_defs]
  FileInfoResponse_CopyFrom_def [message_defs] FileInfoResponse_IsInitialized_def [message_defs]
declare FileInfoResponse_has_ownerhostname_def [accessor_defs] FileInfoResponse_ownerhostname_def [accessor_defs] FileInfoResponse_set_ownerhostname_def [accessor_defs] FileInfoResponse_has_ownerport_def [accessor_defs] FileInfoResponse_ownerport_def [accessor_defs] FileInfoResponse_set_ownerport_def [accessor_defs]

lemma FileInfoResponse_MergeFrom_default: "FileInfoResponse_MergeFrom FileInfoResponse_default m = m"
  by (cases m) (simp add: FileInfoResponse_MergeFrom_def FileInfoResponse_default_def)

lemma FileInfoResponse_CopyFrom_copies: "FileInfoResponse_CopyFrom to m = m"
proof -
  have "FileInfoResponse_Clear to = FileInfoResponse_default" by (cases to) (simp add: FileInfoResponse_Clear_def FileInfoResponse_default_def)
  then show ?thesis by (simp add: FileInfoResponse_CopyFrom_def FileInfoResponse_MergeFrom_default)
qed

section \<open>DownloadRequest\<close>

record DownloadRequest =
  dlq_filenamehash :: "int option"
  dlq_sourcehostname :: "string option"
  dlq_sourceport :: "string option"
  dlq_unknown :: "unknown_field list"

definition DownloadRequest_default :: DownloadRequest where
  "DownloadRequest_default = \<lparr>dlq_filenamehash = None, dlq_sourcehostname = None, dlq_sourceport = None, dlq_unknown = []\<rparr>"

definition DownloadRequest_has_filenamehash :: "DownloadRequest \<Rightarrow> bool" where
  "DownloadRequest_has_filenamehash m \<longleftrightarrow> dlq_filenamehash m \<noteq> None"

definition DownloadRequest_filenamehash :: "DownloadRequest \<Rightarrow> int" where
  "DownloadRequest_filenamehash m = field_or 0 (dlq_filenamehash m)"

definition DownloadRequest_set_filenamehash :: "int \<Rightarrow> DownloadRequest \<Rightarrow> DownloadRequest" where
  "DownloadRequest_set_filenamehash v m = m\<lparr>dlq_filenamehash := Some v\<rparr>"

definition DownloadRequest_has_sourcehostname :: "DownloadRequest \<Rightarrow> bool" where
  "DownloadRequest_has_sourcehostname m \<longleftrightarrow> dlq_sourcehostname m \<noteq> None"

definition DownloadRequest_sourcehostname :: "DownloadRequest \<Rightarrow> string" where
  "DownloadRequest_sourcehostname m = field_or [] (dlq_sourcehostname m)"

definition DownloadRequest_set_sourcehostname :: "string \<Rightarrow> DownloadRequest \<Rightarrow> DownloadRequest" where
  "DownloadRequest_set_sourcehostname v m = m\<lparr>dlq_sourcehostname := Some v\<rparr>"

definition DownloadRequest_has_sourceport :: "DownloadRequest \<Rightarrow> bool" where
  "DownloadRequest_has_sourceport m \<longleftrightarrow> dlq_sourceport m \<noteq> None"

definition DownloadRequest_sourceport :: "DownloadRequest \<Rightarrow> string" where
  "DownloadRequest_sourceport m = field_or [] (dlq_sourceport m)"

definition DownloadRequest_set_sourceport :: "string \<Rightarrow> DownloadRequest \<Rightarrow> DownloadRequest" where
  "DownloadRequest_set_sourceport v m = m\<lparr>dlq_sourceport := Some v\<rparr>"

definition DownloadRequest_Clear :: "DownloadRequest \<Rightarrow> DownloadRequest" where
  "DownloadRequest_Clear m = m\<lparr>dlq_filenamehash := None, dlq_sourcehostname := None, dlq_sourceport := None, dlq_unknown := []\<rparr>"

definition DownloadRequest_MergeFrom :: "DownloadRequest \<Rightarrow> DownloadRequest \<Rightarrow> DownloadRequest" where
  "DownloadRequest_MergeFrom to frm = to\<lparr>
     dlq_filenamehash := field_merge (dlq_filenamehash to) (dlq_filenamehash frm),
     dlq_sourcehostname := field_merge (dlq_sourcehostname to) (dlq_sourcehostname frm),
     dlq_sourceport := field_merge (dlq_sourceport to) (dlq_sourceport frm),
     dlq_unknown := dlq_unknown to @ dlq_unknown frm\<rparr>"


definition DownloadRequest_CopyFrom :: "DownloadRequest \<Rightarrow> DownloadRequest \<Rightarrow> DownloadRequest" where
  "DownloadRequest_CopyFrom to frm = DownloadRequest_MergeFrom (DownloadRequest_Clear to) frm"

definition DownloadRequest_IsInitialized :: "DownloadRequest \<Rightarrow> bool" where
  "DownloadRequest_IsInitialized m \<longleftrightarrow>
     dlq_filenamehash m \<noteq> None \<and>
     dlq_sourcehostname m \<noteq> None \<and>
     dlq_sourceport m \<noteq> None"

declare DownloadRequest_default_def [message_defs] DownloadRequest_Clear_def [message_defs] DownloadRequest_MergeFrom_def [message_defs]
  DownloadRequest_CopyFrom_def [message_defs] DownloadRequest_IsInitialized_def [message_defs]
declare DownloadRequest_has_filenamehash_def [accessor_defs] DownloadRequest_filenamehash_def [accessor_defs] DownloadRequest_set_filenamehash_def [accessor_defs] DownloadRequest_has_sourcehostname_def [accessor_defs] DownloadRequest_sourcehostname_def [accessor_defs] DownloadRequest_set_sourcehostname_def [accessor_defs] DownloadRequest_has_sourceport_def [accessor_defs] DownloadRequest_sourceport_def [accessor_defs] DownloadRequest_set_sourceport_def [accessor_defs]

lemma DownloadRequest_MergeFrom_default: "DownloadRequest_MergeFrom DownloadRequest_default m = m"
  by (cases m) (simp add: DownloadRequest_MergeFrom_def DownloadRequest_default_def)

lemma DownloadRequest_CopyFrom_copies: "DownloadRequest_CopyFrom to m = m"
proof -
  have "DownloadRequest_Clear to = DownloadRequest_default" by (cases to) (simp add: DownloadRequest_Clear_def DownloadRequest_default_def)
  then show ?thesis by (simp add: DownloadRequest_CopyFrom_def DownloadRequest_MergeFrom_default)
qed

section \<open>JoinRequest\<close>

record JoinRequest =
  jnq_newhostname :: "string option"
  jnq_newport :: "string option"
  jnq_newhostnamehash :: "int option"
  jnq_unknown :: "unknown_field list"

definition JoinRequest_default :: JoinRequest where
  "JoinRequest_default = \<lparr>jnq_newhostname = None, jnq_newport = None, jnq_newhostnamehash = None, jnq_unknown = []\<rparr>"

definition JoinRequest_has_newhostname :: "JoinRequest \<Rightarrow> bool" where
  "JoinRequest_has_newhostname m \<longleftrightarrow> jnq_newhostname m \<noteq> None"

definition JoinRequest_newhostname :: "JoinRequest \<Rightarrow> string" where
  "JoinRequest_newhostname m = field_or [] (jnq_newhostname m)"

definition JoinRequest_set_newhostname :: "string \<Rightarrow> JoinRequest \<Rightarrow> JoinRequest" where
  "JoinRequest_set_newhostname v m = m\<lparr>jnq_newhostname := Some v\<rparr>"

definition JoinRequest_has_newport :: "JoinRequest \<Rightarrow> bool" where
  "JoinRequest_has_newport m \<longleftrightarrow> jnq_newport m \<noteq> None"

definition JoinRequest_newport :: "JoinRequest \<Rightarrow> string" where
  "JoinRequest_newport m = field_or [] (jnq_newport m)"

definition JoinRequest_set_newport :: "string \<Rightarrow> JoinRequest \<Rightarrow> JoinRequest" where
  "JoinRequest_set_newport v m = m\<lparr>jnq_newport := Some v\<rparr>"

definition JoinRequest_has_newhostnamehash :: "JoinRequest \<Rightarrow> bool" where
  "JoinRequest_has_newhostnamehash m \<longleftrightarrow> jnq_newhostnamehash m \<noteq> None"

definition JoinRequest_newhostnamehash :: "JoinRequest \<Rightarrow> int" where
  "JoinRequest_newhostnamehash m = field_or 0 (jnq_newhostnamehash m)"

definition JoinRequest_set_newhostnamehash :: "int \<Rightarrow> JoinRequest \<Rightarrow> JoinRequest" where
  "JoinRequest_set_newhostnamehash v m = m\<lparr>jnq_newhostnamehash := Some v\<rparr>"

definition JoinRequest_Clear :: "JoinRequest \<Rightarrow> JoinRequest" where
  "JoinRequest_Clear m = m\<lparr>jnq_newhostname := None, jnq_newport := None, jnq_newhostnamehash := None, jnq_unknown := []\<rparr>"

definition JoinRequest_MergeFrom :: "JoinRequest \<Rightarrow> JoinRequest \<Rightarrow> JoinRequest" where
  "JoinRequest_MergeFrom to frm = to\<lparr>
     jnq_newhostname := field_merge (jnq_newhostname to) (jnq_newhostname frm),
     jnq_newport := field_merge (jnq_newport to) (jnq_newport frm),
     jnq_newhostnamehash := field_merge (jnq_newhostnamehash to) (jnq_newhostnamehash frm),
     jnq_unknown := jnq_unknown to @ jnq_unknown frm\<rparr>"


definition JoinRequest_CopyFrom :: "JoinRequest \<Rightarrow> JoinRequest \<Rightarrow> JoinRequest" where
  "JoinRequest_CopyFrom to frm = JoinRequest_MergeFrom (JoinRequest_Clear to) frm"

definition JoinRequest_IsInitialized :: "JoinRequest \<Rightarrow> bool" where
  "JoinRequest_IsInitialized m \<longleftrightarrow>
     jnq_newhostname m \<noteq> None \<and>
     jnq_newport m \<noteq> None \<and>
     jnq_newhostnamehash m \<noteq> None"

declare JoinRequest_default_def [message_defs] JoinRequest_Clear_def [message_defs] JoinRequest_MergeFrom_def [message_defs]
  JoinRequest_CopyFrom_def [message_defs] JoinRequest_IsInitialized_def [message_defs]
declare JoinRequest_has_newhostname_def [accessor_defs] JoinRequest_newhostname_def [accessor_defs] JoinRequest_set_newhostname_def [accessor_defs] JoinRequest_has_newport_def [accessor_defs] JoinRequest_newport_def [accessor_defs] JoinRequest_set_newport_def [accessor_defs] JoinRequest_has_newhostnamehash_def [accessor_defs] JoinRequest_newhostnamehash_def [accessor_defs] JoinRequest_set_newhostnamehash_def [accessor_defs]

lemma JoinRequest_MergeFrom_default: "JoinRequest_MergeFrom JoinRequest_default m = m"
  by (cases m) (simp add: JoinRequest_MergeFrom_def JoinRequest_default_def)

lemma JoinRequest_CopyFrom_copies: "JoinRequest_CopyFrom to m = m"
proof -
  have "JoinRequest_Clear to = JoinRequest_default" by (cases to) (simp add: JoinRequest_Clear_def JoinRequest_default_def)
  then show ?thesis by (simp add: JoinRequest_CopyFrom_def JoinRequest_MergeFrom_default)
qed

section \<open>RouteTableEntry\<close>

record RouteTableEntry =
  rte_hostname :: "string option"
  rte_port :: "string option"
  rte_hostnamehash :: "int option"
  rte_unknown :: "unknown_field list"

definition RouteTableEntry_default :: RouteTableEntry where
  "RouteTableEntry_default = \<lparr>rte_hostname = None, rte_port = None, rte_hostnamehash = None, rte_unknown = []\<rparr>"

definition RouteTableEntry_has_hostname :: "RouteTableEntry \<Rightarrow> bool" where
  "RouteTableEntry_has_hostname m \<longleftrightarrow> rte_hostname m \<noteq> None"

definition RouteTableEntry_hostname :: "RouteTableEntry \<Rightarrow> string" where
  "RouteTableEntry_hostname m = field_or [] (rte_hostname m)"

definition RouteTableEntry_set_hostname :: "string \<Rightarrow> RouteTableEntry \<Rightarrow> RouteTableEntry" where
  "RouteTableEntry_set_hostname v m = m\<lparr>rte_hostname := Some v\<rparr>"

definition RouteTableEntry_has_port :: "RouteTableEntry \<Rightarrow> bool" where
  "RouteTableEntry_has_port m \<longleftrightarrow> rte_port m \<noteq> None"

definition RouteTableEntry_port :: "RouteTableEntry \<Rightarrow> string" where
  "RouteTableEntry_port m = field_or [] (rte_port m)"

definition RouteTableEntry_set_port :: "string \<Rightarrow> RouteTableEntry \<Rightarrow> RouteTableEntry" where
  "RouteTableEntry_set_port v m = m\<lparr>rte_port := Some v\<rparr>"

definition RouteTableEntry_has_hostnamehash :: "RouteTableEntry \<Rightarrow> bool" where
  "RouteTableEntry_has_hostnamehash m \<longleftrightarrow> rte_hostnamehash m \<noteq> None"

definition RouteTableEntry_hostnamehash :: "RouteTableEntry \<Rightarrow> int" where
  "RouteTableEntry_hostnamehash m = field_or 0 (rte_hostnamehash m)"

definition RouteTableEntry_set_hostnamehash :: "int \<Rightarrow> RouteTableEntry \<Rightarrow> RouteTableEntry" where
  "RouteTableEntry_set_hostnamehash v m = m\<lparr>rte_hostnamehash := Some v\<rparr>"

definition RouteTableEntry_Clear :: "RouteTableEntry \<Rightarrow> RouteTableEntry" where
  "RouteTableEntry_Clear m = m\<lparr>rte_hostname := None, rte_port := None, rte_hostnamehash := None, rte_unknown := []\<rparr>"

definition RouteTableEntry_MergeFrom :: "RouteTableEntry \<Rightarrow> RouteTableEntry \<Rightarrow> RouteTableEntry" where
  "RouteTableEntry_MergeFrom to frm = to\<lparr>
     rte_hostname := field_merge (rte_hostname to) (rte_hostname frm),
     rte_port := field_merge (rte_port to) (rte_port frm),
     rte_hostnamehash := field_merge (rte_hostnamehash to) (rte_hostnamehash frm),
     rte_unknown := rte_unknown to @ rte_unknown frm\<rparr>"


definition RouteTableEntry_CopyFrom :: "RouteTableEntry \<Rightarrow> RouteTableEntry \<Rightarrow> RouteTableEntry" where
  "RouteTableEntry_CopyFrom to frm = RouteTableEntry_MergeFrom (RouteTableEntry_Clear to) frm"

definition RouteTableEntry_IsInitialized :: "RouteTableEntry \<Rightarrow> bool" where
  "RouteTableEntry_IsInitialized m \<longleftrightarrow>
     rte_hostname m \<noteq> None \<and>
     rte_port m \<noteq> None \<and>
     rte_hostnamehash m \<noteq> None"

declare RouteTableEntry_default_def [message_defs] RouteTableEntry_Clear_def [message_defs] RouteTableEntry_MergeFrom_def [message_defs]
  RouteTableEntry_CopyFrom_def [message_defs] RouteTableEntry_IsInitialized_def [message_defs]
declare RouteTableEntry_has_hostname_def [accessor_defs] RouteTableEntry_hostname_def [accessor_defs] RouteTableEntry_set_hostname_def [accessor_defs] RouteTableEntry_has_port_def [accessor_defs] RouteTableEntry_port_def [accessor_defs] RouteTableEntry_set_port_def [accessor_defs] RouteTableEntry_has_hostnamehash_def [accessor_defs] RouteTableEntry_hostnamehash_def [accessor_defs] RouteTableEntry_set_hostnamehash_def [accessor_defs]

lemma RouteTableEntry_MergeFrom_default: "RouteTableEntry_MergeFrom RouteTableEntry_default m = m"
  by (cases m) (simp add: RouteTableEntry_MergeFrom_def RouteTableEntry_default_def)

lemma RouteTableEntry_CopyFrom_copies: "RouteTableEntry_CopyFrom to m = m"
proof -
  have "RouteTableEntry_Clear to = RouteTableEntry_default" by (cases to) (simp add: RouteTableEntry_Clear_def RouteTableEntry_default_def)
  then show ?thesis by (simp add: RouteTableEntry_CopyFrom_def RouteTableEntry_MergeFrom_default)
qed

section \<open>RouteTableInit\<close>

record RouteTableInit =
  rti_entry :: "RouteTableEntry list"
  rti_unknown :: "unknown_field list"

definition RouteTableInit_default :: RouteTableInit where
  "RouteTableInit_default = \<lparr>rti_entry = [], rti_unknown = []\<rparr>"

definition RouteTableInit_entry :: "RouteTableInit \<Rightarrow> nat \<Rightarrow> RouteTableEntry" where
  "RouteTableInit_entry m i = rti_entry m ! i"

definition RouteTableInit_entry_size :: "RouteTableInit \<Rightarrow> nat" where
  "RouteTableInit_entry_size m = length (rti_entry m)"

text \<open>\<open>add_entry()\<close> followed by setting the fields of the element it returns.\<close>

definition RouteTableInit_add_entry :: "RouteTableEntry \<Rightarrow> RouteTableInit \<Rightarrow> RouteTableInit" where
  "RouteTableInit_add_entry e m = m\<lparr>rti_entry := rti_entry m @ [e]\<rparr>"

definition RouteTableInit_Clear :: "RouteTableInit \<Rightarrow> RouteTableInit" where
  "RouteTableInit_Clear m = m\<lparr>rti_entry := [], rti_unknown := []\<rparr>"

definition RouteTableInit_MergeFrom :: "RouteTableInit \<Rightarrow> RouteTableInit \<Rightarrow> RouteTableInit" where
  "RouteTableInit_MergeFrom to frm = to\<lparr>
     rti_entry := rti_entry to @ rti_entry frm,
     rti_unknown := rti_unknown to @ rti_unknown frm\<rparr>"


definition RouteTableInit_CopyFrom :: "RouteTableInit \<Rightarrow> RouteTableInit \<Rightarrow> RouteTableInit" where
  "RouteTableInit_CopyFrom to frm = RouteTableInit_MergeFrom (RouteTableInit_Clear to) frm"

definition RouteTableInit_IsInitialized :: "RouteTableInit \<Rightarrow> bool" where
  "RouteTableInit_IsInitialized m \<longleftrightarrow>
     list_all RouteTableEntry_IsInitialized (rti_entry m)"

declare RouteTableInit_default_def [message_defs] RouteTableInit_Clear_def [message_defs] RouteTableInit_MergeFrom_def [message_defs]
  RouteTableInit_CopyFrom_def [message_defs] RouteTableInit_IsInitialized_def [message_defs]
declare RouteTableInit_entry_def [accessor_defs] RouteTableInit_entry_size_def [accessor_defs] RouteTableInit_add_entry_def [accessor_defs]

lemma RouteTableInit_MergeFrom_default: "RouteTableInit_MergeFrom RouteTableInit_default m = m"
  by (cases m) (simp add: RouteTableInit_MergeFrom_def RouteTableInit_default_def)

lemma RouteTableInit_CopyFrom_copies: "RouteTableInit_CopyFrom to m = m"
proof -
  have "RouteTableInit_Clear to = RouteTableInit_default" by (cases to) (simp add: RouteTableInit_Clear_def RouteTableInit_default_def)
  then show ?thesis by (simp add: RouteTableInit_CopyFrom_def RouteTableInit_MergeFrom_default)
qed

section \<open>FileTableEntry\<close>

record FileTableEntry =
  fte_filenamehash :: "int option"
  fte_ownerhostname :: "string option"
  fte_ownerport :: "string option"
  fte_unknown :: "unknown_field list"

definition FileTableEntry_default :: FileTableEntry where
  "FileTableEntry_default = \<lparr>fte_filenamehash = None, fte_ownerhostname = None, fte_ownerport = None, fte_unknown = []\<rparr>"

definition FileTableEntry_has_filenamehash :: "FileTableEntry \<Rightarrow> bool" where
  "FileTableEntry_has_filenamehash m \<longleftrightarrow> fte_filenamehash m \<noteq> None"

definition FileTableEntry_filenamehash :: "FileTableEntry \<Rightarrow> int" where
  "FileTableEntry_filenamehash m = field_or 0 (fte_filenamehash m)"

definition FileTableEntry_set_filenamehash :: "int \<Rightarrow> FileTableEntry \<Rightarrow> FileTableEntry" where
  "FileTableEntry_set_filenamehash v m = m\<lparr>fte_filenamehash := Some v\<rparr>"

definition FileTableEntry_has_ownerhostname :: "FileTableEntry \<Rightarrow> bool" where
  "FileTableEntry_has_ownerhostname m \<longleftrightarrow> fte_ownerhostname m \<noteq> None"

definition FileTableEntry_ownerhostname :: "FileTableEntry \<Rightarrow> string" where
  "FileTableEntry_ownerhostname m = field_or [] (fte_ownerhostname m)"

definition FileTableEntry_set_ownerhostname :: "string \<Rightarrow> FileTableEntry \<Rightarrow> FileTableEntry" where
  "FileTableEntry_set_ownerhostname v m = m\<lparr>fte_ownerhostname := Some v\<rparr>"

definition FileTableEntry_has_ownerport :: "FileTableEntry \<Rightarrow> bool" where
  "FileTableEntry_has_ownerport m \<longleftrightarrow> fte_ownerport m \<noteq> None"

definition FileTableEntry_ownerport :: "FileTableEntry \<Rightarrow> string" where
  "FileTableEntry_ownerport m = field_or [] (fte_ownerport m)"

definition FileTableEntry_set_ownerport :: "string \<Rightarrow> FileTableEntry \<Rightarrow> FileTableEntry" where
  "FileTableEntry_set_ownerport v m = m\<lparr>fte_ownerport := Some v\<rparr>"

definition FileTableEntry_Clear :: "FileTableEntry \<Rightarrow> FileTableEntry" where
  "FileTableEntry_Clear m = m\<lparr>fte_filenamehash := None, fte_ownerhostname := None, fte_ownerport := None, fte_unknown := []\<rparr>"

definition FileTableEntry_MergeFrom :: "FileTableEntry \<Rightarrow> FileTableEntry \<Rightarrow> FileTableEntry" where
  "FileTableEntry_MergeFrom to frm = to\<lparr>
     fte_filenamehash := field_merge (fte_filenamehash to) (fte_filenamehash frm),
     fte_ownerhostname := field_merge (fte_ownerhostname to) (fte_ownerhostname frm),
     fte_ownerport := field_merge (fte_ownerport to) (fte_ownerport frm),
     fte_unknown := fte_unknown to @ fte_unknown frm\<rparr>"


definition FileTableEntry_CopyFrom :: "FileTableEntry \<Rightarrow> FileTableEntry \<Rightarrow> FileTableEntry" where
  "FileTableEntry_CopyFrom to frm = FileTableEntry_MergeFrom (FileTableEntry_Clear to) frm"

definition FileTableEntry_IsInitialized :: "FileTableEntry \<Rightarrow> bool" where
  "FileTableEntry_IsInitialized m \<longleftrightarrow>
     fte_filenamehash m \<noteq> None \<and>
     fte_ownerhostname m \<noteq> None \<and>
     fte_ownerport m \<noteq> None"

declare FileTableEntry_default_def [message_defs] FileTableEntry_Clear_def [message_defs] FileTableEntry_MergeFrom_def [message_defs]
  FileTableEntry_CopyFrom_def [message_defs] FileTableEntry_IsInitialized_def [message_defs]
declare FileTableEntry_has_filenamehash_def [accessor_defs] FileTableEntry_filenamehash_def [accessor_defs] FileTableEntry_set_filenamehash_def [accessor_defs] FileTableEntry_has_ownerhostname_def [accessor_defs] FileTableEntry_ownerhostname_def [accessor_defs] FileTableEntry_set_ownerhostname_def [accessor_defs] FileTableEntry_has_ownerport_def [accessor_defs] FileTableEntry_ownerport_def [accessor_defs] FileTableEntry_set_ownerport_def [accessor_defs]

lemma FileTableEntry_MergeFrom_default: "FileTableEntry_MergeFrom FileTableEntry_default m = m"
  by (cases m) (simp add: FileTableEntry_MergeFrom_def FileTableEntry_default_def)

lemma FileTableEntry_CopyFrom_copies: "FileTableEntry_CopyFrom to m = m"
proof -
  have "FileTableEntry_Clear to = FileTableEntry_default" by (cases to) (simp add: FileTableEntry_Clear_def FileTableEntry_default_def)
  then show ?thesis by (simp add: FileTableEntry_CopyFrom_def FileTableEntry_MergeFrom_default)
qed

section \<open>FileTable\<close>

record FileTable =
  ftb_entry :: "FileTableEntry list"
  ftb_unknown :: "unknown_field list"

definition FileTable_default :: FileTable where
  "FileTable_default = \<lparr>ftb_entry = [], ftb_unknown = []\<rparr>"

definition FileTable_entry :: "FileTable \<Rightarrow> nat \<Rightarrow> FileTableEntry" where
  "FileTable_entry m i = ftb_entry m ! i"

definition FileTable_entry_size :: "FileTable \<Rightarrow> nat" where
  "FileTable_entry_size m = length (ftb_entry m)"

text \<open>\<open>add_entry()\<close> followed by setting the fields of the element it returns.\<close>

definition FileTable_add_entry :: "FileTableEntry \<Rightarrow> FileTable \<Rightarrow> FileTable" where
  "FileTable_add_entry e m = m\<lparr>ftb_entry := ftb_entry m @ [e]\<rparr>"

definition FileTable_Clear :: "FileTable \<Rightarrow> FileTable" where
  "FileTable_Clear m = m\<lparr>ftb_entry := [], ftb_unknown := []\<rparr>"

definition FileTable_MergeFrom :: "FileTable \<Rightarrow> FileTable \<Rightarrow> FileTable" where
  "FileTable_MergeFrom to frm = to\<lparr>
     ftb_entry := ftb_entry to @ ftb_entry frm,
     ftb_unknown := ftb_unknown to @ ftb_unknown frm\<rparr>"


definition FileTable_CopyFrom :: "FileTable \<Rightarrow> FileTable \<Rightarrow> FileTable" where
  "FileTable_CopyFrom to frm = FileTable_MergeFrom (FileTable_Clear to) frm"

definition FileTable_IsInitialized :: "FileTable \<Rightarrow> bool" where
  "FileTable_IsInitialized m \<longleftrightarrow>
     list_all FileTableEntry_IsInitialized (ftb_entry m)"

declare FileTable_default_def [message_defs] FileTable_Clear_def [message_defs] FileTable_MergeFrom_def [message_defs]
  FileTable_CopyFrom_def [message_defs] FileTable_IsInitialized_def [message_defs]
declare FileTable_entry_def [accessor_defs] FileTable_entry_size_def [accessor_defs] FileTable_add_entry_def [accessor_defs]

lemma FileTable_MergeFrom_default: "FileTable_MergeFrom FileTable_default m = m"
  by (cases m) (simp add: FileTable_MergeFrom_def FileTable_default_def)

lemma FileTable_CopyFrom_copies: "FileTable_CopyFrom to m = m"
proof -
  have "FileTable_Clear to = FileTable_default" by (cases to) (simp add: FileTable_Clear_def FileTable_default_def)
  then show ?thesis by (simp add: FileTable_CopyFrom_def FileTable_MergeFrom_default)
qed

section \<open>RouteUpdateRequest\<close>

record RouteUpdateRequest =
  ruq_newhostname :: "string option"
  ruq_newport :: "string option"
  ruq_newhostnamehash :: "int option"
  ruq_unknown :: "unknown_field list"

definition RouteUpdateRequest_default :: RouteUpdateRequest where
  "RouteUpdateRequest_default = \<lparr>ruq_newhostname = None, ruq_newport = None, ruq_newhostnamehash = None, ruq_unknown = []\<rparr>"

definition RouteUpdateRequest_has_newhostname :: "RouteUpdateRequest \<Rightarrow> bool" where
  "RouteUpdateRequest_has_newhostname m \<longleftrightarrow> ruq_newhostname m \<noteq> None"

definition RouteUpdateRequest_newhostname :: "RouteUpdateRequest \<Rightarrow> string" where
  "RouteUpdateRequest_newhostname m = field_or [] (ruq_newhostname m)"

definition RouteUpdateRequest_set_newhostname :: "string \<Rightarrow> RouteUpdateRequest \<Rightarrow> RouteUpdateRequest" where
  "RouteUpdateRequest_set_newhostname v m = m\<lparr>ruq_newhostname := Some v\<rparr>"

definition RouteUpdateRequest_has_newport :: "RouteUpdateRequest \<Rightarrow> bool" where
  "RouteUpdateRequest_has_newport m \<longleftrightarrow> ruq_newport m \<noteq> None"

definition RouteUpdateRequest_newport :: "RouteUpdateRequest \<Rightarrow> string" where
  "RouteUpdateRequest_newport m = field_or [] (ruq_newport m)"

definition RouteUpdateRequest_set_newport :: "string \<Rightarrow> RouteUpdateRequest \<Rightarrow> RouteUpdateRequest" where
  "RouteUpdateRequest_set_newport v m = m\<lparr>ruq_newport := Some v\<rparr>"

definition RouteUpdateRequest_has_newhostnamehash :: "RouteUpdateRequest \<Rightarrow> bool" where
  "RouteUpdateRequest_has_newhostnamehash m \<longleftrightarrow> ruq_newhostnamehash m \<noteq> None"

definition RouteUpdateRequest_newhostnamehash :: "RouteUpdateRequest \<Rightarrow> int" where
  "RouteUpdateRequest_newhostnamehash m = field_or 0 (ruq_newhostnamehash m)"

definition RouteUpdateRequest_set_newhostnamehash :: "int \<Rightarrow> RouteUpdateRequest \<Rightarrow> RouteUpdateRequest" where
  "RouteUpdateRequest_set_newhostnamehash v m = m\<lparr>ruq_newhostnamehash := Some v\<rparr>"

definition RouteUpdateRequest_Clear :: "RouteUpdateRequest \<Rightarrow> RouteUpdateRequest" where
  "RouteUpdateRequest_Clear m = m\<lparr>ruq_newhostname := None, ruq_newport := None, ruq_newhostnamehash := None, ruq_unknown := []\<rparr>"

definition RouteUpdateRequest_MergeFrom :: "RouteUpdateRequest \<Rightarrow> RouteUpdateRequest \<Rightarrow> RouteUpdateRequest" where
  "RouteUpdateRequest_MergeFrom to frm = to\<lparr>
     ruq_newhostname := field_merge (ruq_newhostname to) (ruq_newhostname frm),
     ruq_newport := field_merge (ruq_newport to) (ruq_newport frm),
     ruq_newhostnamehash := field_merge (ruq_newhostnamehash to) (ruq_newhostnamehash frm),
     ruq_unknown := ruq_unknown to @ ruq_unknown frm\<rparr>"


definition RouteUpdateRequest_CopyFrom :: "RouteUpdateRequest \<Rightarrow> RouteUpdateRequest \<Rightarrow> RouteUpdateRequest" where
  "RouteUpdateRequest_CopyFrom to frm = RouteUpdateRequest_MergeFrom (RouteUpdateRequest_Clear to) frm"

definition RouteUpdateRequest_IsInitialized :: "RouteUpdateRequest \<Rightarrow> bool" where
  "RouteUpdateRequest_IsInitialized m \<longleftrightarrow>
     ruq_newhostname m \<noteq> None \<and>
     ruq_newport m \<noteq> None \<and>
     ruq_newhostnamehash m \<noteq> None"

declare RouteUpdateRequest_default_def [message_defs] RouteUpdateRequest_Clear_def [message_defs] RouteUpdateRequest_MergeFrom_def [message_defs]
  RouteUpdateRequest_CopyFrom_def [message_defs] RouteUpdateRequest_IsInitialized_def [message_defs]
declare RouteUpdateRequest_has_newhostname_def [accessor_defs] RouteUpdateRequest_newhostname_def [accessor_defs] RouteUpdateRequest_set_newhostname_def [accessor_defs] RouteUpdateRequest_has_newport_def [accessor_defs] RouteUpdateRequest_newport_def [accessor_defs] RouteUpdateRequest_set_newport_def [accessor_defs] RouteUpdateRequest_has_newhostnamehash_def [accessor_defs] RouteUpdateRequest_newhostnamehash_def [accessor_defs] RouteUpdateRequest_set_newhostnamehash_def [accessor_defs]

lemma RouteUpdateRequest_MergeFrom_default: "RouteUpdateRequest_MergeFrom RouteUpdateRequest_default m = m"
  by (cases m) (simp add: RouteUpdateRequest_MergeFrom_def RouteUpdateRequest_default_def)

lemma RouteUpdateRequest_CopyFrom_copies: "RouteUpdateRequest_CopyFrom to m = m"
proof -
  have "RouteUpdateRequest_Clear to = RouteUpdateRequest_default" by (cases to) (simp add: RouteUpdateRequest_Clear_def RouteUpdateRequest_default_def)
  then show ?thesis by (simp add: RouteUpdateRequest_CopyFrom_def RouteUpdateRequest_MergeFrom_default)
qed

section \<open>RouteUpdateResponse\<close>

record RouteUpdateResponse =
  rup_nextupdatehostname :: "string option"
  rup_nextupdateport :: "string option"
  rup_nextupdatehostnamehash :: "int option"
  rup_curupdatehostnamehash :: "int option"
  rup_unknown :: "unknown_field list"

definition RouteUpdateResponse_default :: RouteUpdateResponse where
  "RouteUpdateResponse_default = \<lparr>rup_nextupdatehostname = None, rup_nextupdateport = None, rup_nextupdatehostnamehash = None, rup_curupdatehostnamehash = None, rup_unknown = []\<rparr>"

definition RouteUpdateResponse_has_nextupdatehostname :: "RouteUpdateResponse \<Rightarrow> bool" where
  "RouteUpdateResponse_has_nextupdatehostname m \<longleftrightarrow> rup_nextupdatehostname m \<noteq> None"

definition RouteUpdateResponse_nextupdatehostname :: "RouteUpdateResponse \<Rightarrow> string" where
  "RouteUpdateResponse_nextupdatehostname m = field_or [] (rup_nextupdatehostname m)"

definition RouteUpdateResponse_set_nextupdatehostname :: "string \<Rightarrow> RouteUpdateResponse \<Rightarrow> RouteUpdateResponse" where
  "RouteUpdateResponse_set_nextupdatehostname v m = m\<lparr>rup_nextupdatehostname := Some v\<rparr>"

definition RouteUpdateResponse_has_nextupdateport :: "RouteUpdateResponse \<Rightarrow> bool" where
  "RouteUpdateResponse_has_nextupdateport m \<longleftrightarrow> rup_nextupdateport m \<noteq> None"

definition RouteUpdateResponse_nextupdateport :: "RouteUpdateResponse \<Rightarrow> string" where
  "RouteUpdateResponse_nextupdateport m = field_or [] (rup_nextupdateport m)"

definition RouteUpdateResponse_set_nextupdateport :: "string \<Rightarrow> RouteUpdateResponse \<Rightarrow> RouteUpdateResponse" where
  "RouteUpdateResponse_set_nextupdateport v m = m\<lparr>rup_nextupdateport := Some v\<rparr>"

definition RouteUpdateResponse_has_nextupdatehostnamehash :: "RouteUpdateResponse \<Rightarrow> bool" where
  "RouteUpdateResponse_has_nextupdatehostnamehash m \<longleftrightarrow> rup_nextupdatehostnamehash m \<noteq> None"

definition RouteUpdateResponse_nextupdatehostnamehash :: "RouteUpdateResponse \<Rightarrow> int" where
  "RouteUpdateResponse_nextupdatehostnamehash m = field_or 0 (rup_nextupdatehostnamehash m)"

definition RouteUpdateResponse_set_nextupdatehostnamehash :: "int \<Rightarrow> RouteUpdateResponse \<Rightarrow> RouteUpdateResponse" where
  "RouteUpdateResponse_set_nextupdatehostnamehash v m = m\<lparr>rup_nextupdatehostnamehash := Some v\<rparr>"

definition RouteUpdateResponse_has_curupdatehostnamehash :: "RouteUpdateResponse \<Rightarrow> bool" where
  "RouteUpdateResponse_has_curupdatehostnamehash m \<longleftrightarrow> rup_curupdatehostnamehash m \<noteq> None"

definition RouteUpdateResponse_curupdatehostnamehash :: "RouteUpdateResponse \<Rightarrow> int" where
  "RouteUpdateResponse_curupdatehostnamehash m = field_or 0 (rup_curupdatehostnamehash m)"

definition RouteUpdateResponse_set_curupdatehostnamehash :: "int \<Rightarrow> RouteUpdateResponse \<Rightarrow> RouteUpdateResponse" where
  "RouteUpdateResponse_set_curupdatehostnamehash v m = m\<lparr>rup_curupdatehostnamehash := Some v\<rparr>"

definition RouteUpdateResponse_Clear :: "RouteUpdateResponse \<Rightarrow> RouteUpdateResponse" where
  "RouteUpdateResponse_Clear m = m\<lparr>rup_nextupdatehostname := None, rup_nextupdateport := None, rup_nextupdatehostnamehash := None, rup_curupdatehostnamehash := None, rup_unknown := []\<rparr>"

definition RouteUpdateResponse_MergeFrom :: "RouteUpdateResponse \<Rightarrow> RouteUpdateResponse \<Rightarrow> RouteUpdateResponse" where
  "RouteUpdateResponse_MergeFrom to frm = to\<lparr>
     rup_nextupdatehostname := field_merge (rup_nextupdatehostname to) (rup_nextupdatehostname frm),
     rup_nextupdateport := field_merge (rup_nextupdateport to) (rup_nextupdateport frm),
     rup_nextupdatehostnamehash := field_merge (rup_nextupdatehostnamehash to) (rup_nextupdatehostnamehash frm),
     rup_curupdatehostnamehash := field_merge (rup_curupdatehostnamehash to) (rup_curupdatehostnamehash frm),
     rup_unknown := rup_unknown to @ rup_unknown frm\<rparr>"


definition RouteUpdateResponse_CopyFrom :: "RouteUpdateResponse \<Rightarrow> RouteUpdateResponse \<Rightarrow> RouteUpdateResponse" where
  "RouteUpdateResponse_CopyFrom to frm = RouteUpdateResponse_MergeFrom (RouteUpdateResponse_Clear to) frm"

definition RouteUpdateResponse_IsInitialized :: "RouteUpdateResponse \<Rightarrow> bool" where
  "RouteUpdateResponse_IsInitialized m \<longleftrightarrow>
     rup_nextupdatehostname m \<noteq> None \<and>
     rup_nextupdateport m \<noteq> None \<and>
     rup_nextupdatehostnamehash m \<noteq> None \<and>
     rup_curupdatehostnamehash m \<noteq> None"

declare RouteUpdateResponse_default_def [message_defs] RouteUpdateResponse_Clear_def [message_defs] RouteUpdateResponse_MergeFrom_def [message_defs]
  RouteUpdateResponse_CopyFrom_def [message_defs] RouteUpdateResponse_IsInitialized_def [message_defs]
declare RouteUpdateResponse_has_nextupdatehostname_def [accessor_defs] RouteUpdateResponse_nextupdatehostname_def [accessor_defs] RouteUpdateResponse_set_nextupdatehostname_def [accessor_defs] RouteUpdateResponse_has_nextupdateport_def [accessor_defs] RouteUpdateResponse_nextupdateport_def [accessor_defs] RouteUpdateResponse_set_nextupdateport_def [accessor_defs] RouteUpdateResponse_has_nextupdatehostnamehash_def [accessor_defs] RouteUpdateResponse_nextupdatehostnamehash_def [accessor_defs] RouteUpdateResponse_set_nextupdatehostnamehash_def [accessor_defs] RouteUpdateResponse_has_curupdatehostnamehash_def [accessor_defs] RouteUpdateResponse_curupdatehostnamehash_def [accessor_defs] RouteUpdateResponse_set_curupdatehostnamehash_def [accessor_defs]

lemma RouteUpdateResponse_MergeFrom_default: "RouteUpdateResponse_MergeFrom RouteUpdateResponse_default m = m"
  by (cases m) (simp add: RouteUpdateResponse_MergeFrom_def RouteUpdateResponse_default_def)

lemma RouteUpdateResponse_CopyFrom_copies: "RouteUpdateResponse_CopyFrom to m = m"
proof -
  have "RouteUpdateResponse_Clear to = RouteUpdateResponse_default" by (cases to) (simp add: RouteUpdateResponse_Clear_def RouteUpdateResponse_default_def)
  then show ?thesis by (simp add: RouteUpdateResponse_CopyFrom_def RouteUpdateResponse_MergeFrom_default)
qed

section \<open>RouteDeleteRequest\<close>

record RouteDeleteRequest =
  rdq_entry :: "RouteTableEntry list"
  rdq_unknown :: "unknown_field list"

definition RouteDeleteRequest_default :: RouteDeleteRequest where
  "RouteDeleteRequest_default = \<lparr>rdq_entry = [], rdq_unknown = []\<rparr>"

definition RouteDeleteRequest_entry :: "RouteDeleteRequest \<Rightarrow> nat \<Rightarrow> RouteTableEntry" where
  "RouteDeleteRequest_entry m i = rdq_entry m ! i"

definition RouteDeleteRequest_entry_size :: "RouteDeleteRequest \<Rightarrow> nat" where
  "RouteDeleteRequest_entry_size m = length (rdq_entry m)"

text \<open>\<open>add_entry()\<close> followed by setting the fields of the element it returns.\<close>

definition RouteDeleteRequest_add_entry :: "RouteTableEntry \<Rightarrow> RouteDeleteRequest \<Rightarrow> RouteDeleteRequest" where
  "RouteDeleteRequest_add_entry e m = m\<lparr>rdq_entry := rdq_entry m @ [e]\<rparr>"

definition RouteDeleteRequest_Clear :: "RouteDeleteRequest \<Rightarrow> RouteDeleteRequest" where
  "RouteDeleteRequest_Clear m = m\<lparr>rdq_entry := [], rdq_unknown := []\<rparr>"

definition RouteDeleteRequest_MergeFrom :: "RouteDeleteRequest \<Rightarrow> RouteDeleteRequest \<Rightarrow> RouteDeleteRequest" where
  "RouteDeleteRequest_MergeFrom to frm = to\<lparr>
     rdq_entry := rdq_entry to @ rdq_entry frm,
     rdq_unknown := rdq_unknown to @ rdq_unknown frm\<rparr>"


definition RouteDeleteRequest_CopyFrom :: "RouteDeleteRequest \<Rightarrow> RouteDeleteRequest \<Rightarrow> RouteDeleteRequest" where
  "RouteDeleteRequest_CopyFrom to frm = RouteDeleteRequest_MergeFrom (RouteDeleteRequest_Clear to) frm"

definition RouteDeleteRequest_IsInitialized :: "RouteDeleteRequest \<Rightarrow> bool" where
  "RouteDeleteRequest_IsInitialized m \<longleftrightarrow>
     list_all RouteTableEntry_IsInitialized (rdq_entry m)"

declare RouteDeleteRequest_default_def [message_defs] RouteDeleteRequest_Clear_def [message_defs] RouteDeleteRequest_MergeFrom_def [message_defs]
  RouteDeleteRequest_CopyFrom_def [message_defs] RouteDeleteRequest_IsInitialized_def [message_defs]
declare RouteDeleteRequest_entry_def [accessor_defs] RouteDeleteRequest_entry_size_def [accessor_defs] RouteDeleteRequest_add_entry_def [accessor_defs]

lemma RouteDeleteRequest_MergeFrom_default: "RouteDeleteRequest_MergeFrom RouteDeleteRequest_default m = m"
  by (cases m) (simp add: RouteDeleteRequest_MergeFrom_def RouteDeleteRequest_default_def)

lemma RouteDeleteRequest_CopyFrom_copies: "RouteDeleteRequest_CopyFrom to m = m"
proof -
  have "RouteDeleteRequest_Clear to = RouteDeleteRequest_default" by (cases to) (simp add: RouteDeleteRequest_Clear_def RouteDeleteRequest_default_def)
  then show ?thesis by (simp add: RouteDeleteRequest_CopyFrom_def RouteDeleteRequest_MergeFrom_default)
qed

section \<open>HelpJoinRequset\<close>

record HelpJoinRequset =
  hjq_newhostname :: "string option"
  hjq_newport :: "string option"
  hjq_newhostnamehash :: "int option"
  hjq_unknown :: "unknown_field list"

definition HelpJoinRequset_default :: HelpJoinRequset where
  "HelpJoinRequset_default = \<lparr>hjq_newhostname = None, hjq_newport = None, hjq_newhostnamehash = None, hjq_unknown = []\<rparr>"

definition HelpJoinRequset_has_newhostname :: "HelpJoinRequset \<Rightarrow> bool" where
  "HelpJoinRequset_has_newhostname m \<longleftrightarrow> hjq_newhostname m \<noteq> None"

definition HelpJoinRequset_newhostname :: "HelpJoinRequset \<Rightarrow> string" where
  "HelpJoinRequset_newhostname m = field_or [] (hjq_newhostname m)"

definition HelpJoinRequset_set_newhostname :: "string \<Rightarrow> HelpJoinRequset \<Rightarrow> HelpJoinRequset" where
  "HelpJoinRequset_set_newhostname v m = m\<lparr>hjq_newhostname := Some v\<rparr>"

definition HelpJoinRequset_has_newport :: "HelpJoinRequset \<Rightarrow> bool" where
  "HelpJoinRequset_has_newport m \<longleftrightarrow> hjq_newport m \<noteq> None"

definition HelpJoinRequset_newport :: "HelpJoinRequset \<Rightarrow> string" where
  "HelpJoinRequset_newport m = field_or [] (hjq_newport m)"

definition HelpJoinRequset_set_newport :: "string \<Rightarrow> HelpJoinRequset \<Rightarrow> HelpJoinRequset" where
  "HelpJoinRequset_set_newport v m = m\<lparr>hjq_newport := Some v\<rparr>"

definition HelpJoinRequset_has_newhostnamehash :: "HelpJoinRequset \<Rightarrow> bool" where
  "HelpJoinRequset_has_newhostnamehash m \<longleftrightarrow> hjq_newhostnamehash m \<noteq> None"

definition HelpJoinRequset_newhostnamehash :: "HelpJoinRequset \<Rightarrow> int" where
  "HelpJoinRequset_newhostnamehash m = field_or 0 (hjq_newhostnamehash m)"

definition HelpJoinRequset_set_newhostnamehash :: "int \<Rightarrow> HelpJoinRequset \<Rightarrow> HelpJoinRequset" where
  "HelpJoinRequset_set_newhostnamehash v m = m\<lparr>hjq_newhostnamehash := Some v\<rparr>"

definition HelpJoinRequset_Clear :: "HelpJoinRequset \<Rightarrow> HelpJoinRequset" where
  "HelpJoinRequset_Clear m = m\<lparr>hjq_newhostname := None, hjq_newport := None, hjq_newhostnamehash := None, hjq_unknown := []\<rparr>"

definition HelpJoinRequset_MergeFrom :: "HelpJoinRequset \<Rightarrow> HelpJoinRequset \<Rightarrow> HelpJoinRequset" where
  "HelpJoinRequset_MergeFrom to frm = to\<lparr>
     hjq_newhostname := field_merge (hjq_newhostname to) (hjq_newhostname frm),
     hjq_newport := field_merge (hjq_newport to) (hjq_newport frm),
     hjq_newhostnamehash := field_merge (hjq_newhostnamehash to) (hjq_newhostnamehash frm),
     hjq_unknown := hjq_unknown to @ hjq_unknown frm\<rparr>"


definition HelpJoinRequset_CopyFrom :: "HelpJoinRequset \<Rightarrow> HelpJoinRequset \<Rightarrow> HelpJoinRequset" where
  "HelpJoinRequset_CopyFrom to frm = HelpJoinRequset_MergeFrom (HelpJoinRequset_Clear to) frm"

definition HelpJoinRequset_IsInitialized :: "HelpJoinRequset \<Rightarrow> bool" where
  "HelpJoinRequset_IsInitialized m \<longleftrightarrow>
     hjq_newhostname m \<noteq> None \<and>
     hjq_newport m \<noteq> None \<and>
     hjq_newhostnamehash m \<noteq> None"

declare HelpJoinRequset_default_def [message_defs] HelpJoinRequset_Clear_def [message_defs] HelpJoinRequset_MergeFrom_def [message_defs]
  HelpJoinRequset_CopyFrom_def [message_defs] HelpJoinRequset_IsInitialized_def [message_defs]
declare HelpJoinRequset_has_newhostname_def [accessor_defs] HelpJoinRequset_newhostname_def [accessor_defs] HelpJoinRequset_set_newhostname_def [accessor_defs] HelpJoinRequset_has_newport_def [accessor_defs] HelpJoinRequset_newport_def [accessor_defs] HelpJoinRequset_set_newport_def [accessor_defs] HelpJoinRequset_has_newhostnamehash_def [accessor_defs] HelpJoinRequset_newhostnamehash_def [accessor_defs] HelpJoinRequset_set_newhostnamehash_def [accessor_defs]

lemma HelpJoinRequset_MergeFrom_default: "HelpJoinRequset_MergeFrom HelpJoinRequset_default m = m"
  by (cases m) (simp add: HelpJoinRequset_MergeFrom_def HelpJoinRequset_default_def)

lemma HelpJoinRequset_CopyFrom_copies: "HelpJoinRequset_CopyFrom to m = m"
proof -
  have "HelpJoinRequset_Clear to = HelpJoinRequset_default" by (cases to) (simp add: HelpJoinRequset_Clear_def HelpJoinRequset_default_def)
  then show ?thesis by (simp add: HelpJoinRequset_CopyFrom_def HelpJoinRequset_MergeFrom_default)
qed

section \<open>HelpJoinResponse\<close>

record HelpJoinResponse =
  hjp_responsiblehostname :: "string option"
  hjp_responsibleport :: "string option"
  hjp_responhostnamehash :: "int option"
  hjp_unknown :: "unknown_field list"

definition HelpJoinResponse_default :: HelpJoinResponse where
  "HelpJoinResponse_default = \<lparr>hjp_responsiblehostname = None, hjp_responsibleport = None, hjp_responhostnamehash = None, hjp_unknown = []\<rparr>"

definition HelpJoinResponse_has_responsiblehostname :: "HelpJoinResponse \<Rightarrow> bool" where
  "HelpJoinResponse_has_responsiblehostname m \<longleftrightarrow> hjp_responsiblehostname m \<noteq> None"

definition HelpJoinResponse_responsiblehostname :: "HelpJoinResponse \<Rightarrow> string" where
  "HelpJoinResponse_responsiblehostname m = field_or [] (hjp_responsiblehostname m)"

definition HelpJoinResponse_set_responsiblehostname :: "string \<Rightarrow> HelpJoinResponse \<Rightarrow> HelpJoinResponse" where
  "HelpJoinResponse_set_responsiblehostname v m = m\<lparr>hjp_responsiblehostname := Some v\<rparr>"

definition HelpJoinResponse_has_responsibleport :: "HelpJoinResponse \<Rightarrow> bool" where
  "HelpJoinResponse_has_responsibleport m \<longleftrightarrow> hjp_responsibleport m \<noteq> None"

definition HelpJoinResponse_responsibleport :: "HelpJoinResponse \<Rightarrow> string" where
  "HelpJoinResponse_responsibleport m = field_or [] (hjp_responsibleport m)"

definition HelpJoinResponse_set_responsibleport :: "string \<Rightarrow> HelpJoinResponse \<Rightarrow> HelpJoinResponse" where
  "HelpJoinResponse_set_responsibleport v m = m\<lparr>hjp_responsibleport := Some v\<rparr>"

definition HelpJoinResponse_has_responhostnamehash :: "HelpJoinResponse \<Rightarrow> bool" where
  "HelpJoinResponse_has_responhostnamehash m \<longleftrightarrow> hjp_responhostnamehash m \<noteq> None"

definition HelpJoinResponse_responhostnamehash :: "HelpJoinResponse \<Rightarrow> int" where
  "HelpJoinResponse_responhostnamehash m = field_or 0 (hjp_responhostnamehash m)"

definition HelpJoinResponse_set_responhostnamehash :: "int \<Rightarrow> HelpJoinResponse \<Rightarrow> HelpJoinResponse" where
  "HelpJoinResponse_set_responhostnamehash v m = m\<lparr>hjp_responhostnamehash := Some v\<rparr>"

definition HelpJoinResponse_Clear :: "HelpJoinResponse \<Rightarrow> HelpJoinResponse" where
  "HelpJoinResponse_Clear m = m\<lparr>hjp_responsiblehostname := None, hjp_responsibleport := None, hjp_responhostnamehash := None, hjp_unknown := []\<rparr>"

definition HelpJoinResponse_MergeFrom :: "HelpJoinResponse \<Rightarrow> HelpJoinResponse \<Rightarrow> HelpJoinResponse" where
  "HelpJoinResponse_MergeFrom to frm = to\<lparr>
     hjp_responsiblehostname := field_merge (hjp_responsiblehostname to) (hjp_responsiblehostname frm),
     hjp_responsibleport := field_merge (hjp_responsibleport to) (hjp_responsibleport frm),
     hjp_responhostnamehash := field_merge (hjp_responhostnamehash to) (hjp_responhostnamehash frm),
     hjp_unknown := hjp_unknown to @ hjp_unknown frm\<rparr>"


definition HelpJoinResponse_CopyFrom :: "HelpJoinResponse \<Rightarrow> HelpJoinResponse \<Rightarrow> HelpJoinResponse" where
  "HelpJoinResponse_CopyFrom to frm = HelpJoinResponse_MergeFrom (HelpJoinResponse_Clear to) frm"

definition HelpJoinResponse_IsInitialized :: "HelpJoinResponse \<Rightarrow> bool" where
  "HelpJoinResponse_IsInitialized m \<longleftrightarrow>
     hjp_responsiblehostname m \<noteq> None \<and>
     hjp_responsibleport m \<noteq> None \<and>
     hjp_responhostnamehash m \<noteq> None"

declare HelpJoinResponse_default_def [message_defs] HelpJoinResponse_Clear_def [message_defs] HelpJoinResponse_MergeFrom_def [message_defs]
  HelpJoinResponse_CopyFrom_def [message_defs] HelpJoinResponse_IsInitialized_def [message_defs]
declare HelpJoinResponse_has_responsiblehostname_def [accessor_defs] HelpJoinResponse_responsiblehostname_def [accessor_defs] HelpJoinResponse_set_responsiblehostname_def [accessor_defs] HelpJoinResponse_has_responsibleport_def [accessor_defs] HelpJoinResponse_responsibleport_def [accessor_defs] HelpJoinResponse_set_responsibleport_def [accessor_defs] HelpJoinResponse_has_responhostnamehash_def [accessor_defs] HelpJoinResponse_responhostnamehash_def [accessor_defs] HelpJoinResponse_set_responhostnamehash_def [accessor_defs]

lemma HelpJoinResponse_MergeFrom_default: "HelpJoinResponse_MergeFrom HelpJoinResponse_default m = m"
  by (cases m) (simp add: HelpJoinResponse_MergeFrom_def HelpJoinResponse_default_def)

lemma HelpJoinResponse_CopyFrom_copies: "HelpJoinResponse_CopyFrom to m = m"
proof -
  have "HelpJoinResponse_Clear to = HelpJoinResponse_default" by (cases to) (simp add: HelpJoinResponse_Clear_def HelpJoinResponse_default_def)
  then show ?thesis by (simp add: HelpJoinResponse_CopyFrom_def HelpJoinResponse_MergeFrom_default)
qed

section \<open>LookupNodeResponse\<close>

record LookupNodeResponse =
  lnp_hostname :: "string option"
  lnp_port :: "string option"
  lnp_hostnamehash :: "int option"
  lnp_unknown :: "unknown_field list"

definition LookupNodeResponse_default :: LookupNodeResponse where
  "LookupNodeResponse_default = \<lparr>lnp_hostname = None, lnp_port = None, lnp_hostnamehash = None, lnp_unknown = []\<rparr>"

definition LookupNodeResponse_has_hostname :: "LookupNodeResponse \<Rightarrow> bool" where
  "LookupNodeResponse_has_hostname m \<longleftrightarrow> lnp_hostname m \<noteq> None"

definition LookupNodeResponse_hostname :: "LookupNodeResponse \<Rightarrow> string" where
  "LookupNodeResponse_hostname m = field_or [] (lnp_hostname m)"

definition LookupNodeResponse_set_hostname :: "string \<Rightarrow> LookupNodeResponse \<Rightarrow> LookupNodeResponse" where
  "LookupNodeResponse_set_hostname v m = m\<lparr>lnp_hostname := Some v\<rparr>"

definition LookupNodeResponse_has_port :: "LookupNodeResponse \<Rightarrow> bool" where
  "LookupNodeResponse_has_port m \<longleftrightarrow> lnp_port m \<noteq> None"

definition LookupNodeResponse_port :: "LookupNodeResponse \<Rightarrow> string" where
  "LookupNodeResponse_port m = field_or [] (lnp_port m)"

definition LookupNodeResponse_set_port :: "string \<Rightarrow> LookupNodeResponse \<Rightarrow> LookupNodeResponse" where
  "LookupNodeResponse_set_port v m = m\<lparr>lnp_port := Some v\<rparr>"

definition LookupNodeResponse_has_hostnamehash :: "LookupNodeResponse \<Rightarrow> bool" where
  "LookupNodeResponse_has_hostnamehash m \<longleftrightarrow> lnp_hostnamehash m \<noteq> None"

definition LookupNodeResponse_hostnamehash :: "LookupNodeResponse \<Rightarrow> int" where
  "LookupNodeResponse_hostnamehash m = field_or 0 (lnp_hostnamehash m)"

definition LookupNodeResponse_set_hostnamehash :: "int \<Rightarrow> LookupNodeResponse \<Rightarrow> LookupNodeResponse" where
  "LookupNodeResponse_set_hostnamehash v m = m\<lparr>lnp_hostnamehash := Some v\<rparr>"

definition LookupNodeResponse_Clear :: "LookupNodeResponse \<Rightarrow> LookupNodeResponse" where
  "LookupNodeResponse_Clear m = m\<lparr>lnp_hostname := None, lnp_port := None, lnp_hostnamehash := None, lnp_unknown := []\<rparr>"

definition LookupNodeResponse_MergeFrom :: "LookupNodeResponse \<Rightarrow> LookupNodeResponse \<Rightarrow> LookupNodeResponse" where
  "LookupNodeResponse_MergeFrom to frm = to\<lparr>
     lnp_hostname := field_merge (lnp_hostname to) (lnp_hostname frm),
     lnp_port := field_merge (lnp_port to) (lnp_port frm),
     lnp_hostnamehash := field_merge (lnp_hostnamehash to) (lnp_hostnamehash frm),
     lnp_unknown := lnp_unknown to @ lnp_unknown frm\<rparr>"


definition LookupNodeResponse_CopyFrom :: "LookupNodeResponse \<Rightarrow> LookupNodeResponse \<Rightarrow> LookupNodeResponse" where
  "LookupNodeResponse_CopyFrom to frm = LookupNodeResponse_MergeFrom (LookupNodeResponse_Clear to) frm"

definition LookupNodeResponse_IsInitialized :: "LookupNodeResponse \<Rightarrow> bool" where
  "LookupNodeResponse_IsInitialized m \<longleftrightarrow>
     lnp_hostname m \<noteq> None \<and>
     lnp_port m \<noteq> None \<and>
     lnp_hostnamehash m \<noteq> None"

declare LookupNodeResponse_default_def [message_defs] LookupNodeResponse_Clear_def [message_defs] LookupNodeResponse_MergeFrom_def [message_defs]
  LookupNodeResponse_CopyFrom_def [message_defs] LookupNodeResponse_IsInitialized_def [message_defs]
declare LookupNodeResponse_has_hostname_def [accessor_defs] LookupNodeResponse_hostname_def [accessor_defs] LookupNodeResponse_set_hostname_def [accessor_defs] LookupNodeResponse_has_port_def [accessor_defs] LookupNodeResponse_port_def [accessor_defs] LookupNodeResponse_set_port_def [accessor_defs] LookupNodeResponse_has_hostnamehash_def [accessor_defs] LookupNodeResponse_hostnamehash_def [accessor_defs] LookupNodeResponse_set_hostnamehash_def [accessor_defs]

lemma LookupNodeResponse_MergeFrom_default: "LookupNodeResponse_MergeFrom LookupNodeResponse_default m = m"
  by (cases m) (simp add: LookupNodeResponse_MergeFrom_def LookupNodeResponse_default_def)

lemma LookupNodeResponse_CopyFrom_copies: "LookupNodeResponse_CopyFrom to m = m"
proof -
  have "LookupNodeResponse_Clear to = LookupNodeResponse_default" by (cases to) (simp add: LookupNodeResponse_Clear_def LookupNodeResponse_default_def)
  then show ?thesis by (simp add: LookupNodeResponse_CopyFrom_def LookupNodeResponse_MergeFrom_default)
qed

section \<open>NodeRequest\<close>

record NodeRequest =
  nrq_type :: "int option"
  nrq_addfile :: "AddFileRequest option"
  nrq_lookup :: "LookupFileRequest option"
  nrq_deletefile :: "DeleteFileRequest option"
  nrq_download :: "DownloadRequest option"
  nrq_join :: "JoinRequest option"
  nrq_updateroute :: "RouteUpdateRequest option"
  nrq_deleteroute :: "RouteDeleteRequest option"
  nrq_helpjoin :: "HelpJoinRequset option"
  nrq_unknown :: "unknown_field list"

definition NodeRequest_default :: NodeRequest where
  "NodeRequest_default = \<lparr>nrq_type = None, nrq_addfile = None, nrq_lookup = None, nrq_deletefile = None, nrq_download = None, nrq_join = None, nrq_updateroute = None, nrq_deleteroute = None, nrq_helpjoin = None, nrq_unknown = []\<rparr>"

definition NodeRequest_has_type :: "NodeRequest \<Rightarrow> bool" where
  "NodeRequest_has_type m \<longleftrightarrow> nrq_type m \<noteq> None"

definition NodeRequest_type :: "NodeRequest \<Rightarrow> int" where
  "NodeRequest_type m = field_or 0 (nrq_type m)"

definition NodeRequest_set_type :: "int \<Rightarrow> NodeRequest \<Rightarrow> NodeRequest" where
  "NodeRequest_set_type v m = m\<lparr>nrq_type := Some v\<rparr>"

definition NodeRequest_has_addfile :: "NodeRequest \<Rightarrow> bool" where
  "NodeRequest_has_addfile m \<longleftrightarrow> nrq_addfile m \<noteq> None"

definition NodeRequest_addfile :: "NodeRequest \<Rightarrow> AddFileRequest" where
  "NodeRequest_addfile m = field_or AddFileRequest_default (nrq_addfile m)"

definition NodeRequest_set_allocated_addfile :: "AddFileRequest \<Rightarrow> NodeRequest \<Rightarrow> NodeRequest" where
  "NodeRequest_set_allocated_addfile v m = m\<lparr>nrq_addfile := Some v\<rparr>"

definition NodeRequest_has_lookup :: "NodeRequest \<Rightarrow> bool" where
  "NodeRequest_has_lookup m \<longleftrightarrow> nrq_lookup m \<noteq> None"

definition NodeRequest_lookup :: "NodeRequest \<Rightarrow> LookupFileRequest" where
  "NodeRequest_lookup m = field_or LookupFileRequest_default (nrq_lookup m)"

definition NodeRequest_set_allocated_lookup :: "LookupFileRequest \<Rightarrow> NodeRequest \<Rightarrow> NodeRequest" where
  "NodeRequest_set_allocated_lookup v m = m\<lparr>nrq_lookup := Some v\<rparr>"

definition NodeRequest_has_deletefile :: "NodeRequest \<Rightarrow> bool" where
  "NodeRequest_has_deletefile m \<longleftrightarrow> nrq_deletefile m \<noteq> None"

definition NodeRequest_deletefile :: "NodeRequest \<Rightarrow> DeleteFileRequest" where
  "NodeRequest_deletefile m = field_or DeleteFileRequest_default (nrq_deletefile m)"

definition NodeRequest_set_allocated_deletefile :: "DeleteFileRequest \<Rightarrow> NodeRequest \<Rightarrow> NodeRequest" where
  "NodeRequest_set_allocated_deletefile v m = m\<lparr>nrq_deletefile := Some v\<rparr>"

definition NodeRequest_has_download :: "NodeRequest \<Rightarrow> bool" where
  "NodeRequest_has_download m \<longleftrightarrow> nrq_download m \<noteq> None"

definition NodeRequest_download :: "NodeRequest \<Rightarrow> DownloadRequest" where
  "NodeRequest_download m = field_or DownloadRequest_default (nrq_download m)"

definition NodeRequest_set_allocated_download :: "DownloadRequest \<Rightarrow> NodeRequest \<Rightarrow> NodeRequest" where
  "NodeRequest_set_allocated_download v m = m\<lparr>nrq_download := Some v\<rparr>"

definition NodeRequest_has_join :: "NodeRequest \<Rightarrow> bool" where
  "NodeRequest_has_join m \<longleftrightarrow> nrq_join m \<noteq> None"

definition NodeRequest_join :: "NodeRequest \<Rightarrow> JoinRequest" where
  "NodeRequest_join m = field_or JoinRequest_default (nrq_join m)"

definition NodeRequest_set_allocated_join :: "JoinRequest \<Rightarrow> NodeRequest \<Rightarrow> NodeRequest" where
  "NodeRequest_set_allocated_join v m = m\<lparr>nrq_join := Some v\<rparr>"

definition NodeRequest_has_updateroute :: "NodeRequest \<Rightarrow> bool" where
  "NodeRequest_has_updateroute m \<longleftrightarrow> nrq_updateroute m \<noteq> None"

definition NodeRequest_updateroute :: "NodeRequest \<Rightarrow> RouteUpdateRequest" where
  "NodeRequest_updateroute m = field_or RouteUpdateRequest_default (nrq_updateroute m)"

definition NodeRequest_set_allocated_updateroute :: "RouteUpdateRequest \<Rightarrow> NodeRequest \<Rightarrow> NodeRequest" where
  "NodeRequest_set_allocated_updateroute v m = m\<lparr>nrq_updateroute := Some v\<rparr>"

definition NodeRequest_has_deleteroute :: "NodeRequest \<Rightarrow> bool" where
  "NodeRequest_has_deleteroute m \<longleftrightarrow> nrq_deleteroute m \<noteq> None"

definition NodeRequest_deleteroute :: "NodeRequest \<Rightarrow> RouteDeleteRequest" where
  "NodeRequest_deleteroute m = field_or RouteDeleteRequest_default (nrq_deleteroute m)"

definition NodeRequest_set_allocated_deleteroute :: "RouteDeleteRequest \<Rightarrow> NodeRequest \<Rightarrow> NodeRequest" where
  "NodeRequest_set_allocated_deleteroute v m = m\<lparr>nrq_deleteroute := Some v\<rparr>"

definition NodeRequest_has_helpjoin :: "NodeRequest \<Rightarrow> bool" where
  "NodeRequest_has_helpjoin m \<longleftrightarrow> nrq_helpjoin m \<noteq> None"

definition NodeRequest_helpjoin :: "NodeRequest \<Rightarrow> HelpJoinRequset" where
  "NodeRequest_helpjoin m = field_or HelpJoinRequset_default (nrq_helpjoin m)"

definition NodeRequest_set_allocated_helpjoin :: "HelpJoinRequset \<Rightarrow> NodeRequest \<Rightarrow> NodeRequest" where
  "NodeRequest_set_allocated_helpjoin v m = m\<lparr>nrq_helpjoin := Some v\<rparr>"

definition NodeRequest_Clear :: "NodeRequest \<Rightarrow> NodeRequest" where
  "NodeRequest_Clear m = m\<lparr>nrq_type := None, nrq_addfile := None, nrq_lookup := None, nrq_deletefile := None, nrq_download := None, nrq_join := None, nrq_updateroute := None, nrq_deleteroute := None, nrq_helpjoin := None, nrq_unknown := []\<rparr>"

definition NodeRequest_MergeFrom :: "NodeRequest \<Rightarrow> NodeRequest \<Rightarrow> NodeRequest" where
  "NodeRequest_MergeFrom to frm = to\<lparr>
     nrq_type := field_merge (nrq_type to) (nrq_type frm),
     nrq_addfile := sub_merge AddFileRequest_MergeFrom AddFileRequest_default (nrq_addfile to) (nrq_addfile frm),
     nrq_lookup := sub_merge LookupFileRequest_MergeFrom LookupFileRequest_default (nrq_lookup to) (nrq_lookup frm),
     nrq_deletefile := sub_merge DeleteFileRequest_MergeFrom DeleteFileRequest_default (nrq_deletefile to) (nrq_deletefile frm),
     nrq_download := sub_merge DownloadRequest_MergeFrom DownloadRequest_default (nrq_download to) (nrq_download frm),
     nrq_join := sub_merge JoinRequest_MergeFrom JoinRequest_default (nrq_join to) (nrq_join frm),
     nrq_updateroute := sub_merge RouteUpdateRequest_MergeFrom RouteUpdateRequest_default (nrq_updateroute to) (nrq_updateroute frm),
     nrq_deleteroute := sub_merge RouteDeleteRequest_MergeFrom RouteDeleteRequest_default (nrq_deleteroute to) (nrq_deleteroute frm),
     nrq_helpjoin := sub_merge HelpJoinRequset_MergeFrom HelpJoinRequset_default (nrq_helpjoin to) (nrq_helpjoin frm),
     nrq_unknown := nrq_unknown to @ nrq_unknown frm\<rparr>"


definition NodeRequest_CopyFrom :: "NodeRequest \<Rightarrow> NodeRequest \<Rightarrow> NodeRequest" where
  "NodeRequest_CopyFrom to frm = NodeRequest_MergeFrom (NodeRequest_Clear to) frm"

definition NodeRequest_IsInitialized :: "NodeRequest \<Rightarrow> bool" where
  "NodeRequest_IsInitialized m \<longleftrightarrow>
     nrq_type m \<noteq> None \<and>
     sub_init AddFileRequest_IsInitialized (nrq_addfile m) \<and>
     sub_init LookupFileRequest_IsInitialized (nrq_lookup m) \<and>
     sub_init DeleteFileRequest_IsInitialized (nrq_deletefile m) \<and>
     sub_init DownloadRequest_IsInitialized (nrq_download m) \<and>
     sub_init JoinRequest_IsInitialized (nrq_join m) \<and>
     sub_init RouteUpdateRequest_IsInitialized (nrq_updateroute m) \<and>
     sub_init RouteDeleteRequest_IsInitialized (nrq_deleteroute m) \<and>
     sub_init HelpJoinRequset_IsInitialized (nrq_helpjoin m)"

declare NodeRequest_default_def [message_defs] NodeRequest_Clear_def [message_defs] NodeRequest_MergeFrom_def [message_defs]
  NodeRequest_CopyFrom_def [message_defs] NodeRequest_IsInitialized_def [message_defs]
declare NodeRequest_has_type_def [accessor_defs] NodeRequest_type_def [accessor_defs] NodeRequest_set_type_def [accessor_defs] NodeRequest_has_addfile_def [accessor_defs] NodeRequest_addfile_def [accessor_defs] NodeRequest_set_allocated_addfile_def [accessor_defs] NodeRequest_has_lookup_def [accessor_defs] NodeRequest_lookup_def [accessor_defs] NodeRequest_set_allocated_lookup_def [accessor_defs] NodeRequest_has_deletefile_def [accessor_defs] NodeRequest_deletefile_def [accessor_defs] NodeRequest_set_allocated_deletefile_def [accessor_defs] NodeRequest_has_download_def [accessor_defs] NodeRequest_download_def [accessor_defs] NodeRequest_set_allocated_download_def [accessor_defs] NodeRequest_has_join_def [accessor_defs] NodeRequest_join_def [accessor_defs] NodeRequest_set_allocated_join_def [accessor_defs] NodeRequest_has_updateroute_def [accessor_defs] NodeRequest_updateroute_def [accessor_defs] NodeRequest_set_allocated_updateroute_def [accessor_defs] NodeRequest_has_deleteroute_def [accessor_defs] NodeRequest_deleteroute_def [accessor_defs] NodeRequest_set_allocated_deleteroute_def [accessor_defs] NodeRequest_has_helpjoin_def [accessor_defs] NodeRequest_helpjoin_def [accessor_defs] NodeRequest_set_allocated_helpjoin_def [accessor_defs]

lemma NodeRequest_MergeFrom_default: "NodeRequest_MergeFrom NodeRequest_default m = m"
  by (cases m) (simp add: NodeRequest_MergeFrom_def NodeRequest_default_def sub_merge_fresh AddFileRequest_MergeFrom_default LookupFileRequest_MergeFrom_default DeleteFileRequest_MergeFrom_default DownloadRequest_MergeFrom_default JoinRequest_MergeFrom_default RouteUpdateRequest_MergeFrom_default RouteDeleteRequest_MergeFrom_default HelpJoinRequset_MergeFrom_default)

lemma NodeRequest_CopyFrom_copies: "NodeRequest_CopyFrom to m = m"
proof -
  have "NodeRequest_Clear to = NodeRequest_default" by (cases to) (simp add: NodeRequest_Clear_def NodeRequest_default_def)
  then show ?thesis by (simp add: NodeRequest_CopyFrom_def NodeRequest_MergeFrom_default)
qed

section \<open>NodeResponse\<close>

record NodeResponse =
  nrp_type :: "int option"
  nrp_lookup :: "LookupFileResponse option"
  nrp_fileinforsp :: "FileInfoResponse option"
  nrp_routeinit :: "RouteTableInit option"
  nrp_filetable :: "FileTable option"
  nrp_helpjoin :: "HelpJoinResponse option"
  nrp_updateroute :: "RouteUpdateResponse option"
  nrp_lookupnode :: "LookupNodeResponse option"
  nrp_unknown :: "unknown_field list"

definition NodeResponse_default :: NodeResponse where
  "NodeResponse_default = \<lparr>nrp_type = None, nrp_lookup = None, nrp_fileinforsp = None, nrp_routeinit = None, nrp_filetable = None, nrp_helpjoin = None, nrp_updateroute = None, nrp_lookupnode = None, nrp_unknown = []\<rparr>"

definition NodeResponse_has_type :: "NodeResponse \<Rightarrow> bool" where
  "NodeResponse_has_type m \<longleftrightarrow> nrp_type m \<noteq> None"

definition NodeResponse_type :: "NodeResponse \<Rightarrow> int" where
  "NodeResponse_type m = field_or 0 (nrp_type m)"

definition NodeResponse_set_type :: "int \<Rightarrow> NodeResponse \<Rightarrow> NodeResponse" where
  "NodeResponse_set_type v m = m\<lparr>nrp_type := Some v\<rparr>"

definition NodeResponse_has_lookup :: "NodeResponse \<Rightarrow> bool" where
  "NodeResponse_has_lookup m \<longleftrightarrow> nrp_lookup m \<noteq> None"

definition NodeResponse_lookup :: "NodeResponse \<Rightarrow> LookupFileResponse" where
  "NodeResponse_lookup m = field_or LookupFileResponse_default (nrp_lookup m)"

definition NodeResponse_set_allocated_lookup :: "LookupFileResponse \<Rightarrow> NodeResponse \<Rightarrow> NodeResponse" where
  "NodeResponse_set_allocated_lookup v m = m\<lparr>nrp_lookup := Some v\<rparr>"

definition NodeResponse_has_fileinforsp :: "NodeResponse \<Rightarrow> bool" where
  "NodeResponse_has_fileinforsp m \<longleftrightarrow> nrp_fileinforsp m \<noteq> None"

definition NodeResponse_fileinforsp :: "NodeResponse \<Rightarrow> FileInfoResponse" where
  "NodeResponse_fileinforsp m = field_or FileInfoResponse_default (nrp_fileinforsp m)"

definition NodeResponse_set_allocated_fileinforsp :: "FileInfoResponse \<Rightarrow> NodeResponse \<Rightarrow> NodeResponse" where
  "NodeResponse_set_allocated_fileinforsp v m = m\<lparr>nrp_fileinforsp := Some v\<rparr>"

definition NodeResponse_has_routeinit :: "NodeResponse \<Rightarrow> bool" where
  "NodeResponse_has_routeinit m \<longleftrightarrow> nrp_routeinit m \<noteq> None"

definition NodeResponse_routeinit :: "NodeResponse \<Rightarrow> RouteTableInit" where
  "NodeResponse_routeinit m = field_or RouteTableInit_default (nrp_routeinit m)"

definition NodeResponse_set_allocated_routeinit :: "RouteTableInit \<Rightarrow> NodeResponse \<Rightarrow> NodeResponse" where
  "NodeResponse_set_allocated_routeinit v m = m\<lparr>nrp_routeinit := Some v\<rparr>"

definition NodeResponse_has_filetable :: "NodeResponse \<Rightarrow> bool" where
  "NodeResponse_has_filetable m \<longleftrightarrow> nrp_filetable m \<noteq> None"

definition NodeResponse_filetable :: "NodeResponse \<Rightarrow> FileTable" where
  "NodeResponse_filetable m = field_or FileTable_default (nrp_filetable m)"

definition NodeResponse_set_allocated_filetable :: "FileTable \<Rightarrow> NodeResponse \<Rightarrow> NodeResponse" where
  "NodeResponse_set_allocated_filetable v m = m\<lparr>nrp_filetable := Some v\<rparr>"

definition NodeResponse_has_helpjoin :: "NodeResponse \<Rightarrow> bool" where
  "NodeResponse_has_helpjoin m \<longleftrightarrow> nrp_helpjoin m \<noteq> None"

definition NodeResponse_helpjoin :: "NodeResponse \<Rightarrow> HelpJoinResponse" where
  "NodeResponse_helpjoin m = field_or HelpJoinResponse_default (nrp_helpjoin m)"

definition NodeResponse_set_allocated_helpjoin :: "HelpJoinResponse \<Rightarrow> NodeResponse \<Rightarrow> NodeResponse" where
  "NodeResponse_set_allocated_helpjoin v m = m\<lparr>nrp_helpjoin := Some v\<rparr>"

definition NodeResponse_has_updateroute :: "NodeResponse \<Rightarrow> bool" where
  "NodeResponse_has_updateroute m \<longleftrightarrow> nrp_updateroute m \<noteq> None"

definition NodeResponse_updateroute :: "NodeResponse \<Rightarrow> RouteUpdateResponse" where
  "NodeResponse_updateroute m = field_or RouteUpdateResponse_default (nrp_updateroute m)"

definition NodeResponse_set_allocated_updateroute :: "RouteUpdateResponse \<Rightarrow> NodeResponse \<Rightarrow> NodeResponse" where
  "NodeResponse_set_allocated_updateroute v m = m\<lparr>nrp_updateroute := Some v\<rparr>"

definition NodeResponse_has_lookupnode :: "NodeResponse \<Rightarrow> bool" where
  "NodeResponse_has_lookupnode m \<longleftrightarrow> nrp_lookupnode m \<noteq> None"

definition NodeResponse_lookupnode :: "NodeResponse \<Rightarrow> LookupNodeResponse" where
  "NodeResponse_lookupnode m = field_or LookupNodeResponse_default (nrp_lookupnode m)"

definition NodeResponse_set_allocated_lookupnode :: "LookupNodeResponse \<Rightarrow> NodeResponse \<Rightarrow> NodeResponse" where
  "NodeResponse_set_allocated_lookupnode v m = m\<lparr>nrp_lookupnode := Some v\<rparr>"

definition NodeResponse_Clear :: "NodeResponse \<Rightarrow> NodeResponse" where
  "NodeResponse_Clear m = m\<lparr>nrp_type := None, nrp_lookup := None, nrp_fileinforsp := None, nrp_routeinit := None, nrp_filetable := None, nrp_helpjoin := None, nrp_updateroute := None, nrp_lookupnode := None, nrp_unknown := []\<rparr>"

definition NodeResponse_MergeFrom :: "NodeResponse \<Rightarrow> NodeResponse \<Rightarrow> NodeResponse" where
  "NodeResponse_MergeFrom to frm = to\<lparr>
     nrp_type := field_merge (nrp_type to) (nrp_type frm),
     nrp_lookup := sub_merge LookupFileResponse_MergeFrom LookupFileResponse_default (nrp_lookup to) (nrp_lookup frm),
     nrp_fileinforsp := sub_merge FileInfoResponse_MergeFrom FileInfoResponse_default (nrp_fileinforsp to) (nrp_fileinforsp frm),
     nrp_routeinit := sub_merge RouteTableInit_MergeFrom RouteTableInit_default (nrp_routeinit to) (nrp_routeinit frm),
     nrp_filetable := sub_merge FileTable_MergeFrom FileTable_default (nrp_filetable to) (nrp_filetable frm),
     nrp_helpjoin := sub_merge HelpJoinResponse_MergeFrom HelpJoinResponse_default (nrp_helpjoin to) (nrp_helpjoin frm),
     nrp_updateroute := sub_merge RouteUpdateResponse_MergeFrom RouteUpdateResponse_default (nrp_updateroute to) (nrp_updateroute frm),
     nrp_lookupnode := sub_merge LookupNodeResponse_MergeFrom LookupNodeResponse_default (nrp_lookupnode to) (nrp_lookupnode frm),
     nrp_unknown := nrp_unknown to @ nrp_unknown frm\<rparr>"


definition NodeResponse_CopyFrom :: "NodeResponse \<Rightarrow> NodeResponse \<Rightarrow> NodeResponse" where
  "NodeResponse_CopyFrom to frm = NodeResponse_MergeFrom (NodeResponse_Clear to) frm"

definition NodeResponse_IsInitialized :: "NodeResponse \<Rightarrow> bool" where
  "NodeResponse_IsInitialized m \<longleftrightarrow>
     nrp_type m \<noteq> None \<and>
     sub_init LookupFileResponse_IsInitialized (nrp_lookup m) \<and>
     sub_init FileInfoResponse_IsInitialized (nrp_fileinforsp m) \<and>
     sub_init RouteTableInit_IsInitialized (nrp_routeinit m) \<and>
     sub_init FileTable_IsInitialized (nrp_filetable m) \<and>
     sub_init HelpJoinResponse_IsInitialized (nrp_helpjoin m) \<and>
     sub_init RouteUpdateResponse_IsInitialized (nrp_updateroute m) \<and>
     sub_init LookupNodeResponse_IsInitialized (nrp_lookupnode m)"

declare NodeResponse_default_def [message_defs] NodeResponse_Clear_def [message_defs] NodeResponse_MergeFrom_def [message_defs]
  NodeResponse_CopyFrom_def [message_defs] NodeResponse_IsInitialized_def [message_defs]
declare NodeResponse_has_type_def [accessor_defs] NodeResponse_type_def [accessor_defs] NodeResponse_set_type_def [accessor_defs] NodeResponse_has_lookup_def [accessor_defs] NodeResponse_lookup_def [accessor_defs] NodeResponse_set_allocated_lookup_def [accessor_defs] NodeResponse_has_fileinforsp_def [accessor_defs] NodeResponse_fileinforsp_def [accessor_defs] NodeResponse_set_allocated_fileinforsp_def [accessor_defs] NodeResponse_has_routeinit_def [accessor_defs] NodeResponse_routeinit_def [accessor_defs] NodeResponse_set_allocated_routeinit_def [accessor_defs] NodeResponse_has_filetable_def [accessor_defs] NodeResponse_filetable_def [accessor_defs] NodeResponse_set_allocated_filetable_def [accessor_defs] NodeResponse_has_helpjoin_def [accessor_defs] NodeResponse_helpjoin_def [accessor_defs] NodeResponse_set_allocated_helpjoin_def [accessor_defs] NodeResponse_has_updateroute_def [accessor_defs] NodeResponse_updateroute_def [accessor_defs] NodeResponse_set_allocated_updateroute_def [accessor_defs] NodeResponse_has_lookupnode_def [accessor_defs] NodeResponse_lookupnode_def [accessor_defs] NodeResponse_set_allocated_lookupnode_def [accessor_defs]

lemma NodeResponse_MergeFrom_default: "NodeResponse_MergeFrom NodeResponse_default m = m"
  by (cases m) (simp add: NodeResponse_MergeFrom_def NodeResponse_default_def sub_merge_fresh LookupFileResponse_MergeFrom_default FileInfoResponse_MergeFrom_default RouteTableInit_MergeFrom_default FileTable_MergeFrom_default HelpJoinResponse_MergeFrom_default RouteUpdateResponse_MergeFrom_default LookupNodeResponse_MergeFrom_default)

lemma NodeResponse_CopyFrom_copies: "NodeResponse_CopyFrom to m = m"
proof -
  have "NodeResponse_Clear to = NodeResponse_default" by (cases to) (simp add: NodeResponse_Clear_def NodeResponse_default_def)
  then show ?thesis by (simp add: NodeResponse_CopyFrom_def NodeResponse_MergeFrom_default)
qed

end
