(* ===== verification/Proto_Messages.thy ===== *)
theory Proto_Messages
  imports Messages
begin

text \<open>
  \<open>src/src/util/proto_messages.cpp\<close>: the functions that build the requests and responses nodes
  send. Each fills the fields of one sub-message and wraps it with its type number. The lemmas
  give what the receiver reads back with the accessors, and that every message built is
  complete, so that the receiver's parser does not reject it.
\<close>

section \<open>Requests\<close>

text \<open>The overload that forwards a request it was handed: the sub-message is copied.\<close>

definition generate_lookup_request_copy :: "LookupFileRequest \<Rightarrow> NodeRequest" where
  "generate_lookup_request_copy req =
     (let req_copy = LookupFileRequest_CopyFrom LookupFileRequest_default req
      in NodeRequest_set_allocated_lookup req_copy (NodeRequest_set_type 3 NodeRequest_default))"

definition generate_lookup_request :: "int \<Rightarrow> string \<Rightarrow> string \<Rightarrow> NodeRequest" where
  "generate_lookup_request h hostname port =
     (let req = LookupFileRequest_set_sourceport port (LookupFileRequest_set_sourcehostname hostname (LookupFileRequest_set_filenamehash h LookupFileRequest_default))
      in NodeRequest_set_allocated_lookup req (NodeRequest_set_type 3 NodeRequest_default))"

definition generate_download_request :: "int \<Rightarrow> string \<Rightarrow> string \<Rightarrow> NodeRequest" where
  "generate_download_request h hostname port =
     (let req = DownloadRequest_set_sourceport port (DownloadRequest_set_sourcehostname hostname (DownloadRequest_set_filenamehash h DownloadRequest_default))
      in NodeRequest_set_allocated_download req (NodeRequest_set_type 5 NodeRequest_default))"

definition generate_add_file_request :: "int \<Rightarrow> string \<Rightarrow> string \<Rightarrow> NodeRequest" where
  "generate_add_file_request h hostname port =
     (let req = AddFileRequest_set_sourceport port (AddFileRequest_set_sourcehostname hostname (AddFileRequest_set_filenamehash h AddFileRequest_default))
      in NodeRequest_set_allocated_addfile req (NodeRequest_set_type 2 NodeRequest_default))"

definition generate_delete_file_request :: "int \<Rightarrow> string \<Rightarrow> string \<Rightarrow> NodeRequest" where
  "generate_delete_file_request h hostname port =
     (let req = DeleteFileRequest_set_sourceport port (DeleteFileRequest_set_sourcehostname hostname (DeleteFileRequest_set_filenamehash h DeleteFileRequest_default))
      in NodeRequest_set_allocated_deletefile req (NodeRequest_set_type 4 NodeRequest_default))"

definition generate_join_request :: "int \<Rightarrow> string \<Rightarrow> string \<Rightarrow> NodeRequest" where
  "generate_join_request h hostname port =
     (let req = JoinRequest_set_newport port (JoinRequest_set_newhostname hostname (JoinRequest_set_newhostnamehash h JoinRequest_default))
      in NodeRequest_set_allocated_join req (NodeRequest_set_type 6 NodeRequest_default))"

definition generate_help_join_request :: "int \<Rightarrow> string \<Rightarrow> string \<Rightarrow> NodeRequest" where
  "generate_help_join_request h hostname port =
     (let req = HelpJoinRequset_set_newhostnamehash h (HelpJoinRequset_set_newport port (HelpJoinRequset_set_newhostname hostname HelpJoinRequset_default))
      in NodeRequest_set_allocated_helpjoin req (NodeRequest_set_type 9 NodeRequest_default))"

definition generate_route_update_request :: "int \<Rightarrow> string \<Rightarrow> string \<Rightarrow> NodeRequest" where
  "generate_route_update_request h hostname port =
     (let req = RouteUpdateRequest_set_newhostnamehash h (RouteUpdateRequest_set_newport port (RouteUpdateRequest_set_newhostname hostname RouteUpdateRequest_default))
      in NodeRequest_set_allocated_updateroute req (NodeRequest_set_type 7 NodeRequest_default))"

section \<open>Responses\<close>

definition generate_lookup_response ::
    "bool \<Rightarrow> string \<Rightarrow> string \<Rightarrow> string \<Rightarrow> string \<Rightarrow> NodeResponse" where
  "generate_lookup_response if_exist successor_host_name successor_port owner_host_name owner_port =
     (let lrsp = LookupFileResponse_set_ownerport owner_port
                  (LookupFileResponse_set_ownerhostname owner_host_name
                    (LookupFileResponse_set_successorport successor_port
                      (LookupFileResponse_set_successorhostname successor_host_name
                        (LookupFileResponse_set_ifexists if_exist LookupFileResponse_default))))
      in NodeResponse_set_type 2 (NodeResponse_set_allocated_lookup lrsp NodeResponse_default))"

definition generate_help_join_response :: "int \<Rightarrow> string \<Rightarrow> string \<Rightarrow> NodeResponse" where
  "generate_help_join_response h hostname port =
     (let resp = HelpJoinResponse_set_responhostnamehash h
                  (HelpJoinResponse_set_responsibleport port
                    (HelpJoinResponse_set_responsiblehostname hostname HelpJoinResponse_default))
      in NodeResponse_set_allocated_helpjoin resp (NodeResponse_set_type 6 NodeResponse_default))"

definition generate_routetable_init :: "RouteTableInit \<Rightarrow> NodeResponse" where
  "generate_routetable_init finger_table =
     NodeResponse_set_allocated_routeinit finger_table (NodeResponse_set_type 4 NodeResponse_default)"

definition generate_route_update_response :: "int \<Rightarrow> int \<Rightarrow> string \<Rightarrow> string \<Rightarrow> NodeResponse" where
  "generate_route_update_response cur_hash next_hash hostname port =
     (let resp = RouteUpdateResponse_set_curupdatehostnamehash cur_hash
                  (RouteUpdateResponse_set_nextupdateport port
                    (RouteUpdateResponse_set_nextupdatehostname hostname
                      (RouteUpdateResponse_set_nextupdatehostnamehash next_hash RouteUpdateResponse_default)))
      in NodeResponse_set_allocated_updateroute resp (NodeResponse_set_type 7 NodeResponse_default))"

definition generate_filetable_response :: "FileTable \<Rightarrow> NodeResponse" where
  "generate_filetable_response file_table =
     NodeResponse_set_allocated_filetable file_table (NodeResponse_set_type 5 NodeResponse_default)"

definition generate_lookup_node_response :: "int \<Rightarrow> string \<Rightarrow> string \<Rightarrow> NodeResponse" where
  "generate_lookup_node_response h hostname port =
     (let resp = LookupNodeResponse_set_port port
                  (LookupNodeResponse_set_hostnamehash h
                    (LookupNodeResponse_set_hostname hostname LookupNodeResponse_default))
      in NodeResponse_set_allocated_lookupnode resp (NodeResponse_set_type 8 NodeResponse_default))"

lemmas generator_defs =
  generate_lookup_request_copy_def LookupFileRequest_CopyFrom_copies
  generate_lookup_request_def
  generate_download_request_def
  generate_add_file_request_def
  generate_delete_file_request_def
  generate_join_request_def
  generate_help_join_request_def
  generate_route_update_request_def
  generate_lookup_response_def generate_help_join_response_def generate_routetable_init_def
  generate_route_update_response_def generate_filetable_response_def
  generate_lookup_node_response_def

section \<open>What the receiver reads\<close>

named_theorems received \<open>accessors applied to generated messages\<close>

lemma received_lookup_copy [received]:
  "NodeRequest_type (generate_lookup_request_copy req) = 3"
  "NodeRequest_lookup (generate_lookup_request_copy req) = req"
  by (simp_all add: generator_defs accessor_defs message_defs)

lemma received_lookup [received]:
  "NodeRequest_type (generate_lookup_request h hostname port) = 3"
  "LookupFileRequest_filenamehash (NodeRequest_lookup (generate_lookup_request h hostname port)) = h"
  "LookupFileRequest_sourcehostname (NodeRequest_lookup (generate_lookup_request h hostname port)) = hostname"
  "LookupFileRequest_sourceport (NodeRequest_lookup (generate_lookup_request h hostname port)) = port"
  by (simp_all add: generator_defs accessor_defs message_defs)

lemma received_download [received]:
  "NodeRequest_type (generate_download_request h hostname port) = 5"
  "DownloadRequest_filenamehash (NodeRequest_download (generate_download_request h hostname port)) = h"
  "DownloadRequest_sourcehostname (NodeRequest_download (generate_download_request h hostname port)) = hostname"
  "DownloadRequest_sourceport (NodeRequest_download (generate_download_request h hostname port)) = port"
  by (simp_all add: generator_defs accessor_defs message_defs)

lemma received_addfile [received]:
  "NodeRequest_type (generate_add_file_request h hostname port) = 2"
  "AddFileRequest_filenamehash (NodeRequest_addfile (generate_add_file_request h hostname port)) = h"
  "AddFileRequest_sourcehostname (NodeRequest_addfile (generate_add_file_request h hostname port)) = hostname"
  "AddFileRequest_sourceport (NodeRequest_addfile (generate_add_file_request h hostname port)) = port"
  by (simp_all add: generator_defs accessor_defs message_defs)

lemma received_deletefile [received]:
  "NodeRequest_type (generate_delete_file_request h hostname port) = 4"
  "DeleteFileRequest_filenamehash (NodeRequest_deletefile (generate_delete_file_request h hostname port)) = h"
  "DeleteFileRequest_sourcehostname (NodeRequest_deletefile (generate_delete_file_request h hostname port)) = hostname"
  "DeleteFileRequest_sourceport (NodeRequest_deletefile (generate_delete_file_request h hostname port)) = port"
  by (simp_all add: generator_defs accessor_defs message_defs)

lemma received_join [received]:
  "NodeRequest_type (generate_join_request h hostname port) = 6"
  "JoinRequest_newhostnamehash (NodeRequest_join (generate_join_request h hostname port)) = h"
  "JoinRequest_newhostname (NodeRequest_join (generate_join_request h hostname port)) = hostname"
  "JoinRequest_newport (NodeRequest_join (generate_join_request h hostname port)) = port"
  by (simp_all add: generator_defs accessor_defs message_defs)

lemma received_helpjoin [received]:
  "NodeRequest_type (generate_help_join_request h hostname port) = 9"
  "HelpJoinRequset_newhostname (NodeRequest_helpjoin (generate_help_join_request h hostname port)) = hostname"
  "HelpJoinRequset_newport (NodeRequest_helpjoin (generate_help_join_request h hostname port)) = port"
  "HelpJoinRequset_newhostnamehash (NodeRequest_helpjoin (generate_help_join_request h hostname port)) = h"
  by (simp_all add: generator_defs accessor_defs message_defs)

lemma received_updateroute [received]:
  "NodeRequest_type (generate_route_update_request h hostname port) = 7"
  "RouteUpdateRequest_newhostname (NodeRequest_updateroute (generate_route_update_request h hostname port)) = hostname"
  "RouteUpdateRequest_newport (NodeRequest_updateroute (generate_route_update_request h hostname port)) = port"
  "RouteUpdateRequest_newhostnamehash (NodeRequest_updateroute (generate_route_update_request h hostname port)) = h"
  by (simp_all add: generator_defs accessor_defs message_defs)

lemma received_lookup_response [received]:
  "NodeResponse_type (generate_lookup_response ex sh sp oh op) = 2"
  "LookupFileResponse_ifexists (NodeResponse_lookup (generate_lookup_response ex sh sp oh op)) = ex"
  "LookupFileResponse_successorhostname (NodeResponse_lookup (generate_lookup_response ex sh sp oh op)) = sh"
  "LookupFileResponse_successorport (NodeResponse_lookup (generate_lookup_response ex sh sp oh op)) = sp"
  "LookupFileResponse_ownerhostname (NodeResponse_lookup (generate_lookup_response ex sh sp oh op)) = oh"
  "LookupFileResponse_ownerport (NodeResponse_lookup (generate_lookup_response ex sh sp oh op)) = op"
  by (simp_all add: generator_defs accessor_defs message_defs)

lemma received_route_update_response [received]:
  "NodeResponse_type (generate_route_update_response c n hostname port) = 7"
  "RouteUpdateResponse_curupdatehostnamehash (NodeResponse_updateroute (generate_route_update_response c n hostname port)) = c"
  "RouteUpdateResponse_nextupdatehostnamehash (NodeResponse_updateroute (generate_route_update_response c n hostname port)) = n"
  "RouteUpdateResponse_nextupdatehostname (NodeResponse_updateroute (generate_route_update_response c n hostname port)) = hostname"
  "RouteUpdateResponse_nextupdateport (NodeResponse_updateroute (generate_route_update_response c n hostname port)) = port"
  by (simp_all add: generator_defs accessor_defs message_defs)

section \<open>Generated messages are complete\<close>

lemma generated_requests_initialized:
  "LookupFileRequest_IsInitialized req \<Longrightarrow> NodeRequest_IsInitialized (generate_lookup_request_copy req)"
  "NodeRequest_IsInitialized (generate_lookup_request h hostname port)"
  "NodeRequest_IsInitialized (generate_download_request h hostname port)"
  "NodeRequest_IsInitialized (generate_add_file_request h hostname port)"
  "NodeRequest_IsInitialized (generate_delete_file_request h hostname port)"
  "NodeRequest_IsInitialized (generate_join_request h hostname port)"
  "NodeRequest_IsInitialized (generate_help_join_request h hostname port)"
  "NodeRequest_IsInitialized (generate_route_update_request h hostname port)"
  by (simp_all add: generator_defs accessor_defs message_defs)

lemma generated_responses_initialized:
  "NodeResponse_IsInitialized (generate_lookup_response ex sh sp oh op)"
  "NodeResponse_IsInitialized (generate_help_join_response h hostname port)"
  "RouteTableInit_IsInitialized rt \<Longrightarrow> NodeResponse_IsInitialized (generate_routetable_init rt)"
  "NodeResponse_IsInitialized (generate_route_update_response c n hostname port)"
  "FileTable_IsInitialized ft \<Longrightarrow> NodeResponse_IsInitialized (generate_filetable_response ft)"
  "NodeResponse_IsInitialized (generate_lookup_node_response h hostname port)"
  by (simp_all add: generator_defs accessor_defs message_defs)

text \<open>The generators that take a ready-made sub-message keep its completeness.\<close>

lemma generated_messages_initialized:
  "NodeRequest_IsInitialized (generate_lookup_request h hostname port) \<and>
   NodeRequest_IsInitialized (generate_lookup_request_copy req) = LookupFileRequest_IsInitialized req \<and>
   NodeRequest_IsInitialized (generate_download_request h hostname port) \<and>
   NodeRequest_IsInitialized (generate_add_file_request h hostname port) \<and>
   NodeRequest_IsInitialized (generate_delete_file_request h hostname port) \<and>
   NodeRequest_IsInitialized (generate_join_request h hostname port) \<and>
   NodeRequest_IsInitialized (generate_help_join_request h hostname port) \<and>
   NodeRequest_IsInitialized (generate_route_update_request h hostname port) \<and>
   NodeResponse_IsInitialized (generate_lookup_response ex sh sp oh op) \<and>
   NodeResponse_IsInitialized (generate_help_join_response h hostname port) \<and>
   NodeResponse_IsInitialized (generate_routetable_init rt) = RouteTableInit_IsInitialized rt \<and>
   NodeResponse_IsInitialized (generate_route_update_response c n hostname port) \<and>
   NodeResponse_IsInitialized (generate_filetable_response ft) = FileTable_IsInitialized ft \<and>
   NodeResponse_IsInitialized (generate_lookup_node_response h hostname port)"
  by (intro conjI) (simp_all add: generator_defs accessor_defs message_defs)

end
