(* ===== verification/Lookup.thy ===== *)
theory Lookup
  imports Node_State Proto_Messages
begin

text \<open>
  \<open>src/src/lookup.cpp\<close>: looking up the node responsible for a digest. A node that is not
  responsible forwards the request along its finger table; the node that is responsible answers
  the originator directly. \<open>lookup\<close> blocks between sending its request and receiving the answer;
  it is modelled in two halves around that point, and by \<open>lookup\<close>, which puts the halves
  together by running the handlers of the nodes the request passes through.
\<close>

text \<open>The running processes, by host name.\<close>

type_synonym world = "hostname \<rightharpoonup> node"

text \<open>What a handler sends as its last act: a request or a response, to a host and port.\<close>

datatype action =
    Send_request contactInfo NodeRequest
  | Send_response contactInfo NodeResponse

section \<open>The handler of lookup requests\<close>

text \<open>Whether the DHT of this node has the digest, and the host and port of the owner.\<close>

definition dht_owner :: "node \<Rightarrow> digest \<Rightarrow> bool \<times> contactInfo" where
  "dht_owner n h = (case um_find (DHT n) h of
       None \<Rightarrow> (False, (''0.0.0.0'', ''0''))
     | Some info \<Rightarrow> (True, info))"

lemma dht_owner_start [node_frame]: "dht_owner (n\<lparr>local_start := ls\<rparr>) h = dht_owner n h"
  by (simp add: dht_owner_def)

definition lookup_req_handle :: "node \<Rightarrow> LookupFileRequest \<Rightarrow> (action \<times> node) res" where
  "lookup_req_handle n req =
     (let filenamehash = LookupFileRequest_filenamehash req;
          (responsible, n) = is_responsible_to n filenamehash
      in if responsible then
           let host_name = LookupFileRequest_sourcehostname req;
               port = LookupFileRequest_sourceport req;
               (does_exist, owner_host_name, owner_port) = dht_owner n filenamehash
           in Inr (Send_response (host_name, port)
                (generate_lookup_response does_exist (my_hostname n) listening_port_num
                   owner_host_name owner_port), n)
         else
           bind_res (get_next_hop_info n filenamehash)
             (\<lambda>info. Inr (Send_request info (generate_lookup_request_copy req), n)))"

section \<open>The two halves of lookup\<close>

text \<open>
  The out-parameters \<open>does_exist\<close>, \<open>successor\<close> and \<open>owner\<close>. Every caller passes an uninitialised
  \<open>bool\<close> (\<open>None\<close>) and two empty contacts.
\<close>

type_synonym lookup_vars = "bool option \<times> contactInfo \<times> contactInfo"

definition unset_vars :: lookup_vars where
  "unset_vars = (None, ([], []), ([], []))"

definition lookup_begin ::
    "node \<Rightarrow> digest \<Rightarrow> string \<Rightarrow> ((lookup_vars + contactInfo \<times> NodeRequest) \<times> node) res" where
  "lookup_begin n h port =
     (let (responsible, n) = is_responsible_to n h
      in if responsible then
           let (does_exist, owner) = dht_owner n h
           in Inr (Inl (Some does_exist, (my_hostname n, listening_port_num), owner), n)
         else
           bind_res (get_next_hop_info n h)
             (\<lambda>info. Inr (Inr (info, generate_lookup_request h (my_hostname n) port), n)))"

text \<open>A response of another type is reported and dropped: the out-parameters stay as they were.\<close>

definition lookup_end :: "NodeResponse \<Rightarrow> lookup_vars" where
  "lookup_end rsp =
     (if NodeResponse_type rsp \<noteq> 2 then unset_vars
      else let lf_rsp = NodeResponse_lookup rsp
           in (Some (LookupFileResponse_ifexists lf_rsp),
               (LookupFileResponse_successorhostname lf_rsp, LookupFileResponse_successorport lf_rsp),
               (LookupFileResponse_ownerhostname lf_rsp, LookupFileResponse_ownerport lf_rsp)))"

section \<open>A lookup across the nodes\<close>

text \<open>
  One hop: the request reaches the listening port of a host and its handler runs. Connecting to
  a host that does not run the program, or to another port, fails, and the sender then
  dereferences the null stream. The round ends when a node answers.
\<close>

type_synonym route_state = "world \<times> contactInfo \<times> NodeRequest"
type_synonym route_result = "(contactInfo \<times> NodeResponse \<times> world) res"

fun route_step :: "route_state \<Rightarrow> route_state + route_result" where
  "route_step (w, (host, port), req) =
     (if port \<noteq> listening_port_num then Inr (Inl Null_deref)
      else case w host of
        None \<Rightarrow> Inr (Inl Null_deref)
      | Some n \<Rightarrow>
          (case lookup_req_handle n (NodeRequest_lookup req) of
             Inl e \<Rightarrow> Inr (Inl e)
           | Inr (Send_request info req', n') \<Rightarrow> Inl (w(host \<mapsto> n'), info, req')
           | Inr (Send_response to rsp, n') \<Rightarrow> Inr (Inr (to, rsp, w(host \<mapsto> n')))))"

definition route :: "nat \<Rightarrow> world \<Rightarrow> contactInfo \<Rightarrow> NodeRequest \<Rightarrow> route_result" where
  "route fuel w info req =
     (case run_rounds route_step fuel (w, info, req) of
        None \<Rightarrow> Inl Out_of_fuel
      | Some r \<Rightarrow> r)"

text \<open>
  \<open>Node::lookup\<close> on host \<open>me\<close>. The answer is received if it is addressed to this host and the
  port it waits on; otherwise the thread waits for ever.
\<close>

definition lookup :: "nat \<Rightarrow> world \<Rightarrow> hostname \<Rightarrow> digest \<Rightarrow> string \<Rightarrow> (lookup_vars \<times> world) res" where
  "lookup fuel w me h port =
     (case w me of
        None \<Rightarrow> Inl Null_deref
      | Some n \<Rightarrow>
          bind_res (lookup_begin n h port)
            (\<lambda>(r, n'). case r of
                Inl vars \<Rightarrow> Inr (vars, w(me \<mapsto> n'))
              | Inr (info, req) \<Rightarrow>
                  bind_res (route fuel (w(me \<mapsto> n')) info req)
                    (\<lambda>(to, rsp, w'). if to = (me, port) then Inr (lookup_end rsp, w') else Inl Blocked)))"

definition lookup_successor ::
    "nat \<Rightarrow> world \<Rightarrow> hostname \<Rightarrow> digest \<Rightarrow> string \<Rightarrow> ((bool \<times> contactInfo) \<times> world) res" where
  "lookup_successor fuel w me h port =
     bind_res (lookup fuel w me h port)
       (\<lambda>((does_exist, successor, owner), w').
          case does_exist of None \<Rightarrow> Inl Uninit_read | Some b \<Rightarrow> Inr ((b, successor), w'))"

end
