(* ===== verification/Routing.thy ===== *)
theory Routing
  imports Lookup
begin

text \<open>
  Correctness of routing. \<open>chord_ok\<close> says that the nodes of a world form a complete Chord circle:
  every finger is the successor of its start point, and every node starts right after its
  predecessor. In such a world a lookup from any node for any digest ends, after at most
  \<open>finger_table_length\<close> forwards, at the one node responsible for it.
\<close>

section \<open>A complete circle\<close>

definition ids :: "world \<Rightarrow> digest set" where
  "ids w = my_hash ` ran w"

definition finger_ok :: "sha \<Rightarrow> world \<Rightarrow> node \<Rightarrow> nat \<Rightarrow> bool" where
  "finger_ok sha1 w n i \<longleftrightarrow>
     (case fingerTable n ! i of ((host, port), digest) \<Rightarrow>
        port = listening_port_num \<and> host \<in> dom w \<and> digest = get_hash sha1 host \<and>
        succ_of (ids w) (ring_add (my_hash n) (2 ^ i)) digest)"

definition start_ok :: "world \<Rightarrow> node \<Rightarrow> bool" where
  "start_ok w n \<longleftrightarrow>
     node_range n \<and> (\<exists>p. pred_of (ids w) (my_hash n) p \<and> ring_add (local_start n) 0 = ring_add p 1)"

definition node_id_ok :: "sha \<Rightarrow> hostname \<Rightarrow> node \<Rightarrow> bool" where
  "node_id_ok sha1 host n \<longleftrightarrow>
     my_hostname n = host \<and> my_hash n = get_hash sha1 host \<and>
     length (fingerTable n) = finger_table_length \<and> um_wf (DHT n)"

definition chord_ok :: "sha \<Rightarrow> world \<Rightarrow> bool" where
  "chord_ok sha1 w \<longleftrightarrow>
     finite (dom w) \<and> dom w \<noteq> {} \<and> inj_on (get_hash sha1) (dom w) \<and>
     (\<forall>host n. w host = Some n \<longrightarrow> node_id_ok sha1 host n \<and> start_ok w n \<and>
        (\<forall>i < finger_table_length. finger_ok sha1 w n i))"

text \<open>The answer of a node to a lookup.\<close>

definition answer :: "node \<Rightarrow> digest \<Rightarrow> NodeResponse" where
  "answer n h = (case dht_owner n h of (ex, oh, op) \<Rightarrow>
     generate_lookup_response ex (my_hostname n) listening_port_num oh op)"

definition answer_vars :: "node \<Rightarrow> digest \<Rightarrow> lookup_vars" where
  "answer_vars n h = (case dht_owner n h of (ex, owner) \<Rightarrow>
     (Some ex, (my_hostname n, listening_port_num), owner))"

lemma lookup_end_answer: "lookup_end (answer n h) = answer_vars n h"
  by (simp add: lookup_end_def answer_def answer_vars_def received split: prod.splits)

text \<open>
  Worlds that differ only in how \<open>local_start\<close> is written down (a test of responsibility may
  move it one turn) are the same circle.
\<close>

definition canon_node :: "node \<Rightarrow> node" where
  "canon_node n = n\<lparr>local_start := ring_add (local_start n) 0\<rparr>"

definition canon :: "world \<Rightarrow> world" where
  "canon w = (\<lambda>host. map_option canon_node (w host))"

section \<open>Consequences\<close>

lemma chord_ok_nodeD:
  assumes "chord_ok sha1 w" and "w host = Some n"
  shows "node_id_ok sha1 host n \<and> start_ok w n \<and> (\<forall>i < finger_table_length. finger_ok sha1 w n i)"
  using assms by (simp add: chord_ok_def)

lemma chord_okD:
  assumes "chord_ok sha1 w" and "w host = Some n"
  shows "node_id_ok sha1 host n" "start_ok w n" "i < finger_table_length \<Longrightarrow> finger_ok sha1 w n i"
    "my_hostname n = host" "my_hash n = get_hash sha1 host" "node_range n" "in_ring (my_hash n)"
    "length (fingerTable n) = finger_table_length"
proof -
  note node = chord_ok_nodeD [OF assms]
  from node show "start_ok w n" by blast
  from node show "node_id_ok sha1 host n" "i < finger_table_length \<Longrightarrow> finger_ok sha1 w n i"
    by blast+
  from node show "my_hostname n = host" "my_hash n = get_hash sha1 host" "node_range n"
      "in_ring (my_hash n)" "length (fingerTable n) = finger_table_length"
    by (simp_all add: node_id_ok_def start_ok_def)
qed

lemma ids_hash: "\<forall>host n. w host = Some n \<longrightarrow> node_id_ok sha1 host n \<Longrightarrow> ids w = get_hash sha1 ` dom w"
  by (force simp: ids_def node_id_ok_def ran_def dom_def image_def)

lemma chord_ids: "chord_ok sha1 w \<Longrightarrow> ids w = get_hash sha1 ` dom w"
  by (rule ids_hash) (simp add: chord_ok_def)

lemma chord_ring_set: "chord_ok sha1 w \<Longrightarrow> ring_set (ids w)"
  by (auto simp: chord_ids ring_set_def) (auto simp: chord_ok_def)

lemma my_hash_ids: "w host = Some n \<Longrightarrow> my_hash n \<in> ids w"
  by (auto simp: ids_def ran_def)

lemma cdist_after_pred:
  assumes "in_ring p" "in_ring me"
  shows "cdist (ring_add p 1) me = get_distance p me - 1"
proof (cases "p = me")
  case True
  have "me = ring_add p 0" using True assms by (simp add: ring_add_def in_ring_def)
  have "cdist me (ring_add me 1) = 1" by (rule cdist_ring_add) auto
  moreover have "ring_add me 1 \<noteq> me" using calculation by auto
  ultimately have "cdist (ring_add me 1) me = 65535" using cdist_back [of me "ring_add me 1"] assms by auto
  with True assms show ?thesis by (simp add: ring_simps)
next
  case False
  then have "0 < cdist p me" using assms cdist_eq_0 [of p me] cdist_range [of p me] by linarith
  with False assms show ?thesis by (simp add: ring_add_pos ring_simps)
qed

lemma owns_succ:
  assumes N: "ring_set (ids w)" and s: "start_ok w n" and me: "my_hash n \<in> ids w" and h: "in_ring h"
  shows "owns n h \<longleftrightarrow> succ_of (ids w) h (my_hash n)"
proof -
  obtain p where p: "pred_of (ids w) (my_hash n) p" "ring_add (local_start n) 0 = ring_add p 1"
    using s by (auto simp: start_ok_def)
  have "in_ring p" "in_ring (my_hash n)" using N p me by (auto simp: pred_of_def dest: ring_setD)
  then show ?thesis
    using succ_of_iff_arc [OF N me p(1) h] by (simp add: owns_def p(2) cdist_after_pred)
qed

lemma chord_owns:
  "chord_ok sha1 w \<Longrightarrow> w host = Some n \<Longrightarrow> in_ring h \<Longrightarrow> owns n h \<longleftrightarrow> succ_of (ids w) h (my_hash n)"
  by (intro owns_succ chord_ring_set my_hash_ids chord_okD(2))

text \<open>Normalising \<open>local_start\<close> of one node keeps the circle.\<close>

lemma ids_upd: "w host = Some n \<Longrightarrow> my_hash n' = my_hash n \<Longrightarrow> ids (w(host \<mapsto> n')) = ids w"
proof -
  have "ids v = ran (\<lambda>host. map_option my_hash (v host))" for v
    by (force simp: ids_def ran_def)
  moreover assume "w host = Some n" and "my_hash n' = my_hash n"
  then have "(\<lambda>h. map_option my_hash ((w(host \<mapsto> n')) h)) = (\<lambda>h. map_option my_hash (w h))"
    by (simp add: fun_eq_iff)
  ultimately show ?thesis by metis
qed

lemma chord_ok_upd:
  assumes ok: "chord_ok sha1 w" and n: "w host = Some n"
    and same: "my_hostname n' = my_hostname n" "my_hash n' = my_hash n" "fingerTable n' = fingerTable n"
    and start: "ring_add (local_start n') 0 = ring_add (local_start n) 0" "node_range n'"
    and wf: "um_wf (DHT n')"
  shows "chord_ok sha1 (w(host \<mapsto> n'))" (is "chord_ok sha1 ?w") and "ids (w(host \<mapsto> n')) = ids w"
proof -
  show ids: "ids ?w = ids w" using n same(2) by (rule ids_upd)
  have dom: "dom ?w = dom w" using n by auto
  have same_preds: "finger_ok sha1 ?w m i = finger_ok sha1 w m i" "start_ok ?w m = start_ok w m" for m i
    unfolding finger_ok_def start_ok_def ids dom by (rule refl)+
  have upd: "start_ok w n'" "finger_ok sha1 w n' i = finger_ok sha1 w n i" "node_id_ok sha1 host n'" for i
    using same start wf chord_okD [OF ok n] by (auto simp: start_ok_def finger_ok_def node_id_ok_def)
  show "chord_ok sha1 ?w"
    unfolding chord_ok_def same_preds dom
    using ok upd chord_okD(3) [OF ok n] by (auto simp: chord_ok_def split: if_splits)
qed

lemma chord_ok_restart:
  assumes ok: "chord_ok sha1 w" and n: "w host = Some n"
    and ls: "ring_add ls 0 = ring_add (local_start n) 0" "node_range (n\<lparr>local_start := ls\<rparr>)"
  shows "chord_ok sha1 (w(host \<mapsto> n\<lparr>local_start := ls\<rparr>))"
    and "canon (w(host \<mapsto> n\<lparr>local_start := ls\<rparr>)) = canon w"
proof -
  show "chord_ok sha1 (w(host \<mapsto> n\<lparr>local_start := ls\<rparr>))"
    using ls chord_okD(1) [OF ok n] by (intro chord_ok_upd [OF ok n]) (simp_all add: node_id_ok_def)
  show "canon (w(host \<mapsto> n\<lparr>local_start := ls\<rparr>)) = canon w"
    using n ls by (auto simp: canon_def canon_node_def fun_eq_iff)
qed

section \<open>One hop\<close>

text \<open>The measure of a request at a node: 0 if the node is responsible, else one more than the
  index of the finger it is forwarded along.\<close>

definition hop_measure :: "node \<Rightarrow> digest \<Rightarrow> nat" where
  "hop_measure n h = (if owns n h then 0 else Suc (ilog2 (nat (cdist (my_hash n) h))))"

lemma hop_measure_bound:
  assumes "in_ring (my_hash n)" "in_ring h"
  shows "hop_measure n h \<le> finger_table_length"
proof (cases "owns n h")
  case False
  then have "h \<noteq> my_hash n" by (auto simp: owns_def cdist_range)
  then have "0 < cdist (my_hash n) h"
    using assms cdist_eq_0 [of "my_hash n" h] cdist_range [of "my_hash n" h] by auto
  then have "ilog2 (nat (cdist (my_hash n) h)) < 16"
    using cdist_range [of "my_hash n" h] by (intro ilog2_less) auto
  then show ?thesis by (simp add: hop_measure_def config_simps)
qed (simp add: hop_measure_def)

lemma next_hop_decreases:
  assumes ok: "chord_ok sha1 w" and n: "w host = Some n" and h: "in_ring h" and no: "\<not> owns n h"
  obtains host' n' where "get_next_hop_info n h = Inr (host', listening_port_num)"
    and "w host' = Some n'" and "hop_measure n' h < hop_measure n h"
proof -
  let ?d = "cdist (my_hash n) h" let ?i = "ilog2 (nat ?d)"
  note node = chord_okD [OF ok n]
  have ne: "h \<noteq> my_hash n" using no by (auto simp: owns_def cdist_range)
  have pos: "0 < ?d" using ne node(7) h cdist_eq_0 [of "my_hash n" h] cdist_range [of "my_hash n" h] by linarith
  have i: "?i < finger_table_length" using get_next_hop_info_finger(2) [OF node(7) h ne node(8)] .
  obtain host' digest where f: "fingerTable n ! ?i = ((host', listening_port_num), digest)"
    and host': "host' \<in> dom w" and digest: "digest = get_hash sha1 host'"
    and s: "succ_of (ids w) (ring_add (my_hash n) (2 ^ ?i)) digest"
    using node(3) [OF i] by (auto simp: finger_ok_def split: prod.splits)
  then obtain n' where n': "w host' = Some n'" by auto
  have digest_n': "digest = my_hash n'" using digest chord_okD(5) [OF ok n'] by simp
  have "succ_of (ids w) h digest \<or> 0 < cdist digest h \<and> cdist digest h < 2 ^ ?i"
    using chord_ring_set [OF ok] node(7) h pos ilog2_int_bounds [OF pos] s
    by (intro finger_progress [where p = "my_hash n"]) auto
  then have "hop_measure n' h < hop_measure n h"
  proof
    assume "succ_of (ids w) h digest"
    then show ?thesis using chord_owns [OF ok n' h] no by (simp add: hop_measure_def digest_n')
  next
    assume lt: "0 < cdist digest h \<and> cdist digest h < 2 ^ ?i"
    then have "ilog2 (nat (cdist digest h)) < ?i" by (intro ilog2_less) auto
    then show ?thesis using no by (simp add: hop_measure_def digest_n')
  qed
  then show thesis
    using that get_next_hop_info_finger(1) [OF node(7) h ne node(8)] f n' by simp
qed

section \<open>Routing terminates at the responsible node\<close>

definition route_inv :: "sha \<Rightarrow> route_state \<Rightarrow> bool" where
  "route_inv sha1 = (\<lambda>(w, (host, port), req).
     chord_ok sha1 w \<and> port = listening_port_num \<and> host \<in> dom w \<and>
     in_ring (LookupFileRequest_filenamehash (NodeRequest_lookup req)))"

definition route_size :: "route_state \<Rightarrow> nat" where
  "route_size = (\<lambda>(w, (host, port), req).
     hop_measure (the (w host)) (LookupFileRequest_filenamehash (NodeRequest_lookup req)))"

definition route_post :: "sha \<Rightarrow> route_state \<Rightarrow> route_result \<Rightarrow> bool" where
  "route_post sha1 = (\<lambda>(w, info, req) r.
     let lfr = NodeRequest_lookup req; h = LookupFileRequest_filenamehash lfr
     in \<exists>s m w'. w s = Some m \<and> succ_of (ids w) h (my_hash m) \<and>
          r = Inr ((LookupFileRequest_sourcehostname lfr, LookupFileRequest_sourceport lfr), answer m h, w') \<and>
          chord_ok sha1 w' \<and> canon w' = canon w)"

text \<open>\<open>lookup_req_handle\<close> in a complete circle, on both branches.\<close>

lemma lookup_req_handle_cases:
  assumes ok: "chord_ok sha1 w" and n: "w host = Some n"
    and h: "in_ring (LookupFileRequest_filenamehash req)" (is "in_ring ?h")
  obtains (answers) n' where "owns n ?h"
      and "lookup_req_handle n req = Inr (Send_response
             (LookupFileRequest_sourcehostname req, LookupFileRequest_sourceport req) (answer n ?h), n')"
      and "chord_ok sha1 (w(host \<mapsto> n'))" and "canon (w(host \<mapsto> n')) = canon w"
  | (forwards) n' host' m where "\<not> owns n ?h"
      and "lookup_req_handle n req =
             Inr (Send_request (host', listening_port_num) (generate_lookup_request_copy req), n')"
      and "chord_ok sha1 (w(host \<mapsto> n'))" and "canon (w(host \<mapsto> n')) = canon w"
      and "w host' = Some m" and "hop_measure m ?h < hop_measure n ?h"
proof -
  note node = chord_okD [OF ok n]
  obtain ls where dec: "is_responsible_to n ?h = (owns n ?h, n\<lparr>local_start := ls\<rparr>)"
    and ls: "ring_add ls 0 = ring_add (local_start n) 0" "node_range (n\<lparr>local_start := ls\<rparr>)"
    using node(6) h by (rule is_responsible_to_cases)
  let ?n = "n\<lparr>local_start := ls\<rparr>"
  note upd = chord_ok_restart [OF ok n ls]
  note own = dht_owner_start get_next_hop_info_start
  show thesis
  proof (cases "owns n ?h")
    case True
    with dec own show thesis
      by (intro answers [OF True _ upd]) (simp add: lookup_req_handle_def answer_def split: prod.splits)
  next
    case False
    obtain host' m where hop: "get_next_hop_info n ?h = Inr (host', listening_port_num)"
      "w host' = Some m" "hop_measure m ?h < hop_measure n ?h"
      using next_hop_decreases [OF ok n h False] by metis
    with dec own False show thesis
      by (intro forwards [OF False _ upd]) (simp_all add: lookup_req_handle_def)
  qed
qed

lemma canon_lookup: "canon w' = canon w \<Longrightarrow> w host = Some n \<Longrightarrow> \<exists>n'. w' host = Some n' \<and> canon_node n' = canon_node n"
  by (auto simp: canon_def fun_eq_iff dest!: spec [of _ host] split: option.splits)

lemma canon_node_fields:
  assumes "canon_node n' = canon_node n"
  shows "my_hash n' = my_hash n" "DHT n' = DHT n" "my_hostname n' = my_hostname n"
    "fingerTable n' = fingerTable n" "localFiles n' = localFiles n" "answer n' = answer n"
    "answer_vars n' = answer_vars n" "owns n' = owns n" "hop_measure n' = hop_measure n"
    "ring_add (local_start n') 0 = ring_add (local_start n) 0"
proof -
  from assms show f: "my_hash n' = my_hash n" "DHT n' = DHT n" "my_hostname n' = my_hostname n"
    "fingerTable n' = fingerTable n" "localFiles n' = localFiles n"
    "ring_add (local_start n') 0 = ring_add (local_start n) 0"
    by (cases n, cases n', simp add: canon_node_def)+
  then show "answer n' = answer n" "answer_vars n' = answer_vars n" "owns n' = owns n" "hop_measure n' = hop_measure n"
    by (simp_all add: fun_eq_iff answer_def answer_vars_def dht_owner_def owns_def hop_measure_def)
qed

lemma canon_sym_lookup: "canon w' = canon w \<Longrightarrow> w' host = Some n' \<Longrightarrow> \<exists>n. w host = Some n \<and> canon_node n' = canon_node n"
  using canon_lookup [of w w' host n'] by metis

lemma canon_ids: "canon w' = canon w \<Longrightarrow> ids w' = ids w"
proof -
  have le: "ids v \<subseteq> ids v'" if eq: "canon v = canon v'" for v v'
  proof
    fix x
    assume "x \<in> ids v"
    then obtain host n where n: "v host = Some n" "x = my_hash n" by (auto simp: ids_def ran_def)
    then obtain n' where "v' host = Some n'" "canon_node n = canon_node n'"
      using canon_sym_lookup [OF eq n(1)] by blast
    then show "x \<in> ids v'" using canon_node_fields(1) n my_hash_ids by metis
  qed
  then show "canon w' = canon w \<Longrightarrow> ids w' = ids w" by (simp add: subset_antisym)
qed

lemma canon_dom: "canon w' = canon w \<Longrightarrow> dom w' = dom w"
  using canon_lookup canon_sym_lookup by (fastforce simp: dom_def)

interpretation routing: bounded_loop route_step "route_inv sha1" "route_post sha1" route_size
  for sha1
proof unfold_locales
  fix s s'
  assume inv: "route_inv sha1 s" and step: "route_step s = Inl s'"
  obtain w host req n where s: "s = (w, (host, listening_port_num), req)" and ok: "chord_ok sha1 w"
    and n: "w host = Some n" and h: "in_ring (LookupFileRequest_filenamehash (NodeRequest_lookup req))"
    using inv by (cases s) (auto simp: route_inv_def)
  let ?lfr = "NodeRequest_lookup req"
  obtain n' host' m where s': "s' = (w(host \<mapsto> n'), (host', listening_port_num), generate_lookup_request_copy ?lfr)"
    and ok': "chord_ok sha1 (w(host \<mapsto> n'))" and canon: "canon (w(host \<mapsto> n')) = canon w"
    and m: "w host' = Some m"
    and less: "hop_measure m (LookupFileRequest_filenamehash ?lfr) < hop_measure n (LookupFileRequest_filenamehash ?lfr)"
    using step s n by (cases rule: lookup_req_handle_cases [OF ok n h]) auto
  obtain m' where m': "(w(host \<mapsto> n')) host' = Some m'" "canon_node m' = canon_node m"
    using canon_lookup [OF canon m] by blast
  show "route_inv sha1 s'"
    using ok' m' h by (auto simp: route_inv_def s' received)
  show "route_size s' < route_size s"
    using less m' canon_node_fields(9) [OF m'(2)] n by (simp add: route_size_def s s' received)
  fix r
  assume "route_post sha1 s' r"
  then obtain t p w' where t: "(w(host \<mapsto> n')) t = Some p"
    "succ_of (ids (w(host \<mapsto> n'))) (LookupFileRequest_filenamehash ?lfr) (my_hash p)"
    "r = Inr ((LookupFileRequest_sourcehostname ?lfr, LookupFileRequest_sourceport ?lfr),
          answer p (LookupFileRequest_filenamehash ?lfr), w')"
    "chord_ok sha1 w'" "canon w' = canon (w(host \<mapsto> n'))"
    by (auto simp: route_post_def s' received Let_def)
  obtain p' where p': "w t = Some p'" "canon_node p = canon_node p'"
    using canon_sym_lookup [OF canon t(1)] by blast
  show "route_post sha1 s r"
    unfolding route_post_def s Let_def
    using t p' canon canon_ids [OF canon] canon_node_fields [OF p'(2)] by auto
next
  fix s r
  assume inv: "route_inv sha1 s" and step: "route_step s = Inr r"
  obtain w host req n where s: "s = (w, (host, listening_port_num), req)" and ok: "chord_ok sha1 w"
    and n: "w host = Some n" and h: "in_ring (LookupFileRequest_filenamehash (NodeRequest_lookup req))"
    using inv by (cases s) (auto simp: route_inv_def)
  show "route_post sha1 s r"
  proof (cases rule: lookup_req_handle_cases [OF ok n h])
    case (1 n')
    then show ?thesis
      using step s n chord_owns [OF ok n h] unfolding route_post_def Let_def by auto
  next
    case 2
    with step s n show ?thesis by auto
  qed
qed

text \<open>The number of hops never exceeds the length of the finger table.\<close>

lemma route_reaches_successor:
  assumes ok: "chord_ok sha1 w" and host: "host \<in> dom w"
    and h: "in_ring (LookupFileRequest_filenamehash (NodeRequest_lookup req))"
    and fuel: "finger_table_length < fuel"
  obtains s m w' where "w s = Some m"
    and "succ_of (ids w) (LookupFileRequest_filenamehash (NodeRequest_lookup req)) (my_hash m)"
    and "route fuel w (host, listening_port_num) req =
       Inr ((LookupFileRequest_sourcehostname (NodeRequest_lookup req),
             LookupFileRequest_sourceport (NodeRequest_lookup req)),
            answer m (LookupFileRequest_filenamehash (NodeRequest_lookup req)), w')"
    and "chord_ok sha1 w'" and "canon w' = canon w"
proof -
  let ?s = "(w, (host, listening_port_num), req)"
  obtain n where n: "w host = Some n" using host by auto
  have inv: "route_inv sha1 ?s" using assms by (simp add: route_inv_def)
  have "route_size ?s \<le> finger_table_length"
    using hop_measure_bound [OF chord_okD(7) [OF ok n] h] n by (simp add: route_size_def)
  then have "route_size ?s < fuel" using fuel by simp
  then obtain r where "run_rounds route_step fuel ?s = Some r" "route_post sha1 ?s r"
    using routing.terminates [OF inv] by blast
  then show thesis using that by (auto simp: route_def route_post_def Let_def)
qed

section \<open>Lookup\<close>

lemma lookup_begin_cases:
  assumes ok: "chord_ok sha1 w" and n: "w me = Some n" and h: "in_ring h"
  obtains (local) n' where "owns n h" and "lookup_begin n h port = Inr (Inl (answer_vars n h), n')"
      and "chord_ok sha1 (w(me \<mapsto> n'))" and "canon (w(me \<mapsto> n')) = canon w"
  | (remote) n' host where "\<not> owns n h"
      and "lookup_begin n h port =
        Inr (Inr ((host, listening_port_num), generate_lookup_request h me port), n')"
      and "chord_ok sha1 (w(me \<mapsto> n'))" and "canon (w(me \<mapsto> n')) = canon w" and "host \<in> dom w"
proof -
  note node = chord_okD [OF ok n]
  obtain ls where dec: "is_responsible_to n h = (owns n h, n\<lparr>local_start := ls\<rparr>)"
    and ls: "ring_add ls 0 = ring_add (local_start n) 0" "node_range (n\<lparr>local_start := ls\<rparr>)"
    using node(6) h by (rule is_responsible_to_cases)
  note upd = chord_ok_restart [OF ok n ls]
  note own = dht_owner_start get_next_hop_info_start
  show thesis
  proof (cases "owns n h")
    case True
    with dec own show thesis
      by (intro local [OF True _ upd]) (simp add: lookup_begin_def answer_vars_def split: prod.splits)
  next
    case False
    obtain host' m where hop: "get_next_hop_info n h = Inr (host', listening_port_num)" "w host' = Some m"
      using next_hop_decreases [OF ok n h False] by metis
    with dec own False node show thesis
      by (intro remote [OF False _ upd]) (auto simp: lookup_begin_def)
  qed
qed

lemma lookup_reaches:
  assumes ok: "chord_ok sha1 w" and n: "w me = Some n" and h: "in_ring h"
    and fuel: "finger_table_length < fuel"
  shows "\<exists>s m w'. w s = Some m \<and> succ_of (ids w) h (my_hash m) \<and>
    lookup fuel w me h port = Inr (answer_vars m h, w') \<and> chord_ok sha1 w' \<and> canon w' = canon w"
  using ok n h
proof (cases rule: lookup_begin_cases [where port = port])
  case (local n')
  then show ?thesis
    using n chord_owns [OF ok n h] unfolding lookup_def by auto
next
  case (remote n' host)
  let ?w = "w(me \<mapsto> n')" let ?req = "generate_lookup_request h me port"
  have dom: "host \<in> dom ?w" using remote by auto
  have h': "in_ring (LookupFileRequest_filenamehash (NodeRequest_lookup ?req))" using h by (simp add: received)
  obtain s m w' where r: "?w s = Some m" "succ_of (ids ?w) h (my_hash m)"
    "route fuel ?w (host, listening_port_num) ?req = Inr ((me, port), answer m h, w')"
    "chord_ok sha1 w'" "canon w' = canon ?w"
    using route_reaches_successor [OF remote(3) dom h' fuel] by (metis received_lookup(2-4))
  obtain m' where m': "w s = Some m'" "canon_node m = canon_node m'"
    using canon_sym_lookup [OF remote(4) r(1)] by blast
  have "lookup fuel w me h port = Inr (answer_vars m' h, w')"
    using n remote(2) r(3) canon_node_fields [OF m'(2)] by (simp add: lookup_def lookup_end_answer)
  then show ?thesis
    using r m' remote(4) canon_ids [OF remote(4)] canon_node_fields [OF m'(2)] by auto
qed

end
