(* ===== verification/Files.thy ===== *)
theory Files
  imports Lookup
begin

text \<open>
  Publishing and withdrawing files (\<open>src/src/node.cpp\<close>): the user's \<open>add_file\<close> and \<open>delete_file\<close>,
  which look the responsible node up and send it a request, and the two handlers that change
  the DHT of that node. The file system is a parameter: \<open>opens path\<close> says whether an
  \<open>ifstream\<close> on the path is good.
\<close>

type_synonym disk = "string \<Rightarrow> bool"

definition file_exist :: "disk \<Rightarrow> string \<Rightarrow> bool" where
  "file_exist opens filename = opens (''./shared_file/'' @ filename)"

section \<open>Handlers on the responsible node\<close>

text \<open>
  The handler checks the file name its own table of local files has for the digest, not a file
  of the sender; reading the table with the index operator adds an empty name when there is
  none. A failed check ends the process.
\<close>

definition add_file_req_handle :: "disk \<Rightarrow> node \<Rightarrow> AddFileRequest \<Rightarrow> node res" where
  "add_file_req_handle opens n request =
     (let hash_filename = AddFileRequest_filenamehash request;
          src_hostname = AddFileRequest_sourcehostname request;
          src_port = AddFileRequest_sourceport request;
          (name, lf) = um_index [] hash_filename (localFiles n);
          n = n\<lparr>localFiles := lf\<rparr>
      in if \<not> file_exist opens name then Inl Exit_failure
         else if um_count (DHT n) hash_filename \<noteq> 0 then Inr n
         else Inr (n\<lparr>DHT := um_put hash_filename (src_hostname, src_port) (DHT n)\<rparr>))"

definition del_file_req_handle :: "node \<Rightarrow> DeleteFileRequest \<Rightarrow> node res" where
  "del_file_req_handle n request =
     (let hash_filename = DeleteFileRequest_filenamehash request
      in if um_count (DHT n) hash_filename = 0 then Inl Exit_failure
         else Inr (n\<lparr>DHT := um_erase hash_filename (DHT n)\<rparr>))"

section \<open>Operations of the user\<close>

text \<open>
  Both return what they send last, if anything, and the world after it. In \<open>add_file\<close> a missing
  file is reported on the terminal and nothing happens. \<open>delete_file\<close> ends the process when the
  lookup finds nothing, and does nothing when the owner is another host.
\<close>

definition add_file ::
    "sha \<Rightarrow> disk \<Rightarrow> nat \<Rightarrow> world \<Rightarrow> hostname \<Rightarrow> string \<Rightarrow> string \<Rightarrow> (action option \<times> world) res" where
  "add_file sha1 opens fuel w me filename port =
     (if \<not> file_exist opens filename then Inr (None, w)
      else
        let hash_filename = get_hash sha1 filename
        in bind_res (lookup_successor fuel w me hash_filename user_interface_port_num)
             (\<lambda>((_, successor), w1).
                case w1 me of
                  None \<Rightarrow> Inl Null_deref
                | Some n \<Rightarrow>
                    let n = n\<lparr>localFiles := um_put hash_filename filename (localFiles n)\<rparr>
                    in Inr (Some (Send_request successor
                              (generate_add_file_request hash_filename (my_hostname n) port)),
                            w1(me \<mapsto> n))))"

definition delete_file ::
    "sha \<Rightarrow> nat \<Rightarrow> world \<Rightarrow> hostname \<Rightarrow> string \<Rightarrow> string \<Rightarrow> (action option \<times> world) res" where
  "delete_file sha1 fuel w me filename port =
     (let hash_filename = get_hash sha1 filename
      in bind_res (lookup fuel w me hash_filename user_interface_port_num)
           (\<lambda>((does_exist, successor, owner), w1).
              case does_exist of
                None \<Rightarrow> Inl Uninit_read
              | Some False \<Rightarrow> Inl Exit_failure
              | Some True \<Rightarrow>
                  (case w1 me of
                     None \<Rightarrow> Inl Null_deref
                   | Some n \<Rightarrow>
                       if fst owner = my_hostname n then
                         let n = n\<lparr>localFiles := um_erase hash_filename (localFiles n)\<rparr>
                         in Inr (Some (Send_request successor
                                   (generate_delete_file_request hash_filename (my_hostname n) port)),
                                 w1(me \<mapsto> n))
                       else Inr (None, w1))))"

section \<open>Delivery of the requests\<close>

text \<open>
  The request reaches the listening port of its host, whose server runs the handler of its
  type (2 and 4 in \<open>run_server\<close>). \<open>disks\<close> gives the file system of each host.
\<close>

definition deliver_file_request :: "(hostname \<Rightarrow> disk) \<Rightarrow> world \<Rightarrow> action \<Rightarrow> world res" where
  "deliver_file_request disks w act =
     (case act of
        Send_response _ _ \<Rightarrow> Inl Blocked
      | Send_request (host, port) req \<Rightarrow>
          if port \<noteq> listening_port_num then Inl Null_deref
          else case w host of
            None \<Rightarrow> Inl Null_deref
          | Some n \<Rightarrow>
              if NodeRequest_type req = 2 then
                bind_res (add_file_req_handle (disks host) n (NodeRequest_addfile req))
                  (\<lambda>n'. Inr (w(host \<mapsto> n')))
              else if NodeRequest_type req = 4 then
                bind_res (del_file_req_handle n (NodeRequest_deletefile req))
                  (\<lambda>n'. Inr (w(host \<mapsto> n')))
              else Inr w)"

text \<open>Menu entries 1 and 2 of the terminal: the operation, then its request delivered.\<close>

definition share_file ::
    "sha \<Rightarrow> (hostname \<Rightarrow> disk) \<Rightarrow> nat \<Rightarrow> world \<Rightarrow> hostname \<Rightarrow> string \<Rightarrow> world res" where
  "share_file sha1 disks fuel w me filename =
     bind_res (add_file sha1 (disks me) fuel w me filename listening_port_num)
       (\<lambda>(act, w'). case act of None \<Rightarrow> Inr w' | Some a \<Rightarrow> deliver_file_request disks w' a)"

definition unshare_file ::
    "sha \<Rightarrow> (hostname \<Rightarrow> disk) \<Rightarrow> nat \<Rightarrow> world \<Rightarrow> hostname \<Rightarrow> string \<Rightarrow> world res" where
  "unshare_file sha1 disks fuel w me filename =
     bind_res (delete_file sha1 fuel w me filename listening_port_num)
       (\<lambda>(act, w'). case act of None \<Rightarrow> Inr w' | Some a \<Rightarrow> deliver_file_request disks w' a)"

section \<open>The handlers, branch by branch\<close>

lemma add_file_req_handle_new:
  assumes "um_index [] (AddFileRequest_filenamehash r) (localFiles n) = (name, lf)"
    and "file_exist opens name" and "um_find (DHT n) (AddFileRequest_filenamehash r) = None"
  shows "add_file_req_handle opens n r = Inr (n\<lparr>localFiles := lf,
     DHT := um_put (AddFileRequest_filenamehash r)
              (AddFileRequest_sourcehostname r, AddFileRequest_sourceport r) (DHT n)\<rparr>)"
  using assms by (auto simp: add_file_req_handle_def um_count_find Let_def)

lemma add_file_req_handle_known:
  assumes "um_index [] (AddFileRequest_filenamehash r) (localFiles n) = (name, lf)"
    and "file_exist opens name" and "um_find (DHT n) (AddFileRequest_filenamehash r) \<noteq> None"
  shows "add_file_req_handle opens n r = Inr (n\<lparr>localFiles := lf\<rparr>)"
  using assms by (auto simp: add_file_req_handle_def um_count_find Let_def)

lemma del_file_req_handle_known:
  "um_find (DHT n) (DeleteFileRequest_filenamehash r) \<noteq> None \<Longrightarrow>
   del_file_req_handle n r = Inr (n\<lparr>DHT := um_erase (DeleteFileRequest_filenamehash r) (DHT n)\<rparr>)"
  by (auto simp: del_file_req_handle_def um_count_find Let_def)

lemma del_file_req_handle_unknown:
  "um_find (DHT n) (DeleteFileRequest_filenamehash r) = None \<Longrightarrow> del_file_req_handle n r = Inl Exit_failure"
  by (auto simp: del_file_req_handle_def um_count_find Let_def)

end
