(* ===== verification/Storage.thy ===== *)
theory Storage
  imports Routing Files
begin

text \<open>
  The nodes together implement one table from file digests to owners. \<open>stored w h r\<close> reads that
  table: it is what the DHT of the node responsible for \<open>h\<close> holds. In a complete circle the
  table is total and single-valued, a lookup from anywhere returns its entry, publishing a
  file adds one entry (the first publisher wins) and withdrawing it removes the entry again.
\<close>

definition stored :: "world \<Rightarrow> digest \<Rightarrow> contactInfo option \<Rightarrow> bool" where
  "stored w h r \<longleftrightarrow> (\<exists>s m. w s = Some m \<and> succ_of (ids w) h (my_hash m) \<and> um_find (DHT m) h = r)"

lemma chord_succ_unique:
  assumes ok: "chord_ok sha1 w" and h: "in_ring h"
    and "w s = Some m" "succ_of (ids w) h (my_hash m)"
    and "w s' = Some m'" "succ_of (ids w) h (my_hash m')"
  shows "s = s'" and "m = m'"
proof -
  have "my_hash m = my_hash m'" using assms succ_of_unique [OF chord_ring_set [OF ok] h] by blast
  then have "get_hash sha1 s = get_hash sha1 s'" using assms chord_okD(5) [OF ok] by metis
  moreover have "inj_on (get_hash sha1) (dom w)" using ok by (simp add: chord_ok_def)
  ultimately show "s = s'" using assms by (auto dest: inj_onD)
  with assms show "m = m'" by simp
qed

lemma chord_succ_exists:
  assumes ok: "chord_ok sha1 w"
  obtains s m where "w s = Some m" and "succ_of (ids w) h (my_hash m)"
proof -
  obtain x where "succ_of (ids w) h x" using succ_of_exists [OF chord_ring_set [OF ok]] by blast
  then show thesis using that by (auto simp: ids_def ran_def dest: succ_ofD)
qed

lemma stored_total: "chord_ok sha1 w \<Longrightarrow> \<exists>r. stored w h r"
  by (rule chord_succ_exists [of sha1 w h]) (auto simp: stored_def)

lemma stored_unique: "chord_ok sha1 w \<Longrightarrow> in_ring h \<Longrightarrow> stored w h r \<Longrightarrow> stored w h r' \<Longrightarrow> r = r'"
  using chord_succ_unique(2) by (fastforce simp: stored_def)

lemma stored_at:
  assumes "chord_ok sha1 w" and "in_ring h" and "w s = Some m" and "succ_of (ids w) h (my_hash m)"
  shows "stored w h r \<longleftrightarrow> um_find (DHT m) h = r"
proof
  assume "stored w h r"
  then obtain s' m' where m': "w s' = Some m'" "succ_of (ids w) h (my_hash m')" "um_find (DHT m') h = r"
    by (auto simp: stored_def)
  then show "um_find (DHT m) h = r" using chord_succ_unique(2) [OF assms m'(1,2)] by simp
qed (use assms in \<open>auto simp: stored_def\<close>)

lemma stored_canon: "canon w' = canon w \<Longrightarrow> stored w' h r \<longleftrightarrow> stored w h r"
proof -
  have imp: "stored v' h r" if eq: "canon v' = canon v" and st: "stored v h r" for v v'
  proof -
    obtain s m where m: "v s = Some m" "succ_of (ids v) h (my_hash m)" "um_find (DHT m) h = r"
      using st by (auto simp: stored_def)
    obtain m' where m': "v' s = Some m'" "canon_node m' = canon_node m"
      using canon_lookup [OF eq m(1)] by blast
    then show ?thesis
      unfolding stored_def canon_ids [OF eq]
      using m canon_node_fields(1,2) [OF m'(2)] by (intro exI [of _ s] exI [of _ m']) simp
  qed
  assume "canon w' = canon w"
  then show ?thesis using imp [of w' w] imp [of w w'] by metis
qed

lemma stored_same_entry:
  assumes "w s = Some m" and "my_hash m' = my_hash m" and "um_find (DHT m') k = um_find (DHT m) k"
  shows "stored (w(s \<mapsto> m')) k r \<longleftrightarrow> stored w k r"
proof -
  let ?f = "map_option (\<lambda>m. (my_hash m, um_find (DHT m) k))"
  have alt: "stored v k r \<longleftrightarrow> (\<exists>t x. ?f (v t) = Some (x, r) \<and> succ_of (ids v) k x)" for v
    by (auto simp: stored_def)
  have ids: "ids (w(s \<mapsto> m')) = ids w" using assms(1,2) by (rule ids_upd)
  have "?f ((w(s \<mapsto> m')) t) = ?f (w t)" for t using assms by simp
  then show ?thesis unfolding alt ids by simp
qed

text \<open>How the table changes when the DHT of the responsible node changes.\<close>

lemma stored_update:
  assumes ok: "chord_ok sha1 w" and h: "in_ring h"
    and s: "w s = Some m" "succ_of (ids w) h (my_hash m)"
    and hash: "my_hash m' = my_hash m"
    and other: "\<And>k. k \<noteq> h \<Longrightarrow> um_find (DHT m') k = um_find (DHT m) k"
    and k: "in_ring k"
  shows "stored (w(s \<mapsto> m')) k r \<longleftrightarrow> (if k = h then r = um_find (DHT m') h else stored w k r)"
proof -
  have ids: "ids (w(s \<mapsto> m')) = ids w" using s(1) hash by (rule ids_upd)
  show ?thesis
  proof (cases "k = h")
    case True
    have "stored (w(s \<mapsto> m')) h r \<longleftrightarrow> um_find (DHT m') h = r"
    proof
      assume "stored (w(s \<mapsto> m')) h r"
      then obtain t p where t: "(w(s \<mapsto> m')) t = Some p" "succ_of (ids w) h (my_hash p)" "um_find (DHT p) h = r"
        by (auto simp: stored_def ids)
      then have "t = s" using chord_succ_unique(1) [OF ok h s, of t] by (cases "t = s") auto
      with t show "um_find (DHT m') h = r" by simp
    next
      assume "um_find (DHT m') h = r"
      then show "stored (w(s \<mapsto> m')) h r"
        using s hash unfolding stored_def ids by (intro exI [of _ s] exI [of _ m']) simp
    qed
    with True show ?thesis by auto
  next
    case False
    with stored_same_entry [of w s m m' k r, OF s(1) hash other] show ?thesis by simp
  qed
qed

section \<open>Lookup reads the table\<close>

definition vars_of :: "hostname \<Rightarrow> contactInfo option \<Rightarrow> lookup_vars" where
  "vars_of s r = (Some (r \<noteq> None), (s, listening_port_num),
     (case r of None \<Rightarrow> (''0.0.0.0'', ''0'') | Some info \<Rightarrow> info))"

lemma answer_vars_of: "my_hostname m = s \<Longrightarrow> answer_vars m h = vars_of s (um_find (DHT m) h)"
  by (auto simp: answer_vars_def vars_of_def dht_owner_def split: option.splits)

lemma lookup_spec:
  assumes ok: "chord_ok sha1 w" and n: "w me = Some n" and h: "in_ring h"
    and fuel: "finger_table_length < fuel"
  obtains s m w' where "w s = Some m" and "succ_of (ids w) h (my_hash m)"
    and "lookup fuel w me h port = Inr (vars_of s (um_find (DHT m) h), w')"
    and "chord_ok sha1 w'" and "canon w' = canon w"
proof -
  obtain s m w' where *: "w s = Some m" "succ_of (ids w) h (my_hash m)"
    "lookup fuel w me h port = Inr (answer_vars m h, w')" "chord_ok sha1 w'" "canon w' = canon w"
    using lookup_reaches [OF assms, of port] by blast
  show thesis
    using that [OF *(1,2) _ *(4,5)] *(3) answer_vars_of [OF chord_okD(4) [OF ok *(1)]] by simp
qed

lemma lookup_successor_spec:
  assumes ok: "chord_ok sha1 w" and n: "w me = Some n" and h: "in_ring h"
    and fuel: "finger_table_length < fuel"
  obtains s m w' where "w s = Some m" and "succ_of (ids w) h (my_hash m)"
    and "lookup_successor fuel w me h port = Inr ((um_find (DHT m) h \<noteq> None, (s, listening_port_num)), w')"
    and "chord_ok sha1 w'" and "canon w' = canon w"
proof -
  obtain s m w' where *: "w s = Some m" "succ_of (ids w) h (my_hash m)"
    "lookup fuel w me h port = Inr (vars_of s (um_find (DHT m) h), w')" "chord_ok sha1 w'" "canon w' = canon w"
    using lookup_spec [OF assms, of port] by blast
  show thesis
    using that [OF *(1,2) _ *(4,5)] *(3) by (simp add: lookup_successor_def vars_of_def)
qed

section \<open>Publishing a file\<close>

text \<open>
  The handler on the responsible host \<open>s\<close> checks a file in its own directory: the one its table
  of local files names for the digest, or the directory itself when there is none.
\<close>

definition handler_file_ok :: "(hostname \<Rightarrow> disk) \<Rightarrow> hostname \<Rightarrow> node \<Rightarrow> digest \<Rightarrow> bool" where
  "handler_file_ok disks s m h = file_exist (disks s) (fst (um_index [] h (localFiles m)))"

lemma um_index_put: "fst (um_index d k (um_put k v m)) = v"
  by (simp add: um_index_def um_put_def update_conv')

lemma deliver_add_file:
  assumes ok: "chord_ok sha1 w" and h: "in_ring h" and s: "w s = Some m" "succ_of (ids w) h (my_hash m)"
    and here: "handler_file_ok disks s m h"
  obtains m' where "deliver_file_request disks w
        (Send_request (s, listening_port_num) (generate_add_file_request h host port)) = Inr (w(s \<mapsto> m'))"
    and "chord_ok sha1 (w(s \<mapsto> m'))"
    and "\<And>k r. in_ring k \<Longrightarrow> stored (w(s \<mapsto> m')) k r \<longleftrightarrow>
           (if k = h \<and> stored w h None then r = Some (host, port) else stored w k r)"
    and "\<And>k v. um_find (localFiles m) k = Some v \<Longrightarrow> um_find (localFiles m') k = Some v"
proof -
  obtain name lf where ix: "um_index [] h (localFiles m) = (name, lf)" by force
  have keeps: "um_find lf k = Some v" if "um_find (localFiles m) k = Some v" for k v
    using um_index_find [OF ix] that by auto
  have exists: "file_exist (disks s) name" using here by (simp add: handler_file_ok_def ix)
  have wf: "um_wf (DHT m)" using chord_okD(1) [OF ok s(1)] by (simp add: node_id_ok_def)
  have st: "stored w h r \<longleftrightarrow> um_find (DHT m) h = r" for r
    using stored_at [OF ok h s] .
  show thesis
  proof (cases "um_find (DHT m) h")
    case None
    let ?m = "m\<lparr>localFiles := lf, DHT := um_put h (host, port) (DHT m)\<rparr>"
    show thesis
    proof (rule that [of ?m])
      show "deliver_file_request disks w (Send_request (s, listening_port_num)
          (generate_add_file_request h host port)) = Inr (w(s \<mapsto> ?m))"
        using s ix exists None
        by (simp add: deliver_file_request_def received add_file_req_handle_new)
      show "chord_ok sha1 (w(s \<mapsto> ?m))"
        using chord_okD(6) [OF ok s(1)] wf
        by (intro chord_ok_upd [OF ok s(1)]) (simp_all add: um.wf_put node_range_def)
      show "stored (w(s \<mapsto> ?m)) k r \<longleftrightarrow>
          (if k = h \<and> stored w h None then r = Some (host, port) else stored w k r)" if "in_ring k" for k r
        using stored_update [OF ok h s, of ?m k r] that None st wf by (simp add: um.find_put)
    qed (simp add: keeps)
  next
    case (Some info)
    let ?m = "m\<lparr>localFiles := lf\<rparr>"
    show thesis
    proof (rule that [of ?m])
      show "deliver_file_request disks w (Send_request (s, listening_port_num)
          (generate_add_file_request h host port)) = Inr (w(s \<mapsto> ?m))"
        using s ix exists Some
        by (simp add: deliver_file_request_def received add_file_req_handle_known)
      show "chord_ok sha1 (w(s \<mapsto> ?m))"
        using chord_okD(6) [OF ok s(1)] wf
        by (intro chord_ok_upd [OF ok s(1)]) (simp_all add: node_range_def)
      show "stored (w(s \<mapsto> ?m)) k r \<longleftrightarrow>
          (if k = h \<and> stored w h None then r = Some (host, port) else stored w k r)" if "in_ring k" for k r
        using stored_same_entry [of w s m ?m k r] s(1) Some st by simp
    qed (simp add: keeps)
  qed
qed

text \<open>A failed check ends the process of the responsible host.\<close>

lemma deliver_add_file_fails:
  assumes s: "w s = Some m" and not_here: "\<not> handler_file_ok disks s m h"
  shows "deliver_file_request disks w
    (Send_request (s, listening_port_num) (generate_add_file_request h host port)) = Inl Exit_failure"
proof -
  obtain name lf where ix: "um_index [] h (localFiles m) = (name, lf)" by force
  with not_here have "\<not> file_exist (disks s) name" by (simp add: handler_file_ok_def)
  with s ix show ?thesis by (simp add: deliver_file_request_def received add_file_req_handle_def)
qed

text \<open>Storing the name in the publisher's own table of local files changes nothing else.\<close>

lemma chord_ok_local_files:
  assumes ok: "chord_ok sha1 w" and n: "w me = Some n"
  shows "chord_ok sha1 (w(me \<mapsto> n\<lparr>localFiles := lf\<rparr>))"
    and "ids (w(me \<mapsto> n\<lparr>localFiles := lf\<rparr>)) = ids w"
    and "stored (w(me \<mapsto> n\<lparr>localFiles := lf\<rparr>)) k r \<longleftrightarrow> stored w k r"
  using n chord_ok_upd [OF ok n, of "n\<lparr>localFiles := lf\<rparr>"] chord_okD(1,6) [OF ok n]
    stored_same_entry [of w me n "n\<lparr>localFiles := lf\<rparr>" k r]
  by (simp_all add: node_id_ok_def node_range_def)

lemma share_file_cases:
  assumes ok: "chord_ok sha1 w" and n: "w me = Some n" and fuel: "finger_table_length < fuel"
    and here: "file_exist (disks me) filename"
  obtains s m where "w s = Some m" and "succ_of (ids w) (get_hash sha1 filename) (my_hash m)"
    and "s = me \<or> handler_file_ok disks s m (get_hash sha1 filename) \<Longrightarrow>
      \<exists>w' n'. share_file sha1 disks fuel w me filename = Inr w' \<and> chord_ok sha1 w' \<and>
        (\<forall>k r. in_ring k \<longrightarrow> stored w' k r =
           (if k = get_hash sha1 filename \<and> stored w k None then r = Some (me, listening_port_num)
            else stored w k r)) \<and>
        dom w' = dom w \<and> w' me = Some n' \<and> um_find (localFiles n') (get_hash sha1 filename) = Some filename"
    and "\<not> (s = me \<or> handler_file_ok disks s m (get_hash sha1 filename)) \<Longrightarrow>
      share_file sha1 disks fuel w me filename = Inl Exit_failure"
proof -
  let ?h = "get_hash sha1 filename"
  obtain s m w1 where s: "w s = Some m" "succ_of (ids w) ?h (my_hash m)"
    and l: "lookup_successor fuel w me ?h user_interface_port_num =
         Inr ((um_find (DHT m) ?h \<noteq> None, (s, listening_port_num)), w1)"
    and w1: "chord_ok sha1 w1" "canon w1 = canon w"
    using lookup_successor_spec [OF ok n get_hash_in_ring fuel] by blast
  obtain n1 where n1: "w1 me = Some n1" "canon_node n1 = canon_node n" using canon_lookup [OF w1(2) n] by blast
  let ?n = "n1\<lparr>localFiles := um_put ?h filename (localFiles n1)\<rparr>"
  let ?w = "w1(me \<mapsto> ?n)"
  note upd = chord_ok_local_files [OF w1(1) n1(1), where lf = "um_put ?h filename (localFiles n1)"]
  obtain m1 where m1: "w1 s = Some m1" "canon_node m1 = canon_node m" using canon_lookup [OF w1(2) s(1)] by blast
  obtain m2 where m2: "?w s = Some m2" "my_hash m2 = my_hash m"
    "handler_file_ok disks s m2 ?h \<longleftrightarrow> s = me \<or> handler_file_ok disks s m ?h"
  proof (cases "s = me")
    case True
    with n1 m1 canon_node_fields(1) [OF m1(2)] here that [of ?n] show thesis
      by (simp add: handler_file_ok_def um_index_put)
  next
    case False
    with m1 canon_node_fields [OF m1(2)] that [of m1] show thesis by (simp add: handler_file_ok_def)
  qed
  have succ: "succ_of (ids ?w) ?h (my_hash m2)" using s(2) m2(2) upd(2) canon_ids [OF w1(2)] by simp
  have name: "my_hostname n1 = me" using chord_okD(4) [OF w1(1) n1(1)] .
  have share: "share_file sha1 disks fuel w me filename = deliver_file_request disks ?w
      (Send_request (s, listening_port_num) (generate_add_file_request ?h me listening_port_num))"
    using here l n1(1) name by (simp add: share_file_def add_file_def Let_def)
  show thesis
  proof (rule that [OF s])
    assume "s = me \<or> handler_file_ok disks s m ?h"
    then have checked: "handler_file_ok disks s m2 ?h" by (simp only: m2(3))
    obtain m' where d: "deliver_file_request disks ?w
        (Send_request (s, listening_port_num) (generate_add_file_request ?h me listening_port_num)) = Inr (?w(s \<mapsto> m'))"
      "chord_ok sha1 (?w(s \<mapsto> m'))"
      "\<And>k r. in_ring k \<Longrightarrow> stored (?w(s \<mapsto> m')) k r \<longleftrightarrow>
             (if k = ?h \<and> stored ?w ?h None then r = Some (me, listening_port_num) else stored ?w k r)"
      "\<And>k v. um_find (localFiles m2) k = Some v \<Longrightarrow> um_find (localFiles m') k = Some v"
      by (rule deliver_add_file [where disks = disks and host = me and port = listening_port_num,
            OF upd(1) get_hash_in_ring m2(1) succ checked]) (rule that)
    have mine: "um_find (localFiles ?n) ?h = Some filename" by (simp add: um_find_def um_put_def update_conv')
    obtain n' where n': "(?w(s \<mapsto> m')) me = Some n'" "um_find (localFiles n') ?h = Some filename"
    proof (cases "s = me")
      case True
      with m2(1) have "m2 = ?n" by simp
      with True d(4) mine that [of m'] show thesis by simp
    next
      case False
      with mine that [of ?n] show thesis by simp
    qed
    have dom: "dom (?w(s \<mapsto> m')) = dom w" using canon_dom [OF w1(2)] n1(1) m1(1) by auto
    have "stored ?w k r \<longleftrightarrow> stored w k r" for k r using upd(3) stored_canon [OF w1(2)] by simp
    then show "\<exists>w' n'. share_file sha1 disks fuel w me filename = Inr w' \<and> chord_ok sha1 w' \<and>
        (\<forall>k r. in_ring k \<longrightarrow> stored w' k r =
           (if k = ?h \<and> stored w k None then r = Some (me, listening_port_num) else stored w k r)) \<and>
        dom w' = dom w \<and> w' me = Some n' \<and> um_find (localFiles n') ?h = Some filename"
      using d(1-3) share dom n' by (intro exI [of _ "?w(s \<mapsto> m')"] exI [of _ n'] conjI) auto
  next
    assume "\<not> (s = me \<or> handler_file_ok disks s m ?h)"
    then have "\<not> handler_file_ok disks s m2 ?h" by (simp only: m2(3) not_False_eq_True)
    then show "share_file sha1 disks fuel w me filename = Inl Exit_failure"
      unfolding share by (rule deliver_add_file_fails [where m = m2, rotated]) (rule m2(1))
  qed
qed

lemma share_file_result:
  assumes ok: "chord_ok sha1 w" and n: "w me = Some n" and fuel: "finger_table_length < fuel"
    and here: "file_exist (disks me) filename"
    and remote: "\<And>s m. w s = Some m \<Longrightarrow> s \<noteq> me \<Longrightarrow> succ_of (ids w) (get_hash sha1 filename) (my_hash m) \<Longrightarrow>
      handler_file_ok disks s m (get_hash sha1 filename)"
  shows "\<exists>w' n'. share_file sha1 disks fuel w me filename = Inr w' \<and> chord_ok sha1 w' \<and>
    (\<forall>k r. in_ring k \<longrightarrow> stored w' k r =
       (if k = get_hash sha1 filename \<and> stored w k None then r = Some (me, listening_port_num)
        else stored w k r)) \<and>
    dom w' = dom w \<and> w' me = Some n' \<and> um_find (localFiles n') (get_hash sha1 filename) = Some filename"
  by (rule share_file_cases [OF ok n fuel, of disks filename]) (use here remote in blast)+

text \<open>
  C4: What publishing an existing file from any node of a complete circle does, on both branches of
  the check that the handler makes on the host responsible for the file's digest (the publisher
  itself, or one whose own directory opens what its table of local files names for the digest). If the
  check succeeds, the circle stays complete and the table changes in one entry: when the digest had none
  it now has the publisher's address. An entry that was there stays (the first publisher wins), and
  so do all others. If the check fails, the operation ends with the exit of the responsible host.
\<close>

theorem share_file_publishes:
  assumes "chord_ok sha1 w" and "w me = Some n" and "finger_table_length < fuel"
    and "file_exist (disks me) filename"
  shows "\<exists>s m. w s = Some m \<and> succ_of (ids w) (get_hash sha1 filename) (my_hash m) \<and>
    (if s = me \<or> handler_file_ok disks s m (get_hash sha1 filename) then
       \<exists>w'. share_file sha1 disks fuel w me filename = Inr w' \<and> chord_ok sha1 w' \<and>
         (\<forall>k r. in_ring k \<longrightarrow> stored w' k r =
            (if k = get_hash sha1 filename \<and> stored w k None then r = Some (me, listening_port_num)
             else stored w k r))
     else share_file sha1 disks fuel w me filename = Inl Exit_failure)"
proof (rule share_file_cases [where disks = disks and filename = filename, OF assms])
  fix s m
  assume s: "w s = Some m" "succ_of (ids w) (get_hash sha1 filename) (my_hash m)"
    and published: "s = me \<or> handler_file_ok disks s m (get_hash sha1 filename) \<Longrightarrow>
      \<exists>w' n'. share_file sha1 disks fuel w me filename = Inr w' \<and> chord_ok sha1 w' \<and>
        (\<forall>k r. in_ring k \<longrightarrow> stored w' k r =
           (if k = get_hash sha1 filename \<and> stored w k None then r = Some (me, listening_port_num)
            else stored w k r)) \<and>
        dom w' = dom w \<and> w' me = Some n' \<and> um_find (localFiles n') (get_hash sha1 filename) = Some filename"
    and refused: "\<not> (s = me \<or> handler_file_ok disks s m (get_hash sha1 filename)) \<Longrightarrow>
      share_file sha1 disks fuel w me filename = Inl Exit_failure"
  show ?thesis
  proof (cases "s = me \<or> handler_file_ok disks s m (get_hash sha1 filename)")
    case True
    with published s show ?thesis by (intro exI [of _ s] exI [of _ m]) (simp only: if_True, blast)
  next
    case False
    with refused s show ?thesis by (intro exI [of _ s] exI [of _ m]) (simp only: if_False, simp)
  qed
qed

section \<open>Withdrawing a file\<close>

lemma deliver_delete_file:
  assumes ok: "chord_ok sha1 w" and h: "in_ring h" and s: "w s = Some m" "succ_of (ids w) h (my_hash m)"
    and known: "um_find (DHT m) h \<noteq> None"
  obtains m' where "deliver_file_request disks w
        (Send_request (s, listening_port_num) (generate_delete_file_request h host port)) = Inr (w(s \<mapsto> m'))"
    and "chord_ok sha1 (w(s \<mapsto> m'))"
    and "\<And>k r. in_ring k \<Longrightarrow> stored (w(s \<mapsto> m')) k r \<longleftrightarrow> (if k = h then r = None else stored w k r)"
proof -
  let ?m = "m\<lparr>DHT := um_erase h (DHT m)\<rparr>"
  have wf: "um_wf (DHT m)" using chord_okD(1) [OF ok s(1)] by (simp add: node_id_ok_def)
  show thesis
  proof (rule that [of ?m])
    show "deliver_file_request disks w (Send_request (s, listening_port_num)
        (generate_delete_file_request h host port)) = Inr (w(s \<mapsto> ?m))"
      using s known by (simp add: deliver_file_request_def received del_file_req_handle_known)
    show "chord_ok sha1 (w(s \<mapsto> ?m))"
      using chord_okD(6) [OF ok s(1)] wf
      by (intro chord_ok_upd [OF ok s(1)]) (simp_all add: um.wf_erase node_range_def)
    show "stored (w(s \<mapsto> ?m)) k r \<longleftrightarrow> (if k = h then r = None else stored w k r)" if "in_ring k" for k r
      using stored_update [OF ok h s, of ?m k r] that wf by (simp add: um.find_erase)
  qed
qed

text \<open>
  C5: Withdrawing a file the table attributes to this host removes that entry, and no other; the
  circle stays complete.
\<close>

theorem unshare_file_withdraws:
  assumes ok: "chord_ok sha1 w" and n: "w me = Some n" and fuel: "finger_table_length < fuel"
    and mine: "stored w (get_hash sha1 filename) (Some (me, port))"
  shows "\<exists>w'. unshare_file sha1 disks fuel w me filename = Inr w' \<and> chord_ok sha1 w' \<and>
    (\<forall>k r. in_ring k \<longrightarrow> stored w' k r = (if k = get_hash sha1 filename then r = None else stored w k r))"
proof -
  let ?h = "get_hash sha1 filename"
  obtain s m w1 where s: "w s = Some m" "succ_of (ids w) ?h (my_hash m)"
    and l: "lookup fuel w me ?h user_interface_port_num = Inr (vars_of s (um_find (DHT m) ?h), w1)"
    and w1: "chord_ok sha1 w1" "canon w1 = canon w"
    using lookup_spec [OF ok n get_hash_in_ring fuel] by blast
  have entry: "um_find (DHT m) ?h = Some (me, port)"
    using mine stored_at [OF ok get_hash_in_ring s] by simp
  obtain n1 where n1: "w1 me = Some n1" using canon_lookup [OF w1(2) n] by blast
  let ?n = "n1\<lparr>localFiles := um_erase ?h (localFiles n1)\<rparr>"
  let ?w = "w1(me \<mapsto> ?n)"
  note upd = chord_ok_local_files [OF w1(1) n1, where lf = "um_erase ?h (localFiles n1)"]
  obtain m1 where m1: "w1 s = Some m1" "canon_node m1 = canon_node m" using canon_lookup [OF w1(2) s(1)] by blast
  obtain m2 where m2: "?w s = Some m2" "my_hash m2 = my_hash m" "um_find (DHT m2) ?h \<noteq> None"
  proof (cases "s = me")
    case True
    with n1 m1 canon_node_fields(1,2) [OF m1(2)] entry that [of ?n] show thesis by simp
  next
    case False
    with m1 canon_node_fields(1,2) [OF m1(2)] entry that [of m1] show thesis by simp
  qed
  have succ: "succ_of (ids ?w) ?h (my_hash m2)" using s(2) m2(2) upd(2) canon_ids [OF w1(2)] by simp
  have name: "my_hostname n1 = me" using chord_okD(4) [OF w1(1) n1] .
  obtain m' where d: "deliver_file_request disks ?w
      (Send_request (s, listening_port_num) (generate_delete_file_request ?h me listening_port_num)) = Inr (?w(s \<mapsto> m'))"
    "chord_ok sha1 (?w(s \<mapsto> m'))"
    "\<And>k r. in_ring k \<Longrightarrow> stored (?w(s \<mapsto> m')) k r \<longleftrightarrow> (if k = ?h then r = None else stored ?w k r)"
    using deliver_delete_file [OF upd(1) get_hash_in_ring m2(1) succ m2(3)] by metis
  have "unshare_file sha1 disks fuel w me filename = Inr (?w(s \<mapsto> m'))"
    using l n1(1) d(1) name entry by (simp add: unshare_file_def delete_file_def vars_of_def Let_def)
  moreover have "stored ?w k r \<longleftrightarrow> stored w k r" for k r using upd(3) stored_canon [OF w1(2)] by simp
  ultimately show ?thesis using d(2,3) by auto
qed

text \<open>
  C18: Withdrawing a file that the table does not have ends the whole process with a failure.
\<close>

theorem delete_unknown_exits:
  assumes ok: "chord_ok sha1 w" and n: "w me = Some n" and fuel: "finger_table_length < fuel"
    and none: "stored w (get_hash sha1 filename) None"
  shows "delete_file sha1 fuel w me filename port = Inl Exit_failure"
proof -
  let ?h = "get_hash sha1 filename"
  obtain s m w1 where s: "w s = Some m" "succ_of (ids w) ?h (my_hash m)"
    and l: "lookup fuel w me ?h user_interface_port_num = Inr (vars_of s (um_find (DHT m) ?h), w1)"
    using lookup_spec [OF ok n get_hash_in_ring fuel] by blast
  have "um_find (DHT m) ?h = None"
    using none stored_at [OF ok get_hash_in_ring s] by simp
  with l show ?thesis by (simp add: delete_file_def vars_of_def Let_def)
qed

text \<open>
  Withdrawing a file that the table attributes to another host sends nothing and leaves
  every node as it was.
\<close>

theorem delete_foreign_ignored:
  assumes ok: "chord_ok sha1 w" and n: "w me = Some n" and fuel: "finger_table_length < fuel"
    and other: "stored w (get_hash sha1 filename) (Some (owner, p))" "owner \<noteq> me"
  shows "\<exists>w'. delete_file sha1 fuel w me filename port = Inr (None, w') \<and> canon w' = canon w"
proof -
  let ?h = "get_hash sha1 filename"
  obtain s m w1 where s: "w s = Some m" "succ_of (ids w) ?h (my_hash m)"
    and l: "lookup fuel w me ?h user_interface_port_num = Inr (vars_of s (um_find (DHT m) ?h), w1)"
    and w1: "chord_ok sha1 w1" "canon w1 = canon w"
    using lookup_spec [OF ok n get_hash_in_ring fuel] by blast
  have entry: "um_find (DHT m) ?h = Some (owner, p)"
    using other(1) stored_at [OF ok get_hash_in_ring s] by simp
  obtain n1 where n1: "w1 me = Some n1" using canon_lookup [OF w1(2) n] by blast
  have "my_hostname n1 = me" using chord_okD(4) [OF w1(1) n1] .
  with l n1 entry other(2) w1(2) show ?thesis by (simp add: delete_file_def vars_of_def Let_def)
qed

end
