(* ===== verification/Download.thy ===== *)
theory Download
  imports Storage Socket
begin

text \<open>
  Downloading (\<open>src/src/download.cpp\<close>): the owner opens a connection to the requester and sends the
  length of the file as a raw \<open>int\<close> and then its bytes in pieces of at most \<open>MAX_LENGTH\<close>; the
  requester reads the length with one \<open>recv\<close> and then whatever arrives until the count is used
  up. \<open>files path\<close> is the content of a file that can be opened; the connection delivers the bytes
  in segments of its own choosing.
\<close>

type_synonym files = "string \<rightharpoonup> byte list"

section \<open>The raw length\<close>

text \<open>An \<open>int\<close> in the memory of a little-endian machine, and reading it back when only some of its
  bytes were written over a zero.\<close>

definition le_bytes :: "32 word \<Rightarrow> byte list" where
  "le_bytes v = map (\<lambda>i. word_of_nat (unat v div 256 ^ i)) [0..<4]"

definition le_word :: "byte list \<Rightarrow> 32 word" where
  "le_word bs = word_of_nat (foldr (\<lambda>b v. unat b + 256 * v) bs 0)"

section \<open>The owner\<close>

text \<open>The pieces of the loop; \<open>content\<close> is what is left to read.\<close>

function file_pieces :: "int \<Rightarrow> byte list \<Rightarrow> byte list list" where
  "file_pieces len content =
     (if len > 0 then
        let n = min (int MAX_LENGTH) len
        in take (nat n) content # file_pieces (len - n) (drop (nat n) content)
      else [])"
  by auto
termination by (relation "measure (\<lambda>(len, _). nat len)") (auto simp: MAX_LENGTH_def)

declare file_pieces.simps [simp del]

text \<open>
  Whom the handler connects to, and the buffers it sends: none when it does not have the file,
  so that the requester sees the connection close.
\<close>

definition download_req_handle :: "files \<Rightarrow> node \<Rightarrow> DownloadRequest \<Rightarrow> contactInfo \<times> byte list list" where
  "download_req_handle files n req =
     (let hash = DownloadRequest_filenamehash req;
          source = (DownloadRequest_sourcehostname req, DownloadRequest_sourceport req)
      in case um_find (localFiles n) hash of
           None \<Rightarrow> (source, [])
         | Some name \<Rightarrow>
             (case files (''./shared_file/'' @ name) of
                None \<Rightarrow> (source, [])
              | Some content \<Rightarrow>
                  let len = (word_of_nat (length content) :: 32 word)
                  in (source, le_bytes len # file_pieces (sint len) content)))"

text \<open>Sending the buffers one after the other; \<open>rets i\<close> is what \<open>send\<close> returns for the \<open>i\<close>-th.\<close>

fun send_all :: "(nat \<Rightarrow> int) \<Rightarrow> nat \<Rightarrow> byte list list \<Rightarrow> byte list res" where
  "send_all rets i [] = Inr []"
| "send_all rets i (buf # bufs) =
     bind_res (fst (socketSendMsg (rets i) buf))
       (\<lambda>out. bind_res (send_all rets (Suc i) bufs) (\<lambda>rest. Inr (out @ rest)))"

section \<open>The requester\<close>

datatype download_result =
    Declined            \<comment> \<open>the user does not want to overwrite the copy there is\<close>
  | Not_shared
  | Own_file
  | Transfer_error
  | Saved "byte list"

text \<open>Up to sending the request. \<open>option\<close> is the user's answer, if asked.\<close>

definition download_begin ::
    "sha \<Rightarrow> nat \<Rightarrow> files \<Rightarrow> world \<Rightarrow> hostname \<Rightarrow> string \<Rightarrow> string
       \<Rightarrow> ((download_result + contactInfo \<times> NodeRequest) \<times> world) res" where
  "download_begin sha1 fuel files w me filename option =
     (if files (''./download_file/'' @ filename) \<noteq> None \<and> option \<noteq> ''y'' then Inr (Inl Declined, w)
      else
        let hash = get_hash sha1 filename
        in bind_res (lookup fuel w me hash user_interface_port_num)
             (\<lambda>((does_exist, successor, owner), w').
                case does_exist of
                  None \<Rightarrow> Inl Uninit_read
                | Some False \<Rightarrow> Inr (Inl Not_shared, w')
                | Some True \<Rightarrow>
                    (case w' me of
                       None \<Rightarrow> Inl Null_deref
                     | Some n \<Rightarrow>
                         if fst owner = my_hostname n then Inr (Inl Own_file, w')
                         else Inr (Inr (owner, generate_download_request hash (my_hostname n)
                                                 user_interface_port_num), w'))))"

text \<open>The loop that receives the content. Every round takes at least one byte.\<close>

function recv_content :: "int \<Rightarrow> segments \<Rightarrow> byte list \<Rightarrow> byte list res" where
  "recv_content len segs acc =
     (if len > 0 then
        (case socketRecvMsg segs of
           Inl e \<Rightarrow> Inl e
         | Inr (received, segs') \<Rightarrow> recv_content (len - int (length received)) segs' (acc @ received))
      else Inr acc)"
  by auto
termination
proof (relation "measure (\<lambda>(len, _). nat len)")
  fix len :: int and segs acc x received segs'
  assume "0 < len" and "socketRecvMsg segs = Inr x" and "(received, segs') = x"
  then have "received \<noteq> []" using socketRecvMsg_Inr by metis
  then have "0 < length received" by simp
  with \<open>0 < len\<close> show "((len - int (length received), segs', acc @ received), (len, segs, acc)) \<in> measure (\<lambda>(len, _). nat len)"
    by simp
qed simp

declare recv_content.simps [simp del]

definition download_end :: "segments \<Rightarrow> download_result res" where
  "download_end segs =
     (let (bytes, segs) = recv 4 segs; len = sint (le_word bytes)
      in if len = 0 then Inr Transfer_error
         else bind_res (recv_content len segs []) (\<lambda>content. Inr (Saved content)))"

section \<open>A download across two nodes\<close>

text \<open>
  The request reaches the server of the owner, which runs the handler (type 5); \<open>seg\<close> cuts the
  bytes of the connection into the segments the requester sees. Menu entry 4.
\<close>

definition download ::
    "sha \<Rightarrow> nat \<Rightarrow> (hostname \<Rightarrow> files) \<Rightarrow> (nat \<Rightarrow> int) \<Rightarrow> (byte list \<Rightarrow> segments) \<Rightarrow> world \<Rightarrow> hostname
       \<Rightarrow> string \<Rightarrow> string \<Rightarrow> (download_result \<times> world) res" where
  "download sha1 fuel files rets seg w me filename option =
     bind_res (download_begin sha1 fuel (files me) w me filename option)
       (\<lambda>(r, w'). case r of
           Inl result \<Rightarrow> Inr (result, w')
         | Inr ((host, port), req) \<Rightarrow>
             if port \<noteq> listening_port_num then Inl Null_deref
             else case w' host of
               None \<Rightarrow> Inl Null_deref
             | Some n \<Rightarrow>
                 if NodeRequest_type req \<noteq> 5 then Inl Blocked
                 else let (source, bufs) = download_req_handle (files host) n (NodeRequest_download req)
                      in if source \<noteq> (me, user_interface_port_num) then Inl Blocked
                         else bind_res (send_all rets 0 bufs)
                           (\<lambda>stream. bind_res (download_end (seg stream)) (\<lambda>result. Inr (result, w'))))"

end
