(* ===== verification/Join.thy ===== *)
theory Join
  imports Lookup
begin

text \<open>
  Joining the circle (\<open>src/src/join.cpp\<close>). The first node fills its finger table with itself. Any
  other node sends a \<open>JoinRequest\<close> to its entry node, which finds the node responsible for the
  newcomer and passes the request on; that node answers with a finger table, with the node at
  which the update of the others starts, and with the files the newcomer takes over. The
  newcomer then walks round the circle and has the nodes it visits update their fingers.

  \<open>rnd i\<close> is the value of the \<open>i\<close>-th call of \<open>rand()\<close> in the function concerned; it only chooses
  ports. The messages of one join are delivered one after the other: a handler runs to its end
  when its request is delivered, and its answers wait in the stream of the receiver.
\<close>

section \<open>Starting a node\<close>

text \<open>
  \<open>main\<close> sets the entry node and the host name of the instance, \<open>Node::main\<close> its hash; the
  server thread runs from then on.
\<close>

definition boot_node :: "sha \<Rightarrow> hostname \<Rightarrow> hostname \<Rightarrow> node" where
  "boot_node sha1 contact_host my_host =
     Node_ctor\<lparr>entryNode := (contact_host, listening_port_num), my_hostname := my_host,
       my_hash := get_hash sha1 my_host\<rparr>"

definition initial_chord :: "node \<Rightarrow> node res" where
  "initial_chord n =
     (let t = (my_hostname n, listening_port_num);
          ft = fold (\<lambda>i ft. ft[i := (t, my_hash n)]) [0..<finger_table_length] (fingerTable n)
      in bind_res (hash_value_add (my_hash n) 1)
           (\<lambda>start. Inr (n\<lparr>fingerTable := ft, local_start := start\<rparr>)))"

section \<open>The entry node\<close>

definition join_req_handle ::
    "nat \<Rightarrow> (nat \<Rightarrow> nat) \<Rightarrow> world \<Rightarrow> hostname \<Rightarrow> JoinRequest \<Rightarrow> (action \<times> world) res" where
  "join_req_handle fuel rnd w me join_req =
     (let r_port = dec (get_random_port (rnd 0))
      in bind_res (lookup_successor fuel w me (JoinRequest_newhostnamehash join_req) r_port)
           (\<lambda>((_, respon), w').
              Inr (Send_request (fst respon, listening_port_num)
                     (generate_help_join_request (JoinRequest_newhostnamehash join_req)
                        (JoinRequest_newhostname join_req) (JoinRequest_newport join_req)), w')))"

section \<open>The responsible node\<close>

text \<open>One finger for the new node, then the loop over all of them.\<close>

definition route_entry :: "sha \<Rightarrow> hostname \<Rightarrow> RouteTableEntry" where
  "route_entry sha1 hostname =
     RouteTableEntry_set_hostnamehash (get_hash sha1 hostname)
       (RouteTableEntry_set_port listening_port_num
         (RouteTableEntry_set_hostname hostname RouteTableEntry_default))"

definition choose_finger :: "sha \<Rightarrow> digest \<Rightarrow> hostname \<Rightarrow> digest \<Rightarrow> hostname \<Rightarrow> hostname" where
  "choose_finger sha1 entry_hash res_host new_hash new_host =
     (let d_hash_to_res = get_distance entry_hash (get_hash sha1 res_host);
          d_hash_to_new = get_distance entry_hash new_hash
      in if d_hash_to_res > d_hash_to_new then new_host else res_host)"

fun help_join_fingers ::
    "sha \<Rightarrow> nat \<Rightarrow> (nat \<Rightarrow> nat) \<Rightarrow> hostname \<Rightarrow> HelpJoinRequset \<Rightarrow> nat list \<Rightarrow> world \<Rightarrow> RouteTableInit
       \<Rightarrow> (RouteTableInit \<times> world) res" where
  "help_join_fingers sha1 fuel rnd me req [] w finger_table = Inr (finger_table, w)"
| "help_join_fingers sha1 fuel rnd me req (i # is) w finger_table =
     bind_res (hash_value_add (HelpJoinRequset_newhostnamehash req) (2 ^ i))
       (\<lambda>entry_hash.
          bind_res (lookup_successor fuel w me entry_hash (dec (get_random_port (rnd i))))
            (\<lambda>((_, res), w').
               let hostname = choose_finger sha1 entry_hash (fst res)
                     (HelpJoinRequset_newhostnamehash req) (HelpJoinRequset_newhostname req)
               in help_join_fingers sha1 fuel rnd me req is w'
                    (RouteTableInit_add_entry (route_entry sha1 hostname) finger_table)))"

text \<open>The loop over the DHT: entries too far away go to the file table and are erased.\<close>

definition file_entry :: "digest \<Rightarrow> contactInfo \<Rightarrow> FileTableEntry" where
  "file_entry h info =
     FileTableEntry_set_ownerport (snd info)
       (FileTableEntry_set_ownerhostname (fst info)
         (FileTableEntry_set_filenamehash h FileTableEntry_default))"

fun hand_over :: "digest \<Rightarrow> int \<Rightarrow> (digest, contactInfo) umap \<Rightarrow> FileTable
    \<Rightarrow> FileTable \<times> (digest, contactInfo) umap" where
  "hand_over me_hash d_new_to_cur [] file_table = (file_table, [])"
| "hand_over me_hash d_new_to_cur ((h, info) # dht) file_table =
     (if get_distance h me_hash > d_new_to_cur
      then hand_over me_hash d_new_to_cur dht (FileTable_add_entry (file_entry h info) file_table)
      else let (file_table, dht) = hand_over me_hash d_new_to_cur dht file_table
           in (file_table, (h, info) # dht))"

text \<open>
  The messages sent to the new node, in the order they are sent, and the world afterwards.
  The \<open>bool\<close> of the last lookup ends up in the digest field of \<open>LookupNodeResponse\<close>.
\<close>

definition help_join_req_handle ::
    "sha \<Rightarrow> nat \<Rightarrow> (nat \<Rightarrow> nat) \<Rightarrow> world \<Rightarrow> hostname \<Rightarrow> HelpJoinRequset \<Rightarrow> (NodeResponse list \<times> world) res" where
  "help_join_req_handle sha1 fuel rnd w me req =
     (case w me of
        None \<Rightarrow> Inl Null_deref
      | Some n \<Rightarrow>
          let new_hash = HelpJoinRequset_newhostnamehash req;
              help_join_resp = generate_help_join_response (my_hash n) (my_hostname n) listening_port_num
          in bind_res (help_join_fingers sha1 fuel rnd me req [0..<finger_table_length] w RouteTableInit_default)
            (\<lambda>(finger_table, w1).
               bind_res (hash_value_add new_hash (- 1 * 2 ^ (finger_table_length - 1)))
                 (\<lambda>target_hash.
                    bind_res (lookup_successor fuel w1 me target_hash
                                (dec (get_random_port (rnd finger_table_length))))
                      (\<lambda>((exists, prev), w2).
                         case w2 me of
                           None \<Rightarrow> Inl Null_deref
                         | Some n \<Rightarrow>
                             let lookup_node_resp = generate_lookup_node_response
                                   (if exists then 1 else 0) (fst prev) listening_port_num;
                                 d_new_to_cur = get_distance new_hash (my_hash n);
                                 (file_table, dht) = hand_over (my_hash n) d_new_to_cur (DHT n) FileTable_default
                             in bind_res (hash_value_add new_hash 1)
                                  (\<lambda>start.
                                     Inr ([help_join_resp, generate_routetable_init finger_table,
                                           lookup_node_resp, generate_filetable_response file_table],
                                          w2(me \<mapsto> n\<lparr>DHT := dht, local_start := start\<rparr>)))))))"

section \<open>The nodes the newcomer visits\<close>

text \<open>Narrowing a \<open>long\<close> to an \<open>int\<close>.\<close>

definition to_int32 :: "int \<Rightarrow> int" where
  "to_int32 x = signed_take_bit 31 x"

definition update_finger :: "digest \<Rightarrow> hostname \<Rightarrow> digest \<Rightarrow> nat
    \<Rightarrow> (contactInfo \<times> digest) list \<Rightarrow> (contactInfo \<times> digest) list" where
  "update_finger me_hash new_host new_hash i ft =
     (let d_cur_to_new = to_int32 (get_distance me_hash new_hash);
          d_min = 2 ^ i;
          d_cur_to_entry = to_int32 (get_distance me_hash (snd (ft ! i)))
      in if d_cur_to_new \<ge> d_min \<and> d_cur_to_new < d_cur_to_entry
         then ft[i := ((new_host, listening_port_num), new_hash)] else ft)"

definition handle_update_route_req :: "node \<Rightarrow> RouteUpdateRequest \<Rightarrow> action \<times> node" where
  "handle_update_route_req n req =
     (let ft = fold (update_finger (my_hash n) (RouteUpdateRequest_newhostname req)
                       (RouteUpdateRequest_newhostnamehash req))
                 [0..<finger_table_length] (fingerTable n);
          rsp = generate_route_update_response (my_hash n) (snd (ft ! 0)) (fst (fst (ft ! 0)))
                  listening_port_num
      in (Send_response (RouteUpdateRequest_newhostname req, RouteUpdateRequest_newport req) rsp,
          n\<lparr>fingerTable := ft\<rparr>))"

section \<open>The newcomer\<close>

text \<open>One round of the update loop: the world, the node to visit, and the round number.\<close>

type_synonym walk_state = "world \<times> hostname \<times> string \<times> nat"
type_synonym walk_result = "(digest \<times> world) res"

fun walk_step :: "(nat \<Rightarrow> nat) \<Rightarrow> hostname \<Rightarrow> digest \<Rightarrow> walk_state \<Rightarrow> walk_state + walk_result" where
  "walk_step rnd me me_hash (w, host, port, k) =
     (let r_port = dec (get_random_port (rnd k));
          req = generate_route_update_request me_hash me r_port
      in if port \<noteq> listening_port_num then Inr (Inl Null_deref)
         else case w host of
           None \<Rightarrow> Inr (Inl Null_deref)
         | Some n \<Rightarrow>
             (case handle_update_route_req n (NodeRequest_updateroute req) of
                (Send_request _ _, n') \<Rightarrow> Inr (Inl Blocked)
              | (Send_response to rsp, n') \<Rightarrow>
                  if to \<noteq> (me, r_port) then Inr (Inl Blocked)
                  else if NodeResponse_type rsp \<noteq> 7 then Inr (Inl Exit_failure)
                  else let ru_rsp = NodeResponse_updateroute rsp
                       in if RouteUpdateResponse_nextupdatehostnamehash ru_rsp = me_hash
                          then Inr (Inr (RouteUpdateResponse_curupdatehostnamehash ru_rsp, w(host \<mapsto> n')))
                          else Inl (w(host \<mapsto> n'), RouteUpdateResponse_nextupdatehostname ru_rsp,
                                    RouteUpdateResponse_nextupdateport ru_rsp, Suc k)))"

definition update_walk ::
    "nat \<Rightarrow> (nat \<Rightarrow> nat) \<Rightarrow> hostname \<Rightarrow> digest \<Rightarrow> world \<Rightarrow> hostname \<Rightarrow> string \<Rightarrow> walk_result" where
  "update_walk fuel rnd me me_hash w host port =
     (case run_rounds (walk_step rnd me me_hash) fuel (w, host, port, 0) of
        None \<Rightarrow> Inl Out_of_fuel
      | Some r \<Rightarrow> r)"

text \<open>Copying the received table over the finger table.\<close>

definition install_table :: "RouteTableInit \<Rightarrow> node \<Rightarrow> node res" where
  "install_table rti_rsp n =
     (if RouteTableInit_entry_size rti_rsp \<noteq> finger_table_length then Inl Assert_fail
      else Inr (n\<lparr>fingerTable :=
             fold (\<lambda>i ft. let entry = RouteTableInit_entry rti_rsp i
                          in ft[i := ((RouteTableEntry_hostname entry, RouteTableEntry_port entry),
                                      RouteTableEntry_hostnamehash entry)])
               [0..<RouteTableInit_entry_size rti_rsp] (fingerTable n)\<rparr>))"

definition install_files :: "FileTable \<Rightarrow> node \<Rightarrow> node" where
  "install_files ft_rsp n =
     n\<lparr>DHT := fold (\<lambda>i dht. let entry = FileTable_entry ft_rsp i
                            in um_insert (FileTableEntry_filenamehash entry)
                                 (FileTableEntry_ownerhostname entry, FileTableEntry_ownerport entry) dht)
              [0..<FileTable_entry_size ft_rsp] (DHT n)\<rparr>"

text \<open>
  \<open>recvMesgFrom\<close> into an object that already holds a message merges. An exhausted stream leaves
  the thread waiting.
\<close>

fun recv_expect :: "int \<Rightarrow> NodeResponse \<Rightarrow> NodeResponse list \<Rightarrow> (NodeResponse \<times> NodeResponse list) res" where
  "recv_expect type rsp [] = Inl Blocked"
| "recv_expect type rsp (m # ms) =
     (let rsp = NodeResponse_MergeFrom rsp m
      in if NodeResponse_type rsp \<noteq> type then Inl Exit_failure else Inr (rsp, ms))"

definition change_node :: "hostname \<Rightarrow> (node \<Rightarrow> node res) \<Rightarrow> world \<Rightarrow> world res" where
  "change_node me f w =
     (case w me of None \<Rightarrow> Inl Null_deref | Some n \<Rightarrow> bind_res (f n) (\<lambda>n. Inr (w(me \<mapsto> n))))"

text \<open>What \<open>join_chord\<close> does with the messages from the responsible node.\<close>

definition join_responses ::
    "nat \<Rightarrow> (nat \<Rightarrow> nat) \<Rightarrow> hostname \<Rightarrow> digest \<Rightarrow> NodeResponse list \<Rightarrow> world \<Rightarrow> world res" where
  "join_responses fuel rnd me me_hash msgs w =
     bind_res (recv_expect 6 NodeResponse_default msgs) (\<lambda>(rsp, msgs).
     bind_res (recv_expect 4 rsp msgs) (\<lambda>(rsp, msgs).
     bind_res (change_node me (install_table (NodeResponse_routeinit rsp)) w) (\<lambda>w.
     bind_res (recv_expect 8 rsp msgs) (\<lambda>(rsp, msgs).
     let lun_rsp = NodeResponse_lookupnode rsp in
     bind_res (update_walk fuel rnd me me_hash w (LookupNodeResponse_hostname lun_rsp)
                 (LookupNodeResponse_port lun_rsp)) (\<lambda>(cur, w).
     bind_res (hash_value_add cur 1) (\<lambda>start.
     bind_res (change_node me (\<lambda>n. Inr (n\<lparr>local_start := start\<rparr>)) w) (\<lambda>w.
     bind_res (recv_expect 5 rsp msgs) (\<lambda>(rsp, msgs).
     change_node me (\<lambda>n. Inr (install_files (NodeResponse_filetable rsp) n)) w))))))))"

text \<open>
  The request to the entry node, its handler, the handler of the responsible node, and what the
  newcomer does with the answers. Failing to reach the entry node ends the process.
\<close>

definition join_chord ::
    "sha \<Rightarrow> nat \<Rightarrow> nat \<Rightarrow> (nat \<Rightarrow> nat) \<Rightarrow> (nat \<Rightarrow> nat) \<Rightarrow> (nat \<Rightarrow> nat) \<Rightarrow> world \<Rightarrow> hostname \<Rightarrow> world res" where
  "join_chord sha1 fuel walk_fuel rnd rnd_entry rnd_respon w me =
     (case w me of
        None \<Rightarrow> Inl Null_deref
      | Some n \<Rightarrow>
          let r_port_1 = dec (get_random_port (rnd 0));
              req = generate_join_request (my_hash n) (my_hostname n) r_port_1
          in if snd (entryNode n) \<noteq> listening_port_num \<or> w (fst (entryNode n)) = None
             then Inl Exit_failure
             else bind_res (join_req_handle fuel rnd_entry w (fst (entryNode n)) (NodeRequest_join req))
               (\<lambda>(act, w1). case act of
                   Send_response _ _ \<Rightarrow> Inl Blocked
                 | Send_request (host, port) help_req \<Rightarrow>
                     let hj = NodeRequest_helpjoin help_req
                     in bind_res (help_join_req_handle sha1 fuel rnd_respon w1 host hj)
                          (\<lambda>(msgs, w2).
                             if (HelpJoinRequset_newhostname hj, HelpJoinRequset_newport hj) \<noteq> (me, r_port_1)
                             then Inl Blocked
                             else join_responses walk_fuel (\<lambda>k. rnd (Suc k)) me (my_hash n) msgs w2)))"

end
