(* ===== verification/Server.thy ===== *)
theory Server
  imports Download Join
begin

text \<open>
  The two threads of a node (\<open>src/src/node.cpp\<close>): the server that receives requests and spawns a
  handler for each, and the terminal that runs the commands of the user; \<open>Node::main\<close> and \<open>main\<close>
  (\<open>src/src/main.cpp\<close>), which start them.
\<close>

section \<open>The server\<close>

text \<open>
  One iteration of the loop: accepting fails with an exception, which is reported, or a request
  is received. The result of \<open>recvMesgFrom\<close> is not looked at: the request is whatever it left in
  the object, with a \<open>False\<close> when it failed.
\<close>

datatype connection =
    Accept_failed
  | Received bool NodeRequest

text \<open>The thread that is spawned, with the copy of the request it is given.\<close>

datatype spawned =
    Spawn_add_file AddFileRequest
  | Spawn_lookup LookupFileRequest
  | Spawn_delete_file DeleteFileRequest
  | Spawn_download DownloadRequest
  | Spawn_join JoinRequest
  | Spawn_update_route RouteUpdateRequest
  | Spawn_help_join HelpJoinRequset

definition dispatch :: "NodeRequest \<Rightarrow> spawned option" where
  "dispatch request =
     (let type = NodeRequest_type request
      in if type = 2 then Some (Spawn_add_file (NodeRequest_addfile request))
         else if type = 3 then Some (Spawn_lookup (NodeRequest_lookup request))
         else if type = 4 then Some (Spawn_delete_file (NodeRequest_deletefile request))
         else if type = 5 then Some (Spawn_download (NodeRequest_download request))
         else if type = 6 then Some (Spawn_join (NodeRequest_join request))
         else if type = 7 then Some (Spawn_update_route (NodeRequest_updateroute request))
         else if type = 8 then None
         else if type = 9 then Some (Spawn_help_join (NodeRequest_helpjoin request))
         else None)"

fun serve :: "connection list \<Rightarrow> spawned list" where
  "serve [] = []"
| "serve (Accept_failed # cs) = serve cs"
| "serve (Received ok request # cs) =
     (case dispatch request of None \<Rightarrow> serve cs | Some t \<Rightarrow> t # serve cs)"

text \<open>
  The threads spawned for a sequence of connections. \<open>initializeServer\<close> is called outside of the
  \<open>try\<close>, in the function of the thread: an exception there terminates the process.
\<close>

definition run_server :: "os_replies \<Rightarrow> connection list \<Rightarrow> spawned list res" where
  "run_server os cs =
     (case fst (initializeServer os) of
        Inl e \<Rightarrow> Inl Terminated
      | Inr server_fd \<Rightarrow> Inr (serve cs))"

section \<open>The terminal\<close>

text \<open>What the terminal reports for a command.\<close>

datatype report =
    Invalid_input
  | Invalid_option
  | Found
  | Not_found
  | Download_report download_result
  | Completed

text \<open>
  \<open>tokens\<close> is what is left of the standard input, by words, before its end; \<open>screen\<close> what was
  reported; \<open>net\<close> and \<open>disk_of\<close> are the nodes and the files of every host.
\<close>

record session =
  tokens :: "string list"
  screen :: "report list"
  net :: world
  disk_of :: "hostname \<Rightarrow> files"

text \<open>\<open>cin >> s\<close> for a fresh \<open>s\<close>: at the end of the input the string stays empty.\<close>

definition read_token :: "session \<Rightarrow> string \<times> session" where
  "read_token st = (case tokens st of
       [] \<Rightarrow> ([], st)
     | t # ts \<Rightarrow> (t, st\<lparr>tokens := ts\<rparr>))"

definition show_report :: "report list \<Rightarrow> session \<Rightarrow> session" where
  "show_report rs st = st\<lparr>screen := screen st @ rs\<rparr>"

definition opens_of :: "(hostname \<Rightarrow> files) \<Rightarrow> hostname \<Rightarrow> disk" where
  "opens_of fs h path = (fs h path \<noteq> None)"

text \<open>
  The environment of a session: SHA-1, the number of hops a lookup may take, what \<open>send\<close>
  returns on the owner of a download, how the network cuts a stream into segments, and the
  host of the terminal.
\<close>

record env =
  env_sha :: sha
  env_fuel :: nat
  env_rets :: "nat \<Rightarrow> int"
  env_seg :: "byte list \<Rightarrow> segments"
  env_host :: hostname

definition menu_add :: "env \<Rightarrow> session \<Rightarrow> session res" where
  "menu_add e st =
     (let (filename, st) = read_token st
      in bind_res (share_file (env_sha e) (opens_of (disk_of st)) (env_fuel e) (net st) (env_host e) filename)
           (\<lambda>w. Inr (show_report [Completed] (st\<lparr>net := w\<rparr>))))"

definition menu_delete :: "env \<Rightarrow> session \<Rightarrow> session res" where
  "menu_delete e st =
     (let (filename, st) = read_token st
      in bind_res (unshare_file (env_sha e) (opens_of (disk_of st)) (env_fuel e) (net st) (env_host e) filename)
           (\<lambda>w. Inr (show_report [Completed] (st\<lparr>net := w\<rparr>))))"

definition menu_search :: "env \<Rightarrow> session \<Rightarrow> session res" where
  "menu_search e st =
     (let (file_name, st) = read_token st;
          file_hash = get_hash (env_sha e) file_name
      in bind_res (lookup (env_fuel e) (net st) (env_host e) file_hash user_interface_port_num)
           (\<lambda>((does_exist, successor, owner), w).
              case does_exist of
                None \<Rightarrow> Inl Uninit_read
              | Some b \<Rightarrow> Inr (show_report [if b then Found else Not_found, Completed] (st\<lparr>net := w\<rparr>))))"

text \<open>The answer to the question whether to overwrite is read only when it is asked.\<close>

definition menu_download :: "env \<Rightarrow> session \<Rightarrow> session res" where
  "menu_download e st =
     (let (file_name, st) = read_token st;
          path = ''./download_file/'' @ file_name;
          (option, st) = (if disk_of st (env_host e) path \<noteq> None then read_token st else ([], st))
      in bind_res (download (env_sha e) (env_fuel e) (disk_of st) (env_rets e) (env_seg e) (net st)
                     (env_host e) file_name option)
           (\<lambda>(result, w).
              let fs = (case result of
                    Saved content \<Rightarrow> (disk_of st)(env_host e := (disk_of st (env_host e))(path \<mapsto> content))
                  | _ \<Rightarrow> disk_of st)
              in Inr (show_report [Download_report result, Completed] (st\<lparr>net := w, disk_of := fs\<rparr>))))"

definition menu_step :: "env \<Rightarrow> session \<Rightarrow> session + err" where
  "menu_step e st =
     (let (option_str, st) = read_token st;
          go_on = (\<lambda>r. case r of Inl x \<Rightarrow> Inr x | Inr st \<Rightarrow> Inl st)
      in case stoi option_str of
           Inl x \<Rightarrow> Inl (show_report [Invalid_input] st)
         | Inr option \<Rightarrow>
             if option = 1 then go_on (menu_add e st)
             else if option = 2 then go_on (menu_delete e st)
             else if option = 3 then go_on (menu_search e st)
             else if option = 4 then go_on (menu_download e st)
             else if option = 5 then Inr Exit_success
             else Inl (show_report [Invalid_option] st))"

text \<open>
  The terminal for \<open>k\<close> rounds: \<open>None\<close> when it is still running, otherwise the way the process
  ended (an \<open>exit\<close> or an exception that nothing in the loop catches).
\<close>

definition run_user_terminal_interface :: "env \<Rightarrow> nat \<Rightarrow> session \<Rightarrow> err option" where
  "run_user_terminal_interface e k st = run_rounds (menu_step e) k st"

section \<open>Starting a node\<close>

text \<open>
  The thread object \<open>listenThread\<close> is neither joined nor detached, so an exception that leaves
  the \<open>try\<close> destroys a joinable thread: the process is terminated before the handler runs.
\<close>

definition unwind_main :: "err \<Rightarrow> err" where
  "unwind_main x = (case x of Thrown _ \<Rightarrow> Terminated | _ \<Rightarrow> x)"

definition enter_chord ::
    "env \<Rightarrow> nat \<Rightarrow> (nat \<Rightarrow> nat) \<Rightarrow> (nat \<Rightarrow> nat) \<Rightarrow> (nat \<Rightarrow> nat) \<Rightarrow> world \<Rightarrow> world res" where
  "enter_chord e walk_fuel rnd rnd_entry rnd_respon w =
     (let me = env_host e
      in case w me of
           None \<Rightarrow> Inl Null_deref
         | Some n \<Rightarrow>
             if fst (entryNode n) = ''0.0.0.0'' then change_node me initial_chord w
             else join_chord (env_sha e) (env_fuel e) walk_fuel rnd rnd_entry rnd_respon w me)"

definition Node_main ::
    "env \<Rightarrow> nat \<Rightarrow> (nat \<Rightarrow> nat) \<Rightarrow> (nat \<Rightarrow> nat) \<Rightarrow> (nat \<Rightarrow> nat) \<Rightarrow> nat \<Rightarrow> session \<Rightarrow> err option" where
  "Node_main e walk_fuel rnd rnd_entry rnd_respon k st =
     (let set_hash = (\<lambda>n. Inr (n\<lparr>my_hash := get_hash (env_sha e) (my_hostname n)\<rparr>))
      in map_option unwind_main
           (case bind_res (change_node (env_host e) set_hash (net st))
                   (enter_chord e walk_fuel rnd rnd_entry rnd_respon) of
              Inl x \<Rightarrow> Some x
            | Inr w \<Rightarrow> run_user_terminal_interface e k (st\<lparr>net := w\<rparr>)))"

text \<open>\<open>main\<close>: the process of host \<open>args ! 2\<close> starts with a constructed node.\<close>

definition main_program ::
    "env \<Rightarrow> nat \<Rightarrow> (nat \<Rightarrow> nat) \<Rightarrow> (nat \<Rightarrow> nat) \<Rightarrow> (nat \<Rightarrow> nat) \<Rightarrow> nat \<Rightarrow> string list \<Rightarrow> session \<Rightarrow> err option" where
  "main_program e walk_fuel rnd rnd_entry rnd_respon k argv st =
     (if length argv \<noteq> 3 then Some Exit_failure
      else let n = Node_ctor\<lparr>entryNode := (argv ! 1, listening_port_num), my_hostname := argv ! 2\<rparr>;
               e = e\<lparr>env_host := argv ! 2\<rparr>
           in Node_main e walk_fuel rnd rnd_entry rnd_respon k (st\<lparr>net := (net st)(argv ! 2 \<mapsto> n)\<rparr>))"

section \<open>Lemmas\<close>

lemma read_token_fields:
  "net (snd (read_token st)) = net st" "disk_of (snd (read_token st)) = disk_of st"
  "screen (snd (read_token st)) = screen st"
  by (simp_all add: read_token_def split: list.split)

lemma read_token_Cons [simp]: "read_token (st\<lparr>tokens := t # ts\<rparr>) = (t, st\<lparr>tokens := ts\<rparr>)"
  by (simp add: read_token_def)

lemma stoi_empty: "stoi [] = Inl (Thrown ''invalid_argument'')"
  by (simp add: stoi_def strtol_def)

lemma menu_step_eof: "tokens st = [] \<Longrightarrow> menu_step e st = Inl (show_report [Invalid_input] st)"
  by (simp add: menu_step_def read_token_def stoi_empty)

lemma stoi_options:
  "stoi ''1'' = Inr 1" "stoi ''2'' = Inr 2" "stoi ''3'' = Inr 3" "stoi ''4'' = Inr 4" "stoi ''5'' = Inr 5"
  by (simp_all add: stoi_def strtol_def is_space_def is_digit_def dec_value_def Let_def)

text \<open>How a chosen command runs, for each entry of the menu.\<close>

lemma menu_step_commands:
  assumes "tokens st = cmd # ts"
  shows "cmd = ''1'' \<Longrightarrow> menu_add e (st\<lparr>tokens := ts\<rparr>) = Inr st' \<Longrightarrow> menu_step e st = Inl st'"
    and "cmd = ''3'' \<Longrightarrow> menu_search e (st\<lparr>tokens := ts\<rparr>) = Inr st' \<Longrightarrow> menu_step e st = Inl st'"
    and "cmd = ''4'' \<Longrightarrow> menu_download e (st\<lparr>tokens := ts\<rparr>) = Inr st' \<Longrightarrow> menu_step e st = Inl st'"
    and "cmd = ''5'' \<Longrightarrow> menu_step e st = Inr Exit_success"
  using assms by (simp_all add: menu_step_def read_token_def stoi_options)

end
