(* ===== verification/Join_Correct.thy ===== *)
theory Join_Correct
  imports Storage Join
begin

text \<open>
  What joining does to a complete circle. The first section treats the single operations: the
  first node makes a complete circle on its own; one visit of the update walk turns fingers
  for the old set of nodes into fingers for the new one; the walk visits exactly the nodes from
  its start up to the predecessor of the newcomer.
\<close>

section \<open>The first node\<close>

lemma ids_single: "ids [me \<mapsto> n] = {my_hash n}"
  by (auto simp: ids_def)

lemma initial_chord_world:
  "\<exists>n. initial_chord (boot_node sha1 contact me) = Inr n \<and> chord_ok sha1 [me \<mapsto> n] \<and>
       DHT n = [] \<and> (\<forall>h. in_ring h \<longrightarrow> owns n h)"
proof -
  let ?h = "get_hash sha1 me" let ?t = "((me, listening_port_num), ?h)"
  let ?n = "(boot_node sha1 contact me)\<lparr>fingerTable := replicate 16 ?t, local_start := ring_add ?h 1\<rparr>"
  have "fold (\<lambda>i ft. ft[i := ?t]) [0..<16] (replicate 16 (([], []), 0)) = replicate 16 ?t"
    using fold_update_nth [of 16 "replicate 16 (([], []), 0)" "\<lambda>_ _. ?t"] by (simp add: map_replicate_const)
  then have init: "initial_chord (boot_node sha1 contact me) = Inr ?n"
    by (simp add: initial_chord_def boot_node_def Node_ctor_def config_simps ring_simps Let_def)
  have idn: "ids [me \<mapsto> ?n] = {?h}" by (simp add: ids_single boot_node_def)
  have "pred_of {?h} ?h ?h" by (simp add: pred_of_def)
  moreover have range: "node_range ?n"
    using ring_add_cases [of ?h 1] get_hash_in_ring [of sha1 me]
    by (auto simp: node_range_def boot_node_def in_ring_def)
  moreover have "ring_add (local_start ?n) 0 = ring_add ?h 1" by (simp add: ring_add_def)
  ultimately have start: "start_ok [me \<mapsto> ?n] ?n"
    unfolding start_ok_def idn by (intro conjI exI [of _ ?h]) (simp_all add: boot_node_def)
  have fingers: "finger_ok sha1 [me \<mapsto> ?n] ?n i" if "i < 16" for i
    unfolding finger_ok_def idn using that by (simp add: boot_node_def succ_of_singleton)
  have ok: "chord_ok sha1 [me \<mapsto> ?n]"
    using start fingers
    by (auto simp: chord_ok_def node_id_ok_def boot_node_def Node_ctor_def config_simps um_wf_def split: if_splits)
  have "owns ?n h" if "in_ring h" for h
    using chord_owns [OF ok, of me ?n h] that unfolding idn by (simp add: boot_node_def succ_of_singleton)
  with init ok show ?thesis by (auto simp: boot_node_def Node_ctor_def)
qed

section \<open>One visit of the walk\<close>

lemma to_int32_small: "- (2 ^ 31) \<le> x \<Longrightarrow> x < 2 ^ 31 \<Longrightarrow> to_int32 x = x"
  unfolding to_int32_def by (rule signed_take_bit_int_eq_self) simp_all

lemma to_int32_distance:
  assumes "in_ring a" "in_ring b"
  shows "to_int32 (get_distance a b) = get_distance a b"
  using assms cdist_range [of a b] by (intro to_int32_small) (auto simp: ring_simps)

definition new_finger_of :: "digest \<Rightarrow> hostname \<Rightarrow> digest \<Rightarrow> nat \<Rightarrow> contactInfo \<times> digest \<Rightarrow> contactInfo \<times> digest" where
  "new_finger_of p host x i f =
     (if 2 ^ i \<le> get_distance p x \<and> get_distance p x < get_distance p (snd f)
      then ((host, listening_port_num), x) else f)"

lemma update_fold:
  assumes "in_ring p" "in_ring x" and "length ft = finger_table_length"
    and "\<forall>i < finger_table_length. in_ring (snd (ft ! i))"
  shows "fold (update_finger p host x) [0..<finger_table_length] ft =
    map (\<lambda>i. new_finger_of p host x i (ft ! i)) [0..<finger_table_length]"
proof -
  let ?g = "\<lambda>i f. if 2 ^ i \<le> to_int32 (get_distance p x) \<and>
      to_int32 (get_distance p x) < to_int32 (get_distance p (snd f))
      then ((host, listening_port_num), x) else f"
  have "update_finger p host x = (\<lambda>i ft. ft[i := ?g i (ft ! i)])"
    by (auto simp: update_finger_def fun_eq_iff)
  then have "fold (update_finger p host x) [0..<finger_table_length] ft =
      map (\<lambda>i. ?g i (ft ! i)) [0..<finger_table_length]"
    using fold_update_nth [of finger_table_length ft ?g] assms(3) by simp
  also have "\<dots> = map (\<lambda>i. new_finger_of p host x i (ft ! i)) [0..<finger_table_length]"
    using assms(1,2,4) by (auto simp: new_finger_of_def to_int32_distance)
  finally show ?thesis .
qed

text \<open>The node after the visit, and its answer.\<close>

definition visited :: "hostname \<Rightarrow> digest \<Rightarrow> node \<Rightarrow> node" where
  "visited host x n = n\<lparr>fingerTable :=
     map (\<lambda>i. new_finger_of (my_hash n) host x i (fingerTable n ! i)) [0..<finger_table_length]\<rparr>"

lemma finger_in_ring:
  assumes "chord_ok sha1 w" "w host = Some n" "i < finger_table_length"
  shows "in_ring (snd (fingerTable n ! i))" "snd (fingerTable n ! i) \<in> ids w"
    "succ_of (ids w) (ring_add (my_hash n) (2 ^ i)) (snd (fingerTable n ! i))"
  using chord_okD(3) [OF assms] chord_ring_set [OF assms(1)]
  by (auto simp: finger_ok_def split: prod.splits dest: succ_ofD ring_setD)

lemma handle_update_route_req_visited:
  assumes ok: "chord_ok sha1 w" and n: "w host = Some n" and x: "in_ring x"
  shows "handle_update_route_req n (NodeRequest_updateroute (generate_route_update_request x me port)) =
    (Send_response (me, port)
      (generate_route_update_response (my_hash n) (snd (fingerTable (visited me x n) ! 0))
         (fst (fst (fingerTable (visited me x n) ! 0))) listening_port_num),
     visited me x n)"
proof -
  have "fold (update_finger (my_hash n) me x) [0..<finger_table_length] (fingerTable n) =
      fingerTable (visited me x n)"
    unfolding visited_def using finger_in_ring(1) [OF ok n] chord_okD(7,8) [OF ok n] x
    by (subst update_fold) auto
  then show ?thesis
    by (simp add: handle_update_route_req_def received Let_def) (simp add: visited_def)
qed

lemma two_power_bounds: "i < finger_table_length \<Longrightarrow> 0 < (2::int) ^ i \<and> (2::int) ^ i < 65536"
proof -
  assume "i < finger_table_length"
  then have "(2::int) ^ i \<le> 2 ^ 15" by (intro power_increasing) (auto simp: config_simps)
  then show ?thesis by simp
qed

lemma visited_finger:
  assumes ok: "chord_ok sha1 w" and n: "w host = Some n" and i: "i < finger_table_length"
    and x: "in_ring x" "x \<notin> ids w" "x = get_hash sha1 me"
  obtains h f where "fingerTable (visited me x n) ! i = ((h, listening_port_num), f)"
    and "f = get_hash sha1 h" and "h = me \<and> f = x \<or> h \<in> dom w \<and> f \<noteq> x"
    and "succ_of (insert x (ids w)) (ring_add (my_hash n) (2 ^ i)) f"
proof -
  obtain h f where hf: "fingerTable n ! i = ((h, listening_port_num), f)"
    "h \<in> dom w" "f = get_hash sha1 h" "succ_of (ids w) (ring_add (my_hash n) (2 ^ i)) f"
    using chord_okD(3) [OF ok n i] by (auto simp: finger_ok_def split: prod.splits)
  have fx: "f \<noteq> x" using succ_ofD(1) [OF hf(4)] x(2) by auto
  have upd: "succ_of (insert x (ids w)) (ring_add (my_hash n) (2 ^ i))
      (if 2 ^ i \<le> get_distance (my_hash n) x \<and> get_distance (my_hash n) x < get_distance (my_hash n) f then x else f)"
    using two_power_bounds [OF i] hf(4) x
    by (intro finger_update chord_ring_set [OF ok] my_hash_ids [of w host n, OF n]) auto
  show thesis
  proof (cases "2 ^ i \<le> get_distance (my_hash n) x \<and> get_distance (my_hash n) x < get_distance (my_hash n) f")
    case True
    with upd i hf x that [of me x] show thesis by (simp add: visited_def new_finger_of_def)
  next
    case False
    with upd i hf fx that [of h f] show thesis by (auto simp: visited_def new_finger_of_def)
  qed
qed

section \<open>The walk\<close>

text \<open>The handler only reads the fingers and the hash of the node it runs on.\<close>

definition same_fingers :: "node \<Rightarrow> node \<Rightarrow> bool" where
  "same_fingers n n' \<longleftrightarrow> my_hash n' = my_hash n \<and> fingerTable n' = fingerTable n"

lemma visited_same: "same_fingers n n' \<Longrightarrow> fingerTable (visited me x n') = fingerTable (visited me x n)"
  by (simp add: visited_def same_fingers_def)

lemma handle_update_same:
  assumes "same_fingers n n'"
  shows "fst (handle_update_route_req n' req) = fst (handle_update_route_req n req)"
    and "snd (handle_update_route_req n' req) = n'\<lparr>fingerTable := fingerTable (snd (handle_update_route_req n req))\<rparr>"
  using assms by (simp_all add: handle_update_route_req_def same_fingers_def Let_def)

definition on_walk :: "sha \<Rightarrow> world \<Rightarrow> digest \<Rightarrow> hostname \<Rightarrow> hostname \<Rightarrow> bool" where
  "on_walk sha1 w x start h \<longleftrightarrow>
     h \<in> dom w \<and> cdist (get_hash sha1 h) x \<le> cdist (get_hash sha1 start) x"

definition walk_effect :: "sha \<Rightarrow> world \<Rightarrow> hostname \<Rightarrow> hostname \<Rightarrow> world \<Rightarrow> world" where
  "walk_effect sha1 w me start v =
     (\<lambda>h. if on_walk sha1 w (get_hash sha1 me) start h then map_option (visited me (get_hash sha1 me)) (v h) else v h)"

definition walk_inv :: "sha \<Rightarrow> world \<Rightarrow> hostname \<Rightarrow> walk_state \<Rightarrow> bool" where
  "walk_inv sha1 w me = (\<lambda>(v, host, port, k).
     chord_ok sha1 w \<and> get_hash sha1 me \<notin> ids w \<and> port = listening_port_num \<and> host \<in> dom w \<and>
     (\<forall>h n. w h = Some n \<and> on_walk sha1 w (get_hash sha1 me) host h \<longrightarrow>
        (\<exists>n'. v h = Some n' \<and> same_fingers n n')))"

definition walk_post :: "sha \<Rightarrow> world \<Rightarrow> hostname \<Rightarrow> walk_state \<Rightarrow> walk_result \<Rightarrow> bool" where
  "walk_post sha1 w me = (\<lambda>(v, host, port, k) r.
     \<exists>cur. r = Inr (cur, walk_effect sha1 w me host v) \<and>
       pred_of (insert (get_hash sha1 me) (ids w)) (get_hash sha1 me) cur)"

definition walk_size :: "sha \<Rightarrow> hostname \<Rightarrow> walk_state \<Rightarrow> nat" where
  "walk_size sha1 me = (\<lambda>(v, host, port, k). nat (cdist (get_hash sha1 host) (get_hash sha1 me)))"

lemma walk_step_cases:
  assumes ok: "chord_ok sha1 w" and n: "w host = Some n" and x: "get_hash sha1 me \<notin> ids w"
    and n': "v host = Some n'" and same: "same_fingers n n'"
  obtains (last) "walk_step rnd me (get_hash sha1 me) (v, host, listening_port_num, k) =
        Inr (Inr (my_hash n, v(host \<mapsto> visited me (get_hash sha1 me) n')))"
      and "succ_of (insert (get_hash sha1 me) (ids w)) (ring_add (my_hash n) 1) (get_hash sha1 me)"
  | (further) h where "walk_step rnd me (get_hash sha1 me) (v, host, listening_port_num, k) =
        Inl (v(host \<mapsto> visited me (get_hash sha1 me) n'), h, listening_port_num, Suc k)"
      and "h \<in> dom w" and "get_hash sha1 h \<noteq> get_hash sha1 me"
      and "succ_of (insert (get_hash sha1 me) (ids w)) (ring_add (my_hash n) 1) (get_hash sha1 h)"
proof -
  let ?x = "get_hash sha1 me" let ?port = "dec (get_random_port (rnd k))"
  let ?req = "NodeRequest_updateroute (generate_route_update_request ?x me ?port)"
  have zero: "0 < finger_table_length" by (simp add: config_simps)
  obtain h f where hf: "fingerTable (visited me ?x n) ! 0 = ((h, listening_port_num), f)"
    "f = get_hash sha1 h" "h = me \<and> f = ?x \<or> h \<in> dom w \<and> f \<noteq> ?x"
    "succ_of (insert ?x (ids w)) (ring_add (my_hash n) (2 ^ 0)) f"
    using visited_finger [OF ok n zero get_hash_in_ring x refl] by metis
  have h1: "handle_update_route_req n ?req =
      (Send_response (me, ?port) (generate_route_update_response (my_hash n) f h listening_port_num), visited me ?x n)"
    using handle_update_route_req_visited [OF ok n get_hash_in_ring, where me = me and port = ?port] hf(1) by simp
  have "n'\<lparr>fingerTable := fingerTable (visited me ?x n)\<rparr> = visited me ?x n'"
    using same by (simp add: visited_def same_fingers_def)
  then have "handle_update_route_req n' ?req =
      (Send_response (me, ?port) (generate_route_update_response (my_hash n) f h listening_port_num), visited me ?x n')"
    using handle_update_same [OF same, of ?req] h1 by (simp add: prod_eq_iff)
  then have step: "walk_step rnd me ?x (v, host, listening_port_num, k) =
      (if f = ?x then Inr (Inr (my_hash n, v(host \<mapsto> visited me ?x n')))
       else Inl (v(host \<mapsto> visited me ?x n'), h, listening_port_num, Suc k))"
    using n' by (simp add: received Let_def)
  show thesis
  proof (cases "f = ?x")
    case True
    with step hf(4) show thesis by (intro last) simp_all
  next
    case False
    with step hf show thesis by (intro further [of h]) auto
  qed
qed

lemma chord_hash_inj:
  "chord_ok sha1 w \<Longrightarrow> a \<in> dom w \<Longrightarrow> b \<in> dom w \<Longrightarrow> get_hash sha1 a = get_hash sha1 b \<Longrightarrow> a = b"
  unfolding chord_ok_def by (blast dest: inj_onD)

lemma on_walk_dom: "on_walk sha1 w x start h \<Longrightarrow> h \<in> dom w"
  by (simp add: on_walk_def)

lemma on_walk_last:
  assumes ok: "chord_ok sha1 w" and n: "w host = Some n" and x: "in_ring x" "x \<notin> ids w"
    and s: "succ_of (insert x (ids w)) (ring_add (my_hash n) 1) x"
  shows "on_walk sha1 w x host h \<longleftrightarrow> h = host"
proof
  note N = chord_ring_set [OF ok]
  assume on: "on_walk sha1 w x host h"
  then have h: "get_hash sha1 h \<in> ids w" by (auto simp: on_walk_def chord_ids [OF ok])
  have "cdist (my_hash n) x \<le> cdist (get_hash sha1 h) x"
    using walk_last(1) [OF N my_hash_ids [of w host n, OF n] x s h] .
  with on have "cdist (get_hash sha1 h) x = cdist (get_hash sha1 host) x"
    using chord_okD(5) [OF ok n] by (simp add: on_walk_def)
  then have "get_hash sha1 h = get_hash sha1 host"
    by (rule cdist_inject_left) (use x in simp_all)
  then show "h = host" by (rule chord_hash_inj [OF ok on_walk_dom [OF on] domI [of w, OF n]])
next
  show "h = host \<Longrightarrow> on_walk sha1 w x host h" using n by (simp add: on_walk_def domI)
qed

lemma on_walk_further:
  assumes ok: "chord_ok sha1 w" and n: "w host = Some n" and x: "in_ring x" "x \<notin> ids w"
    and s: "succ_of (insert x (ids w)) (ring_add (my_hash n) 1) (get_hash sha1 next)"
    and next': "next \<in> dom w" "get_hash sha1 next \<noteq> x"
  shows "on_walk sha1 w x host h \<longleftrightarrow> h = host \<or> on_walk sha1 w x next h"
    and "\<not> on_walk sha1 w x next host"
    and "cdist (get_hash sha1 next) x < cdist (get_hash sha1 host) x"
proof -
  note N = chord_ring_set [OF ok]
  note hash = chord_okD(5) [OF ok n]
  note further = walk_further [OF N my_hash_ids [of w host n, OF n] x s next'(2)]
  show closer: "cdist (get_hash sha1 next) x < cdist (get_hash sha1 host) x"
    using further(2) hash by simp
  then show "\<not> on_walk sha1 w x next host" by (simp add: on_walk_def)
  show "on_walk sha1 w x host h \<longleftrightarrow> h = host \<or> on_walk sha1 w x next h"
  proof
    assume on: "on_walk sha1 w x host h"
    then have h: "get_hash sha1 h \<in> ids w" by (auto simp: on_walk_def chord_ids [OF ok])
    show "h = host \<or> on_walk sha1 w x next h"
    proof (cases "cdist (get_hash sha1 h) x = cdist (get_hash sha1 host) x")
      case True
      then have "get_hash sha1 h = get_hash sha1 host"
    by (rule cdist_inject_left) (use x in simp_all)
      then have "h = host" by (rule chord_hash_inj [OF ok on_walk_dom [OF on] domI [of w, OF n]])
      then show ?thesis ..
    next
      case False
      with on further(3) [OF h] hash show ?thesis by (simp add: on_walk_def)
    qed
  next
    assume "h = host \<or> on_walk sha1 w x next h"
    then show "on_walk sha1 w x host h" using closer n by (auto simp: on_walk_def domI)
  qed
qed

interpretation walk: bounded_loop "walk_step rnd me (get_hash sha1 me)" "walk_inv sha1 w me"
    "walk_post sha1 w me" "walk_size sha1 me"
  for rnd me sha1 w
proof unfold_locales
  let ?x = "get_hash sha1 me"
  fix s s'
  assume inv: "walk_inv sha1 w me s" and step: "walk_step rnd me ?x s = Inl s'"
  obtain v host k n where s: "s = (v, host, listening_port_num, k)" and ok: "chord_ok sha1 w"
    and x: "?x \<notin> ids w" and n: "w host = Some n"
    and same: "\<And>h n. w h = Some n \<Longrightarrow> on_walk sha1 w ?x host h \<Longrightarrow> \<exists>n'. v h = Some n' \<and> same_fingers n n'"
    using inv by (cases s) (auto simp: walk_inv_def)
  have "on_walk sha1 w ?x host host" using n by (auto simp: on_walk_def)
  then obtain n' where n': "v host = Some n'" "same_fingers n n'" using same [OF n] by blast
  obtain h where s': "s' = (v(host \<mapsto> visited me ?x n'), h, listening_port_num, Suc k)"
    and h: "h \<in> dom w" "get_hash sha1 h \<noteq> ?x"
    and succ: "succ_of (insert ?x (ids w)) (ring_add (my_hash n) 1) (get_hash sha1 h)"
    using step s by (cases rule: walk_step_cases [where v = v and host = host and n' = n' and w = w and n = n and rnd = rnd and k = k,
        OF ok n x n']) auto
  note on = on_walk_further [OF ok n get_hash_in_ring x succ h]
  show "walk_inv sha1 w me s'"
    using ok x h same on by (auto simp: walk_inv_def s')
  show "walk_size sha1 me s' < walk_size sha1 me s"
    using on(3) cdist_range [of "get_hash sha1 h" ?x] by (simp add: walk_size_def s s')
  fix r
  assume "walk_post sha1 w me s' r"
  moreover have "walk_effect sha1 w me h (v(host \<mapsto> visited me ?x n')) = walk_effect sha1 w me host v"
    using on(1,2) n' by (auto simp: walk_effect_def fun_eq_iff)
  ultimately show "walk_post sha1 w me s r" by (simp add: walk_post_def s s')
next
  let ?x = "get_hash sha1 me"
  fix s r
  assume inv: "walk_inv sha1 w me s" and step: "walk_step rnd me ?x s = Inr r"
  obtain v host k n where s: "s = (v, host, listening_port_num, k)" and ok: "chord_ok sha1 w"
    and x: "?x \<notin> ids w" and n: "w host = Some n"
    and same: "\<And>h n. w h = Some n \<Longrightarrow> on_walk sha1 w ?x host h \<Longrightarrow> \<exists>n'. v h = Some n' \<and> same_fingers n n'"
    using inv by (cases s) (auto simp: walk_inv_def)
  have "on_walk sha1 w ?x host host" using n by (auto simp: on_walk_def)
  then obtain n' where n': "v host = Some n'" "same_fingers n n'" using same [OF n] by blast
  have r: "r = Inr (my_hash n, v(host \<mapsto> visited me ?x n'))"
    and succ: "succ_of (insert ?x (ids w)) (ring_add (my_hash n) 1) ?x"
    using step s by (cases rule: walk_step_cases [where v = v and host = host and n' = n' and w = w and n = n and rnd = rnd and k = k,
        OF ok n x n']; simp)+
  have "v(host \<mapsto> visited me ?x n') = walk_effect sha1 w me host v"
    using on_walk_last [OF ok n get_hash_in_ring x succ] n' by (auto simp: walk_effect_def fun_eq_iff)
  moreover have "pred_of (insert ?x (ids w)) ?x (my_hash n)"
    using walk_last(2) [OF chord_ring_set [OF ok] my_hash_ids [of w host n, OF n] get_hash_in_ring x succ] .
  ultimately show "walk_post sha1 w me s r" by (simp add: walk_post_def s r)
qed

text \<open>The loop of \<open>join_chord\<close> ends, after at most one visit per point of the circle.\<close>

lemma update_walk_visits:
  assumes "chord_ok sha1 w" and "get_hash sha1 me \<notin> ids w" and "start \<in> dom w"
    and "\<And>h n. w h = Some n \<Longrightarrow> \<exists>n'. v h = Some n' \<and> same_fingers n n'"
    and fuel: "65536 \<le> fuel"
  obtains cur where "update_walk fuel rnd me (get_hash sha1 me) v start listening_port_num =
      Inr (cur, walk_effect sha1 w me start v)"
    and "pred_of (insert (get_hash sha1 me) (ids w)) (get_hash sha1 me) cur"
proof -
  let ?s = "(v, start, listening_port_num, 0)"
  have inv: "walk_inv sha1 w me ?s" using assms by (simp add: walk_inv_def)
  have "walk_size sha1 me ?s < fuel"
    using fuel cdist_range [of "get_hash sha1 start" "get_hash sha1 me"] by (simp add: walk_size_def)
  then obtain r where "run_rounds (walk_step rnd me (get_hash sha1 me)) fuel ?s = Some r" "walk_post sha1 w me ?s r"
    using walk.terminates [OF inv] by blast
  then show thesis using that by (auto simp: update_walk_def walk_post_def)
qed

section \<open>Properties\<close>

text \<open>
  C16: In a complete circle, handling the newcomer's update request makes every finger of the node
  right for the circle with the newcomer (finger \<open>i\<close> is the successor of the \<open>i\<close>-th start
  point among all nodes and the newcomer), and answers with the node's hash and first finger.
\<close>

theorem update_request_corrects_fingers:
  assumes "chord_ok sha1 w" and "w host = Some n" and "get_hash sha1 me \<notin> ids w"
  shows "\<exists>n' h f. handle_update_route_req n (NodeRequest_updateroute (generate_route_update_request (get_hash sha1 me) me port)) =
      (Send_response (me, port) (generate_route_update_response (my_hash n) f h listening_port_num), n') \<and>
    fst (fingerTable n' ! 0) = (h, listening_port_num) \<and> snd (fingerTable n' ! 0) = f \<and>
    (\<forall>i < finger_table_length.
       succ_of (insert (get_hash sha1 me) (ids w)) (ring_add (my_hash n) (2 ^ i)) (snd (fingerTable n' ! i)))"
proof -
  let ?x = "get_hash sha1 me" let ?n = "visited me ?x n"
  have ports: "\<exists>h f. fingerTable ?n ! i = ((h, listening_port_num), f) \<and>
      succ_of (insert ?x (ids w)) (ring_add (my_hash n) (2 ^ i)) f" if "i < finger_table_length" for i
    using visited_finger [OF assms(1,2) that get_hash_in_ring assms(3) refl] by metis
  have "0 < finger_table_length" by (simp add: config_simps)
  from ports [OF this] obtain h f where "fingerTable ?n ! 0 = ((h, listening_port_num), f)" by blast
  moreover have "succ_of (insert ?x (ids w)) (ring_add (my_hash n) (2 ^ i)) (snd (fingerTable ?n ! i))"
    if "i < finger_table_length" for i
    using ports [OF that] by auto
  ultimately show ?thesis
    using handle_update_route_req_visited [OF assms(1,2) get_hash_in_ring, where me = me and port = port]
    by (intro exI [of _ ?n] exI [of _ h] exI [of _ f]) simp
qed

text \<open>
  C17: The newcomer's update loop ends. From any start it visits exactly the nodes between there and
  the newcomer, once each, and stops at the predecessor of the newcomer, whose hash it returns.
\<close>

theorem update_walk_ends:
  assumes "chord_ok sha1 w" and "get_hash sha1 me \<notin> ids w" and "start \<in> dom w" and "65536 \<le> fuel"
  shows "\<exists>cur. update_walk fuel rnd me (get_hash sha1 me) w start listening_port_num =
      Inr (cur, walk_effect sha1 w me start w) \<and>
    pred_of (insert (get_hash sha1 me) (ids w)) (get_hash sha1 me) cur"
proof -
  have "\<exists>n'. w h = Some n' \<and> same_fingers n n'" if "w h = Some n" for h n
    using that by (simp add: same_fingers_def)
  then show ?thesis using update_walk_visits [OF assms(1-3), of w fuel rnd] assms(4) by blast
qed

end
