(* ===== verification/Join_Help.thy ===== *)
theory Join_Help
  imports Join_Correct
begin

text \<open>
  The responsible node's part of a join, while the newcomer is already running but not yet part
  of the circle: lookups do not notice it; the finger table sent to it is the right one for the
  circle with it, unless a node sits exactly on the start point of one of its fingers; and the
  entries of the DHT are split between the two nodes.
\<close>

section \<open>Hosts outside the circle are not noticed\<close>

lemma route_step_frame:
  assumes "me \<notin> dom w"
  shows "route_step (w, info, req) = Inl (w', info', req') \<Longrightarrow>
      route_step (w(me \<mapsto> b), info, req) = Inl (w'(me \<mapsto> b), info', req') \<and> dom w' = dom w"
    and "route_step (w, info, req) = Inr (Inr (to, rsp, w')) \<Longrightarrow>
      route_step (w(me \<mapsto> b), info, req) = Inr (Inr (to, rsp, w'(me \<mapsto> b))) \<and> dom w' = dom w"
  using assms
  by (cases info; auto simp: fun_upd_twist split: if_splits option.splits sum.splits action.splits)+

lemma run_route_frame:
  "run_rounds route_step k (w, info, req) = Some (Inr (to, rsp, w')) \<Longrightarrow> me \<notin> dom w \<Longrightarrow>
   run_rounds route_step k (w(me \<mapsto> b), info, req) = Some (Inr (to, rsp, w'(me \<mapsto> b))) \<and> dom w' = dom w"
proof (induction k arbitrary: w info req)
  case 0
  then show ?case by simp
next
  case (Suc k)
  show ?case
  proof (cases "route_step (w, info, req)")
    case (Inl s)
    then obtain v info' req' where s: "route_step (w, info, req) = Inl (v, info', req')" by (cases s) auto
    then show ?thesis
      using route_step_frame(1) [OF Suc.prems(2) s, of b] Suc.IH [of v info' req'] Suc.prems
      by (simp del: fun_upd_apply route_step.simps)
  next
    case (Inr r)
    with Suc.prems have r: "route_step (w, info, req) = Inr (Inr (to, rsp, w'))" by simp
    then show ?thesis using route_step_frame(2) [OF Suc.prems(2) r, of b] by (simp del: fun_upd_apply route_step.simps)
  qed
qed

lemma lookup_frame:
  assumes run: "lookup fuel w host h port = Inr (vars, w')" and me: "me \<notin> dom w"
  shows "lookup fuel (w(me \<mapsto> b)) host h port = Inr (vars, w'(me \<mapsto> b))" and "dom w' = dom w"
proof -
  obtain n where n: "w host = Some n" using run by (auto simp: lookup_def split: option.splits)
  then have ne: "host \<noteq> me" using me by auto
  obtain r n' where begin_: "lookup_begin n h port = Inr (r, n')"
    using run n by (auto simp: lookup_def bind_res_Inr_iff)
  have "lookup fuel (w(me \<mapsto> b)) host h port = Inr (vars, w'(me \<mapsto> b)) \<and> dom w' = dom w"
  proof (cases r)
    case (Inl a)
    then have "vars = a" "w' = w(host \<mapsto> n')" using run n begin_ by (auto simp: lookup_def)
    moreover have "dom (w(host \<mapsto> n')) = dom w" using n by auto
    ultimately show ?thesis using n ne begin_ Inl by (simp add: lookup_def fun_upd_twist)
  next
    case (Inr a)
    obtain info req where a: "a = (info, req)" by (cases a)
    obtain to rsp where rr: "run_rounds route_step fuel (w(host \<mapsto> n'), info, req) = Some (Inr (to, rsp, w'))"
      and tail: "to = (host, port)" "vars = lookup_end rsp"
      using run n begin_ Inr a
      by (auto simp: lookup_def route_def bind_res_Inr_iff split: option.splits if_splits)
    have "me \<notin> dom (w(host \<mapsto> n'))" using me ne by auto
    note frame = run_route_frame [OF rr this, of b]
    then show ?thesis
      using n ne begin_ Inr a tail by (auto simp: lookup_def route_def fun_upd_twist [OF ne])
  qed
  then show "lookup fuel (w(me \<mapsto> b)) host h port = Inr (vars, w'(me \<mapsto> b))" "dom w' = dom w" by blast+
qed

lemma lookup_successor_frame:
  assumes "lookup_successor fuel w host h port = Inr (res, w')" and "me \<notin> dom w"
  shows "lookup_successor fuel (w(me \<mapsto> b)) host h port = Inr (res, w'(me \<mapsto> b))" and "dom w' = dom w"
proof -
  obtain ex succ owner where l: "lookup fuel w host h port = Inr ((ex, succ, owner), w')"
    and r: "(case ex of None \<Rightarrow> Inl Uninit_read | Some b \<Rightarrow> Inr ((b, succ), w')) = (Inr (res, w') :: _ res)"
    using assms(1) by (auto simp: lookup_successor_def bind_res_Inr_iff split: option.splits)
  show "dom w' = dom w" using lookup_frame(2) [OF l assms(2)] .
  show "lookup_successor fuel (w(me \<mapsto> b)) host h port = Inr (res, w'(me \<mapsto> b))"
    using lookup_frame(1) [OF l assms(2), of b] r by (auto simp: lookup_successor_def split: option.splits)
qed

section \<open>The host responsible for a point\<close>

definition succ_host :: "sha \<Rightarrow> world \<Rightarrow> (digest \<Rightarrow> hostname) \<Rightarrow> bool" where
  "succ_host sha1 w f \<longleftrightarrow> (\<forall>h. f h \<in> dom w \<and> succ_of (ids w) h (get_hash sha1 (f h)))"

lemma succ_host_exists:
  assumes ok: "chord_ok sha1 w"
  obtains f where "succ_host sha1 w f"
proof -
  have "\<exists>s. s \<in> dom w \<and> succ_of (ids w) h (get_hash sha1 s)" for h
    by (rule chord_succ_exists [OF ok, of h]) (use chord_okD(5) [OF ok] in force)
  then show thesis using that unfolding succ_host_def by metis
qed

lemma succ_host_eq:
  assumes ok: "chord_ok sha1 w" and f: "succ_host sha1 w f" and h: "in_ring h"
    and s: "s \<in> dom w" "succ_of (ids w) h (get_hash sha1 s)"
  shows "s = f h"
proof (rule chord_hash_inj [OF ok s(1)])
  show "f h \<in> dom w" using f by (simp add: succ_host_def)
  show "get_hash sha1 s = get_hash sha1 (f h)"
    using f s(2) succ_of_unique [OF chord_ring_set [OF ok] h] by (simp add: succ_host_def)
qed

lemma succ_host_canon: "canon w' = canon w \<Longrightarrow> succ_host sha1 w' f \<longleftrightarrow> succ_host sha1 w f"
  using canon_ids [of w' w] canon_dom [of w' w] by (simp add: succ_host_def)

text \<open>Looking up a point from inside the circle, with a newcomer \<open>me\<close> outside it.\<close>

lemma lookup_successor_outside:
  assumes ok: "chord_ok sha1 w" and host: "host \<in> dom w" and h: "in_ring h"
    and fuel: "finger_table_length < fuel" and me: "me \<notin> dom w" and f: "succ_host sha1 w f"
  obtains ex w' where "lookup_successor fuel (w(me \<mapsto> b)) host h port =
      Inr ((ex, (f h, listening_port_num)), w'(me \<mapsto> b))"
    and "chord_ok sha1 w'" and "canon w' = canon w"
proof -
  obtain n where n: "w host = Some n" using host by auto
  obtain s m w' where s: "w s = Some m" "succ_of (ids w) h (my_hash m)"
    and l: "lookup_successor fuel w host h port = Inr ((um_find (DHT m) h \<noteq> None, (s, listening_port_num)), w')"
    and w': "chord_ok sha1 w'" "canon w' = canon w"
    using lookup_successor_spec [OF ok n h fuel] by blast
  have "s = f h"
    by (rule succ_host_eq [OF ok f h]) (use s chord_okD(5) [OF ok s(1)] in \<open>simp_all add: domI\<close>)
  then show thesis using that lookup_successor_frame(1) [OF l me] w' by blast
qed

section \<open>The finger table for the newcomer\<close>

definition finger_host :: "sha \<Rightarrow> (digest \<Rightarrow> hostname) \<Rightarrow> digest \<Rightarrow> hostname \<Rightarrow> nat \<Rightarrow> hostname" where
  "finger_host sha1 f x me i = choose_finger sha1 (ring_add x (2 ^ i)) (f (ring_add x (2 ^ i))) x me"

lemma help_join_fingers_table:
  assumes "chord_ok sha1 w" and "host \<in> dom w" and "in_ring x"
    and fuel: "finger_table_length < fuel" and "me \<notin> dom w" and "succ_host sha1 w f"
    and req: "HelpJoinRequset_newhostnamehash req = x" "HelpJoinRequset_newhostname req = me"
    and "\<forall>i \<in> set is. i < finger_table_length"
  shows "\<exists>w'. help_join_fingers sha1 fuel rnd host req is (w(me \<mapsto> b)) ft =
      Inr (ft\<lparr>rti_entry := rti_entry ft @ map (\<lambda>i. route_entry sha1 (finger_host sha1 f x me i)) is\<rparr>, w'(me \<mapsto> b)) \<and>
      chord_ok sha1 w' \<and> canon w' = canon w"
  using assms
proof (induction "is" arbitrary: w ft)
  case Nil
  then show ?case by auto
next
  case (Cons i "is")
  let ?e = "ring_add x (2 ^ i)"
  have i: "0 < (2::int) ^ i" "(2::int) ^ i < 65536" using two_power_bounds [of i] Cons.prems by auto
  obtain ex v where l: "lookup_successor fuel (w(me \<mapsto> b)) host ?e (dec (get_random_port (rnd i))) =
      Inr ((ex, (f ?e, listening_port_num)), v(me \<mapsto> b))" "chord_ok sha1 v" "canon v = canon w"
    using lookup_successor_outside [OF Cons.prems(1,2) in_ring_add fuel Cons.prems(5,6)] by blast
  let ?ft = "ft\<lparr>rti_entry := rti_entry ft @
      [route_entry sha1 (finger_host sha1 f x me i)]\<rparr>"
  obtain w' where w': "help_join_fingers sha1 fuel rnd host req is (v(me \<mapsto> b)) ?ft =
      Inr (?ft\<lparr>rti_entry := rti_entry ?ft @ map (\<lambda>i. route_entry sha1 (finger_host sha1 f x me i)) is\<rparr>, w'(me \<mapsto> b))"
    "chord_ok sha1 w'" "canon w' = canon v"
    using Cons.IH [OF l(2) _ Cons.prems(3) fuel _ _ req, of ?ft] Cons.prems(2,5,6,9)
      canon_dom [OF l(3)] succ_host_canon [OF l(3), of sha1 f] by (auto simp del: fun_upd_apply)
  have "hash_value_add x (2 ^ i) = Inr ?e"
    using i Cons.prems(3) by (simp add: hash_value_add_ring_add)
  with l w' req show ?case
    by (intro exI [of _ w']) (simp add: RouteTableInit_add_entry_def finger_host_def del: fun_upd_apply)
qed

text \<open>Every host in the table is the right one, unless a node sits on the start point.\<close>

lemma finger_host_correct:
  assumes ok: "chord_ok sha1 w" and f: "succ_host sha1 w f" and x: "get_hash sha1 me \<notin> ids w"
    and i: "i < finger_table_length" and no_hit: "ring_add (get_hash sha1 me) (2 ^ i) \<notin> ids w"
  shows "finger_host sha1 f (get_hash sha1 me) me i \<in> insert me (dom w)"
    and "succ_of (insert (get_hash sha1 me) (ids w)) (ring_add (get_hash sha1 me) (2 ^ i))
      (get_hash sha1 (finger_host sha1 f (get_hash sha1 me) me i))"
proof -
  let ?x = "get_hash sha1 me" let ?e = "ring_add ?x (2 ^ i)"
  have s: "f ?e \<in> dom w" "succ_of (ids w) ?e (get_hash sha1 (f ?e))" using f by (simp_all add: succ_host_def)
  show "finger_host sha1 f ?x me i \<in> insert me (dom w)"
    using s by (simp add: finger_host_def choose_finger_def Let_def)
  have "get_hash sha1 (f ?e) \<noteq> ?e" using s(2) no_hit by (auto dest: succ_ofD)
  moreover have "?e \<noteq> ?x"
    using cdist_ring_add [of "2 ^ i" ?x] two_power_bounds [OF i] by (metis cdist_self less_irrefl less_imp_le)
  ultimately have "succ_of (insert ?x (ids w)) ?e
      (if get_distance ?e (get_hash sha1 (f ?e)) > get_distance ?e ?x then ?x else get_hash sha1 (f ?e))"
    using x s by (intro new_finger chord_ring_set [OF ok]) auto
  then show "succ_of (insert ?x (ids w)) ?e (get_hash sha1 (finger_host sha1 f ?x me i))"
    by (simp add: finger_host_def choose_finger_def Let_def split: if_splits)
qed

section \<open>Splitting the DHT\<close>

lemma hand_over_filter:
  "hand_over h d dht ft =
     (ft\<lparr>ftb_entry := ftb_entry ft @ map (\<lambda>(k, info). file_entry k info) (filter (\<lambda>(k, _). get_distance k h > d) dht)\<rparr>,
      filter (\<lambda>(k, _). \<not> get_distance k h > d) dht)"
  by (induction h d dht ft rule: hand_over.induct) (auto simp: FileTable_add_entry_def Let_def)

lemma um_find_filter: "um_wf m \<Longrightarrow> um_find (filter (\<lambda>(k, _). P k) m) k = (if P k then um_find m k else None)"
  by (induction m) (auto simp: um_find_def um_wf_def map_of_eq_None_iff)

lemma um_wf_filter: "um_wf m \<Longrightarrow> um_wf (filter P m)"
  by (induction m) (auto simp: um_wf_def)

lemma install_files_received:
  assumes "DHT n = []" and "um_wf kvs" and "ftb_entry ft = map (\<lambda>(k, info). file_entry k info) kvs"
  obtains dht where "install_files ft n = n\<lparr>DHT := dht\<rparr>" and "um_wf dht" and "um_find dht = um_find kvs"
proof -
  let ?ins = "\<lambda>entry. um_insert (FileTableEntry_filenamehash entry)
      (FileTableEntry_ownerhostname entry, FileTableEntry_ownerport entry)"
  let ?dht = "fold ?ins (ftb_entry ft) []"
  have "install_files ft n = n\<lparr>DHT := ?dht\<rparr>"
    using fold_nth [of ?ins "ftb_entry ft"] assms(1)
    by (simp add: install_files_def FileTable_entry_def FileTable_entry_size_def Let_def)
  moreover have "?ins \<circ> (\<lambda>(k, info). file_entry k info) = (\<lambda>(k, info). um_insert k info)"
    by (auto simp: fun_eq_iff file_entry_def accessor_defs message_defs)
  then have "?dht = fold (\<lambda>(k, info). um_insert k info) kvs []" by (simp add: assms(3) fold_map)
  ultimately show thesis
    using that um.fold_insert [OF um.wf_empty, of kvs] assms(2) by (simp add: um.find_empty um_find_def fun_eq_iff)
qed

end
