(* ===== verification/Join_Theorem.thy ===== *)
theory Join_Theorem
  imports Join_Help
begin

text \<open>
  A whole join. The responsible node's answers, what the newcomer makes of them, and the theorem
  that the circle with the newcomer is complete again, together with the exact effect of the
  join on the table of published files.
\<close>

section \<open>The answers of the responsible node\<close>

definition far_entries :: "digest \<Rightarrow> node \<Rightarrow> (digest, contactInfo) umap" where
  "far_entries x r = filter (\<lambda>(k, _). get_distance k (my_hash r) > get_distance x (my_hash r)) (DHT r)"

definition near_entries :: "digest \<Rightarrow> node \<Rightarrow> (digest, contactInfo) umap" where
  "near_entries x r = filter (\<lambda>(k, _). \<not> get_distance k (my_hash r) > get_distance x (my_hash r)) (DHT r)"

definition yielding :: "digest \<Rightarrow> node \<Rightarrow> node" where
  "yielding x r = r\<lparr>DHT := near_entries x r, local_start := ring_add x 1\<rparr>"

definition join_messages :: "sha \<Rightarrow> (digest \<Rightarrow> hostname) \<Rightarrow> digest \<Rightarrow> hostname \<Rightarrow> bool \<Rightarrow> node \<Rightarrow> NodeResponse list" where
  "join_messages sha1 f x me ex r =
     [generate_help_join_response (my_hash r) (my_hostname r) listening_port_num,
      generate_routetable_init (RouteTableInit_default\<lparr>rti_entry :=
        map (\<lambda>i. route_entry sha1 (finger_host sha1 f x me i)) [0..<finger_table_length]\<rparr>),
      generate_lookup_node_response (if ex then 1 else 0) (f (ring_add x (- 32768))) listening_port_num,
      generate_filetable_response (FileTable_default\<lparr>ftb_entry :=
        map (\<lambda>(k, info). file_entry k info) (far_entries x r)\<rparr>)]"

lemma help_join_req_handle_messages:
  assumes ok: "chord_ok sha1 w" and host: "host \<in> dom w" and x: "in_ring x"
    and fuel: "finger_table_length < fuel" and me: "me \<notin> dom w" and f: "succ_host sha1 w f"
    and req: "HelpJoinRequset_newhostnamehash req = x" "HelpJoinRequset_newhostname req = me"
  obtains w' r ex where "help_join_req_handle sha1 fuel rnd (w(me \<mapsto> b)) host req =
      Inr (join_messages sha1 f x me ex r, w'(host \<mapsto> yielding x r, me \<mapsto> b))"
    and "w' host = Some r" and "chord_ok sha1 w'" and "canon w' = canon w"
proof -
  let ?t = "ring_add x (- 32768)"
  obtain n where n: "w host = Some n" using host by auto
  have ne: "host \<noteq> me" using host me by auto
  obtain w1 where w1: "help_join_fingers sha1 fuel rnd host req [0..<finger_table_length] (w(me \<mapsto> b)) RouteTableInit_default =
      Inr (RouteTableInit_default\<lparr>rti_entry :=
        map (\<lambda>i. route_entry sha1 (finger_host sha1 f x me i)) [0..<finger_table_length]\<rparr>, w1(me \<mapsto> b))"
    "chord_ok sha1 w1" "canon w1 = canon w"
    using help_join_fingers_table [OF assms, of "[0..<finger_table_length]" rnd b RouteTableInit_default]
    by (auto simp: RouteTableInit_default_def simp del: fun_upd_apply)
  have w1': "host \<in> dom w1" "me \<notin> dom w1" "succ_host sha1 w1 f"
    using host me f canon_dom [OF w1(3)] succ_host_canon [OF w1(3)] by auto
  obtain ex w2 where l: "lookup_successor fuel (w1(me \<mapsto> b)) host ?t (dec (get_random_port (rnd finger_table_length))) =
      Inr ((ex, (f ?t, listening_port_num)), w2(me \<mapsto> b))" and w2: "chord_ok sha1 w2" "canon w2 = canon w1"
    using lookup_successor_outside [OF w1(2) w1'(1) in_ring_add fuel w1'(2,3)] by blast
  obtain r where r: "w2 host = Some r" using w1'(1) canon_dom [OF w2(2)] by auto
  have c: "canon w2 = canon w" using w1(3) w2(2) by simp
  obtain n' where n': "w host = Some n'" "canon_node r = canon_node n'" using canon_sym_lookup [OF c r] by blast
  have name: "my_hostname n = my_hostname r" "my_hash n = my_hash r"
    using n n' canon_node_fields [OF n'(2)] by auto
  have add: "hash_value_add x (- 1 * 2 ^ (finger_table_length - 1)) = Inr ?t" "hash_value_add x 1 = Inr (ring_add x 1)"
    using x by (simp_all add: hash_value_add_ring_add config_simps)
  have "help_join_req_handle sha1 fuel rnd (w(me \<mapsto> b)) host req =
      Inr (join_messages sha1 f x me ex r, w2(me \<mapsto> b, host \<mapsto> yielding x r))"
    unfolding help_join_req_handle_def Let_def req w1(1)
    using n ne add l r name
    by (simp add: hand_over_filter join_messages_def far_entries_def near_entries_def yielding_def FileTable_default_def)
  then show thesis using that [OF _ r w2(1) c] by (simp add: fun_upd_twist [OF ne])
qed

section \<open>What the newcomer makes of them\<close>

text \<open>Four messages of different types received one after the other into the same object.\<close>

lemma recv_join_messages:
  assumes "ms = join_messages sha1 f x me ex r"
    and "r1 = NodeResponse_MergeFrom NodeResponse_default (ms ! 0)"
    and "r2 = NodeResponse_MergeFrom r1 (ms ! 1)"
    and "r3 = NodeResponse_MergeFrom r2 (ms ! 2)"
    and "r4 = NodeResponse_MergeFrom r3 (ms ! 3)"
  shows "recv_expect 6 NodeResponse_default ms = Inr (r1, drop 1 ms)"
    and "recv_expect 4 r1 (drop 1 ms) = Inr (r2, drop 2 ms)"
    and "rti_entry (NodeResponse_routeinit r2) =
      map (\<lambda>i. route_entry sha1 (finger_host sha1 f x me i)) [0..<finger_table_length]"
    and "recv_expect 8 r2 (drop 2 ms) = Inr (r3, drop 3 ms)"
    and "LookupNodeResponse_hostname (NodeResponse_lookupnode r3) = f (ring_add x (- 32768))"
    and "LookupNodeResponse_port (NodeResponse_lookupnode r3) = listening_port_num"
    and "recv_expect 5 r3 (drop 3 ms) = Inr (r4, [])"
    and "ftb_entry (NodeResponse_filetable r4) = map (\<lambda>(k, info). file_entry k info) (far_entries x r)"
  by (simp_all add: assms join_messages_def generator_defs accessor_defs message_defs field_merge_def sub_merge_def
      Let_def)

lemma route_entry_fields:
  "RouteTableEntry_hostname (route_entry sha1 h) = h"
  "RouteTableEntry_port (route_entry sha1 h) = listening_port_num"
  "RouteTableEntry_hostnamehash (route_entry sha1 h) = get_hash sha1 h"
  by (simp_all add: route_entry_def accessor_defs message_defs)

lemma install_table_received:
  assumes "length (fingerTable n) = finger_table_length"
    and "rti_entry t = map (\<lambda>i. route_entry sha1 (g i)) [0..<finger_table_length]"
  shows "install_table t n = Inr (n\<lparr>fingerTable :=
    map (\<lambda>i. ((g i, listening_port_num), get_hash sha1 (g i))) [0..<finger_table_length]\<rparr>)"
proof -
  let ?e = "\<lambda>i. rti_entry t ! i"
  let ?h = "\<lambda>i. ((RouteTableEntry_hostname (?e i), RouteTableEntry_port (?e i)), RouteTableEntry_hostnamehash (?e i))"
  have "fold (\<lambda>i ft. ft[i := ?h i]) [0..<finger_table_length] (fingerTable n) = map ?h [0..<finger_table_length]"
    using fold_update_nth [of finger_table_length "fingerTable n" "\<lambda>i _. ?h i"] assms(1) by simp
  also have "\<dots> = map (\<lambda>i. ((g i, listening_port_num), get_hash sha1 (g i))) [0..<finger_table_length]"
    using assms(2) by (simp add: route_entry_fields)
  finally show ?thesis
    using assms(2) by (simp add: install_table_def RouteTableInit_entry_size_def RouteTableInit_entry_def Let_def)
qed

lemma walk_effect_outside:
  "me \<notin> dom w \<Longrightarrow> walk_effect sha1 w me start (v(me \<mapsto> b)) = (walk_effect sha1 w me start v)(me \<mapsto> b)"
  by (auto simp: walk_effect_def fun_eq_iff dest: on_walk_dom)

text \<open>The newcomer after the join, and the circle around it.\<close>

definition joined :: "sha \<Rightarrow> (digest \<Rightarrow> hostname) \<Rightarrow> digest \<Rightarrow> hostname \<Rightarrow> digest \<Rightarrow> (digest, contactInfo) umap \<Rightarrow> node \<Rightarrow> node" where
  "joined sha1 f x me cur dht b = b\<lparr>fingerTable :=
       map (\<lambda>i. ((finger_host sha1 f x me i, listening_port_num), get_hash sha1 (finger_host sha1 f x me i)))
         [0..<finger_table_length],
     local_start := ring_add cur 1, DHT := dht\<rparr>"

lemma join_responses_result:
  assumes ok: "chord_ok sha1 w" and x: "get_hash sha1 me \<notin> ids w" and me: "me \<notin> dom w"
    and f: "succ_host sha1 w f"
    and b: "length (fingerTable b) = finger_table_length" "DHT b = []"
    and same: "\<And>h n. w h = Some n \<Longrightarrow> \<exists>n'. v h = Some n' \<and> same_fingers n n'"
    and wf: "um_wf (DHT r)" and fuel: "65536 \<le> fuel"
  obtains cur dht where "join_responses fuel rnd me (get_hash sha1 me) (join_messages sha1 f (get_hash sha1 me) me ex r) (v(me \<mapsto> b)) =
      Inr ((walk_effect sha1 w me (f (ring_add (get_hash sha1 me) (- 32768))) v)
             (me \<mapsto> joined sha1 f (get_hash sha1 me) me cur dht b))"
    and "pred_of (insert (get_hash sha1 me) (ids w)) (get_hash sha1 me) cur"
    and "um_wf dht" and "um_find dht = um_find (far_entries (get_hash sha1 me) r)"
proof -
  let ?x = "get_hash sha1 me" let ?start = "f (ring_add ?x (- 32768))"
  let ?ft = "map (\<lambda>i. ((finger_host sha1 f ?x me i, listening_port_num), get_hash sha1 (finger_host sha1 f ?x me i)))
         [0..<finger_table_length]"
  obtain ms r1 r2 r3 r4 where ms: "ms = join_messages sha1 f ?x me ex r"
    "r1 = NodeResponse_MergeFrom NodeResponse_default (ms ! 0)" "r2 = NodeResponse_MergeFrom r1 (ms ! 1)"
    "r3 = NodeResponse_MergeFrom r2 (ms ! 2)" "r4 = NodeResponse_MergeFrom r3 (ms ! 3)"
    by blast
  note recv = recv_join_messages [OF ms]
  let ?b1 = "b\<lparr>fingerTable := ?ft\<rparr>"
  have same1: "\<exists>n'. (v(me \<mapsto> ?b1)) h = Some n' \<and> same_fingers n n'" if "w h = Some n" for h n
    using same [OF that] that me by auto
  have start: "?start \<in> dom w" using f by (simp add: succ_host_def)
  obtain cur where walk: "update_walk fuel rnd me ?x (v(me \<mapsto> ?b1)) ?start listening_port_num =
      Inr (cur, (walk_effect sha1 w me ?start v)(me \<mapsto> ?b1))" "pred_of (insert ?x (ids w)) ?x cur"
    using update_walk_visits [OF ok x start, where v = "v(me \<mapsto> ?b1)" and rnd = rnd] same1 fuel
    unfolding walk_effect_outside [OF me] by blast
  have "cur \<in> insert ?x (ids w)" using walk(2) by (simp add: pred_of_def)
  then have cur: "hash_value_add cur 1 = Inr (ring_add cur 1)"
    using chord_ring_set [OF ok] by (auto simp: hash_value_add_ring_add dest: ring_setD)
  let ?b2 = "?b1\<lparr>local_start := ring_add cur 1\<rparr>"
  have far: "um_wf (far_entries ?x r)" using wf by (simp add: far_entries_def um_wf_filter)
  obtain dht where dht: "install_files (NodeResponse_filetable r4) ?b2 = ?b2\<lparr>DHT := dht\<rparr>" "um_wf dht"
    "um_find dht = um_find (far_entries ?x r)"
    using install_files_received [OF _ far recv(8), of ?b2] b(2) by auto
  have table: "install_table (NodeResponse_routeinit r2) b = Inr ?b1"
    using install_table_received [OF b(1) recv(3)] .
  have "join_responses fuel rnd me ?x ms (v(me \<mapsto> b)) =
      Inr ((walk_effect sha1 w me ?start v)(me \<mapsto> ?b2\<lparr>DHT := dht\<rparr>))"
    unfolding join_responses_def Let_def
    using recv walk(1) cur dht(1) table by (simp add: change_node_def)
  moreover have "?b2\<lparr>DHT := dht\<rparr> = joined sha1 f ?x me cur dht b" by (simp add: joined_def)
  ultimately show thesis using that walk(2) dht(2,3) ms(1) by simp
qed

section \<open>The circle with the newcomer\<close>

text \<open>
  The two conditions on the identifiers under which a join is right: no node sits exactly on the
  start point of a finger of the newcomer, and every node one of whose fingers should become
  the newcomer is met by the walk, which starts at the successor of the opposite point.
\<close>

definition no_exact_hit :: "digest set \<Rightarrow> digest \<Rightarrow> bool" where
  "no_exact_hit N x \<longleftrightarrow> (\<forall>i < finger_table_length. ring_add x (2 ^ i) \<notin> N)"

definition walk_covers :: "digest set \<Rightarrow> digest \<Rightarrow> bool" where
  "walk_covers N x \<longleftrightarrow> (\<forall>s. succ_of N (ring_add x (- 32768)) s \<longrightarrow>
     (\<forall>p \<in> N. \<forall>i < finger_table_length.
        succ_of (insert x N) (ring_add p (2 ^ i)) x \<longrightarrow> cdist p x \<le> cdist s x))"

definition joined_world :: "sha \<Rightarrow> world \<Rightarrow> hostname \<Rightarrow> (digest \<Rightarrow> hostname) \<Rightarrow> node \<Rightarrow> node \<Rightarrow> world" where
  "joined_world sha1 w me f r b =
     (walk_effect sha1 w me (f (ring_add (get_hash sha1 me) (- 32768)))
        (w(f (get_hash sha1 me) \<mapsto> yielding (get_hash sha1 me) r)))(me \<mapsto> b)"

lemma finger_fits:
  "finger_ok sha1 v n i \<longleftrightarrow> (\<exists>h. fingerTable n ! i = ((h, listening_port_num), get_hash sha1 h) \<and>
     h \<in> dom v \<and> succ_of (ids v) (ring_add (my_hash n) (2 ^ i)) (get_hash sha1 h))"
  by (auto simp: finger_ok_def split: prod.splits)

text \<open>An old node in the new circle.\<close>

lemma joined_world_node:
  assumes ok: "chord_ok sha1 w" and me: "me \<notin> dom w" and h: "w h = Some n" and r: "w (f (get_hash sha1 me)) = Some r"
  obtains m where "joined_world sha1 w me f r b h = Some m"
    and "my_hostname m = my_hostname n" and "my_hash m = my_hash n"
    and "fingerTable m = (if on_walk sha1 w (get_hash sha1 me) (f (ring_add (get_hash sha1 me) (- 32768))) h
           then fingerTable (visited me (get_hash sha1 me) n) else fingerTable n)"
    and "h \<noteq> f (get_hash sha1 me) \<Longrightarrow> DHT m = DHT n \<and> local_start m = local_start n"
    and "h = f (get_hash sha1 me) \<Longrightarrow> DHT m = near_entries (get_hash sha1 me) r \<and>
           local_start m = ring_add (get_hash sha1 me) 1"
proof -
  let ?x = "get_hash sha1 me"
  have ne: "h \<noteq> me" using me h by auto
  let ?m = "if h = f ?x then yielding ?x r else n"
  have *: "joined_world sha1 w me f r b h =
      Some (if on_walk sha1 w ?x (f (ring_add ?x (- 32768))) h then visited me ?x ?m else ?m)"
    using ne h by (simp add: joined_world_def walk_effect_def)
  show thesis
    by (rule that [OF *]) (use h r in \<open>auto simp: visited_def yielding_def\<close>)
qed

lemma dom_joined_world: "chord_ok sha1 w \<Longrightarrow> f (get_hash sha1 me) \<in> dom w \<Longrightarrow>
    dom (joined_world sha1 w me f r b) = insert me (dom w)"
  by (auto simp: joined_world_def walk_effect_def dom_def)

lemma ids_joined_world:
  assumes ok: "chord_ok sha1 w" and me: "me \<notin> dom w" and r: "w (f (get_hash sha1 me)) = Some r"
    and b: "my_hash b = get_hash sha1 me"
  shows "ids (joined_world sha1 w me f r b) = insert (get_hash sha1 me) (ids w)" (is "ids ?W = _")
proof -
  have "map_option my_hash (?W h) = (if h = me then Some (get_hash sha1 me) else map_option my_hash (w h))" for h
    using r b by (auto simp: joined_world_def walk_effect_def visited_def yielding_def option.map_comp o_def)
  moreover have "ids v = ran (\<lambda>h. map_option my_hash (v h))" for v by (force simp: ids_def ran_def)
  ultimately have "ids ?W = ran ((\<lambda>h. map_option my_hash (w h))(me \<mapsto> get_hash sha1 me))"
    by (simp add: fun_upd_def)
  also have "\<dots> = insert (get_hash sha1 me) (ran (\<lambda>h. map_option my_hash (w h)))"
    using me by (intro ran_map_upd) auto
  finally show ?thesis by (simp add: \<open>\<And>v. ids v = ran (\<lambda>h. map_option my_hash (v h))\<close>)
qed

lemma ring_add_zero: "in_ring h \<Longrightarrow> ring_add h 0 = h"
  by (simp add: ring_add_def in_ring_def)

lemma in_ring_node_range:
  "in_ring (my_hash n) \<Longrightarrow> in_ring (local_start n) \<Longrightarrow> node_range n"
  by (auto simp: node_range_def in_ring_def)

lemma joined_world_finger:
  assumes ok: "chord_ok sha1 w" and x: "get_hash sha1 me \<notin> ids w" and me: "me \<notin> dom w"
    and f: "succ_host sha1 w f" and covers: "walk_covers (ids w) (get_hash sha1 me)"
    and h: "w h = Some n" and i: "i < finger_table_length"
    and ft: "fingerTable m = (if on_walk sha1 w (get_hash sha1 me) (f (ring_add (get_hash sha1 me) (- 32768))) h
           then fingerTable (visited me (get_hash sha1 me) n) else fingerTable n)"
    and m: "my_hash m = my_hash n"
    and W: "dom W = insert me (dom w)" "ids W = insert (get_hash sha1 me) (ids w)"
  shows "finger_ok sha1 W m i"
proof -
  let ?x = "get_hash sha1 me" let ?s = "f (ring_add ?x (- 32768))"
  have "\<exists>k. fingerTable m ! i = ((k, listening_port_num), get_hash sha1 k) \<and> k \<in> dom W \<and>
      succ_of (ids W) (ring_add (my_hash m) (2 ^ i)) (get_hash sha1 k)"
  proof (cases "on_walk sha1 w ?x ?s h")
    case True
    obtain k g where "fingerTable (visited me ?x n) ! i = ((k, listening_port_num), g)" "g = get_hash sha1 k"
      "k = me \<and> g = ?x \<or> k \<in> dom w \<and> g \<noteq> ?x" "succ_of (insert ?x (ids w)) (ring_add (my_hash n) (2 ^ i)) g"
      using visited_finger [OF ok h i get_hash_in_ring x refl] by metis
    with True ft m W show ?thesis by auto
  next
    case False
    obtain k where k: "fingerTable n ! i = ((k, listening_port_num), get_hash sha1 k)" "k \<in> dom w"
      "succ_of (ids w) (ring_add (my_hash n) (2 ^ i)) (get_hash sha1 k)"
      using chord_okD(3) [OF ok h i] by (auto simp: finger_fits)
    have "succ_of (ids w) (ring_add ?x (- 32768)) (get_hash sha1 ?s)" using f by (simp add: succ_host_def)
    then have "\<not> succ_of (insert ?x (ids w)) (ring_add (my_hash n) (2 ^ i)) ?x"
      using covers False h i chord_okD(5) [OF ok h] my_hash_ids [of w h n, OF h]
      unfolding walk_covers_def on_walk_def by (metis domI)
    then show ?thesis using k False ft m W succ_of_insert_other [OF k(3)] by auto
  qed
  then show ?thesis by (simp add: finger_fits)
qed

lemma joined_world_start:
  assumes ok: "chord_ok sha1 w" and x: "get_hash sha1 me \<notin> ids w" and f: "succ_host sha1 w f"
    and h: "w h = Some n" and m: "my_hash m = my_hash n"
    and other: "h \<noteq> f (get_hash sha1 me) \<Longrightarrow> local_start m = local_start n"
    and resp: "h = f (get_hash sha1 me) \<Longrightarrow> local_start m = ring_add (get_hash sha1 me) 1"
    and W: "ids W = insert (get_hash sha1 me) (ids w)"
  shows "start_ok W m"
proof (cases "h = f (get_hash sha1 me)")
  case True
  let ?x = "get_hash sha1 me"
  have "succ_of (ids w) ?x (my_hash n)" using f True chord_okD(5) [OF ok h] by (simp add: succ_host_def)
  then have "pred_of (ids W) (my_hash m) ?x"
    using pred_of_new [OF chord_ring_set [OF ok] get_hash_in_ring x] W m by simp
  moreover have "node_range m" using chord_okD(7) [OF ok h] m resp [OF True] by (simp add: in_ring_node_range)
  ultimately show ?thesis
    unfolding start_ok_def resp [OF True] by (intro conjI exI [of _ ?x]) (simp_all add: ring_add_zero)
next
  case False
  let ?x = "get_hash sha1 me"
  obtain p where p: "pred_of (ids w) (my_hash n) p" "ring_add (local_start n) 0 = ring_add p 1"
    using chord_okD(2) [OF ok h] by (auto simp: start_ok_def)
  have "\<not> succ_of (ids w) ?x (my_hash n)"
    using succ_host_eq [OF ok f get_hash_in_ring, where s = h and key1 = me] False h chord_okD(5) [OF ok h] by auto
  then have "pred_of (ids W) (my_hash m) p"
    using pred_of_insert_other [OF chord_ring_set [OF ok] get_hash_in_ring x my_hash_ids [of w h n, OF h] p(1)] W m by simp
  moreover have "node_range m" using chord_okD(6) [OF ok h] m other [OF False] by (simp add: node_range_def)
  ultimately show ?thesis
    unfolding start_ok_def other [OF False] using p(2) by blast
qed

lemma joined_world_ok:
  assumes ok: "chord_ok sha1 w" and x: "get_hash sha1 me \<notin> ids w" and me: "me \<notin> dom w"
    and f: "succ_host sha1 w f" and r: "w (f (get_hash sha1 me)) = Some r"
    and hit: "no_exact_hit (ids w) (get_hash sha1 me)" and covers: "walk_covers (ids w) (get_hash sha1 me)"
    and cur: "pred_of (insert (get_hash sha1 me) (ids w)) (get_hash sha1 me) cur" and dht: "um_wf dht"
    and b: "my_hostname b = me" "my_hash b = get_hash sha1 me"
  shows "chord_ok sha1 (joined_world sha1 w me f r (joined sha1 f (get_hash sha1 me) me cur dht b))"
    (is "chord_ok sha1 ?W")
proof -
  let ?x = "get_hash sha1 me" let ?b = "joined sha1 f ?x me cur dht b"
  have b': "my_hash ?b = ?x" using b by (simp add: joined_def)
  have dom: "dom ?W = insert me (dom w)" using ok r by (intro dom_joined_world) auto
  have ids: "ids ?W = insert ?x (ids w)" using ok me r b' by (rule ids_joined_world)
  have new: "?W me = Some ?b" by (simp add: joined_world_def)
  have old: "node_id_ok sha1 h m \<and> start_ok ?W m \<and> (\<forall>i < finger_table_length. finger_ok sha1 ?W m i)"
    if "?W h = Some m" "h \<noteq> me" for h m
  proof -
    have "h \<in> dom w" using dom that by auto
    then obtain n where n: "w h = Some n" by blast
    obtain m' where m': "?W h = Some m'" "my_hostname m' = my_hostname n" "my_hash m' = my_hash n"
      "fingerTable m' = (if on_walk sha1 w ?x (f (ring_add ?x (- 32768))) h
           then fingerTable (visited me ?x n) else fingerTable n)"
      "h \<noteq> f ?x \<Longrightarrow> DHT m' = DHT n \<and> local_start m' = local_start n"
      "h = f ?x \<Longrightarrow> DHT m' = near_entries ?x r \<and> local_start m' = ring_add ?x 1"
      by (rule joined_world_node [where f = f and r = r and b = ?b, OF ok me n r]) metis
    have "m' = m" using m'(1) that by simp
    note node = chord_okD [OF ok n]
    have "um_wf (DHT m')"
      using m'(5,6) node(1) chord_okD(1) [OF ok r]
      by (cases "h = f ?x") (auto simp: node_id_ok_def near_entries_def um_wf_filter)
    then have "node_id_ok sha1 h m'" using m'(2-4) node(1) by (simp add: node_id_ok_def visited_def)
    moreover have "start_ok ?W m'"
      using joined_world_start [OF ok x f n m'(3) _ _ ids] m'(5,6) by blast
    moreover have "finger_ok sha1 ?W m' i" if "i < finger_table_length" for i
      using joined_world_finger [OF ok x me f covers n that m'(4,3) dom ids] .
    ultimately show ?thesis using \<open>m' = m\<close> by simp
  qed
  have "in_ring cur" using cur chord_ring_set [OF ok] by (auto simp: pred_of_def dest: ring_setD)
  then have start: "start_ok ?W ?b"
    using cur b' unfolding start_ok_def ids
    by (intro conjI exI [of _ cur] in_ring_node_range) (simp_all add: joined_def ring_add_zero)
  have fingers: "finger_ok sha1 ?W ?b i" if i: "i < finger_table_length" for i
    using finger_host_correct [OF ok f x i] hit i dom ids b
    by (auto simp: finger_fits joined_def no_exact_hit_def)
  have "node_id_ok sha1 me ?b" using b dht by (simp add: node_id_ok_def joined_def)
  with old start fingers new have nodes: "node_id_ok sha1 h m \<and> start_ok ?W m \<and> (\<forall>i < finger_table_length. finger_ok sha1 ?W m i)"
    if "?W h = Some m" for h m
    using that by (cases "h = me") auto
  have "inj_on (get_hash sha1) (insert me (dom w))" "finite (insert me (dom w))"
    using ok x by (auto simp: chord_ids [OF ok] chord_ok_def)
  then show ?thesis unfolding chord_ok_def dom using nodes by blast
qed

text \<open>
  The table afterwards. The two digests that are lost: the one equal to the hash of the
  responsible node is handed over although it stays its own, and the one equal to the hash of
  the newcomer is kept although it is the newcomer's.
\<close>

lemma joined_world_stored:
  assumes ok: "chord_ok sha1 w" and x: "get_hash sha1 me \<notin> ids w" and me: "me \<notin> dom w"
    and f: "succ_host sha1 w f" and r: "w (f (get_hash sha1 me)) = Some r"
    and ok': "chord_ok sha1 (joined_world sha1 w me f r b)" and b: "my_hash b = get_hash sha1 me"
    and dht: "um_find (DHT b) = um_find (far_entries (get_hash sha1 me) r)" and k: "in_ring k"
  shows "stored (joined_world sha1 w me f r b) k e \<longleftrightarrow>
    (if k = get_hash sha1 me \<or> k = my_hash r then e = None else stored w k e)"
proof -
  let ?x = "get_hash sha1 me" let ?W = "joined_world sha1 w me f r b"
  note N = chord_ring_set [OF ok]
  have ids: "ids ?W = insert ?x (ids w)" using ok me r b by (rule ids_joined_world)
  have new: "?W me = Some b" by (simp add: joined_world_def)
  have fx: "f ?x \<in> dom w" using f by (simp add: succ_host_def)
  have succ_r: "succ_of (ids w) ?x (my_hash r)" using f chord_okD(5) [OF ok r] by (simp add: succ_host_def)
  have r_in: "my_hash r \<in> ids w" "in_ring (my_hash r)" "my_hash r \<noteq> ?x"
    using succ_r N x by (auto dest: succ_ofD ring_setD)
  have wf: "um_wf (DHT r)" using chord_okD(1) [OF ok r] by (simp add: node_id_ok_def)
  have handed: "get_distance k (my_hash r) > get_distance ?x (my_hash r) \<longleftrightarrow> succ_of (insert ?x (ids w)) k ?x"
    if "succ_of (ids w) k (my_hash r)" "k \<noteq> my_hash r" "k \<noteq> ?x"
    using handover_iff [OF N get_hash_in_ring x succ_r k that] .
  have own: "get_distance (my_hash r) (my_hash r) > get_distance ?x (my_hash r)"
    using r_in cdist_range [of ?x "my_hash r"] by (simp add: get_distance_cdist)
  have self: "succ_of (insert ?x (ids w)) k s \<longleftrightarrow> s = k" if "k = ?x \<or> k = my_hash r" for s
    using that r_in succ_of_self [of k "insert ?x (ids w)"]
      succ_of_unique [OF ring_set_insert [OF N get_hash_in_ring] k] by auto
  show ?thesis
  proof (cases "succ_of (insert ?x (ids w)) k ?x")
    case True
    then have st: "stored ?W k e \<longleftrightarrow> um_find (far_entries ?x r) k = e"
      using stored_at [OF ok' k new] ids b dht by simp
    have kr: "k \<noteq> my_hash r" using True self r_in by auto
    have "succ_of (ids w) k (my_hash r)" using succ_of_before [OF N get_hash_in_ring succ_r k True] .
    then show ?thesis
      using st kr True handed stored_at [OF ok k r] wf
      by (auto simp: far_entries_def um_find_filter)
  next
    case False
    obtain h n where n: "w h = Some n" "succ_of (ids w) k (my_hash n)" using chord_succ_exists [OF ok] by blast
    obtain m where m: "?W h = Some m" "my_hash m = my_hash n"
      "h \<noteq> f ?x \<Longrightarrow> DHT m = DHT n \<and> local_start m = local_start n"
      "h = f ?x \<Longrightarrow> DHT m = near_entries ?x r \<and> local_start m = ring_add ?x 1"
      by (rule joined_world_node [where f = f and r = r and b = b, OF ok me n(1) r]) metis
    have st: "stored ?W k e \<longleftrightarrow> um_find (DHT m) k = e"
      using stored_at [OF ok' k m(1)] succ_of_insert_other [OF n(2) False] ids m(2) by simp
    have kx: "k \<noteq> ?x" using False self by auto
    show ?thesis
    proof (cases "h = f ?x")
      case True
      then have "n = r" using n r by simp
      with st m(4) True n kx handed False own stored_at [OF ok k r] wf show ?thesis
        by (auto simp: near_entries_def um_find_filter)
    next
      case other: False
      have "k \<noteq> my_hash r"
        using chord_succ_unique(1) [OF ok k n, of "f ?x" r] other r succ_of_self [OF r_in(1)] by auto
      with st m(3) [OF other] kx stored_at [OF ok k n] show ?thesis by simp
    qed
  qed
qed

section \<open>The join\<close>

lemma boot_node_fields:
  "my_hostname (boot_node sha1 entry me) = me" "my_hash (boot_node sha1 entry me) = get_hash sha1 me"
  "length (fingerTable (boot_node sha1 entry me)) = finger_table_length" "DHT (boot_node sha1 entry me) = []"
  "entryNode (boot_node sha1 entry me) = (entry, listening_port_num)"
  by (simp_all add: boot_node_def Node_ctor_def)

lemma join_chord_world:
  assumes ok: "chord_ok sha1 w" and me: "me \<notin> dom w" and x: "get_hash sha1 me \<notin> ids w"
    and entry: "entry \<in> dom w" and fuel: "finger_table_length < fuel" "65536 \<le> walk_fuel"
    and f: "succ_host sha1 w f"
  obtains w2 r cur dht where "join_chord sha1 fuel walk_fuel rnd rnd_entry rnd_respon (w(me \<mapsto> boot_node sha1 entry me)) me =
      Inr (joined_world sha1 w2 me f r (joined sha1 f (get_hash sha1 me) me cur dht (boot_node sha1 entry me)))"
    and "chord_ok sha1 w2" and "canon w2 = canon w" and "w2 (f (get_hash sha1 me)) = Some r"
    and "pred_of (insert (get_hash sha1 me) (ids w)) (get_hash sha1 me) cur"
    and "um_wf dht" and "um_find dht = um_find (far_entries (get_hash sha1 me) r)"
proof -
  let ?x = "get_hash sha1 me" let ?b = "boot_node sha1 entry me"
  let ?port = "dec (get_random_port (rnd 0))"
  let ?req = "NodeRequest_join (generate_join_request ?x me ?port)"
  let ?hj = "NodeRequest_helpjoin (generate_help_join_request ?x me ?port)"
  have in_x: "in_ring ?x" by simp
  obtain ex1 w1 where l: "lookup_successor fuel (w(me \<mapsto> ?b)) entry ?x (dec (get_random_port (rnd_entry 0))) =
      Inr ((ex1, (f ?x, listening_port_num)), w1(me \<mapsto> ?b))" and w1: "chord_ok sha1 w1" "canon w1 = canon w"
    using lookup_successor_outside [OF ok entry in_x fuel(1) me f] by blast
  have f1: "succ_host sha1 w1 f" "f ?x \<in> dom w1" "me \<notin> dom w1"
    using f me succ_host_canon [OF w1(2)] canon_dom [OF w1(2)] by (auto simp: succ_host_def)
  have hj: "HelpJoinRequset_newhostnamehash ?hj = ?x" "HelpJoinRequset_newhostname ?hj = me" by (simp_all add: received)
  obtain w2 r ex where helped: "help_join_req_handle sha1 fuel rnd_respon (w1(me \<mapsto> ?b)) (f ?x) ?hj =
      Inr (join_messages sha1 f ?x me ex r, w2(f ?x \<mapsto> yielding ?x r, me \<mapsto> ?b))"
    and r: "w2 (f ?x) = Some r" and w2: "chord_ok sha1 w2" "canon w2 = canon w1"
    using help_join_req_handle_messages [OF w1(1) f1(2) in_x fuel(1) f1(3) f1(1) hj] by metis
  have c: "canon w2 = canon w" using w1(2) w2(2) by simp
  have f2: "succ_host sha1 w2 f" "me \<notin> dom w2" "?x \<notin> ids w2"
    using f me x succ_host_canon [OF c] canon_dom [OF c] canon_ids [OF c] by simp_all
  have same: "\<exists>n'. (w2(f ?x \<mapsto> yielding ?x r)) h = Some n' \<and> same_fingers n n'" if "w2 h = Some n" for h n
    using that r by (auto simp: same_fingers_def yielding_def)
  have wf: "um_wf (DHT r)" using chord_okD(1) [OF w2(1) r] by (simp add: node_id_ok_def)
  obtain cur dht where resp: "join_responses walk_fuel (\<lambda>k. rnd (Suc k)) me ?x (join_messages sha1 f ?x me ex r)
        (w2(f ?x \<mapsto> yielding ?x r, me \<mapsto> ?b)) = Inr (joined_world sha1 w2 me f r (joined sha1 f ?x me cur dht ?b))"
    "pred_of (insert ?x (ids w2)) ?x cur" "um_wf dht" "um_find dht = um_find (far_entries ?x r)"
    unfolding joined_world_def
    using join_responses_result [where v = "w2(f ?x \<mapsto> yielding ?x r)" and rnd = "\<lambda>k. rnd (Suc k)" and ex = ex,
        OF w2(1) f2(3,2,1) boot_node_fields(3,4) same wf fuel(2)] by blast
  have entry_ok: "entry \<noteq> me" "(w(me \<mapsto> ?b)) entry \<noteq> None" using entry me by auto
  have jr: "join_req_handle fuel rnd_entry (w(me \<mapsto> ?b)) entry ?req =
      Inr (Send_request (f ?x, listening_port_num) (generate_help_join_request ?x me ?port), w1(me \<mapsto> ?b))"
    using l by (simp add: join_req_handle_def received del: fun_upd_apply)
  have "join_chord sha1 fuel walk_fuel rnd rnd_entry rnd_respon (w(me \<mapsto> ?b)) me =
      Inr (joined_world sha1 w2 me f r (joined sha1 f ?x me cur dht ?b))"
    using entry_ok jr helped resp(1)
    by (simp add: join_chord_def boot_node_fields fun_upd_same received Let_def del: fun_upd_apply)
  then show thesis using that w2(1) c r resp canon_ids [OF c] by simp
qed

lemma join_chord_result:
  assumes ok: "chord_ok sha1 w" and me: "me \<notin> dom w" and x: "get_hash sha1 me \<notin> ids w"
    and entry: "entry \<in> dom w" and fuel: "finger_table_length < fuel" "65536 \<le> walk_fuel"
    and hit: "no_exact_hit (ids w) (get_hash sha1 me)" and covers: "walk_covers (ids w) (get_hash sha1 me)"
  obtains w' where "join_chord sha1 fuel walk_fuel rnd rnd_entry rnd_respon (w(me \<mapsto> boot_node sha1 entry me)) me = Inr w'"
    and "chord_ok sha1 w'" and "dom w' = insert me (dom w)"
    and "\<And>s k e. in_ring k \<Longrightarrow> succ_of (ids w) (get_hash sha1 me) s \<Longrightarrow>
           stored w' k e \<longleftrightarrow> (if k = get_hash sha1 me \<or> k = s then e = None else stored w k e)"
proof -
  let ?x = "get_hash sha1 me"
  obtain f where f: "succ_host sha1 w f" using succ_host_exists [OF ok] .
  obtain w2 r cur dht where j: "join_chord sha1 fuel walk_fuel rnd rnd_entry rnd_respon (w(me \<mapsto> boot_node sha1 entry me)) me =
      Inr (joined_world sha1 w2 me f r (joined sha1 f ?x me cur dht (boot_node sha1 entry me)))" (is "_ = Inr ?W")
    and w2: "chord_ok sha1 w2" and c: "canon w2 = canon w" and r: "w2 (f ?x) = Some r"
    and cur: "pred_of (insert ?x (ids w)) ?x cur" and dht: "um_wf dht" "um_find dht = um_find (far_entries ?x r)"
    using join_chord_world [OF ok me x entry fuel f] by blast
  have f2: "succ_host sha1 w2 f" using f succ_host_canon [OF c] by simp
  note same = canon_ids [OF c] canon_dom [OF c]
  have ok': "chord_ok sha1 ?W"
    by (rule joined_world_ok [OF w2 _ _ f2 r])
       (use x me hit covers cur dht same in \<open>simp_all add: boot_node_fields\<close>)
  have "f ?x \<in> dom w2" using r by (rule domI)
  then have dom: "dom ?W = insert me (dom w)" using dom_joined_world [where f = f, OF w2] same by simp
  have "stored ?W k e \<longleftrightarrow> (if k = ?x \<or> k = s then e = None else stored w k e)"
    if k: "in_ring k" and s: "succ_of (ids w) ?x s" for s k e
  proof -
    have "succ_of (ids w) ?x (my_hash r)"
      using f2 chord_okD(5) [OF w2 r] same by (simp add: succ_host_def)
    then have "my_hash r = s"
      using succ_of_unique [OF chord_ring_set [OF ok] get_hash_in_ring _ s] by blast
    moreover have "stored ?W k e \<longleftrightarrow> (if k = ?x \<or> k = my_hash r then e = None else stored w2 k e)"
      by (rule joined_world_stored [OF w2 _ _ f2 r ok' _ _ k])
         (use x me same dht in \<open>simp_all add: boot_node_fields joined_def\<close>)
    ultimately show ?thesis using stored_canon [OF c] by simp
  qed
  then show thesis using that [OF j ok' dom] by blast
qed

text \<open>In particular the circle can be extended.\<close>

lemma circle_grows:
  assumes "chord_ok sha1 w" and "me \<notin> dom w" and "get_hash sha1 me \<notin> ids w" and "entry \<in> dom w"
    and "no_exact_hit (ids w) (get_hash sha1 me)" and "walk_covers (ids w) (get_hash sha1 me)"
  shows "\<exists>w'. chord_ok sha1 w' \<and> dom w' = insert me (dom w) \<and>
    (\<forall>k e. in_ring k \<and> (\<forall>k e. in_ring k \<longrightarrow> stored w k e \<longrightarrow> e = None) \<longrightarrow> stored w' k e \<longrightarrow> e = None)"
proof -
  have fuel: "finger_table_length < Suc finger_table_length" "(65536 :: nat) \<le> 65536" by simp_all
  obtain s where s: "succ_of (ids w) (get_hash sha1 me) s" using succ_of_exists [OF chord_ring_set [OF assms(1)]] by blast
  obtain w' where w': "chord_ok sha1 w'" "dom w' = insert me (dom w)"
    "\<And>s k e. in_ring k \<Longrightarrow> succ_of (ids w) (get_hash sha1 me) s \<Longrightarrow>
       stored w' k e \<longleftrightarrow> (if k = get_hash sha1 me \<or> k = s then e = None else stored w k e)"
    by (rule join_chord_result [OF assms(1-4) fuel assms(5,6)]) (rule that)
  have "e = None" if "in_ring k" "\<forall>k e. in_ring k \<longrightarrow> stored w k e \<longrightarrow> e = None" "stored w' k e" for k e
    using w'(3) [OF that(1) s, of e] that by (auto split: if_splits)
  with w'(1,2) show ?thesis by blast
qed

section \<open>When the conditions fail\<close>

text \<open>
  A node that is not responsible for a digest and whose hop for it is the node itself sends the
  request to itself for ever.
\<close>

lemma self_hop_route:
  "w p = Some n \<Longrightarrow> node_range n \<Longrightarrow> in_ring h \<Longrightarrow> \<not> owns n h \<Longrightarrow>
   get_next_hop_info n h = Inr (p, listening_port_num) \<Longrightarrow>
   LookupFileRequest_filenamehash (NodeRequest_lookup req) = h \<Longrightarrow>
   run_rounds route_step k (w, (p, listening_port_num), req) = None"
proof (induction k arbitrary: w n req)
  case 0
  then show ?case by simp
next
  case (Suc k)
  obtain ls where r: "is_responsible_to n h = (owns n h, n\<lparr>local_start := ls\<rparr>)"
    "ring_add ls 0 = ring_add (local_start n) 0" "node_range (n\<lparr>local_start := ls\<rparr>)"
    using Suc.prems(2,3) by (rule is_responsible_to_cases)
  let ?n = "n\<lparr>local_start := ls\<rparr>"
  let ?req = "generate_lookup_request_copy (NodeRequest_lookup req)"
  have "\<not> owns ?n h" using Suc.prems(4) r(2) by (simp add: owns_def)
  then have "run_rounds route_step k (w(p \<mapsto> ?n), (p, listening_port_num), ?req) = None"
    using Suc.prems r by (intro Suc.IH [of _ ?n]) (simp_all add: get_next_hop_info_start received)
  then show ?case
    using Suc.prems r by (simp add: lookup_req_handle_def get_next_hop_info_start del: fun_upd_apply)
qed

lemma self_hop_lookup:
  assumes n: "w p = Some n" "node_range n" and h: "in_ring h" "\<not> owns n h"
    and hop: "get_next_hop_info n h = Inr (p, listening_port_num)"
  shows "lookup fuel w p h port = Inl Out_of_fuel"
proof -
  obtain ls where r: "is_responsible_to n h = (owns n h, n\<lparr>local_start := ls\<rparr>)"
    "ring_add ls 0 = ring_add (local_start n) 0" "node_range (n\<lparr>local_start := ls\<rparr>)"
    using n(2) h(1) by (rule is_responsible_to_cases)
  let ?n = "n\<lparr>local_start := ls\<rparr>" let ?req = "generate_lookup_request h (my_hostname n) port"
  have "\<not> owns ?n h" using h(2) r(2) by (simp add: owns_def)
  then have "run_rounds route_step fuel (w(p \<mapsto> ?n), (p, listening_port_num), ?req) = None"
    using r h hop by (intro self_hop_route [where n = ?n and h = h]) (simp_all add: get_next_hop_info_start received)
  then show ?thesis
    using n r h hop by (simp add: lookup_def lookup_begin_def route_def get_next_hop_info_start del: fun_upd_apply)
qed

lemma joined_new_node:
  assumes ok: "chord_ok sha1 w" and me: "me \<notin> dom w" and r: "w (f (get_hash sha1 me)) = Some r"
    and cur: "pred_of (insert (get_hash sha1 me) (ids w)) (get_hash sha1 me) cur"
    and b: "my_hash b = get_hash sha1 me"
    and W: "W = joined_world sha1 w me f r (joined sha1 f (get_hash sha1 me) me cur dht b)"
  shows "W me = Some (joined sha1 f (get_hash sha1 me) me cur dht b)"
    and "start_ok W (joined sha1 f (get_hash sha1 me) me cur dht b)"
    and "ids W = insert (get_hash sha1 me) (ids w)"
proof -
  let ?x = "get_hash sha1 me" let ?b = "joined sha1 f ?x me cur dht b"
  have b': "my_hash ?b = ?x" using b by (simp add: joined_def)
  show "W me = Some ?b" by (simp add: W joined_world_def)
  show ids: "ids W = insert ?x (ids w)" unfolding W using ok me r b' by (rule ids_joined_world)
  have "in_ring cur" using cur chord_ring_set [OF ok] by (auto simp: pred_of_def dest: ring_setD)
  then show "start_ok W ?b"
    using cur b' unfolding start_ok_def ids
    by (intro conjI exI [of _ cur] in_ring_node_range) (simp_all add: joined_def ring_add_zero)
qed

lemma self_finger_lookup:
  assumes W: "ring_set (ids W)" "W p = Some m" "start_ok W m" and m: "my_hostname m = p"
    "length (fingerTable m) = finger_table_length"
    and h: "in_ring h" "\<not> succ_of (ids W) h (my_hash m)"
    and self: "fst (fingerTable m ! ilog2 (nat (cdist (my_hash m) h))) = (p, listening_port_num)"
  shows "lookup fuel W p h port = Inl Out_of_fuel"
proof -
  have id: "my_hash m \<in> ids W" using W(2) by (rule my_hash_ids)
  then have "in_ring (my_hash m)" using W(1) by (auto dest: ring_setD)
  moreover have "h \<noteq> my_hash m" using h(2) id succ_of_self by blast
  ultimately have "get_next_hop_info m h = Inr (p, listening_port_num)"
    using get_next_hop_info_finger(1) [OF _ h(1) _ m(2)] self by simp
  moreover have "\<not> owns m h" using owns_succ [OF W(1,3) id h(1)] h(2) by blast
  moreover have "node_range m" using W(3) by (simp add: start_ok_def)
  ultimately show ?thesis using W(2) h(1) by (intro self_hop_lookup)
qed

text \<open>
  A node the walk does not meet keeps its finger. If it was its own finger at the position that
  leads to the newcomer, its lookups for the newcomer's own digest never return.
\<close>

lemma join_misses_node:
  assumes ok: "chord_ok sha1 w" and me: "me \<notin> dom w" and x: "get_hash sha1 me \<notin> ids w"
    and entry: "entry \<in> dom w" and fuel: "finger_table_length < fuel" "65536 \<le> walk_fuel"
    and s: "succ_of (ids w) (ring_add (get_hash sha1 me) (- 32768)) s"
    and p: "p \<in> dom w" "cdist s (get_hash sha1 me) < cdist (get_hash sha1 p) (get_hash sha1 me)"
    and self: "succ_of (ids w) (ring_add (get_hash sha1 p)
        (2 ^ ilog2 (nat (cdist (get_hash sha1 p) (get_hash sha1 me))))) (get_hash sha1 p)"
  obtains w' where "join_chord sha1 fuel walk_fuel rnd rnd_entry rnd_respon (w(me \<mapsto> boot_node sha1 entry me)) me = Inr w'"
    and "\<And>k port. lookup k w' p (get_hash sha1 me) port = Inl Out_of_fuel"
proof -
  let ?x = "get_hash sha1 me" let ?i = "ilog2 (nat (cdist (get_hash sha1 p) ?x))"
  obtain f where f: "succ_host sha1 w f" using succ_host_exists [OF ok] .
  obtain w2 r cur dht where j: "join_chord sha1 fuel walk_fuel rnd rnd_entry rnd_respon (w(me \<mapsto> boot_node sha1 entry me)) me =
      Inr (joined_world sha1 w2 me f r (joined sha1 f ?x me cur dht (boot_node sha1 entry me)))" (is "_ = Inr ?W")
    and w2: "chord_ok sha1 w2" and c: "canon w2 = canon w" and r: "w2 (f ?x) = Some r"
    and cur: "pred_of (insert ?x (ids w)) ?x cur"
    by (rule join_chord_world [where rnd = rnd and rnd_entry = rnd_entry and rnd_respon = rnd_respon,
          OF ok me x entry fuel f])
  note same = canon_ids [OF c] canon_dom [OF c]
  have f2: "succ_host sha1 w2 f" using f succ_host_canon [OF c] by simp
  have me2: "me \<notin> dom w2" and x2: "?x \<notin> ids w2" using me x same by simp_all
  have ids: "ids ?W = insert ?x (ids w2)"
    by (rule ids_joined_world [where f = f, OF w2 me2 r]) (simp add: joined_def boot_node_fields)
  note N = chord_ring_set [OF ok] and N2 = chord_ring_set [OF w2]
  obtain n where n: "w2 p = Some n" using p(1) same by auto
  have hash: "my_hash n = get_hash sha1 p" using chord_okD(5) [OF w2 n] .
  have off: "\<not> on_walk sha1 w2 ?x (f (ring_add ?x (- 32768))) p"
    using p f succ_of_unique [OF N in_ring_add s, of "get_hash sha1 (f (ring_add ?x (- 32768)))"]
    by (simp add: on_walk_def succ_host_def)
  obtain m where m: "?W p = Some m" "my_hostname m = my_hostname n" "my_hash m = my_hash n"
    "fingerTable m = fingerTable n"
    "p \<noteq> f ?x \<Longrightarrow> DHT m = DHT n \<and> local_start m = local_start n"
    "p = f ?x \<Longrightarrow> DHT m = near_entries ?x r \<and> local_start m = ring_add ?x 1"
    by (rule joined_world_node [where f = f and r = r and b = "joined sha1 f ?x me cur dht (boot_node sha1 entry me)",
          OF w2 me2 n r]) (use off in metis)
  have start: "start_ok ?W m"
    using joined_world_start [OF w2 x2 f2 n m(3) _ _ ids] m(5,6) by blast
  have ne: "my_hash m \<noteq> ?x" using my_hash_ids [of w2 p n, OF n] x2 m(3) by auto
  have pos: "0 < cdist (get_hash sha1 p) ?x"
    using cdist_range(1) [of s ?x] p(2) by linarith
  then have i: "?i < finger_table_length"
    using cdist_range [of "get_hash sha1 p" ?x] by (intro ilog2_less) (auto simp: config_simps)
  obtain k where k: "fingerTable n ! ?i = ((k, listening_port_num), get_hash sha1 k)" "k \<in> dom w2"
    "succ_of (ids w2) (ring_add (my_hash n) (2 ^ ?i)) (get_hash sha1 k)"
    using chord_okD(3) [OF w2 n i] by (auto simp: finger_fits)
  have "get_hash sha1 k = get_hash sha1 p"
    using succ_of_unique [OF N2 in_ring_add k(3)] self same hash by simp
  then have "k = p" using chord_hash_inj [OF w2 k(2)] n by auto
  then have "lookup fuel' ?W p ?x port = Inl Out_of_fuel" for fuel' port
    using ring_set_insert [OF N2 get_hash_in_ring] ids start m k(1) hash ne chord_okD(4,8) [OF w2 n]
      succ_of_self [of ?x "insert ?x (ids w2)"] succ_of_unique [of "insert ?x (ids w2)" ?x ?x "my_hash m"]
    by (intro self_finger_lookup [where m = m]) auto
  with j that show thesis by blast
qed

text \<open>A node exactly on the start point of a finger of the newcomer: the finger is the newcomer.\<close>

lemma join_exact_hit:
  assumes ok: "chord_ok sha1 w" and me: "me \<notin> dom w" and x: "get_hash sha1 me \<notin> ids w"
    and entry: "entry \<in> dom w" and fuel: "finger_table_length < fuel" "65536 \<le> walk_fuel"
    and hit: "i < finger_table_length" "ring_add (get_hash sha1 me) (2 ^ i) \<in> ids w"
  obtains w' where "join_chord sha1 fuel walk_fuel rnd rnd_entry rnd_respon (w(me \<mapsto> boot_node sha1 entry me)) me = Inr w'"
    and "\<And>k port. lookup k w' me (ring_add (get_hash sha1 me) (2 ^ i)) port = Inl Out_of_fuel"
proof -
  let ?x = "get_hash sha1 me" let ?e = "ring_add ?x (2 ^ i)"
  obtain f where f: "succ_host sha1 w f" using succ_host_exists [OF ok] .
  obtain w2 r cur dht where j: "join_chord sha1 fuel walk_fuel rnd rnd_entry rnd_respon (w(me \<mapsto> boot_node sha1 entry me)) me =
      Inr (joined_world sha1 w2 me f r (joined sha1 f ?x me cur dht (boot_node sha1 entry me)))" (is "_ = Inr ?W")
    and w2: "chord_ok sha1 w2" and c: "canon w2 = canon w" and r: "w2 (f ?x) = Some r"
    and cur: "pred_of (insert ?x (ids w)) ?x cur"
    by (rule join_chord_world [where rnd = rnd and rnd_entry = rnd_entry and rnd_respon = rnd_respon,
          OF ok me x entry fuel f])
  let ?b = "joined sha1 f ?x me cur dht (boot_node sha1 entry me)"
  note same = canon_ids [OF c] canon_dom [OF c]
  have me2: "me \<notin> dom w2" and cur2: "pred_of (insert ?x (ids w2)) ?x cur" using me cur same by simp_all
  note new = joined_new_node [where f = f and r = r, OF w2 me2 r cur2 boot_node_fields(2) refl]
  note N = chord_ring_set [OF ok] chord_ring_set [OF w2]
  have d: "cdist ?x ?e = 2 ^ i" using two_power_bounds [OF hit(1)] by (simp add: cdist_ring_add)
  then have ne: "?e \<noteq> ?x" by auto
  have log: "ilog2 (nat (2 ^ i)) = i" using ilog2_exact [of i] by (simp add: nat_power_eq)
  have "get_hash sha1 (f ?e) = ?e"
    using f succ_of_unique [OF N(1) in_ring_add _ succ_of_self [OF hit(2)]] by (auto simp: succ_host_def)
  then have self: "finger_host sha1 f ?x me i = me"
    using new_finger_exact_hit [of ?e ?x] ne by (simp add: finger_host_def choose_finger_def Let_def)
  have e: "?e \<in> ids ?W" using new(3) hit(2) same by simp
  have "lookup fuel' ?W me ?e port = Inl Out_of_fuel" for fuel' port
    using ring_set_insert [OF N(2) get_hash_in_ring] new ne d log self hit(1) e boot_node_fields
      succ_of_unique [of "ids ?W" ?e ?e ?x] succ_of_self [OF e]
    by (intro self_finger_lookup [where m = ?b]) (auto simp: joined_def)
  with j that show thesis by blast
qed

end
