(* ===== verification/Network_Properties.thy ===== *)
theory Network_Properties
  imports Join_Theorem
begin

text \<open>
  The properties of the running network: routing, publishing and joining, stated over whole
  worlds, with the ways in which a join leaves a node that can no longer look up another. A
  small network serves as the concrete instance: host A alone, then B joining it.
\<close>

section \<open>A small network\<close>

definition demo_sha1 :: sha where
  "demo_sha1 s = (if s = hash_input ''A'' then [1, 0] else if s = hash_input ''B'' then [20, 100]
     else if s = hash_input ''C'' then [33, 100] else if s = hash_input ''D'' then [0, 2]
     else if s = hash_input ''F'' then [20, 7] else [200, 7]) @ replicate 18 0"

lemma demo_hashes [simp]:
  "get_hash demo_sha1 ''A'' = 10" "get_hash demo_sha1 ''B'' = 20100" "get_hash demo_sha1 ''C'' = 33100"
  "get_hash demo_sha1 ''D'' = 2" "get_hash demo_sha1 ''F'' = 207"
  by code_simp+

definition demo_one :: world where
  "demo_one = (case initial_chord (boot_node demo_sha1 [] ''A'') of Inr n \<Rightarrow> [''A'' \<mapsto> n] | Inl _ \<Rightarrow> Map.empty)"

lemma demo_one_ok: "chord_ok demo_sha1 demo_one" "dom demo_one = {''A''}" "ids demo_one = {10}"
  "\<exists>n. demo_one ''A'' = Some n \<and> DHT n = []"
proof -
  obtain n where n: "initial_chord (boot_node demo_sha1 [] ''A'') = Inr n" "chord_ok demo_sha1 [''A'' \<mapsto> n]" "DHT n = []"
    using initial_chord_world by blast
  then have d: "demo_one = [''A'' \<mapsto> n]" by (simp add: demo_one_def)
  then show "chord_ok demo_sha1 demo_one" "\<exists>n. demo_one ''A'' = Some n \<and> DHT n = []"
    using n(2,3) by (simp_all add: d)
  show "dom demo_one = {''A''}" by (simp add: d)
  then show "ids demo_one = {10}" using chord_ids [OF \<open>chord_ok demo_sha1 demo_one\<close>] by simp
qed

lemma demo_one_empty: "in_ring h \<Longrightarrow> stored demo_one h None"
proof -
  assume h: "in_ring h"
  obtain n where n: "demo_one ''A'' = Some n" "DHT n = []" using demo_one_ok(4) by blast
  have "my_hash n = 10" using chord_okD(5) [OF demo_one_ok(1) n(1)] by simp
  then show ?thesis
    using stored_at [OF demo_one_ok(1) h n(1)] n(2) by (simp add: demo_one_ok(3) succ_of_singleton um.find_empty)
qed

text \<open>The same host with one entry in its DHT.\<close>

definition demo_entry :: "digest \<Rightarrow> contactInfo \<Rightarrow> world" where
  "demo_entry h info = demo_one(''A'' \<mapsto> (the (demo_one ''A''))\<lparr>DHT := [(h, info)]\<rparr>)"

lemma demo_entry_ok: "chord_ok demo_sha1 (demo_entry h info)" "dom (demo_entry h info) = {''A''}"
  "ids (demo_entry h info) = {10}" "stored (demo_entry h info) h (Some info)"
  "\<exists>n. demo_entry h info ''A'' = Some n"
proof -
  obtain n where n: "demo_one ''A'' = Some n" using demo_one_ok(4) by blast
  let ?n = "n\<lparr>DHT := [(h, info)]\<rparr>"
  have e: "demo_entry h info = demo_one(''A'' \<mapsto> ?n)" by (simp add: demo_entry_def n)
  note upd = chord_ok_upd [where n' = ?n, OF demo_one_ok(1) n]
  have range: "node_range ?n" using chord_okD(6) [OF demo_one_ok(1) n] by (simp add: node_range_def)
  show ok: "chord_ok demo_sha1 (demo_entry h info)" "ids (demo_entry h info) = {10}"
    unfolding e using upd range demo_one_ok(3) by (simp_all add: um_wf_def)
  show "dom (demo_entry h info) = {''A''}" using demo_one_ok(2) by (simp add: e)
  show "\<exists>n. demo_entry h info ''A'' = Some n" by (simp add: e)
  have "my_hash ?n = 10" using chord_okD(5) [OF demo_one_ok(1) n] by simp
  then show "stored (demo_entry h info) h (Some info)"
    unfolding stored_def ok(2) by (intro exI [of _ "''A''"] exI [of _ ?n]) (simp add: e um_find_def succ_of_singleton)
qed

text \<open>Host B joins.\<close>

lemma demo_covers: "walk_covers {10} x"
  by (auto simp: walk_covers_def succ_of_def)

lemma demo_no_hit: "no_exact_hit {10} 20100"
  unfolding no_exact_hit_def list_all_upt [symmetric] by code_simp

lemma demo_two_exists:
  obtains w a b where "chord_ok demo_sha1 w" and "w ''A'' = Some a" and "w ''B'' = Some b"
    and "dom w = {''A'', ''B''}" and "ids w = {10, 20100}"
    and "\<And>k. in_ring k \<Longrightarrow> stored w k None"
proof -
  have pre: "''B'' \<notin> dom demo_one" "get_hash demo_sha1 ''B'' \<notin> ids demo_one" "''A'' \<in> dom demo_one"
    "no_exact_hit (ids demo_one) (get_hash demo_sha1 ''B'')" "walk_covers (ids demo_one) (get_hash demo_sha1 ''B'')"
    by (simp_all add: demo_one_ok demo_covers demo_no_hit)
  have none: "\<forall>k e. in_ring k \<longrightarrow> stored demo_one k e \<longrightarrow> e = None"
    using demo_one_empty stored_unique [OF demo_one_ok(1)] by blast
  obtain w where w: "chord_ok demo_sha1 w" "dom w = insert ''B'' (dom demo_one)"
    and empty: "\<forall>k e. in_ring k \<and> (\<forall>k e. in_ring k \<longrightarrow> stored demo_one k e \<longrightarrow> e = None) \<longrightarrow> stored w k e \<longrightarrow> e = None"
    using circle_grows [OF demo_one_ok(1) pre] by (elim exE conjE) (rule that)
  have stored: "stored w k None" if k: "in_ring k" for k
  proof -
    obtain e where "stored w k e" using stored_total [OF w(1)] by blast
    with empty none k show ?thesis by metis
  qed
  from w(2) have d: "dom w = {''A'', ''B''}" unfolding demo_one_ok(2) by (simp only: insert_commute)
  then have "''A'' \<in> dom w" "''B'' \<in> dom w" by simp_all
  then obtain a b where ab: "w ''A'' = Some a" "w ''B'' = Some b" unfolding dom_def by blast
  have ids: "ids w = {10, 20100}" unfolding chord_ids [OF w(1)] d by simp
  show thesis by (rule that [OF w(1) ab d ids stored])
qed

section \<open>Routing\<close>

text \<open>
  C2: In a complete circle, looking a digest up from any node returns, within
  \<open>finger_table_length\<close> hops, the answer of the one node that is the successor of the digest:
  whether it has an entry, its own address and the owner. The circle stays complete, and the
  nodes are the same up to the representation of \<open>local_start\<close>.
\<close>

theorem lookup_finds_successor:
  assumes "chord_ok sha1 w" and "w me = Some n" and "in_ring h" and "finger_table_length < fuel"
  shows "\<exists>s m w'. w s = Some m \<and> succ_of (ids w) h (my_hash m) \<and>
    lookup fuel w me h port = Inr (answer_vars m h, w') \<and> chord_ok sha1 w' \<and> canon w' = canon w"
  using assms by (rule lookup_reaches)

lemma lookup_finds_successor_witness:
  "\<exists>w s m w'. ids w = {10, 20100} \<and> w s = Some m \<and> succ_of (ids w) 33100 (my_hash m) \<and>
    lookup 17 w ''B'' 33100 ''5000'' = Inr (answer_vars m 33100, w') \<and> chord_ok demo_sha1 w' \<and> canon w' = canon w"
proof -
  obtain w b where w: "chord_ok demo_sha1 w" "w ''B'' = Some b" "ids w = {10, 20100}" by (rule demo_two_exists)
  have "in_ring 33100" "finger_table_length < 17" by (simp_all add: in_ring_def config_simps)
  from lookup_finds_successor [OF w(1,2) this] w(3) show ?thesis by metis
qed

text \<open>
  C3: The nodes of a complete circle implement one table: looking a digest up from any node
  returns what the table holds for it (the flag, and the owner when there is one), and does not
  change the table.
\<close>

theorem lookup_reads_table:
  assumes "chord_ok sha1 w" and "w me = Some n" and "in_ring h" and "finger_table_length < fuel"
    and "stored w h r"
  shows "\<exists>s w'. lookup fuel w me h port = Inr (vars_of s r, w') \<and> (\<forall>k e. stored w' k e = stored w k e)"
proof -
  obtain s m w' where *: "w s = Some m" "succ_of (ids w) h (my_hash m)"
    "lookup fuel w me h port = Inr (vars_of s (um_find (DHT m) h), w')" "canon w' = canon w"
    using lookup_spec [OF assms(1-4)] by blast
  have "um_find (DHT m) h = r" using stored_at [OF assms(1,3) *(1,2)] assms(5) by simp
  with * stored_canon [OF *(4)] show ?thesis by auto
qed

lemma lookup_reads_table_witness:
  "\<exists>s w'. lookup 17 (demo_entry 207 (''Z'', ''1'')) ''A'' 207 ''5000'' = Inr (vars_of s (Some (''Z'', ''1'')), w') \<and>
    (\<forall>k e. stored w' k e = stored (demo_entry 207 (''Z'', ''1'')) k e)"
proof -
  obtain n where n: "demo_entry 207 (''Z'', ''1'') ''A'' = Some n" using demo_entry_ok(5) by blast
  have "in_ring 207" "finger_table_length < 17" by (simp_all add: in_ring_def config_simps)
  then show ?thesis using lookup_reads_table [OF demo_entry_ok(1) n _ _ demo_entry_ok(4)] by blast
qed

text \<open>
  C15: In a complete circle exactly one host considers itself responsible for a digest.
\<close>

theorem one_responsible_host:
  assumes ok: "chord_ok sha1 w" and h: "in_ring h"
  shows "\<exists>!s. \<exists>m. w s = Some m \<and> fst (is_responsible_to m h)"
proof -
  have iff: "fst (is_responsible_to m h) \<longleftrightarrow> succ_of (ids w) h (my_hash m)" if "w s = Some m" for s m
    using is_responsible_to_owns [OF chord_okD(6) [OF ok that] h] chord_owns [OF ok that h] by simp
  obtain s m where "w s = Some m" "succ_of (ids w) h (my_hash m)" using chord_succ_exists [OF ok] by blast
  then show ?thesis using iff chord_succ_unique(1) [OF ok h] by blast
qed

lemma one_responsible_host_witness:
  "\<exists>w. ids w = {10, 20100} \<and> (\<exists>!s. \<exists>m. w s = Some m \<and> fst (is_responsible_to m 15000))"
proof -
  obtain w where w: "chord_ok demo_sha1 w" "ids w = {10, 20100}" by (rule demo_two_exists)
  have "in_ring 15000" by (simp add: in_ring_def)
  from one_responsible_host [OF w(1) this] w(2) show ?thesis by (intro exI [of _ w] conjI)
qed

section \<open>Joining\<close>

text \<open>
  The first node, started with no node to contact, makes a complete circle of itself with an
  empty table, and is responsible for every digest.
\<close>

theorem initial_chord_complete:
  "\<exists>n. initial_chord (boot_node sha1 contact me) = Inr n \<and> chord_ok sha1 [me \<mapsto> n] \<and>
       DHT n = [] \<and> (\<forall>h. in_ring h \<longrightarrow> owns n h)"
  by (rule initial_chord_world)

lemma initial_chord_complete_witness:
  "\<exists>n. initial_chord (boot_node demo_sha1 ''0.0.0.0'' ''A'') = Inr n \<and> owns n 207"
proof -
  have "in_ring 207" by (simp add: in_ring_def)
  then show ?thesis using initial_chord_complete [of demo_sha1 "''0.0.0.0''" "''A''"] by blast
qed

text \<open>
  C1: A new node with a hash of its own joins a complete circle through any of its nodes: the
  whole exchange of messages ends, and the circle with the newcomer is complete again. All
  entries of the table stay reachable, but for the two digests equal to the hash of the
  newcomer and of the node that was responsible for it. The conditions: no node sits exactly on
  the start of a finger of the newcomer, and the walk meets every node one of whose fingers
  should become the newcomer.
\<close>

theorem join_chord_completes:
  assumes "chord_ok sha1 w" and "me \<notin> dom w" and "get_hash sha1 me \<notin> ids w" and "entry \<in> dom w"
    and "finger_table_length < fuel" and "65536 \<le> walk_fuel"
    and "no_exact_hit (ids w) (get_hash sha1 me)" and "walk_covers (ids w) (get_hash sha1 me)"
  shows "\<exists>w'. join_chord sha1 fuel walk_fuel rnd rnd_entry rnd_respon (w(me \<mapsto> boot_node sha1 entry me)) me = Inr w' \<and>
    chord_ok sha1 w' \<and> dom w' = insert me (dom w) \<and>
    (\<forall>k e. in_ring k \<and> k \<noteq> get_hash sha1 me \<and> \<not> succ_of (ids w) (get_hash sha1 me) k \<longrightarrow>
       stored w' k e = stored w k e)"
proof -
  obtain s where s: "succ_of (ids w) (get_hash sha1 me) s" using succ_of_exists [OF chord_ring_set [OF assms(1)]] by blast
  obtain w' where w': "join_chord sha1 fuel walk_fuel rnd rnd_entry rnd_respon (w(me \<mapsto> boot_node sha1 entry me)) me = Inr w'"
    "chord_ok sha1 w'" "dom w' = insert me (dom w)"
    "\<And>s k e. in_ring k \<Longrightarrow> succ_of (ids w) (get_hash sha1 me) s \<Longrightarrow>
       stored w' k e \<longleftrightarrow> (if k = get_hash sha1 me \<or> k = s then e = None else stored w k e)"
    by (rule join_chord_result [OF assms, of rnd rnd_entry rnd_respon]) blast
  then show ?thesis using s by (intro exI [of _ w']) auto
qed

lemma join_chord_completes_witness:
  "\<exists>w'. join_chord demo_sha1 17 65536 (\<lambda>_. 0) (\<lambda>_. 0) (\<lambda>_. 0)
      ((demo_entry 207 (''A'', ''5000''))(''B'' \<mapsto> boot_node demo_sha1 ''A'' ''B'')) ''B'' = Inr w' \<and>
    chord_ok demo_sha1 w' \<and> stored w' 207 (Some (''A'', ''5000''))"
proof -
  let ?w = "demo_entry 207 (''A'', ''5000'')"
  have pre: "''B'' \<notin> dom ?w" "get_hash demo_sha1 ''B'' \<notin> ids ?w" "''A'' \<in> dom ?w"
    "finger_table_length < 17" "(65536 :: nat) \<le> 65536"
    "no_exact_hit (ids ?w) (get_hash demo_sha1 ''B'')" "walk_covers (ids ?w) (get_hash demo_sha1 ''B'')"
    by (simp_all add: demo_entry_ok demo_covers demo_no_hit config_simps)
  have "in_ring 207" by (simp add: in_ring_def)
  moreover have "\<not> succ_of (ids ?w) (get_hash demo_sha1 ''B'') 207" by (auto simp: demo_entry_ok succ_of_def)
  ultimately show ?thesis
    using join_chord_completes [OF demo_entry_ok(1) pre, of "\<lambda>_. 0" "\<lambda>_. 0" "\<lambda>_. 0"] demo_entry_ok(4) [of 207]
    by auto
qed

text \<open>
  C14: The two digests a join loses: an entry under the hash of the node that was responsible for
  the newcomer is handed to the newcomer although it stays that node's, and one under the hash
  of the newcomer is kept although it is the newcomer's. Nobody finds either afterwards. This is so for
  the joins that leave the circle complete: no node sits exactly on the start of a finger of the newcomer,
  and the update walk covers the nodes it has to.
\<close>

theorem join_chord_loses:
  assumes "chord_ok sha1 w" and "me \<notin> dom w" and "get_hash sha1 me \<notin> ids w" and "entry \<in> dom w"
    and "finger_table_length < fuel" and "65536 \<le> walk_fuel"
    and "no_exact_hit (ids w) (get_hash sha1 me)" and "walk_covers (ids w) (get_hash sha1 me)"
    and "k = get_hash sha1 me \<or> succ_of (ids w) (get_hash sha1 me) k"
  shows "\<exists>w'. join_chord sha1 fuel walk_fuel rnd rnd_entry rnd_respon (w(me \<mapsto> boot_node sha1 entry me)) me = Inr w' \<and>
    stored w' k None"
proof -
  obtain s where s: "succ_of (ids w) (get_hash sha1 me) s" using succ_of_exists [OF chord_ring_set [OF assms(1)]] by blast
  have "in_ring k" using assms(9) chord_ring_set [OF assms(1)] by (auto dest: succ_ofD ring_setD)
  moreover obtain w' where w': "join_chord sha1 fuel walk_fuel rnd rnd_entry rnd_respon (w(me \<mapsto> boot_node sha1 entry me)) me = Inr w'"
    "\<And>s k e. in_ring k \<Longrightarrow> succ_of (ids w) (get_hash sha1 me) s \<Longrightarrow>
       stored w' k e \<longleftrightarrow> (if k = get_hash sha1 me \<or> k = s then e = None else stored w k e)"
    by (rule join_chord_result [OF assms(1-8), of rnd rnd_entry rnd_respon]) blast
  ultimately have "stored w' k None" 
    using w'(2) [OF _ s, of k None] w'(2) [of k k None] assms(9) by (elim disjE) auto
  with w'(1) show ?thesis by blast
qed

lemma join_chord_loses_witness:
  "stored (demo_entry 10 (''A'', ''5000'')) 10 (Some (''A'', ''5000'')) \<and>
   (\<exists>w'. join_chord demo_sha1 17 65536 (\<lambda>_. 0) (\<lambda>_. 0) (\<lambda>_. 0)
      ((demo_entry 10 (''A'', ''5000''))(''B'' \<mapsto> boot_node demo_sha1 ''A'' ''B'')) ''B'' = Inr w' \<and> stored w' 10 None)"
proof -
  let ?w = "demo_entry 10 (''A'', ''5000'')"
  have pre: "''B'' \<notin> dom ?w" "get_hash demo_sha1 ''B'' \<notin> ids ?w" "''A'' \<in> dom ?w"
    "finger_table_length < 17" "(65536 :: nat) \<le> 65536"
    "no_exact_hit (ids ?w) (get_hash demo_sha1 ''B'')" "walk_covers (ids ?w) (get_hash demo_sha1 ''B'')"
    by (simp_all add: demo_entry_ok demo_covers demo_no_hit config_simps)
  have k: "10 = get_hash demo_sha1 ''B'' \<or> succ_of (ids ?w) (get_hash demo_sha1 ''B'') 10"
    by (simp add: demo_entry_ok succ_of_singleton)
  show ?thesis
    using join_chord_loses [OF demo_entry_ok(1) pre k, of "\<lambda>_. 0" "\<lambda>_. 0" "\<lambda>_. 0"] demo_entry_ok(4)
    by (intro conjI) simp_all
qed

text \<open>
  C12: The update walk starts at the successor of the point opposite to the newcomer, so that a
  node further away is not visited. If that node's finger towards the newcomer was the node
  itself, a lookup of the newcomer's digest started there never ends: the node sends the
  request to itself for ever, whatever the number of rounds allowed. A third node joining a
  circle of two is enough.
\<close>

theorem join_misses_node_livelock:
  assumes "chord_ok sha1 w" and "me \<notin> dom w" and "get_hash sha1 me \<notin> ids w" and "entry \<in> dom w"
    and "finger_table_length < fuel" and "65536 \<le> walk_fuel"
    and "succ_of (ids w) (ring_add (get_hash sha1 me) (- 32768)) s"
    and "p \<in> dom w" and "cdist s (get_hash sha1 me) < cdist (get_hash sha1 p) (get_hash sha1 me)"
    and "succ_of (ids w) (ring_add (get_hash sha1 p)
        (2 ^ ilog2 (nat (cdist (get_hash sha1 p) (get_hash sha1 me))))) (get_hash sha1 p)"
  shows "\<exists>w'. join_chord sha1 fuel walk_fuel rnd rnd_entry rnd_respon (w(me \<mapsto> boot_node sha1 entry me)) me = Inr w' \<and>
    (\<forall>rounds port. lookup rounds w' p (get_hash sha1 me) port = Inl Out_of_fuel)"
  by (rule join_misses_node [OF assms, of rnd rnd_entry rnd_respon]) blast

lemma join_misses_node_livelock_witness:
  "\<exists>w w'. ids w = {10, 20100} \<and>
    join_chord demo_sha1 17 65536 (\<lambda>_. 0) (\<lambda>_. 0) (\<lambda>_. 0) (w(''C'' \<mapsto> boot_node demo_sha1 ''A'' ''C'')) ''C'' = Inr w' \<and>
    (\<forall>rounds port. lookup rounds w' ''A'' (get_hash demo_sha1 ''C'') port = Inl Out_of_fuel)"
proof -
  obtain w where w: "chord_ok demo_sha1 w" "dom w = {''A'', ''B''}" "ids w = {10, 20100}" by (rule demo_two_exists)
  have log: "ilog2 33090 = 15" by (rule ilog2_eqI) simp_all
  have dist: "ring_add 33100 (- 32768) = 332" "ring_add 10 32768 = 32778"
    "cdist 332 10 = 65214" "cdist 332 20100 = 19768" "cdist 20100 33100 = 13000" "cdist 10 33100 = 33090"
    "cdist 32778 10 = 32768" "cdist 32778 20100 = 52858"
    by (simp_all add: ring_add_def cdist_def)
  have pre: "''C'' \<notin> dom w" "get_hash demo_sha1 ''C'' \<notin> ids w" "''A'' \<in> dom w"
    "finger_table_length < 17" "(65536 :: nat) \<le> 65536"
    "succ_of (ids w) (ring_add (get_hash demo_sha1 ''C'') (- 32768)) 20100"
    "''A'' \<in> dom w" "cdist 20100 (get_hash demo_sha1 ''C'') < cdist (get_hash demo_sha1 ''A'') (get_hash demo_sha1 ''C'')"
    "succ_of (ids w) (ring_add (get_hash demo_sha1 ''A'')
        (2 ^ ilog2 (nat (cdist (get_hash demo_sha1 ''A'') (get_hash demo_sha1 ''C''))))) (get_hash demo_sha1 ''A'')"
    by (simp_all add: w(2,3) succ_of_def log dist config_simps)
  obtain w' where "join_chord demo_sha1 17 65536 (\<lambda>_. 0) (\<lambda>_. 0) (\<lambda>_. 0)
      (w(''C'' \<mapsto> boot_node demo_sha1 ''A'' ''C'')) ''C'' = Inr w' \<and>
    (\<forall>rounds port. lookup rounds w' ''A'' (get_hash demo_sha1 ''C'') port = Inl Out_of_fuel)"
    using join_misses_node_livelock [OF w(1) pre, of "\<lambda>_. 0" "\<lambda>_. 0" "\<lambda>_. 0"] ..
  with w(3) show ?thesis by (intro exI [of _ w] exI [of _ w'] conjI) simp_all
qed

text \<open>
  C13: If a node sits exactly on the start of a finger of the newcomer, the responsible node puts
  the newcomer itself into that finger (the distance of a point to itself counts as a whole
  turn). The newcomer's lookups for that node's digest then never end.
\<close>

theorem join_exact_hit_livelock:
  assumes "chord_ok sha1 w" and "me \<notin> dom w" and "get_hash sha1 me \<notin> ids w" and "entry \<in> dom w"
    and "finger_table_length < fuel" and "65536 \<le> walk_fuel"
    and "i < finger_table_length" and "ring_add (get_hash sha1 me) (2 ^ i) \<in> ids w"
  shows "\<exists>w'. join_chord sha1 fuel walk_fuel rnd rnd_entry rnd_respon (w(me \<mapsto> boot_node sha1 entry me)) me = Inr w' \<and>
    (\<forall>rounds port. lookup rounds w' me (ring_add (get_hash sha1 me) (2 ^ i)) port = Inl Out_of_fuel)"
  by (rule join_exact_hit [OF assms, of rnd rnd_entry rnd_respon]) blast

lemma join_exact_hit_livelock_witness:
  "\<exists>w'. join_chord demo_sha1 17 65536 (\<lambda>_. 0) (\<lambda>_. 0) (\<lambda>_. 0)
      (demo_one(''D'' \<mapsto> boot_node demo_sha1 ''A'' ''D'')) ''D'' = Inr w' \<and>
    (\<forall>rounds port. lookup rounds w' ''D'' (ring_add (get_hash demo_sha1 ''D'') (2 ^ 3)) port = Inl Out_of_fuel)"
proof (rule join_exact_hit_livelock)
  show "chord_ok demo_sha1 demo_one" by (rule demo_one_ok)
qed (simp_all add: demo_one_ok config_simps ring_add_def)

section \<open>Publishing and withdrawing on the small network\<close>

lemma share_file_publishes_witness:
  "\<exists>w w'. ids w = {10, 20100} \<and> share_file demo_sha1 (\<lambda>_ _. True) 17 w ''A'' ''F'' = Inr w' \<and> chord_ok demo_sha1 w'"
proof -
  obtain w a where w: "chord_ok demo_sha1 w" "w ''A'' = Some a" "ids w = {10, 20100}" by (rule demo_two_exists)
  have "\<exists>w'. share_file demo_sha1 (\<lambda>_ _. True) 17 w ''A'' ''F'' = Inr w' \<and> chord_ok demo_sha1 w'"
    using share_file_publishes [OF w(1,2), of 17 "\<lambda>_ _. True" "''F''"]
    by (auto simp: config_simps file_exist_def handler_file_ok_def)
  then show ?thesis using w(3) by (elim exE conjE) (intro exI conjI)
qed

lemma unshare_file_withdraws_witness:
  "\<exists>w'. unshare_file demo_sha1 (\<lambda>_ _. True) 17 (demo_entry 207 (''A'', ''5000'')) ''A'' ''F'' = Inr w' \<and> stored w' 207 None"
proof -
  obtain n where n: "demo_entry 207 (''A'', ''5000'') ''A'' = Some n" using demo_entry_ok(5) by blast
  have pre: "finger_table_length < 17"
    "stored (demo_entry 207 (''A'', ''5000'')) (get_hash demo_sha1 ''F'') (Some (''A'', ''5000''))"
    by (simp_all add: config_simps demo_entry_ok)
  have "in_ring 207" by (simp add: in_ring_def)
  then show ?thesis
    using unshare_file_withdraws [OF demo_entry_ok(1) n pre, of "\<lambda>_ _. True"] by auto
qed

lemma delete_unknown_exits_witness: "delete_file demo_sha1 17 demo_one ''A'' ''F'' ''5000'' = Inl Exit_failure"
proof -
  obtain n where n: "demo_one ''A'' = Some n" using demo_one_ok(4) by blast
  have "finger_table_length < 17" "stored demo_one (get_hash demo_sha1 ''F'') None"
    by (simp_all add: config_simps demo_one_empty in_ring_def)
  then show ?thesis by (rule delete_unknown_exits [OF demo_one_ok(1) n])
qed

lemma delete_foreign_ignored_witness:
  "\<exists>w'. delete_file demo_sha1 17 (demo_entry 207 (''Z'', ''1'')) ''A'' ''F'' ''5000'' = Inr (None, w') \<and>
    canon w' = canon (demo_entry 207 (''Z'', ''1''))"
proof -
  obtain n where n: "demo_entry 207 (''Z'', ''1'') ''A'' = Some n" using demo_entry_ok(5) by blast
  show ?thesis
    by (rule delete_foreign_ignored [OF demo_entry_ok(1) n, of 17 "''F''" "''Z''" "''1''"])
       (simp_all add: config_simps demo_entry_ok)
qed

section \<open>Update requests on the small network\<close>

lemma update_request_corrects_fingers_witness:
  "\<exists>n n' h f. demo_one ''A'' = Some n \<and>
    handle_update_route_req n (NodeRequest_updateroute (generate_route_update_request (get_hash demo_sha1 ''B'') ''B'' ''5001'')) =
      (Send_response (''B'', ''5001'') (generate_route_update_response (my_hash n) f h listening_port_num), n')"
proof -
  obtain n where n: "demo_one ''A'' = Some n" using demo_one_ok(4) by blast
  have "get_hash demo_sha1 ''B'' \<notin> ids demo_one" by (simp add: demo_one_ok)
  from update_request_corrects_fingers [OF demo_one_ok(1) n this, of "''5001''"] n show ?thesis
    by (elim exE conjE) (intro exI conjI)
qed

lemma update_walk_ends_witness:
  "\<exists>cur. update_walk 65536 (\<lambda>_. 0) ''B'' (get_hash demo_sha1 ''B'') demo_one ''A'' listening_port_num =
      Inr (cur, walk_effect demo_sha1 demo_one ''B'' ''A'' demo_one) \<and>
    pred_of (insert (get_hash demo_sha1 ''B'') (ids demo_one)) (get_hash demo_sha1 ''B'') cur"
proof (rule update_walk_ends [OF demo_one_ok(1)])
  show "get_hash demo_sha1 ''B'' \<notin> ids demo_one" "''A'' \<in> dom demo_one" by (simp_all add: demo_one_ok)
qed simp

end
