(* ===== verification/Download_Correct.thy ===== *)
theory Download_Correct
  imports Download Network_Properties
begin

text \<open>
  A download delivers the file: the requester saves what the owner has, for every length from 1 to the
  largest an \<open>int\<close> can hold and every segmentation whose first segment carries the whole length. The
  other lengths and segmentations, for which it does not, are treated with the properties.
\<close>

section \<open>The length\<close>

lemma le_bytes_length [simp]: "length (le_bytes v) = 4"
  by (simp add: le_bytes_def)

lemma unat_byte_of_nat: "unat (word_of_nat n :: byte) = n mod 256"
  by (simp add: unat_of_nat take_bit_eq_mod)

lemma base_256: "(n :: nat) < 256 ^ 4 \<Longrightarrow>
    n mod 256 + 256 * (n div 256 mod 256 + 256 * (n div 256 ^ 2 mod 256 + 256 * (n div 256 ^ 3 mod 256))) = n"
proof -
  assume n: "n < 256 ^ 4"
  have "n div 256 ^ 3 mod 256 = n div 256 ^ 3" using n by (simp add: div_less_iff_less_mult)
  moreover have "n div 256 ^ 2 mod 256 + 256 * (n div 256 ^ 3) = n div 256 ^ 2"
    using mod_mult_div_eq [of "n div 256 ^ 2" 256] by (simp add: div_mult2_eq [symmetric])
  moreover have "n div 256 mod 256 + 256 * (n div 256 ^ 2) = n div 256"
    using mod_mult_div_eq [of "n div 256" 256] by (simp add: div_mult2_eq [symmetric])
  moreover have "n mod 256 + 256 * (n div 256) = n" by (rule mod_mult_div_eq)
  ultimately show ?thesis by simp
qed

lemma le_bytes_four: "le_bytes v =
    [word_of_nat (unat v), word_of_nat (unat v div 256), word_of_nat (unat v div 256 ^ 2), word_of_nat (unat v div 256 ^ 3)]"
  by (simp add: le_bytes_def upt_rec)

lemma le_word_bytes: "le_word (le_bytes v) = v"
proof -
  have "unat v < 2 ^ LENGTH(32)" by (rule unsigned_less)
  then have "unat v < 256 ^ 4" by simp
  moreover have "unat (ucast v :: byte) = unat v mod 256"
    using unat_byte_of_nat [of "unat v"] by simp
  ultimately have "foldr (\<lambda>b n. unat b + 256 * n) (le_bytes v) 0 = unat v"
    using base_256 [of "unat v"] by (simp add: le_bytes_four unat_byte_of_nat)
  then show ?thesis by (simp add: le_word_def)
qed

section \<open>The owner's loop\<close>

lemma file_pieces_concat: "len \<le> int (length content) \<Longrightarrow> concat (file_pieces len content) = take (nat len) content"
proof (induction len content rule: file_pieces.induct)
  case (1 len content)
  show ?case
  proof (cases "len > 0")
    case True
    let ?n = "min (int MAX_LENGTH) len"
    have n: "0 < ?n" "?n \<le> len" using True by (auto simp: MAX_LENGTH_def)
    have "concat (file_pieces (len - ?n) (drop (nat ?n) content)) = take (nat (len - ?n)) (drop (nat ?n) content)"
      using 1 True n by (intro "1.IH") auto
    moreover have "nat len = nat ?n + nat (len - ?n)" using n by simp
    ultimately show ?thesis
      using True by (subst file_pieces.simps) (simp add: Let_def take_add)
  next
    case False
    then show ?thesis by (simp add: file_pieces.simps)
  qed
qed

lemma file_pieces_sizes: "piece \<in> set (file_pieces len content) \<Longrightarrow> length piece \<le> MAX_LENGTH"
proof (induction len content rule: file_pieces.induct)
  case (1 len content)
  show ?case
  proof (cases "len > 0")
    case True
    have "piece = take (nat (min (int MAX_LENGTH) len)) content \<or>
        piece \<in> set (file_pieces (len - min (int MAX_LENGTH) len) (drop (nat (min (int MAX_LENGTH) len)) content))"
      using 1(2) True by (subst (asm) file_pieces.simps) (auto simp: Let_def)
    then show ?thesis using 1(1) [OF True refl] by auto
  next
    case False
    with 1(2) show ?thesis by (simp add: file_pieces.simps)
  qed
qed

text \<open>A blocking \<open>send\<close> that takes the whole buffer.\<close>

definition sends_whole :: "(nat \<Rightarrow> int) \<Rightarrow> nat \<Rightarrow> byte list list \<Rightarrow> bool" where
  "sends_whole rets i bufs \<longleftrightarrow> (\<forall>j < length bufs. rets (i + j) = int (length (bufs ! j)))"

lemma send_all_whole: "sends_whole rets i bufs \<Longrightarrow> send_all rets i bufs = Inr (concat bufs)"
proof (induction rets i bufs rule: send_all.induct)
  case (2 rets i buf bufs)
  have ret: "rets i = int (length buf)" using 2(2) by (force simp: sends_whole_def)
  have "rets (Suc i + j) = int (length (bufs ! j))" if "j < length bufs" for j
    using 2(2) that unfolding sends_whole_def by (metis Suc_less_eq add_Suc_shift length_Cons nth_Cons_Suc)
  then have "send_all rets (Suc i) bufs = Inr (concat bufs)"
    using "2.IH" [of buf] ret by (simp add: sends_whole_def socketSendMsg_def)
  with ret show ?case by (simp add: socketSendMsg_def)
qed simp

section \<open>The requester's loop\<close>

lemma recv_content_all:
  "[] \<notin> set segs \<Longrightarrow> int (length (concat segs)) = len \<Longrightarrow> recv_content len segs acc = Inr (acc @ concat segs)"
proof (induction len segs acc rule: recv_content.induct)
  case (1 len segs acc)
  show ?case
  proof (cases "len > 0")
    case True
    then have "concat segs \<noteq> []" using 1(3) by auto
    then obtain msg segs' where r: "socketRecvMsg segs = Inr (msg, segs')" "[] \<notin> set segs'"
      "msg @ concat segs' = concat segs"
      using socketRecvMsg_ok [OF 1(2)] by metis
    have "length (concat segs) = length msg + length (concat segs')" by (simp flip: r(3))
    then have "recv_content (len - int (length msg)) segs' (acc @ msg) = Inr ((acc @ msg) @ concat segs')"
      using 1(3) by (intro "1.IH" [OF True r(1) refl r(2)]) simp
    with True r show ?thesis by (subst recv_content.simps) simp
  next
    case False
    then have "concat segs = []" using 1(3) by (metis length_greater_0_conv of_nat_0_less_iff)
    with False show ?thesis by (simp add: recv_content.simps)
  qed
qed


text \<open>A segmentation of a stream, whose first segment carries the whole length.\<close>

definition cuts :: "byte list \<Rightarrow> segments \<Rightarrow> bool" where
  "cuts stream segs \<longleftrightarrow> concat segs = stream \<and> [] \<notin> set segs \<and> (stream = [] \<or> 4 \<le> length (hd segs))"

lemma cuts_recv_4:
  assumes "cuts (header @ body) segs" and "length header = 4"
  obtains segs' where "recv 4 segs = (header, segs')" and "[] \<notin> set segs'" and "concat segs' = body"
proof -
  obtain s rest where segs: "segs = s # rest" "4 \<le> length s"
    using assms by (cases segs) (auto simp: cuts_def)
  have "s @ concat rest = header @ body" using assms(1) segs by (simp add: cuts_def)
  then have "take 4 (s @ concat rest) = header" "drop 4 (s @ concat rest) = body"
    using assms(2) by simp_all
  with segs(2) have h: "take 4 s = header" "drop 4 s @ concat rest = body" by simp_all
  show thesis
    by (rule that [of "if length s \<le> 4 then rest else drop 4 s # rest"])
       (use assms(1) segs h in \<open>auto simp: cuts_def\<close>)
qed

text \<open>A file without a byte is announced with the length 0, which the requester takes for an error.\<close>

lemma download_end_receives:
  assumes "cuts (le_bytes v @ content) segs" and "int (length content) = sint v"
  shows "download_end segs = Inr (if content = [] then Transfer_error else Saved content)"
proof -
  obtain segs' where r: "recv 4 segs = (le_bytes v, segs')" "[] \<notin> set segs'" "concat segs' = content"
    using cuts_recv_4 [OF assms(1)] by auto
  have "sint v = 0 \<longleftrightarrow> content = []" using assms(2) by auto
  moreover have "recv_content (sint v) segs' [] = Inr content"
    using recv_content_all [OF r(2)] r(3) assms(2) by simp
  ultimately show ?thesis using r(1) by (simp add: download_end_def le_word_bytes Let_def)
qed

lemma sint_length: "n < 2 ^ 31 \<Longrightarrow> sint (word_of_nat n :: 32 word) = int n"
  by (simp add: signed_of_nat signed_take_bit_int_eq_self)

section \<open>Across two nodes\<close>

lemma download_begin_owner:
  assumes ok: "chord_ok sha1 w" and n: "w me = Some n" and fuel: "finger_table_length < fuel"
    and owner: "stored w (get_hash sha1 filename) (Some (owner, port))" "owner \<noteq> me"
    and asked: "files (''./download_file/'' @ filename) = None \<or> option = ''y''"
  obtains w' where "download_begin sha1 fuel files w me filename option =
      Inr (Inr ((owner, port), generate_download_request (get_hash sha1 filename) me user_interface_port_num), w')"
    and "canon w' = canon w"
proof -
  let ?h = "get_hash sha1 filename"
  obtain s m w' where s: "w s = Some m" "succ_of (ids w) ?h (my_hash m)"
    and l: "lookup fuel w me ?h user_interface_port_num = Inr (vars_of s (um_find (DHT m) ?h), w')"
    and w': "chord_ok sha1 w'" "canon w' = canon w"
    using lookup_spec [OF ok n get_hash_in_ring fuel] by blast
  have entry: "um_find (DHT m) ?h = Some (owner, port)" using owner(1) stored_at [OF ok get_hash_in_ring s] by simp
  obtain n' where n': "w' me = Some n'" using canon_lookup [OF w'(2) n] by blast
  have "my_hostname n' = me" using chord_okD(4) [OF w'(1) n'] .
  with l entry n' asked owner(2) have "download_begin sha1 fuel files w me filename option =
      Inr (Inr ((owner, port), generate_download_request ?h me user_interface_port_num), w')"
    by (auto simp: download_begin_def vars_of_def Let_def)
  then show thesis using that w'(2) by blast
qed

definition transfer_stream :: "byte list \<Rightarrow> byte list" where
  "transfer_stream content = le_bytes (word_of_nat (length content)) @ content"

definition transfer_buffers :: "byte list \<Rightarrow> byte list list" where
  "transfer_buffers content = le_bytes (word_of_nat (length content)) # file_pieces (int (length content)) content"

lemma download_owner:
  assumes ok: "chord_ok sha1 w" and n: "w me = Some n" and fuel: "finger_table_length < fuel"
    and owner: "stored w (get_hash sha1 filename) (Some (owner, listening_port_num))" "owner \<noteq> me" "w owner = Some m"
    and local: "um_find (localFiles m) (get_hash sha1 filename) = Some name"
    and content: "files owner (''./shared_file/'' @ name) = Some content" "length content < 2 ^ 31"
    and asked: "files me (''./download_file/'' @ filename) = None \<or> option = ''y''"
    and sent: "sends_whole rets 0 (transfer_buffers content)" and seg: "cuts (transfer_stream content) (seg (transfer_stream content))"
  shows "\<exists>w'. download sha1 fuel files rets seg w me filename option =
    Inr (if content = [] then Transfer_error else Saved content, w') \<and> canon w' = canon w"
proof -
  let ?h = "get_hash sha1 filename" let ?v = "word_of_nat (length content) :: 32 word"
  obtain w' where b: "download_begin sha1 fuel (files me) w me filename option =
      Inr (Inr ((owner, listening_port_num), generate_download_request ?h me user_interface_port_num), w')"
    and c: "canon w' = canon w"
    using download_begin_owner [where files = "files me" and option = option, OF ok n fuel owner(1,2) asked] by blast
  obtain m' where m': "w' owner = Some m'" "canon_node m' = canon_node m" using canon_lookup [OF c owner(3)] by blast
  have v: "sint ?v = int (length content)" using sint_length [OF content(2)] .
  let ?req = "NodeRequest_download (generate_download_request ?h me user_interface_port_num)"
  have handler: "download_req_handle (files owner) m' ?req = ((me, user_interface_port_num), transfer_buffers content)"
    using local content(1) canon_node_fields(5) [OF m'(2)] v
    by (simp add: download_req_handle_def received transfer_buffers_def Let_def)
  have "concat (transfer_buffers content) = transfer_stream content"
    by (simp add: transfer_buffers_def transfer_stream_def file_pieces_concat)
  then have "send_all rets 0 (transfer_buffers content) = Inr (transfer_stream content)"
    using send_all_whole [OF sent] by simp
  moreover have "download_end (seg (transfer_stream content)) = Inr (if content = [] then Transfer_error else Saved content)"
    using download_end_receives [OF seg [unfolded transfer_stream_def [of content]]] v by (simp add: transfer_stream_def)
  ultimately show ?thesis
    using b c m'(1) handler by (auto simp: download_def received)
qed

section \<open>Properties\<close>

text \<open>
  C6: In a complete circle, downloading a file that the table attributes to another node, which has it
  with fewer than 2^31 bytes: the lookup finds the owner, and the requester saves exactly the owner's
  file, provided that every \<open>send\<close> of the owner takes its whole buffer and that the first segment the
  requester sees carries the four bytes of the length; the rest may be cut in any way. A file without
  a byte is reported as an error.
\<close>

theorem download_delivers:
  assumes "chord_ok sha1 w" and "w me = Some n" and "finger_table_length < fuel"
    and "stored w (get_hash sha1 filename) (Some (owner, listening_port_num))" and "owner \<noteq> me" and "w owner = Some m"
    and "um_find (localFiles m) (get_hash sha1 filename) = Some name"
    and "files owner (''./shared_file/'' @ name) = Some content" and "length content < 2 ^ 31"
    and "files me (''./download_file/'' @ filename) = None \<or> option = ''y''"
    and "sends_whole rets 0 (transfer_buffers content)" and "cuts (transfer_stream content) (seg (transfer_stream content))"
  shows "\<exists>w'. download sha1 fuel files rets seg w me filename option =
    Inr (if content = [] then Transfer_error else Saved content, w') \<and> canon w' = canon w"
  using assms by (rule download_owner)

text \<open>
  C7: Sharing and then downloading: after any node has published a file nobody had published, any
  other node's download of it gives the content of the publisher's file, if that has fewer than 2^31
  bytes (an empty one is reported as an error). The host responsible for the digest, when it is not the
  publisher, must pass its own check of a file; every \<open>send\<close> takes its whole buffer, and the first segment
  carries the four bytes of the length.
\<close>

theorem share_then_download:
  assumes "chord_ok sha1 w" and "w owner = Some m" and "w me = Some n" and "owner \<noteq> me" and "finger_table_length < fuel"
    and "stored w (get_hash sha1 filename) None"
    and "\<And>h. disks h = (\<lambda>path. files h path \<noteq> None)"
    and "\<And>s m. w s = Some m \<Longrightarrow> s \<noteq> owner \<Longrightarrow> succ_of (ids w) (get_hash sha1 filename) (my_hash m) \<Longrightarrow>
      handler_file_ok disks s m (get_hash sha1 filename)"
    and "files owner (''./shared_file/'' @ filename) = Some content" and "length content < 2 ^ 31"
    and "files me (''./download_file/'' @ filename) = None \<or> option = ''y''"
    and "sends_whole rets 0 (transfer_buffers content)" and "cuts (transfer_stream content) (seg (transfer_stream content))"
  shows "\<exists>w1 w2. share_file sha1 disks fuel w owner filename = Inr w1 \<and>
    download sha1 fuel files rets seg w1 me filename option =
      Inr (if content = [] then Transfer_error else Saved content, w2)"
proof -
  have here: "file_exist (disks owner) filename" using assms(7,9) by (simp add: file_exist_def)
  obtain w1 m1 where w1: "share_file sha1 disks fuel w owner filename = Inr w1" "chord_ok sha1 w1"
    "\<And>k r. in_ring k \<Longrightarrow> stored w1 k r \<longleftrightarrow>
       (if k = get_hash sha1 filename \<and> stored w k None then r = Some (owner, listening_port_num) else stored w k r)"
    "dom w1 = dom w" "w1 owner = Some m1" "um_find (localFiles m1) (get_hash sha1 filename) = Some filename"
    using share_file_result [OF assms(1,2,5) here assms(8)] by blast
  have "me \<in> dom w1" unfolding w1(4) using assms(3) by (rule domI)
  then obtain n1 where n1: "w1 me = Some n1" unfolding dom_def by blast
  have "stored w1 (get_hash sha1 filename) (Some (owner, listening_port_num))" using w1(3) assms(6) by simp
  from download_owner [where files = files and seg = seg and option = option and rets = rets,
      OF w1(2) n1 assms(5) this assms(4) w1(5,6) assms(9-13)] w1(1)
  show ?thesis by blast
qed

text \<open>
  C30: The length travels as an \<open>int\<close>: for a file of 2 GiB or more, below 4 GiB, the owner announces the
  length less 2^32, which is negative, and sends nothing else. A requester that receives these four bytes in one
  segment, whatever follows them, reports success with an empty file.
\<close>

theorem download_large_empty:
  assumes "2 ^ 31 \<le> length content" and "length content < 2 ^ 32"
    and "um_find (localFiles n) (DownloadRequest_filenamehash req) = Some name"
    and "files (''./shared_file/'' @ name) = Some content"
  shows "\<exists>len. download_req_handle files n req =
      ((DownloadRequest_sourcehostname req, DownloadRequest_sourceport req), [le_bytes len]) \<and>
    sint len = int (length content) - 2 ^ 32 \<and> sint len < 0 \<and>
    (\<forall>segs. download_end (le_bytes len # segs) = Inr (Saved []))"
proof -
  let ?v = "word_of_nat (length content) :: 32 word"
  have v: "sint ?v = int (length content) - 2 ^ 32"
  proof -
    have "(int (length content) + 2147483648) mod 4294967296 = (int (length content) - 2147483648) mod 4294967296"
      using mod_add_self2 [of "int (length content) - 2147483648" 4294967296] by (simp add: algebra_simps)
    also have "\<dots> = int (length content) - 2147483648" using assms(1,2) by simp
    finally show ?thesis
      using assms(1,2) by (simp add: signed_of_nat signed_take_bit_int_eq_self_iff [symmetric]
          signed_take_bit_eq_take_bit_shift take_bit_eq_mod)
  qed
  then have neg: "sint ?v < 0" using assms(2) by simp
  then have "download_end (le_bytes ?v # segs) = Inr (Saved [])" for segs
    by (simp add: download_end_def le_word_bytes recv_content.simps Let_def)
  moreover have "download_req_handle files n req =
      ((DownloadRequest_sourcehostname req, DownloadRequest_sourceport req), [le_bytes ?v])"
    using assms(3,4) neg by (simp add: download_req_handle_def file_pieces.simps Let_def)
  ultimately show ?thesis using v neg by (intro exI [of _ ?v] conjI allI)
qed

text \<open>
  The length is read with a single \<open>recv\<close> whose result is not looked at. When only its first
  byte has arrived and is zero (any length divisible by 256), the requester reports an error
  although the owner sends the file.
\<close>

theorem download_split_length:
  assumes "length content mod 256 = 0"
  shows "download_end (take 1 (transfer_stream content) # drop 1 (transfer_stream content) # segs) = Inr Transfer_error"
proof -
  have "take 1 (transfer_stream content) = [word_of_nat (unat (word_of_nat (length content) :: 32 word))]"
    by (simp add: transfer_stream_def le_bytes_four)
  also have "\<dots> = [0]"
  proof -
    have "unat (word_of_nat (unat (word_of_nat (length content) :: 32 word)) :: byte) = 0"
      using assms by (simp add: unat_byte_of_nat unat_of_nat take_bit_eq_mod mod_mod_cancel)
    then show ?thesis by (simp only: unat_eq_0)
  qed
  finally show ?thesis by (simp add: download_end_def le_word_def)
qed


section \<open>The small network again\<close>

lemma demo_transfer:
  "sends_whole (\<lambda>j. if j = 0 then 4 else 3) 0 (transfer_buffers [1, 2, 3])"
  "cuts (transfer_stream [1, 2, 3]) [transfer_stream [1, 2, 3]]"
proof -
  have "file_pieces 3 [1, 2, 3] = [[1, 2, 3]]"
    by (subst file_pieces.simps) (simp add: MAX_LENGTH_def file_pieces.simps)
  then have "transfer_buffers [1, 2, 3] = [le_bytes 3, [1, 2, 3]]" by (simp add: transfer_buffers_def)
  then show "sends_whole (\<lambda>j. if j = 0 then 4 else 3) 0 (transfer_buffers [1, 2, 3])"
    by (auto simp: sends_whole_def less_Suc_eq)
  show "cuts (transfer_stream [1, 2, 3]) [transfer_stream [1, 2, 3]]"
    by (simp add: cuts_def transfer_stream_def)
qed

lemma share_then_download_witness:
  "\<exists>w w1 w2. ids w = {10, 20100} \<and> share_file demo_sha1 (\<lambda>_ _. True) 17 w ''B'' ''F'' = Inr w1 \<and>
    download demo_sha1 17 (\<lambda>_ _. Some [1, 2, 3]) (\<lambda>j. if j = 0 then 4 else 3) (\<lambda>s. [s]) w1 ''A'' ''F'' ''y'' =
      Inr (Saved [1, 2, 3], w2)"
proof -
  obtain w a b where w: "chord_ok demo_sha1 w" "w ''A'' = Some a" "w ''B'' = Some b" "ids w = {10, 20100}"
    "\<And>k. in_ring k \<Longrightarrow> stored w k None"
    by (rule demo_two_exists) (rule that)
  have none: "stored w 207 None" by (rule w(5)) (simp add: in_ring_def)
  have "\<exists>w1 w2. share_file demo_sha1 (\<lambda>_ _. True) 17 w ''B'' ''F'' = Inr w1 \<and>
    download demo_sha1 17 (\<lambda>_ _. Some [1, 2, 3]) (\<lambda>j. if j = 0 then 4 else 3) (\<lambda>s. [s]) w1 ''A'' ''F'' ''y'' =
      Inr (if [1, 2, 3 :: byte] = [] then Transfer_error else Saved [1, 2, 3], w2)"
    by (rule share_then_download [OF w(1,3,2)])
       (simp_all add: config_simps none handler_file_ok_def file_exist_def demo_transfer)
  then have "\<exists>w1 w2. share_file demo_sha1 (\<lambda>_ _. True) 17 w ''B'' ''F'' = Inr w1 \<and>
    download demo_sha1 17 (\<lambda>_ _. Some [1, 2, 3]) (\<lambda>j. if j = 0 then 4 else 3) (\<lambda>s. [s]) w1 ''A'' ''F'' ''y'' =
      Inr (Saved [1, 2, 3], w2)" by simp
  with w(4) show ?thesis by (elim exE conjE) (intro exI conjI)
qed

lemma download_delivers_witness:
  "\<exists>w w'. ids w = {10, 20100} \<and> stored w 207 (Some (''B'', listening_port_num)) \<and>
    download demo_sha1 17 (\<lambda>_ _. Some [1, 2, 3]) (\<lambda>j. if j = 0 then 4 else 3) (\<lambda>s. [s]) w ''A'' ''F'' ''y'' =
      Inr (Saved [1, 2, 3], w') \<and> canon w' = canon w"
proof -
  obtain w a b where w: "chord_ok demo_sha1 w" "w ''A'' = Some a" "w ''B'' = Some b" "dom w = {''A'', ''B''}"
    "\<And>k. in_ring k \<Longrightarrow> stored w k None"
    by (rule demo_two_exists) (rule that)
  have fuel: "finger_table_length < 17" by (simp add: config_simps)
  obtain v b' where v: "chord_ok demo_sha1 v"
    "\<And>k r. in_ring k \<Longrightarrow> stored v k r \<longleftrightarrow>
       (if k = get_hash demo_sha1 ''F'' \<and> stored w k None then r = Some (''B'', listening_port_num) else stored w k r)"
    "dom v = dom w" "v ''B'' = Some b'" "um_find (localFiles b') (get_hash demo_sha1 ''F'') = Some ''F''"
    using share_file_result [where filename = "''F''" and disks = "\<lambda>_ _. True", OF w(1,3) fuel]
    by (auto simp: file_exist_def handler_file_ok_def)
  have d: "dom v = {''A'', ''B''}" using v(3) w(4) by simp
  then have "''A'' \<in> dom v" by simp
  then obtain a' where a': "v ''A'' = Some a'" unfolding dom_def by blast
  have ids: "ids v = {10, 20100}" unfolding chord_ids [OF v(1)] d by simp
  have st: "stored v (get_hash demo_sha1 ''F'') (Some (''B'', listening_port_num))" "in_ring 207"
    using v(2) [of 207] w(5) by (simp_all add: in_ring_def)
  have "\<exists>w'. download demo_sha1 17 (\<lambda>_ _. Some [1, 2, 3]) (\<lambda>j. if j = 0 then 4 else 3) (\<lambda>s. [s]) v ''A'' ''F'' ''y'' =
      Inr (if [1, 2, 3 :: byte] = [] then Transfer_error else Saved [1, 2, 3], w') \<and> canon w' = canon v"
    by (rule download_delivers [OF v(1) a' fuel st(1) _ v(4,5)]) (simp_all add: demo_transfer)
  then obtain w' where "download demo_sha1 17 (\<lambda>_ _. Some [1, 2, 3]) (\<lambda>j. if j = 0 then 4 else 3) (\<lambda>s. [s]) v ''A'' ''F'' ''y'' =
      Inr (Saved [1, 2, 3], w') \<and> canon w' = canon v" by auto
  with ids st(1) show ?thesis by (intro exI [of _ v] exI [of _ w'] conjI) simp_all
qed

lemma download_large_empty_witness:
  "\<exists>len. download_req_handle (\<lambda>_. Some (replicate (2 ^ 31) 7))
      (Node_ctor\<lparr>localFiles := [(5, ''film'')]\<rparr>) (NodeRequest_download (generate_download_request 5 ''A'' ''8889'')) =
        ((''A'', ''8889''), [le_bytes len]) \<and>
    sint len = - (2 ^ 31) \<and> download_end [le_bytes len] = Inr (Saved [])"
proof -
  let ?req = "NodeRequest_download (generate_download_request 5 ''A'' ''8889'')"
  have "\<exists>len. download_req_handle (\<lambda>_. Some (replicate (2 ^ 31) 7)) (Node_ctor\<lparr>localFiles := [(5, ''film'')]\<rparr>) ?req =
      ((DownloadRequest_sourcehostname ?req, DownloadRequest_sourceport ?req), [le_bytes len]) \<and>
    sint len = int (length (replicate (2 ^ 31) (7 :: byte))) - 2 ^ 32 \<and> sint len < 0 \<and>
    (\<forall>segs. download_end (le_bytes len # segs) = Inr (Saved []))"
    by (rule download_large_empty [where name = "''film''"]) (simp_all add: received um_find_def)
  then show ?thesis by (auto simp: received)
qed

lemma download_split_length_witness:
  "download_end (take 1 (transfer_stream (replicate 256 7)) # drop 1 (transfer_stream (replicate 256 7)) # []) = Inr Transfer_error"
  by (rule download_split_length) simp


end
