(* ===== verification/Server_Correct.thy ===== *)
theory Server_Correct
  imports Server Download_Correct
begin

text \<open>
  What the server and the terminal guarantee: every generated request reaches the handler it is
  meant for with the arguments it was generated from; the commands of two users work together;
  and what happens to the terminal when its input ends.
\<close>

section \<open>Searching\<close>

lemma menu_search_result:
  assumes ok: "chord_ok (env_sha e) (net st)" and n: "net st (env_host e) = Some n"
    and fuel: "finger_table_length < env_fuel e" and toks: "tokens st = filename # ts"
    and entry: "stored (net st) (get_hash (env_sha e) filename) r"
  obtains w where "menu_search e st = Inr (show_report [if r = None then Not_found else Found, Completed]
      (st\<lparr>tokens := ts, net := w\<rparr>))"
    and "chord_ok (env_sha e) w" and "canon w = canon (net st)"
proof -
  let ?h = "get_hash (env_sha e) filename"
  obtain s m w where s: "net st s = Some m" "succ_of (ids (net st)) ?h (my_hash m)"
    and l: "lookup (env_fuel e) (net st) (env_host e) ?h user_interface_port_num = Inr (vars_of s (um_find (DHT m) ?h), w)"
    and w: "chord_ok (env_sha e) w" "canon w = canon (net st)"
    using lookup_spec [OF ok n get_hash_in_ring fuel] by blast
  have "um_find (DHT m) ?h = r" using entry stored_at [OF ok get_hash_in_ring s] by simp
  with l toks have "menu_search e st = Inr (show_report [if r = None then Not_found else Found, Completed]
      (st\<lparr>tokens := ts, net := w\<rparr>))"
    by (auto simp: menu_search_def read_token_def vars_of_def Let_def split: option.split)
  then show thesis using that w by blast
qed

section \<open>Requests by their arguments\<close>

text \<open>
  The calls of the generators of requests with the arguments of the caller, and what the handler a thread is
  spawned for reads from its copy of the request.
\<close>

datatype handler_call =
    Lookup_call digest hostname string
  | Add_call digest hostname string
  | Delete_call digest hostname string
  | Download_call digest hostname string
  | Join_call digest hostname string
  | Update_call digest hostname string
  | Help_call digest hostname string

fun request_of :: "handler_call \<Rightarrow> NodeRequest" where
  "request_of (Lookup_call h host port) = generate_lookup_request h host port"
| "request_of (Add_call h host port) = generate_add_file_request h host port"
| "request_of (Delete_call h host port) = generate_delete_file_request h host port"
| "request_of (Download_call h host port) = generate_download_request h host port"
| "request_of (Join_call h host port) = generate_join_request h host port"
| "request_of (Update_call h host port) = generate_route_update_request h host port"
| "request_of (Help_call h host port) = generate_help_join_request h host port"

fun call_of :: "spawned \<Rightarrow> handler_call" where
  "call_of (Spawn_lookup r) =
     Lookup_call (LookupFileRequest_filenamehash r) (LookupFileRequest_sourcehostname r) (LookupFileRequest_sourceport r)"
| "call_of (Spawn_add_file r) =
     Add_call (AddFileRequest_filenamehash r) (AddFileRequest_sourcehostname r) (AddFileRequest_sourceport r)"
| "call_of (Spawn_delete_file r) =
     Delete_call (DeleteFileRequest_filenamehash r) (DeleteFileRequest_sourcehostname r) (DeleteFileRequest_sourceport r)"
| "call_of (Spawn_download r) =
     Download_call (DownloadRequest_filenamehash r) (DownloadRequest_sourcehostname r) (DownloadRequest_sourceport r)"
| "call_of (Spawn_join r) =
     Join_call (JoinRequest_newhostnamehash r) (JoinRequest_newhostname r) (JoinRequest_newport r)"
| "call_of (Spawn_update_route r) =
     Update_call (RouteUpdateRequest_newhostnamehash r) (RouteUpdateRequest_newhostname r) (RouteUpdateRequest_newport r)"
| "call_of (Spawn_help_join r) =
     Help_call (HelpJoinRequset_newhostnamehash r) (HelpJoinRequset_newhostname r) (HelpJoinRequset_newport r)"

lemma received_lookup_arguments:
  "LookupFileRequest_filenamehash (NodeRequest_lookup (generate_lookup_request h host port)) = h"
  "LookupFileRequest_sourcehostname (NodeRequest_lookup (generate_lookup_request h host port)) = host"
  "LookupFileRequest_sourceport (NodeRequest_lookup (generate_lookup_request h host port)) = port"
  "DeleteFileRequest_filenamehash (NodeRequest_deletefile (generate_delete_file_request h host port)) = h"
  "DeleteFileRequest_sourcehostname (NodeRequest_deletefile (generate_delete_file_request h host port)) = host"
  "DeleteFileRequest_sourceport (NodeRequest_deletefile (generate_delete_file_request h host port)) = port"
  by (simp_all add: generator_defs accessor_defs message_defs)

lemma dispatch_request_of: "\<exists>t. dispatch (request_of c) = Some t \<and> call_of t = c"
  by (cases c) (simp_all add: dispatch_def received received_lookup_arguments Let_def)

section \<open>The messages of a join\<close>

lemma entries_initialized:
  "RouteTableEntry_IsInitialized (route_entry sha1 host)" "FileTableEntry_IsInitialized (file_entry h info)"
  by (simp_all add: route_entry_def file_entry_def accessor_defs message_defs)

lemma help_join_fingers_initialized:
  "help_join_fingers sha1 fuel rnd me req is w table = Inr (table', w') \<Longrightarrow> RouteTableInit_IsInitialized table \<Longrightarrow>
    RouteTableInit_IsInitialized table'"
proof (induction "is" arbitrary: w table)
  case (Cons i "is")
  have add: "RouteTableInit_IsInitialized (RouteTableInit_add_entry (route_entry sha1 host) table)" for host
    using Cons.prems(2) entries_initialized(1) by (simp add: RouteTableInit_IsInitialized_def RouteTableInit_add_entry_def)
  show ?case using Cons.prems(1) Cons.IH [OF _ add] by (auto simp: bind_res_Inr_iff Let_def)
qed simp

lemma hand_over_initialized:
  "FileTable_IsInitialized table \<Longrightarrow> FileTable_IsInitialized (fst (hand_over me_hash d dht table))"
proof (induction me_hash d dht table rule: hand_over.induct)
  case (2 me_hash d h info dht table)
  then have "FileTable_IsInitialized (FileTable_add_entry (file_entry h info) table)"
    using entries_initialized(2) by (simp add: FileTable_IsInitialized_def FileTable_add_entry_def)
  with 2 show ?case by (cases "hand_over me_hash d dht table") (auto simp: Let_def)
qed simp

lemma help_join_messages_initialized:
  assumes "help_join_req_handle sha1 fuel rnd w me req = Inr (msgs, w')"
  shows "list_all NodeResponse_IsInitialized msgs"
proof -
  have empty: "RouteTableInit_IsInitialized RouteTableInit_default" "FileTable_IsInitialized FileTable_default"
    by (simp_all add: message_defs)
  obtain fingers w1 a b c d e f g h i where
    t: "help_join_fingers sha1 fuel rnd me req [0..<finger_table_length] w RouteTableInit_default = Inr (fingers, w1)"
    and m: "msgs = [generate_help_join_response d e f, generate_routetable_init fingers,
        generate_lookup_node_response g h i, generate_filetable_response (fst (hand_over a b c FileTable_default))]"
    using assms by (auto simp: help_join_req_handle_def bind_res_Inr_iff Let_def case_prod_beta split: option.splits)
  have "RouteTableInit_IsInitialized fingers" by (rule help_join_fingers_initialized [OF t empty(1)])
  with hand_over_initialized [OF empty(2)] show ?thesis unfolding m by (simp add: generated_messages_initialized)
qed

section \<open>Properties\<close>

text \<open>
  C22: The messages of the program have all their required fields, so that serialising them never fails:
  every request and response that a generator builds from values has; the lookup request that is passed on has
  them exactly when the one received has; and so do all the messages with which \<open>help_join_req_handle\<close> answers a
  newcomer, whatever finger table and file table it puts into them.
\<close>

theorem sent_messages_initialized:
  "NodeRequest_IsInitialized (request_of c) \<and>
   NodeRequest_IsInitialized (generate_lookup_request_copy req) = LookupFileRequest_IsInitialized req \<and>
   NodeResponse_IsInitialized (generate_lookup_response ex sh sp oh op) \<and>
   NodeResponse_IsInitialized (generate_help_join_response h hostname port) \<and>
   NodeResponse_IsInitialized (generate_route_update_response cur next_hash hostname port) \<and>
   NodeResponse_IsInitialized (generate_lookup_node_response h hostname port) \<and>
   (case help_join_req_handle sha1 fuel rnd w me join_req of
      Inl _ \<Rightarrow> True
    | Inr (msgs, w') \<Rightarrow> list_all NodeResponse_IsInitialized msgs)"
proof (intro conjI)
  show "NodeRequest_IsInitialized (request_of c)"
    by (cases c) (simp_all only: request_of.simps generated_messages_initialized)
  show "case help_join_req_handle sha1 fuel rnd w me join_req of
      Inl _ \<Rightarrow> True | Inr (msgs, w') \<Rightarrow> list_all NodeResponse_IsInitialized msgs"
    using help_join_messages_initialized by (auto split: sum.split)
qed (simp_all only: generated_messages_initialized)

text \<open>
  C27: Whatever sequence of connections reaches the server of a node, each of them failing or bringing a
  request that a generator built, it spawns one thread for each request, in their order, for the handler the
  request is meant for, which reads back the arguments the request was generated from. A lookup request that
  is passed on arrives as it was received, and an object that is left as it was constructed spawns
  nothing.
\<close>

theorem requests_dispatched:
  "map call_of (serve (map (\<lambda>e. case e of None \<Rightarrow> Accept_failed | Some c \<Rightarrow> Received True (request_of c)) es)) =
     List.map_filter id es \<and>
   dispatch (generate_lookup_request_copy lreq) = Some (Spawn_lookup lreq) \<and>
   dispatch NodeRequest_default = None"
proof (intro conjI)
  show "map call_of (serve (map (\<lambda>e. case e of None \<Rightarrow> Accept_failed | Some c \<Rightarrow> Received True (request_of c)) es)) =
      List.map_filter id es"
  proof (induction es)
    case (Cons e es)
    show ?case
    proof (cases e)
      case (Some c)
      with dispatch_request_of [of c] Cons.IH show ?thesis by auto
    qed (use Cons.IH in simp)
  qed simp
  show "dispatch (generate_lookup_request_copy lreq) = Some (Spawn_lookup lreq)" by (simp add: dispatch_def received Let_def)
  show "dispatch NodeRequest_default = None"
    by (simp add: dispatch_def NodeRequest_type_def NodeRequest_default_def field_or_def)
qed

text \<open>
  C28: When the standard input ends, the terminal never stops: every round reads an empty option,
  reports it and starts over, for any number of rounds.
\<close>

theorem terminal_spins_at_eof:
  "run_user_terminal_interface e k (st\<lparr>tokens := []\<rparr>) = None"
proof -
  have "run_rounds (menu_step e) k st = None" if "tokens st = []" for st
    using that
  proof (induction k arbitrary: st)
    case (Suc k)
    then have "tokens (show_report [Invalid_input] st) = []" by (simp add: show_report_def)
    with Suc show ?case by (simp add: menu_step_eof)
  qed simp
  then show ?thesis by (simp add: run_user_terminal_interface_def)
qed

text \<open>
  C23: The commands of the terminal work together: in a complete circle, after a user has uploaded
  a file nobody had uploaded, another user's search finds it and that user's download stores
  its content in the download directory. The file has from 1 to 2^31 - 1 bytes and the second user has no copy yet;
  the host responsible for the digest, when it is not the uploader, must pass its own check of a file; every
  \<open>send\<close> takes its whole buffer, and the first segment carries the four bytes of the length.
\<close>

theorem upload_search_download:
  assumes ok: "chord_ok (env_sha e) (net st)" and n: "net st (env_host e) = Some n"
    and owner: "net st owner = Some m" "owner \<noteq> env_host e" and fuel: "finger_table_length < env_fuel e"
    and new: "stored (net st) (get_hash (env_sha e) filename) None"
    and remote: "\<And>s m. net st s = Some m \<Longrightarrow> s \<noteq> owner \<Longrightarrow>
      succ_of (ids (net st)) (get_hash (env_sha e) filename) (my_hash m) \<Longrightarrow>
      handler_file_ok (opens_of (disk_of st)) s m (get_hash (env_sha e) filename)"
    and content: "disk_of st owner (''./shared_file/'' @ filename) = Some content" "content \<noteq> []" "length content < 2 ^ 31"
    and fresh: "disk_of st (env_host e) (''./download_file/'' @ filename) = None"
    and transfer: "sends_whole (env_rets e) 0 (transfer_buffers content)"
      "cuts (transfer_stream content) (env_seg e (transfer_stream content))"
  shows "\<exists>st1 st2 st3.
    menu_step (e\<lparr>env_host := owner\<rparr>) (st\<lparr>tokens := [''1'', filename]\<rparr>) = Inl st1 \<and>
    menu_step e (st1\<lparr>tokens := [''3'', filename]\<rparr>) = Inl st2 \<and>
    menu_step e (st2\<lparr>tokens := [''4'', filename]\<rparr>) = Inl st3 \<and>
    screen st3 = screen st @ [Completed, Found, Completed, Download_report (Saved content), Completed] \<and>
    disk_of st3 (env_host e) (''./download_file/'' @ filename) = Some content"
proof -
  let ?h = "get_hash (env_sha e) filename" let ?path = "''./download_file/'' @ filename"
  have here: "file_exist (opens_of (disk_of st) owner) filename"
    using content(1) by (simp add: file_exist_def opens_of_def)
  obtain w1 m1 where w1: "share_file (env_sha e) (opens_of (disk_of st)) (env_fuel e) (net st) owner filename = Inr w1"
    "chord_ok (env_sha e) w1"
    "\<And>k r. in_ring k \<Longrightarrow> stored w1 k r \<longleftrightarrow>
       (if k = ?h \<and> stored (net st) k None then r = Some (owner, listening_port_num) else stored (net st) k r)"
    "dom w1 = dom (net st)" "w1 owner = Some m1" "um_find (localFiles m1) ?h = Some filename"
    using share_file_result [where disks = "opens_of (disk_of st)", OF ok owner(1) fuel here remote] by blast
  let ?st1 = "show_report [Completed] (st\<lparr>tokens := [], net := w1\<rparr>)"
  have 1: "menu_step (e\<lparr>env_host := owner\<rparr>) (st\<lparr>tokens := [''1'', filename]\<rparr>) = Inl ?st1"
    by (rule menu_step_commands(1) [where cmd = "''1''" and ts = "[filename]"])
       (use w1(1) in \<open>simp_all add: menu_add_def Let_def\<close>)
  have "env_host e \<in> dom w1" using n w1(4) by auto
  then obtain n1 where n1: "w1 (env_host e) = Some n1" by blast
  have entry: "stored w1 ?h (Some (owner, listening_port_num))" using w1(3) [of ?h] new by simp
  obtain w2 where s: "menu_search e (?st1\<lparr>tokens := [filename]\<rparr>) =
      Inr (show_report [Found, Completed] (?st1\<lparr>tokens := [], net := w2\<rparr>))"
    and w2: "chord_ok (env_sha e) w2" "canon w2 = canon w1"
    by (rule menu_search_result [of e "?st1\<lparr>tokens := [filename]\<rparr>" n1 filename "[]" "Some (owner, listening_port_num)"])
       (use w1(2) n1 fuel entry in \<open>simp_all add: show_report_def\<close>)
  let ?st2 = "show_report [Found, Completed] (?st1\<lparr>tokens := [], net := w2\<rparr>)"
  have 2: "menu_step e (?st1\<lparr>tokens := [''3'', filename]\<rparr>) = Inl ?st2"
    by (rule menu_step_commands(2) [where cmd = "''3''" and ts = "[filename]"]) (use s in simp_all)
  obtain n2 where n2: "w2 (env_host e) = Some n2" using canon_lookup [OF w2(2) n1] by blast
  obtain m2 where m2: "w2 owner = Some m2" "canon_node m2 = canon_node m1" using canon_lookup [OF w2(2) w1(5)] by blast
  have "um_find (localFiles m2) ?h = Some filename" using canon_node_fields(5) [OF m2(2)] w1(6) by simp
  moreover have "stored w2 ?h (Some (owner, listening_port_num))" using stored_canon [OF w2(2)] entry by simp
  ultimately obtain w3 where w3: "download (env_sha e) (env_fuel e) (disk_of st) (env_rets e) (env_seg e) w2
      (env_host e) filename [] = Inr (Saved content, w3)"
    using download_owner [where files = "disk_of st" and option = "[]" and rets = "env_rets e" and seg = "env_seg e",
        OF w2(1) n2 fuel _ owner(2) m2(1) _ content(1,3) _ transfer] fresh content(2) by auto
  let ?st3 = "show_report [Download_report (Saved content), Completed] (?st2\<lparr>tokens := [], net := w3,
    disk_of := (disk_of st)(env_host e := (disk_of st (env_host e))(?path \<mapsto> content))\<rparr>)"
  have 3: "menu_step e (?st2\<lparr>tokens := [''4'', filename]\<rparr>) = Inl ?st3"
    by (rule menu_step_commands(3) [where cmd = "''4''" and ts = "[filename]"])
       (use w3 fresh in \<open>simp_all add: menu_download_def show_report_def Let_def\<close>)
  show ?thesis
    by (intro exI conjI, rule 1, rule 2, rule 3) (simp_all add: show_report_def)
qed

lemma upload_search_download_witness:
  "\<exists>w st1 st2 st3. ids w = {10, 20100} \<and>
    menu_step \<lparr>env_sha = demo_sha1, env_fuel = 17, env_rets = \<lambda>j. if j = 0 then 4 else 3, env_seg = \<lambda>s. [s], env_host = ''B''\<rparr>
      \<lparr>tokens = [''1'', ''F''], screen = [], net = w, disk_of = \<lambda>_. (\<lambda>_. Some [1, 2, 3])(''./download_file/F'' := None)\<rparr> = Inl st1 \<and>
    menu_step \<lparr>env_sha = demo_sha1, env_fuel = 17, env_rets = \<lambda>j. if j = 0 then 4 else 3, env_seg = \<lambda>s. [s], env_host = ''A''\<rparr>
      (st1\<lparr>tokens := [''3'', ''F'']\<rparr>) = Inl st2 \<and>
    menu_step \<lparr>env_sha = demo_sha1, env_fuel = 17, env_rets = \<lambda>j. if j = 0 then 4 else 3, env_seg = \<lambda>s. [s], env_host = ''A''\<rparr>
      (st2\<lparr>tokens := [''4'', ''F'']\<rparr>) = Inl st3 \<and>
    screen st3 = [Completed, Found, Completed, Download_report (Saved [1, 2, 3]), Completed] \<and>
    disk_of st3 ''A'' ''./download_file/F'' = Some [1, 2, 3]"
proof -
  obtain w a b where w: "chord_ok demo_sha1 w" "w ''A'' = Some a" "w ''B'' = Some b" "ids w = {10, 20100}"
    "\<And>k. in_ring k \<Longrightarrow> stored w k None"
    by (rule demo_two_exists) (rule that)
  have none: "stored w (get_hash demo_sha1 ''F'') None" by (rule w(5)) (rule get_hash_in_ring)
  let ?e = "\<lparr>env_sha = demo_sha1, env_fuel = 17, env_rets = \<lambda>j. if j = 0 then 4 else 3, env_seg = \<lambda>s. [s], env_host = ''A''\<rparr>"
  let ?st = "\<lparr>tokens = [], screen = [], net = w, disk_of = \<lambda>_. (\<lambda>_. Some [1, 2, 3])(''./download_file/F'' := None)\<rparr>"
  have "\<exists>st1 st2 st3.
    menu_step (?e\<lparr>env_host := ''B''\<rparr>) (?st\<lparr>tokens := [''1'', ''F'']\<rparr>) = Inl st1 \<and>
    menu_step ?e (st1\<lparr>tokens := [''3'', ''F'']\<rparr>) = Inl st2 \<and>
    menu_step ?e (st2\<lparr>tokens := [''4'', ''F'']\<rparr>) = Inl st3 \<and>
    screen st3 = screen ?st @ [Completed, Found, Completed, Download_report (Saved [1, 2, 3]), Completed] \<and>
    disk_of st3 (env_host ?e) (''./download_file/'' @ ''F'') = Some [1, 2, 3]"
    by (rule upload_search_download [of "?e" "?st" a "''B''" b "''F''" "[1, 2, 3]"])
       (use w none in \<open>simp_all add: config_simps handler_file_ok_def file_exist_def opens_of_def demo_transfer\<close>)
  with w(4) show ?thesis by (intro exI [of _ w]) simp
qed

end
