(* ===== verification/Threadpool.thy ===== *)
theory Threadpool
  imports Prelude
begin

text \<open>
  The thread pool (\<open>src/src/util/threadpool.cpp\<close>) as a step relation. Everything between taking
  \<open>m_lock\<close> and giving it back (by \<open>unlock\<close>, the end of the scope or \<open>has_task.wait\<close>) is one step; the
  condition of the outer loop of \<open>run_task\<close>, which is read without the lock, is a step of its
  own. Steps of different threads interleave freely and a waiting thread may wake up for no
  reason. Tasks return; \<open>assign_task\<close> is not called on a pool that is being destroyed.
\<close>

text \<open>Where a worker is in \<open>run_task\<close>.\<close>

datatype 'a worker =
    Head              \<comment> \<open>about to evaluate the condition of the outer loop\<close>
  | Entering          \<comment> \<open>about to take the lock\<close>
  | Waiting           \<comment> \<open>in \<open>has_task.wait\<close>\<close>
  | Woken             \<comment> \<open>notified, about to take the lock again\<close>
  | Running 'a
  | Stopped

text \<open>Where the owner of the pool is: using it, or at which point of the destructor.\<close>

datatype phase = Alive | Flag_cleared | Notified | Joined

record 'a pool =
  threads :: "'a worker list"
  m_tasks :: "'a list"
  max_tasks :: int
  run_flag :: bool
  phase :: phase
  accepted :: "'a list"    \<comment> \<open>the tasks \<open>assign_task\<close> returned \<open>true\<close> for, in order\<close>
  started :: "'a list"     \<comment> \<open>the tasks taken from the queue, in order\<close>

section \<open>Operations\<close>

definition init_threads :: "int \<Rightarrow> 'a pool \<Rightarrow> 'a pool" where
  "init_threads max_thds p = p\<lparr>threads := threads p @ replicate (nat max_thds) Head\<rparr>"

definition Threadpool_ctor :: "int \<Rightarrow> int \<Rightarrow> 'a pool" where
  "Threadpool_ctor max_thds max_tsks =
     (let p = \<lparr>threads = [], m_tasks = [], max_tasks = max_tsks, run_flag = True, phase = Alive,
               accepted = [], started = []\<rparr>
      in if threads p = [] then init_threads max_thds p else p)"

text \<open>\<open>notify_one\<close> wakes one waiting thread, if there is one; \<open>i\<close> is the one the system picks.\<close>

definition picks :: "nat \<Rightarrow> 'a worker list \<Rightarrow> bool" where
  "picks i ws \<longleftrightarrow> Waiting \<in> set ws \<longrightarrow> i < length ws \<and> ws ! i = Waiting"

definition notify_one :: "nat \<Rightarrow> 'a worker list \<Rightarrow> 'a worker list" where
  "notify_one i ws = (if i < length ws \<and> ws ! i = Waiting then ws[i := Woken] else ws)"

definition notify_all :: "'a worker list \<Rightarrow> 'a worker list" where
  "notify_all ws = map (\<lambda>w. if w = Waiting then Woken else w) ws"

text \<open>\<open>max_tasks\<close> is converted to \<open>unsigned\<close> for the comparison.\<close>

definition assign_task :: "nat \<Rightarrow> 'a \<Rightarrow> 'a pool \<Rightarrow> bool \<times> 'a pool" where
  "assign_task i t p =
     (if int (length (m_tasks p)) < max_tasks p mod 2 ^ 32
      then (True, p\<lparr>m_tasks := m_tasks p @ [t], accepted := accepted p @ [t],
                    threads := notify_one i (threads p)\<rparr>)
      else (False, p))"

text \<open>
  From the inner \<open>while\<close> of \<open>run_task\<close>, with the lock held: wait (again), return, or take the first
  task and unlock.
\<close>

definition wait_or_take :: "nat \<Rightarrow> 'a pool \<Rightarrow> 'a pool" where
  "wait_or_take i p =
     (case m_tasks p of
        [] \<Rightarrow> p\<lparr>threads := (threads p)[i := if run_flag p then Waiting else Stopped]\<rparr>
      | task # rest \<Rightarrow> p\<lparr>threads := (threads p)[i := Running task], m_tasks := rest, started := started p @ [task]\<rparr>)"

text \<open>The step of worker \<open>i\<close> of \<open>run_task\<close>. A stopped worker has none.\<close>

definition run_task :: "nat \<Rightarrow> 'a pool \<Rightarrow> 'a pool option" where
  "run_task i p =
     (case threads p ! i of
        Head \<Rightarrow> Some (p\<lparr>threads := (threads p)[i := if run_flag p \<or> m_tasks p \<noteq> [] then Entering else Stopped]\<rparr>)
      | Entering \<Rightarrow>
          Some (if \<not> run_flag p \<and> m_tasks p = [] then p\<lparr>threads := (threads p)[i := Stopped]\<rparr>
                else wait_or_take i p)
      | Waiting \<Rightarrow> None
      | Woken \<Rightarrow> Some (wait_or_take i p)
      | Running task \<Rightarrow> Some (p\<lparr>threads := (threads p)[i := Head]\<rparr>)
      | Stopped \<Rightarrow> None)"

text \<open>The destructor: clear the flag under the lock, notify, join every thread.\<close>

definition clear_flag :: "'a pool \<Rightarrow> 'a pool" where
  "clear_flag p = p\<lparr>run_flag := False, phase := Flag_cleared\<rparr>"

definition wake_all :: "'a pool \<Rightarrow> 'a pool" where
  "wake_all p = p\<lparr>threads := notify_all (threads p), phase := Notified\<rparr>"

definition join_all :: "'a pool \<Rightarrow> 'a pool" where
  "join_all p = p\<lparr>threads := [], phase := Joined\<rparr>"

inductive pool_step :: "'a pool \<Rightarrow> 'a pool \<Rightarrow> bool" where
  Assign: "phase p = Alive \<Longrightarrow> picks i (threads p) \<Longrightarrow> assign_task i t p = (ok, p') \<Longrightarrow> pool_step p p'"
| Work: "i < length (threads p) \<Longrightarrow> run_task i p = Some p' \<Longrightarrow> pool_step p p'"
| Spurious: "i < length (threads p) \<Longrightarrow> threads p ! i = Waiting \<Longrightarrow>
    pool_step p (p\<lparr>threads := (threads p)[i := Woken]\<rparr>)"
| Clear_flag: "phase p = Alive \<Longrightarrow> pool_step p (clear_flag p)"
| Notify_all: "phase p = Flag_cleared \<Longrightarrow> pool_step p (wake_all p)"
| Join: "phase p = Notified \<Longrightarrow> \<forall>w \<in> set (threads p). w = Stopped \<Longrightarrow> pool_step p (join_all p)"

inductive_cases pool_stepE: "pool_step p p'"

inductive pool_reaches :: "'a pool \<Rightarrow> 'a pool \<Rightarrow> bool" for p0 where
  refl: "pool_reaches p0 p0"
| step: "pool_reaches p0 p \<Longrightarrow> pool_step p p' \<Longrightarrow> pool_reaches p0 p'"

section \<open>The invariant\<close>

text \<open>
  The queue is what was accepted and not started; it is never longer than its bound; the flag is
  set as long as the pool is in use; a thread only stops when the flag is cleared and the queue
  empty; and once all have been notified none is waiting.
\<close>

definition pool_inv :: "'a pool \<Rightarrow> bool" where
  "pool_inv p \<longleftrightarrow> accepted p = started p @ m_tasks p \<and>
     (m_tasks p = [] \<or> int (length (m_tasks p)) \<le> max_tasks p mod 2 ^ 32) \<and>
     (run_flag p \<longleftrightarrow> phase p = Alive) \<and>
     (Stopped \<in> set (threads p) \<longrightarrow> \<not> run_flag p \<and> m_tasks p = []) \<and>
     (phase p = Notified \<longrightarrow> Waiting \<notin> set (threads p))"

lemma set_update_other: "x \<in> set (ws[i := w]) \<Longrightarrow> x \<noteq> w \<Longrightarrow> x \<in> set ws"
  using set_update_subset_insert [of ws i w] by auto

lemma pool_inv_assign:
  assumes "pool_inv p" and "phase p = Alive" and "assign_task i t p = (ok, p')"
  shows "pool_inv p'"
  using assms by (auto simp: pool_inv_def assign_task_def notify_one_def split: if_splits dest!: set_update_other)

lemma pool_inv_wait_or_take: "pool_inv p \<Longrightarrow> pool_inv (wait_or_take i p)"
  by (auto simp: pool_inv_def wait_or_take_def split: list.split if_splits dest!: set_update_other)

lemma pool_inv_work: "pool_inv p \<Longrightarrow> run_task i p = Some p' \<Longrightarrow> pool_inv p'"
  by (auto simp: run_task_def pool_inv_wait_or_take split: worker.splits if_splits)
     (auto simp: pool_inv_def dest!: set_update_other)

lemma pool_inv_step: "pool_step p p' \<Longrightarrow> pool_inv p \<Longrightarrow> pool_inv p'"
proof (induction rule: pool_step.induct)
  case (Assign p i t ok p')
  then show ?case by (blast intro: pool_inv_assign)
next
  case (Work i p p')
  then show ?case by (blast intro: pool_inv_work)
next
  case (Spurious i p)
  then show ?case by (auto simp: pool_inv_def dest!: set_update_other)
next
  case (Clear_flag p)
  then show ?case by (auto simp: pool_inv_def clear_flag_def)
next
  case (Notify_all p)
  then show ?case by (auto simp: pool_inv_def wake_all_def notify_all_def)
next
  case (Join p)
  then show ?case by (auto simp: pool_inv_def join_all_def)
qed

lemma pool_inv_ctor: "pool_inv (Threadpool_ctor max_thds max_tsks)"
  by (auto simp: pool_inv_def Threadpool_ctor_def init_threads_def)

lemma pool_inv_reaches: "pool_reaches (Threadpool_ctor m k) p \<Longrightarrow> pool_inv p"
  by (induction rule: pool_reaches.induct) (auto simp: pool_inv_ctor intro: pool_inv_step)

text \<open>
  The threads are there until they are joined; a non-empty queue has a thread that is not waiting;
  and a pool with threads is joined with an empty queue.
\<close>

definition pool_live :: "nat \<Rightarrow> 'a pool \<Rightarrow> bool" where
  "pool_live n p \<longleftrightarrow> (phase p \<noteq> Joined \<longrightarrow> length (threads p) = n \<and>
       (m_tasks p \<noteq> [] \<longrightarrow> (\<exists>i<n. threads p ! i \<noteq> Waiting))) \<and>
     (phase p = Joined \<longrightarrow> m_tasks p = [])"

lemma pool_live_assign:
  assumes "pool_live n p" and "0 < n" and "phase p = Alive" and "picks i (threads p)"
    and "assign_task i t p = (ok, p')"
  shows "pool_live n p'"
proof (cases "int (length (m_tasks p)) < max_tasks p mod 2 ^ 32")
  case True
  with assms(5) have p': "p' = p\<lparr>m_tasks := m_tasks p @ [t], accepted := accepted p @ [t],
      threads := notify_one i (threads p)\<rparr>" by (simp add: assign_task_def)
  have len: "length (threads p) = n" using assms(1,3) by (simp add: pool_live_def)
  have "\<exists>j<n. notify_one i (threads p) ! j \<noteq> Waiting"
  proof (cases "Waiting \<in> set (threads p)")
    case True
    with assms(4) have "i < length (threads p) \<and> threads p ! i = Waiting" by (simp add: picks_def)
    with len show ?thesis by (intro exI [of _ i]) (simp add: notify_one_def)
  next
    case False
    with len assms(2) have "notify_one i (threads p) ! 0 \<noteq> Waiting"
      by (auto simp: notify_one_def in_set_conv_nth)
    with assms(2) show ?thesis by blast
  qed
  with p' len assms(3) show ?thesis by (simp add: pool_live_def notify_one_def)
next
  case False
  with assms show ?thesis by (simp add: assign_task_def)
qed

lemma pool_live_wait_or_take:
  "pool_live n p \<Longrightarrow> i < length (threads p) \<Longrightarrow> phase p \<noteq> Joined \<Longrightarrow> pool_live n (wait_or_take i p)"
  by (auto simp: pool_live_def wait_or_take_def split: list.split intro!: exI [of _ i])

lemma pool_live_set:
  "pool_live n p \<Longrightarrow> i < length (threads p) \<Longrightarrow> w \<noteq> Waiting \<Longrightarrow> phase p \<noteq> Joined \<Longrightarrow>
   pool_live n (p\<lparr>threads := (threads p)[i := w]\<rparr>)"
  by (auto simp: pool_live_def intro!: exI [of _ i])

lemma pool_live_step:
  assumes "pool_step p p'" and "pool_live n p" and "pool_inv p" and "0 < n" and "phase p \<noteq> Joined"
  shows "pool_live n p'"
  using assms
proof (induction rule: pool_step.induct)
  case (Assign p i t ok p')
  then show ?case by (blast intro: pool_live_assign)
next
  case (Work i p p')
  then show ?case
    by (auto simp: run_task_def pool_live_wait_or_take pool_live_set split: worker.splits if_splits)
next
  case (Spurious i p)
  then show ?case by (simp add: pool_live_set)
next
  case (Clear_flag p)
  then show ?case by (simp add: pool_live_def clear_flag_def)
next
  case (Notify_all p)
  then show ?case by (auto simp: pool_live_def wake_all_def notify_all_def)
next
  case (Join p)
  then have "threads p ! 0 \<in> set (threads p)" by (intro nth_mem) (simp add: pool_live_def)
  with Join have "Stopped \<in> set (threads p)" by metis
  with Join show ?case by (simp add: pool_live_def pool_inv_def join_all_def)
qed

lemma joined_final: "pool_inv p \<Longrightarrow> phase p = Joined \<Longrightarrow> threads p = [] \<Longrightarrow> \<not> pool_step p p'"
  by (auto elim: pool_stepE)

lemma joined_no_threads: "pool_reaches (Threadpool_ctor m k) p \<Longrightarrow> phase p = Joined \<longrightarrow> threads p = []"
proof (induction rule: pool_reaches.induct)
  case refl
  then show ?case by (simp add: Threadpool_ctor_def init_threads_def)
next
  case (step p p')
  from step(2) have "phase p' = Joined \<longrightarrow> threads p' = [] \<or> phase p = Joined \<and> threads p \<noteq> []"
    by (cases rule: pool_step.cases)
       (auto simp: assign_task_def run_task_def wait_or_take_def clear_flag_def wake_all_def join_all_def
          split: worker.splits list.splits if_splits)
  with step.IH show ?case by blast
qed

lemma pool_live_reaches:
  "pool_reaches (Threadpool_ctor m k) p \<Longrightarrow> 0 < m \<Longrightarrow> pool_live (nat m) p"
proof (induction rule: pool_reaches.induct)
  case refl
  then show ?case by (simp add: pool_live_def Threadpool_ctor_def init_threads_def)
next
  case (step p p')
  have "phase p \<noteq> Joined"
    using step(2) joined_final [OF pool_inv_reaches [OF step(1)]] joined_no_threads [OF step(1)] by blast
  then show ?case
    using step pool_live_step [OF step(2) step.IH [OF step.prems] pool_inv_reaches [OF step(1)]] by simp
qed

section \<open>Shutting down\<close>

text \<open>What is left to do once the threads have been notified: a bound on the number of steps.\<close>

fun worker_work :: "'a worker \<Rightarrow> nat" where
  "worker_work Head = 2"
| "worker_work Entering = 1"
| "worker_work Waiting = 0"
| "worker_work Woken = 1"
| "worker_work (Running t) = 3"
| "worker_work Stopped = 0"

definition pool_work :: "'a pool \<Rightarrow> nat" where
  "pool_work p = 3 * length (m_tasks p) + sum_list (map worker_work (threads p)) + (if phase p = Joined then 0 else 1)"

lemma sum_list_worker_update:
  "i < length ws \<Longrightarrow> sum_list (map worker_work (ws[i := w])) + worker_work (ws ! i) =
     sum_list (map worker_work ws) + worker_work w"
proof (induction ws arbitrary: i)
  case Nil
  then show ?case by simp
next
  case (Cons v ws)
  then show ?case by (cases i) auto
qed

lemma work_decreases:
  assumes "pool_inv p" and "phase p = Notified" and "pool_step p p'"
  shows "pool_work p' < pool_work p \<and> (phase p' = Notified \<or> phase p' = Joined)"
  using assms(3)
proof (cases rule: pool_step.cases)
  case (Work i)
  have flag: "\<not> run_flag p" using assms(1,2) by (simp add: pool_inv_def)
  have upd: "sum_list (map worker_work ((threads p)[i := w])) + worker_work (threads p ! i) =
      sum_list (map worker_work (threads p)) + worker_work w" for w
    using Work(1) by (rule sum_list_worker_update)
  show ?thesis
    using Work(2) flag assms(2) upd [of Entering] upd [of Stopped] upd [of Head] upd [of "Running (hd (m_tasks p))"]
    by (auto simp: run_task_def wait_or_take_def pool_work_def split: worker.splits list.splits if_splits)
next
  case (Spurious i)
  then have "Waiting \<in> set (threads p)" by (metis nth_mem)
  with assms show ?thesis by (simp add: pool_inv_def)
next
  case Join
  then have "sum_list (map worker_work (threads p)) = 0" by auto
  with Join assms(2) show ?thesis by (simp add: pool_work_def join_all_def)
qed (use assms(2) in simp_all)

lemma work_possible:
  assumes "pool_inv p" and "phase p = Notified"
  shows "\<exists>p'. pool_step p p'"
proof (cases "\<forall>w \<in> set (threads p). w = Stopped")
  case True
  with assms(2) show ?thesis by (blast intro: pool_step.Join)
next
  case False
  then obtain i where i: "i < length (threads p)" "threads p ! i \<noteq> Stopped" by (metis in_set_conv_nth)
  with assms have "threads p ! i \<noteq> Waiting" by (metis nth_mem pool_inv_def)
  with i(2) have "\<exists>p'. run_task i p = Some p'" by (auto simp: run_task_def split: worker.splits)
  with i(1) show ?thesis by (blast intro: pool_step.Work)
qed

lemma shutdown_ends:
  "pool_reaches (Threadpool_ctor m k) p \<Longrightarrow> phase p = Notified \<Longrightarrow>
   \<exists>p'. pool_reaches p p' \<and> phase p' = Joined"
proof (induction "pool_work p" arbitrary: p rule: less_induct)
  case less
  note inv = pool_inv_reaches [OF less.prems(1)]
  obtain p1 where p1: "pool_step p p1" using work_possible [OF inv less.prems(2)] by blast
  from work_decreases [OF inv less.prems(2) p1] consider "phase p1 = Joined" | "phase p1 = Notified" "pool_work p1 < pool_work p"
    by blast
  then show ?case
  proof cases
    case 1
    with p1 show ?thesis by (blast intro: pool_reaches.intros)
  next
    case 2
    obtain p2 where p2: "pool_reaches p1 p2" "phase p2 = Joined"
      using less.hyps [OF 2(2) pool_reaches.step [OF less.prems(1) p1] 2(1)] by blast
    from p2(1) have "pool_reaches p p2"
      by (induction rule: pool_reaches.induct) (use p1 in \<open>blast intro: pool_reaches.intros\<close>)+
    with p2(2) show ?thesis by blast
  qed
qed

lemma accepted_step: "pool_step p p' \<Longrightarrow> phase p \<noteq> Alive \<Longrightarrow> accepted p' = accepted p \<and> phase p' \<noteq> Alive"
  by (cases rule: pool_step.cases)
     (auto simp: run_task_def wait_or_take_def clear_flag_def wake_all_def join_all_def
        split: worker.splits list.splits if_splits)

lemma accepted_reaches:
  "pool_reaches p p' \<Longrightarrow> phase p \<noteq> Alive \<Longrightarrow> accepted p' = accepted p \<and> phase p' \<noteq> Alive"
  by (induction rule: pool_reaches.induct) (use accepted_step in \<open>auto\<close>)

lemma pool_reaches_trans: "pool_reaches p q \<Longrightarrow> pool_reaches q r \<Longrightarrow> pool_reaches p r"
  by (rotate_tac, induction rule: pool_reaches.induct) (auto intro: pool_reaches.step)

section \<open>Properties\<close>

text \<open>
  C25: Tasks are started in the order in which they were accepted, each once: in every reachable
  state the accepted tasks are the started ones followed by the queue, and the queue respects
  its bound.
\<close>

theorem pool_tasks_in_order:
  assumes "pool_reaches (Threadpool_ctor m k) p"
  shows "accepted p = started p @ m_tasks p \<and>
    (m_tasks p \<noteq> [] \<longrightarrow> int (length (m_tasks p)) \<le> max_tasks p mod 2 ^ 32)"
  using pool_inv_reaches [OF assms] by (auto simp: pool_inv_def)

text \<open>
  C26: No wake-up is lost: in a pool with threads, as long as a task is queued some thread that is
  not waiting can make a step.
\<close>

theorem pool_not_stuck:
  assumes "pool_reaches (Threadpool_ctor m k) p" and "0 < m" and "m_tasks p \<noteq> []"
  shows "\<exists>i p'. i < length (threads p) \<and> run_task i p = Some p'"
proof -
  note live = pool_live_reaches [OF assms(1,2)] and inv = pool_inv_reaches [OF assms(1)]
  from live assms(3) obtain i where i: "i < length (threads p)" "threads p ! i \<noteq> Waiting"
    by (auto simp: pool_live_def)
  have "threads p ! i \<noteq> Stopped" using inv assms(3) nth_mem [OF i(1)] by (auto simp: pool_inv_def)
  with i show ?thesis by (auto simp: run_task_def intro!: exI [of _ i] split: worker.splits)
qed

text \<open>
  C24: The destructor drains the queue and ends: once it has notified the threads every further run
  is bounded by the work that is left, the pool can be joined, and whenever it is joined every
  task that was accepted has been started.
\<close>

theorem pool_shutdown_drains:
  assumes "pool_reaches (Threadpool_ctor m k) p" and "0 < m" and "phase p = Notified"
  shows "(\<forall>p'. pool_step p p' \<longrightarrow> pool_work p' < pool_work p) \<and>
    (\<exists>p'. pool_reaches p p' \<and> phase p' = Joined) \<and>
    (\<forall>p'. pool_reaches p p' \<and> phase p' = Joined \<longrightarrow> started p' = accepted p)"
proof (intro conjI allI impI)
  note inv = pool_inv_reaches [OF assms(1)]
  show "pool_step p p' \<Longrightarrow> pool_work p' < pool_work p" for p'
    using work_decreases [OF inv assms(3)] by blast
  show "\<exists>p'. pool_reaches p p' \<and> phase p' = Joined" using shutdown_ends [OF assms(1,3)] .
  show "started p' = accepted p" if "pool_reaches p p' \<and> phase p' = Joined" for p'
  proof -
    have "pool_reaches (Threadpool_ctor m k) p'" using pool_reaches_trans assms(1) that by blast
    then have "pool_inv p'" "pool_live (nat m) p'" using pool_inv_reaches pool_live_reaches assms(2) by blast+
    with that have "accepted p' = started p'" by (simp add: pool_inv_def pool_live_def)
    with accepted_reaches [of p p'] that assms(3) show ?thesis by simp
  qed
qed

section \<open>A pool with one thread\<close>

text \<open>One task is assigned before the thread looks at the queue, and the pool is destroyed.\<close>

definition demo_pool :: "nat pool" where
  "demo_pool = snd (assign_task 0 7 (Threadpool_ctor 1 2))"

lemma demo_pool_eq: "demo_pool = \<lparr>threads = [Head], m_tasks = [7], max_tasks = 2, run_flag = True,
    phase = Alive, accepted = [7], started = []\<rparr>"
  by (simp add: demo_pool_def assign_task_def Threadpool_ctor_def init_threads_def notify_one_def)

lemma demo_pool_reached: "pool_reaches (Threadpool_ctor 1 2) demo_pool"
proof -
  have "pool_step (Threadpool_ctor 1 2) demo_pool"
    by (rule pool_step.Assign [of _ 0 7 True])
       (simp_all add: demo_pool_def assign_task_def Threadpool_ctor_def init_threads_def picks_def)
  then show ?thesis by (blast intro: pool_reaches.intros)
qed

lemma demo_pool_notified: "pool_reaches (Threadpool_ctor 1 2) (wake_all (clear_flag demo_pool))"
proof -
  have "pool_step demo_pool (clear_flag demo_pool)" by (rule pool_step.Clear_flag) (simp add: demo_pool_eq)
  moreover have "pool_step (clear_flag demo_pool) (wake_all (clear_flag demo_pool))"
    by (rule pool_step.Notify_all) (simp add: clear_flag_def)
  ultimately show ?thesis using demo_pool_reached by (blast intro: pool_reaches.step)
qed

lemma pool_tasks_in_order_witness:
  "accepted demo_pool = started demo_pool @ m_tasks demo_pool \<and> m_tasks demo_pool = [7] \<and>
   int (length (m_tasks demo_pool)) \<le> max_tasks demo_pool mod 2 ^ 32"
  using pool_tasks_in_order [OF demo_pool_reached] by (simp add: demo_pool_eq)

lemma pool_not_stuck_witness: "\<exists>i p'. i < length (threads demo_pool) \<and> run_task i demo_pool = Some p'"
  by (rule pool_not_stuck [OF demo_pool_reached]) (simp_all add: demo_pool_eq)

lemma pool_shutdown_drains_witness:
  "\<exists>p'. pool_reaches (wake_all (clear_flag demo_pool)) p' \<and> phase p' = Joined \<and> started p' = [7]"
proof -
  have "accepted (wake_all (clear_flag demo_pool)) = [7]" by (simp add: wake_all_def clear_flag_def demo_pool_eq)
  then show ?thesis
    using pool_shutdown_drains [OF demo_pool_notified] by (fastforce simp: wake_all_def)
qed

end
