(* ===== verification/Zero_Copy.thy ===== *)
theory Zero_Copy
  imports Prelude
begin

text \<open>
  The input side of the protobuf streams (\<open>google/protobuf/io/zero_copy_stream_impl_lite.cc\<close>,
  \<open>zero_copy_stream_impl.cc\<close>): the abstract class \<open>ZeroCopyInputStream\<close> as a record of its virtual
  functions with a locale for their contract, and the implementations. The program reads its
  messages through a \<open>FileInputStream\<close> over a socket.
\<close>

section \<open>The interface\<close>

text \<open>
  \<open>Next\<close> gives the next piece of the data, of any size, or nothing at the end; \<open>BackUp\<close> gives back the
  end of the last piece; a violated \<open>GOOGLE_CHECK\<close> is an \<open>Assert_fail\<close>.
\<close>

record 's zc_input =
  zc_Next :: "'s \<Rightarrow> (byte list option \<times> 's) res"
  zc_BackUp :: "int \<Rightarrow> 's \<Rightarrow> 's res"
  zc_Skip :: "int \<Rightarrow> 's \<Rightarrow> (bool \<times> 's) res"
  zc_ByteCount :: "'s \<Rightarrow> int"

text \<open>
  The contract, over the bytes \<open>rest s\<close> that are still to come: the pieces make up the rest in
  order, what is backed up comes again, and \<open>size_of\<close> bounds the number of pieces.
\<close>

locale zero_copy_input =
  fixes V :: "'s zc_input"
    and inv :: "'s \<Rightarrow> bool"
    and rest :: "'s \<Rightarrow> byte list"
    and size_of :: "'s \<Rightarrow> nat"
  assumes next_cases: "inv s \<Longrightarrow>
      (\<exists>d s'. zc_Next V s = Inr (Some d, s') \<and> inv s' \<and> rest s = d @ rest s' \<and> size_of s' < size_of s \<and>
         zc_ByteCount V s' = zc_ByteCount V s + int (length d)) \<or>
      (\<exists>s'. zc_Next V s = Inr (None, s') \<and> inv s' \<and> rest s = [] \<and> rest s' = [] \<and>
         zc_ByteCount V s' = zc_ByteCount V s)"
    and back_up: "inv s \<Longrightarrow> zc_Next V s = Inr (Some d, s1) \<Longrightarrow> 0 < n \<Longrightarrow> n \<le> int (length d) \<Longrightarrow>
      \<exists>s2. zc_BackUp V n s1 = Inr s2 \<and> inv s2 \<and> rest s2 = drop (length d - nat n) d @ rest s1 \<and>
         zc_ByteCount V s2 = zc_ByteCount V s1 - n"
    and skip: "inv s \<Longrightarrow> 0 \<le> n \<Longrightarrow>
      \<exists>b s'. zc_Skip V n s = Inr (b, s') \<and> inv s' \<and> rest s' = drop (nat n) (rest s) \<and>
         (0 < n \<longrightarrow> b = (n \<le> int (length (rest s)))) \<and> (\<not> b \<longrightarrow> rest s' = []) \<and>
         zc_ByteCount V s' = zc_ByteCount V s + min n (int (length (rest s)))"
begin

lemma nextE:
  assumes "inv s"
  obtains d s' where "zc_Next V s = Inr (Some d, s')" and "inv s'" and "rest s = d @ rest s'"
      and "size_of s' < size_of s" and "zc_ByteCount V s' = zc_ByteCount V s + int (length d)"
    | s' where "zc_Next V s = Inr (None, s')" and "inv s'" and "rest s = []" and "rest s' = []"
      and "zc_ByteCount V s' = zc_ByteCount V s"
  using next_cases [OF assms] by blast

end

section \<open>ArrayInputStream\<close>

record array_input =
  ai_data :: "byte list"
  ai_size :: int
  ai_block_size :: int
  ai_position :: int
  ai_last_returned_size :: int

definition ArrayInputStream_ctor :: "byte list \<Rightarrow> int \<Rightarrow> int \<Rightarrow> array_input" where
  "ArrayInputStream_ctor data sz block_size =
     \<lparr>ai_data = data, ai_size = sz, ai_block_size = if block_size > 0 then block_size else sz,
      ai_position = 0, ai_last_returned_size = 0\<rparr>"

text \<open>\<open>len\<close> bytes at \<open>data + start\<close>\<close>

definition slice :: "int \<Rightarrow> int \<Rightarrow> byte list \<Rightarrow> byte list" where
  "slice start len data = take (nat len) (drop (nat start) data)"

definition ArrayInputStream_Next :: "array_input \<Rightarrow> (byte list option \<times> array_input) res" where
  "ArrayInputStream_Next s =
     (if ai_position s < ai_size s then
        let s = s\<lparr>ai_last_returned_size := min (ai_block_size s) (ai_size s - ai_position s)\<rparr>;
            data = slice (ai_position s) (ai_last_returned_size s) (ai_data s)
        in Inr (Some data, s\<lparr>ai_position := ai_position s + ai_last_returned_size s\<rparr>)
      else Inr (None, s\<lparr>ai_last_returned_size := 0\<rparr>))"

definition ArrayInputStream_BackUp :: "int \<Rightarrow> array_input \<Rightarrow> array_input res" where
  "ArrayInputStream_BackUp count s =
     (if \<not> ai_last_returned_size s > 0 then Inl Assert_fail
      else if \<not> count \<le> ai_last_returned_size s then Inl Assert_fail
      else if \<not> count \<ge> 0 then Inl Assert_fail
      else Inr (s\<lparr>ai_position := ai_position s - count, ai_last_returned_size := 0\<rparr>))"

definition ArrayInputStream_Skip :: "int \<Rightarrow> array_input \<Rightarrow> (bool \<times> array_input) res" where
  "ArrayInputStream_Skip count s =
     (if \<not> count \<ge> 0 then Inl Assert_fail
      else
        let s = s\<lparr>ai_last_returned_size := 0\<rparr>
        in if count > ai_size s - ai_position s then Inr (False, s\<lparr>ai_position := ai_size s\<rparr>)
           else Inr (True, s\<lparr>ai_position := ai_position s + count\<rparr>))"

definition ArrayInputStream_ByteCount :: "array_input \<Rightarrow> int" where
  "ArrayInputStream_ByteCount s = ai_position s"

definition ArrayInputStream :: "array_input zc_input" where
  "ArrayInputStream = \<lparr>zc_Next = ArrayInputStream_Next, zc_BackUp = ArrayInputStream_BackUp,
     zc_Skip = ArrayInputStream_Skip, zc_ByteCount = ArrayInputStream_ByteCount\<rparr>"

definition array_inv :: "array_input \<Rightarrow> bool" where
  "array_inv s \<longleftrightarrow> ai_size s = int (length (ai_data s)) \<and> (0 < ai_size s \<longrightarrow> 0 < ai_block_size s) \<and>
     0 \<le> ai_position s \<and> ai_position s \<le> ai_size s"

definition array_rest :: "array_input \<Rightarrow> byte list" where
  "array_rest s = drop (nat (ai_position s)) (ai_data s)"

definition array_size :: "array_input \<Rightarrow> nat" where
  "array_size s = nat (ai_size s - ai_position s)"

lemma slice_append: "0 \<le> p \<Longrightarrow> 0 \<le> n \<Longrightarrow> slice p n xs @ drop (nat (p + n)) xs = drop (nat p) xs"
  by (simp add: slice_def nat_add_distrib add.commute [of "nat p"] flip: drop_drop)

lemma length_slice: "0 \<le> p \<Longrightarrow> 0 \<le> n \<Longrightarrow> p + n \<le> int (length xs) \<Longrightarrow> int (length (slice p n xs)) = n"
  by (simp add: slice_def)

interpretation array_in: zero_copy_input ArrayInputStream array_inv array_rest array_size
proof unfold_locales
  fix s :: array_input
  assume inv: "array_inv s"
  let ?n = "min (ai_block_size s) (ai_size s - ai_position s)"
  show "(\<exists>d s'. zc_Next ArrayInputStream s = Inr (Some d, s') \<and> array_inv s' \<and> array_rest s = d @ array_rest s' \<and>
        array_size s' < array_size s \<and>
        zc_ByteCount ArrayInputStream s' = zc_ByteCount ArrayInputStream s + int (length d)) \<or>
      (\<exists>s'. zc_Next ArrayInputStream s = Inr (None, s') \<and> array_inv s' \<and> array_rest s = [] \<and> array_rest s' = [] \<and>
        zc_ByteCount ArrayInputStream s' = zc_ByteCount ArrayInputStream s)"
  proof (cases "ai_position s < ai_size s")
    case True
    with inv have "0 < ?n" "ai_position s + ?n \<le> ai_size s" by (auto simp: array_inv_def)
    with inv True slice_append [of "ai_position s" ?n "ai_data s"] length_slice [of "ai_position s" ?n "ai_data s"]
    show ?thesis
      by (simp add: ArrayInputStream_def ArrayInputStream_Next_def ArrayInputStream_ByteCount_def array_inv_def
          array_rest_def array_size_def Let_def)
  next
    case False
    with inv show ?thesis
      by (simp add: ArrayInputStream_def ArrayInputStream_Next_def ArrayInputStream_ByteCount_def array_inv_def array_rest_def)
  qed
next
  fix s s1 :: array_input and d n
  assume inv: "array_inv s" and nxt: "zc_Next ArrayInputStream s = Inr (Some d, s1)" and n: "0 < n" "n \<le> int (length d)"
  from nxt obtain k where pos: "ai_position s < ai_size s" and d: "d = slice (ai_position s) k (ai_data s)"
    and k_min: "k = min (ai_block_size s) (ai_size s - ai_position s)"
    and s1: "s1 = s\<lparr>ai_last_returned_size := k, ai_position := ai_position s + k\<rparr>"
    by (auto simp: ArrayInputStream_def ArrayInputStream_Next_def Let_def split: if_splits)
  from inv pos k_min have k: "0 < k" "ai_position s + k \<le> ai_size s" by (auto simp: array_inv_def)
  have len: "int (length d) = k" using inv k length_slice [of "ai_position s" k "ai_data s"] by (simp add: d array_inv_def)
  with n have nk: "n \<le> k" by simp
  from inv have p: "0 \<le> ai_position s" by (simp add: array_inv_def)
  let ?s2 = "s1\<lparr>ai_position := ai_position s1 - n, ai_last_returned_size := 0\<rparr>"
  have "nat (ai_position s + k - n) = nat (k - n) + nat (ai_position s)"
    using p nk by (simp add: nat_add_distrib [symmetric] algebra_simps)
  then have "array_rest ?s2 = drop (nat (k - n)) (drop (nat (ai_position s)) (ai_data s))"
    by (simp add: array_rest_def s1)
  also have "drop (nat (ai_position s)) (ai_data s) = d @ array_rest s1"
    using p k slice_append [of "ai_position s" k "ai_data s"] by (simp add: d s1 array_rest_def)
  also have "nat (k - n) = length d - nat n" using n len by (simp add: nat_diff_distrib)
  finally have "array_rest ?s2 = drop (length d - nat n) d @ array_rest s1" by simp
  moreover have "zc_BackUp ArrayInputStream n s1 = Inr ?s2"
    using n nk k by (simp add: ArrayInputStream_def ArrayInputStream_BackUp_def s1)
  moreover have "array_inv ?s2" using inv n nk k by (simp add: s1 array_inv_def)
  ultimately show "\<exists>s2. zc_BackUp ArrayInputStream n s1 = Inr s2 \<and> array_inv s2 \<and>
      array_rest s2 = drop (length d - nat n) d @ array_rest s1 \<and>
      zc_ByteCount ArrayInputStream s2 = zc_ByteCount ArrayInputStream s1 - n"
    by (intro exI [of _ ?s2]) (simp add: ArrayInputStream_def ArrayInputStream_ByteCount_def)
next
  fix s :: array_input and n :: int
  assume "array_inv s" and "0 \<le> n"
  then show "\<exists>b s'. zc_Skip ArrayInputStream n s = Inr (b, s') \<and> array_inv s' \<and>
      array_rest s' = drop (nat n) (array_rest s) \<and> (0 < n \<longrightarrow> b = (n \<le> int (length (array_rest s)))) \<and>
      (\<not> b \<longrightarrow> array_rest s' = []) \<and>
      zc_ByteCount ArrayInputStream s' = zc_ByteCount ArrayInputStream s + min n (int (length (array_rest s)))"
    by (auto simp: ArrayInputStream_def ArrayInputStream_Skip_def ArrayInputStream_ByteCount_def array_inv_def
        array_rest_def Let_def nat_add_distrib add.commute)
qed

end
