(* ===== verification/File_Stream.thy ===== *)
theory File_Stream
  imports Zero_Copy
begin

text \<open>
  Reading from a file descriptor (\<open>FileInputStream\<close> in \<open>zero_copy_stream_impl.cc\<close>, and the adaptor it
  is built on in \<open>zero_copy_stream_impl_lite.cc\<close>). What the kernel will answer to the calls of
  \<open>read\<close> is part of the state: pieces of data, errors, and the end.
\<close>

section \<open>The descriptor\<close>

datatype read_event =
    Arrives "byte list"
  | Fails int              \<comment> \<open>-1 with this \<open>errno\<close>\<close>

datatype read_result =
    Bytes "byte list"      \<comment> \<open>empty at the end of the file\<close>
  | Read_error int

definition EINTR :: int where
  "EINTR = 4"

text \<open>One call of \<open>read\<close> for up to \<open>k\<close> bytes.\<close>

fun os_read :: "int \<Rightarrow> read_event list \<Rightarrow> read_result \<times> read_event list" where
  "os_read k [] = (Bytes [], [])"
| "os_read k (Fails e # evs) = (Read_error e, evs)"
| "os_read k (Arrives s # evs) =
     (Bytes (take (nat k) s), if int (length s) \<le> k then evs else Arrives (drop (nat k) s) # evs)"

record copying_file =
  cf_events :: "read_event list"
  cf_seekable :: bool             \<comment> \<open>whether \<open>lseek\<close> succeeds; not on a socket\<close>
  cf_seek_past :: "read_event list \<Rightarrow> int \<Rightarrow> read_event list"   \<comment> \<open>what is read after seeking\<close>
  cf_close_on_delete :: bool
  cf_is_closed :: bool
  cf_errno :: int
  cf_previous_seek_failed :: bool

definition CopyingFileInputStream_ctor :: "read_event list \<Rightarrow> bool \<Rightarrow> (read_event list \<Rightarrow> int \<Rightarrow> read_event list) \<Rightarrow> copying_file" where
  "CopyingFileInputStream_ctor evs seekable seek_past =
     \<lparr>cf_events = evs, cf_seekable = seekable, cf_seek_past = seek_past, cf_close_on_delete = False,
      cf_is_closed = False, cf_errno = 0, cf_previous_seek_failed = False\<rparr>"

text \<open>The results of the calls of \<open>close\<close>, with their \<open>errno\<close>: repeated while interrupted.\<close>

fun close_no_eintr :: "(int \<times> int) list \<Rightarrow> int \<times> int" where
  "close_no_eintr [] = (0, 0)"
| "close_no_eintr ((result, e) # rets) =
     (if result < 0 \<and> e = EINTR then close_no_eintr rets else (result, e))"

definition CopyingFileInputStream_Close :: "(int \<times> int) list \<Rightarrow> copying_file \<Rightarrow> (bool \<times> copying_file) res" where
  "CopyingFileInputStream_Close rets c =
     (if cf_is_closed c then Inl Assert_fail
      else
        let c = c\<lparr>cf_is_closed := True\<rparr>; (result, e) = close_no_eintr rets
        in if result \<noteq> 0 then Inr (False, c\<lparr>cf_errno := e\<rparr>) else Inr (True, c))"

fun read_no_eintr :: "int \<Rightarrow> read_event list \<Rightarrow> read_result \<times> read_event list" where
  "read_no_eintr k (Fails e # evs) = (if e = EINTR then read_no_eintr k evs else (Read_error e, evs))"
| "read_no_eintr k evs = os_read k evs"

definition CopyingFileInputStream_Read :: "int \<Rightarrow> copying_file \<Rightarrow> (read_result \<times> copying_file) res" where
  "CopyingFileInputStream_Read k c =
     (if cf_is_closed c then Inl Assert_fail
      else case read_no_eintr k (cf_events c) of
          (Bytes bs, evs) \<Rightarrow> Inr (Bytes bs, c\<lparr>cf_events := evs\<rparr>)
        | (Read_error e, evs) \<Rightarrow> Inr (Read_error e, c\<lparr>cf_events := evs, cf_errno := e\<rparr>))"

section \<open>Copying streams\<close>

text \<open>
  The default \<open>CopyingInputStream::Skip\<close> over the \<open>Read\<close> of the subclass; \<open>skipped\<close> counts what was
  read into the junk buffer.
\<close>

function CopyingInputStream_Skip ::
    "(int \<Rightarrow> 'c \<Rightarrow> (read_result \<times> 'c) res) \<Rightarrow> int \<Rightarrow> int \<Rightarrow> 'c \<Rightarrow> (int \<times> 'c) res" where
  "CopyingInputStream_Skip read count skipped c =
     (if skipped < count then
        (case read (min (count - skipped) 4096) c of
           Inl e \<Rightarrow> Inl e
         | Inr (Read_error e, c) \<Rightarrow> Inr (skipped, c)
         | Inr (Bytes bs, c) \<Rightarrow>
             if bs = [] then Inr (skipped, c)
             else CopyingInputStream_Skip read count (skipped + int (length bs)) c)
      else Inr (skipped, c))"
  by pat_completeness auto
termination
  by (relation "measure (\<lambda>(_, count, skipped, _). nat (count - skipped))") auto

declare CopyingInputStream_Skip.simps [simp del]

definition CopyingFileInputStream_Skip :: "int \<Rightarrow> copying_file \<Rightarrow> (int \<times> copying_file) res" where
  "CopyingFileInputStream_Skip count c =
     (if cf_is_closed c then Inl Assert_fail
      else if \<not> cf_previous_seek_failed c \<and> cf_seekable c then
        Inr (count, c\<lparr>cf_events := cf_seek_past c (cf_events c) count\<rparr>)
      else CopyingInputStream_Skip CopyingFileInputStream_Read count 0 (c\<lparr>cf_previous_seek_failed := True\<rparr>))"

section \<open>The adaptor\<close>

text \<open>
  \<open>ca_buffer\<close> is \<open>None\<close> when it is not allocated; of an allocated one only the \<open>buffer_used\<close> bytes of
  the last read are ever looked at, and only those are kept.
\<close>

record 'c adaptor =
  copying_stream :: 'c
  ca_failed :: bool
  ca_position :: int
  buffer_size :: int
  buffer_used :: int
  backup_bytes :: int
  ca_buffer :: "byte list option"

definition kDefaultBlockSize :: int where
  "kDefaultBlockSize = 8192"

definition CopyingInputStreamAdaptor_ctor :: "'c \<Rightarrow> int \<Rightarrow> 'c adaptor" where
  "CopyingInputStreamAdaptor_ctor c block_size =
     \<lparr>copying_stream = c, ca_failed = False, ca_position = 0,
      buffer_size = if block_size > 0 then block_size else kDefaultBlockSize,
      buffer_used = 0, backup_bytes = 0, ca_buffer = None\<rparr>"

definition AllocateBufferIfNeeded :: "'c adaptor \<Rightarrow> 'c adaptor" where
  "AllocateBufferIfNeeded a = (case ca_buffer a of None \<Rightarrow> a\<lparr>ca_buffer := Some []\<rparr> | Some _ \<Rightarrow> a)"

definition FreeBuffer :: "'c adaptor \<Rightarrow> 'c adaptor res" where
  "FreeBuffer a = (if backup_bytes a \<noteq> 0 then Inl Assert_fail else Inr (a\<lparr>buffer_used := 0, ca_buffer := None\<rparr>))"

definition buffer_get :: "'c adaptor \<Rightarrow> byte list" where
  "buffer_get a = (case ca_buffer a of None \<Rightarrow> [] | Some bs \<Rightarrow> bs)"

definition Adaptor_Next ::
    "(int \<Rightarrow> 'c \<Rightarrow> (read_result \<times> 'c) res) \<Rightarrow> 'c adaptor \<Rightarrow> (byte list option \<times> 'c adaptor) res" where
  "Adaptor_Next read a =
     (if ca_failed a then Inr (None, a)
      else
        let a = AllocateBufferIfNeeded a
        in if backup_bytes a > 0 then
             let data = slice (buffer_used a - backup_bytes a) (backup_bytes a) (buffer_get a)
             in Inr (Some data, a\<lparr>backup_bytes := 0\<rparr>)
           else
             bind_res (read (buffer_size a) (copying_stream a)) (\<lambda>(r, c).
               let a = a\<lparr>copying_stream := c\<rparr>
               in case r of
                    Read_error e \<Rightarrow>
                      bind_res (FreeBuffer (a\<lparr>buffer_used := - 1, ca_failed := True\<rparr>)) (\<lambda>a. Inr (None, a))
                  | Bytes bs \<Rightarrow>
                      let a = a\<lparr>buffer_used := int (length bs), ca_buffer := Some bs\<rparr>
                      in if bs = [] then bind_res (FreeBuffer a) (\<lambda>a. Inr (None, a))
                         else Inr (Some (slice 0 (buffer_used a) bs), a\<lparr>ca_position := ca_position a + buffer_used a\<rparr>)))"

definition Adaptor_BackUp :: "int \<Rightarrow> 'c adaptor \<Rightarrow> 'c adaptor res" where
  "Adaptor_BackUp count a =
     (if \<not> (backup_bytes a = 0 \<and> ca_buffer a \<noteq> None) then Inl Assert_fail
      else if \<not> count \<le> buffer_used a then Inl Assert_fail
      else if \<not> count \<ge> 0 then Inl Assert_fail
      else Inr (a\<lparr>backup_bytes := count\<rparr>))"

definition Adaptor_Skip ::
    "(int \<Rightarrow> 'c \<Rightarrow> (int \<times> 'c) res) \<Rightarrow> int \<Rightarrow> 'c adaptor \<Rightarrow> (bool \<times> 'c adaptor) res" where
  "Adaptor_Skip skip count a =
     (if \<not> count \<ge> 0 then Inl Assert_fail
      else if ca_failed a then Inr (False, a)
      else if backup_bytes a \<ge> count then Inr (True, a\<lparr>backup_bytes := backup_bytes a - count\<rparr>)
      else
        let count = count - backup_bytes a; a = a\<lparr>backup_bytes := 0\<rparr>
        in bind_res (skip count (copying_stream a)) (\<lambda>(skipped, c).
             Inr (skipped = count, a\<lparr>copying_stream := c, ca_position := ca_position a + skipped\<rparr>)))"

definition Adaptor_ByteCount :: "'c adaptor \<Rightarrow> int" where
  "Adaptor_ByteCount a = ca_position a - backup_bytes a"

section \<open>FileInputStream\<close>

type_synonym file_input = "copying_file adaptor"

definition FileInputStream_ctor ::
    "read_event list \<Rightarrow> bool \<Rightarrow> (read_event list \<Rightarrow> int \<Rightarrow> read_event list) \<Rightarrow> int \<Rightarrow> file_input" where
  "FileInputStream_ctor evs seekable seek_past block_size =
     CopyingInputStreamAdaptor_ctor (CopyingFileInputStream_ctor evs seekable seek_past) block_size"

definition FileInputStream :: "file_input zc_input" where
  "FileInputStream = \<lparr>zc_Next = Adaptor_Next CopyingFileInputStream_Read, zc_BackUp = Adaptor_BackUp,
     zc_Skip = Adaptor_Skip CopyingFileInputStream_Skip, zc_ByteCount = Adaptor_ByteCount\<rparr>"

section \<open>The bytes of a descriptor\<close>

text \<open>What will arrive: everything up to the end or an error other than an interruption.\<close>

fun fd_bytes :: "read_event list \<Rightarrow> byte list" where
  "fd_bytes [] = []"
| "fd_bytes (Arrives s # evs) = s @ fd_bytes evs"
| "fd_bytes (Fails e # evs) = (if e = EINTR then fd_bytes evs else [])"

text \<open>A bound on the number of reads.\<close>

fun fd_size :: "read_event list \<Rightarrow> nat" where
  "fd_size [] = 0"
| "fd_size (Arrives s # evs) = length s + fd_size evs"
| "fd_size (Fails e # evs) = fd_size evs"

text \<open>No empty piece before the end, and an error is final.\<close>

fun events_ok :: "read_event list \<Rightarrow> bool" where
  "events_ok [] = True"
| "events_ok (Arrives s # evs) = (s \<noteq> [] \<and> events_ok evs)"
| "events_ok (Fails e # evs) = (events_ok evs \<and> (e \<noteq> EINTR \<longrightarrow> fd_bytes evs = []))"

text \<open>What a read does to the bytes still to come.\<close>

definition read_spec :: "int \<Rightarrow> read_event list \<Rightarrow> read_result \<Rightarrow> read_event list \<Rightarrow> bool" where
  "read_spec k evs r evs' \<longleftrightarrow> events_ok evs' \<and> fd_size evs' \<le> fd_size evs \<and>
     (case r of
        Bytes bs \<Rightarrow> fd_bytes evs = bs @ fd_bytes evs' \<and> int (length bs) \<le> k \<and>
          (if bs = [] then fd_bytes evs = [] else fd_size evs' < fd_size evs)
      | Read_error e \<Rightarrow> fd_bytes evs = [] \<and> fd_bytes evs' = [])"

lemma read_no_eintr_spec:
  "events_ok evs \<Longrightarrow> 0 < k \<Longrightarrow> read_no_eintr k evs = (r, evs') \<Longrightarrow> read_spec k evs r evs'"
proof (induction k evs rule: read_no_eintr.induct)
  case (1 k e evs)
  then show ?case by (auto simp: read_spec_def split: if_splits read_result.splits)
qed (auto simp: read_spec_def le_nat_iff split: if_splits)

section \<open>FileInputStream keeps the contract\<close>

text \<open>
  The descriptor is open, is not seekable (a socket), delivers no empty piece before its end, and
  an error on it is final.
\<close>

definition file_ok :: "copying_file \<Rightarrow> bool" where
  "file_ok c \<longleftrightarrow> \<not> cf_is_closed c \<and> \<not> cf_seekable c \<and> events_ok (cf_events c)"

lemma CopyingFileInputStream_Read_spec:
  assumes "file_ok c" and "0 < k"
  obtains r c' where "CopyingFileInputStream_Read k c = Inr (r, c')" and "file_ok c'"
    and "read_spec k (cf_events c) r (cf_events c')"
proof -
  obtain r evs' where r: "read_no_eintr k (cf_events c) = (r, evs')" by (cases "read_no_eintr k (cf_events c)")
  have spec: "read_spec k (cf_events c) r evs'"
    using assms r by (intro read_no_eintr_spec) (simp_all add: file_ok_def)
  then have "events_ok evs'" by (simp add: read_spec_def)
  with assms(1) r spec that [of r "c\<lparr>cf_events := evs'\<rparr>"] that [of r "c\<lparr>cf_events := evs', cf_errno := _\<rparr>"]
  show thesis by (cases r) (auto simp: CopyingFileInputStream_Read_def file_ok_def)
qed

text \<open>Skipping reads as far as it can.\<close>

lemma CopyingInputStream_Skip_result:
  assumes "file_ok c" and "skipped \<le> count"
  shows "\<exists>c'. CopyingInputStream_Skip CopyingFileInputStream_Read count skipped c =
      Inr (skipped + min (count - skipped) (int (length (fd_bytes (cf_events c)))), c') \<and>
    file_ok c' \<and> fd_bytes (cf_events c') = drop (nat (count - skipped)) (fd_bytes (cf_events c)) \<and>
    fd_size (cf_events c') \<le> fd_size (cf_events c)"
  using assms
proof (induction "nat (count - skipped)" arbitrary: skipped c rule: less_induct)
  case less
  show ?case
  proof (cases "skipped < count")
    case False
    then have "count = skipped" using less.prems(2) by simp
    with less.prems(1) show ?thesis by (subst CopyingInputStream_Skip.simps) simp
  next
    case True
    then have "0 < min (count - skipped) 4096" by simp
    with less.prems(1) obtain r c1 where r: "CopyingFileInputStream_Read (min (count - skipped) 4096) c = Inr (r, c1)"
      and c1: "file_ok c1" and spec: "read_spec (min (count - skipped) 4096) (cf_events c) r (cf_events c1)"
      by (rule CopyingFileInputStream_Read_spec)
    show ?thesis
    proof (cases "\<exists>bs. r = Bytes bs \<and> bs \<noteq> []")
      case False
      with True r c1 spec show ?thesis
        by (subst CopyingInputStream_Skip.simps) (auto simp: read_spec_def split: read_result.splits)
    next
      case True
      then obtain bs where bs: "r = Bytes bs" "bs \<noteq> []" by blast
      let ?s = "skipped + int (length bs)"
      have le: "?s \<le> count" using spec bs by (simp add: read_spec_def)
      have "nat (count - ?s) < nat (count - skipped)" using \<open>skipped < count\<close> bs(2) by simp
      from less.hyps [OF this c1 le] obtain c' where
        c': "CopyingInputStream_Skip CopyingFileInputStream_Read count ?s c1 =
          Inr (?s + min (count - ?s) (int (length (fd_bytes (cf_events c1)))), c')" "file_ok c'"
        "fd_bytes (cf_events c') = drop (nat (count - ?s)) (fd_bytes (cf_events c1))"
        "fd_size (cf_events c') \<le> fd_size (cf_events c1)" by blast
      have "nat (count - skipped) = nat (count - ?s) + length bs" using le by simp
      then have "drop (nat (count - skipped)) (fd_bytes (cf_events c)) = drop (nat (count - ?s)) (fd_bytes (cf_events c1))"
        using spec bs by (simp add: read_spec_def)
      with c' spec bs r \<open>skipped < count\<close> show ?thesis
        by (subst CopyingInputStream_Skip.simps) (auto simp: read_spec_def)
    qed
  qed
qed

text \<open>
  What is still to come from an adaptor: what was backed up, then the descriptor.
\<close>

definition file_inv :: "file_input \<Rightarrow> bool" where
  "file_inv a \<longleftrightarrow> file_ok (copying_stream a) \<and> 0 < buffer_size a \<and> 0 \<le> backup_bytes a \<and>
     backup_bytes a \<le> buffer_used a \<and> buffer_used a = int (length (buffer_get a)) \<and>
     (ca_failed a \<longrightarrow> backup_bytes a = 0 \<and> fd_bytes (cf_events (copying_stream a)) = [])"

definition file_rest :: "file_input \<Rightarrow> byte list" where
  "file_rest a = drop (nat (buffer_used a - backup_bytes a)) (buffer_get a) @ fd_bytes (cf_events (copying_stream a))"

definition file_size :: "file_input \<Rightarrow> nat" where
  "file_size a = nat (backup_bytes a) + fd_size (cf_events (copying_stream a))"

lemma file_next:
  assumes inv: "file_inv a"
  shows "(\<exists>d a'. Adaptor_Next CopyingFileInputStream_Read a = Inr (Some d, a') \<and> file_inv a' \<and>
      file_rest a = d @ file_rest a' \<and> file_size a' < file_size a \<and>
      Adaptor_ByteCount a' = Adaptor_ByteCount a + int (length d) \<and>
      (\<exists>p. ca_buffer a' = Some (p @ d)) \<and> backup_bytes a' = 0) \<or>
    (\<exists>a'. Adaptor_Next CopyingFileInputStream_Read a = Inr (None, a') \<and> file_inv a' \<and> file_rest a = [] \<and>
      file_rest a' = [] \<and> Adaptor_ByteCount a' = Adaptor_ByteCount a)"
proof -
  consider "ca_failed a" | "\<not> ca_failed a" "0 < backup_bytes a" | "\<not> ca_failed a" "backup_bytes a = 0"
    using inv by (force simp: file_inv_def)
  then show ?thesis
  proof cases
    case 1
    with inv show ?thesis by (simp add: Adaptor_Next_def file_inv_def file_rest_def)
  next
    case 2
    then obtain bs where bs: "ca_buffer a = Some bs" using inv by (cases "ca_buffer a") (auto simp: file_inv_def buffer_get_def)
    let ?p = "nat (buffer_used a - backup_bytes a)"
    have "slice (buffer_used a - backup_bytes a) (backup_bytes a) bs = drop ?p bs"
      using inv bs by (simp add: slice_def file_inv_def buffer_get_def)
    with 2 bs have nxt: "Adaptor_Next CopyingFileInputStream_Read a = Inr (Some (drop ?p bs), a\<lparr>backup_bytes := 0\<rparr>)"
      by (simp add: Adaptor_Next_def AllocateBufferIfNeeded_def buffer_get_def Let_def)
    have "int (length (drop ?p bs)) = backup_bytes a" using inv bs by (auto simp: file_inv_def buffer_get_def)
    with nxt inv bs 2 show ?thesis
      by (intro disjI1 exI [of _ "drop ?p bs"] exI [of _ "a\<lparr>backup_bytes := 0\<rparr>"])
         (auto simp: file_inv_def file_rest_def file_size_def Adaptor_ByteCount_def buffer_get_def
            intro: exI [of _ "take ?p bs"])
  next
    case 3
    obtain r c where r: "CopyingFileInputStream_Read (buffer_size a) (copying_stream a) = Inr (r, c)"
      and c: "file_ok c" and spec: "read_spec (buffer_size a) (cf_events (copying_stream a)) r (cf_events c)"
      using inv by (auto simp: file_inv_def elim: CopyingFileInputStream_Read_spec)
    let ?a = "AllocateBufferIfNeeded a"
    have alloc: "copying_stream ?a = copying_stream a" "buffer_size ?a = buffer_size a" "ca_failed ?a = ca_failed a"
      "backup_bytes ?a = backup_bytes a" "ca_position ?a = ca_position a"
      by (simp_all add: AllocateBufferIfNeeded_def split: option.split)
    have old: "file_rest a = fd_bytes (cf_events (copying_stream a))"
      using inv 3 by (simp add: file_inv_def file_rest_def)
    show ?thesis
    proof (cases r)
      case (Read_error e)
      with r c spec 3 inv old show ?thesis
        by (intro disjI2 exI [of _ "?a\<lparr>copying_stream := c, buffer_used := 0, ca_failed := True, ca_buffer := None\<rparr>"])
           (simp add: Adaptor_Next_def alloc FreeBuffer_def read_spec_def file_inv_def file_rest_def
              Adaptor_ByteCount_def buffer_get_def Let_def)
    next
      case (Bytes bs)
      show ?thesis
      proof (cases "bs = []")
        case True
        with Bytes r c spec 3 inv old show ?thesis
          by (intro disjI2 exI [of _ "?a\<lparr>copying_stream := c, buffer_used := 0, ca_buffer := None\<rparr>"])
             (auto simp: Adaptor_Next_def alloc FreeBuffer_def read_spec_def file_inv_def file_rest_def
                Adaptor_ByteCount_def buffer_get_def Let_def)
      next
        case False
        let ?a' = "?a\<lparr>copying_stream := c, buffer_used := int (length bs), ca_buffer := Some bs,
          ca_position := ca_position a + int (length bs)\<rparr>"
        have "Adaptor_Next CopyingFileInputStream_Read a = Inr (Some bs, ?a')"
          using Bytes r 3 False by (simp add: Adaptor_Next_def alloc slice_def Let_def)
        with Bytes c spec 3 inv old False show ?thesis
          by (intro disjI1 exI [of _ bs] exI [of _ ?a'])
             (simp add: alloc read_spec_def file_inv_def file_rest_def file_size_def Adaptor_ByteCount_def buffer_get_def)
      qed
    qed
  qed
qed

lemma file_back_up:
  assumes "file_inv a" and "ca_buffer a = Some (p @ d)" and "backup_bytes a = 0" and "0 < n" and "n \<le> int (length d)"
    and "\<not> ca_failed a"
  shows "\<exists>a'. Adaptor_BackUp n a = Inr a' \<and> file_inv a' \<and> file_rest a' = drop (length d - nat n) d @ file_rest a \<and>
    Adaptor_ByteCount a' = Adaptor_ByteCount a - n"
proof -
  have "buffer_used a = int (length p) + int (length d)" using assms(1,2) by (simp add: file_inv_def buffer_get_def)
  moreover have "nat (int (length p) + int (length d) - n) = length p + (length d - nat n)" using assms(4,5) by linarith
  ultimately show ?thesis
    using assms by (simp add: Adaptor_BackUp_def file_inv_def file_rest_def Adaptor_ByteCount_def buffer_get_def)
qed

lemma file_skip:
  assumes inv: "file_inv a" and n: "0 \<le> n"
  shows "\<exists>b a'. Adaptor_Skip CopyingFileInputStream_Skip n a = Inr (b, a') \<and> file_inv a' \<and>
    file_rest a' = drop (nat n) (file_rest a) \<and> (0 < n \<longrightarrow> b = (n \<le> int (length (file_rest a)))) \<and>
    (\<not> b \<longrightarrow> file_rest a' = []) \<and>
    Adaptor_ByteCount a' = Adaptor_ByteCount a + min n (int (length (file_rest a)))"
proof -
  consider "ca_failed a" | "\<not> ca_failed a" "n \<le> backup_bytes a" | "\<not> ca_failed a" "backup_bytes a < n" by linarith
  then show ?thesis
  proof cases
    case 1
    with inv n show ?thesis
      by (intro exI [of _ False] exI [of _ a]) (simp add: Adaptor_Skip_def file_inv_def file_rest_def Adaptor_ByteCount_def)
  next
    case 2
    let ?p = "nat (buffer_used a - backup_bytes a)" let ?a = "a\<lparr>backup_bytes := backup_bytes a - n\<rparr>"
    have p: "nat (buffer_used a - (backup_bytes a - n)) = ?p + nat n" "?p + nat n \<le> length (buffer_get a)"
      using 2 inv n by (auto simp: file_inv_def)
    have g: "buffer_get ?a = buffer_get a" by (simp add: buffer_get_def)
    have "file_rest ?a = drop (nat n) (file_rest a)"
      using p by (simp add: file_rest_def g add.commute)
    moreover have "nat n \<le> length (file_rest a)" using p(2) unfolding file_rest_def length_append length_drop by linarith
    ultimately show ?thesis
      using 2 inv n
      by (intro exI [of _ True] exI [of _ ?a]) (simp add: Adaptor_Skip_def file_inv_def g Adaptor_ByteCount_def nat_le_iff)
  next
    case 3
    let ?c = "copying_stream a" let ?n = "n - backup_bytes a"
    have "file_ok (?c\<lparr>cf_previous_seek_failed := True\<rparr>)" "0 \<le> ?n"
      using inv 3 by (simp_all add: file_inv_def file_ok_def)
    from CopyingInputStream_Skip_result [OF this] obtain c'
      where s: "CopyingInputStream_Skip CopyingFileInputStream_Read ?n 0 (?c\<lparr>cf_previous_seek_failed := True\<rparr>) =
        Inr (min ?n (int (length (fd_bytes (cf_events ?c)))), c')" "file_ok c'"
      "fd_bytes (cf_events c') = drop (nat ?n) (fd_bytes (cf_events ?c))" by auto
    then have k: "CopyingFileInputStream_Skip ?n ?c = Inr (min ?n (int (length (fd_bytes (cf_events ?c)))), c')"
      using inv by (simp add: CopyingFileInputStream_Skip_def file_inv_def file_ok_def)
    have len: "length (file_rest a) = nat (backup_bytes a) + length (fd_bytes (cf_events ?c))"
      using inv by (auto simp: file_inv_def file_rest_def)
    have "drop (nat n) (file_rest a) = drop (nat ?n) (fd_bytes (cf_events ?c))"
      using inv 3 by (auto simp: file_inv_def file_rest_def nat_diff_distrib)
    with k s(2,3) 3 inv n len show ?thesis
      by (auto simp: Adaptor_Skip_def file_inv_def file_rest_def Adaptor_ByteCount_def buffer_get_def Let_def)
  qed
qed

interpretation file_in: zero_copy_input FileInputStream file_inv file_rest file_size
proof unfold_locales
  fix a :: file_input
  assume "file_inv a"
  from file_next [OF this] show "(\<exists>d s'. zc_Next FileInputStream a = Inr (Some d, s') \<and> file_inv s' \<and>
        file_rest a = d @ file_rest s' \<and> file_size s' < file_size a \<and>
        zc_ByteCount FileInputStream s' = zc_ByteCount FileInputStream a + int (length d)) \<or>
      (\<exists>s'. zc_Next FileInputStream a = Inr (None, s') \<and> file_inv s' \<and> file_rest a = [] \<and> file_rest s' = [] \<and>
        zc_ByteCount FileInputStream s' = zc_ByteCount FileInputStream a)"
    by (auto simp: FileInputStream_def)
next
  fix a a1 :: file_input and d n
  assume inv: "file_inv a" and nxt: "zc_Next FileInputStream a = Inr (Some d, a1)" and n: "0 < n" "n \<le> int (length d)"
  from file_next [OF inv] nxt obtain p where "file_inv a1" "ca_buffer a1 = Some (p @ d)" "backup_bytes a1 = 0"
    by (auto simp: FileInputStream_def)
  moreover have "\<not> ca_failed a1"
    using nxt by (auto simp: FileInputStream_def Adaptor_Next_def AllocateBufferIfNeeded_def FreeBuffer_def Let_def
        bind_res_Inr_iff split: if_splits option.splits read_result.splits)
  ultimately show "\<exists>s2. zc_BackUp FileInputStream n a1 = Inr s2 \<and> file_inv s2 \<and>
      file_rest s2 = drop (length d - nat n) d @ file_rest a1 \<and>
      zc_ByteCount FileInputStream s2 = zc_ByteCount FileInputStream a1 - n"
    using file_back_up n by (simp add: FileInputStream_def)
next
  fix a :: file_input and n :: int
  assume "file_inv a" and "0 \<le> n"
  from file_skip [OF this] show "\<exists>b s'. zc_Skip FileInputStream n a = Inr (b, s') \<and> file_inv s' \<and>
      file_rest s' = drop (nat n) (file_rest a) \<and> (0 < n \<longrightarrow> b = (n \<le> int (length (file_rest a)))) \<and>
    (\<not> b \<longrightarrow> file_rest s' = []) \<and>
      zc_ByteCount FileInputStream s' = zc_ByteCount FileInputStream a + min n (int (length (file_rest a)))"
    by (simp add: FileInputStream_def)
qed

end
