(* ===== verification/Zero_Copy_More.thy ===== *)
theory Zero_Copy_More
  imports File_Stream
begin

text \<open>
  The streams that are built on other streams (\<open>LimitingInputStream\<close>, \<open>ConcatenatingInputStream\<close>).
  Each keeps the contract of \<open>ZeroCopyInputStream\<close> if the streams below do.
\<close>

section \<open>LimitingInputStream\<close>

record 's limiting_input =
  li_input :: 's
  li_limit :: int
  li_prior_bytes_read :: int

definition LimitingInputStream_ctor :: "'s zc_input \<Rightarrow> 's \<Rightarrow> int \<Rightarrow> 's limiting_input" where
  "LimitingInputStream_ctor V input limit =
     \<lparr>li_input = input, li_limit = limit, li_prior_bytes_read = zc_ByteCount V input\<rparr>"

definition LimitingInputStream_dtor :: "'s zc_input \<Rightarrow> 's limiting_input \<Rightarrow> 's res" where
  "LimitingInputStream_dtor V s = (if li_limit s < 0 then zc_BackUp V (- li_limit s) (li_input s) else Inr (li_input s))"

definition LimitingInputStream_Next ::
    "'s zc_input \<Rightarrow> 's limiting_input \<Rightarrow> (byte list option \<times> 's limiting_input) res" where
  "LimitingInputStream_Next V s =
     (if li_limit s \<le> 0 then Inr (None, s)
      else
        bind_res (zc_Next V (li_input s)) (\<lambda>(r, i).
          let s = s\<lparr>li_input := i\<rparr>
          in case r of
               None \<Rightarrow> Inr (None, s)
             | Some data \<Rightarrow>
                 let s = s\<lparr>li_limit := li_limit s - int (length data)\<rparr>
                 in if li_limit s < 0 then Inr (Some (take (nat (int (length data) + li_limit s)) data), s)
                    else Inr (Some data, s)))"

definition LimitingInputStream_BackUp :: "'s zc_input \<Rightarrow> int \<Rightarrow> 's limiting_input \<Rightarrow> 's limiting_input res" where
  "LimitingInputStream_BackUp V count s =
     (if li_limit s < 0 then
        bind_res (zc_BackUp V (count - li_limit s) (li_input s)) (\<lambda>i. Inr (s\<lparr>li_input := i, li_limit := count\<rparr>))
      else
        bind_res (zc_BackUp V count (li_input s)) (\<lambda>i. Inr (s\<lparr>li_input := i, li_limit := li_limit s + count\<rparr>)))"

definition LimitingInputStream_Skip :: "'s zc_input \<Rightarrow> int \<Rightarrow> 's limiting_input \<Rightarrow> (bool \<times> 's limiting_input) res" where
  "LimitingInputStream_Skip V count s =
     (if count > li_limit s then
        if li_limit s < 0 then Inr (False, s)
        else bind_res (zc_Skip V (li_limit s) (li_input s)) (\<lambda>(_, i). Inr (False, s\<lparr>li_input := i, li_limit := 0\<rparr>))
      else
        bind_res (zc_Skip V count (li_input s)) (\<lambda>(ok, i).
          if \<not> ok then Inr (False, s\<lparr>li_input := i\<rparr>)
          else Inr (True, s\<lparr>li_input := i, li_limit := li_limit s - count\<rparr>)))"

definition LimitingInputStream_ByteCount :: "'s zc_input \<Rightarrow> 's limiting_input \<Rightarrow> int" where
  "LimitingInputStream_ByteCount V s =
     (if li_limit s < 0 then zc_ByteCount V (li_input s) + li_limit s - li_prior_bytes_read s
      else zc_ByteCount V (li_input s) - li_prior_bytes_read s)"

definition LimitingInputStream :: "'s zc_input \<Rightarrow> 's limiting_input zc_input" where
  "LimitingInputStream V = \<lparr>zc_Next = LimitingInputStream_Next V, zc_BackUp = LimitingInputStream_BackUp V,
     zc_Skip = LimitingInputStream_Skip V, zc_ByteCount = LimitingInputStream_ByteCount V\<rparr>"

text \<open>What is still to come below the limit; a negative limit is what the last piece had too much.\<close>

definition limiting_inv :: "('s \<Rightarrow> bool) \<Rightarrow> 's limiting_input \<Rightarrow> bool" where
  "limiting_inv okI s \<longleftrightarrow> okI (li_input s)"

definition limiting_rest :: "('s \<Rightarrow> byte list) \<Rightarrow> 's limiting_input \<Rightarrow> byte list" where
  "limiting_rest rest s = take (nat (li_limit s)) (rest (li_input s))"

definition limiting_size :: "('s \<Rightarrow> nat) \<Rightarrow> 's limiting_input \<Rightarrow> nat" where
  "limiting_size size_of s = size_of (li_input s)"

lemmas limiting_defs = limiting_inv_def limiting_rest_def limiting_size_def LimitingInputStream_def
  LimitingInputStream_ByteCount_def

context zero_copy_input
begin

lemma limiting_next:
  assumes "inv (li_input s)"
  obtains d i where "0 < li_limit s" and "zc_Next V (li_input s) = Inr (Some d, i)" and "inv i" and "rest (li_input s) = d @ rest i"
      and "size_of i < size_of (li_input s)" and "zc_ByteCount V i = zc_ByteCount V (li_input s) + int (length d)"
      and "LimitingInputStream_Next V s =
        Inr (Some (take (nat (li_limit s)) d), s\<lparr>li_input := i, li_limit := li_limit s - int (length d)\<rparr>)"
    | t where "LimitingInputStream_Next V s = Inr (None, t)" and "inv (li_input t)" and "limiting_rest rest s = []"
      and "limiting_rest rest t = []" and "LimitingInputStream_ByteCount V t = LimitingInputStream_ByteCount V s"
proof (cases "0 < li_limit s")
  case False
  then show thesis using that(2) [of s] assms by (simp add: LimitingInputStream_Next_def limiting_rest_def)
next
  case True
  from assms show thesis
  proof (cases rule: nextE)
    case (1 d i)
    have "nat (int (length d) + (li_limit s - int (length d))) = nat (li_limit s)" by simp
    with True 1 show thesis by (intro that(1) [of d i]) (auto simp: LimitingInputStream_Next_def Let_def)
  next
    case (2 i)
    with True show thesis
      by (intro that(2) [of "s\<lparr>li_input := i\<rparr>"])
         (simp_all add: LimitingInputStream_Next_def LimitingInputStream_ByteCount_def limiting_rest_def)
  qed
qed

lemma limiting_stream: "zero_copy_input (LimitingInputStream V) (limiting_inv inv) (limiting_rest rest) (limiting_size size_of)"
proof unfold_locales
  fix s :: "'s limiting_input"
  assume "limiting_inv inv s"
  then have "inv (li_input s)" by (simp add: limiting_inv_def)
  then show "(\<exists>d s'. zc_Next (LimitingInputStream V) s = Inr (Some d, s') \<and> limiting_inv inv s' \<and>
        limiting_rest rest s = d @ limiting_rest rest s' \<and> limiting_size size_of s' < limiting_size size_of s \<and>
        zc_ByteCount (LimitingInputStream V) s' = zc_ByteCount (LimitingInputStream V) s + int (length d)) \<or>
      (\<exists>s'. zc_Next (LimitingInputStream V) s = Inr (None, s') \<and> limiting_inv inv s' \<and> limiting_rest rest s = [] \<and>
        limiting_rest rest s' = [] \<and> zc_ByteCount (LimitingInputStream V) s' = zc_ByteCount (LimitingInputStream V) s)"
  proof (cases rule: limiting_next)
    case (1 d i)
    then show ?thesis by (intro disjI1) (auto simp: limiting_defs nat_diff_distrib)
  next
    case (2 t)
    then show ?thesis by (intro disjI2) (auto simp: limiting_defs)
  qed
next
  fix s s1 :: "'s limiting_input" and d n
  assume "limiting_inv inv s" and nxt: "zc_Next (LimitingInputStream V) s = Inr (Some d, s1)"
    and n: "0 < n" "n \<le> int (length d)"
  then have ok: "inv (li_input s)" by (simp add: limiting_inv_def)
  then show "\<exists>s2. zc_BackUp (LimitingInputStream V) n s1 = Inr s2 \<and> limiting_inv inv s2 \<and>
      limiting_rest rest s2 = drop (length d - nat n) d @ limiting_rest rest s1 \<and>
      zc_ByteCount (LimitingInputStream V) s2 = zc_ByteCount (LimitingInputStream V) s1 - n"
  proof (cases rule: limiting_next)
    case (1 d0 i)
    let ?l = "li_limit s - int (length d0)"
    have d: "d = take (nat (li_limit s)) d0" and s1: "s1 = s\<lparr>li_input := i, li_limit := ?l\<rparr>"
      using 1(7) nxt by (simp_all add: LimitingInputStream_def)
    show ?thesis
    proof (cases "?l < 0")
      case True
      then have len: "length d = nat (li_limit s)" using d by simp
      have "0 < n - ?l" "n - ?l \<le> int (length d0)" using True n len 1(1) by linarith+
      from back_up [OF ok 1(2) this] obtain i2 where i2: "zc_BackUp V (n - ?l) i = Inr i2" "inv i2"
        "rest i2 = drop (length d0 - nat (n - ?l)) d0 @ rest i" "zc_ByteCount V i2 = zc_ByteCount V i - (n - ?l)" by blast
      define m where "m = length d - nat n"
      have m: "length d0 - nat (n - ?l) = m" "nat n = length d - m" "nat n \<le> length (drop m d0)"
        using True n len 1(1) by (simp_all add: m_def)
      have "take (nat n) (rest i2) = take (length d - m) (drop m d0)" using i2(3) m by (simp only: m(1) take_append) simp
      also have "\<dots> = drop m (take (length d) d0)" by (simp only: drop_take)
      also have "take (length d) d0 = d" using d by (metis len)
      finally have "take (nat n) (rest i2) = drop (length d - nat n) d" by (simp only: m_def)
      with True i2(1,2,4) n show ?thesis
        by (simp add: s1 limiting_defs LimitingInputStream_BackUp_def)
    next
      case False
      then have "d = d0" using d by simp
      with n back_up [OF ok 1(2), of n] obtain i2 where i2: "zc_BackUp V n i = Inr i2" "inv i2"
        "rest i2 = drop (length d - nat n) d @ rest i" "zc_ByteCount V i2 = zc_ByteCount V i - n" by blast
      have "nat (?l + n) = nat n + nat ?l" "length (drop (length d - nat n) d) = nat n" using False n by auto
      then have "take (nat (?l + n)) (rest i2) = drop (length d - nat n) d @ take (nat ?l) (rest i)" using i2(3) by simp
      with False i2(1,2,4) n show ?thesis
        by (simp add: s1 limiting_defs LimitingInputStream_BackUp_def)
    qed
  next
    case (2 t)
    with nxt show ?thesis by (simp add: LimitingInputStream_def)
  qed
next
  fix s :: "'s limiting_input" and n :: int
  assume "limiting_inv inv s" and n: "0 \<le> n"
  then have ok: "inv (li_input s)" by (simp add: limiting_inv_def)
  show "\<exists>b s'. zc_Skip (LimitingInputStream V) n s = Inr (b, s') \<and> limiting_inv inv s' \<and>
      limiting_rest rest s' = drop (nat n) (limiting_rest rest s) \<and>
      (0 < n \<longrightarrow> b = (n \<le> int (length (limiting_rest rest s)))) \<and> (\<not> b \<longrightarrow> limiting_rest rest s' = []) \<and>
      zc_ByteCount (LimitingInputStream V) s' =
        zc_ByteCount (LimitingInputStream V) s + min n (int (length (limiting_rest rest s)))"
  proof (cases "li_limit s < n")
    case True
    show ?thesis
    proof (cases "li_limit s < 0")
      case False
      then have "0 \<le> li_limit s" by simp
      from skip [OF ok this] obtain b i where "zc_Skip V (li_limit s) (li_input s) = Inr (b, i)" "inv i"
        "zc_ByteCount V i = zc_ByteCount V (li_input s) + min (li_limit s) (int (length (rest (li_input s))))" by blast
      with True False show ?thesis
        by (auto simp: limiting_defs LimitingInputStream_Skip_def min_def)
    next
      case neg: True
      with True n ok show ?thesis
        by (intro exI [of _ False]) (simp add: limiting_defs LimitingInputStream_Skip_def)
    qed
  next
    case False
    from skip [OF ok n] obtain b i where i: "zc_Skip V n (li_input s) = Inr (b, i)" "inv i"
      "rest i = drop (nat n) (rest (li_input s))" "0 < n \<longrightarrow> b = (n \<le> int (length (rest (li_input s))))" "\<not> b \<longrightarrow> rest i = []"
      "zc_ByteCount V i = zc_ByteCount V (li_input s) + min n (int (length (rest (li_input s))))" by blast
    have sub: "nat (li_limit s - n) = nat (li_limit s) - nat n" using False n by linarith
    show ?thesis
    proof (cases b)
      case b: True
      have le: "n \<le> int (length (rest (li_input s)))" using i(4) b n by (cases "n = 0") auto
      let ?t = "s\<lparr>li_input := i, li_limit := li_limit s - n\<rparr>"
      have "limiting_rest rest ?t = drop (nat n) (limiting_rest rest s)"
        using i(3) by (simp add: limiting_rest_def sub drop_take)
      moreover have len: "n \<le> int (length (limiting_rest rest s))"
        using le False n by (simp add: limiting_rest_def nat_le_iff)
      moreover have "LimitingInputStream_ByteCount V ?t = LimitingInputStream_ByteCount V s + n"
        using i(6) le False n by (simp add: LimitingInputStream_ByteCount_def)
      moreover have "zc_Skip (LimitingInputStream V) n s = Inr (True, ?t)"
        using False i(1) b by (simp add: LimitingInputStream_def LimitingInputStream_Skip_def)
      moreover have "limiting_inv inv ?t" using i(2) by (simp add: limiting_inv_def)
      ultimately show ?thesis
        by (intro exI [of _ True] exI [of _ ?t]) (simp add: LimitingInputStream_def)
    next
      case b: False
      then have none: "drop (nat n) (rest (li_input s)) = []" "length (rest (li_input s)) \<le> nat n" using i(3,5) by simp_all
      with False have "length (rest (li_input s)) \<le> nat (li_limit s)" by linarith
      with False i b n none show ?thesis
        by (auto simp: limiting_defs LimitingInputStream_Skip_def)
    qed
  qed
qed

end

interpretation limited_file: zero_copy_input "LimitingInputStream FileInputStream" "limiting_inv file_inv"
    "limiting_rest file_rest" "limiting_size file_size"
  by (rule file_in.limiting_stream)

section \<open>ConcatenatingInputStream\<close>

text \<open>
  \<open>streams_\<close> points at the streams not yet done, \<open>stream_count_\<close> is their number. Backing up after a
  failed \<open>Next\<close> is only logged.
\<close>

record 's concatenating_input =
  cc_streams :: "'s list"
  cc_bytes_retired :: int

definition ConcatenatingInputStream_ctor :: "'s list \<Rightarrow> 's concatenating_input" where
  "ConcatenatingInputStream_ctor streams = \<lparr>cc_streams = streams, cc_bytes_retired = 0\<rparr>"

fun concat_next :: "'s zc_input \<Rightarrow> 's list \<Rightarrow> int \<Rightarrow> (byte list option \<times> 's concatenating_input) res" where
  "concat_next V [] retired = Inr (None, \<lparr>cc_streams = [], cc_bytes_retired = retired\<rparr>)"
| "concat_next V (i # streams) retired =
     (case zc_Next V i of
        Inl e \<Rightarrow> Inl e
      | Inr (Some data, i) \<Rightarrow> Inr (Some data, \<lparr>cc_streams = i # streams, cc_bytes_retired = retired\<rparr>)
      | Inr (None, i) \<Rightarrow> concat_next V streams (retired + zc_ByteCount V i))"

definition ConcatenatingInputStream_Next ::
    "'s zc_input \<Rightarrow> 's concatenating_input \<Rightarrow> (byte list option \<times> 's concatenating_input) res" where
  "ConcatenatingInputStream_Next V s = concat_next V (cc_streams s) (cc_bytes_retired s)"

definition ConcatenatingInputStream_BackUp ::
    "'s zc_input \<Rightarrow> int \<Rightarrow> 's concatenating_input \<Rightarrow> 's concatenating_input res" where
  "ConcatenatingInputStream_BackUp V count s =
     (case cc_streams s of
        [] \<Rightarrow> Inr s
      | i # streams \<Rightarrow> bind_res (zc_BackUp V count i) (\<lambda>i. Inr (s\<lparr>cc_streams := i # streams\<rparr>)))"

fun concat_skip :: "'s zc_input \<Rightarrow> int \<Rightarrow> 's list \<Rightarrow> int \<Rightarrow> (bool \<times> 's concatenating_input) res" where
  "concat_skip V count [] retired = Inr (False, \<lparr>cc_streams = [], cc_bytes_retired = retired\<rparr>)"
| "concat_skip V count (i # streams) retired =
     (let target_byte_count = zc_ByteCount V i + count
      in case zc_Skip V count i of
           Inl e \<Rightarrow> Inl e
         | Inr (True, i) \<Rightarrow> Inr (True, \<lparr>cc_streams = i # streams, cc_bytes_retired = retired\<rparr>)
         | Inr (False, i) \<Rightarrow>
             let final_byte_count = zc_ByteCount V i
             in concat_skip V (target_byte_count - final_byte_count) streams (retired + final_byte_count))"

definition ConcatenatingInputStream_Skip ::
    "'s zc_input \<Rightarrow> int \<Rightarrow> 's concatenating_input \<Rightarrow> (bool \<times> 's concatenating_input) res" where
  "ConcatenatingInputStream_Skip V count s = concat_skip V count (cc_streams s) (cc_bytes_retired s)"

definition ConcatenatingInputStream_ByteCount :: "'s zc_input \<Rightarrow> 's concatenating_input \<Rightarrow> int" where
  "ConcatenatingInputStream_ByteCount V s =
     (case cc_streams s of
        [] \<Rightarrow> cc_bytes_retired s
      | i # streams \<Rightarrow> cc_bytes_retired s + zc_ByteCount V i)"

definition ConcatenatingInputStream :: "'s zc_input \<Rightarrow> 's concatenating_input zc_input" where
  "ConcatenatingInputStream V = \<lparr>zc_Next = ConcatenatingInputStream_Next V, zc_BackUp = ConcatenatingInputStream_BackUp V,
     zc_Skip = ConcatenatingInputStream_Skip V, zc_ByteCount = ConcatenatingInputStream_ByteCount V\<rparr>"

text \<open>Only the first stream has been read from.\<close>

definition concat_inv :: "'s zc_input \<Rightarrow> ('s \<Rightarrow> bool) \<Rightarrow> 's concatenating_input \<Rightarrow> bool" where
  "concat_inv V okI s \<longleftrightarrow> (\<forall>i\<in>set (cc_streams s). okI i) \<and> (\<forall>i\<in>set (tl (cc_streams s)). zc_ByteCount V i = 0)"

definition concat_rest :: "('s \<Rightarrow> byte list) \<Rightarrow> 's concatenating_input \<Rightarrow> byte list" where
  "concat_rest rest s = concat (map rest (cc_streams s))"

definition concat_size :: "('s \<Rightarrow> nat) \<Rightarrow> 's concatenating_input \<Rightarrow> nat" where
  "concat_size size_of s = sum_list (map size_of (cc_streams s))"

lemmas concat_defs = concat_inv_def concat_rest_def concat_size_def ConcatenatingInputStream_def
  ConcatenatingInputStream_Next_def ConcatenatingInputStream_Skip_def ConcatenatingInputStream_ByteCount_def

lemma hd_byte_count:
  "\<forall>i\<in>set streams. zc_ByteCount V i = 0 \<Longrightarrow>
   ConcatenatingInputStream_ByteCount V \<lparr>cc_streams = streams, cc_bytes_retired = r\<rparr> = r"
  by (cases streams) (simp_all add: ConcatenatingInputStream_ByteCount_def)

context zero_copy_input
begin

lemma concat_next_spec:
  assumes "concat_inv V inv \<lparr>cc_streams = streams, cc_bytes_retired = r\<rparr>" (is "concat_inv V inv ?s")
  shows "(\<exists>d i i' more r'. concat_next V streams r = Inr (Some d, \<lparr>cc_streams = i' # more, cc_bytes_retired = r'\<rparr>) \<and>
      inv i \<and> zc_Next V i = Inr (Some d, i') \<and> inv i' \<and> (\<forall>j\<in>set more. inv j \<and> zc_ByteCount V j = 0) \<and>
      concat_rest rest ?s = d @ rest i' @ concat (map rest more) \<and>
      size_of i' + sum_list (map size_of more) < concat_size size_of ?s \<and>
      r' + zc_ByteCount V i' = ConcatenatingInputStream_ByteCount V ?s + int (length d)) \<or>
    (\<exists>r'. concat_next V streams r = Inr (None, \<lparr>cc_streams = [], cc_bytes_retired = r'\<rparr>) \<and> concat_rest rest ?s = [] \<and>
      r' = ConcatenatingInputStream_ByteCount V ?s)"
  using assms
proof (induction streams arbitrary: r)
  case Nil
  then show ?case by (simp add: concat_defs)
next
  case (Cons i streams)
  have all: "\<forall>j\<in>set streams. inv j \<and> zc_ByteCount V j = 0" using Cons.prems by (simp add: concat_defs)
  have "inv i" using Cons.prems by (simp add: concat_defs)
  then show ?case
  proof (cases rule: nextE)
    case (1 d i')
    with \<open>inv i\<close> all show ?thesis
      by (intro disjI1 exI [of _ d] exI [of _ i] exI [of _ i'] exI [of _ streams] exI [of _ r]) (simp add: concat_defs)
  next
    case (2 i')
    let ?r = "r + zc_ByteCount V i'" let ?t = "\<lparr>cc_streams = streams, cc_bytes_retired = ?r\<rparr>"
    have "concat_inv V inv ?t" using all by (cases streams) (auto simp: concat_defs)
    note IH = Cons.IH [OF this]
    have "concat_next V (i # streams) r = concat_next V streams ?r" using 2 by simp
    moreover have "concat_rest rest \<lparr>cc_streams = i # streams, cc_bytes_retired = r\<rparr> = concat_rest rest ?t"
      using 2 by (simp add: concat_defs)
    moreover have "ConcatenatingInputStream_ByteCount V \<lparr>cc_streams = i # streams, cc_bytes_retired = r\<rparr> =
        ConcatenatingInputStream_ByteCount V ?t"
      using 2 all hd_byte_count [of streams V ?r] by (simp add: ConcatenatingInputStream_ByteCount_def)
    moreover have "concat_size size_of ?t \<le> concat_size size_of \<lparr>cc_streams = i # streams, cc_bytes_retired = r\<rparr>"
      by (simp add: concat_defs)
    ultimately show ?thesis using IH by (simp only:) (blast intro: order.strict_trans2)
  qed
qed

lemma concat_skip_spec:
  assumes "concat_inv V inv \<lparr>cc_streams = streams, cc_bytes_retired = r\<rparr>" (is "concat_inv V inv ?s") and "0 \<le> n"
  shows "\<exists>b t. concat_skip V n streams r = Inr (b, t) \<and> concat_inv V inv t \<and>
      concat_rest rest t = drop (nat n) (concat_rest rest ?s) \<and>
      (0 < n \<longrightarrow> b = (n \<le> int (length (concat_rest rest ?s)))) \<and> (\<not> b \<longrightarrow> concat_rest rest t = []) \<and>
      ConcatenatingInputStream_ByteCount V t =
        ConcatenatingInputStream_ByteCount V ?s + min n (int (length (concat_rest rest ?s)))"
  using assms
proof (induction streams arbitrary: r n)
  case Nil
  then show ?case by (auto simp: concat_defs)
next
  case (Cons i streams)
  have all: "\<forall>j\<in>set streams. inv j \<and> zc_ByteCount V j = 0" using Cons.prems by (simp add: concat_defs)
  have "inv i" using Cons.prems by (simp add: concat_defs)
  from skip [OF this Cons.prems(2)] obtain b i' where i: "zc_Skip V n i = Inr (b, i')" "inv i'"
    "rest i' = drop (nat n) (rest i)" "0 < n \<longrightarrow> b = (n \<le> int (length (rest i)))" "\<not> b \<longrightarrow> rest i' = []"
    "zc_ByteCount V i' = zc_ByteCount V i + min n (int (length (rest i)))" by blast
  show ?case
  proof (cases b)
    case True
    then have "n \<le> int (length (rest i))" using i(4) Cons.prems(2) by linarith
    with True i all Cons.prems(2) show ?thesis
      by (intro exI [of _ True] exI [of _ "\<lparr>cc_streams = i' # streams, cc_bytes_retired = r\<rparr>"]) (auto simp: concat_defs)
  next
    case False
    let ?r = "r + zc_ByteCount V i'" let ?t = "\<lparr>cc_streams = streams, cc_bytes_retired = ?r\<rparr>"
    have "length (rest i) \<le> nat n" using False i(3,5) by simp
    then have le: "int (length (rest i)) \<le> n" using Cons.prems(2) by linarith
    have n': "zc_ByteCount V i + n - zc_ByteCount V i' = n - int (length (rest i))" using i(6) le by simp
    have "concat_inv V inv ?t" using all by (cases streams) (auto simp: concat_defs)
    from Cons.IH [OF this, of "n - int (length (rest i))"] le obtain c t where
      t: "concat_skip V (n - int (length (rest i))) streams ?r = Inr (c, t)" "concat_inv V inv t"
        "concat_rest rest t = drop (nat (n - int (length (rest i)))) (concat_rest rest ?t)"
        "0 < n - int (length (rest i)) \<longrightarrow> c = (n - int (length (rest i)) \<le> int (length (concat_rest rest ?t)))"
        "\<not> c \<longrightarrow> concat_rest rest t = []"
        "ConcatenatingInputStream_ByteCount V t =
          ConcatenatingInputStream_ByteCount V ?t + min (n - int (length (rest i))) (int (length (concat_rest rest ?t)))"
      by auto
    have "concat_skip V n (i # streams) r = Inr (c, t)" using i(1) False t(1) by (simp add: Let_def n')
    moreover have rest_s: "concat_rest rest \<lparr>cc_streams = i # streams, cc_bytes_retired = r\<rparr> = rest i @ concat_rest rest ?t"
      by (simp add: concat_defs)
    moreover have "ConcatenatingInputStream_ByteCount V ?t =
        ConcatenatingInputStream_ByteCount V \<lparr>cc_streams = i # streams, cc_bytes_retired = r\<rparr> + int (length (rest i))"
      using all hd_byte_count [of streams V ?r] i(6) le by (simp add: ConcatenatingInputStream_ByteCount_def min_def)
    moreover have "0 < n \<longrightarrow> n \<noteq> int (length (rest i))" using i(4) False by auto
    then have "0 < n \<longrightarrow> 0 < n - int (length (rest i))" using le by linarith
    moreover have "nat n = nat (n - int (length (rest i))) + length (rest i)" using le by simp
    ultimately show ?thesis
      using t(2-6) le by (intro exI [of _ c] exI [of _ t]) auto
  qed
qed

lemma concatenating_stream:
  "zero_copy_input (ConcatenatingInputStream V) (concat_inv V inv) (concat_rest rest) (concat_size size_of)"
proof unfold_locales
  fix s :: "'s concatenating_input"
  assume inv: "concat_inv V inv s"
  obtain streams r where s: "s = \<lparr>cc_streams = streams, cc_bytes_retired = r\<rparr>" by (cases s) simp
  from concat_next_spec [OF inv [unfolded s]] show "(\<exists>d s'. zc_Next (ConcatenatingInputStream V) s = Inr (Some d, s') \<and>
        concat_inv V inv s' \<and> concat_rest rest s = d @ concat_rest rest s' \<and> concat_size size_of s' < concat_size size_of s \<and>
        zc_ByteCount (ConcatenatingInputStream V) s' = zc_ByteCount (ConcatenatingInputStream V) s + int (length d)) \<or>
      (\<exists>s'. zc_Next (ConcatenatingInputStream V) s = Inr (None, s') \<and> concat_inv V inv s' \<and> concat_rest rest s = [] \<and>
        concat_rest rest s' = [] \<and> zc_ByteCount (ConcatenatingInputStream V) s' = zc_ByteCount (ConcatenatingInputStream V) s)"
    unfolding s by (elim disjE exE conjE) (auto simp: concat_defs)
next
  fix s s1 :: "'s concatenating_input" and d n
  assume inv: "concat_inv V inv s" and nxt: "zc_Next (ConcatenatingInputStream V) s = Inr (Some d, s1)"
    and n: "0 < n" "n \<le> int (length d)"
  obtain streams r where s: "s = \<lparr>cc_streams = streams, cc_bytes_retired = r\<rparr>" by (cases s) simp
  from concat_next_spec [OF inv [unfolded s]] nxt obtain i i' more r' where
    s1: "s1 = \<lparr>cc_streams = i' # more, cc_bytes_retired = r'\<rparr>" "inv i" "zc_Next V i = Inr (Some d, i')"
      "\<forall>j\<in>set more. inv j \<and> zc_ByteCount V j = 0"
    by (auto simp: s ConcatenatingInputStream_def ConcatenatingInputStream_Next_def)
  from back_up [OF s1(2,3) n] obtain i2 where "zc_BackUp V n i' = Inr i2" "inv i2"
    "rest i2 = drop (length d - nat n) d @ rest i'" "zc_ByteCount V i2 = zc_ByteCount V i' - n" by blast
  with s1 show "\<exists>s2. zc_BackUp (ConcatenatingInputStream V) n s1 = Inr s2 \<and> concat_inv V inv s2 \<and>
      concat_rest rest s2 = drop (length d - nat n) d @ concat_rest rest s1 \<and>
      zc_ByteCount (ConcatenatingInputStream V) s2 = zc_ByteCount (ConcatenatingInputStream V) s1 - n"
    by (simp add: concat_defs ConcatenatingInputStream_BackUp_def)
next
  fix s :: "'s concatenating_input" and n :: int
  assume inv: "concat_inv V inv s" and n: "0 \<le> n"
  obtain streams r where s: "s = \<lparr>cc_streams = streams, cc_bytes_retired = r\<rparr>" by (cases s) simp
  from concat_skip_spec [OF inv [unfolded s] n] show "\<exists>b s'. zc_Skip (ConcatenatingInputStream V) n s = Inr (b, s') \<and>
      concat_inv V inv s' \<and> concat_rest rest s' = drop (nat n) (concat_rest rest s) \<and>
      (0 < n \<longrightarrow> b = (n \<le> int (length (concat_rest rest s)))) \<and> (\<not> b \<longrightarrow> concat_rest rest s' = []) \<and>
      zc_ByteCount (ConcatenatingInputStream V) s' =
        zc_ByteCount (ConcatenatingInputStream V) s + min n (int (length (concat_rest rest s)))"
    by (simp add: s ConcatenatingInputStream_def ConcatenatingInputStream_Skip_def)
qed

end

interpretation concatenated_files: zero_copy_input "ConcatenatingInputStream FileInputStream"
    "concat_inv FileInputStream file_inv" "concat_rest file_rest" "concat_size file_size"
  by (rule file_in.concatenating_stream)

end
