(* ===== verification/Varint.thy ===== *)
theory Varint
  imports Prelude
begin

unbundle bit_operations_syntax

text \<open>
  Variable length integers, tags and zig-zag encoding of the protobuf runtime the program is built
  with (\<open>google/protobuf/io/coded_stream.h\<close>, \<open>coded_stream.cc\<close>, \<open>stubs/port.h\<close>). The writers return
  the bytes they write at their pointer; the array readers take the bytes from their pointer on
  and make a read past the end an explicit failure. Both sides are compared with one
  mathematical description of the format, \<open>varint_enc\<close> and \<open>varint_of\<close>.
\<close>

section \<open>The format\<close>

fun varint_enc :: "nat \<Rightarrow> byte list" where
  "varint_enc n = (if n < 128 then [word_of_nat n] else word_of_nat (n mod 128 + 128) # varint_enc (n div 128))"

declare varint_enc.simps [simp del]

datatype varint =
    Varint nat "byte list"   \<comment> \<open>the value and the bytes after it\<close>
  | Overlong                 \<comment> \<open>no end within the number of bytes allowed\<close>
  | Truncated                \<comment> \<open>the bytes end first\<close>

fun varint_cons :: "nat \<Rightarrow> varint \<Rightarrow> varint" where
  "varint_cons d (Varint v rest) = Varint (d + 128 * v) rest"
| "varint_cons d Overlong = Overlong"
| "varint_cons d Truncated = Truncated"

fun varint_of :: "nat \<Rightarrow> byte list \<Rightarrow> varint" where
  "varint_of 0 bs = Overlong"
| "varint_of (Suc k) [] = Truncated"
| "varint_of (Suc k) (b # bs) =
     (if unat b < 128 then Varint (unat b) bs else varint_cons (unat b - 128) (varint_of k bs))"

definition kMaxVarintBytes :: nat where
  "kMaxVarintBytes = 10"

definition kMaxVarint32Bytes :: nat where
  "kMaxVarint32Bytes = 5"

section \<open>Writing\<close>

text \<open>\<open>UnsafeVarint\<close>: \<open>uv_loop\<close> is its \<open>do\<close> loop, with the byte before the pointer.\<close>

lemma unat_drop_7: "unat (drop_bit 7 v) = unat v div 128"
  by (simp only: unat_drop_bit_eq drop_bit_nat_def) simp

lemma drop_bit_less: "0 < unat (v :: 'a::len word) \<Longrightarrow> unat (drop_bit 7 v) < unat v"
  by (simp only: unat_drop_7)

function uv_loop :: "byte \<Rightarrow> 'a::len word \<Rightarrow> byte list" where
  "uv_loop prev value =
     (let prev = prev OR 0x80;
          value = drop_bit 7 value;
          b = ucast value
      in if unat value \<ge> 0x80 then prev # uv_loop b value else [prev, b])"
  by auto
termination
proof (relation "measure (\<lambda>(_, v). unat v)", simp)
  fix prev x y :: byte and v u :: "'a word"
  assume "u = drop_bit 7 v" and "0x80 \<le> unat u"
  moreover have "0 < unat v"
    using calculation unat_drop_7 [of v] by (cases "unat v = 0") auto
  ultimately show "((y, u), (prev, v)) \<in> measure (\<lambda>(_, v). unat v)"
    using drop_bit_less [of v] by simp
qed

declare uv_loop.simps [simp del]

definition UnsafeVarint :: "'a::len word \<Rightarrow> byte list" where
  "UnsafeVarint value =
     (let b0 = ucast value
      in if unat value < 0x80 then [b0]
         else
           let b0 = b0 OR 0x80;
               value = drop_bit 7 value;
               b1 = ucast value
           in if unat value < 0x80 then [b0, b1] else b0 # uv_loop b1 value)"

text \<open>\<open>UnsafeWriteSize\<close>, for lengths.\<close>

function UnsafeWriteSize :: "'a::len word \<Rightarrow> byte list" where
  "UnsafeWriteSize value =
     (if unat value \<ge> 0x80 then ucast (value OR 0x80) # UnsafeWriteSize (drop_bit 7 value) else [ucast value])"
  by auto
termination
proof (relation "measure unat", simp)
  fix v :: "'a word"
  assume "0x80 \<le> unat v"
  then show "(drop_bit 7 v, v) \<in> measure unat" using drop_bit_less [of v] by simp
qed

declare UnsafeWriteSize.simps [simp del]

text \<open>
  The out-of-line variant: the helper is entered with the low byte already written.
\<close>

definition WriteVarint32ToArrayOutOfLineHelper :: "32 word \<Rightarrow> byte \<Rightarrow> byte list" where
  "WriteVarint32ToArrayOutOfLineHelper value target0 =
     (let target0 = target0 OR 0x80;
          value = drop_bit 7 value;
          target1 = ucast value
      in if unat value < 0x80 then [target0, target1] else target0 # uv_loop target1 value)"

definition WriteVarint32ToArrayOutOfLine :: "32 word \<Rightarrow> byte list" where
  "WriteVarint32ToArrayOutOfLine value =
     (let target0 = ucast value
      in if unat value < 0x80 then [target0] else WriteVarint32ToArrayOutOfLineHelper value target0)"

definition WriteVarint32ToArray :: "32 word \<Rightarrow> byte list" where
  "WriteVarint32ToArray value = UnsafeVarint value"

definition WriteVarint64ToArray :: "64 word \<Rightarrow> byte list" where
  "WriteVarint64ToArray value = UnsafeVarint value"

definition WriteVarint32SignExtendedToArray :: "32 word \<Rightarrow> byte list" where
  "WriteVarint32SignExtendedToArray value = WriteVarint64ToArray (scast value)"

definition WriteTagToArray :: "32 word \<Rightarrow> byte list" where
  "WriteTagToArray value = WriteVarint32ToArray value"

section \<open>Sizes\<close>

text \<open>
  \<open>__builtin_clz\<close> counts the leading zero bits of a non-zero argument.
\<close>

definition builtin_clz :: "'a::len word \<Rightarrow> nat" where
  "builtin_clz n = length (takeWhile (\<lambda>i. \<not> bit n i) (rev [0..<LENGTH('a)]))"

definition Log2FloorNonZero :: "32 word \<Rightarrow> 32 word" where
  "Log2FloorNonZero n = 31 XOR word_of_nat (builtin_clz n)"

definition Log2FloorNonZero64 :: "64 word \<Rightarrow> 32 word" where
  "Log2FloorNonZero64 n = 63 XOR word_of_nat (builtin_clz n)"

definition VarintSize32 :: "32 word \<Rightarrow> nat" where
  "VarintSize32 value = (let log2value = Log2FloorNonZero (value OR 1) in unat ((log2value * 9 + 73) div 64))"

definition VarintSize32PlusOne :: "32 word \<Rightarrow> nat" where
  "VarintSize32PlusOne value =
     (let log2value = Log2FloorNonZero (value OR 1) in unat ((log2value * 9 + 73 + 64) div 64))"

definition VarintSize64 :: "64 word \<Rightarrow> nat" where
  "VarintSize64 value = (let log2value = Log2FloorNonZero64 (value OR 1) in unat ((log2value * 9 + 73) div 64))"

definition VarintSize64PlusOne :: "64 word \<Rightarrow> nat" where
  "VarintSize64PlusOne value =
     (let log2value = Log2FloorNonZero64 (value OR 1) in unat ((log2value * 9 + 73 + 64) div 64))"

definition VarintSize32SignExtended :: "32 word \<Rightarrow> nat" where
  "VarintSize32SignExtended value = VarintSize64 (scast value)"

definition VarintSize32SignExtendedPlusOne :: "32 word \<Rightarrow> nat" where
  "VarintSize32SignExtendedPlusOne value = VarintSize64PlusOne (scast value)"

definition TagSize :: "32 word \<Rightarrow> nat" where
  "TagSize tag =
     (if unat tag < 2 ^ 7 then 1
      else if unat tag < 2 ^ 14 then 2
      else if unat tag < 2 ^ 21 then 3
      else if unat tag < 2 ^ 28 then 4
      else 5)"

section \<open>Zig-zag\<close>

definition ZigZagEncode32 :: "32 word \<Rightarrow> 32 word" where
  "ZigZagEncode32 v = push_bit 1 v XOR signed_drop_bit 31 v"

definition ZigZagEncode64 :: "64 word \<Rightarrow> 64 word" where
  "ZigZagEncode64 v = push_bit 1 v XOR signed_drop_bit 63 v"

section \<open>Reading from an array\<close>

text \<open>One \<open>*(ptr++)\<close>.\<close>

fun deref :: "byte list \<Rightarrow> (byte \<Rightarrow> byte list \<Rightarrow> 'a res) \<Rightarrow> 'a res" where
  "deref [] k = Inl Out_of_bounds"
| "deref (b # ptr) k = k b ptr"

text \<open>
  \<open>ReadVarint32FromArray\<close>: the value, or \<open>None\<close> when the first component of the pair is false, and
  the pointer. \<open>rv32_high\<close> is the loop that reads and drops the high-order bytes.
\<close>

fun rv32_high :: "nat \<Rightarrow> 32 word \<Rightarrow> byte list \<Rightarrow> (32 word option \<times> byte list) res" where
  "rv32_high 0 result ptr = Inr (None, ptr)"
| "rv32_high (Suc n) result ptr =
     deref ptr (\<lambda>b ptr. if (ucast b :: 32 word) AND 0x80 = 0 then Inr (Some result, ptr) else rv32_high n result ptr)"

definition ReadVarint32FromArray :: "32 word \<Rightarrow> byte list \<Rightarrow> (32 word option \<times> byte list) res" where
  "ReadVarint32FromArray first_byte buffer =
     (let result = first_byte - 0x80
      in deref buffer (\<lambda>_ ptr.
     deref ptr (\<lambda>b ptr. let b = ucast b; result = result + push_bit 7 b in
       if b AND 0x80 = 0 then Inr (Some result, ptr) else
     let result = result - push_bit 7 0x80 in
     deref ptr (\<lambda>b ptr. let b = ucast b; result = result + push_bit 14 b in
       if b AND 0x80 = 0 then Inr (Some result, ptr) else
     let result = result - push_bit 14 0x80 in
     deref ptr (\<lambda>b ptr. let b = ucast b; result = result + push_bit 21 b in
       if b AND 0x80 = 0 then Inr (Some result, ptr) else
     let result = result - push_bit 21 0x80 in
     deref ptr (\<lambda>b ptr. let b = ucast b; result = result + push_bit 28 b in
       if b AND 0x80 = 0 then Inr (Some result, ptr) else
     rv32_high (kMaxVarintBytes - kMaxVarint32Bytes) result ptr))))))"

text \<open>\<open>buffer[i]\<close>\<close>

definition at_index :: "byte list \<Rightarrow> nat \<Rightarrow> (byte \<Rightarrow> 'a res) \<Rightarrow> 'a res" where
  "at_index buffer i k = (if i < length buffer then k (buffer ! i) else Inl Out_of_bounds)"

text \<open>\<open>DecodeVarint64KnownSize<N>\<close>, called when the \<open>N\<close> bytes are there.\<close>

definition DecodeVarint64KnownSize :: "nat \<Rightarrow> byte list \<Rightarrow> 64 word \<times> byte list" where
  "DecodeVarint64KnownSize N buffer =
     (let result = push_bit (7 * (N - 1)) (ucast (buffer ! (N - 1)));
          result = fold (\<lambda>i result. result + push_bit (7 * i) (word_of_int (uint (buffer ! i) - 0x80))) [0..<N - 1] result
      in (result, drop N buffer))"

text \<open>The chain of tests of \<open>ReadVarint64FromArray\<close>, from \<open>buffer[i]\<close> on.\<close>

fun rv64_from :: "nat list \<Rightarrow> byte list \<Rightarrow> (64 word option \<times> byte list) res" where
  "rv64_from [] buffer = Inr (None, drop 11 buffer)"
| "rv64_from (i # is) buffer =
     at_index buffer i (\<lambda>b.
       if unat b < 128 then (let (value, next) = DecodeVarint64KnownSize (Suc i) buffer in Inr (Some value, next))
       else rv64_from is buffer)"

definition ReadVarint64FromArray :: "byte list \<Rightarrow> (64 word option \<times> byte list) res" where
  "ReadVarint64FromArray buffer = rv64_from [1..<10] buffer"

section \<open>Bytes and words\<close>

lemma unat_byte_lt: "unat (b :: byte) < 256"
  using unsigned_less [of b] by simp

lemma nat_or_128: "(n :: nat) OR 128 = (if odd (n div 128) then n else n + 128)"
proof -
  have "n OR 128 = set_bit 7 n" by (simp add: set_bit_eq_or push_bit_eq_mult)
  then show ?thesis by (simp add: set_bit_eq bit_iff_odd)
qed

lemma word_and_128: "LENGTH('a::len) > 7 \<Longrightarrow> (w :: 'a word) AND 128 = 0 \<longleftrightarrow> even (unat w div 128)"
proof -
  assume "LENGTH('a) > 7"
  have "w AND 2 ^ 7 = 0 \<longleftrightarrow> \<not> bit w 7" by (rule and_exp_eq_0_iff_not_bit)
  moreover have "bit w 7 = bit (unat w) 7" using \<open>LENGTH('a) > 7\<close> by (simp add: bit_unsigned_iff)
  ultimately show ?thesis by (simp add: bit_iff_odd)
qed

lemma byte_div_128: "unat (b :: byte) div 128 = (if unat b < 128 then 0 else 1)"
  using unat_byte_lt [of b] by (cases "unat b < 128") (simp_all add: div_nat_eqI)

lemma byte_mod_128: "unat (b :: byte) mod 128 = (if unat b < 128 then unat b else unat b - 128)"
proof (cases "unat b < 128")
  case False
  then have "unat b mod 128 = (unat b - 128) mod 128" by (simp add: le_mod_geq)
  with False show ?thesis using unat_byte_lt [of b] by simp
qed simp

lemma byte_or_128: "(b :: byte) OR 128 = word_of_nat (unat b mod 128 + 128)"
proof -
  have "unat (b OR 128) = unat b mod 128 + 128"
    by (simp add: unsigned_or_eq nat_or_128 byte_div_128 byte_mod_128)
  then show ?thesis by (metis of_nat_unat ucast_id)
qed

lemma byte_continues: "LENGTH('a::len) > 7 \<Longrightarrow> (ucast (b :: byte) :: 'a word) AND 128 = 0 \<longleftrightarrow> unat b < 128"
proof -
  assume len: "LENGTH('a) > 7"
  then have "unat b < 2 ^ LENGTH('a)"
    using unat_byte_lt [of b] power_increasing [of 8 "LENGTH('a)" "2 :: nat"] by simp
  then have "unat (ucast b :: 'a word) = unat b" by (simp add: unsigned_ucast_eq take_bit_eq_mod)
  with len show ?thesis by (simp add: word_and_128 byte_div_128)
qed

lemma unat_ucast_byte: "unat (ucast (v :: 'a::len word) :: byte) = unat v mod 256"
  by (simp add: unsigned_ucast_eq take_bit_eq_mod)

lemma ucast_byte_mod_128: "unat (ucast (v :: 'a::len word) :: byte) mod 128 = unat v mod 128"
  by (simp add: unat_ucast_byte mod_mod_cancel)

lemma ucast_byte_small: "unat (v :: 'a::len word) < 256 \<Longrightarrow> (ucast v :: byte) = word_of_nat (unat v)"
  by (metis of_nat_unat)

lemma unat_byte_of_nat_small: "n < 256 \<Longrightarrow> unat (word_of_nat n :: byte) = n"
  by (simp add: unsigned_of_nat take_bit_eq_mod)

section \<open>The writers write the format\<close>

lemma varint_enc_small: "n < 128 \<Longrightarrow> varint_enc n = [word_of_nat n]"
  by (subst varint_enc.simps) simp

lemma varint_enc_big: "128 \<le> n \<Longrightarrow> varint_enc n = word_of_nat (n mod 128 + 128) # varint_enc (n div 128)"
  by (subst varint_enc.simps) simp

lemma uv_loop_enc: "uv_loop prev v = word_of_nat (unat prev mod 128 + 128) # varint_enc (unat v div 128)"
proof (induction prev v rule: uv_loop.induct)
  case (1 prev v)
  let ?v = "drop_bit 7 v"
  show ?case
  proof (cases "unat ?v \<ge> 128")
    case True
    then have "uv_loop (ucast ?v) ?v = word_of_nat (unat ?v mod 128 + 128) # varint_enc (unat ?v div 128)"
      using 1 [of "prev OR 128" ?v "ucast ?v"] by (simp only: ucast_byte_mod_128)
    with True show ?thesis
      by (subst uv_loop.simps) (simp only: unat_drop_7 byte_or_128 Let_def varint_enc_big if_True)
  next
    case False
    then show ?thesis
      by (subst uv_loop.simps)
         (simp add: unat_drop_7 byte_or_128 Let_def ucast_byte_small varint_enc_small)
  qed
qed

lemma UnsafeVarint_enc: "UnsafeVarint v = varint_enc (unat v)"
proof (cases "unat v < 128")
  case True
  then have "(ucast v :: byte) = word_of_nat (unat v)" by (intro ucast_byte_small) simp
  with True show ?thesis by (simp only: UnsafeVarint_def Let_def varint_enc_small if_True)
next
  case False
  then have "varint_enc (unat v) = word_of_nat (unat v mod 128 + 128) # varint_enc (unat v div 128)"
    by (simp only: varint_enc_big not_less)
  moreover have "(if unat v div 128 < 128 then [b, ucast (drop_bit 7 v)] else b # uv_loop (ucast (drop_bit 7 v)) (drop_bit 7 v)) =
      b # varint_enc (unat v div 128)" for b :: byte
  proof (cases "unat v div 128 < 128")
    case True
    then have "(ucast (drop_bit 7 v) :: byte) = word_of_nat (unat v div 128)"
      using ucast_byte_small [of "drop_bit 7 v"] unat_drop_7 [of v] by simp
    with True show ?thesis by (simp only: varint_enc_small if_True)
  next
    case False
    then have "varint_enc (unat v div 128) = word_of_nat (unat v div 128 mod 128 + 128) # varint_enc (unat v div 128 div 128)"
      by (simp only: varint_enc_big not_less)
    with False show ?thesis by (simp only: uv_loop_enc ucast_byte_mod_128 unat_drop_7 if_False)
  qed
  ultimately show ?thesis
    using False by (simp only: UnsafeVarint_def Let_def byte_or_128 ucast_byte_mod_128 unat_drop_7 if_False)
qed

lemma OutOfLine_enc: "WriteVarint32ToArrayOutOfLine v = varint_enc (unat v)"
  by (simp add: UnsafeVarint_enc [symmetric] UnsafeVarint_def WriteVarint32ToArrayOutOfLine_def
      WriteVarint32ToArrayOutOfLineHelper_def Let_def)

lemma UnsafeWriteSize_enc: "UnsafeWriteSize v = varint_enc (unat v)"
proof (induction v rule: UnsafeWriteSize.induct)
  case (1 v)
  show ?case
  proof (cases "unat v \<ge> 128")
    case True
    have "unat v < 2 ^ LENGTH('a)" by (rule unsigned_less)
    with True have "128 < (2 :: nat) ^ LENGTH('a)" by (rule le_less_trans)
    then have "(2 :: nat) ^ 7 < 2 ^ LENGTH('a)" by simp
    then have "7 < LENGTH('a)" by (simp only: power_strict_increasing_iff)
    then have "take_bit LENGTH('a) (128 :: nat) = 128"
      using power_strict_increasing [of 7 "LENGTH('a)" "2 :: nat"] by (simp add: take_bit_nat_eq_self)
    then have "unat (v OR 128) = unat v OR 128" by (simp add: unsigned_or_eq)
    then have "(ucast (v OR 128) :: byte) = ucast v OR 128"
      by (metis of_nat_unat of_nat_or_eq of_nat_numeral)
    with True 1 show ?thesis
      by (subst UnsafeWriteSize.simps)
         (simp only: unat_drop_7 byte_or_128 ucast_byte_mod_128 varint_enc_big if_True)
  next
    case False
    then have "(ucast v :: byte) = word_of_nat (unat v)" by (intro ucast_byte_small) simp
    moreover have "varint_enc (unat v) = [word_of_nat (unat v)]" using False by (intro varint_enc_small) simp
    ultimately show ?thesis using False by (subst UnsafeWriteSize.simps) (simp only: if_False)
  qed
qed

section \<open>The format is uniquely readable\<close>

lemma varint_of_enc: "n < 128 ^ k \<Longrightarrow> 0 < k \<Longrightarrow> varint_of k (varint_enc n @ rest) = Varint n rest"
proof (induction k arbitrary: n)
  case (Suc k)
  show ?case
  proof (cases "n < 128")
    case True
    then show ?thesis by (simp add: varint_enc_small unat_byte_of_nat_small)
  next
    case False
    with Suc.prems have n: "n div 128 < 128 ^ k" "0 < k"
      by (simp_all add: less_mult_imp_div_less mult.commute) (cases k; simp)
    have "unat (word_of_nat (n mod 128 + 128) :: byte) = n mod 128 + 128"
      by (rule unat_byte_of_nat_small) simp
    then show ?thesis
      using False Suc.IH [OF n] by (simp add: varint_enc_big del: of_nat_add)
  qed
qed simp

lemma varint_enc_length: "n < 128 ^ Suc k \<Longrightarrow> length (varint_enc n) \<le> Suc k"
proof (induction k arbitrary: n)
  case 0
  then show ?case by (simp add: varint_enc_small)
next
  case (Suc k)
  show ?case
  proof (cases "n < 128")
    case False
    then have "n div 128 < 128 ^ Suc k" using Suc.prems by (simp add: less_mult_imp_div_less mult.commute)
    with Suc.IH [of "n div 128"] False show ?thesis by (simp add: varint_enc_big)
  qed (simp add: varint_enc_small)
qed

section \<open>The array readers read the format\<close>

text \<open>What a reader returns for an encoding: the value in its word, and the rest.\<close>

definition varint_result :: "'a::len word \<Rightarrow> nat \<Rightarrow> nat \<Rightarrow> byte list \<Rightarrow> ('a word option \<times> byte list) res" where
  "varint_result result s n ptr =
     (case varint_of n ptr of
        Varint v rest \<Rightarrow> Inr (Some (result + push_bit s (word_of_nat v)), rest)
      | Overlong \<Rightarrow> Inr (None, drop n ptr)
      | Truncated \<Rightarrow> Inl Out_of_bounds)"

lemma rv32_high_result: "rv32_high n result ptr =
    (case varint_of n ptr of
        Varint v rest \<Rightarrow> Inr (Some result, rest)
      | Overlong \<Rightarrow> Inr (None, drop n ptr)
      | Truncated \<Rightarrow> Inl Out_of_bounds)"
proof (induction n arbitrary: ptr)
  case (Suc n)
  show ?case
  proof (cases ptr)
    case (Cons b bs)
    then show ?thesis using Suc.IH [of bs] byte_continues [of b, where ?'a = 32] by (cases "varint_of n bs") auto
  qed simp
qed simp

lemma varint_result_high: "varint_result (result :: 32 word) 35 n ptr = rv32_high n result ptr"
proof -
  have "push_bit 35 (w :: 32 word) = 0" for w
    by (rule bit_word_eqI) (simp add: bit_push_bit_iff)
  then show ?thesis by (simp only: varint_result_def rv32_high_result add_0_right)
qed

lemma ucast_minus_128:
  "128 \<le> unat (b :: byte) \<Longrightarrow> (word_of_nat (unat b - 128) :: 'a::len word) = ucast b - 128"
  by (simp add: of_nat_diff)

lemma varint_result_step:
  "varint_result result s (Suc n) ptr =
     deref ptr (\<lambda>b ptr. let b = (ucast b :: 32 word); result = result + push_bit s b in
       if b AND 0x80 = 0 then Inr (Some result, ptr)
       else let result = result - push_bit s 0x80 in varint_result result (s + 7) n ptr)"
proof (cases ptr)
  case (Cons b bs)
  show ?thesis
  proof (cases "unat b < 128")
    case True
    then have "(ucast b :: 32 word) AND 128 = 0" by (simp add: byte_continues)
    with True Cons show ?thesis by (simp add: varint_result_def)
  next
    case False
    then have "(ucast b :: 32 word) AND 128 \<noteq> 0" by (simp add: byte_continues)
    moreover have "result + push_bit s (word_of_nat (unat b - 128 + 128 * v)) =
        result + push_bit s (ucast b) - push_bit s 128 + push_bit (s + 7) (word_of_nat v :: 32 word)" for v
      using False by (simp add: ucast_minus_128 push_bit_eq_mult power_add algebra_simps)
    ultimately show ?thesis
      using False Cons by (cases "varint_of n bs") (simp_all add: varint_result_def Let_def)
  qed
qed (simp add: varint_result_def)

lemma ReadVarint32FromArray_result:
  assumes "128 \<le> unat b"
  shows "ReadVarint32FromArray (ucast b) (b # ptr) = varint_result 0 0 10 (b # ptr)"
proof -
  have step: "varint_result r s (Suc n) ptr =
     deref ptr (\<lambda>b ptr. if (ucast b :: 32 word) AND 0x80 = 0 then Inr (Some (r + push_bit s (ucast b)), ptr)
       else varint_result (r + push_bit s (ucast b) - push_bit s 0x80) t n ptr)" if "t = s + 7" for r :: "32 word" and s t n ptr
    using varint_result_step [of r s n ptr] that by (simp only: Let_def)
  have steps: "varint_result r 7 9 ptr =
     deref ptr (\<lambda>b ptr. if (ucast b :: 32 word) AND 0x80 = 0 then Inr (Some (r + push_bit 7 (ucast b)), ptr)
       else varint_result (r + push_bit 7 (ucast b) - push_bit 7 0x80) 14 8 ptr)"
    "varint_result r 14 8 ptr =
     deref ptr (\<lambda>b ptr. if (ucast b :: 32 word) AND 0x80 = 0 then Inr (Some (r + push_bit 14 (ucast b)), ptr)
       else varint_result (r + push_bit 14 (ucast b) - push_bit 14 0x80) 21 7 ptr)"
    "varint_result r 21 7 ptr =
     deref ptr (\<lambda>b ptr. if (ucast b :: 32 word) AND 0x80 = 0 then Inr (Some (r + push_bit 21 (ucast b)), ptr)
       else varint_result (r + push_bit 21 (ucast b) - push_bit 21 0x80) 28 6 ptr)"
    "varint_result r 28 6 ptr =
     deref ptr (\<lambda>b ptr. if (ucast b :: 32 word) AND 0x80 = 0 then Inr (Some (r + push_bit 28 (ucast b)), ptr)
       else varint_result (r + push_bit 28 (ucast b) - push_bit 28 0x80) 35 5 ptr)" for r :: "32 word" and ptr
    using step [of 14 7 r 8 ptr] step [of 21 14 r 7 ptr] step [of 28 21 r 6 ptr] step [of 35 28 r 5 ptr]
    by simp_all
  have "kMaxVarintBytes - kMaxVarint32Bytes = 5" by (simp add: kMaxVarintBytes_def kMaxVarint32Bytes_def)
  moreover have "push_bit 28 (0x80 :: 32 word) = 0" by simp
  ultimately have "varint_result (ucast b - 128) 7 9 ptr = ReadVarint32FromArray (ucast b) (b # ptr)"
    by (simp only: ReadVarint32FromArray_def deref.simps Let_def steps varint_result_high diff_0_right)
  moreover have "varint_result 0 0 10 (b # ptr) = varint_result (ucast b - 128 :: 32 word) 7 9 ptr"
    using assms varint_result_step [of 0 0 9 "b # ptr", unfolded Let_def] by (simp add: byte_continues)
  ultimately show ?thesis by simp
qed

text \<open>The 64-bit reader looks for the last byte first. \<open>pre\<close> is what the bytes before it add up to.\<close>

definition varint_pre :: "byte list \<Rightarrow> nat \<Rightarrow> nat" where
  "varint_pre buffer i = (\<Sum>j<i. (unat (buffer ! j) - 128) * 128 ^ j)"

lemma varint_of_prefix:
  assumes "i \<le> k" and "i \<le> length buffer" and "\<forall>j<i. 128 \<le> unat (buffer ! j)"
  shows "varint_of k buffer = (case varint_of (k - i) (drop i buffer) of
      Varint v rest \<Rightarrow> Varint (varint_pre buffer i + 128 ^ i * v) rest | x \<Rightarrow> x)"
  using assms
proof (induction i)
  case 0
  then show ?case by (simp add: varint_pre_def split: varint.split)
next
  case (Suc i)
  obtain m where m: "k - i = Suc m" "m = k - Suc i" using Suc.prems(1) by (cases "k - i") auto
  have "drop i buffer = buffer ! i # drop (Suc i) buffer" using Suc.prems(2) by (simp add: Cons_nth_drop_Suc)
  moreover have "\<not> unat (buffer ! i) < 128" using Suc.prems(3) by (simp add: not_less)
  ultimately have "varint_of (k - i) (drop i buffer) =
      varint_cons (unat (buffer ! i) - 128) (varint_of (k - Suc i) (drop (Suc i) buffer))"
    using m by simp
  moreover have "varint_pre buffer (Suc i) = varint_pre buffer i + (unat (buffer ! i) - 128) * 128 ^ i"
    by (simp add: varint_pre_def)
  ultimately obtain d where "varint_of (k - i) (drop i buffer) = varint_cons d (varint_of (k - Suc i) (drop (Suc i) buffer))"
    and "varint_pre buffer (Suc i) = varint_pre buffer i + d * 128 ^ i" by blast
  then show ?case
    using Suc.IH Suc.prems(1,2) less_SucI [THEN Suc.prems(3) [rule_format]]
    by (cases "varint_of (k - Suc i) (drop (Suc i) buffer)") (simp_all add: distrib_left ac_simps)
qed

lemma fold_plus: "fold (\<lambda>i r. r + f i) xs (r :: 'a::comm_monoid_add) = r + sum_list (map f xs)"
  by (induction xs arbitrary: r) (simp_all add: add.assoc)

lemma DecodeVarint64KnownSize_value:
  assumes "\<forall>j<i. 128 \<le> unat (buffer ! j)"
  shows "DecodeVarint64KnownSize (Suc i) buffer =
    (word_of_nat (varint_pre buffer i + 128 ^ i * unat (buffer ! i)), drop (Suc i) buffer)"
proof -
  have p: "push_bit (7 * j) w = w * 128 ^ j" for j and w :: "64 word"
    by (simp add: push_bit_eq_mult power_mult)
  have "push_bit (7 * j) (word_of_int (uint (buffer ! j) - 128)) =
      (word_of_nat ((unat (buffer ! j) - 128) * 128 ^ j) :: 64 word)" if "j < i" for j
  proof -
    have "uint (buffer ! j) - 128 = int (unat (buffer ! j) - 128)" using assms that by (simp add: of_nat_diff)
    then show ?thesis by (simp add: p)
  qed
  then have "sum_list (map (\<lambda>j. push_bit (7 * j) (word_of_int (uint (buffer ! j) - 128))) [0..<i]) =
      sum_list (map (\<lambda>j. (word_of_nat ((unat (buffer ! j) - 128) * 128 ^ j) :: 64 word)) [0..<i])"
    by (intro arg_cong [of _ _ sum_list] map_cong) auto
  also have "\<dots> = word_of_nat (varint_pre buffer i)"
    by (simp add: interv_sum_list_conv_sum_set_nat varint_pre_def atLeast0LessThan)
  finally show ?thesis
    by (simp add: DecodeVarint64KnownSize_def fold_plus p Let_def add.commute mult.commute [of "128 ^ i"])
qed

lemma rv64_from_result:
  assumes "i \<le> 10" and "i \<le> length buffer" and "\<forall>j<i. 128 \<le> unat (buffer ! j)"
  shows "\<exists>dead. rv64_from [i..<10] buffer =
    (case varint_of 10 buffer of
        Varint v rest \<Rightarrow> Inr (Some (word_of_nat v), rest)
      | Overlong \<Rightarrow> Inr (None, dead)
      | Truncated \<Rightarrow> Inl Out_of_bounds)"
  using assms
proof (induction "10 - i" arbitrary: i)
  case 0
  then have i: "i = 10" by simp
  then have "varint_of 10 buffer = Overlong" using varint_of_prefix [of i 10 buffer] 0 by simp
  with i show ?case by simp
next
  case (Suc d)
  then have up: "[i..<10] = i # [Suc i..<10]" "d = 10 - Suc i" "10 - i = Suc (10 - Suc i)" by (auto simp: upt_conv_Cons)
  have pre: "varint_of 10 buffer = (case varint_of (10 - i) (drop i buffer) of
      Varint v rest \<Rightarrow> Varint (varint_pre buffer i + 128 ^ i * v) rest | x \<Rightarrow> x)"
    using varint_of_prefix [of i 10 buffer] Suc.prems by simp
  show ?case
  proof (cases "i < length buffer")
    case False
    with Suc.prems have "drop i buffer = []" by simp
    with pre up False show ?thesis by (simp add: at_index_def)
  next
    case True
    then have d: "drop i buffer = buffer ! i # drop (Suc i) buffer" by (simp add: Cons_nth_drop_Suc)
    show ?thesis
    proof (cases "unat (buffer ! i) < 128")
      case True
      then show ?thesis
        using pre up d \<open>i < length buffer\<close> DecodeVarint64KnownSize_value [OF Suc.prems(3)]
        by (simp add: at_index_def)
    next
      case False
      then have "\<forall>j<Suc i. 128 \<le> unat (buffer ! j)" using Suc.prems(3) by (auto simp: less_Suc_eq)
      with Suc.hyps(1) [of "Suc i"] up Suc.prems \<open>i < length buffer\<close>
      have "\<exists>dead. rv64_from [Suc i..<10] buffer =
        (case varint_of 10 buffer of
            Varint v rest \<Rightarrow> Inr (Some (word_of_nat v), rest)
          | Overlong \<Rightarrow> Inr (None, dead)
          | Truncated \<Rightarrow> Inl Out_of_bounds)" by simp
      with up False \<open>i < length buffer\<close> show ?thesis by (simp add: at_index_def)
    qed
  qed
qed

section \<open>The size functions count the bytes\<close>

lemma length_varint_enc_half: "n div 2 = m div 2 \<Longrightarrow> length (varint_enc n) = length (varint_enc m)"
proof (cases "n < 128")
  case True
  assume eq: "n div 2 = m div 2"
  with True have "m < 128" by presburger
  with True show ?thesis by (simp add: varint_enc_small)
next
  case False
  assume eq: "n div 2 = m div 2"
  then have "n div 128 = m div 128" using div_mult2_eq [of n 2 64] div_mult2_eq [of m 2 64] by simp
  moreover have "\<not> m < 128" using eq False by presburger
  ultimately show ?thesis using False by (simp add: varint_enc_big)
qed

lemma length_varint_enc_log:
  "2 ^ k \<le> n \<Longrightarrow> n < 2 ^ Suc k \<Longrightarrow> length (varint_enc n) = Suc (k div 7)"
proof (induction n arbitrary: k rule: less_induct)
  case (less n)
  show ?case
  proof (cases "n < 128")
    case True
    then have "2 ^ k < (2 :: nat) ^ 7" using less.prems(1) by simp
    then have "k < 7" by (simp only: power_strict_increasing_iff)
    with True show ?thesis by (simp add: varint_enc_small)
  next
    case False
    then have "(2 :: nat) ^ 7 < 2 ^ Suc k" using less.prems(2) by simp
    then have "7 < Suc k" by (simp only: power_strict_increasing_iff)
    then obtain j where j: "k = j + 7" by (metis less_Suc_eq_le le_Suc_ex add.commute)
    have "2 ^ j \<le> n div 128" "n div 128 < 2 ^ Suc j"
      using less.prems j by (auto simp: power_add less_eq_div_iff_mult_less_eq div_less_iff_less_mult)
    then have "length (varint_enc (n div 128)) = Suc (j div 7)" using less.IH [of "n div 128" j] False by simp
    with False j show ?thesis by (simp add: varint_enc_big)
  qed
qed

lemma builtin_clz_log:
  assumes "2 ^ k \<le> unat (n :: 'a::len word)" and "unat n < 2 ^ Suc k"
  shows "builtin_clz n = LENGTH('a) - 1 - k" and "k < LENGTH('a)"
proof -
  have "2 ^ k < (2 :: nat) ^ LENGTH('a)" using assms(1) unsigned_less [of n] by (rule le_less_trans)
  then show k: "k < LENGTH('a)" by (simp only: power_strict_increasing_iff)
  have bit: "bit n j \<longleftrightarrow> odd (unat n div 2 ^ j)" if "j < LENGTH('a)" for j
  proof -
    have "bit n j = bit (unat n) j" using that by (simp add: bit_unsigned_iff)
    then show ?thesis by (simp add: bit_iff_odd)
  qed
  have "unat n div 2 ^ k = 1" using assms by (intro div_nat_eqI) simp_all
  then have one: "bit n k" using bit [OF k] by simp
  have zero: "\<not> bit n j" if "k < j" "j < LENGTH('a)" for j
  proof -
    have "unat n < 2 ^ j" using assms(2) that(1) power_increasing [of "Suc k" j "2 :: nat"] by simp
    then show ?thesis using bit [OF that(2)] by simp
  qed
  have "[0..<LENGTH('a)] = [0..<k] @ [k..<LENGTH('a)]"
    using k upt_add_eq_append [of 0 k "LENGTH('a) - k"] by simp
  then have "rev [0..<LENGTH('a)] = rev [Suc k..<LENGTH('a)] @ k # rev [0..<k]"
    using k by (simp add: upt_conv_Cons)
  then show "builtin_clz n = LENGTH('a) - 1 - k"
    using one zero by (simp add: builtin_clz_def takeWhile_append)
qed

lemma log_of_nonzero: "0 < (n :: nat) \<Longrightarrow> \<exists>k. 2 ^ k \<le> n \<and> n < 2 ^ Suc k"
  using ex_power_ivl1 [of 2 n] by auto

lemma small_log_words:
  "k < 32 \<Longrightarrow> unat (((31 XOR word_of_nat (31 - k) :: 32 word) * 9 + 73) div 64) = Suc (k div 7) \<and>
     unat (((31 XOR word_of_nat (31 - k) :: 32 word) * 9 + 73 + 64) div 64) = Suc (Suc (k div 7))"
proof -
  have "list_all (\<lambda>k. unat (((31 XOR word_of_nat (31 - k) :: 32 word) * 9 + 73) div 64) = Suc (k div 7) \<and>
     unat (((31 XOR word_of_nat (31 - k) :: 32 word) * 9 + 73 + 64) div 64) = Suc (Suc (k div 7))) [0..<32]"
    by code_simp
  then show "k < 32 \<Longrightarrow> ?thesis" by (simp only: list_all_upt)
qed

lemma log_words:
  "k < 64 \<Longrightarrow> unat (((63 XOR word_of_nat (63 - k) :: 32 word) * 9 + 73) div 64) = Suc (k div 7) \<and>
     unat (((63 XOR word_of_nat (63 - k) :: 32 word) * 9 + 73 + 64) div 64) = Suc (Suc (k div 7))"
proof -
  have "list_all (\<lambda>k. unat (((63 XOR word_of_nat (63 - k) :: 32 word) * 9 + 73) div 64) = Suc (k div 7) \<and>
     unat (((63 XOR word_of_nat (63 - k) :: 32 word) * 9 + 73 + 64) div 64) = Suc (Suc (k div 7))) [0..<64]"
    by code_simp
  then show "k < 64 \<Longrightarrow> ?thesis" by (simp only: list_all_upt)
qed

lemma unat_or_1: "unat ((v :: 'a::len word) OR 1) div 2 = unat v div 2" "0 < unat (v OR 1)"
proof -
  have "unat (v OR 1) = unat v OR 1" by (simp add: unsigned_or_eq)
  also have "\<dots> = unat v + of_bool (even (unat v))" by (rule or_one_eq)
  finally have "unat (v OR 1) = unat v + of_bool (even (unat v))" .
  then show "unat (v OR 1) div 2 = unat v div 2" "0 < unat (v OR 1)" by (auto elim: oddE)
qed

lemma VarintSize32_length:
  "VarintSize32 v = length (varint_enc (unat v))" "VarintSize32PlusOne v = Suc (length (varint_enc (unat v)))"
proof -
  obtain k where k: "2 ^ k \<le> unat (v OR 1)" "unat (v OR 1) < 2 ^ Suc k"
    using log_of_nonzero unat_or_1(2) by blast
  have "builtin_clz (v OR 1) = 31 - k" "k < 32" using builtin_clz_log [OF k] by simp_all
  moreover have "length (varint_enc (unat v)) = Suc (k div 7)"
    using length_varint_enc_log [OF k] length_varint_enc_half [OF unat_or_1(1) [of v]] by simp
  ultimately show "VarintSize32 v = length (varint_enc (unat v))"
    "VarintSize32PlusOne v = Suc (length (varint_enc (unat v)))"
    using small_log_words [of k]
    by (simp_all only: VarintSize32_def VarintSize32PlusOne_def Log2FloorNonZero_def Let_def)
qed

lemma VarintSize64_length:
  "VarintSize64 v = length (varint_enc (unat v))" "VarintSize64PlusOne v = Suc (length (varint_enc (unat v)))"
proof -
  obtain k where k: "2 ^ k \<le> unat (v OR 1)" "unat (v OR 1) < 2 ^ Suc k"
    using log_of_nonzero unat_or_1(2) by blast
  have "builtin_clz (v OR 1) = 63 - k" "k < 64" using builtin_clz_log [OF k] by simp_all
  moreover have "length (varint_enc (unat v)) = Suc (k div 7)"
    using length_varint_enc_log [OF k] length_varint_enc_half [OF unat_or_1(1) [of v]] by simp
  ultimately show "VarintSize64 v = length (varint_enc (unat v))"
    "VarintSize64PlusOne v = Suc (length (varint_enc (unat v)))"
    using log_words [of k]
    by (simp_all only: VarintSize64_def VarintSize64PlusOne_def Log2FloorNonZero64_def Let_def)
qed

lemma varint_enc_length_ge: "128 ^ k \<le> n \<Longrightarrow> Suc k \<le> length (varint_enc n)"
proof (induction k arbitrary: n)
  case 0
  then show ?case by (cases "n < 128") (simp_all add: varint_enc_small varint_enc_big)
next
  case (Suc k)
  then have "128 ^ k \<le> n div 128" by (simp add: less_eq_div_iff_mult_less_eq mult.commute)
  moreover have "1 \<le> (128 :: nat) ^ k" by simp
  then have "128 \<le> n" using Suc.prems unfolding power_Suc by linarith
  ultimately show ?case using Suc.IH by (simp add: varint_enc_big)
qed

lemma varint_enc_length_eq: "128 ^ k \<le> n \<Longrightarrow> n < 128 ^ Suc k \<Longrightarrow> length (varint_enc n) = Suc k"
  by (intro antisym varint_enc_length varint_enc_length_ge)

lemma TagSize_length: "TagSize tag = length (varint_enc (unat tag))"
proof -
  have "unat tag < 2 ^ 32" using unsigned_less [of tag] by simp
  then show ?thesis
    using varint_enc_small [of "unat tag"] varint_enc_length_eq [of 1 "unat tag"] varint_enc_length_eq [of 2 "unat tag"]
      varint_enc_length_eq [of 3 "unat tag"] varint_enc_length_eq [of 4 "unat tag"]
    by (simp add: TagSize_def)
qed

lemma unat_32_lt: "unat (v :: 32 word) < 2 ^ 32"
  using unsigned_less [of v] by simp

lemma unat_64_lt: "unat (w :: 64 word) < 2 ^ 64"
  using unsigned_less [of w] by simp

lemma unat_ucast_64: "unat (ucast (v :: 32 word) :: 64 word) = unat v"
  using unat_32_lt [of v] by (simp add: unsigned_ucast_eq take_bit_eq_mod)

section \<open>Properties\<close>

text \<open>
  C40: Reading a varint back: what the 64-bit writer writes, for any value of two bytes or more (that is, from 128
  on; the array readers are not called for a single byte), the 64-bit array reader reads, and what the 32-bit
  writer writes both readers read, each leaving the bytes that follow.
\<close>

theorem varint_roundtrip:
  fixes v :: "32 word" and w :: "64 word"
  assumes "128 \<le> unat v" and "128 \<le> unat w"
  shows "ReadVarint64FromArray (WriteVarint64ToArray w @ rest) = Inr (Some w, rest) \<and>
    ReadVarint32FromArray (ucast (hd (WriteVarint32ToArray v))) (WriteVarint32ToArray v @ rest) = Inr (Some v, rest) \<and>
    ReadVarint64FromArray (WriteVarint32ToArray v @ rest) = Inr (Some (ucast v), rest)"
proof (intro conjI)
  have small: "unat v < 128 ^ 10" "unat w < 128 ^ 10"
    using unat_32_lt [of v] unat_64_lt [of w] by simp_all
  obtain b ptr where v: "varint_enc (unat v) = b # ptr" "128 \<le> unat b"
    using assms(1) unat_byte_of_nat_small [of "unat v mod 128 + 128"] by (simp add: varint_enc_big del: of_nat_add)
  obtain c qtr where w: "varint_enc (unat w) = c # qtr" "128 \<le> unat c"
    using assms(2) unat_byte_of_nat_small [of "unat w mod 128 + 128"] by (simp add: varint_enc_big del: of_nat_add)
  show "ReadVarint64FromArray (WriteVarint64ToArray w @ rest) = Inr (Some w, rest)"
    using rv64_from_result [of 1 "varint_enc (unat w) @ rest"] w varint_of_enc [OF small(2), of rest]
    by (simp add: ReadVarint64FromArray_def WriteVarint64ToArray_def UnsafeVarint_enc)
  show "ReadVarint64FromArray (WriteVarint32ToArray v @ rest) = Inr (Some (ucast v), rest)"
    using rv64_from_result [of 1 "varint_enc (unat v) @ rest"] v varint_of_enc [OF small(1), of rest]
    by (simp add: ReadVarint64FromArray_def WriteVarint32ToArray_def UnsafeVarint_enc)
  show "ReadVarint32FromArray (ucast (hd (WriteVarint32ToArray v))) (WriteVarint32ToArray v @ rest) = Inr (Some v, rest)"
    using ReadVarint32FromArray_result [OF v(2), of "ptr @ rest"] v varint_of_enc [OF small(1), of rest]
    by (simp add: varint_result_def WriteVarint32ToArray_def UnsafeVarint_enc)
qed

lemma varint_roundtrip_witness:
  "ReadVarint64FromArray (WriteVarint64ToArray 300 @ [7]) = Inr (Some 300, [7]) \<and>
   ReadVarint32FromArray (ucast (hd (WriteVarint32ToArray 300))) (WriteVarint32ToArray 300 @ [7]) = Inr (Some 300, [7]) \<and>
   ReadVarint64FromArray (WriteVarint32ToArray 300 @ [7]) = Inr (Some (ucast (300 :: 32 word)), [7])"
  by (rule varint_roundtrip) simp_all

text \<open>
  The unrolled readers implement the format: on any bytes that start with a continuation byte
  the 32-bit reader, with its subtractions and its second loop, and the 64-bit reader, which
  looks for the end first, agree with decoding digit by digit: the same value modulo the width,
  the same rest, failure exactly when ten bytes do not end, and a read past the end of the
  array exactly when the bytes stop before.
\<close>

theorem varint_readers_decode:
  assumes "128 \<le> unat b"
  shows "ReadVarint32FromArray (ucast b) (b # ptr) =
      (case varint_of kMaxVarintBytes (b # ptr) of
         Varint v rest \<Rightarrow> Inr (Some (word_of_nat v), rest)
       | Overlong \<Rightarrow> Inr (None, drop kMaxVarintBytes (b # ptr))
       | Truncated \<Rightarrow> Inl Out_of_bounds) \<and>
    (case ReadVarint64FromArray (b # ptr) of
       Inr (Some v, rest) \<Rightarrow> \<exists>n. varint_of kMaxVarintBytes (b # ptr) = Varint n rest \<and> v = word_of_nat n
     | Inr (None, _) \<Rightarrow> varint_of kMaxVarintBytes (b # ptr) = Overlong
     | Inl e \<Rightarrow> e = Out_of_bounds \<and> varint_of kMaxVarintBytes (b # ptr) = Truncated)"
proof
  show "ReadVarint32FromArray (ucast b) (b # ptr) =
      (case varint_of kMaxVarintBytes (b # ptr) of
         Varint v rest \<Rightarrow> Inr (Some (word_of_nat v), rest)
       | Overlong \<Rightarrow> Inr (None, drop kMaxVarintBytes (b # ptr))
       | Truncated \<Rightarrow> Inl Out_of_bounds)"
    by (simp only: ReadVarint32FromArray_result [OF assms] varint_result_def kMaxVarintBytes_def push_bit_0_id id_apply add_0)
  show "case ReadVarint64FromArray (b # ptr) of
       Inr (Some v, rest) \<Rightarrow> \<exists>n. varint_of kMaxVarintBytes (b # ptr) = Varint n rest \<and> v = word_of_nat n
     | Inr (None, _) \<Rightarrow> varint_of kMaxVarintBytes (b # ptr) = Overlong
     | Inl e \<Rightarrow> e = Out_of_bounds \<and> varint_of kMaxVarintBytes (b # ptr) = Truncated"
    using rv64_from_result [of 1 "b # ptr"] assms
    by (cases "varint_of 10 (b # ptr)") (auto simp: ReadVarint64FromArray_def kMaxVarintBytes_def)
qed

lemma varint_readers_decode_witness:
  "ReadVarint32FromArray (ucast (0xAC :: byte)) [0xAC, 2, 9] =
      (case varint_of kMaxVarintBytes [0xAC, 2, 9] of
         Varint v rest \<Rightarrow> Inr (Some (word_of_nat v), rest)
       | Overlong \<Rightarrow> Inr (None, drop kMaxVarintBytes [0xAC, 2, 9])
       | Truncated \<Rightarrow> Inl Out_of_bounds) \<and>
   varint_of 10 [0xAC, 2, 9] = Varint 300 [9]"
proof
  show "ReadVarint32FromArray (ucast (0xAC :: byte)) [0xAC, 2, 9] =
      (case varint_of kMaxVarintBytes [0xAC, 2, 9] of
         Varint v rest \<Rightarrow> Inr (Some (word_of_nat v), rest)
       | Overlong \<Rightarrow> Inr (None, drop kMaxVarintBytes [0xAC, 2, 9])
       | Truncated \<Rightarrow> Inl Out_of_bounds)"
    by (rule varint_readers_decode [THEN conjunct1]) simp
  show "varint_of 10 [0xAC, 2, 9] = Varint 300 [9]" by code_simp
qed

text \<open>
  The three writers write the same bytes: the inlined one, the one for lengths and the
  out-of-line one.
\<close>

theorem varint_writers_agree:
  fixes v :: "32 word" and w :: "'a::len word"
  shows "UnsafeWriteSize w = UnsafeVarint w \<and> WriteVarint32ToArrayOutOfLine v = WriteVarint32ToArray v \<and>
    WriteVarint32ToArray v = WriteVarint64ToArray (ucast v)"
  by (simp add: UnsafeWriteSize_enc UnsafeVarint_enc OutOfLine_enc WriteVarint32ToArray_def WriteVarint64ToArray_def unat_ucast_64)

text \<open>
  The size functions, which compute with the position of the highest bit, give the number of
  bytes the writers write; a varint takes at most five bytes for 32 bits and ten for 64.
\<close>

theorem varint_sizes:
  fixes v :: "32 word" and w :: "64 word"
  shows "VarintSize32 v = length (WriteVarint32ToArray v) \<and> VarintSize64 w = length (WriteVarint64ToArray w) \<and>
    VarintSize32PlusOne v = 1 + VarintSize32 v \<and> VarintSize64PlusOne w = 1 + VarintSize64 w \<and>
    VarintSize32SignExtended v = length (WriteVarint32SignExtendedToArray v) \<and>
    TagSize v = length (WriteTagToArray v) \<and>
    length (WriteVarint32ToArray v) \<le> kMaxVarint32Bytes \<and> length (WriteVarint64ToArray w) \<le> kMaxVarintBytes"
proof -
  have "unat v < 128 ^ Suc 4" "unat w < 128 ^ Suc 9"
    using unat_32_lt [of v] unat_64_lt [of w] by simp_all
  from varint_enc_length [OF this(1)] varint_enc_length [OF this(2)] show ?thesis
    by (simp add: VarintSize32_length VarintSize64_length TagSize_length VarintSize32SignExtended_def
        WriteVarint32SignExtendedToArray_def WriteTagToArray_def WriteVarint32ToArray_def WriteVarint64ToArray_def
        UnsafeVarint_enc kMaxVarint32Bytes_def kMaxVarintBytes_def)
qed

end
