(* ===== verification/Coded_Input.thy ===== *)
theory Coded_Input
  imports Varint Zero_Copy
begin

text \<open>
  \<open>CodedInputStream\<close> (\<open>google/protobuf/io/coded_stream.cc\<close> and the inline functions of
  \<open>coded_stream.h\<close>): reading integers, strings and tags through the buffer of the current piece of a
  \<open>ZeroCopyInputStream\<close>, below the limits set by the parser. The stream below is an argument \<open>V\<close>.
  Debug checks (\<open>GOOGLE_DCHECK\<close>) are not part of the functions.
\<close>

section \<open>State\<close>

text \<open>
  \<open>ci_data\<close> are the bytes from \<open>buffer_\<close> to the end of the current piece, \<open>ci_size\<close> is
  \<open>buffer_end_ - buffer_\<close>; the bytes beyond \<open>buffer_end_\<close> are those after the limit and the
  overflow.
\<close>

record 's coded_input =
  ci_data :: "byte list"
  ci_size :: int
  ci_input :: 's
  total_bytes_read :: int
  overflow_bytes :: int
  last_tag :: "32 word"
  legitimate_message_end :: bool
  current_limit :: int
  buffer_size_after_limit :: int
  total_bytes_limit :: int
  recursion_budget :: int
  recursion_limit :: int

definition default_recursion_limit :: int where
  "default_recursion_limit = 100"

section \<open>The buffer\<close>

definition BufferSize :: "'s coded_input \<Rightarrow> int" where
  "BufferSize s = ci_size s"

text \<open>The bytes from \<open>buffer_\<close> up to \<open>buffer_end_\<close>.\<close>

definition buffer_bytes :: "'s coded_input \<Rightarrow> byte list" where
  "buffer_bytes s = take (nat (ci_size s)) (ci_data s)"

definition Advance :: "int \<Rightarrow> 's coded_input \<Rightarrow> 's coded_input" where
  "Advance amount s = s\<lparr>ci_data := drop (nat amount) (ci_data s), ci_size := ci_size s - amount\<rparr>"

definition CurrentPosition :: "'s coded_input \<Rightarrow> int" where
  "CurrentPosition s = total_bytes_read s - (BufferSize s + buffer_size_after_limit s)"

text \<open>\<open>buffer_ = buffer_end_ = NULL\<close>; what was beyond the end of the buffer stays counted.\<close>

definition drop_buffer :: "'s coded_input \<Rightarrow> 's coded_input" where
  "drop_buffer s = s\<lparr>ci_data := drop (nat (ci_size s)) (ci_data s), ci_size := 0\<rparr>"

definition RecomputeBufferLimits :: "'s coded_input \<Rightarrow> 's coded_input" where
  "RecomputeBufferLimits s =
     (let s = s\<lparr>ci_size := ci_size s + buffer_size_after_limit s\<rparr>;
          closest_limit = min (current_limit s) (total_bytes_limit s)
      in if closest_limit < total_bytes_read s then
           let s = s\<lparr>buffer_size_after_limit := total_bytes_read s - closest_limit\<rparr>
           in s\<lparr>ci_size := ci_size s - buffer_size_after_limit s\<rparr>
         else s\<lparr>buffer_size_after_limit := 0\<rparr>)"

partial_function (option) NextNonEmpty :: "'s zc_input \<Rightarrow> 's \<Rightarrow> (byte list option \<times> 's) run" where
  "NextNonEmpty V i =
     (case zc_Next V i of
        Inl e \<Rightarrow> Some (Inl e)
      | Inr (r, i) \<Rightarrow> if r = Some [] then NextNonEmpty V i else return_run (r, i))"

definition Refresh :: "'s zc_input \<Rightarrow> 's coded_input \<Rightarrow> (bool \<times> 's coded_input) run" where
  "Refresh V s =
     (if buffer_size_after_limit s > 0 \<or> overflow_bytes s > 0 \<or> total_bytes_read s = current_limit s
      then return_run (False, s)
      else
        bind_run (NextNonEmpty V (ci_input s)) (\<lambda>(r, i).
          let s = s\<lparr>ci_input := i\<rparr>
          in case r of
               None \<Rightarrow> return_run (False, s\<lparr>ci_data := [], ci_size := 0\<rparr>)
             | Some void_buffer \<Rightarrow>
                 let buffer_size = int (length void_buffer);
                     s = s\<lparr>ci_data := void_buffer, ci_size := buffer_size\<rparr>;
                     s = (if total_bytes_read s \<le> INT_MAX - buffer_size
                          then s\<lparr>total_bytes_read := total_bytes_read s + buffer_size\<rparr>
                          else
                            let s = s\<lparr>overflow_bytes := total_bytes_read s - (INT_MAX - buffer_size)\<rparr>;
                                s = s\<lparr>ci_size := ci_size s - overflow_bytes s\<rparr>
                            in s\<lparr>total_bytes_read := INT_MAX\<rparr>)
                 in return_run (True, RecomputeBufferLimits s)))"

definition CodedInputStream_ctor :: "'s zc_input \<Rightarrow> 's \<Rightarrow> 's coded_input run" where
  "CodedInputStream_ctor V input =
     bind_run (Refresh V \<lparr>ci_data = [], ci_size = 0, ci_input = input, total_bytes_read = 0, overflow_bytes = 0,
         last_tag = 0, legitimate_message_end = False, current_limit = INT_MAX, buffer_size_after_limit = 0,
         total_bytes_limit = INT_MAX, recursion_budget = default_recursion_limit,
         recursion_limit = default_recursion_limit\<rparr>)
       (\<lambda>(_, s). return_run s)"

definition BackUpInputToCurrentPosition :: "'s zc_input \<Rightarrow> 's coded_input \<Rightarrow> 's coded_input res" where
  "BackUpInputToCurrentPosition V s =
     (let backup_bytes = BufferSize s + buffer_size_after_limit s + overflow_bytes s
      in if backup_bytes > 0 then
           bind_res (zc_BackUp V backup_bytes (ci_input s)) (\<lambda>i.
             Inr (s\<lparr>ci_input := i,
                    total_bytes_read := total_bytes_read s - (BufferSize s + buffer_size_after_limit s),
                    ci_data := [], ci_size := 0, buffer_size_after_limit := 0, overflow_bytes := 0\<rparr>))
         else Inr s)"

text \<open>The destructor gives the stream below back.\<close>

definition CodedInputStream_dtor :: "'s zc_input \<Rightarrow> 's coded_input \<Rightarrow> 's res" where
  "CodedInputStream_dtor V s = bind_res (BackUpInputToCurrentPosition V s) (\<lambda>s. Inr (ci_input s))"

section \<open>Limits\<close>

definition PushLimit :: "int \<Rightarrow> 's coded_input \<Rightarrow> int \<times> 's coded_input" where
  "PushLimit byte_limit s =
     (let current_position = CurrentPosition s;
          old_limit = current_limit s
      in if byte_limit \<ge> 0 \<and> byte_limit \<le> INT_MAX - current_position \<and>
            byte_limit < current_limit s - current_position
         then (old_limit, RecomputeBufferLimits (s\<lparr>current_limit := current_position + byte_limit\<rparr>))
         else (old_limit, s))"

definition PopLimit :: "int \<Rightarrow> 's coded_input \<Rightarrow> 's coded_input" where
  "PopLimit limit s = (RecomputeBufferLimits (s\<lparr>current_limit := limit\<rparr>))\<lparr>legitimate_message_end := False\<rparr>"

definition ConsumedEntireMessage :: "'s coded_input \<Rightarrow> bool" where
  "ConsumedEntireMessage s = legitimate_message_end s"

definition IncrementRecursionDepthAndPushLimit :: "int \<Rightarrow> 's coded_input \<Rightarrow> (int \<times> int) \<times> 's coded_input" where
  "IncrementRecursionDepthAndPushLimit byte_limit s =
     (let (old, s) = PushLimit byte_limit s; s = s\<lparr>recursion_budget := recursion_budget s - 1\<rparr>
      in ((old, recursion_budget s), s))"

definition DecrementRecursionDepthAndPopLimit :: "int \<Rightarrow> 's coded_input \<Rightarrow> bool \<times> 's coded_input" where
  "DecrementRecursionDepthAndPopLimit limit s =
     (let result = ConsumedEntireMessage s; s = PopLimit limit s
      in (result, s\<lparr>recursion_budget := recursion_budget s + 1\<rparr>))"

definition CheckEntireMessageConsumedAndPopLimit :: "int \<Rightarrow> 's coded_input \<Rightarrow> bool \<times> 's coded_input" where
  "CheckEntireMessageConsumedAndPopLimit limit s =
     (let result = ConsumedEntireMessage s in (result, PopLimit limit s))"

definition BytesUntilLimit :: "'s coded_input \<Rightarrow> int" where
  "BytesUntilLimit s =
     (if current_limit s = INT_MAX then - 1 else current_limit s - CurrentPosition s)"

definition SetTotalBytesLimit :: "int \<Rightarrow> 's coded_input \<Rightarrow> 's coded_input" where
  "SetTotalBytesLimit limit s =
     RecomputeBufferLimits (s\<lparr>total_bytes_limit := max (CurrentPosition s) limit\<rparr>)"

definition BytesUntilTotalBytesLimit :: "'s coded_input \<Rightarrow> int" where
  "BytesUntilTotalBytesLimit s =
     (if total_bytes_limit s = INT_MAX then - 1 else total_bytes_limit s - CurrentPosition s)"

definition SetRecursionLimit :: "int \<Rightarrow> 's coded_input \<Rightarrow> 's coded_input" where
  "SetRecursionLimit limit s =
     s\<lparr>recursion_budget := recursion_budget s + (limit - recursion_limit s), recursion_limit := limit\<rparr>"

definition IncrementRecursionDepth :: "'s coded_input \<Rightarrow> bool \<times> 's coded_input" where
  "IncrementRecursionDepth s =
     (let s = s\<lparr>recursion_budget := recursion_budget s - 1\<rparr> in (recursion_budget s \<ge> 0, s))"

definition DecrementRecursionDepth :: "'s coded_input \<Rightarrow> 's coded_input" where
  "DecrementRecursionDepth s =
     (if recursion_budget s < recursion_limit s then s\<lparr>recursion_budget := recursion_budget s + 1\<rparr> else s)"

definition UnsafeDecrementRecursionDepth :: "'s coded_input \<Rightarrow> 's coded_input res" where
  "UnsafeDecrementRecursionDepth s =
     (if recursion_budget s < recursion_limit s then Inr (s\<lparr>recursion_budget := recursion_budget s + 1\<rparr>)
      else Inl Assert_fail)"

section \<open>Skipping and raw bytes\<close>

definition SkipFallback ::
    "'s zc_input \<Rightarrow> int \<Rightarrow> int \<Rightarrow> 's coded_input \<Rightarrow> (bool \<times> 's coded_input) res" where
  "SkipFallback V count original_buffer_size s =
     (if buffer_size_after_limit s > 0 then Inr (False, Advance original_buffer_size s)
      else
        let count = count - original_buffer_size;
            s = drop_buffer s;
            closest_limit = min (current_limit s) (total_bytes_limit s);
            bytes_until_limit = closest_limit - total_bytes_read s
        in if bytes_until_limit < count then
             if bytes_until_limit > 0 then
               bind_res (zc_Skip V bytes_until_limit (ci_input s)) (\<lambda>(_, i).
                 Inr (False, s\<lparr>total_bytes_read := closest_limit, ci_input := i\<rparr>))
             else Inr (False, s)
           else
             bind_res (zc_Skip V count (ci_input s)) (\<lambda>(ok, i).
               if \<not> ok then Inr (False, s\<lparr>total_bytes_read := zc_ByteCount V i, ci_input := i\<rparr>)
               else Inr (True, s\<lparr>total_bytes_read := total_bytes_read s + count, ci_input := i\<rparr>)))"

definition Skip :: "'s zc_input \<Rightarrow> int \<Rightarrow> 's coded_input \<Rightarrow> (bool \<times> 's coded_input) res" where
  "Skip V count s =
     (if count < 0 then Inr (False, s)
      else let original_buffer_size = BufferSize s
           in if count \<le> original_buffer_size then Inr (True, Advance count s)
              else SkipFallback V count original_buffer_size s)"

definition GetDirectBufferPointer ::
    "'s zc_input \<Rightarrow> 's coded_input \<Rightarrow> (byte list option \<times> 's coded_input) run" where
  "GetDirectBufferPointer V s =
     (if BufferSize s = 0 then
        bind_run (Refresh V s) (\<lambda>(ok, s). return_run (if ok then Some (buffer_bytes s) else None, s))
      else return_run (Some (buffer_bytes s), s))"

definition GetDirectBufferPointerInline :: "'s coded_input \<Rightarrow> byte list" where
  "GetDirectBufferPointerInline s = buffer_bytes s"

text \<open>Whether all bytes were there, and the bytes that were copied.\<close>

partial_function (option) ReadRaw ::
    "'s zc_input \<Rightarrow> int \<Rightarrow> 's coded_input \<Rightarrow> (bool \<times> byte list \<times> 's coded_input) run" where
  "ReadRaw V n s =
     (if BufferSize s < n then
        bind_run (Refresh V (Advance (BufferSize s) s)) (\<lambda>(ok, t).
          if ok then
            bind_run (ReadRaw V (n - BufferSize s) t) (\<lambda>(ok, bs, t). return_run (ok, buffer_bytes s @ bs, t))
          else return_run (False, buffer_bytes s, t))
      else return_run (True, take (nat n) (ci_data s), Advance n s))"

text \<open>The loop of \<open>ReadStringFallback\<close>; the string is \<open>acc\<close> and what the loop appends.\<close>

partial_function (option) read_string_loop ::
    "'s zc_input \<Rightarrow> byte list \<Rightarrow> int \<Rightarrow> 's coded_input \<Rightarrow> (bool \<times> byte list \<times> 's coded_input) run" where
  "read_string_loop V acc n s =
     (if BufferSize s < n then
        let acc = (if BufferSize s \<noteq> 0 then acc @ buffer_bytes s else acc)
        in bind_run (Refresh V (Advance (BufferSize s) s)) (\<lambda>(ok, t).
             if ok then read_string_loop V acc (n - BufferSize s) t
             else return_run (False, acc, t))
      else return_run (True, acc @ take (nat n) (ci_data s), Advance n s))"

definition ReadStringFallback ::
    "'s zc_input \<Rightarrow> byte list \<Rightarrow> int \<Rightarrow> 's coded_input \<Rightarrow> (bool \<times> byte list \<times> 's coded_input) run" where
  "ReadStringFallback V buffer n s =
     (let buffer = (if buffer \<noteq> [] then [] else buffer) in read_string_loop V buffer n s)"

definition ReadString ::
    "'s zc_input \<Rightarrow> byte list \<Rightarrow> int \<Rightarrow> 's coded_input \<Rightarrow> (bool \<times> byte list \<times> 's coded_input) run" where
  "ReadString V buffer n s =
     (if n < 0 then return_run (False, buffer, s)
      else if BufferSize s \<ge> n then return_run (True, take (nat n) (ci_data s), Advance n s)
      else ReadStringFallback V buffer n s)"

section \<open>Fixed-size integers\<close>

definition ReadLittleEndian32FromArray :: "byte list \<Rightarrow> 32 word" where
  "ReadLittleEndian32FromArray buffer =
     ucast (buffer ! 0) OR push_bit 8 (ucast (buffer ! 1)) OR push_bit 16 (ucast (buffer ! 2)) OR
     push_bit 24 (ucast (buffer ! 3))"

definition ReadLittleEndian64FromArray :: "byte list \<Rightarrow> 64 word" where
  "ReadLittleEndian64FromArray buffer =
     (let part0 = ReadLittleEndian32FromArray buffer; part1 = ReadLittleEndian32FromArray (drop 4 buffer)
      in ucast part0 OR push_bit 32 (ucast part1))"

definition ReadLittleEndian32Fallback ::
    "'s zc_input \<Rightarrow> 's coded_input \<Rightarrow> (32 word option \<times> 's coded_input) run" where
  "ReadLittleEndian32Fallback V s =
     (if BufferSize s \<ge> 4 then return_run (Some (ReadLittleEndian32FromArray (ci_data s)), Advance 4 s)
      else bind_run (ReadRaw V 4 s) (\<lambda>(ok, bytes, s).
        return_run (if ok then Some (ReadLittleEndian32FromArray bytes) else None, s)))"

definition ReadLittleEndian64Fallback ::
    "'s zc_input \<Rightarrow> 's coded_input \<Rightarrow> (64 word option \<times> 's coded_input) run" where
  "ReadLittleEndian64Fallback V s =
     (if BufferSize s \<ge> 8 then return_run (Some (ReadLittleEndian64FromArray (ci_data s)), Advance 8 s)
      else bind_run (ReadRaw V 8 s) (\<lambda>(ok, bytes, s).
        return_run (if ok then Some (ReadLittleEndian64FromArray bytes) else None, s)))"

definition ReadLittleEndian32 :: "'s zc_input \<Rightarrow> 's coded_input \<Rightarrow> (32 word option \<times> 's coded_input) run" where
  "ReadLittleEndian32 V s =
     (if BufferSize s \<ge> 4 then return_run (Some (ReadLittleEndian32FromArray (ci_data s)), Advance 4 s)
      else ReadLittleEndian32Fallback V s)"

definition ReadLittleEndian64 :: "'s zc_input \<Rightarrow> 's coded_input \<Rightarrow> (64 word option \<times> 's coded_input) run" where
  "ReadLittleEndian64 V s =
     (if BufferSize s \<ge> 8 then return_run (Some (ReadLittleEndian64FromArray (ci_data s)), Advance 8 s)
      else ReadLittleEndian64Fallback V s)"

section \<open>Varints\<close>

text \<open>
  The test before the array readers: ten bytes are there, or the buffer ends with a byte that ends
  a varint.
\<close>

definition array_readable :: "'s coded_input \<Rightarrow> bool" where
  "array_readable s \<longleftrightarrow> BufferSize s \<ge> int kMaxVarintBytes \<or>
     (BufferSize s > 0 \<and> last (buffer_bytes s) AND 0x80 = 0)"

text \<open>\<open>buffer_ = p.second\<close>\<close>

definition set_buffer :: "byte list \<Rightarrow> 's coded_input \<Rightarrow> 's coded_input" where
  "set_buffer rest s = Advance (BufferSize s - int (length rest)) s"

text \<open>The inner loop of \<open>ReadVarint64Slow\<close>, until the buffer has a byte.\<close>

partial_function (option) refill :: "'s zc_input \<Rightarrow> 's coded_input \<Rightarrow> (bool \<times> 's coded_input) run" where
  "refill V s =
     (if BufferSize s = 0 then
        bind_run (Refresh V s) (\<lambda>(ok, s). if ok then refill V s else return_run (False, s))
      else return_run (True, s))"

text \<open>
  Its outer loop with at most \<open>left\<close> more bytes (\<open>count\<close> is \<open>kMaxVarintBytes - left\<close>). \<open>None\<close> stands
  for a failure, which sets the value to 0.
\<close>

fun read_varint64_loop ::
    "'s zc_input \<Rightarrow> nat \<Rightarrow> 64 word \<Rightarrow> 's coded_input \<Rightarrow> (64 word option \<times> 's coded_input) run" where
  "read_varint64_loop V 0 result s = return_run (None, s)"
| "read_varint64_loop V (Suc left) result s =
     bind_run (refill V s) (\<lambda>(ok, s).
       if \<not> ok then return_run (None, s)
       else
         let b = hd (ci_data s);
             count = kMaxVarintBytes - Suc left;
             result = result OR push_bit (7 * count) (ucast (b AND 0x7F));
             s = Advance 1 s
         in if b AND 0x80 \<noteq> 0 then read_varint64_loop V left result s else return_run (Some result, s))"

definition ReadVarint64Slow :: "'s zc_input \<Rightarrow> 's coded_input \<Rightarrow> (64 word option \<times> 's coded_input) run" where
  "ReadVarint64Slow V s = read_varint64_loop V kMaxVarintBytes 0 s"

definition ReadVarint64Fallback :: "'s zc_input \<Rightarrow> 's coded_input \<Rightarrow> (64 word option \<times> 's coded_input) run" where
  "ReadVarint64Fallback V s =
     (if array_readable s then
        (case ReadVarint64FromArray (buffer_bytes s) of
           Inl e \<Rightarrow> Some (Inl e)
         | Inr (None, _) \<Rightarrow> return_run (None, s)
         | Inr (Some temp, next) \<Rightarrow> return_run (Some temp, set_buffer next s))
      else ReadVarint64Slow V s)"

definition ReadVarint64 :: "'s zc_input \<Rightarrow> 's coded_input \<Rightarrow> (64 word option \<times> 's coded_input) run" where
  "ReadVarint64 V s =
     (if BufferSize s > 0 \<and> unat (hd (ci_data s)) < 0x80
      then return_run (Some (ucast (hd (ci_data s))), Advance 1 s)
      else ReadVarint64Fallback V s)"

text \<open>The value is 0 when the 64-bit read fails; the result says so.\<close>

definition ReadVarint32Slow :: "'s zc_input \<Rightarrow> 's coded_input \<Rightarrow> (32 word option \<times> 's coded_input) run" where
  "ReadVarint32Slow V s =
     bind_run (ReadVarint64Fallback V s) (\<lambda>(p, s). return_run (map_option ucast p, s))"

definition ReadVarint32Fallback ::
    "'s zc_input \<Rightarrow> 32 word \<Rightarrow> 's coded_input \<Rightarrow> (int \<times> 's coded_input) run" where
  "ReadVarint32Fallback V first_byte_or_zero s =
     (if array_readable s then
        (case ReadVarint32FromArray first_byte_or_zero (buffer_bytes s) of
           Inl e \<Rightarrow> Some (Inl e)
         | Inr (None, _) \<Rightarrow> return_run (- 1, s)
         | Inr (Some temp, next) \<Rightarrow> return_run (uint temp, set_buffer next s))
      else bind_run (ReadVarint32Slow V s) (\<lambda>(r, s).
        return_run (case r of None \<Rightarrow> - 1 | Some temp \<Rightarrow> uint temp, s)))"

definition ReadVarint32 :: "'s zc_input \<Rightarrow> 's coded_input \<Rightarrow> (32 word option \<times> 's coded_input) run" where
  "ReadVarint32 V s =
     (let v = (if BufferSize s > 0 then ucast (hd (ci_data s)) else 0)
      in if BufferSize s > 0 \<and> unat v < 0x80 then return_run (Some v, Advance 1 s)
         else bind_run (ReadVarint32Fallback V v s) (\<lambda>(result, s).
           return_run (if result \<ge> 0 then Some (word_of_int result) else None, s)))"

definition ReadLengthAndPushLimit :: "'s zc_input \<Rightarrow> 's coded_input \<Rightarrow> (int \<times> 's coded_input) run" where
  "ReadLengthAndPushLimit V s =
     bind_run (ReadVarint32 V s) (\<lambda>(r, s).
       return_run (PushLimit (case r of None \<Rightarrow> 0 | Some len \<Rightarrow> sint len) s))"

definition ReadVarintSizeAsIntSlow :: "'s zc_input \<Rightarrow> 's coded_input \<Rightarrow> (int \<times> 's coded_input) run" where
  "ReadVarintSizeAsIntSlow V s =
     bind_run (ReadVarint64Fallback V s) (\<lambda>(p, s).
       return_run (case p of None \<Rightarrow> - 1 | Some v \<Rightarrow> if uint v > INT_MAX then - 1 else uint v, s))"

definition ReadVarintSizeAsIntFallback :: "'s zc_input \<Rightarrow> 's coded_input \<Rightarrow> (int \<times> 's coded_input) run" where
  "ReadVarintSizeAsIntFallback V s =
     (if array_readable s then
        (case ReadVarint64FromArray (buffer_bytes s) of
           Inl e \<Rightarrow> Some (Inl e)
         | Inr (None, _) \<Rightarrow> return_run (- 1, s)
         | Inr (Some temp, next) \<Rightarrow>
             if uint temp > INT_MAX then return_run (- 1, s) else return_run (uint temp, set_buffer next s))
      else ReadVarintSizeAsIntSlow V s)"

definition ReadVarintSizeAsInt :: "'s zc_input \<Rightarrow> 's coded_input \<Rightarrow> (int option \<times> 's coded_input) run" where
  "ReadVarintSizeAsInt V s =
     (if BufferSize s > 0 \<and> unat (hd (ci_data s)) < 0x80
      then return_run (Some (uint (hd (ci_data s))), Advance 1 s)
      else bind_run (ReadVarintSizeAsIntFallback V s) (\<lambda>(v, s).
        return_run (if v \<ge> 0 then Some v else None, s)))"

section \<open>Tags\<close>

definition ReadTagSlow :: "'s zc_input \<Rightarrow> 's coded_input \<Rightarrow> (32 word \<times> 's coded_input) run" where
  "ReadTagSlow V s =
     (let read = (\<lambda>s. bind_run (ReadVarint64 V s) (\<lambda>(r, s).
            return_run (case r of None \<Rightarrow> 0 | Some result \<Rightarrow> ucast result, s)))
      in if BufferSize s = 0 then
           bind_run (Refresh V s) (\<lambda>(ok, s).
             if ok then read s
             else
               let current_position = total_bytes_read s - buffer_size_after_limit s
               in return_run (0, s\<lparr>legitimate_message_end :=
                    (if current_position \<ge> total_bytes_limit s
                     then current_limit s = total_bytes_limit s else True)\<rparr>))
         else read s)"

definition ReadTagFallback :: "'s zc_input \<Rightarrow> 32 word \<Rightarrow> 's coded_input \<Rightarrow> (32 word \<times> 's coded_input) run" where
  "ReadTagFallback V first_byte_or_zero s =
     (if array_readable s then
        if first_byte_or_zero = 0 then return_run (0, Advance 1 s)
        else (case ReadVarint32FromArray first_byte_or_zero (buffer_bytes s) of
           Inl e \<Rightarrow> Some (Inl e)
         | Inr (None, _) \<Rightarrow> return_run (0, s)
         | Inr (Some tag, next) \<Rightarrow> return_run (tag, set_buffer next s))
      else if BufferSize s = 0 \<and> (buffer_size_after_limit s > 0 \<or> total_bytes_read s = current_limit s) \<and>
              total_bytes_read s - buffer_size_after_limit s < total_bytes_limit s
      then return_run (0, s\<lparr>legitimate_message_end := True\<rparr>)
      else ReadTagSlow V s)"

definition ReadTagNoLastTag :: "'s zc_input \<Rightarrow> 's coded_input \<Rightarrow> (32 word \<times> 's coded_input) run" where
  "ReadTagNoLastTag V s =
     (let v = (if BufferSize s > 0 then ucast (hd (ci_data s)) else 0)
      in if BufferSize s > 0 \<and> unat v < 0x80 then return_run (v, Advance 1 s) else ReadTagFallback V v s)"

definition ReadTag :: "'s zc_input \<Rightarrow> 's coded_input \<Rightarrow> (32 word \<times> 's coded_input) run" where
  "ReadTag V s = bind_run (ReadTagNoLastTag V s) (\<lambda>(tag, s). return_run (tag, s\<lparr>last_tag := tag\<rparr>))"

text \<open>
  \<open>ReadTagWithCutoff\<close>: the tag, and whether it is not 0 and at most \<open>cutoff\<close>; two bytes are decoded
  in place.
\<close>

definition ReadTagWithCutoffNoLastTag ::
    "'s zc_input \<Rightarrow> 32 word \<Rightarrow> 's coded_input \<Rightarrow> ((32 word \<times> bool) \<times> 's coded_input) run" where
  "ReadTagWithCutoffNoLastTag V cutoff s =
     (let first_byte_or_zero = (if BufferSize s > 0 then ucast (ci_data s ! 0) else 0);
          fallback = bind_run (ReadTagFallback V first_byte_or_zero s) (\<lambda>(tag, s).
            return_run ((tag, tag - 1 < cutoff), s))
      in if BufferSize s > 0 then
           if sint (ci_data s ! 0) > 0 then
             let tag = ucast (ci_data s ! 0) in return_run ((tag, cutoff \<ge> 0x7f \<or> tag \<le> cutoff), Advance 1 s)
           else if cutoff \<ge> 0x80 \<and> BufferSize s > 1 \<and>
                   (ci_data s ! 0 AND NOT (ci_data s ! 1)) \<ge> 0x80 then
             let tag = 2 ^ 7 * ucast (ci_data s ! 1) + (ucast (ci_data s ! 0) - 0x80)
             in return_run ((tag, cutoff \<ge> push_bit 7 0x7f + 0x7f \<or> tag \<le> cutoff), Advance 2 s)
           else fallback
         else fallback)"

definition ReadTagWithCutoff ::
    "'s zc_input \<Rightarrow> 32 word \<Rightarrow> 's coded_input \<Rightarrow> ((32 word \<times> bool) \<times> 's coded_input) run" where
  "ReadTagWithCutoff V cutoff s =
     bind_run (ReadTagWithCutoffNoLastTag V cutoff s) (\<lambda>(result, s). return_run (result, s\<lparr>last_tag := fst result\<rparr>))"

definition LastTagWas :: "32 word \<Rightarrow> 's coded_input \<Rightarrow> bool" where
  "LastTagWas expected s \<longleftrightarrow> last_tag s = expected"

definition ExpectTag :: "32 word \<Rightarrow> 's coded_input \<Rightarrow> bool \<times> 's coded_input" where
  "ExpectTag expected s =
     (if unat expected < 2 ^ 7 then
        if BufferSize s > 0 \<and> ucast (ci_data s ! 0) = expected then (True, Advance 1 s) else (False, s)
      else if unat expected < 2 ^ 14 then
        if BufferSize s \<ge> 2 \<and> ci_data s ! 0 = ucast (expected OR 0x80) \<and>
           ci_data s ! 1 = ucast (drop_bit 7 expected)
        then (True, Advance 2 s) else (False, s)
      else (False, s))"

text \<open>The array version, on a buffer with enough bytes: the rest, or \<open>nullptr\<close>.\<close>

definition ExpectTagFromArray :: "byte list \<Rightarrow> 32 word \<Rightarrow> byte list option" where
  "ExpectTagFromArray buffer expected =
     (if unat expected < 2 ^ 7 then
        if ucast (buffer ! 0) = expected then Some (drop 1 buffer) else None
      else if unat expected < 2 ^ 14 then
        if buffer ! 0 = ucast (expected OR 0x80) \<and> buffer ! 1 = ucast (drop_bit 7 expected)
        then Some (drop 2 buffer) else None
      else None)"

definition ExpectAtEnd :: "'s coded_input \<Rightarrow> bool \<times> 's coded_input" where
  "ExpectAtEnd s =
     (if BufferSize s = 0 \<and> (buffer_size_after_limit s \<noteq> 0 \<or> total_bytes_read s = current_limit s)
      then (True, s\<lparr>last_tag := 0, legitimate_message_end := True\<rparr>) else (False, s))"

end
