(* ===== verification/Output_Stream.thy ===== *)
theory Output_Stream
  imports File_Stream
begin

text \<open>
  The output side of the protobuf streams (\<open>google/protobuf/io/zero_copy_stream_impl_lite.cc\<close>,
  \<open>zero_copy_stream_impl.cc\<close>): the abstract class \<open>ZeroCopyOutputStream\<close> with a locale for its contract,
  and the streams over an array, a string, a file descriptor and a C++ \<open>ostream\<close>. The caller writes
  through the pointers a stream returns, so the memory of its buffers is part of the stream.
\<close>

section \<open>Memory\<close>

text \<open>Storing \<open>bs\<close> from offset \<open>x\<close> on.\<close>

definition overwrite :: "nat \<Rightarrow> byte list \<Rightarrow> byte list \<Rightarrow> byte list" where
  "overwrite x bs xs = take x xs @ bs @ drop (x + length bs) xs"

lemma length_overwrite [simp]: "x + length bs \<le> length xs \<Longrightarrow> length (overwrite x bs xs) = length xs"
  by (simp add: overwrite_def)

lemma take_overwrite [simp]: "n \<le> x \<Longrightarrow> x \<le> length xs \<Longrightarrow> take n (overwrite x bs xs) = take n xs"
  by (simp add: overwrite_def min_absorb1)

lemma take_overwrite_end: "x \<le> length xs \<Longrightarrow> take (x + length bs) (overwrite x bs xs) = take x xs @ bs"
  by (simp add: overwrite_def)

lemma drop_overwrite: "x + length bs \<le> n \<Longrightarrow> x \<le> length xs \<Longrightarrow> drop n (overwrite x bs xs) = drop n xs"
  by (simp add: overwrite_def)

section \<open>The interface\<close>

text \<open>
  \<open>Next\<close> returns the address and the size of a buffer, or fails. \<open>zo_load\<close> and \<open>zo_store\<close> are the
  accesses of the caller to the memory the stream handed out.
\<close>

record 's zc_output =
  zo_Next :: "'s \<Rightarrow> ((int \<times> int) option \<times> 's) res"
  zo_BackUp :: "int \<Rightarrow> 's \<Rightarrow> 's res"
  zo_ByteCount :: "'s \<Rightarrow> int"
  zo_WriteAliasedRaw :: "byte list \<Rightarrow> 's \<Rightarrow> (bool \<times> 's) run"
  zo_AllowsAliasing :: bool
  zo_load :: "int \<Rightarrow> int \<Rightarrow> 's \<Rightarrow> byte list"
  zo_store :: "int \<Rightarrow> byte list \<Rightarrow> 's \<Rightarrow> 's"

text \<open>
  The contract: \<open>out s\<close> are the bytes given to the stream so far, the last buffer included, and
  \<open>addr s\<close> is the address of its end; the caller may access the last \<open>r\<close> of them. A stream may fail
  silently in \<open>BackUp\<close>, which flushes; after \<open>Next\<close> has failed \<open>BackUp(0)\<close> still
  returns, and the failure shows.
\<close>

locale zero_copy_output =
  fixes V :: "'s zc_output"
    and ok :: "nat \<Rightarrow> 's \<Rightarrow> bool"
    and failed :: "'s \<Rightarrow> bool"
    and out :: "'s \<Rightarrow> byte list"
    and addr :: "'s \<Rightarrow> int"
  assumes out_next: "ok r s \<Longrightarrow>
      (\<exists>a n s' d. zo_Next V s = Inr (Some (a, n), s') \<and> 0 < n \<and> ok (nat n) s' \<and> out s' = out s @ d \<and>
         length d = nat n \<and> addr s' = a + n) \<or>
      (\<exists>s' s''. zo_Next V s = Inr (None, s') \<and> failed s' \<and> zo_BackUp V 0 s' = Inr s'' \<and> failed s'')"
    and out_back_up: "ok r s \<Longrightarrow> 0 \<le> n \<Longrightarrow> n \<le> int r \<Longrightarrow>
      \<exists>s'. zo_BackUp V n s = Inr s' \<and> (failed s' \<or> ok 0 s' \<and> out s' = take (length (out s) - nat n) (out s))"
    and out_store: "ok r s \<Longrightarrow> addr s - int r \<le> x \<Longrightarrow> x + int (length bs) \<le> addr s \<Longrightarrow>
      ok r (zo_store V x bs s) \<and> addr (zo_store V x bs s) = addr s \<and>
      out (zo_store V x bs s) = overwrite (length (out s) - nat (addr s - x)) bs (out s)"
    and out_load: "ok r s \<Longrightarrow> addr s - int r \<le> x \<Longrightarrow> 0 \<le> n \<Longrightarrow> x + n \<le> addr s \<Longrightarrow>
      zo_load V x n s = take (nat n) (drop (length (out s) - nat (addr s - x)) (out s))"
    and out_room: "ok r s \<Longrightarrow> r \<le> length (out s)"
    and out_count: "ok r s \<Longrightarrow> zo_ByteCount V s = int (length (out s))"
    and out_aliased: "ok r s \<Longrightarrow> zo_AllowsAliasing V \<Longrightarrow>
      \<exists>b s'. zo_WriteAliasedRaw V bs s = Some (Inr (b, s')) \<and> (b \<longrightarrow> failed s' \<or> ok 0 s' \<and> out s' = out s @ bs)"

text \<open>The default implementation of \<open>WriteAliasedRaw\<close>, which ends the program.\<close>

definition ZeroCopyOutputStream_WriteAliasedRaw :: "byte list \<Rightarrow> 's \<Rightarrow> (bool \<times> 's) run" where
  "ZeroCopyOutputStream_WriteAliasedRaw data s = Some (Inl Assert_fail)"

section \<open>ArrayOutputStream\<close>

record array_output =
  ao_data :: "byte list"
  ao_size :: int
  ao_block_size :: int
  ao_position :: int
  ao_last_returned_size :: int

definition ArrayOutputStream_ctor :: "byte list \<Rightarrow> int \<Rightarrow> int \<Rightarrow> array_output" where
  "ArrayOutputStream_ctor data sz block_size =
     \<lparr>ao_data = data, ao_size = sz, ao_block_size = if block_size > 0 then block_size else sz,
      ao_position = 0, ao_last_returned_size = 0\<rparr>"

definition ArrayOutputStream_Next :: "array_output \<Rightarrow> ((int \<times> int) option \<times> array_output) res" where
  "ArrayOutputStream_Next s =
     (if ao_position s < ao_size s then
        let s = s\<lparr>ao_last_returned_size := min (ao_block_size s) (ao_size s - ao_position s)\<rparr>
        in Inr (Some (ao_position s, ao_last_returned_size s), s\<lparr>ao_position := ao_position s + ao_last_returned_size s\<rparr>)
      else Inr (None, s\<lparr>ao_last_returned_size := 0\<rparr>))"

definition ArrayOutputStream_BackUp :: "int \<Rightarrow> array_output \<Rightarrow> array_output res" where
  "ArrayOutputStream_BackUp count s =
     (if \<not> count \<le> ao_last_returned_size s then Inl Assert_fail
      else if \<not> count \<ge> 0 then Inl Assert_fail
      else Inr (s\<lparr>ao_position := ao_position s - count,
                   ao_last_returned_size := ao_last_returned_size s - count\<rparr>))"

definition ArrayOutputStream_ByteCount :: "array_output \<Rightarrow> int" where
  "ArrayOutputStream_ByteCount s = ao_position s"

definition ArrayOutputStream :: "array_output zc_output" where
  "ArrayOutputStream = \<lparr>zo_Next = ArrayOutputStream_Next, zo_BackUp = ArrayOutputStream_BackUp,
     zo_ByteCount = ArrayOutputStream_ByteCount, zo_WriteAliasedRaw = ZeroCopyOutputStream_WriteAliasedRaw,
     zo_AllowsAliasing = False,
     zo_load = (\<lambda>x n s. slice x n (ao_data s)),
     zo_store = (\<lambda>x bs s. s\<lparr>ao_data := overwrite (nat x) bs (ao_data s)\<rparr>)\<rparr>"

section \<open>StringOutputStream\<close>

text \<open>
  A \<open>std::string\<close> with its capacity; the capacity after growing is up to the library
  (\<open>so_grow\<close>, from the old capacity and the size needed). \<open>resize\<close> fills with zeros.
\<close>

record string_output =
  so_target :: "byte list"
  so_capacity :: int
  so_grow :: "int \<Rightarrow> int \<Rightarrow> int"

definition kMinimumSize :: int where
  "kMinimumSize = 16"

definition STLStringResizeUninitialized :: "int \<Rightarrow> string_output \<Rightarrow> string_output" where
  "STLStringResizeUninitialized new_size s =
     s\<lparr>so_target := take (nat new_size) (so_target s) @ replicate (nat (new_size - int (length (so_target s)))) 0,
       so_capacity := if new_size \<le> so_capacity s then so_capacity s else so_grow s (so_capacity s) new_size\<rparr>"

definition StringOutputStream_Next :: "string_output \<Rightarrow> ((int \<times> int) option \<times> string_output) res" where
  "StringOutputStream_Next s =
     (let old_size = int (length (so_target s));
          new_size = (if old_size < so_capacity s then so_capacity s else old_size * 2);
          new_size = min new_size (old_size + 2147483647);
          s = STLStringResizeUninitialized (max new_size kMinimumSize) s
      in Inr (Some (old_size, int (length (so_target s)) - old_size), s))"

definition StringOutputStream_BackUp :: "int \<Rightarrow> string_output \<Rightarrow> string_output res" where
  "StringOutputStream_BackUp count s =
     (if \<not> count \<ge> 0 then Inl Assert_fail
      else if \<not> count \<le> int (length (so_target s)) then Inl Assert_fail
      else Inr (STLStringResizeUninitialized (int (length (so_target s)) - count) s))"

definition StringOutputStream_ByteCount :: "string_output \<Rightarrow> int" where
  "StringOutputStream_ByteCount s = int (length (so_target s))"

definition StringOutputStream :: "string_output zc_output" where
  "StringOutputStream = \<lparr>zo_Next = StringOutputStream_Next, zo_BackUp = StringOutputStream_BackUp,
     zo_ByteCount = StringOutputStream_ByteCount, zo_WriteAliasedRaw = ZeroCopyOutputStream_WriteAliasedRaw,
     zo_AllowsAliasing = False,
     zo_load = (\<lambda>x n s. slice x n (so_target s)),
     zo_store = (\<lambda>x bs s. s\<lparr>so_target := overwrite (nat x) bs (so_target s)\<rparr>)\<rparr>"

section \<open>CopyingOutputStreamAdaptor\<close>

text \<open>Over the \<open>Write\<close> of the subclass of \<open>CopyingOutputStream\<close>. Fresh memory holds zeros here; it is never read.\<close>

record 'c out_adaptor =
  oa_stream :: 'c
  oa_failed :: bool
  oa_position :: int
  oa_buffer_size :: int
  oa_buffer_used :: int
  oa_buffer :: "byte list option"

definition CopyingOutputStreamAdaptor_ctor :: "'c \<Rightarrow> int \<Rightarrow> 'c out_adaptor" where
  "CopyingOutputStreamAdaptor_ctor c block_size =
     \<lparr>oa_stream = c, oa_failed = False, oa_position = 0,
      oa_buffer_size = if block_size > 0 then block_size else kDefaultBlockSize, oa_buffer_used = 0, oa_buffer = None\<rparr>"

definition oa_bytes :: "'c out_adaptor \<Rightarrow> byte list" where
  "oa_bytes a = (case oa_buffer a of None \<Rightarrow> [] | Some bs \<Rightarrow> bs)"

definition OutAdaptor_AllocateBufferIfNeeded :: "'c out_adaptor \<Rightarrow> 'c out_adaptor" where
  "OutAdaptor_AllocateBufferIfNeeded a =
     (case oa_buffer a of None \<Rightarrow> a\<lparr>oa_buffer := Some (replicate (nat (oa_buffer_size a)) 0)\<rparr> | Some _ \<Rightarrow> a)"

definition OutAdaptor_FreeBuffer :: "'c out_adaptor \<Rightarrow> 'c out_adaptor" where
  "OutAdaptor_FreeBuffer a = a\<lparr>oa_buffer_used := 0, oa_buffer := None\<rparr>"

definition WriteBuffer :: "(byte list \<Rightarrow> 'c \<Rightarrow> (bool \<times> 'c) res) \<Rightarrow> 'c out_adaptor \<Rightarrow> (bool \<times> 'c out_adaptor) res" where
  "WriteBuffer write a =
     (if oa_failed a then Inr (False, a)
      else if oa_buffer_used a = 0 then Inr (True, a)
      else
        bind_res (write (take (nat (oa_buffer_used a)) (oa_bytes a)) (oa_stream a)) (\<lambda>(ok, c).
          let a = a\<lparr>oa_stream := c\<rparr>
          in if ok then Inr (True, a\<lparr>oa_position := oa_position a + oa_buffer_used a, oa_buffer_used := 0\<rparr>)
             else Inr (False, OutAdaptor_FreeBuffer (a\<lparr>oa_failed := True\<rparr>))))"

definition OutAdaptor_Flush :: "(byte list \<Rightarrow> 'c \<Rightarrow> (bool \<times> 'c) res) \<Rightarrow> 'c out_adaptor \<Rightarrow> (bool \<times> 'c out_adaptor) res" where
  "OutAdaptor_Flush write a = WriteBuffer write a"

definition OutAdaptor_Next ::
    "(byte list \<Rightarrow> 'c \<Rightarrow> (bool \<times> 'c) res) \<Rightarrow> 'c out_adaptor \<Rightarrow> ((int \<times> int) option \<times> 'c out_adaptor) res" where
  "OutAdaptor_Next write a =
     bind_res (if oa_buffer_used a = oa_buffer_size a then WriteBuffer write a else Inr (True, a)) (\<lambda>(ok, a).
       if \<not> ok then Inr (None, a)
       else
         let a = OutAdaptor_AllocateBufferIfNeeded a
         in Inr (Some (oa_buffer_used a, oa_buffer_size a - oa_buffer_used a), a\<lparr>oa_buffer_used := oa_buffer_size a\<rparr>))"

definition OutAdaptor_BackUp :: "(byte list \<Rightarrow> 'c \<Rightarrow> (bool \<times> 'c) res) \<Rightarrow> int \<Rightarrow> 'c out_adaptor \<Rightarrow> 'c out_adaptor res" where
  "OutAdaptor_BackUp write count a =
     (if count = 0 then bind_res (OutAdaptor_Flush write a) (\<lambda>(_, a). Inr a)
      else if \<not> count \<ge> 0 then Inl Assert_fail
      else if oa_buffer_used a \<noteq> oa_buffer_size a then Inl Assert_fail
      else if \<not> count \<le> oa_buffer_used a then Inl Assert_fail
      else Inr (a\<lparr>oa_buffer_used := oa_buffer_used a - count\<rparr>))"

definition OutAdaptor_ByteCount :: "'c out_adaptor \<Rightarrow> int" where
  "OutAdaptor_ByteCount a = oa_position a + oa_buffer_used a"

definition oa_store :: "int \<Rightarrow> byte list \<Rightarrow> 'c out_adaptor \<Rightarrow> 'c out_adaptor" where
  "oa_store x bs a = a\<lparr>oa_buffer := map_option (overwrite (nat x) bs) (oa_buffer a)\<rparr>"

text \<open>The loop of \<open>WriteAliasedRaw\<close> for data smaller than the buffer.\<close>

partial_function (option) aliased_loop ::
    "(byte list \<Rightarrow> 'c \<Rightarrow> (bool \<times> 'c) res) \<Rightarrow> byte list \<Rightarrow> 'c out_adaptor \<Rightarrow> (bool \<times> 'c out_adaptor) run" where
  "aliased_loop write data a =
     (case OutAdaptor_Next write a of
        Inl e \<Rightarrow> Some (Inl e)
      | Inr (None, a) \<Rightarrow> Some (Inr (False, a))
      | Inr (Some (p, out_size), a) \<Rightarrow>
          if int (length data) \<le> out_size then
            Some (bind_res (OutAdaptor_BackUp write (out_size - int (length data)) (oa_store p data a)) (\<lambda>a. Inr (True, a)))
          else aliased_loop write (drop (nat out_size) data) (oa_store p (take (nat out_size) data) a))"

definition OutAdaptor_WriteAliasedRaw ::
    "(byte list \<Rightarrow> 'c \<Rightarrow> (bool \<times> 'c) res) \<Rightarrow> byte list \<Rightarrow> 'c out_adaptor \<Rightarrow> (bool \<times> 'c out_adaptor) run" where
  "OutAdaptor_WriteAliasedRaw write data a =
     (if int (length data) \<ge> oa_buffer_size a then
        Some (bind_res (OutAdaptor_Flush write a) (\<lambda>(ok, a).
          if \<not> ok then Inr (False, a)
          else bind_res (write data (oa_stream a)) (\<lambda>(ok, c).
            let a = a\<lparr>oa_stream := c\<rparr>
            in if \<not> ok then Inr (False, a) else Inr (True, a\<lparr>oa_position := oa_position a + int (length data)\<rparr>))))
      else aliased_loop write data a)"

text \<open>The destructor writes what is left and gives the stream below back.\<close>

definition OutAdaptor_dtor :: "(byte list \<Rightarrow> 'c \<Rightarrow> (bool \<times> 'c) res) \<Rightarrow> 'c out_adaptor \<Rightarrow> 'c res" where
  "OutAdaptor_dtor write a = bind_res (WriteBuffer write a) (\<lambda>(_, a). Inr (oa_stream a))"

definition OutAdaptor :: "(byte list \<Rightarrow> 'c \<Rightarrow> (bool \<times> 'c) res) \<Rightarrow> 'c out_adaptor zc_output" where
  "OutAdaptor write = \<lparr>zo_Next = OutAdaptor_Next write, zo_BackUp = OutAdaptor_BackUp write,
     zo_ByteCount = OutAdaptor_ByteCount, zo_WriteAliasedRaw = OutAdaptor_WriteAliasedRaw write,
     zo_AllowsAliasing = True,
     zo_load = (\<lambda>x n a. slice x n (oa_bytes a)), zo_store = oa_store\<rparr>"

section \<open>FileOutputStream\<close>

text \<open>What the kernel will answer to the calls of \<open>write\<close>; when nothing is listed it takes everything.\<close>

datatype write_event =
    Takes int              \<comment> \<open>up to so many bytes are written\<close>
  | Write_fails int        \<comment> \<open>-1 with this \<open>errno\<close>\<close>

record copying_file_out =
  co_events :: "write_event list"
  co_sent :: "byte list"        \<comment> \<open>the bytes written to the descriptor\<close>
  co_is_closed :: bool
  co_errno :: int

definition CopyingFileOutputStream_ctor :: "write_event list \<Rightarrow> copying_file_out" where
  "CopyingFileOutputStream_ctor evs = \<lparr>co_events = evs, co_sent = [], co_is_closed = False, co_errno = 0\<rparr>"

definition CopyingFileOutputStream_Close :: "(int \<times> int) list \<Rightarrow> copying_file_out \<Rightarrow> (bool \<times> copying_file_out) res" where
  "CopyingFileOutputStream_Close rets c =
     (if co_is_closed c then Inl Assert_fail
      else
        let c = c\<lparr>co_is_closed := True\<rparr>; (result, e) = close_no_eintr rets
        in if result \<noteq> 0 then Inr (False, c\<lparr>co_errno := e\<rparr>) else Inr (True, c))"

text \<open>The loop of \<open>Write\<close>: success, the bytes written, and an \<open>errno\<close> of a failed call.\<close>

fun write_loop :: "byte list \<Rightarrow> write_event list \<Rightarrow> (bool \<times> byte list \<times> int option) \<times> write_event list" where
  "write_loop [] evs = ((True, [], None), evs)"
| "write_loop buf [] = ((True, buf, None), [])"
| "write_loop buf (Takes k # evs) =
     (if k \<le> 0 then ((False, [], None), evs)
      else
        let ((ok, bs, e), evs) = write_loop (drop (nat k) buf) evs
        in ((ok, take (nat k) buf @ bs, e), evs))"
| "write_loop buf (Write_fails e # evs) =
     (if e = EINTR then write_loop buf evs else ((False, [], Some e), evs))"

definition CopyingFileOutputStream_Write :: "byte list \<Rightarrow> copying_file_out \<Rightarrow> (bool \<times> copying_file_out) res" where
  "CopyingFileOutputStream_Write buffer c =
     (if co_is_closed c then Inl Assert_fail
      else
        let ((ok, bs, e), evs) = write_loop buffer (co_events c);
            c = c\<lparr>co_events := evs, co_sent := co_sent c @ bs\<rparr>
        in Inr (ok, case e of None \<Rightarrow> c | Some e \<Rightarrow> c\<lparr>co_errno := e\<rparr>))"

type_synonym file_output = "copying_file_out out_adaptor"

text \<open>The constructor does not look at its block size.\<close>

definition FileOutputStream_ctor :: "write_event list \<Rightarrow> int \<Rightarrow> file_output" where
  "FileOutputStream_ctor evs block_size = CopyingOutputStreamAdaptor_ctor (CopyingFileOutputStream_ctor evs) (- 1)"

definition FileOutputStream :: "file_output zc_output" where
  "FileOutputStream = OutAdaptor CopyingFileOutputStream_Write"

definition FileOutputStream_Flush :: "file_output \<Rightarrow> (bool \<times> file_output) res" where
  "FileOutputStream_Flush a = OutAdaptor_Flush CopyingFileOutputStream_Write a"

definition FileOutputStream_Close :: "(int \<times> int) list \<Rightarrow> file_output \<Rightarrow> (bool \<times> file_output) res" where
  "FileOutputStream_Close rets a =
     bind_res (FileOutputStream_Flush a) (\<lambda>(flush_succeeded, a).
       bind_res (CopyingFileOutputStream_Close rets (oa_stream a)) (\<lambda>(closed, c).
         Inr (closed \<and> flush_succeeded, a\<lparr>oa_stream := c\<rparr>)))"

text \<open>The destructor of \<open>FileOutputStream\<close> flushes, then that of the adaptor does.\<close>

definition FileOutputStream_dtor :: "file_output \<Rightarrow> copying_file_out res" where
  "FileOutputStream_dtor a = bind_res (FileOutputStream_Flush a) (\<lambda>(_, a). OutAdaptor_dtor CopyingFileOutputStream_Write a)"

section \<open>OstreamOutputStream\<close>

text \<open>A C++ \<open>ostream\<close>: what was written, its state, and how its next writes go (well when nothing is listed).\<close>

record ostream =
  os_written :: "byte list"
  os_good :: bool
  os_next_writes :: "bool list"

definition CopyingOstreamOutputStream_Write :: "byte list \<Rightarrow> ostream \<Rightarrow> (bool \<times> ostream) res" where
  "CopyingOstreamOutputStream_Write buffer c =
     (let c = (if \<not> os_good c then c
               else case os_next_writes c of
                   [] \<Rightarrow> c\<lparr>os_written := os_written c @ buffer\<rparr>
                 | b # later \<Rightarrow>
                     if b then c\<lparr>os_written := os_written c @ buffer, os_next_writes := later\<rparr>
                     else c\<lparr>os_good := False, os_next_writes := later\<rparr>)
      in Inr (os_good c, c))"

definition OstreamOutputStream_ctor :: "ostream \<Rightarrow> int \<Rightarrow> ostream out_adaptor" where
  "OstreamOutputStream_ctor output block_size = CopyingOutputStreamAdaptor_ctor output block_size"

definition OstreamOutputStream :: "ostream out_adaptor zc_output" where
  "OstreamOutputStream = OutAdaptor CopyingOstreamOutputStream_Write"

definition OstreamOutputStream_dtor :: "ostream out_adaptor \<Rightarrow> ostream res" where
  "OstreamOutputStream_dtor a =
     bind_res (OutAdaptor_Flush CopyingOstreamOutputStream_Write a) (\<lambda>(_, a). OutAdaptor_dtor CopyingOstreamOutputStream_Write a)"

end
