(* ===== verification/Coded_Output.thy ===== *)
theory Coded_Output
  imports Varint Output_Stream
begin

text \<open>
  \<open>EpsCopyOutputStream\<close> and \<open>CodedOutputStream\<close> (\<open>google/protobuf/io/coded_stream.cc\<close> and the inline
  functions of \<open>coded_stream.h\<close>): writing with a cursor that may always move 16 bytes on without a
  test. When fewer are left in the buffer of the stream below, a patch buffer takes their place
  and is copied out later. Debug checks (\<open>GOOGLE_DCHECK\<close>) are not part of the functions; the
  constructor over a bare array (\<open>stream_ == nullptr\<close>) is not modelled.
\<close>

section \<open>State\<close>

text \<open>
  A cursor is an offset into the patch buffer \<open>buffer_\<close>, or an address in the memory of the stream when
  \<open>buffer_end_\<close> is \<open>nullptr\<close>; so is \<open>end_\<close>. Otherwise \<open>buffer_end_\<close> says where the patch buffer is to be
  copied to: into the memory of the stream, or, at the beginning, to \<open>buffer_\<close> itself.
\<close>

datatype buf_end = Nullptr | Own_buffer | At int

record 's eps_copy =
  eps_end :: int
  eps_buffer_end :: buf_end
  eps_buffer :: "byte list"
  eps_stream :: 's
  had_error :: bool
  aliasing_enabled :: bool
  is_serialization_deterministic :: bool

definition kSlopBytes :: int where
  "kSlopBytes = 16"

text \<open>The constructor; \<open>junk\<close> are the \<open>2 * kSlopBytes\<close> bytes the patch buffer happens to hold.\<close>

definition EpsCopyOutputStream_ctor :: "'s \<Rightarrow> bool \<Rightarrow> byte list \<Rightarrow> int \<times> 's eps_copy" where
  "EpsCopyOutputStream_ctor stream deterministic junk =
     (0, \<lparr>eps_end = 0, eps_buffer_end = Own_buffer, eps_buffer = junk, eps_stream = stream, had_error = False,
          aliasing_enabled = False, is_serialization_deterministic = deterministic\<rparr>)"

text \<open>Storing through the cursor, and copying to \<open>buffer_end_\<close>.\<close>

definition eps_put :: "'s zc_output \<Rightarrow> int \<Rightarrow> byte list \<Rightarrow> 's eps_copy \<Rightarrow> 's eps_copy" where
  "eps_put V ptr bs s =
     (case eps_buffer_end s of
        Nullptr \<Rightarrow> s\<lparr>eps_stream := zo_store V ptr bs (eps_stream s)\<rparr>
      | _ \<Rightarrow> s\<lparr>eps_buffer := overwrite (nat ptr) bs (eps_buffer s)\<rparr>)"

definition eps_copy_out :: "'s zc_output \<Rightarrow> byte list \<Rightarrow> 's eps_copy \<Rightarrow> 's eps_copy" where
  "eps_copy_out V bs s =
     (case eps_buffer_end s of
        At e \<Rightarrow> s\<lparr>eps_stream := zo_store V e bs (eps_stream s)\<rparr>
      | _ \<Rightarrow> s)"

definition EnableAliasing :: "'s zc_output \<Rightarrow> bool \<Rightarrow> 's eps_copy \<Rightarrow> 's eps_copy" where
  "EnableAliasing V enabled s = s\<lparr>aliasing_enabled := (enabled \<and> zo_AllowsAliasing V)\<rparr>"

definition eps_ByteCount :: "'s zc_output \<Rightarrow> int \<Rightarrow> 's eps_copy \<Rightarrow> int" where
  "eps_ByteCount V ptr s =
     (let delta = (eps_end s - ptr) + (if eps_buffer_end s \<noteq> Nullptr then 0 else kSlopBytes)
      in zo_ByteCount V (eps_stream s) - delta)"

definition GetSize :: "int \<Rightarrow> 's eps_copy \<Rightarrow> int" where
  "GetSize ptr s = eps_end s + kSlopBytes - ptr"

definition eps_Error :: "'s eps_copy \<Rightarrow> int \<times> 's eps_copy" where
  "eps_Error s = (0, s\<lparr>had_error := True, eps_end := kSlopBytes\<rparr>)"

definition SetInitialBuffer :: "buf_end \<Rightarrow> int \<Rightarrow> 's eps_copy \<Rightarrow> int \<times> 's eps_copy" where
  "SetInitialBuffer data sz s =
     (case data of
        At ptr \<Rightarrow>
          if sz > kSlopBytes then (ptr, s\<lparr>eps_end := ptr + sz - kSlopBytes, eps_buffer_end := Nullptr\<rparr>)
          else (0, s\<lparr>eps_end := sz, eps_buffer_end := data\<rparr>)
      | _ \<Rightarrow> (0, s\<lparr>eps_end := sz, eps_buffer_end := data\<rparr>))"

section \<open>Moving to the next buffer\<close>

partial_function (option) next_loop :: "'s zc_output \<Rightarrow> 's \<Rightarrow> ((int \<times> int) option \<times> 's) run" where
  "next_loop V st =
     (case zo_Next V st of
        Inl e \<Rightarrow> Some (Inl e)
      | Inr (None, st) \<Rightarrow> return_run (None, st)
      | Inr (Some (data, sz), st) \<Rightarrow> if sz = 0 then next_loop V st else return_run (Some (data, sz), st))"

definition eps_Next :: "'s zc_output \<Rightarrow> 's eps_copy \<Rightarrow> (int \<times> 's eps_copy) run" where
  "eps_Next V s =
     (if eps_buffer_end s \<noteq> Nullptr then
        let s = eps_copy_out V (take (nat (eps_end s)) (eps_buffer s)) s
        in bind_run (next_loop V (eps_stream s)) (\<lambda>(r, st).
             let s = s\<lparr>eps_stream := st\<rparr>;
                 slop = take (nat kSlopBytes) (drop (nat (eps_end s)) (eps_buffer s))
             in case r of
                  None \<Rightarrow> return_run (eps_Error s)
                | Some (ptr, sz) \<Rightarrow>
                    if sz > kSlopBytes then
                      return_run (ptr, s\<lparr>eps_stream := zo_store V ptr slop st, eps_end := ptr + sz - kSlopBytes,
                                          eps_buffer_end := Nullptr\<rparr>)
                    else
                      return_run (0, s\<lparr>eps_buffer := overwrite 0 slop (eps_buffer s), eps_buffer_end := At ptr,
                                        eps_end := sz\<rparr>))
      else
        return_run (0, s\<lparr>eps_buffer := overwrite 0 (zo_load V (eps_end s) kSlopBytes (eps_stream s)) (eps_buffer s),
                         eps_buffer_end := At (eps_end s), eps_end := kSlopBytes\<rparr>))"

text \<open>The size of what is left of the buffer of the stream, whose beginning is then \<open>buffer_end_\<close>.\<close>

partial_function (option) eps_Flush :: "'s zc_output \<Rightarrow> int \<Rightarrow> 's eps_copy \<Rightarrow> (int \<times> 's eps_copy) run" where
  "eps_Flush V ptr s =
     (if eps_buffer_end s \<noteq> Nullptr \<and> ptr > eps_end s then
        let overrun = ptr - eps_end s
        in bind_run (eps_Next V s) (\<lambda>(p, s).
             if had_error s then return_run (0, s) else eps_Flush V (p + overrun) s)
      else
        (case eps_buffer_end s of
           Nullptr \<Rightarrow> return_run (eps_end s + kSlopBytes - ptr, s\<lparr>eps_buffer_end := At ptr\<rparr>)
         | Own_buffer \<Rightarrow> return_run (eps_end s - ptr, s)
         | At e \<Rightarrow> return_run (eps_end s - ptr, (eps_copy_out V (take (nat ptr) (eps_buffer s)) s)\<lparr>eps_buffer_end := At (e + ptr)\<rparr>)))"

definition eps_Trim :: "'s zc_output \<Rightarrow> int \<Rightarrow> 's eps_copy \<Rightarrow> (int \<times> 's eps_copy) run" where
  "eps_Trim V ptr s =
     (if had_error s then return_run (ptr, s)
      else
        bind_run (eps_Flush V ptr s) (\<lambda>(n, s).
          case zo_BackUp V n (eps_stream s) of
            Inl e \<Rightarrow> Some (Inl e)
          | Inr st \<Rightarrow> return_run (0, s\<lparr>eps_stream := st, eps_buffer_end := Own_buffer, eps_end := 0\<rparr>)))"

definition FlushAndResetBuffer :: "'s zc_output \<Rightarrow> int \<Rightarrow> 's eps_copy \<Rightarrow> (int \<times> 's eps_copy) run" where
  "FlushAndResetBuffer V ptr s =
     (if had_error s then return_run (0, s)
      else
        bind_run (eps_Flush V ptr s) (\<lambda>(n, s).
          if had_error s then return_run (0, s) else return_run (SetInitialBuffer (eps_buffer_end s) n s)))"

text \<open>The loop of \<open>Skip\<close>, over the buffers the stream returns.\<close>

partial_function (option) eps_skip_loop ::
    "'s zc_output \<Rightarrow> int \<Rightarrow> buf_end \<Rightarrow> int \<Rightarrow> 's eps_copy \<Rightarrow> (bool \<times> int \<times> 's eps_copy) run" where
  "eps_skip_loop V count data sz s =
     (if count > sz then
        (case zo_Next V (eps_stream s) of
           Inl e \<Rightarrow> Some (Inl e)
         | Inr (None, st) \<Rightarrow> return_run (False, eps_Error (s\<lparr>eps_stream := st\<rparr>))
         | Inr (Some (d, n), st) \<Rightarrow> eps_skip_loop V (count - sz) (At d) n (s\<lparr>eps_stream := st\<rparr>))
      else
        let at = (case data of At d \<Rightarrow> At (d + count) | d \<Rightarrow> d)
        in return_run (True, SetInitialBuffer at (sz - count) s))"

definition eps_Skip :: "'s zc_output \<Rightarrow> int \<Rightarrow> int \<Rightarrow> 's eps_copy \<Rightarrow> (bool \<times> int \<times> 's eps_copy) run" where
  "eps_Skip V count ptr s =
     (if count < 0 then return_run (False, ptr, s)
      else if had_error s then return_run (False, 0, s)
      else
        bind_run (eps_Flush V ptr s) (\<lambda>(n, s).
          if had_error s then return_run (False, 0, s)
          else eps_skip_loop V count (eps_buffer_end s) n s))"

text \<open>The result is the buffer and its size.\<close>

definition eps_GetDirectBufferPointer ::
    "'s zc_output \<Rightarrow> int \<Rightarrow> 's eps_copy \<Rightarrow> ((buf_end \<times> int) option \<times> int \<times> 's eps_copy) run" where
  "eps_GetDirectBufferPointer V ptr s =
     (if had_error s then return_run (None, 0, s)
      else
        bind_run (eps_Flush V ptr s) (\<lambda>(n, s).
          if had_error s then return_run (None, 0, s)
          else if n = 0 then
            bind_run (next_loop V (eps_stream s)) (\<lambda>(r, st).
              let s = s\<lparr>eps_stream := st\<rparr>
              in case r of
                   None \<Rightarrow> return_run (None, eps_Error s)
                 | Some (data, sz) \<Rightarrow> return_run (Some (At data, sz), SetInitialBuffer (At data) sz s))
          else return_run (Some (eps_buffer_end s, n), SetInitialBuffer (eps_buffer_end s) n s)))"

text \<open>The buffer for \<open>sz\<close> bytes, or \<open>nullptr\<close>.\<close>

definition eps_GetDirectBufferForNBytesAndAdvance ::
    "'s zc_output \<Rightarrow> int \<Rightarrow> int \<Rightarrow> 's eps_copy \<Rightarrow> (buf_end option \<times> int \<times> 's eps_copy) run" where
  "eps_GetDirectBufferForNBytesAndAdvance V sz ptr s =
     (if had_error s then return_run (None, 0, s)
      else
        bind_run (eps_Flush V ptr s) (\<lambda>(n, s).
          if had_error s then return_run (None, 0, s)
          else if n \<ge> sz then
            let after = (case eps_buffer_end s of At e \<Rightarrow> At (e + sz) | e \<Rightarrow> e)
            in return_run (Some (eps_buffer_end s), SetInitialBuffer after (n - sz) s)
          else return_run (None, SetInitialBuffer (eps_buffer_end s) n s)))"

partial_function (option) EnsureSpaceFallback :: "'s zc_output \<Rightarrow> int \<Rightarrow> 's eps_copy \<Rightarrow> (int \<times> 's eps_copy) run" where
  "EnsureSpaceFallback V ptr s =
     (if had_error s then return_run (0, s)
      else
        let overrun = ptr - eps_end s
        in bind_run (eps_Next V s) (\<lambda>(p, s).
             if p + overrun \<ge> eps_end s then EnsureSpaceFallback V (p + overrun) s
             else return_run (p + overrun, s)))"

definition EnsureSpace :: "'s zc_output \<Rightarrow> int \<Rightarrow> 's eps_copy \<Rightarrow> (int \<times> 's eps_copy) run" where
  "EnsureSpace V ptr s = (if ptr \<ge> eps_end s then EnsureSpaceFallback V ptr s else return_run (ptr, s))"

section \<open>Writing\<close>

partial_function (option) WriteRawFallback :: "'s zc_output \<Rightarrow> byte list \<Rightarrow> int \<Rightarrow> 's eps_copy \<Rightarrow> (int \<times> 's eps_copy) run" where
  "WriteRawFallback V data ptr s =
     (let n = GetSize ptr s
      in if n < int (length data) then
           bind_run (EnsureSpaceFallback V (ptr + n) (eps_put V ptr (take (nat n) data) s)) (\<lambda>(ptr, s).
             WriteRawFallback V (drop (nat n) data) ptr s)
         else return_run (ptr + int (length data), eps_put V ptr data s))"

definition eps_WriteRaw :: "'s zc_output \<Rightarrow> byte list \<Rightarrow> int \<Rightarrow> 's eps_copy \<Rightarrow> (int \<times> 's eps_copy) run" where
  "eps_WriteRaw V data ptr s =
     (if eps_end s - ptr < int (length data) then WriteRawFallback V data ptr s
      else return_run (ptr + int (length data), eps_put V ptr data s))"

definition WriteAliasedRaw :: "'s zc_output \<Rightarrow> byte list \<Rightarrow> int \<Rightarrow> 's eps_copy \<Rightarrow> (int \<times> 's eps_copy) run" where
  "WriteAliasedRaw V data ptr s =
     (if int (length data) < GetSize ptr s then eps_WriteRaw V data ptr s
      else
        bind_run (eps_Trim V ptr s) (\<lambda>(ptr, s).
        bind_run (zo_WriteAliasedRaw V data (eps_stream s)) (\<lambda>(ok, st).
          let s = s\<lparr>eps_stream := st\<rparr> in return_run (if ok then (ptr, s) else eps_Error s))))"

definition eps_WriteRawMaybeAliased :: "'s zc_output \<Rightarrow> byte list \<Rightarrow> int \<Rightarrow> 's eps_copy \<Rightarrow> (int \<times> 's eps_copy) run" where
  "eps_WriteRawMaybeAliased V data ptr s =
     (if aliasing_enabled s then WriteAliasedRaw V data ptr s else eps_WriteRaw V data ptr s)"

text \<open>Storing bytes and moving the cursor behind them.\<close>

abbreviation eps_append :: "'s zc_output \<Rightarrow> byte list \<Rightarrow> int \<times> 's eps_copy \<Rightarrow> int \<times> 's eps_copy" where
  "eps_append V bs ps \<equiv> (fst ps + int (length bs), eps_put V (fst ps) bs (snd ps))"

definition eps_WriteTag :: "'s zc_output \<Rightarrow> 32 word \<Rightarrow> 32 word \<Rightarrow> int \<times> 's eps_copy \<Rightarrow> int \<times> 's eps_copy" where
  "eps_WriteTag V num wt ps = eps_append V (UnsafeVarint (push_bit 3 num OR wt)) ps"

definition WriteLengthDelim :: "'s zc_output \<Rightarrow> 32 word \<Rightarrow> 32 word \<Rightarrow> int \<times> 's eps_copy \<Rightarrow> int \<times> 's eps_copy" where
  "WriteLengthDelim V num sz ps = eps_append V (UnsafeWriteSize sz) (eps_WriteTag V num 2 ps)"

definition WriteStringMaybeAliasedOutline ::
    "'s zc_output \<Rightarrow> 32 word \<Rightarrow> byte list \<Rightarrow> int \<Rightarrow> 's eps_copy \<Rightarrow> (int \<times> 's eps_copy) run" where
  "WriteStringMaybeAliasedOutline V num str ptr s =
     bind_run (EnsureSpace V ptr s) (\<lambda>ps.
       let (ptr, s) = WriteLengthDelim V num (word_of_nat (length str)) ps
       in eps_WriteRawMaybeAliased V str ptr s)"

definition WriteStringOutline ::
    "'s zc_output \<Rightarrow> 32 word \<Rightarrow> byte list \<Rightarrow> int \<Rightarrow> 's eps_copy \<Rightarrow> (int \<times> 's eps_copy) run" where
  "WriteStringOutline V num str ptr s =
     bind_run (EnsureSpace V ptr s) (\<lambda>ps.
       let (ptr, s) = WriteLengthDelim V num (word_of_nat (length str)) ps
       in eps_WriteRaw V str ptr s)"

text \<open>Whether a string takes the path out of line.\<close>

definition string_outline :: "32 word \<Rightarrow> byte list \<Rightarrow> int \<Rightarrow> 's eps_copy \<Rightarrow> bool" where
  "string_outline num str ptr s \<longleftrightarrow>
     int (length str) \<ge> 128 \<or> eps_end s - ptr + 16 - int (TagSize (push_bit 3 num)) - 1 < int (length str)"

text \<open>The inline path: the tag, one byte for the size, the string.\<close>

definition write_short_string :: "'s zc_output \<Rightarrow> 32 word \<Rightarrow> byte list \<Rightarrow> int \<times> 's eps_copy \<Rightarrow> int \<times> 's eps_copy" where
  "write_short_string V num str ps =
     eps_append V str (eps_append V [word_of_nat (length str)] (eps_append V (UnsafeVarint (push_bit 3 num OR 2)) ps))"

definition WriteStringMaybeAliased ::
    "'s zc_output \<Rightarrow> 32 word \<Rightarrow> byte list \<Rightarrow> int \<Rightarrow> 's eps_copy \<Rightarrow> (int \<times> 's eps_copy) run" where
  "WriteStringMaybeAliased V num str ptr s =
     (if string_outline num str ptr s then WriteStringMaybeAliasedOutline V num str ptr s
      else return_run (write_short_string V num str (ptr, s)))"

definition eps_WriteString :: "'s zc_output \<Rightarrow> 32 word \<Rightarrow> byte list \<Rightarrow> int \<Rightarrow> 's eps_copy \<Rightarrow> (int \<times> 's eps_copy) run" where
  "eps_WriteString V num str ptr s =
     (if string_outline num str ptr s then WriteStringOutline V num str ptr s
      else return_run (write_short_string V num str (ptr, s)))"

text \<open>The loop of \<open>WriteVarintPacked\<close>, over the encoded elements; there is at least one.\<close>

fun write_packed_loop :: "'s zc_output \<Rightarrow> 'a::len word list \<Rightarrow> int \<Rightarrow> 's eps_copy \<Rightarrow> (int \<times> 's eps_copy) run" where
  "write_packed_loop V [] ptr s = return_run (ptr, s)"
| "write_packed_loop V (v # vs) ptr s =
     bind_run (EnsureSpace V ptr s) (\<lambda>ps. let (ptr, s) = eps_append V (UnsafeVarint v) ps in write_packed_loop V vs ptr s)"

definition WriteVarintPacked ::
    "'s zc_output \<Rightarrow> ('e \<Rightarrow> 'a::len word) \<Rightarrow> 32 word \<Rightarrow> 'e list \<Rightarrow> 32 word \<Rightarrow> int \<Rightarrow> 's eps_copy \<Rightarrow> (int \<times> 's eps_copy) run" where
  "WriteVarintPacked V encode num r sz ptr s =
     bind_run (EnsureSpace V ptr s) (\<lambda>ps.
       let (ptr, s) = WriteLengthDelim V num sz ps
       in if r = [] then Some (Inl Out_of_bounds) else write_packed_loop V (map encode r) ptr s)"

definition WriteUInt32Packed :: "'s zc_output \<Rightarrow> 32 word \<Rightarrow> 32 word list \<Rightarrow> 32 word \<Rightarrow> int \<Rightarrow> 's eps_copy \<Rightarrow> (int \<times> 's eps_copy) run" where
  "WriteUInt32Packed V = WriteVarintPacked V (\<lambda>v. v)"

definition WriteInt32Packed :: "'s zc_output \<Rightarrow> 32 word \<Rightarrow> 32 word list \<Rightarrow> 32 word \<Rightarrow> int \<Rightarrow> 's eps_copy \<Rightarrow> (int \<times> 's eps_copy) run" where
  "WriteInt32Packed V = WriteVarintPacked V (\<lambda>v. scast v :: 64 word)"

definition WriteSInt32Packed :: "'s zc_output \<Rightarrow> 32 word \<Rightarrow> 32 word list \<Rightarrow> 32 word \<Rightarrow> int \<Rightarrow> 's eps_copy \<Rightarrow> (int \<times> 's eps_copy) run" where
  "WriteSInt32Packed V = WriteVarintPacked V ZigZagEncode32"

definition WriteInt64Packed :: "'s zc_output \<Rightarrow> 32 word \<Rightarrow> 64 word list \<Rightarrow> 32 word \<Rightarrow> int \<Rightarrow> 's eps_copy \<Rightarrow> (int \<times> 's eps_copy) run" where
  "WriteInt64Packed V = WriteVarintPacked V (\<lambda>v. v)"

definition WriteUInt64Packed :: "'s zc_output \<Rightarrow> 32 word \<Rightarrow> 64 word list \<Rightarrow> 32 word \<Rightarrow> int \<Rightarrow> 's eps_copy \<Rightarrow> (int \<times> 's eps_copy) run" where
  "WriteUInt64Packed V = WriteVarintPacked V (\<lambda>v. v)"

definition WriteSInt64Packed :: "'s zc_output \<Rightarrow> 32 word \<Rightarrow> 64 word list \<Rightarrow> 32 word \<Rightarrow> int \<Rightarrow> 's eps_copy \<Rightarrow> (int \<times> 's eps_copy) run" where
  "WriteSInt64Packed V = WriteVarintPacked V ZigZagEncode64"

definition WriteEnumPacked :: "'s zc_output \<Rightarrow> 32 word \<Rightarrow> 32 word list \<Rightarrow> 32 word \<Rightarrow> int \<Rightarrow> 's eps_copy \<Rightarrow> (int \<times> 's eps_copy) run" where
  "WriteEnumPacked V = WriteVarintPacked V (\<lambda>v. scast v :: 64 word)"

text \<open>\<open>WriteFixedPacked\<close> on a little-endian machine: the array of the elements is written as it is in memory.\<close>

definition WriteFixedPacked :: "'s zc_output \<Rightarrow> 32 word \<Rightarrow> byte list \<Rightarrow> int \<Rightarrow> 's eps_copy \<Rightarrow> (int \<times> 's eps_copy) run" where
  "WriteFixedPacked V num memory ptr s =
     bind_run (EnsureSpace V ptr s) (\<lambda>ps.
       let (ptr, s) = WriteLengthDelim V num (word_of_nat (length memory)) ps
       in eps_WriteRaw V memory ptr s)"

section \<open>CodedOutputStream\<close>

definition WriteLittleEndian32ToArray :: "32 word \<Rightarrow> byte list" where
  "WriteLittleEndian32ToArray v = [ucast v, ucast (drop_bit 8 v), ucast (drop_bit 16 v), ucast (drop_bit 24 v)]"

definition WriteLittleEndian64ToArray :: "64 word \<Rightarrow> byte list" where
  "WriteLittleEndian64ToArray v =
     (let part0 = (ucast v :: 32 word); part1 = (ucast (drop_bit 32 v) :: 32 word)
      in [ucast part0, ucast (drop_bit 8 part0), ucast (drop_bit 16 part0), ucast (drop_bit 24 part0),
          ucast part1, ucast (drop_bit 8 part1), ucast (drop_bit 16 part1), ucast (drop_bit 24 part1)])"

definition WriteRawToArray :: "byte list \<Rightarrow> byte list" where
  "WriteRawToArray data = data"

definition WriteStringToArray :: "byte list \<Rightarrow> byte list" where
  "WriteStringToArray str = WriteRawToArray str"

definition WriteStringWithSizeToArray :: "byte list \<Rightarrow> byte list" where
  "WriteStringWithSizeToArray str = WriteVarint32ToArray (word_of_nat (length str)) @ WriteStringToArray str"

record 's coded_output =
  co_impl :: "'s eps_copy"
  co_cur :: int
  co_start_count :: int

definition InitEagerly :: "'s zc_output \<Rightarrow> 's coded_output \<Rightarrow> 's coded_output res" where
  "InitEagerly V s =
     bind_res (zo_Next V (eps_stream (co_impl s))) (\<lambda>(r, st).
       let impl = (co_impl s)\<lparr>eps_stream := st\<rparr>
       in case r of
            Some (data, sz) \<Rightarrow>
              if sz > 0 then (let (cur, impl) = SetInitialBuffer (At data) sz impl in Inr (s\<lparr>co_impl := impl, co_cur := cur\<rparr>))
              else Inr (s\<lparr>co_impl := impl\<rparr>)
          | None \<Rightarrow> Inr (s\<lparr>co_impl := impl\<rparr>))"

definition CodedOutputStream_ctor :: "'s zc_output \<Rightarrow> 's \<Rightarrow> bool \<Rightarrow> bool \<Rightarrow> byte list \<Rightarrow> 's coded_output res" where
  "CodedOutputStream_ctor V stream eager_init deterministic junk =
     (let (cur, impl) = EpsCopyOutputStream_ctor stream deterministic junk;
          s = \<lparr>co_impl = impl, co_cur = cur, co_start_count = zo_ByteCount V stream\<rparr>
      in if eager_init then InitEagerly V s else Inr s)"

text \<open>A member function that passes \<open>cur_\<close> to \<open>impl_\<close> and assigns it the result.\<close>

abbreviation via_impl :: "(int \<Rightarrow> 's eps_copy \<Rightarrow> (int \<times> 's eps_copy) run) \<Rightarrow> 's coded_output \<Rightarrow> 's coded_output run" where
  "via_impl f s \<equiv>
     bind_run (f (co_cur s) (co_impl s)) (\<lambda>(cur, impl). return_run (s\<lparr>co_cur := cur, co_impl := impl\<rparr>))"

definition Trim :: "'s zc_output \<Rightarrow> 's coded_output \<Rightarrow> 's coded_output run" where
  "Trim V s = via_impl (eps_Trim V) s"

text \<open>The destructor gives the stream below back.\<close>

definition CodedOutputStream_dtor :: "'s zc_output \<Rightarrow> 's coded_output \<Rightarrow> 's run" where
  "CodedOutputStream_dtor V s = bind_run (Trim V s) (\<lambda>s. return_run (eps_stream (co_impl s)))"

definition HadError :: "'s zc_output \<Rightarrow> 's coded_output \<Rightarrow> (bool \<times> 's coded_output) run" where
  "HadError V s = bind_run (via_impl (FlushAndResetBuffer V) s) (\<lambda>s. return_run (had_error (co_impl s), s))"

definition CodedOutputStream_Skip :: "'s zc_output \<Rightarrow> int \<Rightarrow> 's coded_output \<Rightarrow> (bool \<times> 's coded_output) run" where
  "CodedOutputStream_Skip V count s =
     bind_run (eps_Skip V count (co_cur s) (co_impl s)) (\<lambda>(ok, cur, impl).
       return_run (ok, s\<lparr>co_cur := cur, co_impl := impl\<rparr>))"

definition CodedOutputStream_GetDirectBufferPointer ::
    "'s zc_output \<Rightarrow> 's coded_output \<Rightarrow> ((buf_end \<times> int) option \<times> 's coded_output) run" where
  "CodedOutputStream_GetDirectBufferPointer V s =
     bind_run (eps_GetDirectBufferPointer V (co_cur s) (co_impl s)) (\<lambda>(r, cur, impl).
       return_run (r, s\<lparr>co_cur := cur, co_impl := impl\<rparr>))"

definition GetDirectBufferForNBytesAndAdvance ::
    "'s zc_output \<Rightarrow> int \<Rightarrow> 's coded_output \<Rightarrow> (buf_end option \<times> 's coded_output) run" where
  "GetDirectBufferForNBytesAndAdvance V sz s =
     bind_run (eps_GetDirectBufferForNBytesAndAdvance V sz (co_cur s) (co_impl s)) (\<lambda>(r, cur, impl).
       return_run (r, s\<lparr>co_cur := cur, co_impl := impl\<rparr>))"

definition WriteRaw :: "'s zc_output \<Rightarrow> byte list \<Rightarrow> 's coded_output \<Rightarrow> 's coded_output run" where
  "WriteRaw V data s = via_impl (eps_WriteRaw V data) s"

definition WriteRawMaybeAliased :: "'s zc_output \<Rightarrow> byte list \<Rightarrow> 's coded_output \<Rightarrow> 's coded_output run" where
  "WriteRawMaybeAliased V data s = via_impl (eps_WriteRawMaybeAliased V data) s"

definition WriteString :: "'s zc_output \<Rightarrow> byte list \<Rightarrow> 's coded_output \<Rightarrow> 's coded_output run" where
  "WriteString V str s = WriteRaw V str s"

text \<open>\<open>cur_ = impl_.EnsureSpace(cur_)\<close>, then storing at most 16 bytes.\<close>

definition write_small :: "'s zc_output \<Rightarrow> byte list \<Rightarrow> 's coded_output \<Rightarrow> 's coded_output run" where
  "write_small V bs s =
     via_impl (\<lambda>cur impl. bind_run (EnsureSpace V cur impl) (\<lambda>ps. return_run (eps_append V bs ps))) s"

definition WriteVarint32 :: "'s zc_output \<Rightarrow> 32 word \<Rightarrow> 's coded_output \<Rightarrow> 's coded_output run" where
  "WriteVarint32 V v s = write_small V (WriteVarint32ToArray v) s"

definition WriteVarint64 :: "'s zc_output \<Rightarrow> 64 word \<Rightarrow> 's coded_output \<Rightarrow> 's coded_output run" where
  "WriteVarint64 V v s = write_small V (WriteVarint64ToArray v) s"

definition WriteVarint32SignExtended :: "'s zc_output \<Rightarrow> 32 word \<Rightarrow> 's coded_output \<Rightarrow> 's coded_output run" where
  "WriteVarint32SignExtended V v s = WriteVarint64 V (scast v) s"

definition WriteTag :: "'s zc_output \<Rightarrow> 32 word \<Rightarrow> 's coded_output \<Rightarrow> 's coded_output run" where
  "WriteTag V v s = WriteVarint32 V v s"

definition WriteLittleEndian32 :: "'s zc_output \<Rightarrow> 32 word \<Rightarrow> 's coded_output \<Rightarrow> 's coded_output run" where
  "WriteLittleEndian32 V v s = write_small V (WriteLittleEndian32ToArray v) s"

definition WriteLittleEndian64 :: "'s zc_output \<Rightarrow> 64 word \<Rightarrow> 's coded_output \<Rightarrow> 's coded_output run" where
  "WriteLittleEndian64 V v s = write_small V (WriteLittleEndian64ToArray v) s"

definition CodedOutputStream_ByteCount :: "'s zc_output \<Rightarrow> 's coded_output \<Rightarrow> int" where
  "CodedOutputStream_ByteCount V s = eps_ByteCount V (co_cur s) (co_impl s) - co_start_count s"

end
