(* ===== verification/Repeated_Field.thy ===== *)
theory Repeated_Field
  imports Prelude
begin

text \<open>
  \<open>RepeatedField\<close> of the protobuf runtime (\<open>google/protobuf/repeated_field.h\<close>): a growing array, of which
  the first \<open>current_size_\<close> elements are in use. The elements behind them keep what they last held.
  Debug checks (\<open>GOOGLE_DCHECK\<close>) are not part of the functions; an access outside of the array
  is an explicit failure. Arenas are not modelled, and the other field of \<open>MergeFrom\<close> and \<open>CopyFrom\<close> is another
  object (\<open>CopyFrom\<close> of a field to itself returns at once).
\<close>

section \<open>State\<close>

text \<open>
  The array of \<open>total_size_\<close> elements is \<open>rf_memory\<close>; \<open>rf_sizeof\<close> is \<open>sizeof(Element)\<close> and \<open>rf_fresh\<close> what a
  default-initialised element happens to hold.
\<close>

record 'e repeated_field =
  rf_current_size :: int
  rf_memory :: "'e list"
  rf_sizeof :: int
  rf_fresh :: 'e

definition RepeatedField_ctor :: "int \<Rightarrow> 'e \<Rightarrow> 'e repeated_field" where
  "RepeatedField_ctor sizeof fresh = \<lparr>rf_current_size = 0, rf_memory = [], rf_sizeof = sizeof, rf_fresh = fresh\<rparr>"

definition rf_empty :: "'e repeated_field \<Rightarrow> bool" where
  "rf_empty s \<longleftrightarrow> rf_current_size s = 0"

definition Capacity :: "'e repeated_field \<Rightarrow> int" where
  "Capacity s = int (length (rf_memory s))"

section \<open>Growing\<close>

definition kRepHeaderSize :: "int \<Rightarrow> int" where
  "kRepHeaderSize sizeof = (if 8 < sizeof then sizeof else 8)"

definition RepeatedFieldLowerClampLimit :: "int \<Rightarrow> int" where
  "RepeatedFieldLowerClampLimit sizeof = kRepHeaderSize sizeof div sizeof"

definition CalculateReserveSize :: "int \<Rightarrow> int \<Rightarrow> int \<Rightarrow> int" where
  "CalculateReserveSize sizeof total_size new_size =
     (if new_size < RepeatedFieldLowerClampLimit sizeof then RepeatedFieldLowerClampLimit sizeof
      else if total_size > (INT_MAX - kRepHeaderSize sizeof) div 2 then INT_MAX
      else max (2 * total_size + kRepHeaderSize sizeof div sizeof) new_size)"

definition Reserve :: "int \<Rightarrow> 'e repeated_field \<Rightarrow> 'e repeated_field" where
  "Reserve new_size s =
     (if Capacity s \<ge> new_size then s
      else
        let new_size = CalculateReserveSize (rf_sizeof s) (Capacity s) new_size;
            n = nat (rf_current_size s)
        in s\<lparr>rf_memory := take n (rf_memory s) @ replicate (nat new_size - n) (rf_fresh s)\<rparr>)"

section \<open>Operations\<close>

text \<open>\<open>elements()[i] = value\<close>.\<close>

definition rf_put :: "int \<Rightarrow> 'e \<Rightarrow> 'e repeated_field \<Rightarrow> 'e repeated_field res" where
  "rf_put i value s =
     (if 0 \<le> i \<and> i < Capacity s then Inr (s\<lparr>rf_memory := (rf_memory s)[nat i := value]\<rparr>) else Inl Out_of_bounds)"

definition AddAlreadyReserved :: "'e \<Rightarrow> 'e repeated_field \<Rightarrow> 'e repeated_field res" where
  "AddAlreadyReserved value s =
     bind_res (rf_put (rf_current_size s) value s) (\<lambda>s. Inr (s\<lparr>rf_current_size := rf_current_size s + 1\<rparr>))"

definition AddNAlreadyReserved :: "int \<Rightarrow> 'e repeated_field \<Rightarrow> 'e repeated_field" where
  "AddNAlreadyReserved n s = s\<lparr>rf_current_size := rf_current_size s + n\<rparr>"

definition rf_Add :: "'e \<Rightarrow> 'e repeated_field \<Rightarrow> 'e repeated_field res" where
  "rf_Add value s =
     bind_res (rf_put (rf_current_size s) value
         (if rf_current_size s = Capacity s then Reserve (Capacity s + 1) s else s))
       (\<lambda>t. Inr (t\<lparr>rf_current_size := rf_current_size s + 1\<rparr>))"

text \<open>Copying values to the elements from \<open>i\<close> on.\<close>

fun rf_copy :: "int \<Rightarrow> 'e list \<Rightarrow> 'e repeated_field \<Rightarrow> 'e repeated_field res" where
  "rf_copy i [] s = Inr s"
| "rf_copy i (v # vs) s = bind_res (rf_put i v s) (rf_copy (i + 1) vs)"

definition Add_range :: "'e list \<Rightarrow> 'e repeated_field \<Rightarrow> 'e repeated_field res" where
  "Add_range vs s =
     (let reserve = int (length vs)
      in if reserve = 0 then Inr s
         else
           bind_res (rf_copy (rf_current_size s) vs (Reserve (reserve + rf_current_size s) s)) (\<lambda>s.
             Inr (s\<lparr>rf_current_size := reserve + rf_current_size s\<rparr>)))"

definition rf_Resize :: "int \<Rightarrow> 'e \<Rightarrow> 'e repeated_field \<Rightarrow> 'e repeated_field res" where
  "rf_Resize new_size value s =
     bind_res
       (if new_size > rf_current_size s then
          rf_copy (rf_current_size s) (replicate (nat (new_size - rf_current_size s)) value) (Reserve new_size s)
        else Inr s)
       (\<lambda>s. Inr (s\<lparr>rf_current_size := new_size\<rparr>))"

definition rf_Get :: "int \<Rightarrow> 'e repeated_field \<Rightarrow> 'e res" where
  "rf_Get i s = (if 0 \<le> i \<and> i < Capacity s then Inr (rf_memory s ! nat i) else Inl Out_of_bounds)"

definition rf_at :: "int \<Rightarrow> 'e repeated_field \<Rightarrow> 'e res" where
  "rf_at i s =
     (if \<not> i \<ge> 0 then Inl Assert_fail
      else if \<not> i < rf_current_size s then Inl Assert_fail
      else Inr (rf_memory s ! nat i))"

definition rf_Set :: "int \<Rightarrow> 'e \<Rightarrow> 'e repeated_field \<Rightarrow> 'e repeated_field res" where
  "rf_Set i value s = rf_put i value s"

definition RemoveLast :: "'e repeated_field \<Rightarrow> 'e repeated_field" where
  "RemoveLast s = s\<lparr>rf_current_size := rf_current_size s - 1\<rparr>"

definition Truncate :: "int \<Rightarrow> 'e repeated_field \<Rightarrow> 'e repeated_field" where
  "Truncate new_size s = (if rf_current_size s > 0 then s\<lparr>rf_current_size := new_size\<rparr> else s)"

text \<open>The loop that moves \<open>n\<close> elements from \<open>i\<close> on down by \<open>num\<close>.\<close>

fun slide_down :: "int \<Rightarrow> nat \<Rightarrow> int \<Rightarrow> 'e repeated_field \<Rightarrow> 'e repeated_field res" where
  "slide_down i 0 num s = Inr s"
| "slide_down i (Suc n) num s =
     bind_res (rf_Get i s) (\<lambda>v. bind_res (rf_Set (i - num) v s) (slide_down (i + 1) n num))"

text \<open>The elements \<open>ExtractSubrange\<close> copies out, and the field without them.\<close>

fun get_range :: "int \<Rightarrow> nat \<Rightarrow> 'e repeated_field \<Rightarrow> 'e list res" where
  "get_range i 0 s = Inr []"
| "get_range i (Suc n) s = bind_res (rf_Get i s) (\<lambda>v. bind_res (get_range (i + 1) n s) (\<lambda>vs. Inr (v # vs)))"

definition ExtractSubrange :: "int \<Rightarrow> int \<Rightarrow> 'e repeated_field \<Rightarrow> ('e list \<times> 'e repeated_field) res" where
  "ExtractSubrange start num s =
     bind_res (get_range start (nat num) s) (\<lambda>vs.
       if num > 0 then bind_res (slide_down (start + num) (nat (rf_current_size s - (start + num))) num s) (\<lambda>t. Inr (vs, Truncate (rf_current_size t - num) t))
       else Inr (vs, s))"

definition rf_Clear :: "'e repeated_field \<Rightarrow> 'e repeated_field" where
  "rf_Clear s = s\<lparr>rf_current_size := 0\<rparr>"

text \<open>The elements of the other field, copied from its array.\<close>

definition rf_MergeFrom :: "'e repeated_field \<Rightarrow> 'e repeated_field \<Rightarrow> 'e repeated_field res" where
  "rf_MergeFrom other s =
     (if rf_current_size other \<noteq> 0 then
        let existing_size = rf_current_size s;
            t = AddNAlreadyReserved (rf_current_size other) (Reserve (existing_size + rf_current_size other) s)
        in bind_res (get_range 0 (nat (rf_current_size other)) other) (\<lambda>vs. rf_copy existing_size vs t)
      else Inr s)"

definition rf_CopyFrom :: "'e repeated_field \<Rightarrow> 'e repeated_field \<Rightarrow> 'e repeated_field res" where
  "rf_CopyFrom other s = rf_MergeFrom other (rf_Clear s)"

definition rf_Assign :: "'e list \<Rightarrow> 'e repeated_field \<Rightarrow> 'e repeated_field res" where
  "rf_Assign vs s = Add_range vs (rf_Clear s)"

definition SwapElements :: "int \<Rightarrow> int \<Rightarrow> 'e repeated_field \<Rightarrow> 'e repeated_field res" where
  "SwapElements i j s =
     bind_res (rf_Get i s) (\<lambda>v. bind_res (rf_Get j s) (\<lambda>w.
       bind_res (rf_put i w s) (rf_put j v)))"

text \<open>
  \<open>erase (begin () + first, begin () + last)\<close>: \<open>std::copy\<close> moves the elements from \<open>last\<close> on to \<open>first\<close> on, one
  after the other.
\<close>

definition rf_erase :: "int \<Rightarrow> int \<Rightarrow> 'e repeated_field \<Rightarrow> 'e repeated_field res" where
  "rf_erase start limit s =
     (if start \<noteq> limit then
        let tail = rf_current_size s - limit
        in bind_res (slide_down limit (nat tail) (limit - start) s) (\<lambda>t. Inr (Truncate (start + tail) t))
      else Inr s)"

definition SpaceUsedExcludingSelfLong :: "'e repeated_field \<Rightarrow> int" where
  "SpaceUsedExcludingSelfLong s = (if Capacity s > 0 then Capacity s * rf_sizeof s + kRepHeaderSize (rf_sizeof s) else 0)"

section \<open>A growing list\<close>

definition elements :: "'e repeated_field \<Rightarrow> 'e list" where
  "elements s = take (nat (rf_current_size s)) (rf_memory s)"

text \<open>The bookkeeping; the array is empty or at least as large as the smallest allocation.\<close>

definition rf_ok :: "'e repeated_field \<Rightarrow> bool" where
  "rf_ok s \<longleftrightarrow> 0 < rf_sizeof s \<and> 0 \<le> rf_current_size s \<and> rf_current_size s \<le> Capacity s \<and> Capacity s \<le> INT_MAX \<and>
     kRepHeaderSize (rf_sizeof s) \<le> INT_MAX \<and>
     (Capacity s = 0 \<or> RepeatedFieldLowerClampLimit (rf_sizeof s) \<le> Capacity s)"

lemma length_elements: "rf_ok s \<Longrightarrow> int (length (elements s)) = rf_current_size s"
  by (auto simp: rf_ok_def elements_def Capacity_def)

lemma header_bounds:
  assumes "0 < z"
  shows "0 < kRepHeaderSize z" and "z \<le> kRepHeaderSize z" and "0 < kRepHeaderSize z div z"
    and "kRepHeaderSize z div z \<le> kRepHeaderSize z"
proof -
  show "0 < kRepHeaderSize z" "z \<le> kRepHeaderSize z" using assms by (simp_all add: kRepHeaderSize_def)
  then show "0 < kRepHeaderSize z div z" using assms by (simp add: pos_imp_zdiv_pos_iff)
  have "kRepHeaderSize z div z * 1 \<le> kRepHeaderSize z div z * z"
    using \<open>0 < kRepHeaderSize z div z\<close> assms by (intro mult_left_mono) simp_all
  also have "\<dots> \<le> kRepHeaderSize z"
    using pos_mod_sign [OF assms, of "kRepHeaderSize z"] div_mult_mod_eq [of "kRepHeaderSize z" z] by linarith
  finally show "kRepHeaderSize z div z \<le> kRepHeaderSize z" by simp
qed

lemma reserve_size:
  assumes "0 < z" and "kRepHeaderSize z \<le> INT_MAX" and "0 \<le> n" and "n < m" and "m \<le> INT_MAX"
    and "n = 0 \<or> RepeatedFieldLowerClampLimit z \<le> n"
  shows "m \<le> CalculateReserveSize z n m" and "CalculateReserveSize z n m \<le> INT_MAX"
    and "RepeatedFieldLowerClampLimit z \<le> CalculateReserveSize z n m"
    and "min (2 * n) INT_MAX \<le> CalculateReserveSize z n m"
proof -
  note h = header_bounds [OF assms(1)]
  have "2 * n + kRepHeaderSize z div z \<le> INT_MAX" if "n \<le> (INT_MAX - kRepHeaderSize z) div 2"
    using that h by linarith
  then show "m \<le> CalculateReserveSize z n m" "CalculateReserveSize z n m \<le> INT_MAX"
    "RepeatedFieldLowerClampLimit z \<le> CalculateReserveSize z n m" "min (2 * n) INT_MAX \<le> CalculateReserveSize z n m"
    using assms h by (auto simp: CalculateReserveSize_def RepeatedFieldLowerClampLimit_def)
qed

lemma Reserve_spec:
  assumes s: "rf_ok s" and m: "m \<le> INT_MAX"
  shows "rf_ok (Reserve m s)" and "elements (Reserve m s) = elements s" and "rf_current_size (Reserve m s) = rf_current_size s"
    and "rf_sizeof (Reserve m s) = rf_sizeof s" and "m \<le> Capacity (Reserve m s)" and "Capacity s \<le> Capacity (Reserve m s)"
proof -
  let ?c = "CalculateReserveSize (rf_sizeof s) (Capacity s) m"
  have "rf_ok (Reserve m s) \<and> elements (Reserve m s) = elements s \<and> rf_current_size (Reserve m s) = rf_current_size s \<and>
      rf_sizeof (Reserve m s) = rf_sizeof s \<and> m \<le> Capacity (Reserve m s) \<and> Capacity s \<le> Capacity (Reserve m s)"
  proof (cases "Capacity s \<ge> m")
    case True
    then show ?thesis using s by (simp add: Reserve_def)
  next
    case False
    have "m \<le> ?c" "?c \<le> INT_MAX" "RepeatedFieldLowerClampLimit (rf_sizeof s) \<le> ?c"
      using reserve_size [of "rf_sizeof s" "Capacity s" m] s m False by (auto simp: rf_ok_def)
    moreover from this(1) have "Capacity (Reserve m s) = ?c"
    proof -
      have "nat (rf_current_size s) \<le> length (rf_memory s)" "rf_current_size s \<le> ?c" "0 \<le> rf_current_size s"
        using s False \<open>m \<le> ?c\<close> by (auto simp: Capacity_def rf_ok_def)
      then show ?thesis using False by (simp add: Reserve_def Let_def Capacity_def min_absorb2)
    qed
    moreover have "elements (Reserve m s) = elements s"
    proof -
      have "nat (rf_current_size s) \<le> length (rf_memory s)" using s by (auto simp: Capacity_def rf_ok_def)
      then show ?thesis by (simp add: Reserve_def elements_def min_absorb2 Let_def)
    qed
    moreover have "rf_current_size (Reserve m s) = rf_current_size s" "rf_sizeof (Reserve m s) = rf_sizeof s"
      by (simp_all add: Reserve_def Let_def)
    ultimately show ?thesis using s False by (simp add: rf_ok_def)
  qed
  then show "rf_ok (Reserve m s)" "elements (Reserve m s) = elements s" "rf_current_size (Reserve m s) = rf_current_size s"
    "rf_sizeof (Reserve m s) = rf_sizeof s" "m \<le> Capacity (Reserve m s)" "Capacity s \<le> Capacity (Reserve m s)" by blast+
qed

text \<open>A run of stores replaces a section of the array.\<close>

lemma rf_copy_result:
  "0 \<le> i \<Longrightarrow> i + int (length vs) \<le> Capacity s \<Longrightarrow>
   rf_copy i vs s = Inr (s\<lparr>rf_memory := take (nat i) (rf_memory s) @ vs @ drop (nat i + length vs) (rf_memory s)\<rparr>)"
proof (induction vs arbitrary: i s)
  case (Cons v vs)
  let ?s = "s\<lparr>rf_memory := (rf_memory s)[nat i := v]\<rparr>"
  have i: "nat i < length (rf_memory s)" "nat (i + 1) = Suc (nat i)" using Cons.prems by (simp_all add: Capacity_def)
  have "rf_copy (i + 1) vs ?s = Inr (?s\<lparr>rf_memory := take (nat (i + 1)) (rf_memory ?s) @ vs @
      drop (nat (i + 1) + length vs) (rf_memory ?s)\<rparr>)"
    using Cons.prems by (intro Cons.IH) (simp_all add: Capacity_def)
  moreover have "take (Suc (nat i)) ((rf_memory s)[nat i := v]) = take (nat i) (rf_memory s) @ [v]"
    using i(1) by (simp add: take_Suc_conv_app_nth)
  ultimately show ?case using Cons.prems i by (simp add: rf_put_def Capacity_def)
qed simp

lemma rf_copy_end:
  assumes s: "rf_ok s" and fits: "rf_current_size s + int (length vs) \<le> Capacity s"
  shows "\<exists>t. rf_copy (rf_current_size s) vs s = Inr t \<and> rf_current_size t = rf_current_size s \<and> rf_sizeof t = rf_sizeof s \<and>
    Capacity t = Capacity s \<and>
    elements (t\<lparr>rf_current_size := rf_current_size s + int (length vs)\<rparr>) = elements s @ vs \<and>
    rf_ok (t\<lparr>rf_current_size := rf_current_size s + int (length vs)\<rparr>)"
proof -
  let ?i = "rf_current_size s"
  let ?t = "s\<lparr>rf_memory := take (nat ?i) (rf_memory s) @ vs @ drop (nat ?i + length vs) (rf_memory s)\<rparr>"
  have i: "0 \<le> ?i" using s by (simp add: rf_ok_def)
  have len: "nat ?i + length vs \<le> length (rf_memory s)" using fits i by (simp add: Capacity_def)
  then have "Capacity ?t = Capacity s" "nat (?i + int (length vs)) = nat ?i + length vs" using i by (auto simp: Capacity_def)
  with rf_copy_result [OF i fits] s len fits show ?thesis
    by (auto simp: elements_def rf_ok_def Capacity_def)
qed

lemma rf_Add_spec:
  assumes s: "rf_ok s" and room: "rf_current_size s < INT_MAX"
  shows "\<exists>t. rf_Add v s = Inr t \<and> rf_ok t \<and> elements t = elements s @ [v] \<and> rf_sizeof t = rf_sizeof s"
proof -
  let ?r = "if rf_current_size s = Capacity s then Reserve (Capacity s + 1) s else s"
  have "Capacity s + 1 \<le> INT_MAX" if "rf_current_size s = Capacity s" using that room by simp
  then have r: "rf_ok ?r" "elements ?r = elements s" "rf_current_size ?r = rf_current_size s" "rf_sizeof ?r = rf_sizeof s"
    "rf_current_size s + 1 \<le> Capacity ?r"
    using Reserve_spec [OF s, of "Capacity s + 1"] s by (auto simp: rf_ok_def)
  from rf_copy_end [OF r(1), of "[v]"] r obtain t where "rf_put (rf_current_size s) v ?r = Inr t"
    "elements (t\<lparr>rf_current_size := rf_current_size s + 1\<rparr>) = elements s @ [v]"
    "rf_ok (t\<lparr>rf_current_size := rf_current_size s + 1\<rparr>)" "rf_sizeof t = rf_sizeof s"
    by (auto simp: bind_res_Inr_iff)
  then show ?thesis by (simp only: rf_Add_def) simp
qed

lemma Add_range_spec:
  assumes s: "rf_ok s" and room: "rf_current_size s + int (length vs) \<le> INT_MAX"
  shows "\<exists>t. Add_range vs s = Inr t \<and> rf_ok t \<and> elements t = elements s @ vs \<and> rf_sizeof t = rf_sizeof s"
proof (cases "vs = []")
  case True
  then show ?thesis using s by (simp add: Add_range_def)
next
  case False
  let ?r = "Reserve (int (length vs) + rf_current_size s) s"
  note r = Reserve_spec [OF s, of "int (length vs) + rf_current_size s"]
  have "int (length vs) + rf_current_size s \<le> INT_MAX" using room by simp
  note r = r [OF this]
  then have "rf_current_size ?r + int (length vs) \<le> Capacity ?r" by simp
  from rf_copy_end [OF r(1) this] obtain t where t: "rf_copy (rf_current_size s) vs ?r = Inr t" "rf_current_size t = rf_current_size s"
    "rf_sizeof t = rf_sizeof s" "elements (t\<lparr>rf_current_size := rf_current_size s + int (length vs)\<rparr>) = elements s @ vs"
    "rf_ok (t\<lparr>rf_current_size := rf_current_size s + int (length vs)\<rparr>)" by (auto simp: r(2-4))
  with False show ?thesis by (simp add: Add_range_def add.commute)
qed

lemma rf_Resize_spec:
  assumes s: "rf_ok s" and n: "0 \<le> n" "n \<le> INT_MAX"
  shows "\<exists>t. rf_Resize n v s = Inr t \<and> rf_ok t \<and> rf_sizeof t = rf_sizeof s \<and>
    elements t = take (nat n) (elements s) @ replicate (nat n - length (elements s)) v"
proof (cases "n > rf_current_size s")
  case True
  let ?r = "Reserve n s" and ?vs = "replicate (nat (n - rf_current_size s)) v"
  note r = Reserve_spec [OF s n(2)]
  have "rf_current_size ?r + int (length ?vs) = n" using True by (simp add: r(3))
  moreover from this r(5) have "rf_current_size ?r + int (length ?vs) \<le> Capacity ?r" by simp
  ultimately obtain t where t: "rf_copy (rf_current_size s) ?vs ?r = Inr t"
    "rf_sizeof t = rf_sizeof s" "elements (t\<lparr>rf_current_size := n\<rparr>) = elements s @ ?vs" "rf_ok (t\<lparr>rf_current_size := n\<rparr>)"
    using rf_copy_end [OF r(1), of ?vs] by (auto simp: r(2-4))
  have "take (nat n) (elements s) = elements s" "nat (n - rf_current_size s) = nat n - length (elements s)"
    using True length_elements [OF s] by auto
  with t True show ?thesis by (simp add: rf_Resize_def)
next
  case False
  with s n have "elements (s\<lparr>rf_current_size := n\<rparr>) = take (nat n) (elements s)" by (simp add: elements_def rf_ok_def min_def)
  moreover have "nat n - length (elements s) = 0" using False length_elements [OF s] by linarith
  moreover have "rf_ok (s\<lparr>rf_current_size := n\<rparr>)" using s n False by (auto simp: rf_ok_def Capacity_def)
  ultimately show ?thesis using False by (simp add: rf_Resize_def)
qed

text \<open>Reading and overwriting elements.\<close>

lemma rf_Get_spec: "rf_ok s \<Longrightarrow> 0 \<le> i \<Longrightarrow> i < rf_current_size s \<Longrightarrow> rf_Get i s = Inr (elements s ! nat i)"
  by (simp add: rf_Get_def rf_ok_def elements_def)

lemma rf_at_spec:
  "rf_ok s \<Longrightarrow> rf_at i s = (if 0 \<le> i \<and> i < rf_current_size s then Inr (elements s ! nat i) else Inl Assert_fail)"
  by (simp add: rf_at_def rf_ok_def elements_def)

lemma rf_put_spec:
  "rf_ok s \<Longrightarrow> 0 \<le> i \<Longrightarrow> i < rf_current_size s \<Longrightarrow>
   \<exists>t. rf_put i v s = Inr t \<and> rf_ok t \<and> elements t = (elements s)[nat i := v] \<and> rf_sizeof t = rf_sizeof s \<and>
     rf_current_size t = rf_current_size s"
  by (simp add: rf_put_def rf_ok_def elements_def Capacity_def take_update_swap)

lemma SwapElements_spec:
  assumes s: "rf_ok s" and ij: "0 \<le> i" "i < rf_current_size s" "0 \<le> j" "j < rf_current_size s"
  shows "\<exists>t. SwapElements i j s = Inr t \<and> rf_ok t \<and> rf_sizeof t = rf_sizeof s \<and>
    elements t = (elements s)[nat i := elements s ! nat j, nat j := elements s ! nat i]"
proof -
  obtain t where t: "rf_put i (elements s ! nat j) s = Inr t" "rf_ok t" "elements t = (elements s)[nat i := elements s ! nat j]"
    "rf_sizeof t = rf_sizeof s" "rf_current_size t = rf_current_size s"
    using rf_put_spec [OF s ij(1,2)] by blast
  with rf_put_spec [OF t(2) ij(3), of "elements s ! nat i"] ij show ?thesis
    by (auto simp: SwapElements_def rf_Get_spec [OF s])
qed

text \<open>Shrinking.\<close>

lemma shrink_spec:
  "rf_ok s \<Longrightarrow> 0 \<le> n \<Longrightarrow> n \<le> rf_current_size s \<Longrightarrow>
   rf_ok (s\<lparr>rf_current_size := n\<rparr>) \<and> elements (s\<lparr>rf_current_size := n\<rparr>) = take (nat n) (elements s)"
  by (auto simp: rf_ok_def elements_def Capacity_def min_def)

lemma Truncate_spec:
  assumes "rf_ok s" and "0 \<le> n" and "n \<le> rf_current_size s"
  shows "rf_ok (Truncate n s)" and "elements (Truncate n s) = take (nat n) (elements s)"
    and "rf_sizeof (Truncate n s) = rf_sizeof s"
  using shrink_spec [OF assms] assms by (auto simp: Truncate_def elements_def)

lemma RemoveLast_spec:
  assumes s: "rf_ok s" and "rf_current_size s > 0"
  shows "rf_ok (RemoveLast s)" and "elements (RemoveLast s) = butlast (elements s)"
proof -
  have "nat (rf_current_size s - 1) = length (elements s) - 1" using length_elements [OF s] by linarith
  then show "rf_ok (RemoveLast s)" "elements (RemoveLast s) = butlast (elements s)"
    using shrink_spec [OF s, of "rf_current_size s - 1"] assms by (simp_all add: RemoveLast_def butlast_conv_take)
qed

lemma rf_Clear_spec: "rf_ok s \<Longrightarrow> rf_ok (rf_Clear s) \<and> elements (rf_Clear s) = [] \<and> rf_sizeof (rf_Clear s) = rf_sizeof s"
  using shrink_spec [of s 0] by (simp add: rf_Clear_def rf_ok_def)

text \<open>Copying a section out.\<close>

lemma get_range_result:
  "0 \<le> i \<Longrightarrow> i + int n \<le> Capacity s \<Longrightarrow> get_range i n s = Inr (take n (drop (nat i) (rf_memory s)))"
proof (induction n arbitrary: i)
  case (Suc n)
  have "nat i < length (rf_memory s)" "nat (i + 1) = Suc (nat i)" using Suc.prems by (simp_all add: Capacity_def)
  with Suc show ?case by (simp add: rf_Get_def Capacity_def Cons_nth_drop_Suc [symmetric])
qed simp

lemma get_range_spec:
  assumes s: "rf_ok s" and i: "0 \<le> i" "i + int n \<le> rf_current_size s"
  shows "get_range i n s = Inr (take n (drop (nat i) (elements s)))"
proof -
  have "n \<le> nat (rf_current_size s) - nat i" using i by linarith
  then have "take n (drop (nat i) (elements s)) = take n (drop (nat i) (rf_memory s))"
    by (simp add: elements_def drop_take min_def)
  with get_range_result [of i n s] i s show ?thesis by (simp add: rf_ok_def)
qed

lemma rf_MergeFrom_spec:
  assumes s: "rf_ok s" and u: "rf_ok u" and room: "rf_current_size s + rf_current_size u \<le> INT_MAX"
  shows "\<exists>t. rf_MergeFrom u s = Inr t \<and> rf_ok t \<and> elements t = elements s @ elements u \<and> rf_sizeof t = rf_sizeof s"
proof (cases "rf_current_size u = 0")
  case True
  then show ?thesis using s by (simp add: rf_MergeFrom_def elements_def)
next
  case False
  let ?r = "Reserve (rf_current_size s + rf_current_size u) s"
  let ?n = "rf_current_size s + rf_current_size u"
  note r = Reserve_spec [OF s room]
  have u': "get_range 0 (nat (rf_current_size u)) u = Inr (elements u)" "int (length (elements u)) = rf_current_size u"
    using get_range_spec [OF u, of 0 "nat (rf_current_size u)"] length_elements [OF u] u by (auto simp: rf_ok_def elements_def)
  have i: "0 \<le> rf_current_size s" using s by (simp add: rf_ok_def)
  have fits: "rf_current_size s + int (length (elements u)) \<le> Capacity ?r" using r(5) u'(2) by simp
  have t: "rf_copy (rf_current_size s) (elements u) (AddNAlreadyReserved (rf_current_size u) ?r) =
      Inr (?r\<lparr>rf_memory := take (nat (rf_current_size s)) (rf_memory ?r) @ elements u @
        drop (nat (rf_current_size s) + length (elements u)) (rf_memory ?r), rf_current_size := ?n\<rparr>)"
    using rf_copy_result [OF i, of "elements u" "AddNAlreadyReserved (rf_current_size u) ?r"] fits
    by (simp add: AddNAlreadyReserved_def Capacity_def r(3))
  obtain t where "rf_copy (rf_current_size s) (elements u) ?r = Inr t" "elements (t\<lparr>rf_current_size := ?n\<rparr>) = elements s @ elements u"
    "rf_ok (t\<lparr>rf_current_size := ?n\<rparr>)" "rf_sizeof t = rf_sizeof s"
    using rf_copy_end [OF r(1), of "elements u"] fits by (auto simp: r(2-4) u'(2))
  moreover from this(1) have "t = ?r\<lparr>rf_memory := take (nat (rf_current_size s)) (rf_memory ?r) @ elements u @
        drop (nat (rf_current_size s) + length (elements u)) (rf_memory ?r)\<rparr>"
    using rf_copy_result [OF i fits] by simp
  ultimately show ?thesis using False t by (simp add: rf_MergeFrom_def u'(1) Let_def)
qed

text \<open>Moving the tail of the array down overwrites the elements before it.\<close>

lemma slide_down_result:
  "0 \<le> num \<Longrightarrow> num \<le> i \<Longrightarrow> i + int n \<le> Capacity s \<Longrightarrow>
   \<exists>mem. slide_down i n num s = Inr (s\<lparr>rf_memory := mem\<rparr>) \<and> length mem = length (rf_memory s) \<and>
     take (nat (i - num) + n) mem = take (nat (i - num)) (rf_memory s) @ take n (drop (nat i) (rf_memory s))"
proof (induction n arbitrary: i s)
  case 0
  then show ?case by (intro exI [of _ "rf_memory s"]) simp
next
  case (Suc n)
  let ?m = "(rf_memory s)[nat (i - num) := rf_memory s ! nat i]"
  let ?s = "s\<lparr>rf_memory := ?m\<rparr>"
  have i: "nat i < length (rf_memory s)" "nat (i - num) \<le> nat i" "nat (i + 1) = Suc (nat i)" "nat (i + 1 - num) = Suc (nat (i - num))"
    using Suc.prems by (simp_all add: Capacity_def)
  have "\<exists>mem. slide_down (i + 1) n num ?s = Inr (?s\<lparr>rf_memory := mem\<rparr>) \<and> length mem = length (rf_memory ?s) \<and>
     take (nat (i + 1 - num) + n) mem = take (nat (i + 1 - num)) (rf_memory ?s) @ take n (drop (nat (i + 1)) (rf_memory ?s))"
    using Suc.prems by (intro Suc.IH) (simp_all add: Capacity_def)
  then obtain mem where mem: "slide_down (i + 1) n num ?s = Inr (s\<lparr>rf_memory := mem\<rparr>)" "length mem = length (rf_memory s)"
    "take (Suc (nat (i - num) + n)) mem = take (Suc (nat (i - num))) ?m @ take n (drop (Suc (nat i)) ?m)"
    by (auto simp: i(3,4))
  have "take (Suc (nat (i - num))) ?m = take (nat (i - num)) (rf_memory s) @ [rf_memory s ! nat i]"
    using i by (simp add: take_Suc_conv_app_nth)
  moreover have "drop (Suc (nat i)) ?m = drop (Suc (nat i)) (rf_memory s)" using i by simp
  moreover have "take (Suc n) (drop (nat i) (rf_memory s)) = rf_memory s ! nat i # take n (drop (Suc (nat i)) (rf_memory s))"
    using i(1) by (simp add: Cons_nth_drop_Suc [symmetric])
  moreover have "slide_down i (Suc n) num s = slide_down (i + 1) n num ?s"
    using Suc.prems i by (simp add: rf_Get_def rf_Set_def rf_put_def Capacity_def)
  ultimately show ?case using mem by (intro exI [of _ mem]) simp
qed

lemma slide_truncate:
  assumes s: "rf_ok s" and b: "0 \<le> a" "0 \<le> num" "a + num \<le> rf_current_size s"
  shows "\<exists>t. slide_down (a + num) (nat (rf_current_size s - (a + num))) num s = Inr t \<and> rf_current_size t = rf_current_size s \<and>
    rf_ok (Truncate (rf_current_size s - num) t) \<and> rf_sizeof t = rf_sizeof s \<and>
    elements (Truncate (rf_current_size s - num) t) = take (nat a) (elements s) @ drop (nat (a + num)) (elements s)"
proof -
  let ?n = "nat (rf_current_size s - (a + num))"
  have "\<exists>mem. slide_down (a + num) ?n num s = Inr (s\<lparr>rf_memory := mem\<rparr>) \<and> length mem = length (rf_memory s) \<and>
     take (nat (a + num - num) + ?n) mem = take (nat (a + num - num)) (rf_memory s) @ take ?n (drop (nat (a + num)) (rf_memory s))"
    using s b by (intro slide_down_result) (simp_all add: rf_ok_def)
  then obtain mem where mem: "slide_down (a + num) ?n num s = Inr (s\<lparr>rf_memory := mem\<rparr>)" "length mem = length (rf_memory s)"
    "take (nat a + ?n) mem = take (nat a) (rf_memory s) @ take ?n (drop (nat (a + num)) (rf_memory s))" by auto
  let ?t = "s\<lparr>rf_memory := mem\<rparr>"
  have ok: "rf_ok ?t" using s mem(2) by (simp add: rf_ok_def Capacity_def)
  have n: "nat (rf_current_size s - num) = nat a + ?n" "?n = nat (rf_current_size s) - nat (a + num)" "nat a \<le> nat (rf_current_size s)"
    using b by linarith+
  have "nat (rf_current_size s - num) \<le> nat (rf_current_size s)" using b by simp
  then have "take (nat (rf_current_size s - num)) (elements ?t) = take (nat a + ?n) mem"
    by (simp add: elements_def min_absorb1 flip: n(1))
  also have "\<dots> = take (nat a) (elements s) @ drop (nat (a + num)) (elements s)"
    using mem(3) n(2,3) by (simp add: elements_def drop_take min_absorb1)
  finally have "take (nat (rf_current_size s - num)) (elements ?t) = take (nat a) (elements s) @ drop (nat (a + num)) (elements s)" .
  then show ?thesis using Truncate_spec [OF ok, of "rf_current_size s - num"] mem(1) s b by simp
qed

lemma ExtractSubrange_spec:
  assumes s: "rf_ok s" and b: "0 \<le> a" "0 \<le> num" "a + num \<le> rf_current_size s"
  shows "\<exists>t. ExtractSubrange a num s = Inr (take (nat num) (drop (nat a) (elements s)), t) \<and> rf_ok t \<and>
    rf_sizeof t = rf_sizeof s \<and> elements t = take (nat a) (elements s) @ drop (nat (a + num)) (elements s)"
proof -
  have g: "get_range a (nat num) s = Inr (take (nat num) (drop (nat a) (elements s)))"
    using get_range_spec [OF s b(1), of "nat num"] b by simp
  show ?thesis
  proof (cases "num > 0")
    case True
    from slide_truncate [OF s b] obtain t where "slide_down (a + num) (nat (rf_current_size s - (a + num))) num s = Inr t"
      "rf_current_size t = rf_current_size s" "rf_ok (Truncate (rf_current_size s - num) t)" "rf_sizeof t = rf_sizeof s"
      "elements (Truncate (rf_current_size s - num) t) = take (nat a) (elements s) @ drop (nat (a + num)) (elements s)" by blast
    with True show ?thesis by (simp add: ExtractSubrange_def g) (simp add: Truncate_def)
  next
    case False
    with b have "num = 0" by simp
    then show ?thesis using s by (simp add: ExtractSubrange_def)
  qed
qed

lemma rf_erase_spec:
  assumes s: "rf_ok s" and b: "0 \<le> a" "a \<le> b" "b \<le> rf_current_size s"
  shows "\<exists>t. rf_erase a b s = Inr t \<and> rf_ok t \<and> rf_sizeof t = rf_sizeof s \<and>
    elements t = take (nat a) (elements s) @ drop (nat b) (elements s)"
proof (cases "a = b")
  case True
  then show ?thesis using s by (simp add: rf_erase_def)
next
  case False
  from slide_truncate [OF s, of a "b - a"] b obtain t where t: "slide_down b (nat (rf_current_size s - b)) (b - a) s = Inr t"
    "rf_ok (Truncate (rf_current_size s - (b - a)) t)" "rf_sizeof t = rf_sizeof s"
    "elements (Truncate (rf_current_size s - (b - a)) t) = take (nat a) (elements s) @ drop (nat b) (elements s)" by auto
  moreover from t(1) False have "rf_erase a b s = Inr (Truncate (rf_current_size s - (b - a)) t)"
    by (simp add: rf_erase_def Let_def algebra_simps)
  moreover have "rf_sizeof (Truncate (rf_current_size s - (b - a)) t) = rf_sizeof t" by (simp add: Truncate_def)
  ultimately show ?thesis by simp
qed

section \<open>Programs over a field\<close>

text \<open>The calls a program makes, what each does to the field, and what it does to a list.\<close>

datatype 'e field_call =
  Call_Add 'e | Call_Add_range "'e list" | Call_Resize int 'e | Call_Set int 'e | Call_RemoveLast | Call_Truncate int
  | Call_ExtractSubrange int int | Call_erase int int | Call_SwapElements int int | Call_Clear | Call_Reserve int
  | Call_MergeFrom "'e repeated_field" | Call_CopyFrom "'e repeated_field" | Call_Assign "'e list"

fun do_call :: "'e field_call \<Rightarrow> 'e repeated_field \<Rightarrow> 'e repeated_field res" where
  "do_call (Call_Add v) s = rf_Add v s"
| "do_call (Call_Add_range vs) s = Add_range vs s"
| "do_call (Call_Resize n v) s = rf_Resize n v s"
| "do_call (Call_Set i v) s = rf_Set i v s"
| "do_call Call_RemoveLast s = Inr (RemoveLast s)"
| "do_call (Call_Truncate n) s = Inr (Truncate n s)"
| "do_call (Call_ExtractSubrange a n) s = bind_res (ExtractSubrange a n s) (\<lambda>(_, t). Inr t)"
| "do_call (Call_erase a b) s = rf_erase a b s"
| "do_call (Call_SwapElements i j) s = SwapElements i j s"
| "do_call Call_Clear s = Inr (rf_Clear s)"
| "do_call (Call_Reserve n) s = Inr (Reserve n s)"
| "do_call (Call_MergeFrom u) s = rf_MergeFrom u s"
| "do_call (Call_CopyFrom u) s = rf_CopyFrom u s"
| "do_call (Call_Assign vs) s = rf_Assign vs s"

fun list_call :: "'e field_call \<Rightarrow> 'e list \<Rightarrow> 'e list" where
  "list_call (Call_Add v) xs = xs @ [v]"
| "list_call (Call_Add_range vs) xs = xs @ vs"
| "list_call (Call_Resize n v) xs = take (nat n) xs @ replicate (nat n - length xs) v"
| "list_call (Call_Set i v) xs = xs[nat i := v]"
| "list_call Call_RemoveLast xs = butlast xs"
| "list_call (Call_Truncate n) xs = take (nat n) xs"
| "list_call (Call_ExtractSubrange a n) xs = take (nat a) xs @ drop (nat (a + n)) xs"
| "list_call (Call_erase a b) xs = take (nat a) xs @ drop (nat b) xs"
| "list_call (Call_SwapElements i j) xs = xs[nat i := xs ! nat j, nat j := xs ! nat i]"
| "list_call Call_Clear xs = []"
| "list_call (Call_Reserve n) xs = xs"
| "list_call (Call_MergeFrom u) xs = xs @ elements u"
| "list_call (Call_CopyFrom u) xs = elements u"
| "list_call (Call_Assign vs) xs = vs"

text \<open>The preconditions: the ones of the debug checks, and that the result has at most \<open>INT_MAX\<close> elements.\<close>

fun call_allowed :: "'e field_call \<Rightarrow> 'e list \<Rightarrow> bool" where
  "call_allowed (Call_Add v) xs \<longleftrightarrow> int (length xs) < INT_MAX"
| "call_allowed (Call_Add_range vs) xs \<longleftrightarrow> int (length xs) + int (length vs) \<le> INT_MAX"
| "call_allowed (Call_Resize n v) xs \<longleftrightarrow> 0 \<le> n \<and> n \<le> INT_MAX"
| "call_allowed (Call_Set i v) xs \<longleftrightarrow> 0 \<le> i \<and> i < int (length xs)"
| "call_allowed Call_RemoveLast xs \<longleftrightarrow> xs \<noteq> []"
| "call_allowed (Call_Truncate n) xs \<longleftrightarrow> 0 \<le> n \<and> n \<le> int (length xs)"
| "call_allowed (Call_ExtractSubrange a n) xs \<longleftrightarrow> 0 \<le> a \<and> 0 \<le> n \<and> a + n \<le> int (length xs)"
| "call_allowed (Call_erase a b) xs \<longleftrightarrow> 0 \<le> a \<and> a \<le> b \<and> b \<le> int (length xs)"
| "call_allowed (Call_SwapElements i j) xs \<longleftrightarrow> 0 \<le> i \<and> i < int (length xs) \<and> 0 \<le> j \<and> j < int (length xs)"
| "call_allowed Call_Clear xs \<longleftrightarrow> True"
| "call_allowed (Call_Reserve n) xs \<longleftrightarrow> n \<le> INT_MAX"
| "call_allowed (Call_MergeFrom u) xs \<longleftrightarrow> rf_ok u \<and> int (length xs) + rf_current_size u \<le> INT_MAX"
| "call_allowed (Call_CopyFrom u) xs \<longleftrightarrow> rf_ok u"
| "call_allowed (Call_Assign vs) xs \<longleftrightarrow> int (length vs) \<le> INT_MAX"

fun do_calls :: "'e field_call list \<Rightarrow> 'e repeated_field \<Rightarrow> 'e repeated_field res" where
  "do_calls [] s = Inr s"
| "do_calls (c # cs) s = bind_res (do_call c s) (do_calls cs)"

fun calls_allowed :: "'e field_call list \<Rightarrow> 'e list \<Rightarrow> bool" where
  "calls_allowed [] xs \<longleftrightarrow> True"
| "calls_allowed (c # cs) xs \<longleftrightarrow> call_allowed c xs \<and> calls_allowed cs (list_call c xs)"

lemma do_call_spec:
  assumes s: "rf_ok s" and c: "call_allowed c (elements s)"
  shows "\<exists>t. do_call c s = Inr t \<and> rf_ok t \<and> elements t = list_call c (elements s)"
proof -
  note len = length_elements [OF s]
  note clear = rf_Clear_spec [OF s]
  then have none: "rf_current_size (rf_Clear s) = 0" by (simp add: rf_Clear_def)
  show ?thesis
  proof (cases c)
    case (Call_Add v)
    then show ?thesis using rf_Add_spec [OF s, of v] c len by auto
  next
    case (Call_Add_range vs)
    then show ?thesis using Add_range_spec [OF s, of vs] c len by auto
  next
    case (Call_Resize n v)
    then show ?thesis using rf_Resize_spec [OF s, of n v] c by auto
  next
    case (Call_Set i v)
    then show ?thesis using rf_put_spec [OF s, of i v] c len by (auto simp: rf_Set_def)
  next
    case Call_RemoveLast
    with c len have "rf_current_size s > 0" by (cases "elements s") auto
    with Call_RemoveLast RemoveLast_spec [OF s] show ?thesis by simp
  next
    case (Call_Truncate n)
    then show ?thesis using Truncate_spec [OF s, of n] c len by simp
  next
    case (Call_ExtractSubrange a n)
    then show ?thesis using ExtractSubrange_spec [OF s, of a n] c len by auto
  next
    case (Call_erase a b)
    then show ?thesis using rf_erase_spec [OF s, of a b] c len by auto
  next
    case (Call_SwapElements i j)
    then show ?thesis using SwapElements_spec [OF s, of i j] c len by auto
  next
    case (Call_Reserve n)
    then show ?thesis using Reserve_spec [OF s, of n] c by simp
  next
    case (Call_MergeFrom u)
    then show ?thesis using rf_MergeFrom_spec [OF s, of u] c len by auto
  next
    case (Call_CopyFrom u)
    with c have "rf_current_size u \<le> INT_MAX" by (auto simp: rf_ok_def)
    with Call_CopyFrom show ?thesis using rf_MergeFrom_spec [of "rf_Clear s" u] clear none c by (auto simp: rf_CopyFrom_def)
  next
    case (Call_Assign vs)
    then show ?thesis using Add_range_spec [of "rf_Clear s" vs] clear none c by (auto simp: rf_Assign_def)
  qed (simp add: clear)
qed

text \<open>
  C38: A repeated field is a list: after any sequence of calls that respects the preconditions no access
  was outside of the array, and the field holds the list the same calls make of an empty list, whatever
  the element size, the content of fresh memory and the reallocations on the way.
\<close>

theorem repeated_field_list:
  assumes "0 < sizeof" and "kRepHeaderSize sizeof \<le> INT_MAX" and "calls_allowed cs []"
  shows "\<exists>t. do_calls cs (RepeatedField_ctor sizeof fresh) = Inr t \<and> rf_ok t \<and> elements t = fold list_call cs []"
proof -
  have "rf_ok s \<Longrightarrow> calls_allowed cs (elements s) \<Longrightarrow> \<exists>t. do_calls cs s = Inr t \<and> rf_ok t \<and> elements t = fold list_call cs (elements s)" for s
  proof (induction cs arbitrary: s)
    case (Cons c cs)
    from Cons.prems do_call_spec [of s c] obtain u where "do_call c s = Inr u" "rf_ok u" "elements u = list_call c (elements s)" by auto
    with Cons.prems Cons.IH [of u] show ?case by simp
  qed simp
  moreover have "rf_ok (RepeatedField_ctor sizeof fresh)" "elements (RepeatedField_ctor sizeof fresh) = []"
    using assms by (simp_all add: rf_ok_def RepeatedField_ctor_def Capacity_def elements_def INT_MAX_def)
  ultimately show ?thesis using assms(3) by metis
qed

theorem repeated_field_list_witness:
  "\<exists>t. do_calls [Call_Add_range [1, 2, 3, 4 :: nat], Call_ExtractSubrange 1 2, Call_Resize 4 7, Call_SwapElements 0 3, Call_RemoveLast]
       (RepeatedField_ctor 4 0) = Inr t \<and> rf_ok t \<and> elements t = [7, 4, 7]"
  using repeated_field_list [of 4 "[Call_Add_range [1, 2, 3, 4 :: nat], Call_ExtractSubrange 1 2, Call_Resize 4 7, Call_SwapElements 0 3, Call_RemoveLast]" 0]
  by (simp add: kRepHeaderSize_def INT_MAX_def eval_nat_numeral)

end
