(* ===== verification/Wire_Format.thy ===== *)
theory Wire_Format
  imports Coded_Input Coded_Output Repeated_Field
begin

text \<open>
  The inline functions of \<open>WireFormatLite\<close> (\<open>google/protobuf/wire_format_lite.h\<close>): tags, zig-zag, reading one
  field, a packed field and the repeats of a field from a \<open>CodedInputStream\<close>, writing fields to an array and to
  a \<open>CodedOutputStream\<close>, and their sizes. A signed integer is the word it is stored in, an enum its \<open>int\<close>, a \<open>float\<close> or
  \<open>double\<close> its object representation. A function that writes to \<open>target\<close> returns the bytes it writes; the
  result pointer is behind them. The templates over the message type take what they use of it as arguments.
\<close>

section \<open>Tags\<close>

datatype wire_type =
  WIRETYPE_VARINT | WIRETYPE_FIXED64 | WIRETYPE_LENGTH_DELIMITED | WIRETYPE_START_GROUP | WIRETYPE_END_GROUP | WIRETYPE_FIXED32

fun wire_type_value :: "wire_type \<Rightarrow> 32 word" where
  "wire_type_value WIRETYPE_VARINT = 0"
| "wire_type_value WIRETYPE_FIXED64 = 1"
| "wire_type_value WIRETYPE_LENGTH_DELIMITED = 2"
| "wire_type_value WIRETYPE_START_GROUP = 3"
| "wire_type_value WIRETYPE_END_GROUP = 4"
| "wire_type_value WIRETYPE_FIXED32 = 5"

datatype field_type =
  TYPE_DOUBLE | TYPE_FLOAT | TYPE_INT64 | TYPE_UINT64 | TYPE_INT32 | TYPE_FIXED64 | TYPE_FIXED32 | TYPE_BOOL | TYPE_STRING
| TYPE_GROUP | TYPE_MESSAGE | TYPE_BYTES | TYPE_UINT32 | TYPE_ENUM | TYPE_SFIXED32 | TYPE_SFIXED64 | TYPE_SINT32 | TYPE_SINT64

definition kTagTypeBits :: nat where
  "kTagTypeBits = 3"

definition kTagTypeMask :: "32 word" where
  "kTagTypeMask = push_bit kTagTypeBits 1 - 1"

definition MakeTag :: "int \<Rightarrow> wire_type \<Rightarrow> 32 word" where
  "MakeTag field_number type = push_bit 3 (word_of_int field_number) OR wire_type_value type"

text \<open>A \<open>WireType\<close> cast from an integer may have any value.\<close>

definition GetTagWireType :: "32 word \<Rightarrow> 32 word" where
  "GetTagWireType tag = tag AND kTagTypeMask"

definition GetTagFieldNumber :: "32 word \<Rightarrow> int" where
  "GetTagFieldNumber tag = sint (drop_bit kTagTypeBits tag)"

definition WireFormatLite_TagSize :: "int \<Rightarrow> field_type \<Rightarrow> nat" where
  "WireFormatLite_TagSize field_number type =
     (let result = VarintSize32 (push_bit kTagTypeBits (word_of_int field_number))
      in if type = TYPE_GROUP then result * 2 else result)"

section \<open>Representations\<close>

definition EncodeFloat :: "32 word \<Rightarrow> 32 word" where
  "EncodeFloat value = value"

definition DecodeFloat :: "32 word \<Rightarrow> 32 word" where
  "DecodeFloat value = value"

definition EncodeDouble :: "64 word \<Rightarrow> 64 word" where
  "EncodeDouble value = value"

definition DecodeDouble :: "64 word \<Rightarrow> 64 word" where
  "DecodeDouble value = value"

definition ZigZagDecode32 :: "32 word \<Rightarrow> 32 word" where
  "ZigZagDecode32 n = drop_bit 1 n XOR (NOT (n AND 1) + 1)"

definition ZigZagDecode64 :: "64 word \<Rightarrow> 64 word" where
  "ZigZagDecode64 n = drop_bit 1 n XOR (NOT (n AND 1) + 1)"

section \<open>Reading one field\<close>

text \<open>Reading a \<open>temp\<close> and converting it, or giving its failure back.\<close>

definition read_as :: "('a \<Rightarrow> 'b) \<Rightarrow> ('a option \<times> 's) run \<Rightarrow> ('b option \<times> 's) run" where
  "read_as f r = bind_run r (\<lambda>(temp, input). return_run (map_option f temp, input))"

definition ReadPrimitive_INT32 :: "'s zc_input \<Rightarrow> 's coded_input \<Rightarrow> (32 word option \<times> 's coded_input) run" where
  "ReadPrimitive_INT32 V input = read_as (\<lambda>temp. temp) (ReadVarint32 V input)"

definition ReadPrimitive_INT64 :: "'s zc_input \<Rightarrow> 's coded_input \<Rightarrow> (64 word option \<times> 's coded_input) run" where
  "ReadPrimitive_INT64 V input = read_as (\<lambda>temp. temp) (ReadVarint64 V input)"

definition ReadPrimitive_UINT32 :: "'s zc_input \<Rightarrow> 's coded_input \<Rightarrow> (32 word option \<times> 's coded_input) run" where
  "ReadPrimitive_UINT32 V input = ReadVarint32 V input"

definition ReadPrimitive_UINT64 :: "'s zc_input \<Rightarrow> 's coded_input \<Rightarrow> (64 word option \<times> 's coded_input) run" where
  "ReadPrimitive_UINT64 V input = ReadVarint64 V input"

definition ReadPrimitive_SINT32 :: "'s zc_input \<Rightarrow> 's coded_input \<Rightarrow> (32 word option \<times> 's coded_input) run" where
  "ReadPrimitive_SINT32 V input = read_as ZigZagDecode32 (ReadVarint32 V input)"

definition ReadPrimitive_SINT64 :: "'s zc_input \<Rightarrow> 's coded_input \<Rightarrow> (64 word option \<times> 's coded_input) run" where
  "ReadPrimitive_SINT64 V input = read_as ZigZagDecode64 (ReadVarint64 V input)"

definition ReadPrimitive_FIXED32 :: "'s zc_input \<Rightarrow> 's coded_input \<Rightarrow> (32 word option \<times> 's coded_input) run" where
  "ReadPrimitive_FIXED32 V input = ReadLittleEndian32 V input"

definition ReadPrimitive_FIXED64 :: "'s zc_input \<Rightarrow> 's coded_input \<Rightarrow> (64 word option \<times> 's coded_input) run" where
  "ReadPrimitive_FIXED64 V input = ReadLittleEndian64 V input"

definition ReadPrimitive_SFIXED32 :: "'s zc_input \<Rightarrow> 's coded_input \<Rightarrow> (32 word option \<times> 's coded_input) run" where
  "ReadPrimitive_SFIXED32 V input = read_as (\<lambda>temp. temp) (ReadLittleEndian32 V input)"

definition ReadPrimitive_SFIXED64 :: "'s zc_input \<Rightarrow> 's coded_input \<Rightarrow> (64 word option \<times> 's coded_input) run" where
  "ReadPrimitive_SFIXED64 V input = read_as (\<lambda>temp. temp) (ReadLittleEndian64 V input)"

definition ReadPrimitive_FLOAT :: "'s zc_input \<Rightarrow> 's coded_input \<Rightarrow> (32 word option \<times> 's coded_input) run" where
  "ReadPrimitive_FLOAT V input = read_as DecodeFloat (ReadLittleEndian32 V input)"

definition ReadPrimitive_DOUBLE :: "'s zc_input \<Rightarrow> 's coded_input \<Rightarrow> (64 word option \<times> 's coded_input) run" where
  "ReadPrimitive_DOUBLE V input = read_as DecodeDouble (ReadLittleEndian64 V input)"

definition ReadPrimitive_BOOL :: "'s zc_input \<Rightarrow> 's coded_input \<Rightarrow> (bool option \<times> 's coded_input) run" where
  "ReadPrimitive_BOOL V input = read_as (\<lambda>temp. temp \<noteq> 0) (ReadVarint64 V input)"

definition ReadPrimitive_ENUM :: "'s zc_input \<Rightarrow> 's coded_input \<Rightarrow> (32 word option \<times> 's coded_input) run" where
  "ReadPrimitive_ENUM V input = read_as (\<lambda>temp. temp) (ReadVarint32 V input)"

text \<open>The same from an array: the value and the rest of the buffer.\<close>

definition ReadPrimitiveFromArray_FIXED32 :: "byte list \<Rightarrow> 32 word \<times> byte list" where
  "ReadPrimitiveFromArray_FIXED32 buffer = (ReadLittleEndian32FromArray buffer, drop 4 buffer)"

definition ReadPrimitiveFromArray_FIXED64 :: "byte list \<Rightarrow> 64 word \<times> byte list" where
  "ReadPrimitiveFromArray_FIXED64 buffer = (ReadLittleEndian64FromArray buffer, drop 8 buffer)"

definition ReadPrimitiveFromArray_SFIXED32 :: "byte list \<Rightarrow> 32 word \<times> byte list" where
  "ReadPrimitiveFromArray_SFIXED32 buffer = (ReadLittleEndian32FromArray buffer, drop 4 buffer)"

definition ReadPrimitiveFromArray_SFIXED64 :: "byte list \<Rightarrow> 64 word \<times> byte list" where
  "ReadPrimitiveFromArray_SFIXED64 buffer = (ReadLittleEndian64FromArray buffer, drop 8 buffer)"

definition ReadPrimitiveFromArray_FLOAT :: "byte list \<Rightarrow> 32 word \<times> byte list" where
  "ReadPrimitiveFromArray_FLOAT buffer = (DecodeFloat (ReadLittleEndian32FromArray buffer), drop 4 buffer)"

definition ReadPrimitiveFromArray_DOUBLE :: "byte list \<Rightarrow> 64 word \<times> byte list" where
  "ReadPrimitiveFromArray_DOUBLE buffer = (DecodeDouble (ReadLittleEndian64FromArray buffer), drop 8 buffer)"

section \<open>Reading repeated fields\<close>

text \<open>
  The loop of \<open>ReadRepeatedPrimitive\<close>: further elements, each behind its tag, while there is room.
  \<open>read\<close> is \<open>ReadPrimitive\<close> of the type. All readers return whether they succeeded, the stream and the field.
\<close>

fun read_reserved ::
    "('s coded_input \<Rightarrow> ('v option \<times> 's coded_input) run) \<Rightarrow> 32 word \<Rightarrow> nat \<Rightarrow> 's coded_input \<Rightarrow> 'v repeated_field \<Rightarrow>
       (bool \<times> 's coded_input \<times> 'v repeated_field) run" where
  "read_reserved read tag 0 input values = return_run (True, input, values)"
| "read_reserved read tag (Suc already_reserved) input values =
     (let (matches, input) = ExpectTag tag input
      in if matches then
           bind_run (read input) (\<lambda>(v, input).
             case v of
               None \<Rightarrow> return_run (False, input, values)
             | Some value \<Rightarrow>
                 bind_run (Some (AddAlreadyReserved value values)) (\<lambda>values. read_reserved read tag already_reserved input values))
         else return_run (True, input, values))"

definition ReadRepeatedPrimitive ::
    "('s coded_input \<Rightarrow> ('v option \<times> 's coded_input) run) \<Rightarrow> 32 word \<Rightarrow> 's coded_input \<Rightarrow> 'v repeated_field \<Rightarrow>
       (bool \<times> 's coded_input \<times> 'v repeated_field) run" where
  "ReadRepeatedPrimitive read tag input values =
     bind_run (read input) (\<lambda>(v, input).
       case v of
         None \<Rightarrow> return_run (False, input, values)
       | Some value \<Rightarrow>
           bind_run (Some (rf_Add value values)) (\<lambda>values.
             read_reserved read tag (nat (Capacity values - rf_current_size values)) input values))"

text \<open>
  The loop over the buffer in \<open>ReadRepeatedFixedSizePrimitive\<close>, with at most \<open>n\<close> elements to read: how
  many were read, and the field.
\<close>

fun read_from_array ::
    "(byte list \<Rightarrow> 'v \<times> byte list) \<Rightarrow> 32 word \<Rightarrow> nat \<Rightarrow> byte list \<Rightarrow> 'v repeated_field \<Rightarrow> (nat \<times> 'v repeated_field) res" where
  "read_from_array from_array tag 0 buffer values = Inr (0, values)"
| "read_from_array from_array tag (Suc n) buffer values =
     (case ExpectTagFromArray buffer tag of
        None \<Rightarrow> Inr (0, values)
      | Some buffer \<Rightarrow>
          let (value, buffer) = from_array buffer
          in bind_res (AddAlreadyReserved value values) (\<lambda>values.
               bind_res (read_from_array from_array tag n buffer values) (\<lambda>(num_read, values). Inr (num_read + 1, values))))"

definition ReadRepeatedFixedSizePrimitive ::
    "'s zc_input \<Rightarrow> int \<Rightarrow> ('s coded_input \<Rightarrow> ('v option \<times> 's coded_input) run) \<Rightarrow> (byte list \<Rightarrow> 'v \<times> byte list) \<Rightarrow>
       int \<Rightarrow> 32 word \<Rightarrow> 's coded_input \<Rightarrow> 'v repeated_field \<Rightarrow> (bool \<times> 's coded_input \<times> 'v repeated_field) run" where
  "ReadRepeatedFixedSizePrimitive V sizeof read from_array tag_size tag input values =
     bind_run (read input) (\<lambda>(v, input).
       case v of
         None \<Rightarrow> return_run (False, input, values)
       | Some value \<Rightarrow>
           bind_run (Some (rf_Add value values)) (\<lambda>values.
             let buffer = GetDirectBufferPointerInline input;
                 size_of_buffer = BufferSize input
             in if size_of_buffer > 0 then
                  let per_value_size = tag_size + sizeof;
                      elements_available = min (Capacity values - rf_current_size values) (size_of_buffer div per_value_size)
                  in bind_run (Some (read_from_array from_array tag (nat elements_available) buffer values)) (\<lambda>(num_read, values).
                       let read_bytes = int num_read * per_value_size
                       in if read_bytes > 0 then
                            bind_run (Some (Skip V read_bytes input)) (\<lambda>(_, input). return_run (True, input, values))
                          else return_run (True, input, values))
                else return_run (True, input, values)))"

section \<open>Reading packed fields\<close>

text \<open>The loop of \<open>ReadPackedPrimitive\<close>, up to the limit.\<close>

partial_function (option) read_until_limit ::
    "('s coded_input \<Rightarrow> ('v option \<times> 's coded_input) run) \<Rightarrow> 's coded_input \<Rightarrow> 'v repeated_field \<Rightarrow>
       (bool \<times> 's coded_input \<times> 'v repeated_field) run" where
  "read_until_limit read input values =
     (if BytesUntilLimit input > 0 then
        bind_run (read input) (\<lambda>(v, input).
          case v of
            None \<Rightarrow> return_run (False, input, values)
          | Some value \<Rightarrow> bind_run (Some (rf_Add value values)) (\<lambda>values. read_until_limit read input values))
      else return_run (True, input, values))"

definition ReadPackedPrimitive ::
    "'s zc_input \<Rightarrow> ('s coded_input \<Rightarrow> ('v option \<times> 's coded_input) run) \<Rightarrow> 's coded_input \<Rightarrow> 'v repeated_field \<Rightarrow>
       (bool \<times> 's coded_input \<times> 'v repeated_field) run" where
  "ReadPackedPrimitive V read input values =
     bind_run (ReadVarintSizeAsInt V input) (\<lambda>(l, input).
       case l of
         None \<Rightarrow> return_run (False, input, values)
       | Some length_of \<Rightarrow>
           let (limit, input) = PushLimit length_of input
           in bind_run (read_until_limit read input values) (\<lambda>(ok, input, values).
                if \<not> ok then return_run (False, input, values)
                else return_run (True, PopLimit limit input, values)))"

text \<open>The slow path of \<open>ReadPackedFixedSizePrimitive\<close>.\<close>

fun read_entries ::
    "('s coded_input \<Rightarrow> ('v option \<times> 's coded_input) run) \<Rightarrow> nat \<Rightarrow> 's coded_input \<Rightarrow> 'v repeated_field \<Rightarrow>
       (bool \<times> 's coded_input \<times> 'v repeated_field) run" where
  "read_entries read 0 input values = return_run (True, input, values)"
| "read_entries read (Suc n) input values =
     bind_run (read input) (\<lambda>(v, input).
       case v of
         None \<Rightarrow> return_run (False, input, values)
       | Some value \<Rightarrow> bind_run (Some (rf_Add value values)) (\<lambda>values. read_entries read n input values))"

text \<open>
  Bytes stored over the elements from \<open>start\<close> on, on a little-endian machine: \<open>bytes_of\<close> is the object
  representation of an element of \<open>sizeof\<close> bytes, \<open>of_bytes\<close> the element with a representation.
\<close>

definition store_bytes ::
    "(byte list \<Rightarrow> 'v) \<Rightarrow> ('v \<Rightarrow> byte list) \<Rightarrow> nat \<Rightarrow> nat \<Rightarrow> byte list \<Rightarrow> 'v list \<Rightarrow> 'v list" where
  "store_bytes of_bytes bytes_of sizeof start bs mem =
     (let bytes = bs @ drop (length bs) (concat (map bytes_of (drop start mem)))
      in take start mem @ map (\<lambda>i. of_bytes (take sizeof (drop (i * sizeof) bytes))) [0..<length mem - start])"

text \<open>\<open>std::min\<close> of the two limits, or the only one.\<close>

definition packed_bytes_limit :: "'s coded_input \<Rightarrow> int" where
  "packed_bytes_limit input =
     (let bytes_limit = BytesUntilTotalBytesLimit input
      in if bytes_limit = - 1 then BytesUntilLimit input else min bytes_limit (BytesUntilLimit input))"

definition ReadPackedFixedSizePrimitive ::
    "'s zc_input \<Rightarrow> int \<Rightarrow> (byte list \<Rightarrow> 'v) \<Rightarrow> ('v \<Rightarrow> byte list) \<Rightarrow> 'v \<Rightarrow> ('s coded_input \<Rightarrow> ('v option \<times> 's coded_input) run) \<Rightarrow>
       's coded_input \<Rightarrow> 'v repeated_field \<Rightarrow> (bool \<times> 's coded_input \<times> 'v repeated_field) run" where
  "ReadPackedFixedSizePrimitive V sizeof of_bytes bytes_of zero read input values =
     bind_run (ReadVarintSizeAsInt V input) (\<lambda>(l, input).
       case l of
         None \<Rightarrow> return_run (False, input, values)
       | Some length_of \<Rightarrow>
           let old_entries = rf_current_size values;
               new_entries = length_of div sizeof;
               new_bytes = new_entries * sizeof
           in if new_bytes \<noteq> length_of then return_run (False, input, values)
              else if packed_bytes_limit input \<ge> new_bytes then
                bind_run (Some (rf_Resize (old_entries + new_entries) zero values)) (\<lambda>values.
                bind_run (ReadRaw V new_bytes input) (\<lambda>(ok, bytes, input).
                  let values = values\<lparr>rf_memory := store_bytes of_bytes bytes_of (nat sizeof) (nat old_entries) bytes (rf_memory values)\<rparr>
                  in if \<not> ok then return_run (False, input, Truncate old_entries values)
                     else return_run (True, input, values)))
              else read_entries read (nat new_entries) input values)"

section \<open>Reading groups and messages\<close>

definition ReadGroup ::
    "('m \<Rightarrow> 's coded_input \<Rightarrow> (bool \<times> 'm \<times> 's coded_input) run) \<Rightarrow> int \<Rightarrow> 's coded_input \<Rightarrow> 'm \<Rightarrow> (bool \<times> 'm \<times> 's coded_input) run" where
  "ReadGroup merge field_number input value =
     (let (deep_enough, input) = IncrementRecursionDepth input
      in if \<not> deep_enough then return_run (False, value, input)
         else
           bind_run (merge value input) (\<lambda>(ok, value, input).
             if \<not> ok then return_run (False, value, input)
             else
               bind_run (Some (UnsafeDecrementRecursionDepth input)) (\<lambda>input.
                 if \<not> LastTagWas (MakeTag field_number WIRETYPE_END_GROUP) input then return_run (False, value, input)
                 else return_run (True, value, input))))"

definition ReadMessage ::
    "'s zc_input \<Rightarrow> ('m \<Rightarrow> 's coded_input \<Rightarrow> (bool \<times> 'm \<times> 's coded_input) run) \<Rightarrow> 's coded_input \<Rightarrow> 'm \<Rightarrow>
       (bool \<times> 'm \<times> 's coded_input) run" where
  "ReadMessage V merge input value =
     bind_run (ReadVarintSizeAsInt V input) (\<lambda>(l, input).
       case l of
         None \<Rightarrow> return_run (False, value, input)
       | Some length_of \<Rightarrow>
           let ((limit, budget), input) = IncrementRecursionDepthAndPushLimit length_of input
           in if budget < 0 then return_run (False, value, input)
              else
                bind_run (merge value input) (\<lambda>(ok, value, input).
                  if \<not> ok then return_run (False, value, input)
                  else let (consumed, input) = DecrementRecursionDepthAndPopLimit limit input in return_run (consumed, value, input)))"

section \<open>Writing to a stream\<close>

definition WireFormatLite_WriteTag :: "'s zc_output \<Rightarrow> int \<Rightarrow> wire_type \<Rightarrow> 's coded_output \<Rightarrow> 's coded_output run" where
  "WireFormatLite_WriteTag V field_number type output = WriteTag V (MakeTag field_number type) output"

definition WriteInt32NoTag :: "'s zc_output \<Rightarrow> 32 word \<Rightarrow> 's coded_output \<Rightarrow> 's coded_output run" where
  "WriteInt32NoTag V value output = WriteVarint32SignExtended V value output"

definition WriteInt64NoTag :: "'s zc_output \<Rightarrow> 64 word \<Rightarrow> 's coded_output \<Rightarrow> 's coded_output run" where
  "WriteInt64NoTag V value output = WriteVarint64 V value output"

definition WriteUInt32NoTag :: "'s zc_output \<Rightarrow> 32 word \<Rightarrow> 's coded_output \<Rightarrow> 's coded_output run" where
  "WriteUInt32NoTag V value output = WriteVarint32 V value output"

definition WriteUInt64NoTag :: "'s zc_output \<Rightarrow> 64 word \<Rightarrow> 's coded_output \<Rightarrow> 's coded_output run" where
  "WriteUInt64NoTag V value output = WriteVarint64 V value output"

definition WriteSInt32NoTag :: "'s zc_output \<Rightarrow> 32 word \<Rightarrow> 's coded_output \<Rightarrow> 's coded_output run" where
  "WriteSInt32NoTag V value output = WriteVarint32 V (ZigZagEncode32 value) output"

definition WriteSInt64NoTag :: "'s zc_output \<Rightarrow> 64 word \<Rightarrow> 's coded_output \<Rightarrow> 's coded_output run" where
  "WriteSInt64NoTag V value output = WriteVarint64 V (ZigZagEncode64 value) output"

definition WriteFixed32NoTag :: "'s zc_output \<Rightarrow> 32 word \<Rightarrow> 's coded_output \<Rightarrow> 's coded_output run" where
  "WriteFixed32NoTag V value output = WriteLittleEndian32 V value output"

definition WriteFixed64NoTag :: "'s zc_output \<Rightarrow> 64 word \<Rightarrow> 's coded_output \<Rightarrow> 's coded_output run" where
  "WriteFixed64NoTag V value output = WriteLittleEndian64 V value output"

definition WriteSFixed32NoTag :: "'s zc_output \<Rightarrow> 32 word \<Rightarrow> 's coded_output \<Rightarrow> 's coded_output run" where
  "WriteSFixed32NoTag V value output = WriteLittleEndian32 V value output"

definition WriteSFixed64NoTag :: "'s zc_output \<Rightarrow> 64 word \<Rightarrow> 's coded_output \<Rightarrow> 's coded_output run" where
  "WriteSFixed64NoTag V value output = WriteLittleEndian64 V value output"

definition WriteFloatNoTag :: "'s zc_output \<Rightarrow> 32 word \<Rightarrow> 's coded_output \<Rightarrow> 's coded_output run" where
  "WriteFloatNoTag V value output = WriteLittleEndian32 V (EncodeFloat value) output"

definition WriteDoubleNoTag :: "'s zc_output \<Rightarrow> 64 word \<Rightarrow> 's coded_output \<Rightarrow> 's coded_output run" where
  "WriteDoubleNoTag V value output = WriteLittleEndian64 V (EncodeDouble value) output"

definition WriteBoolNoTag :: "'s zc_output \<Rightarrow> bool \<Rightarrow> 's coded_output \<Rightarrow> 's coded_output run" where
  "WriteBoolNoTag V value output = WriteVarint32 V (if value then 1 else 0) output"

definition WriteEnumNoTag :: "'s zc_output \<Rightarrow> 32 word \<Rightarrow> 's coded_output \<Rightarrow> 's coded_output run" where
  "WriteEnumNoTag V value output = WriteVarint32SignExtended V value output"

text \<open>Groups and messages: \<open>serialize\<close> is \<open>SerializeWithCachedSizes\<close>.\<close>

definition WriteGroupNoVirtual ::
    "'s zc_output \<Rightarrow> ('m \<Rightarrow> 's coded_output \<Rightarrow> 's coded_output run) \<Rightarrow> int \<Rightarrow> 'm \<Rightarrow> 's coded_output \<Rightarrow> 's coded_output run" where
  "WriteGroupNoVirtual V serialize field_number value output =
     bind_run (WireFormatLite_WriteTag V field_number WIRETYPE_START_GROUP output) (\<lambda>output.
     bind_run (serialize value output) (\<lambda>output.
     WireFormatLite_WriteTag V field_number WIRETYPE_END_GROUP output))"

definition WriteMessageNoVirtual ::
    "'s zc_output \<Rightarrow> ('m \<Rightarrow> int) \<Rightarrow> ('m \<Rightarrow> 's coded_output \<Rightarrow> 's coded_output run) \<Rightarrow> int \<Rightarrow> 'm \<Rightarrow>
       's coded_output \<Rightarrow> 's coded_output run" where
  "WriteMessageNoVirtual V GetCachedSize serialize field_number value output =
     bind_run (WireFormatLite_WriteTag V field_number WIRETYPE_LENGTH_DELIMITED output) (\<lambda>output.
     bind_run (WriteVarint32 V (word_of_int (GetCachedSize value)) output) (\<lambda>output.
     serialize value output))"

section \<open>Writing to an array\<close>

definition WireFormatLite_WriteTagToArray :: "int \<Rightarrow> wire_type \<Rightarrow> byte list" where
  "WireFormatLite_WriteTagToArray field_number type = WriteTagToArray (MakeTag field_number type)"

subsection \<open>Values\<close>

definition WriteInt32NoTagToArray :: "32 word \<Rightarrow> byte list" where
  "WriteInt32NoTagToArray value = WriteVarint32SignExtendedToArray value"

definition WriteInt64NoTagToArray :: "64 word \<Rightarrow> byte list" where
  "WriteInt64NoTagToArray value = WriteVarint64ToArray value"

definition WriteUInt32NoTagToArray :: "32 word \<Rightarrow> byte list" where
  "WriteUInt32NoTagToArray value = WriteVarint32ToArray value"

definition WriteUInt64NoTagToArray :: "64 word \<Rightarrow> byte list" where
  "WriteUInt64NoTagToArray value = WriteVarint64ToArray value"

definition WriteSInt32NoTagToArray :: "32 word \<Rightarrow> byte list" where
  "WriteSInt32NoTagToArray value = WriteVarint32ToArray (ZigZagEncode32 value)"

definition WriteSInt64NoTagToArray :: "64 word \<Rightarrow> byte list" where
  "WriteSInt64NoTagToArray value = WriteVarint64ToArray (ZigZagEncode64 value)"

definition WriteFixed32NoTagToArray :: "32 word \<Rightarrow> byte list" where
  "WriteFixed32NoTagToArray value = WriteLittleEndian32ToArray value"

definition WriteFixed64NoTagToArray :: "64 word \<Rightarrow> byte list" where
  "WriteFixed64NoTagToArray value = WriteLittleEndian64ToArray value"

definition WriteSFixed32NoTagToArray :: "32 word \<Rightarrow> byte list" where
  "WriteSFixed32NoTagToArray value = WriteLittleEndian32ToArray value"

definition WriteSFixed64NoTagToArray :: "64 word \<Rightarrow> byte list" where
  "WriteSFixed64NoTagToArray value = WriteLittleEndian64ToArray value"

definition WriteFloatNoTagToArray :: "32 word \<Rightarrow> byte list" where
  "WriteFloatNoTagToArray value = WriteLittleEndian32ToArray (EncodeFloat value)"

definition WriteDoubleNoTagToArray :: "64 word \<Rightarrow> byte list" where
  "WriteDoubleNoTagToArray value = WriteLittleEndian64ToArray (EncodeDouble value)"

definition WriteBoolNoTagToArray :: "bool \<Rightarrow> byte list" where
  "WriteBoolNoTagToArray value = WriteVarint32ToArray (if value then 1 else 0)"

definition WriteEnumNoTagToArray :: "32 word \<Rightarrow> byte list" where
  "WriteEnumNoTagToArray value = WriteVarint32SignExtendedToArray value"

text \<open>The loop over the array of a repeated field, from element \<open>i\<close> on: \<open>do ... while (++i < n)\<close>.\<close>

fun write_elements :: "('v \<Rightarrow> byte list) \<Rightarrow> 'v repeated_field \<Rightarrow> int \<Rightarrow> nat \<Rightarrow> byte list res" where
  "write_elements Writer value i 0 = Inr []"
| "write_elements Writer value i (Suc n) =
     bind_res (rf_Get i value) (\<lambda>v. bind_res (write_elements Writer value (i + 1) n) (\<lambda>bytes. Inr (Writer v @ bytes)))"

definition WritePrimitiveNoTagToArray :: "'v repeated_field \<Rightarrow> ('v \<Rightarrow> byte list) \<Rightarrow> byte list res" where
  "WritePrimitiveNoTagToArray value Writer = write_elements Writer value 0 (max 1 (nat (rf_current_size value)))"

text \<open>\<open>memcpy\<close> of the elements on a little-endian machine: \<open>bytes_of\<close> is the object representation of an element.\<close>

definition WriteFixedNoTagToArray :: "('v \<Rightarrow> byte list) \<Rightarrow> 'v repeated_field \<Rightarrow> ('v \<Rightarrow> byte list) \<Rightarrow> byte list res" where
  "WriteFixedNoTagToArray bytes_of value Writer =
     (if rf_current_size value \<le> Capacity value
      then Inr (concat (map bytes_of (take (nat (rf_current_size value)) (rf_memory value)))) else Inl Out_of_bounds)"

text \<open>The little-endian object representations of the fixed-size types.\<close>

definition object_bytes :: "nat \<Rightarrow> 'a::len word \<Rightarrow> byte list" where
  "object_bytes n v = map (\<lambda>i. ucast (drop_bit (8 * i) v)) [0..<n]"

definition WriteInt32NoTagToArray_all :: "(32 word) repeated_field \<Rightarrow> byte list res" where
  "WriteInt32NoTagToArray_all value = WritePrimitiveNoTagToArray value WriteInt32NoTagToArray"

definition WriteInt64NoTagToArray_all :: "(64 word) repeated_field \<Rightarrow> byte list res" where
  "WriteInt64NoTagToArray_all value = WritePrimitiveNoTagToArray value WriteInt64NoTagToArray"

definition WriteUInt32NoTagToArray_all :: "(32 word) repeated_field \<Rightarrow> byte list res" where
  "WriteUInt32NoTagToArray_all value = WritePrimitiveNoTagToArray value WriteUInt32NoTagToArray"

definition WriteUInt64NoTagToArray_all :: "(64 word) repeated_field \<Rightarrow> byte list res" where
  "WriteUInt64NoTagToArray_all value = WritePrimitiveNoTagToArray value WriteUInt64NoTagToArray"

definition WriteSInt32NoTagToArray_all :: "(32 word) repeated_field \<Rightarrow> byte list res" where
  "WriteSInt32NoTagToArray_all value = WritePrimitiveNoTagToArray value WriteSInt32NoTagToArray"

definition WriteSInt64NoTagToArray_all :: "(64 word) repeated_field \<Rightarrow> byte list res" where
  "WriteSInt64NoTagToArray_all value = WritePrimitiveNoTagToArray value WriteSInt64NoTagToArray"

definition WriteFixed32NoTagToArray_all :: "(32 word) repeated_field \<Rightarrow> byte list res" where
  "WriteFixed32NoTagToArray_all value = WriteFixedNoTagToArray (object_bytes 4) value WriteFixed32NoTagToArray"

definition WriteFixed64NoTagToArray_all :: "(64 word) repeated_field \<Rightarrow> byte list res" where
  "WriteFixed64NoTagToArray_all value = WriteFixedNoTagToArray (object_bytes 8) value WriteFixed64NoTagToArray"

definition WriteSFixed32NoTagToArray_all :: "(32 word) repeated_field \<Rightarrow> byte list res" where
  "WriteSFixed32NoTagToArray_all value = WriteFixedNoTagToArray (object_bytes 4) value WriteSFixed32NoTagToArray"

definition WriteSFixed64NoTagToArray_all :: "(64 word) repeated_field \<Rightarrow> byte list res" where
  "WriteSFixed64NoTagToArray_all value = WriteFixedNoTagToArray (object_bytes 8) value WriteSFixed64NoTagToArray"

definition WriteFloatNoTagToArray_all :: "(32 word) repeated_field \<Rightarrow> byte list res" where
  "WriteFloatNoTagToArray_all value = WriteFixedNoTagToArray (object_bytes 4) value WriteFloatNoTagToArray"

definition WriteDoubleNoTagToArray_all :: "(64 word) repeated_field \<Rightarrow> byte list res" where
  "WriteDoubleNoTagToArray_all value = WriteFixedNoTagToArray (object_bytes 8) value WriteDoubleNoTagToArray"

definition WriteBoolNoTagToArray_all :: "bool repeated_field \<Rightarrow> byte list res" where
  "WriteBoolNoTagToArray_all value = WritePrimitiveNoTagToArray value WriteBoolNoTagToArray"

definition WriteEnumNoTagToArray_all :: "(32 word) repeated_field \<Rightarrow> byte list res" where
  "WriteEnumNoTagToArray_all value = WritePrimitiveNoTagToArray value WriteEnumNoTagToArray"

subsection \<open>Fields\<close>

definition WriteInt32ToArray :: "int \<Rightarrow> 32 word \<Rightarrow> byte list" where
  "WriteInt32ToArray field_number value = WireFormatLite_WriteTagToArray field_number WIRETYPE_VARINT @ WriteInt32NoTagToArray value"

definition WriteInt64ToArray :: "int \<Rightarrow> 64 word \<Rightarrow> byte list" where
  "WriteInt64ToArray field_number value = WireFormatLite_WriteTagToArray field_number WIRETYPE_VARINT @ WriteInt64NoTagToArray value"

definition WriteUInt32ToArray :: "int \<Rightarrow> 32 word \<Rightarrow> byte list" where
  "WriteUInt32ToArray field_number value = WireFormatLite_WriteTagToArray field_number WIRETYPE_VARINT @ WriteUInt32NoTagToArray value"

definition WriteUInt64ToArray :: "int \<Rightarrow> 64 word \<Rightarrow> byte list" where
  "WriteUInt64ToArray field_number value = WireFormatLite_WriteTagToArray field_number WIRETYPE_VARINT @ WriteUInt64NoTagToArray value"

definition WriteSInt32ToArray :: "int \<Rightarrow> 32 word \<Rightarrow> byte list" where
  "WriteSInt32ToArray field_number value = WireFormatLite_WriteTagToArray field_number WIRETYPE_VARINT @ WriteSInt32NoTagToArray value"

definition WriteSInt64ToArray :: "int \<Rightarrow> 64 word \<Rightarrow> byte list" where
  "WriteSInt64ToArray field_number value = WireFormatLite_WriteTagToArray field_number WIRETYPE_VARINT @ WriteSInt64NoTagToArray value"

definition WriteFixed32ToArray :: "int \<Rightarrow> 32 word \<Rightarrow> byte list" where
  "WriteFixed32ToArray field_number value = WireFormatLite_WriteTagToArray field_number WIRETYPE_FIXED32 @ WriteFixed32NoTagToArray value"

definition WriteFixed64ToArray :: "int \<Rightarrow> 64 word \<Rightarrow> byte list" where
  "WriteFixed64ToArray field_number value = WireFormatLite_WriteTagToArray field_number WIRETYPE_FIXED64 @ WriteFixed64NoTagToArray value"

definition WriteSFixed32ToArray :: "int \<Rightarrow> 32 word \<Rightarrow> byte list" where
  "WriteSFixed32ToArray field_number value = WireFormatLite_WriteTagToArray field_number WIRETYPE_FIXED32 @ WriteSFixed32NoTagToArray value"

definition WriteSFixed64ToArray :: "int \<Rightarrow> 64 word \<Rightarrow> byte list" where
  "WriteSFixed64ToArray field_number value = WireFormatLite_WriteTagToArray field_number WIRETYPE_FIXED64 @ WriteSFixed64NoTagToArray value"

definition WriteFloatToArray :: "int \<Rightarrow> 32 word \<Rightarrow> byte list" where
  "WriteFloatToArray field_number value = WireFormatLite_WriteTagToArray field_number WIRETYPE_FIXED32 @ WriteFloatNoTagToArray value"

definition WriteDoubleToArray :: "int \<Rightarrow> 64 word \<Rightarrow> byte list" where
  "WriteDoubleToArray field_number value = WireFormatLite_WriteTagToArray field_number WIRETYPE_FIXED64 @ WriteDoubleNoTagToArray value"

definition WriteBoolToArray :: "int \<Rightarrow> bool \<Rightarrow> byte list" where
  "WriteBoolToArray field_number value = WireFormatLite_WriteTagToArray field_number WIRETYPE_VARINT @ WriteBoolNoTagToArray value"

definition WriteEnumToArray :: "int \<Rightarrow> 32 word \<Rightarrow> byte list" where
  "WriteEnumToArray field_number value = WireFormatLite_WriteTagToArray field_number WIRETYPE_VARINT @ WriteEnumNoTagToArray value"

definition WritePrimitiveToArray :: "int \<Rightarrow> 'v repeated_field \<Rightarrow> (int \<Rightarrow> 'v \<Rightarrow> byte list) \<Rightarrow> byte list res" where
  "WritePrimitiveToArray field_number value Writer =
     (if rf_current_size value = 0 then Inr []
      else write_elements (Writer field_number) value 0 (max 1 (nat (rf_current_size value))))"

definition WriteInt32ToArray_all :: "int \<Rightarrow> (32 word) repeated_field \<Rightarrow> byte list res" where
  "WriteInt32ToArray_all field_number value = WritePrimitiveToArray field_number value WriteInt32ToArray"

definition WriteInt64ToArray_all :: "int \<Rightarrow> (64 word) repeated_field \<Rightarrow> byte list res" where
  "WriteInt64ToArray_all field_number value = WritePrimitiveToArray field_number value WriteInt64ToArray"

definition WriteUInt32ToArray_all :: "int \<Rightarrow> (32 word) repeated_field \<Rightarrow> byte list res" where
  "WriteUInt32ToArray_all field_number value = WritePrimitiveToArray field_number value WriteUInt32ToArray"

definition WriteUInt64ToArray_all :: "int \<Rightarrow> (64 word) repeated_field \<Rightarrow> byte list res" where
  "WriteUInt64ToArray_all field_number value = WritePrimitiveToArray field_number value WriteUInt64ToArray"

definition WriteSInt32ToArray_all :: "int \<Rightarrow> (32 word) repeated_field \<Rightarrow> byte list res" where
  "WriteSInt32ToArray_all field_number value = WritePrimitiveToArray field_number value WriteSInt32ToArray"

definition WriteSInt64ToArray_all :: "int \<Rightarrow> (64 word) repeated_field \<Rightarrow> byte list res" where
  "WriteSInt64ToArray_all field_number value = WritePrimitiveToArray field_number value WriteSInt64ToArray"

definition WriteFixed32ToArray_all :: "int \<Rightarrow> (32 word) repeated_field \<Rightarrow> byte list res" where
  "WriteFixed32ToArray_all field_number value = WritePrimitiveToArray field_number value WriteFixed32ToArray"

definition WriteFixed64ToArray_all :: "int \<Rightarrow> (64 word) repeated_field \<Rightarrow> byte list res" where
  "WriteFixed64ToArray_all field_number value = WritePrimitiveToArray field_number value WriteFixed64ToArray"

definition WriteSFixed32ToArray_all :: "int \<Rightarrow> (32 word) repeated_field \<Rightarrow> byte list res" where
  "WriteSFixed32ToArray_all field_number value = WritePrimitiveToArray field_number value WriteSFixed32ToArray"

definition WriteSFixed64ToArray_all :: "int \<Rightarrow> (64 word) repeated_field \<Rightarrow> byte list res" where
  "WriteSFixed64ToArray_all field_number value = WritePrimitiveToArray field_number value WriteSFixed64ToArray"

definition WriteFloatToArray_all :: "int \<Rightarrow> (32 word) repeated_field \<Rightarrow> byte list res" where
  "WriteFloatToArray_all field_number value = WritePrimitiveToArray field_number value WriteFloatToArray"

definition WriteDoubleToArray_all :: "int \<Rightarrow> (64 word) repeated_field \<Rightarrow> byte list res" where
  "WriteDoubleToArray_all field_number value = WritePrimitiveToArray field_number value WriteDoubleToArray"

definition WriteBoolToArray_all :: "int \<Rightarrow> bool repeated_field \<Rightarrow> byte list res" where
  "WriteBoolToArray_all field_number value = WritePrimitiveToArray field_number value WriteBoolToArray"

definition WriteEnumToArray_all :: "int \<Rightarrow> (32 word) repeated_field \<Rightarrow> byte list res" where
  "WriteEnumToArray_all field_number value = WritePrimitiveToArray field_number value WriteEnumToArray"

definition WireFormatLite_WriteStringToArray :: "int \<Rightarrow> byte list \<Rightarrow> byte list" where
  "WireFormatLite_WriteStringToArray field_number value =
     WireFormatLite_WriteTagToArray field_number WIRETYPE_LENGTH_DELIMITED @ WriteStringWithSizeToArray value"

definition WriteBytesToArray :: "int \<Rightarrow> byte list \<Rightarrow> byte list" where
  "WriteBytesToArray field_number value =
     WireFormatLite_WriteTagToArray field_number WIRETYPE_LENGTH_DELIMITED @ WriteStringWithSizeToArray value"

text \<open>Groups and messages: \<open>serialize\<close> is \<open>SerializeWithCachedSizesToArray\<close>.\<close>

definition InternalWriteGroupNoVirtualToArray :: "('m \<Rightarrow> byte list) \<Rightarrow> int \<Rightarrow> 'm \<Rightarrow> byte list" where
  "InternalWriteGroupNoVirtualToArray serialize field_number value =
     WireFormatLite_WriteTagToArray field_number WIRETYPE_START_GROUP @ serialize value @
     WireFormatLite_WriteTagToArray field_number WIRETYPE_END_GROUP"

definition InternalWriteMessageNoVirtualToArray :: "('m \<Rightarrow> int) \<Rightarrow> ('m \<Rightarrow> byte list) \<Rightarrow> int \<Rightarrow> 'm \<Rightarrow> byte list" where
  "InternalWriteMessageNoVirtualToArray GetCachedSize serialize field_number value =
     WireFormatLite_WriteTagToArray field_number WIRETYPE_LENGTH_DELIMITED @
     WriteVarint32ToArray (word_of_int (GetCachedSize value)) @ serialize value"

section \<open>Sizes\<close>

definition Int32Size :: "32 word \<Rightarrow> nat" where
  "Int32Size value = VarintSize32SignExtended value"

definition Int64Size :: "64 word \<Rightarrow> nat" where
  "Int64Size value = VarintSize64 value"

definition UInt32Size :: "32 word \<Rightarrow> nat" where
  "UInt32Size value = VarintSize32 value"

definition UInt64Size :: "64 word \<Rightarrow> nat" where
  "UInt64Size value = VarintSize64 value"

definition SInt32Size :: "32 word \<Rightarrow> nat" where
  "SInt32Size value = VarintSize32 (ZigZagEncode32 value)"

definition SInt64Size :: "64 word \<Rightarrow> nat" where
  "SInt64Size value = VarintSize64 (ZigZagEncode64 value)"

definition EnumSize :: "32 word \<Rightarrow> nat" where
  "EnumSize value = VarintSize32SignExtended value"

definition Int32SizePlusOne :: "32 word \<Rightarrow> nat" where
  "Int32SizePlusOne value = VarintSize32SignExtendedPlusOne value"

definition Int64SizePlusOne :: "64 word \<Rightarrow> nat" where
  "Int64SizePlusOne value = VarintSize64PlusOne value"

definition UInt32SizePlusOne :: "32 word \<Rightarrow> nat" where
  "UInt32SizePlusOne value = VarintSize32PlusOne value"

definition UInt64SizePlusOne :: "64 word \<Rightarrow> nat" where
  "UInt64SizePlusOne value = VarintSize64PlusOne value"

definition SInt32SizePlusOne :: "32 word \<Rightarrow> nat" where
  "SInt32SizePlusOne value = VarintSize32PlusOne (ZigZagEncode32 value)"

definition SInt64SizePlusOne :: "64 word \<Rightarrow> nat" where
  "SInt64SizePlusOne value = VarintSize64PlusOne (ZigZagEncode64 value)"

definition EnumSizePlusOne :: "32 word \<Rightarrow> nat" where
  "EnumSizePlusOne value = VarintSize32SignExtendedPlusOne value"

definition kFixed32Size :: nat where
  "kFixed32Size = 4"

definition kFixed64Size :: nat where
  "kFixed64Size = 8"

definition kBoolSize :: nat where
  "kBoolSize = 1"

text \<open>The length is cut down to 32 bits before the size of its varint is taken.\<close>

definition LengthDelimitedSize :: "nat \<Rightarrow> nat" where
  "LengthDelimitedSize length_of = length_of + VarintSize32 (word_of_nat length_of)"

definition StringSize :: "byte list \<Rightarrow> nat" where
  "StringSize value = LengthDelimitedSize (length value)"

definition BytesSize :: "byte list \<Rightarrow> nat" where
  "BytesSize value = LengthDelimitedSize (length value)"

definition GroupSize :: "('m \<Rightarrow> nat) \<Rightarrow> 'm \<Rightarrow> nat" where
  "GroupSize ByteSizeLong value = ByteSizeLong value"

definition MessageSize :: "('m \<Rightarrow> nat) \<Rightarrow> 'm \<Rightarrow> nat" where
  "MessageSize ByteSizeLong value = LengthDelimitedSize (ByteSizeLong value)"

end
