(* ===== verification/Coded_Input_Correct.thy ===== *)
theory Coded_Input_Correct
  imports Coded_Input File_Stream
begin

text \<open>
  Reading through the buffer is reading a list of bytes: over any stream that keeps the contract of
  \<open>ZeroCopyInputStream\<close>, every read operation of \<open>CodedInputStream\<close> is a function of the bytes that are
  readable below the closest limit, whatever pieces they come in, and it returns. The lemmas
  are proved once for the contract and used for \<open>FileInputStream\<close>, the stream of the program.
\<close>

section \<open>The bytes that can be read\<close>

definition closest_limit :: "'s coded_input \<Rightarrow> int" where
  "closest_limit s = min (current_limit s) (total_bytes_limit s)"

text \<open>What is still to come, and the part of it below the closest limit.\<close>

definition pending :: "('s \<Rightarrow> byte list) \<Rightarrow> 's coded_input \<Rightarrow> byte list" where
  "pending rest s = ci_data s @ rest (ci_input s)"

definition readable :: "('s \<Rightarrow> byte list) \<Rightarrow> 's coded_input \<Rightarrow> byte list" where
  "readable rest s = take (nat (closest_limit s - CurrentPosition s)) (pending rest s)"

text \<open>
  The bookkeeping of the buffer. The last conjunct keeps what the destructor needs: the current
  piece is the last one \<open>Next\<close> returned.
\<close>

definition coded_ok :: "('s \<Rightarrow> bool) \<Rightarrow> 's zc_input \<Rightarrow> 's coded_input \<Rightarrow> bool" where
  "coded_ok okI V s \<longleftrightarrow> okI (ci_input s) \<and>
     0 \<le> ci_size s \<and> 0 \<le> overflow_bytes s \<and>
     int (length (ci_data s)) = ci_size s + buffer_size_after_limit s + overflow_bytes s \<and>
     total_bytes_read s \<le> INT_MAX \<and> (0 < overflow_bytes s \<longrightarrow> total_bytes_read s = INT_MAX) \<and>
     0 \<le> CurrentPosition s \<and> CurrentPosition s \<le> closest_limit s \<and>
     current_limit s \<le> INT_MAX \<and> total_bytes_limit s \<le> INT_MAX \<and>
     buffer_size_after_limit s = max 0 (total_bytes_read s - closest_limit s) \<and>
     (ci_data s \<noteq> [] \<longrightarrow> (\<exists>i d p. okI i \<and> zc_Next V i = Inr (Some d, ci_input s) \<and> d = p @ ci_data s))"

definition coded_frame :: "'s coded_input \<Rightarrow> 's coded_input \<Rightarrow> bool" where
  "coded_frame s t \<longleftrightarrow> current_limit t = current_limit s \<and> total_bytes_limit t = total_bytes_limit s \<and>
     legitimate_message_end t = legitimate_message_end s \<and> last_tag t = last_tag s \<and>
     recursion_budget t = recursion_budget s \<and> recursion_limit t = recursion_limit s"

text \<open>From \<open>s\<close> to \<open>t\<close> the first \<open>k\<close> readable bytes are consumed and nothing else changes.\<close>

definition consumes ::
    "('s \<Rightarrow> bool) \<Rightarrow> ('s \<Rightarrow> byte list) \<Rightarrow> 's zc_input \<Rightarrow> nat \<Rightarrow> 's coded_input \<Rightarrow> 's coded_input \<Rightarrow> bool" where
  "consumes okI rest V k s t \<longleftrightarrow> coded_ok okI V t \<and> k \<le> length (readable rest s) \<and>
     pending rest t = drop k (pending rest s) \<and> CurrentPosition t = CurrentPosition s + int k \<and> coded_frame s t"

text \<open>The flags that only the parser looks at.\<close>

lemma flag_updates [simp]:
  "closest_limit (s\<lparr>legitimate_message_end := b\<rparr>) = closest_limit s" "closest_limit (s\<lparr>last_tag := l\<rparr>) = closest_limit s"
  "CurrentPosition (s\<lparr>legitimate_message_end := b\<rparr>) = CurrentPosition s" "CurrentPosition (s\<lparr>last_tag := l\<rparr>) = CurrentPosition s"
  "pending rest (s\<lparr>legitimate_message_end := b\<rparr>) = pending rest s" "pending rest (s\<lparr>last_tag := l\<rparr>) = pending rest s"
  "readable rest (s\<lparr>legitimate_message_end := b\<rparr>) = readable rest s" "readable rest (s\<lparr>last_tag := l\<rparr>) = readable rest s"
  by (simp_all add: closest_limit_def CurrentPosition_def BufferSize_def pending_def readable_def)

lemma flag_updates_ok [simp]:
  "coded_ok okI V (s\<lparr>legitimate_message_end := b\<rparr>) = coded_ok okI V s" "coded_ok okI V (s\<lparr>last_tag := l\<rparr>) = coded_ok okI V s"
  by (simp_all add: coded_ok_def)

lemma coded_frame_closest: "coded_frame s t \<Longrightarrow> closest_limit t = closest_limit s"
  by (simp add: coded_frame_def closest_limit_def)

lemma coded_frame_trans: "coded_frame s t \<Longrightarrow> coded_frame t u \<Longrightarrow> coded_frame s u"
  by (simp add: coded_frame_def)

lemma consumes_readable:
  assumes "consumes okI rest V k s t"
  shows "readable rest t = drop k (readable rest s)"
proof -
  let ?m = "nat (closest_limit s - CurrentPosition s)"
  have k: "k \<le> ?m" using assms by (simp add: consumes_def readable_def)
  have "closest_limit t = closest_limit s" "CurrentPosition t = CurrentPosition s + int k"
    using assms by (simp_all add: consumes_def coded_frame_closest)
  then have "nat (closest_limit t - CurrentPosition t) = ?m - k" by linarith
  then show ?thesis
    using assms by (simp add: consumes_def readable_def drop_take)
qed

lemma consumes_trans:
  assumes "consumes okI rest V k s t" and "consumes okI rest V l t u"
  shows "consumes okI rest V (k + l) s u"
proof -
  have "l \<le> length (readable rest s) - k" "k \<le> length (readable rest s)"
    using assms consumes_readable [OF assms(1)] by (simp_all add: consumes_def)
  with assms show ?thesis
    by (auto simp: consumes_def add.commute intro: coded_frame_trans)
qed

lemma coded_ok_size: "coded_ok okI V s \<Longrightarrow> 0 \<le> ci_size s \<and> ci_size s \<le> int (length (ci_data s))"
  unfolding coded_ok_def by linarith

text \<open>The buffer is the beginning of what can be read.\<close>

lemma buffer_prefix:
  assumes "coded_ok okI V s"
  obtains more where "readable rest s = buffer_bytes s @ more" and "int (length (buffer_bytes s)) = ci_size s"
    and "take (nat (ci_size s)) (ci_data s) = buffer_bytes s"
proof -
  have "ci_size s \<le> closest_limit s - CurrentPosition s"
    using assms by (auto simp: coded_ok_def CurrentPosition_def BufferSize_def)
  then have le: "nat (ci_size s) \<le> nat (closest_limit s - CurrentPosition s)" by simp
  have len: "nat (ci_size s) \<le> length (ci_data s)" using coded_ok_size [OF assms] by linarith
  let ?m = "nat (closest_limit s - CurrentPosition s)"
  have "readable rest s = take (nat (ci_size s)) (readable rest s) @ drop (nat (ci_size s)) (readable rest s)" by simp
  also have "take (nat (ci_size s)) (readable rest s) = buffer_bytes s"
  proof -
    have "take (nat (ci_size s)) (readable rest s) = take (nat (ci_size s)) (pending rest s)"
      by (simp only: readable_def take_take min_absorb1 [OF le])
    with len show ?thesis by (simp add: pending_def buffer_bytes_def)
  qed
  finally have "readable rest s = buffer_bytes s @ drop (nat (ci_size s)) (readable rest s)" .
  moreover have "int (length (buffer_bytes s)) = ci_size s"
    using len coded_ok_size [OF assms] by (simp add: buffer_bytes_def)
  ultimately show thesis by (rule that) (simp only: buffer_bytes_def)
qed

lemma advance_consumes:
  assumes ok: "coded_ok okI V s" and n: "0 \<le> n" "n \<le> ci_size s"
  shows "consumes okI rest V (nat n) s (Advance n s)"
    and "take (nat n) (ci_data s) = take (nat n) (readable rest s)"
proof -
  obtain more where b: "readable rest s = buffer_bytes s @ more" "int (length (buffer_bytes s)) = ci_size s"
    "take (nat (ci_size s)) (ci_data s) = buffer_bytes s"
    using ok by (rule buffer_prefix)
  have nb: "nat n \<le> length (buffer_bytes s)" using b(2) n by linarith
  have "take (nat n) (ci_data s) = take (nat n) (take (nat (ci_size s)) (ci_data s))" using n by (simp add: min_absorb1)
  with b nb show "take (nat n) (ci_data s) = take (nat n) (readable rest s)" by simp
  have len: "nat n \<le> length (ci_data s)" using coded_ok_size [OF ok] n by linarith
  have pos: "CurrentPosition (Advance n s) = CurrentPosition s + n"
    by (simp add: CurrentPosition_def BufferSize_def Advance_def)
  have "\<exists>i d p. okI i \<and> zc_Next V i = Inr (Some d, ci_input s) \<and> d = p @ drop (nat n) (ci_data s)"
    if "drop (nat n) (ci_data s) \<noteq> []"
  proof -
    have "ci_data s \<noteq> []" using that by auto
    then obtain i d p where "okI i" "zc_Next V i = Inr (Some d, ci_input s)" "d = p @ ci_data s"
      using ok by (auto simp: coded_ok_def)
    then show ?thesis
      by (intro exI [of _ i] exI [of _ d] exI [of _ "p @ take (nat n) (ci_data s)"]) simp
  qed
  moreover have "closest_limit (Advance n s) = closest_limit s" by (simp add: closest_limit_def Advance_def)
  moreover have "CurrentPosition s + n \<le> closest_limit s"
    using ok n by (auto simp: coded_ok_def CurrentPosition_def BufferSize_def)
  ultimately have "coded_ok okI V (Advance n s)"
    using ok n len unfolding coded_ok_def pos by (simp add: Advance_def)
  moreover have "nat n \<le> length (readable rest s)" using nb b(1) by simp
  ultimately show "consumes okI rest V (nat n) s (Advance n s)"
    using n len by (simp add: consumes_def pos coded_frame_def) (simp add: Advance_def pending_def)
qed

text \<open>The result of reading \<open>n\<close> bytes.\<close>

definition takes_bytes ::
    "('s \<Rightarrow> bool) \<Rightarrow> ('s \<Rightarrow> byte list) \<Rightarrow> 's zc_input \<Rightarrow> nat \<Rightarrow> 's coded_input \<Rightarrow> (bool \<times> byte list \<times> 's coded_input) run \<Rightarrow> bool" where
  "takes_bytes ok rest V n s r \<longleftrightarrow> (\<exists>t. r = Some (Inr (n \<le> length (readable rest s), take n (readable rest s), t)) \<and>
     consumes ok rest V (min n (length (readable rest s))) s t)"

text \<open>The result of reading a varint, with a function from its value to the result.\<close>

definition takes_varint ::
    "('s \<Rightarrow> bool) \<Rightarrow> ('s \<Rightarrow> byte list) \<Rightarrow> 's zc_input \<Rightarrow> nat \<Rightarrow> (nat \<Rightarrow> 'r) \<Rightarrow> 'r \<Rightarrow> 's coded_input \<Rightarrow>
       ('r \<times> 's coded_input) run \<Rightarrow> bool" where
  "takes_varint ok rest V m val fail s r \<longleftrightarrow> (\<exists>x t k. r = Some (Inr (x, t)) \<and> consumes ok rest V k s t \<and>
     (case varint_of m (readable rest s) of
        Varint n bs \<Rightarrow> x = val n \<and> (x \<noteq> fail \<longrightarrow> readable rest t = bs)
      | _ \<Rightarrow> x = fail))"

lemma varint_of_max [simp]:
  "varint_of kMaxVarintBytes [] = Truncated"
  "unat b < 128 \<Longrightarrow> varint_of kMaxVarintBytes (b # bs) = Varint (unat b) bs"
proof -
  have "kMaxVarintBytes = Suc 9" by (simp add: kMaxVarintBytes_def)
  then show "varint_of kMaxVarintBytes [] = Truncated"
    "unat b < 128 \<Longrightarrow> varint_of kMaxVarintBytes (b # bs) = Varint (unat b) bs" by (metis varint_of.simps(2,3))+
qed

lemma varint_of_append:
  "varint_of k xs = Varint v r \<Longrightarrow> varint_of k (xs @ ys) = Varint v (r @ ys)"
  "varint_of k xs = Overlong \<Longrightarrow> varint_of k (xs @ ys) = Overlong"
proof -
  have "(\<forall>v r. varint_of k xs = Varint v r \<longrightarrow> varint_of k (xs @ ys) = Varint v (r @ ys)) \<and>
      (varint_of k xs = Overlong \<longrightarrow> varint_of k (xs @ ys) = Overlong)"
  proof (induction k xs rule: varint_of.induct)
    case (3 k b bs)
    then show ?case by (cases "varint_of k bs") auto
  qed simp_all
  then show "varint_of k xs = Varint v r \<Longrightarrow> varint_of k (xs @ ys) = Varint v (r @ ys)"
    "varint_of k xs = Overlong \<Longrightarrow> varint_of k (xs @ ys) = Overlong" by blast+
qed

lemma varint_of_suffix: "varint_of k xs = Varint v r \<Longrightarrow> \<exists>p. xs = p @ r \<and> p \<noteq> []"
proof (induction k xs arbitrary: v r rule: varint_of.induct)
  case (3 k b bs)
  show ?case
  proof (cases "unat b < 128")
    case True
    with 3 show ?thesis by auto
  next
    case False
    with 3 obtain u where "varint_of k bs = Varint u r" by (cases "varint_of k bs") auto
    with 3 False obtain p where "bs = p @ r" by blast
    then show ?thesis by (intro exI [of _ "b # p"]) simp
  qed
qed simp_all

lemma varint_of_not_truncated:
  "k \<le> length xs \<or> (xs \<noteq> [] \<and> unat (last xs) < 128) \<Longrightarrow> varint_of k xs \<noteq> Truncated"
proof (induction k xs rule: varint_of.induct)
  case (3 k b bs)
  show ?case
  proof (cases "unat b < 128")
    case False
    then have "k \<le> length bs \<or> (bs \<noteq> [] \<and> unat (last bs) < 128)" using 3(2) by (auto split: if_splits)
    with 3(1) False have "varint_of k bs \<noteq> Truncated" by simp
    with False show ?thesis by (cases "varint_of k bs") simp_all
  qed simp
qed simp_all

context zero_copy_input
begin

lemma next_non_empty:
  assumes "inv i"
  obtains i' where "NextNonEmpty V i = Some (Inr (None, i'))" and "inv i'" and "rest i = []" and "rest i' = []"
    | d i0 i' where "NextNonEmpty V i = Some (Inr (Some d, i'))" and "inv i'" and "d \<noteq> []" and "rest i = d @ rest i'"
      and "size_of i' < size_of i" and "inv i0" and "zc_Next V i0 = Inr (Some d, i')"
  using assms
proof (induction "size_of i" arbitrary: i thesis rule: less_induct)
  case less
  from less.prems(3) show ?case
  proof (cases rule: nextE)
    case (1 d i1)
    show ?thesis
    proof (cases "d = []")
      case True
      with 1 have eq: "NextNonEmpty V i = NextNonEmpty V i1" by (simp add: NextNonEmpty.simps [of V i])
      show ?thesis
      proof (rule less.hyps [OF 1(4) _ _ 1(2)])
        fix i' assume "NextNonEmpty V i1 = Some (Inr (None, i'))" "inv i'" "rest i1 = []" "rest i' = []"
        then show thesis using less.prems(1) [of i'] eq 1(3) True by simp
      next
        fix d' i0 i' assume "NextNonEmpty V i1 = Some (Inr (Some d', i'))" "inv i'" "d' \<noteq> []" "rest i1 = d' @ rest i'"
          "size_of i' < size_of i1" "inv i0" "zc_Next V i0 = Inr (Some d', i')"
        then show thesis using less.prems(2) [of d' i' i0] eq 1(3,4) True by simp
      qed
    next
      case False
      with 1 have "NextNonEmpty V i = Some (Inr (Some d, i1))" by (simp add: NextNonEmpty.simps [of V i])
      with 1 False less.prems(2,3) show ?thesis by blast
    qed
  next
    case (2 i1)
    then have "NextNonEmpty V i = Some (Inr (None, i1))" by (simp add: NextNonEmpty.simps [of V i])
    with 2 less.prems(1) show ?thesis by blast
  qed
qed

lemma refresh_spec:
  assumes ok: "coded_ok inv V s" and empty: "ci_size s = 0"
  shows "\<exists>b t. Refresh V s = Some (Inr (b, t)) \<and> consumes inv rest V 0 s t \<and>
    (b \<longrightarrow> size_of (ci_input t) < size_of (ci_input s)) \<and> (\<not> b \<longrightarrow> readable rest s = [] \<and> ci_size t = 0) \<and>
    (b \<longrightarrow> pending rest s \<noteq> [])"
proof (cases "buffer_size_after_limit s > 0 \<or> overflow_bytes s > 0 \<or> total_bytes_read s = current_limit s")
  case True
  then have "Refresh V s = Some (Inr (False, s))" by (simp add: Refresh_def)
  moreover have "closest_limit s - CurrentPosition s \<le> 0"
    using True ok empty by (auto simp: coded_ok_def closest_limit_def CurrentPosition_def BufferSize_def)
  then have "readable rest s = []" by (simp add: readable_def)
  ultimately show ?thesis
    using ok empty by (intro exI [of _ False] exI [of _ s]) (simp add: consumes_def coded_frame_def)
next
  case False
  then have none: "buffer_size_after_limit s = 0" "overflow_bytes s = 0" using ok by (auto simp: coded_ok_def)
  then have data: "ci_data s = []" using ok empty by (simp add: coded_ok_def)
  have tot: "total_bytes_read s = CurrentPosition s" "total_bytes_read s \<le> closest_limit s" "0 \<le> total_bytes_read s"
    using ok none empty by (auto simp: coded_ok_def CurrentPosition_def BufferSize_def)
  have "inv (ci_input s)" using ok by (simp add: coded_ok_def)
  then show ?thesis
  proof (cases rule: next_non_empty)
    case (1 i')
    let ?t = "s\<lparr>ci_input := i', ci_data := [], ci_size := 0\<rparr>"
    have "Refresh V s = Some (Inr (False, ?t))" using False 1 by (simp add: Refresh_def)
    moreover have "CurrentPosition ?t = CurrentPosition s" using empty by (simp add: CurrentPosition_def BufferSize_def)
    moreover from this have "coded_ok inv V ?t" using ok 1(2) none empty data by (simp add: coded_ok_def closest_limit_def)
    ultimately show ?thesis
      using 1 data
      by (intro exI [of _ False] exI [of _ ?t])
         (simp add: consumes_def coded_frame_def, simp add: pending_def readable_def)
  next
    case (2 d i0 i')
    let ?n = "int (length d)"
    let ?total = "min INT_MAX (total_bytes_read s + ?n)"
    let ?over = "total_bytes_read s + ?n - ?total"
    let ?after = "max 0 (?total - closest_limit s)"
    let ?t = "s\<lparr>ci_input := i', ci_data := d, ci_size := ?n - ?over - ?after, total_bytes_read := ?total,
      overflow_bytes := ?over, buffer_size_after_limit := ?after\<rparr>"
    have "Refresh V s = Some (Inr (True, ?t))"
      using False 2 none by (auto simp: Refresh_def RecomputeBufferLimits_def closest_limit_def Let_def)
    moreover have cl: "closest_limit ?t = closest_limit s" by (simp add: closest_limit_def)
    moreover have pos: "CurrentPosition ?t = CurrentPosition s"
      using tot(1) by (simp add: CurrentPosition_def BufferSize_def)
    moreover have "closest_limit s \<le> INT_MAX" "0 \<le> CurrentPosition s" "CurrentPosition s \<le> closest_limit s"
      "current_limit s \<le> INT_MAX" "total_bytes_limit s \<le> INT_MAX"
      using ok by (auto simp: coded_ok_def closest_limit_def)
    ultimately have "coded_ok inv V ?t"
      unfolding coded_ok_def pos cl using 2(2,6,7) tot by (auto intro!: exI [of _ i0])
    with \<open>Refresh V s = _\<close> pos 2(3,4,5) data show ?thesis
      by (intro exI [of _ True] exI [of _ ?t]) (simp add: consumes_def coded_frame_def, simp add: pending_def)
  qed
qed

lemma advance_all:
  assumes ok: "coded_ok inv V s"
  shows "consumes inv rest V (length (buffer_bytes s)) s (Advance (BufferSize s) s)"
    and "ci_size (Advance (BufferSize s) s) = 0"
    and "ci_input (Advance (BufferSize s) s) = ci_input s"
proof -
  have sz: "0 \<le> ci_size s" using coded_ok_size [OF ok] by simp
  obtain more where "int (length (buffer_bytes s)) = ci_size s" using ok by (rule buffer_prefix)
  then have "nat (ci_size s) = length (buffer_bytes s)" by linarith
  then show "consumes inv rest V (length (buffer_bytes s)) s (Advance (BufferSize s) s)"
    using advance_consumes(1) [OF ok sz order_refl, of rest] by (simp add: BufferSize_def)
qed (simp_all add: Advance_def BufferSize_def)

text \<open>Leaving the buffer for the next piece, as all loops do.\<close>

lemma advance_refresh:
  assumes ok: "coded_ok inv V s"
  obtains b t where "Refresh V (Advance (BufferSize s) s) = Some (Inr (b, t))"
    and "consumes inv rest V (length (buffer_bytes s)) s t"
    and "readable rest s = buffer_bytes s @ readable rest t"
    and "b \<Longrightarrow> size_of (ci_input t) < size_of (ci_input s)" and "\<not> b \<Longrightarrow> readable rest t = []"
proof -
  let ?u = "Advance (BufferSize s) s"
  note adv = advance_all [OF ok]
  have "coded_ok inv V ?u" using adv(1) by (simp add: consumes_def)
  from refresh_spec [OF this adv(2)] obtain b t where t: "Refresh V ?u = Some (Inr (b, t))"
    "consumes inv rest V 0 ?u t" "b \<longrightarrow> size_of (ci_input t) < size_of (ci_input ?u)"
    "\<not> b \<longrightarrow> readable rest ?u = []" by blast
  have c: "consumes inv rest V (length (buffer_bytes s)) s t" using consumes_trans [OF adv(1) t(2)] by simp
  obtain more where more: "readable rest s = buffer_bytes s @ more" using buffer_prefix [OF ok] by blast
  then have "readable rest s = buffer_bytes s @ readable rest t" using consumes_readable [OF c] by simp
  moreover have "readable rest ?u = readable rest t" using consumes_readable [OF t(2)] by simp
  ultimately show thesis using that [OF t(1) c] t(3,4) adv(3) by auto
qed

lemma read_raw_spec:
  "coded_ok inv V s \<Longrightarrow> 0 \<le> n \<Longrightarrow> takes_bytes inv rest V (nat n) s (ReadRaw V n s)"
proof (induction "size_of (ci_input s)" arbitrary: n s rule: less_induct)
  case less
  note ok = less.prems(1)
  show ?case
  proof (cases "ci_size s < n")
    case False
    with advance_consumes [OF ok less.prems(2), of rest] show ?thesis
      by (subst ReadRaw.simps) (simp add: takes_bytes_def BufferSize_def consumes_def min_absorb1)
  next
    case True
    have len: "int (length (buffer_bytes s)) = ci_size s" using buffer_prefix [OF ok] by blast
    then have nn: "nat n = length (buffer_bytes s) + nat (n - ci_size s)" using True by linarith
    from ok show ?thesis
    proof (rule advance_refresh)
      fix b t
      assume t: "Refresh V (Advance (BufferSize s) s) = Some (Inr (b, t))"
        "consumes inv rest V (length (buffer_bytes s)) s t"
        "readable rest s = buffer_bytes s @ readable rest t"
        "b \<Longrightarrow> size_of (ci_input t) < size_of (ci_input s)" "\<not> b \<Longrightarrow> readable rest t = []"
      show ?thesis
      proof (cases b)
        case False
        then have "readable rest s = buffer_bytes s" using t(3,5) by simp
        with False t(1,2) True nn len show ?thesis
          by (subst ReadRaw.simps) (simp add: takes_bytes_def BufferSize_def min_absorb2)
      next
        case True
        have "coded_ok inv V t" using t(2) by (simp add: consumes_def)
        with less.hyps [OF t(4) [OF True] this, of "n - ci_size s"] \<open>ci_size s < n\<close>
        obtain u where u: "ReadRaw V (n - ci_size s) t =
            Some (Inr (nat (n - ci_size s) \<le> length (readable rest t), take (nat (n - ci_size s)) (readable rest t), u))"
          "consumes inv rest V (min (nat (n - ci_size s)) (length (readable rest t))) t u"
          by (auto simp: takes_bytes_def)
        have "min (nat n) (length (readable rest s)) =
            length (buffer_bytes s) + min (nat (n - ci_size s)) (length (readable rest t))"
          using t(3) nn by simp
        then have "consumes inv rest V (min (nat n) (length (readable rest s))) s u"
          using consumes_trans [OF t(2) u(2)] by simp
        moreover have "ReadRaw V n s = Some (Inr (nat n \<le> length (readable rest s), take (nat n) (readable rest s), u))"
          using t(1,3) u(1) True \<open>ci_size s < n\<close> nn by (subst ReadRaw.simps) (simp add: BufferSize_def)
        ultimately show ?thesis unfolding takes_bytes_def by blast
      qed
    qed
  qed
qed

lemma read_string_loop_spec:
  assumes "coded_ok inv V s" and "0 \<le> n"
  shows "read_string_loop V acc n s = map_option (map_sum id (\<lambda>(ok, bs, t). (ok, acc @ bs, t))) (ReadRaw V n s)"
  using assms
proof (induction "size_of (ci_input s)" arbitrary: acc n s rule: less_induct)
  case less
  show ?case
  proof (cases "ci_size s < n")
    case False
    then show ?thesis by (subst ReadRaw.simps, subst read_string_loop.simps) (simp add: BufferSize_def)
  next
    case True
    have acc: "(if BufferSize s \<noteq> 0 then acc @ buffer_bytes s else acc) = acc @ buffer_bytes s"
      by (simp add: BufferSize_def buffer_bytes_def)
    from less.prems(1) show ?thesis
    proof (rule advance_refresh)
      fix b t
      assume t: "Refresh V (Advance (BufferSize s) s) = Some (Inr (b, t))"
        "consumes inv rest V (length (buffer_bytes s)) s t" "b \<Longrightarrow> size_of (ci_input t) < size_of (ci_input s)"
      have "coded_ok inv V t" using t(2) by (simp add: consumes_def)
      then have "b \<Longrightarrow> read_string_loop V (acc @ buffer_bytes s) (n - BufferSize s) t =
          map_option (map_sum id (\<lambda>(ok, bs, t). (ok, (acc @ buffer_bytes s) @ bs, t))) (ReadRaw V (n - BufferSize s) t)"
        using less.hyps [OF t(3)] True by (simp add: BufferSize_def)
      then show ?thesis
        using t(1) True unfolding read_string_loop.simps [of V acc n s] ReadRaw.simps [of V n s] acc
        by (cases "ReadRaw V (n - BufferSize s) t") (auto simp: BufferSize_def split: sum.splits)
    qed
  qed
qed

lemma read_string_spec:
  assumes "coded_ok inv V s" and "0 \<le> n"
  shows "takes_bytes inv rest V (nat n) s (ReadString V buffer n s)"
proof (cases "BufferSize s \<ge> n")
  case True
  with advance_consumes [OF assms(1,2), of rest] assms(2) show ?thesis
    by (simp add: ReadString_def takes_bytes_def BufferSize_def consumes_def min_absorb1)
next
  case False
  then have "ReadString V buffer n s = ReadRaw V n s"
    using assms read_string_loop_spec [OF assms, of "[]"]
    by (cases "ReadRaw V n s")
       (simp_all add: ReadString_def ReadStringFallback_def id_def [symmetric] sum.map_id)
  then show ?thesis using read_raw_spec [OF assms] by simp
qed

lemma refill_spec:
  assumes "coded_ok inv V s"
  shows "\<exists>t. refill V s = Some (Inr (readable rest s \<noteq> [], t)) \<and> consumes inv rest V 0 s t \<and>
    (readable rest s \<noteq> [] \<longrightarrow> 0 < ci_size t)"
  using assms
proof (induction "size_of (ci_input s)" arbitrary: s rule: less_induct)
  case less
  show ?case
  proof (cases "ci_size s = 0")
    case False
    then have "0 < ci_size s" using coded_ok_size [OF less.prems] by simp
    moreover from this have "readable rest s \<noteq> []" using buffer_prefix [OF less.prems, of rest] by fastforce
    ultimately show ?thesis
      using less.prems by (subst refill.simps) (simp add: BufferSize_def consumes_def coded_frame_def)
  next
    case True
    from refresh_spec [OF less.prems this] obtain b t where t: "Refresh V s = Some (Inr (b, t))" "consumes inv rest V 0 s t"
      "b \<longrightarrow> size_of (ci_input t) < size_of (ci_input s)" "\<not> b \<longrightarrow> readable rest s = []" by blast
    have same: "readable rest t = readable rest s" using consumes_readable [OF t(2)] by simp
    show ?thesis
    proof (cases b)
      case False
      with t True show ?thesis by (subst refill.simps) (simp add: BufferSize_def)
    next
      case True
      have "coded_ok inv V t" using t(2) by (simp add: consumes_def)
      from less.hyps [OF _ this] t(3) True same obtain u where u: "refill V t = Some (Inr (readable rest s \<noteq> [], u))"
        "consumes inv rest V 0 t u" "readable rest s \<noteq> [] \<longrightarrow> 0 < ci_size u" by auto
      with t(1) True \<open>ci_size s = 0\<close> consumes_trans [OF t(2) u(2)] show ?thesis
        by (subst refill.simps) (simp add: BufferSize_def)
    qed
  qed
qed

end

end
