(* ===== verification/Coded_Input_Reads.thy ===== *)
theory Coded_Input_Reads
  imports Coded_Input_Correct
begin

text \<open>
  The varints, tags, sizes and fixed-size integers that \<open>CodedInputStream\<close> reads, as functions of the
  readable bytes, whatever pieces they come in and on the array path as on the slow path.
\<close>

section \<open>Words of varint bytes\<close>

lemma low_seven: "(ucast ((b :: byte) AND 0x7F) :: 'a::len word) = word_of_nat (unat b mod 128)"
proof -
  have "unat b AND 127 = unat b mod 128"
    using take_bit_eq_mask [of 7 "unat b"] by (simp add: take_bit_eq_mod mask_eq_exp_minus_1)
  then have "unat (b AND 0x7F) = unat b mod 128" by (simp add: unsigned_and_eq)
  then show ?thesis by (metis of_nat_unat)
qed

lemma add_128_or: "d < 128 \<Longrightarrow> d + 128 * v = d OR push_bit 7 (v :: nat)"
proof -
  assume "d < 128"
  then have "take_bit 7 d = d" by (simp add: take_bit_eq_mod)
  then have "\<not> (bit d n \<and> bit (push_bit 7 v) n)" for n
    using bit_take_bit_iff [of 7 d n] by (auto simp: bit_push_bit_iff)
  then have "d AND push_bit 7 v = 0" by (intro bit_eqI) (simp add: bit_and_iff)
  then have "d + push_bit 7 v = d OR push_bit 7 v" by (rule disjunctive_add_eq_or)
  then show ?thesis by (simp add: push_bit_eq_mult mult.commute)
qed

lemma varint_word_step:
  "128 \<le> unat (b :: byte) \<Longrightarrow>
   (result OR push_bit s (ucast (b AND 0x7F))) OR push_bit (s + 7) (word_of_nat v) =
     (result OR push_bit s (word_of_nat (unat b - 128 + 128 * v)) :: 'a::len word)"
proof -
  assume b: "128 \<le> unat b"
  then have m: "unat b mod 128 = unat b - 128" "unat b - 128 < 128" using byte_mod_128 [of b] unat_byte_lt [of b] by simp_all
  have "(word_of_nat (unat b - 128 + 128 * v) :: 'a word) = word_of_nat (unat b - 128) OR push_bit 7 (word_of_nat v)"
    by (simp only: add_128_or [OF m(2)] of_nat_or_eq of_nat_push_bit)
  then show ?thesis
    by (simp only: low_seven m(1) push_bit_or or.assoc push_bit_push_bit add.commute [of s])
qed

lemma ucast_of_nat_32: "(ucast (word_of_nat n :: 64 word) :: 32 word) = word_of_nat n"
proof -
  have "unat (ucast (word_of_nat n :: 64 word) :: 32 word) = unat (word_of_nat n :: 32 word)"
    by (simp add: unsigned_ucast_eq unsigned_of_nat)
  then show ?thesis by (rule unsigned_word_eqI)
qed

lemma unat_ucast_byte_32: "unat (ucast (b :: byte) :: 32 word) = unat b"
  using unat_byte_lt [of b] by (simp add: unsigned_ucast_eq take_bit_eq_mod)

section \<open>Varints\<close>

lemma takes_varint_map:
  assumes "takes_varint okI rest V m val fail s r"
  shows "takes_varint okI rest V m (\<lambda>n. f (val n)) (f fail) s (bind_run r (\<lambda>(x, s). return_run (f x, s)))"
proof -
  obtain x t k where r: "r = Some (Inr (x, t))" "consumes okI rest V k s t"
    and x: "case varint_of m (readable rest s) of Varint n bs \<Rightarrow> x = val n \<and> (x \<noteq> fail \<longrightarrow> readable rest t = bs) | _ \<Rightarrow> x = fail"
    using assms unfolding takes_varint_def by blast
  from x have "case varint_of m (readable rest s) of
      Varint n bs \<Rightarrow> f x = f (val n) \<and> (f x \<noteq> f fail \<longrightarrow> readable rest t = bs) | _ \<Rightarrow> f x = f fail"
    by (cases "varint_of m (readable rest s)") auto
  with r show ?thesis unfolding takes_varint_def by auto
qed

text \<open>The array readers apply when the buffer decides the varint.\<close>

lemma array_readable_decides:
  assumes "array_readable s" and "coded_ok okI V s"
  shows "varint_of kMaxVarintBytes (buffer_bytes s) \<noteq> Truncated" and "buffer_bytes s \<noteq> []"
proof -
  obtain more where len: "int (length (buffer_bytes s)) = ci_size s" using assms(2) by (rule buffer_prefix)
  show ne: "buffer_bytes s \<noteq> []"
    using assms(1) len by (auto simp: array_readable_def BufferSize_def kMaxVarintBytes_def)
  have "last (buffer_bytes s) AND 0x80 = 0 \<Longrightarrow> unat (last (buffer_bytes s)) < 128"
    using byte_continues [where ?'a = 8, of "last (buffer_bytes s)"] by simp
  then show "varint_of kMaxVarintBytes (buffer_bytes s) \<noteq> Truncated"
    using assms(1) len ne by (intro varint_of_not_truncated) (auto simp: array_readable_def BufferSize_def)
qed

text \<open>Leaving the buffer after a varint in it.\<close>

lemma set_buffer_consumes:
  assumes ok: "coded_ok okI V s" and v: "varint_of m (buffer_bytes s) = Varint n nxt"
  shows "\<exists>k bs. varint_of m (readable rest s) = Varint n bs \<and> consumes okI rest V k s (set_buffer nxt s) \<and>
    readable rest (set_buffer nxt s) = bs"
proof -
  obtain more where b: "readable rest s = buffer_bytes s @ more" "int (length (buffer_bytes s)) = ci_size s"
    using ok by (rule buffer_prefix)
  obtain p where p: "buffer_bytes s = p @ nxt" using varint_of_suffix [OF v] by blast
  then have k: "BufferSize s - int (length nxt) = int (length p)" using b(2) by (simp add: BufferSize_def)
  have c: "consumes okI rest V (length p) s (set_buffer nxt s)"
    using advance_consumes(1) [OF ok, of "int (length p)" rest] p b(2) by (simp add: set_buffer_def k)
  then have "readable rest (set_buffer nxt s) = nxt @ more"
    using b(1) p by (simp add: consumes_readable)
  with c varint_of_append(1) [OF v, of more] b(1) show ?thesis by auto
qed

lemma array_varint_cases:
  assumes "array_readable s" and "coded_ok okI V s"
  obtains n nxt k bs where "varint_of kMaxVarintBytes (buffer_bytes s) = Varint n nxt"
      and "varint_of kMaxVarintBytes (readable rest s) = Varint n bs"
      and "consumes okI rest V k s (set_buffer nxt s)" and "readable rest (set_buffer nxt s) = bs"
    | "varint_of kMaxVarintBytes (buffer_bytes s) = Overlong" and "varint_of kMaxVarintBytes (readable rest s) = Overlong"
      and "consumes okI rest V 0 s s"
proof (cases "varint_of kMaxVarintBytes (buffer_bytes s)")
  case (Varint n nxt)
  with set_buffer_consumes [OF assms(2) this, of rest] show thesis using that(1) by blast
next
  case Overlong
  obtain more where "readable rest s = buffer_bytes s @ more" using assms(2) by (rule buffer_prefix)
  with Overlong varint_of_append(2) have "varint_of kMaxVarintBytes (readable rest s) = Overlong" by metis
  moreover have "consumes okI rest V 0 s s" using assms(2) by (simp add: consumes_def coded_frame_def)
  ultimately show thesis using that(2) Overlong by blast
next
  case Truncated
  then show thesis using array_readable_decides(1) [OF assms] by simp
qed

lemma array_hd:
  assumes "array_readable s" and "coded_ok okI V s"
  shows "\<exists>ptr. buffer_bytes s = hd (ci_data s) # ptr" and "0 < BufferSize s"
proof -
  obtain more where "int (length (buffer_bytes s)) = ci_size s" "take (nat (ci_size s)) (ci_data s) = buffer_bytes s"
    using assms(2) by (rule buffer_prefix)
  with array_readable_decides(2) [OF assms] show "\<exists>ptr. buffer_bytes s = hd (ci_data s) # ptr" "0 < BufferSize s"
    by (cases "ci_data s"; cases "nat (ci_size s)"; auto simp: buffer_bytes_def BufferSize_def)+
qed

lemma read_array_64:
  assumes "array_readable s" and "coded_ok okI V s" and "128 \<le> unat (hd (ci_data s))"
  shows "\<exists>dead. ReadVarint64FromArray (buffer_bytes s) =
    (case varint_of 10 (buffer_bytes s) of
        Varint v rest \<Rightarrow> Inr (Some (word_of_nat v), rest)
      | Overlong \<Rightarrow> Inr (None, dead)
      | Truncated \<Rightarrow> Inl Out_of_bounds)"
proof -
  obtain ptr where "buffer_bytes s = hd (ci_data s) # ptr" using array_hd(1) [OF assms(1,2)] by blast
  then show ?thesis using rv64_from_result [of 1 "buffer_bytes s"] assms(3) by (simp add: ReadVarint64FromArray_def)
qed

lemma read_array_32:
  assumes "array_readable s" and "coded_ok okI V s" and "128 \<le> unat (hd (ci_data s))"
  shows "\<exists>dead. ReadVarint32FromArray (ucast (hd (ci_data s))) (buffer_bytes s) =
    (case varint_of 10 (buffer_bytes s) of
        Varint v rest \<Rightarrow> Inr (Some (word_of_nat v), rest)
      | Overlong \<Rightarrow> Inr (None, dead)
      | Truncated \<Rightarrow> Inl Out_of_bounds)"
proof -
  obtain ptr where "buffer_bytes s = hd (ci_data s) # ptr" using array_hd(1) [OF assms(1,2)] by blast
  then show ?thesis using ReadVarint32FromArray_result [OF assms(3), of ptr]
    by (simp add: varint_result_def split: varint.split)
qed

context zero_copy_input
begin

lemma read_varint64_loop_spec:
  "coded_ok inv V s \<Longrightarrow> left \<le> kMaxVarintBytes \<Longrightarrow>
   takes_varint inv rest V left (\<lambda>n. Some (result OR push_bit (7 * (kMaxVarintBytes - left)) (word_of_nat n))) None s
     (read_varint64_loop V left result s)"
proof (induction left arbitrary: result s)
  case 0
  then show ?case by (auto simp: takes_varint_def consumes_def coded_frame_def intro: exI [of _ 0])
next
  case (Suc left)
  from refill_spec [OF Suc.prems(1)] obtain t where
    t: "refill V s = Some (Inr (readable rest s \<noteq> [], t))" "consumes inv rest V 0 s t" "readable rest s \<noteq> [] \<longrightarrow> 0 < ci_size t"
    by blast
  have ok: "coded_ok inv V t" using t(2) by (simp add: consumes_def)
  have same: "readable rest t = readable rest s" using consumes_readable [OF t(2)] by simp
  show ?case
  proof (cases "readable rest s")
    case Nil
    with t(1,2) show ?thesis by (auto simp: takes_varint_def)
  next
    case (Cons b bs)
    then have "1 \<le> ci_size t" using t(3) by simp
    from advance_consumes [OF ok _ this, of rest] have adv: "consumes inv rest V 1 t (Advance 1 t)"
      and "take 1 (ci_data t) = [b]" using same Cons by simp_all
    then have hd: "hd (ci_data t) = b" by (cases "ci_data t") simp_all
    have c: "consumes inv rest V 1 s (Advance 1 t)" using consumes_trans [OF t(2) adv] by simp
    have rest1: "readable rest (Advance 1 t) = bs" using consumes_readable [OF c] Cons by simp
    let ?s = "7 * (kMaxVarintBytes - Suc left)" let ?result = "result OR push_bit ?s (ucast (b AND 0x7F))"
    have high: "b AND 0x80 \<noteq> 0 \<longleftrightarrow> 128 \<le> unat b" using byte_continues [where ?'a = 8, of b] by auto
    have step: "read_varint64_loop V (Suc left) result s =
        (if b AND 0x80 \<noteq> 0 then read_varint64_loop V left ?result (Advance 1 t) else return_run (Some ?result, Advance 1 t))"
      using t(1) Cons by (simp add: hd Let_def)
    show ?thesis
    proof (cases "128 \<le> unat b")
      case False
      then have "ucast (b AND 0x7F) = (word_of_nat (unat b) :: 64 word)"
        using low_seven [of b] byte_mod_128 [of b] by simp
      with False step high c rest1 Cons show ?thesis by (auto simp: takes_varint_def)
    next
      case True
      have "?s + 7 = 7 * (kMaxVarintBytes - left)" using Suc.prems(2) by simp
      then have word: "?result OR push_bit (7 * (kMaxVarintBytes - left)) (word_of_nat v) =
          result OR push_bit ?s (word_of_nat (unat b - 128 + 128 * v))" for v
        using varint_word_step [OF True, of result ?s v] by metis
      have "coded_ok inv V (Advance 1 t)" using c by (simp add: consumes_def)
      from Suc.IH [OF this, of ?result] Suc.prems(2) obtain x u k where
        u: "read_varint64_loop V left ?result (Advance 1 t) = Some (Inr (x, u))" "consumes inv rest V k (Advance 1 t) u"
          "case varint_of left bs of
             Varint v r \<Rightarrow> x = Some (?result OR push_bit (7 * (kMaxVarintBytes - left)) (word_of_nat v)) \<and>
               (x \<noteq> None \<longrightarrow> readable rest u = r)
           | _ \<Rightarrow> x = None"
        unfolding takes_varint_def rest1 by auto
      have "varint_of (Suc left) (readable rest s) = varint_cons (unat b - 128) (varint_of left bs)"
        using True Cons by simp
      with u(3) have "case varint_of (Suc left) (readable rest s) of
          Varint v r \<Rightarrow> x = Some (result OR push_bit ?s (word_of_nat v)) \<and> (x \<noteq> None \<longrightarrow> readable rest u = r)
        | _ \<Rightarrow> x = None"
        by (cases "varint_of left bs") (simp_all only: varint_cons.simps varint.case word, simp)
      with step u(1) high True consumes_trans [OF c u(2)] show ?thesis
        unfolding takes_varint_def by auto
    qed
  qed
qed

lemma read_varint64_slow_spec:
  assumes "coded_ok inv V s"
  shows "takes_varint inv rest V kMaxVarintBytes (\<lambda>n. Some (word_of_nat n)) None s (ReadVarint64Slow V s)"
  using read_varint64_loop_spec [OF assms order_refl, of 0] by (simp add: ReadVarint64Slow_def)

lemma read_varint64_fallback_spec:
  assumes ok: "coded_ok inv V s" and hd: "0 < BufferSize s \<longrightarrow> 128 \<le> unat (hd (ci_data s))"
  shows "takes_varint inv rest V kMaxVarintBytes (\<lambda>n. Some (word_of_nat n)) None s (ReadVarint64Fallback V s)"
proof (cases "array_readable s")
  case False
  with read_varint64_slow_spec [OF ok] show ?thesis by (simp add: ReadVarint64Fallback_def)
next
  case True
  then have "128 \<le> unat (hd (ci_data s))" using hd array_hd(2) [OF True ok] by simp
  from read_array_64 [OF True ok this] obtain dead where
    r: "ReadVarint64FromArray (buffer_bytes s) = (case varint_of kMaxVarintBytes (buffer_bytes s) of
        Varint v rest \<Rightarrow> Inr (Some (word_of_nat v), rest) | Overlong \<Rightarrow> Inr (None, dead) | Truncated \<Rightarrow> Inl Out_of_bounds)"
    by (auto simp: kMaxVarintBytes_def)
  from True ok show ?thesis
    by (cases rule: array_varint_cases [where rest = rest])
       (use r True in \<open>auto simp: ReadVarint64Fallback_def takes_varint_def\<close>)
qed

lemma one_byte:
  assumes ok: "coded_ok inv V s" and pos: "0 < BufferSize s" and small: "unat (hd (ci_data s)) < 128"
  shows "varint_of kMaxVarintBytes (readable rest s) = Varint (unat (hd (ci_data s))) (readable rest (Advance 1 s))"
    and "consumes inv rest V 1 s (Advance 1 s)"
proof -
  have "1 \<le> ci_size s" using pos by (simp add: BufferSize_def)
  from advance_consumes [OF ok _ this, of rest] show c: "consumes inv rest V 1 s (Advance 1 s)" by simp
  obtain more where "readable rest s = buffer_bytes s @ more" using ok by (rule buffer_prefix)
  moreover obtain ptr where "buffer_bytes s = hd (ci_data s) # ptr"
    using pos coded_ok_size [OF ok] by (cases "ci_data s"; cases "nat (ci_size s)") (auto simp: buffer_bytes_def BufferSize_def)
  ultimately show "varint_of kMaxVarintBytes (readable rest s) = Varint (unat (hd (ci_data s))) (readable rest (Advance 1 s))"
    using small consumes_readable [OF c] by simp
qed

lemma read_varint64_spec:
  assumes ok: "coded_ok inv V s"
  shows "takes_varint inv rest V kMaxVarintBytes (\<lambda>n. Some (word_of_nat n)) None s (ReadVarint64 V s)"
proof (cases "BufferSize s > 0 \<and> unat (hd (ci_data s)) < 0x80")
  case True
  with one_byte [OF ok] show ?thesis by (auto simp: ReadVarint64_def takes_varint_def)
next
  case False
  with read_varint64_fallback_spec [OF ok] show ?thesis unfolding ReadVarint64_def by auto
qed

lemma read_varint32_spec:
  assumes ok: "coded_ok inv V s"
  shows "takes_varint inv rest V kMaxVarintBytes (\<lambda>n. Some (word_of_nat n)) None s (ReadVarint32 V s)"
proof (cases "BufferSize s > 0 \<and> unat (hd (ci_data s)) < 0x80")
  case True
  moreover have "(word_of_nat (unat (hd (ci_data s))) :: 32 word) = ucast (hd (ci_data s))" by simp
  ultimately show ?thesis using one_byte [OF ok]
    by (auto simp: ReadVarint32_def takes_varint_def unat_ucast_byte_32 Let_def)
next
  case False
  then have hd: "0 < BufferSize s \<longrightarrow> 128 \<le> unat (hd (ci_data s))" by auto
  let ?v = "if BufferSize s > 0 then ucast (hd (ci_data s)) else 0"
  have "takes_varint inv rest V kMaxVarintBytes (\<lambda>n. uint (word_of_nat n :: 32 word)) (- 1) s (ReadVarint32Fallback V ?v s)"
  proof (cases "array_readable s")
    case True
    then have pos: "0 < BufferSize s" and big: "128 \<le> unat (hd (ci_data s))" using hd array_hd(2) [OF True ok] by simp_all
    from read_array_32 [OF True ok big] obtain dead where
      r: "ReadVarint32FromArray (ucast (hd (ci_data s))) (buffer_bytes s) = (case varint_of kMaxVarintBytes (buffer_bytes s) of
          Varint v rest \<Rightarrow> Inr (Some (word_of_nat v), rest) | Overlong \<Rightarrow> Inr (None, dead) | Truncated \<Rightarrow> Inl Out_of_bounds)"
      by (auto simp: kMaxVarintBytes_def)
    from True ok show ?thesis
      by (cases rule: array_varint_cases [where rest = rest])
         (use r True pos in \<open>auto simp: ReadVarint32Fallback_def takes_varint_def\<close>)
  next
    case False
    let ?f = "\<lambda>p. case map_option ucast p of None \<Rightarrow> - 1 | Some temp \<Rightarrow> uint (temp :: 32 word)"
    have "ReadVarint32Fallback V ?v s = bind_run (ReadVarint64Fallback V s) (\<lambda>(p, s). return_run (?f p, s))"
      using False by (cases "ReadVarint64Fallback V s")
        (auto simp: ReadVarint32Fallback_def ReadVarint32Slow_def split: sum.splits)
    with takes_varint_map [OF read_varint64_fallback_spec [OF ok hd], of ?f] show ?thesis by (simp add: ucast_of_nat_32)
  qed
  from takes_varint_map [OF this, of "\<lambda>result. if result \<ge> 0 then Some (word_of_int result :: 32 word) else None"]
  show ?thesis using False by (auto simp: ReadVarint32_def Let_def unat_ucast_byte_32 cong: if_cong)
qed

lemma read_varint_size_spec:
  assumes ok: "coded_ok inv V s"
  shows "takes_varint inv rest V kMaxVarintBytes
    (\<lambda>n. if int (n mod 2 ^ 64) \<le> INT_MAX then Some (int (n mod 2 ^ 64)) else None) None s (ReadVarintSizeAsInt V s)"
proof (cases "BufferSize s > 0 \<and> unat (hd (ci_data s)) < 0x80")
  case True
  with one_byte [OF ok] show ?thesis by (auto simp: ReadVarintSizeAsInt_def takes_varint_def INT_MAX_def)
next
  case False
  then have hd: "0 < BufferSize s \<longrightarrow> 128 \<le> unat (hd (ci_data s))" by auto
  have uint: "uint (word_of_nat n :: 64 word) = int (n mod 2 ^ 64)" for n
    by (simp add: unsigned_of_nat take_bit_eq_mod of_nat_mod)
  let ?val = "\<lambda>n. if int (n mod 2 ^ 64) \<le> INT_MAX then int (n mod 2 ^ 64) else - 1"
  have "takes_varint inv rest V kMaxVarintBytes ?val (- 1) s (ReadVarintSizeAsIntFallback V s)"
  proof (cases "array_readable s")
    case True
    then have big: "128 \<le> unat (hd (ci_data s))" using hd array_hd(2) [OF True ok] by simp
    have same: "consumes inv rest V 0 s s" using ok by (simp add: consumes_def coded_frame_def)
    from read_array_64 [OF True ok big] obtain dead where
      r: "ReadVarint64FromArray (buffer_bytes s) = (case varint_of kMaxVarintBytes (buffer_bytes s) of
          Varint v rest \<Rightarrow> Inr (Some (word_of_nat v), rest) | Overlong \<Rightarrow> Inr (None, dead) | Truncated \<Rightarrow> Inl Out_of_bounds)"
      by (auto simp: kMaxVarintBytes_def)
    from True ok show ?thesis
    proof (cases rule: array_varint_cases [where rest = rest])
      case (1 n nxt k bs)
      show ?thesis
        using 1 r True same by (cases "int (n mod 2 ^ 64) \<le> INT_MAX")
          (auto simp: ReadVarintSizeAsIntFallback_def takes_varint_def uint)
    next
      case 2
      with r True show ?thesis by (auto simp: ReadVarintSizeAsIntFallback_def takes_varint_def)
    qed
  next
    case False
    let ?f = "\<lambda>p. case p of None \<Rightarrow> - 1 | Some v \<Rightarrow> if uint (v :: 64 word) > INT_MAX then - 1 else uint v"
    have "?f (Some (word_of_nat n)) = ?val n" "?f None = - 1" for n by (simp_all add: uint)
    with takes_varint_map [OF read_varint64_fallback_spec [OF ok hd], of ?f] show ?thesis
      using False by (simp only: ReadVarintSizeAsIntFallback_def ReadVarintSizeAsIntSlow_def if_False)
  qed
  note takes = takes_varint_map [OF this, of "\<lambda>v. if v \<ge> 0 then Some v else None"]
  have "(if ?val n \<ge> 0 then Some (?val n) else None) =
      (if int (n mod 2 ^ 64) \<le> INT_MAX then Some (int (n mod 2 ^ 64)) else None)" for n by simp
  with takes show ?thesis by (simp only: ReadVarintSizeAsInt_def if_not_P [OF False]) simp
qed

end

end
