(* ===== verification/Coded_Input_Limits.thy ===== *)
theory Coded_Input_Limits
  imports Coded_Input_Correct
begin

text \<open>
  Creating and destroying a \<open>CodedInputStream\<close>, its limits and \<open>Skip\<close>: what can be read below a limit,
  what comes back when the limit is popped, and what is given back to the stream below.
\<close>

section \<open>Limits\<close>

lemma recompute_limits:
  assumes ok: "coded_ok okI V s" and le: "cl \<le> INT_MAX" "tbl \<le> INT_MAX" and pos: "CurrentPosition s \<le> min cl tbl"
  defines "t \<equiv> RecomputeBufferLimits (s\<lparr>current_limit := cl, total_bytes_limit := tbl\<rparr>)"
  shows "coded_ok okI V t" and "pending rest t = pending rest s" and "CurrentPosition t = CurrentPosition s"
    and "current_limit t = cl" and "total_bytes_limit t = tbl" and "legitimate_message_end t = legitimate_message_end s"
    and "last_tag t = last_tag s" and "recursion_budget t = recursion_budget s" and "recursion_limit t = recursion_limit s"
proof -
  let ?after = "max 0 (total_bytes_read s - min cl tbl)"
  have t: "t = s\<lparr>current_limit := cl, total_bytes_limit := tbl, ci_size := ci_size s + buffer_size_after_limit s - ?after,
      buffer_size_after_limit := ?after\<rparr>"
    by (simp add: t_def RecomputeBufferLimits_def Let_def)
  then show p: "CurrentPosition t = CurrentPosition s" by (simp add: CurrentPosition_def BufferSize_def)
  have "0 \<le> ci_size s + buffer_size_after_limit s" using ok by (simp add: coded_ok_def)
  then have "0 \<le> ci_size s + buffer_size_after_limit s - ?after"
    using pos by (auto simp: CurrentPosition_def BufferSize_def)
  then show "coded_ok okI V t"
    using ok le pos p by (simp add: coded_ok_def) (simp add: t closest_limit_def)
qed (simp_all add: t_def RecomputeBufferLimits_def pending_def Let_def)

lemma push_limit_spec:
  assumes ok: "coded_ok okI V s" and push: "PushLimit n s = (old, t)"
  shows "old = current_limit s" and "coded_ok okI V t" and "pending rest t = pending rest s"
    and "CurrentPosition t = CurrentPosition s" and "total_bytes_limit t = total_bytes_limit s"
    and "legitimate_message_end t = legitimate_message_end s" and "last_tag t = last_tag s"
    and "recursion_budget t = recursion_budget s" and "recursion_limit t = recursion_limit s"
    and "readable rest t = (if 0 \<le> n then take (nat n) (readable rest s) else readable rest s)"
proof -
  let ?pos = "CurrentPosition s"
  have lim: "?pos \<le> current_limit s" "?pos \<le> total_bytes_limit s" "current_limit s \<le> INT_MAX" "total_bytes_limit s \<le> INT_MAX"
    using ok by (auto simp: coded_ok_def closest_limit_def)
  have old: "old = current_limit s" using push by (auto simp: PushLimit_def Let_def split: if_splits)
  then show "old = current_limit s" .
  consider (lower) "0 \<le> n" "n \<le> INT_MAX - ?pos" "n < current_limit s - ?pos"
      "t = RecomputeBufferLimits (s\<lparr>current_limit := ?pos + n, total_bytes_limit := total_bytes_limit s\<rparr>)"
    | (same) "n < 0 \<or> current_limit s - ?pos \<le> n" "t = s"
  proof (cases "0 \<le> n \<and> n \<le> INT_MAX - ?pos \<and> n < current_limit s - ?pos")
    case True
    moreover have "s\<lparr>current_limit := ?pos + n, total_bytes_limit := total_bytes_limit s\<rparr> = s\<lparr>current_limit := ?pos + n\<rparr>"
      by simp
    ultimately have "t = RecomputeBufferLimits (s\<lparr>current_limit := ?pos + n, total_bytes_limit := total_bytes_limit s\<rparr>)"
      using push by (simp only: PushLimit_def Let_def if_True conj_assoc simp_thms prod.inject)
    with True show thesis by (intro lower) simp_all
  next
    case False
    with push have "t = s" by (simp only: PushLimit_def Let_def if_False conj_assoc prod.inject)
    moreover have "n < 0 \<or> current_limit s - ?pos \<le> n" using False lim by linarith
    ultimately show thesis by (intro same)
  qed
  note cases = this
  have "coded_ok okI V t \<and> pending rest t = pending rest s \<and> CurrentPosition t = CurrentPosition s \<and>
      total_bytes_limit t = total_bytes_limit s \<and> legitimate_message_end t = legitimate_message_end s \<and>
      last_tag t = last_tag s \<and> recursion_budget t = recursion_budget s \<and> recursion_limit t = recursion_limit s \<and>
      readable rest t = (if 0 \<le> n then take (nat n) (readable rest s) else readable rest s)"
  proof (cases rule: cases)
    case lower
    have "?pos \<le> min (?pos + n) (total_bytes_limit s)" "?pos + n \<le> INT_MAX" using lower lim by auto
    from recompute_limits [OF ok this(2) lim(4) this(1)]
    have r: "coded_ok okI V t" "pending rest t = pending rest s" "CurrentPosition t = ?pos" "current_limit t = ?pos + n"
      "total_bytes_limit t = total_bytes_limit s" "legitimate_message_end t = legitimate_message_end s"
      "last_tag t = last_tag s" "recursion_budget t = recursion_budget s" "recursion_limit t = recursion_limit s"
      by (simp_all only: lower(4))
    have "closest_limit t - CurrentPosition t = min n (closest_limit s - ?pos)"
      using lower(3) by (simp add: closest_limit_def r)
    then have "nat (closest_limit t - CurrentPosition t) = min (nat n) (nat (closest_limit s - ?pos))" by simp
    then have "readable rest t = take (nat n) (readable rest s)"
      by (simp add: readable_def r(2) min.commute)
    with r lower show ?thesis by simp
  next
    case same
    have "length (readable rest s) \<le> nat n" if "0 \<le> n"
      using same(1) that by (auto simp: readable_def closest_limit_def)
    with same ok show ?thesis by simp
  qed
  then show "coded_ok okI V t" "pending rest t = pending rest s" "CurrentPosition t = CurrentPosition s"
    "total_bytes_limit t = total_bytes_limit s" "legitimate_message_end t = legitimate_message_end s"
    "last_tag t = last_tag s" "recursion_budget t = recursion_budget s" "recursion_limit t = recursion_limit s"
    "readable rest t = (if 0 \<le> n then take (nat n) (readable rest s) else readable rest s)" by blast+
qed

lemma push_limit_at:
  assumes ok: "coded_ok okI V s" and push: "PushLimit n s = (old, t)" and n: "0 \<le> n" "CurrentPosition s + n \<le> current_limit s"
  shows "current_limit t = CurrentPosition s + n"
proof (cases "n < current_limit s - CurrentPosition s")
  case True
  have "current_limit s \<le> INT_MAX" using ok by (simp add: coded_ok_def)
  with True n push show ?thesis by (auto simp: PushLimit_def Let_def RecomputeBufferLimits_def split: if_splits)
next
  case False
  then have "t = s" using push by (auto simp: PushLimit_def Let_def split: if_splits)
  with False n show ?thesis by simp
qed

text \<open>What is read below a limit is read from the stream, and popping the limit restores the rest.\<close>

lemma pop_limit_spec:
  assumes ok: "coded_ok okI V s" and push: "PushLimit n s = (old, t)" and c: "consumes okI rest V k t u"
  shows "consumes okI rest V k s ((PopLimit old u)\<lparr>legitimate_message_end := legitimate_message_end s\<rparr>)"
    and "\<not> legitimate_message_end (PopLimit old u)"
proof -
  note p = push_limit_spec(1-2) [OF ok push] push_limit_spec(3) [OF ok push, of rest]
    push_limit_spec(4-9) [OF ok push] push_limit_spec(10) [OF ok push, of rest]
  have u: "coded_ok okI V u" "coded_frame t u" "CurrentPosition u = CurrentPosition t + int k" "k \<le> length (readable rest t)"
    "pending rest u = drop k (pending rest t)"
    using c by (simp_all add: consumes_def)
  have lim: "current_limit s \<le> INT_MAX" "total_bytes_limit s \<le> INT_MAX" using ok by (auto simp: coded_ok_def)
  have k: "k \<le> length (readable rest s)" using u(4) p(10) by (auto split: if_splits)
  then have "CurrentPosition s + int k \<le> closest_limit s"
    using ok by (auto simp: coded_ok_def readable_def)
  then have pos: "CurrentPosition u \<le> min (current_limit s) (total_bytes_limit s)"
    using u(3) p(4) by (simp add: closest_limit_def)
  have tbl: "total_bytes_limit u = total_bytes_limit s" using u(2) p(5) by (simp add: coded_frame_def)
  then have "u\<lparr>current_limit := old\<rparr> = u\<lparr>current_limit := current_limit s, total_bytes_limit := total_bytes_limit s\<rparr>"
    using p(1) by simp
  then have pop: "PopLimit old u =
      (RecomputeBufferLimits (u\<lparr>current_limit := current_limit s, total_bytes_limit := total_bytes_limit s\<rparr>))
        \<lparr>legitimate_message_end := False\<rparr>"
    by (simp only: PopLimit_def)
  then show "\<not> legitimate_message_end (PopLimit old u)" by simp
  note r = recompute_limits [OF u(1) lim pos]
  show "consumes okI rest V k s ((PopLimit old u)\<lparr>legitimate_message_end := legitimate_message_end s\<rparr>)"
    unfolding pop using r k u p by (simp add: consumes_def coded_frame_def)
qed

context zero_copy_input
begin

section \<open>Construction and destruction\<close>

lemma ctor_spec:
  assumes "inv i"
  shows "\<exists>s. CodedInputStream_ctor V i = Some (Inr s) \<and> coded_ok inv V s \<and> pending rest s = rest i \<and>
    CurrentPosition s = 0 \<and> closest_limit s = INT_MAX"
proof -
  let ?s = "\<lparr>ci_data = [], ci_size = 0, ci_input = i, total_bytes_read = 0, overflow_bytes = 0,
         last_tag = 0, legitimate_message_end = False, current_limit = INT_MAX, buffer_size_after_limit = 0,
         total_bytes_limit = INT_MAX, recursion_budget = default_recursion_limit,
         recursion_limit = default_recursion_limit\<rparr>"
  have ok: "coded_ok inv V ?s" and e: "ci_size ?s = 0"
    using assms by (simp_all add: coded_ok_def closest_limit_def CurrentPosition_def BufferSize_def INT_MAX_def)
  from refresh_spec [OF ok e] obtain b t where "Refresh V ?s = Some (Inr (b, t))" "consumes inv rest V 0 ?s t" by blast
  moreover from this have "pending rest t = pending rest ?s" "CurrentPosition t = CurrentPosition ?s"
    "closest_limit t = closest_limit ?s" "coded_ok inv V t"
    by (auto simp: consumes_def dest: coded_frame_closest)
  ultimately show ?thesis
    by (auto simp: CodedInputStream_ctor_def pending_def CurrentPosition_def BufferSize_def closest_limit_def)
qed

lemma ctor_budget:
  assumes "inv i" and ctor: "CodedInputStream_ctor V i = Some (Inr s)"
  shows "recursion_budget s = default_recursion_limit"
proof -
  let ?s = "\<lparr>ci_data = [], ci_size = 0, ci_input = i, total_bytes_read = 0, overflow_bytes = 0,
         last_tag = 0, legitimate_message_end = False, current_limit = INT_MAX, buffer_size_after_limit = 0,
         total_bytes_limit = INT_MAX, recursion_budget = default_recursion_limit,
         recursion_limit = default_recursion_limit\<rparr>"
  have "coded_ok inv V ?s" and "ci_size ?s = 0"
    using assms(1) by (simp_all add: coded_ok_def closest_limit_def CurrentPosition_def BufferSize_def INT_MAX_def)
  from refresh_spec [OF this] obtain b t where "Refresh V ?s = Some (Inr (b, t))" "coded_frame ?s t"
    by (auto simp: consumes_def)
  with ctor show ?thesis by (simp add: CodedInputStream_ctor_def coded_frame_def)
qed

lemma dtor_spec:
  assumes ok: "coded_ok inv V s"
  shows "\<exists>i. CodedInputStream_dtor V s = Inr i \<and> inv i \<and> rest i = pending rest s"
proof -
  have n: "BufferSize s + buffer_size_after_limit s + overflow_bytes s = int (length (ci_data s))"
    using ok by (simp add: coded_ok_def BufferSize_def)
  show ?thesis
  proof (cases "ci_data s = []")
    case True
    with n ok show ?thesis
      by (simp add: CodedInputStream_dtor_def BackUpInputToCurrentPosition_def pending_def coded_ok_def Let_def)
  next
    case False
    then obtain i d p where i: "inv i" "zc_Next V i = Inr (Some d, ci_input s)" "d = p @ ci_data s"
      using ok by (auto simp: coded_ok_def)
    from False i(3) have len: "0 < int (length (ci_data s))" "int (length (ci_data s)) \<le> int (length d)" by simp_all
    from back_up [OF i(1,2) len] obtain s2 where "zc_BackUp V (int (length (ci_data s))) (ci_input s) = Inr s2" "inv s2"
      "rest s2 = ci_data s @ rest (ci_input s)" using i(3) by auto
    with n len show ?thesis
      by (simp add: CodedInputStream_dtor_def BackUpInputToCurrentPosition_def pending_def Let_def)
  qed
qed

section \<open>Skip\<close>

lemma skip_spec:
  assumes ok: "coded_ok inv V s" and n: "0 \<le> n"
  shows "\<exists>t. Skip V n s = Inr (nat n \<le> length (readable rest s), t) \<and>
    (if nat n \<le> length (readable rest s) then consumes inv rest V (nat n) s t else readable rest t = [])"
proof -
  obtain more where b: "readable rest s = buffer_bytes s @ more" "int (length (buffer_bytes s)) = ci_size s"
    using ok by (rule buffer_prefix)
  have lenr: "int (length (readable rest s)) = min (closest_limit s - CurrentPosition s) (int (length (pending rest s)))"
    using ok by (simp add: readable_def coded_ok_def min.commute of_nat_min)
  have total: "closest_limit s - CurrentPosition s = ci_size s + buffer_size_after_limit s + closest_limit s - total_bytes_read s"
    by (simp add: CurrentPosition_def BufferSize_def)
  consider "n \<le> ci_size s" | "ci_size s < n" "0 < buffer_size_after_limit s"
    | "ci_size s < n" "buffer_size_after_limit s = 0"
    using ok by (force simp: coded_ok_def)
  then show ?thesis
  proof cases
    case 1
    moreover have "nat n \<le> length (readable rest s)" using 1 b by (simp add: nat_le_iff)
    ultimately show ?thesis
      using advance_consumes(1) [OF ok n 1, of rest] n by (simp add: Skip_def BufferSize_def)
  next
    case 2
    then have "closest_limit s - CurrentPosition s = ci_size s"
      using ok total by (auto simp: coded_ok_def)
    then have "int (length (readable rest s)) \<le> ci_size s" using lenr by simp
    then have "readable rest (Advance (ci_size s) s) = []" "\<not> nat n \<le> length (readable rest s)"
      using consumes_readable [OF advance_all(1) [OF ok]] b 2 by (simp_all add: BufferSize_def)
    with 2 n show ?thesis by (simp add: Skip_def SkipFallback_def BufferSize_def)
  next
    case 3
    let ?until = "closest_limit s - total_bytes_read s" let ?count = "n - ci_size s" let ?s = "drop_buffer s"
    have until: "0 \<le> ?until" using ok 3 by (auto simp: coded_ok_def)
    have size: "nat (ci_size s) \<le> length (ci_data s)" "0 \<le> ci_size s" using coded_ok_size [OF ok] by linarith+
    have inp: "inv (ci_input s)" using ok by (simp add: coded_ok_def)
    have Skip: "Skip V n s = SkipFallback V n (ci_size s) s" using 3 n by (simp add: Skip_def BufferSize_def)
    have no_after: "\<not> buffer_size_after_limit s > 0" using 3 by simp
    have cl: "min (current_limit s) (total_bytes_limit s) = closest_limit s" by (simp add: closest_limit_def)
    have lim: "closest_limit s - CurrentPosition s = ci_size s + ?until" using total 3 by simp
    have fields: "current_limit ?s = current_limit s" "total_bytes_limit ?s = total_bytes_limit s"
      "total_bytes_read ?s = total_bytes_read s" "ci_input ?s = ci_input s" by (simp_all add: drop_buffer_def)
    show ?thesis
    proof (cases "?until = 0")
      case True
      then have "int (length (readable rest s)) \<le> ci_size s" using lenr lim by simp
      then have no: "\<not> nat n \<le> length (readable rest s)" using 3 by linarith
      have "Skip V n s = Inr (False, ?s)"
        using True 3 by (simp only: Skip SkipFallback_def no_after if_False Let_def fields cl) simp
      moreover have "closest_limit ?s - CurrentPosition ?s = 0"
        using True 3 by (simp add: drop_buffer_def closest_limit_def CurrentPosition_def BufferSize_def)
      then have "readable rest ?s = []" by (simp add: readable_def)
      ultimately show ?thesis using no by simp
    next
      case False
      then have over: "overflow_bytes s = 0" using ok until by (auto simp: coded_ok_def closest_limit_def)
      then have "int (length (ci_data s)) = ci_size s" using ok 3 by (simp add: coded_ok_def)
      then have data: "length (ci_data s) = nat (ci_size s)" "drop (nat (ci_size s)) (ci_data s) = []" by simp_all
      have pend: "int (length (pending rest s)) = ci_size s + int (length (rest (ci_input s)))"
        using data size by (simp add: pending_def)
      show ?thesis
      proof (cases "?until < ?count")
        case True
        from skip [OF inp until] obtain b i where i: "zc_Skip V ?until (ci_input s) = Inr (b, i)" "inv i" by blast
        let ?t = "?s\<lparr>total_bytes_read := closest_limit s, ci_input := i\<rparr>"
        have "Skip V n s = Inr (False, ?t)"
          using True False until i by (simp only: Skip SkipFallback_def no_after if_False Let_def fields cl) simp
        moreover have "readable rest ?t = []"
          using 3 by (simp add: readable_def drop_buffer_def closest_limit_def CurrentPosition_def BufferSize_def)
        moreover have "\<not> nat n \<le> length (readable rest s)" using True lenr lim by linarith
        ultimately show ?thesis by simp
      next
        case near: False
        have "0 \<le> ?count" "0 < ?count" using 3 by simp_all
        from skip [OF inp this(1)] this(2) obtain i where
          i: "zc_Skip V ?count (ci_input s) = Inr (?count \<le> int (length (rest (ci_input s))), i)" "inv i"
            "rest i = drop (nat ?count) (rest (ci_input s))" by blast
        have "(nat n \<le> length (readable rest s)) = (?count \<le> int (length (rest (ci_input s))))"
          using near lenr lim pend n by linarith
        note yes = this
        show ?thesis
        proof (cases "?count \<le> int (length (rest (ci_input s)))")
          case False
          let ?t = "?s\<lparr>total_bytes_read := zc_ByteCount V i, ci_input := i\<rparr>"
          have "Skip V n s = Inr (False, ?t)"
            using near False i by (simp only: Skip SkipFallback_def no_after if_False Let_def fields cl) simp
          moreover have "readable rest ?t = []"
            using i(3) False data(2) by (simp add: readable_def drop_buffer_def pending_def)
          ultimately show ?thesis using yes False by simp
        next
          case True
          let ?t = "?s\<lparr>total_bytes_read := total_bytes_read s + ?count, ci_input := i\<rparr>"
          have "Skip V n s = Inr (True, ?t)"
            using near True i by (simp only: Skip SkipFallback_def no_after if_False Let_def fields cl) simp
          moreover have pos: "CurrentPosition ?t = CurrentPosition s + n" and cl': "closest_limit ?t = closest_limit s"
            using 3 by (simp_all add: drop_buffer_def closest_limit_def CurrentPosition_def BufferSize_def)
          moreover have "CurrentPosition s + n \<le> closest_limit s" "total_bytes_read s + ?count \<le> closest_limit s"
            "closest_limit s \<le> INT_MAX"
            using near lim ok by (auto simp: coded_ok_def closest_limit_def)
          then have "coded_ok inv V ?t"
            using ok i 3 over data n unfolding coded_ok_def pos cl' by (simp add: drop_buffer_def)
          moreover have "pending rest ?t = drop (nat n) (pending rest s)"
          proof -
            have "nat n = nat (ci_size s) + nat ?count" using 3 size n by linarith
            then show ?thesis using data i(3) by (simp add: pending_def drop_buffer_def)
          qed
          ultimately show ?thesis using yes True n by (simp add: consumes_def coded_frame_def drop_buffer_def)
        qed
      qed
    qed
  qed
qed

end

end
