(* ===== verification/Coded_Input_Tags.thy ===== *)
theory Coded_Input_Tags
  imports Coded_Input_Reads Coded_Input_Limits
begin

text \<open>
  Tags, with the flag that tells a parser whether a tag 0 ends the message, and the fixed-size
  integers; then the properties of \<open>CodedInputStream\<close> over the \<open>FileInputStream\<close> of the program.
\<close>

section \<open>Tags\<close>

text \<open>Where a tag 0 is the legitimate end of the message.\<close>

definition at_message_end :: "'s coded_input \<Rightarrow> bool" where
  "at_message_end s \<longleftrightarrow> CurrentPosition s < total_bytes_limit s \<or> current_limit s = total_bytes_limit s"

definition takes_tag ::
    "('s \<Rightarrow> bool) \<Rightarrow> ('s \<Rightarrow> byte list) \<Rightarrow> 's zc_input \<Rightarrow> 's coded_input \<Rightarrow> (32 word \<times> 's coded_input) run \<Rightarrow> bool" where
  "takes_tag ok rest V s r \<longleftrightarrow> (\<exists>tag u k b. r = Some (Inr (tag, u\<lparr>legitimate_message_end := b\<rparr>)) \<and> consumes ok rest V k s u \<and>
     (case varint_of kMaxVarintBytes (readable rest s) of
        Varint n bs \<Rightarrow> tag = word_of_nat n \<and> (tag \<noteq> 0 \<longrightarrow> readable rest u = bs)
      | _ \<Rightarrow> tag = 0) \<and>
     (if readable rest s = [] then tag = 0 \<and> (at_message_end s \<longrightarrow> b) else b = legitimate_message_end s))"

lemma takes_tag_varint:
  assumes "takes_varint okI rest V kMaxVarintBytes word_of_nat 0 s r"
    and "readable rest s = [] \<Longrightarrow> \<not> at_message_end s"
  shows "takes_tag okI rest V s r"
proof -
  obtain tag u k where r: "r = Some (Inr (tag, u))" "consumes okI rest V k s u"
    and tag: "case varint_of kMaxVarintBytes (readable rest s) of
        Varint n bs \<Rightarrow> tag = word_of_nat n \<and> (tag \<noteq> 0 \<longrightarrow> readable rest u = bs) | _ \<Rightarrow> tag = 0"
    using assms(1) unfolding takes_varint_def by blast
  have "u\<lparr>legitimate_message_end := legitimate_message_end u\<rparr> = u" "legitimate_message_end u = legitimate_message_end s"
    using r(2) by (simp_all add: consumes_def coded_frame_def)
  moreover have "readable rest s = [] \<Longrightarrow> tag = 0" using tag by simp
  ultimately show ?thesis
    using r tag assms(2) unfolding takes_tag_def
    by (intro exI [of _ tag] exI [of _ u] exI [of _ k] exI [of _ "legitimate_message_end s"]) simp
qed

lemma takes_varint_consumes:
  assumes "consumes okI rest V 0 s t" and "takes_varint okI rest V m val fail t r"
  shows "takes_varint okI rest V m val fail s r"
proof -
  have "readable rest t = readable rest s" using consumes_readable [OF assms(1)] by simp
  with assms(2) consumes_trans [OF assms(1)] show ?thesis unfolding takes_varint_def by fastforce
qed

lemma at_limit_readable:
  assumes "coded_ok okI V s" and "ci_size s = 0" and "buffer_size_after_limit s > 0 \<or> total_bytes_read s = current_limit s"
  shows "readable rest s = []"
proof -
  have "closest_limit s - CurrentPosition s \<le> 0"
    using assms by (auto simp: coded_ok_def closest_limit_def CurrentPosition_def BufferSize_def)
  then show ?thesis by (simp add: readable_def)
qed

context zero_copy_input
begin

lemma read_tag_slow_spec:
  assumes ok: "coded_ok inv V s"
  shows "takes_tag inv rest V s (ReadTagSlow V s)"
proof -
  let ?read = "\<lambda>s. bind_run (ReadVarint64 V s) (\<lambda>(r, s).
      return_run (case r of None \<Rightarrow> 0 | Some result \<Rightarrow> (ucast result :: 32 word), s))"
  have read: "takes_varint inv rest V kMaxVarintBytes word_of_nat 0 t (?read t)" if "coded_ok inv V t" for t
    using takes_varint_map [OF read_varint64_spec [OF that],
        of "\<lambda>r. case r of None \<Rightarrow> 0 | Some result \<Rightarrow> (ucast result :: 32 word)"]
    by (simp add: ucast_of_nat_32)
  show ?thesis
  proof (cases "ci_size s = 0")
    case False
    then have "0 < ci_size s" using coded_ok_size [OF ok] by simp
    moreover obtain more where "readable rest s = buffer_bytes s @ more" "int (length (buffer_bytes s)) = ci_size s"
      using ok by (rule buffer_prefix)
    ultimately have "readable rest s \<noteq> []" by auto
    then have "takes_tag inv rest V s (?read s)" by (intro takes_tag_varint read ok) simp
    with False show ?thesis by (simp add: ReadTagSlow_def BufferSize_def)
  next
    case True
    from refresh_spec [OF ok True] obtain b t where t: "Refresh V s = Some (Inr (b, t))" "consumes inv rest V 0 s t"
      "\<not> b \<longrightarrow> readable rest s = [] \<and> ci_size t = 0" "b \<longrightarrow> pending rest s \<noteq> []" by blast
    show ?thesis
    proof (cases b)
      case b: True
      have "\<not> at_message_end s" if "readable rest s = []"
      proof -
        have "\<not> buffer_size_after_limit s > 0" "total_bytes_read s \<noteq> current_limit s"
          using t(1) b by (auto simp: Refresh_def split: if_splits)
        moreover have "nat (closest_limit s - CurrentPosition s) = 0" using that t(4) b by (simp add: readable_def)
        ultimately show ?thesis
          using ok True by (auto simp: at_message_end_def coded_ok_def closest_limit_def CurrentPosition_def BufferSize_def)
      qed
      moreover have "coded_ok inv V t" using t(2) by (simp add: consumes_def)
      ultimately have "takes_tag inv rest V s (?read t)" by (intro takes_tag_varint takes_varint_consumes [OF t(2)] read)
      with t(1) b True show ?thesis by (simp add: ReadTagSlow_def BufferSize_def)
    next
      case False
      let ?b = "if CurrentPosition t \<ge> total_bytes_limit t then current_limit t = total_bytes_limit t else True"
      have none: "readable rest s = []" using False t(3) by simp
      have "ReadTagSlow V s = return_run (0, t\<lparr>legitimate_message_end := ?b\<rparr>)"
        using t(1,3) False True by (simp add: ReadTagSlow_def BufferSize_def CurrentPosition_def Let_def)
      moreover have "at_message_end s \<longrightarrow> ?b"
        using t(2) by (auto simp: at_message_end_def consumes_def coded_frame_def)
      ultimately show ?thesis
        using t(2) none unfolding takes_tag_def
        by (intro exI [of _ 0] exI [of _ t] exI [of _ ?b]) simp
    qed
  qed
qed

lemma read_tag_fallback_spec:
  assumes ok: "coded_ok inv V s" and hd: "0 < BufferSize s \<longrightarrow> 128 \<le> unat (hd (ci_data s))"
    and v: "0 < BufferSize s \<longrightarrow> v = ucast (hd (ci_data s))"
  shows "takes_tag inv rest V s (ReadTagFallback V v s)"
proof (cases "array_readable s")
  case True
  then have big: "128 \<le> unat (hd (ci_data s))" "v = ucast (hd (ci_data s))" using hd v array_hd(2) [OF True ok] by simp_all
  then have "unat v \<noteq> 0" by (simp add: unat_ucast_byte_32)
  then have "v \<noteq> 0" by auto
  from read_array_32 [OF True ok big(1)] big(2) obtain dead where
    r: "ReadVarint32FromArray v (buffer_bytes s) = (case varint_of kMaxVarintBytes (buffer_bytes s) of
        Varint v rest \<Rightarrow> Inr (Some (word_of_nat v), rest) | Overlong \<Rightarrow> Inr (None, dead) | Truncated \<Rightarrow> Inl Out_of_bounds)"
    by (auto simp: kMaxVarintBytes_def)
  from True ok have "takes_varint inv rest V kMaxVarintBytes word_of_nat 0 s (ReadTagFallback V v s)"
    by (cases rule: array_varint_cases [where rest = rest])
       (use r True \<open>v \<noteq> 0\<close> in \<open>auto simp: ReadTagFallback_def takes_varint_def\<close>)
  moreover have "readable rest s \<noteq> []"
  proof -
    obtain more where "readable rest s = buffer_bytes s @ more" using ok by (rule buffer_prefix)
    with array_readable_decides(2) [OF True ok] show ?thesis by simp
  qed
  ultimately show ?thesis by (intro takes_tag_varint) simp_all
next
  case slow: False
  show ?thesis
  proof (cases "BufferSize s = 0 \<and> (buffer_size_after_limit s > 0 \<or> total_bytes_read s = current_limit s) \<and>
      total_bytes_read s - buffer_size_after_limit s < total_bytes_limit s")
    case True
    then have "readable rest s = []" using at_limit_readable [OF ok] by (simp add: BufferSize_def)
    moreover have "consumes inv rest V 0 s s" using ok by (simp add: consumes_def coded_frame_def)
    moreover have "ReadTagFallback V v s = return_run (0, s\<lparr>legitimate_message_end := True\<rparr>)"
      using slow True by (simp add: ReadTagFallback_def)
    ultimately show ?thesis
      unfolding takes_tag_def
      by (intro exI [of _ 0] exI [of _ s] exI [of _ True]) simp
  next
    case False
    then have "ReadTagFallback V v s = ReadTagSlow V s"
      using slow by (simp only: ReadTagFallback_def if_False)
    then show ?thesis using read_tag_slow_spec [OF ok] by simp
  qed
qed

lemma read_tag_no_last_tag_spec:
  assumes ok: "coded_ok inv V s"
  shows "takes_tag inv rest V s (ReadTagNoLastTag V s)"
proof (cases "BufferSize s > 0 \<and> unat (hd (ci_data s)) < 0x80")
  case True
  note b = one_byte [OF ok conjunct1 [OF True]]
  have "readable rest s \<noteq> []" using b(1) True by auto
  moreover have "takes_varint inv rest V kMaxVarintBytes word_of_nat 0 s (ReadTagNoLastTag V s)"
    using b True by (auto simp: ReadTagNoLastTag_def takes_varint_def unat_ucast_byte_32)
  ultimately show ?thesis by (intro takes_tag_varint) simp_all
next
  case False
  let ?v = "if BufferSize s > 0 then ucast (hd (ci_data s)) else 0"
  have "ReadTagNoLastTag V s = ReadTagFallback V ?v s"
    using False by (auto simp: ReadTagNoLastTag_def Let_def unat_ucast_byte_32)
  then show ?thesis using False by (auto intro: read_tag_fallback_spec [OF ok])
qed

section \<open>Fixed-size integers\<close>

lemma little_endian_take:
  "ReadLittleEndian32FromArray (take 4 bs) = ReadLittleEndian32FromArray bs"
  "ReadLittleEndian64FromArray (take 8 bs) = ReadLittleEndian64FromArray bs"
  by (simp_all add: ReadLittleEndian32FromArray_def ReadLittleEndian64FromArray_def drop_take)

lemma read_little_endian_spec:
  assumes ok: "coded_ok inv V s"
  shows "\<exists>t. ReadLittleEndian32 V s =
      Some (Inr (if 4 \<le> length (readable rest s) then Some (ReadLittleEndian32FromArray (readable rest s)) else None, t)) \<and>
      consumes inv rest V (min 4 (length (readable rest s))) s t"
    and "\<exists>t. ReadLittleEndian64 V s =
      Some (Inr (if 8 \<le> length (readable rest s) then Some (ReadLittleEndian64FromArray (readable rest s)) else None, t)) \<and>
      consumes inv rest V (min 8 (length (readable rest s))) s t"
proof -
  have direct: "consumes inv rest V (min n (length (readable rest s))) s (Advance (int n) s)"
    "take n (ci_data s) = take n (readable rest s)" "n \<le> length (readable rest s)"
    if "int n \<le> BufferSize s" for n
    using advance_consumes [OF ok, of "int n" rest] that by (simp_all add: BufferSize_def consumes_def min_absorb1)
  have raw: "\<exists>t. ReadRaw V (int n) s = Some (Inr (n \<le> length (readable rest s), take n (readable rest s), t)) \<and>
      consumes inv rest V (min n (length (readable rest s))) s t" for n
    using read_raw_spec [OF ok, of "int n"] by (simp add: takes_bytes_def)
  show "\<exists>t. ReadLittleEndian32 V s =
      Some (Inr (if 4 \<le> length (readable rest s) then Some (ReadLittleEndian32FromArray (readable rest s)) else None, t)) \<and>
      consumes inv rest V (min 4 (length (readable rest s))) s t"
    using direct [of 4] raw [of 4] little_endian_take(1) [of "ci_data s"] little_endian_take(1) [of "readable rest s"]
    by (cases "BufferSize s \<ge> 4") (auto simp: ReadLittleEndian32_def ReadLittleEndian32Fallback_def)
  show "\<exists>t. ReadLittleEndian64 V s =
      Some (Inr (if 8 \<le> length (readable rest s) then Some (ReadLittleEndian64FromArray (readable rest s)) else None, t)) \<and>
      consumes inv rest V (min 8 (length (readable rest s))) s t"
    using direct [of 8] raw [of 8] little_endian_take(2) [of "ci_data s"] little_endian_take(2) [of "readable rest s"]
    by (cases "BufferSize s \<ge> 8") (auto simp: ReadLittleEndian64_def ReadLittleEndian64Fallback_def)
qed

end

section \<open>Properties\<close>


lemma skip_result:
  assumes "coded_ok file_inv FileInputStream s" and "0 \<le> n"
  shows "\<exists>t. Skip FileInputStream n s = Inr (nat n \<le> length (readable file_rest s), t) \<and>
    readable file_rest t = drop (nat n) (readable file_rest s)"
proof -
  from file_in.skip_spec [OF assms] obtain t where
    "Skip FileInputStream n s = Inr (nat n \<le> length (readable file_rest s), t)"
    "if nat n \<le> length (readable file_rest s) then consumes file_inv file_rest FileInputStream (nat n) s t
     else readable file_rest t = []" by blast
  then show ?thesis by (auto dest: consumes_readable split: if_splits)
qed


definition demo_file :: file_input where
  "demo_file = FileInputStream_ctor [Arrives [0xAC], Fails EINTR, Arrives [2, 7]] False (\<lambda>evs n. evs) 0"

lemma demo_varint:
  "varint_of kMaxVarintBytes [0xAC, 2, 7] = Varint 300 [7]" "varint_of kMaxVarintBytes [0xAC] = Truncated"
  by code_simp+

lemma demo_file_inv: "file_inv demo_file"
  by (simp add: demo_file_def FileInputStream_ctor_def CopyingInputStreamAdaptor_ctor_def CopyingFileInputStream_ctor_def
      file_inv_def file_ok_def buffer_get_def kDefaultBlockSize_def)

lemma demo_file_rest: "file_rest demo_file = [0xAC, 2, 7]"
  by (simp add: demo_file_def FileInputStream_ctor_def CopyingInputStreamAdaptor_ctor_def CopyingFileInputStream_ctor_def
      file_rest_def buffer_get_def EINTR_def)

lemma demo_coded:
  obtains s where "CodedInputStream_ctor FileInputStream demo_file = Some (Inr s)" and "coded_ok file_inv FileInputStream s"
    and "pending file_rest s = [0xAC, 2, 7]" and "readable file_rest s = [0xAC, 2, 7]"
proof -
  from file_in.ctor_spec [OF demo_file_inv] obtain s where "CodedInputStream_ctor FileInputStream demo_file = Some (Inr s)"
    "coded_ok file_inv FileInputStream s" "pending file_rest s = [0xAC, 2, 7]" "CurrentPosition s = 0" "closest_limit s = INT_MAX"
    by (auto simp: demo_file_rest)
  then show thesis using that by (simp add: readable_def INT_MAX_def)
qed


text \<open>
  Limits nest: below a pushed limit of \<open>n\<close> bytes exactly the first \<open>n\<close> bytes that were readable can
  be read, and popping it after any reading makes the bytes after those consumed readable again, under
  the old limit.
\<close>

theorem coded_limits:
  assumes "coded_ok file_inv FileInputStream s" and "0 \<le> n" and "PushLimit n s = (old, t)"
    and "consumes file_inv file_rest FileInputStream k t u"
  shows "readable file_rest t = take (nat n) (readable file_rest s) \<and>
    readable file_rest (PopLimit old u) = drop k (readable file_rest s) \<and>
    coded_ok file_inv FileInputStream (PopLimit old u) \<and> current_limit (PopLimit old u) = current_limit s"
proof -
  note pop = pop_limit_spec(1) [OF assms(1,3,4)]
  have "readable file_rest t = take (nat n) (readable file_rest s)"
    using push_limit_spec(10) [OF assms(1,3)] assms(2) by simp
  moreover have "coded_ok file_inv FileInputStream (PopLimit old u)" "current_limit (PopLimit old u) = current_limit s"
    using pop by (simp_all add: consumes_def coded_frame_def)
  ultimately show ?thesis using consumes_readable [OF pop] by simp
qed

lemma coded_limits_witness:
  "\<exists>s old t u. CodedInputStream_ctor FileInputStream demo_file = Some (Inr s) \<and> PushLimit 1 s = (old, t) \<and>
     readable file_rest t = [0xAC] \<and> ReadVarint64 FileInputStream t = Some (Inr (None, u)) \<and>
     (\<exists>k. readable file_rest (PopLimit old u) = drop k [0xAC, 2, 7])"
proof -
  obtain s where s: "CodedInputStream_ctor FileInputStream demo_file = Some (Inr s)" "coded_ok file_inv FileInputStream s"
    "readable file_rest s = [0xAC, 2, 7]" by (rule demo_coded)
  obtain old t where push: "PushLimit 1 s = (old, t)" by (cases "PushLimit 1 s")
  then have t: "coded_ok file_inv FileInputStream t" "readable file_rest t = [0xAC]"
    using push_limit_spec(2,10) [OF s(2) push] s(3) by simp_all
  from file_in.read_varint64_spec [OF t(1)] t(2) obtain u k where
    u: "ReadVarint64 FileInputStream t = Some (Inr (None, u))" "consumes file_inv file_rest FileInputStream k t u"
    by (auto simp: takes_varint_def demo_varint)
  from coded_limits [OF s(2) _ push u(2)] s t push u(1) show ?thesis by auto
qed

text \<open>
  Nothing is lost between two messages: a \<open>CodedInputStream\<close> that is created on the stream of a
  connection, read from and destroyed leaves the connection exactly after the bytes it consumed,
  although it had buffered more.
\<close>

theorem coded_session:
  assumes "file_inv i" and "CodedInputStream_ctor FileInputStream i = Some (Inr s)"
    and "consumes file_inv file_rest FileInputStream k s t"
  shows "\<exists>i'. CodedInputStream_dtor FileInputStream t = Inr i' \<and> file_inv i' \<and> file_rest i' = drop k (file_rest i)"
proof -
  from file_in.ctor_spec [OF assms(1)] assms(2) have "pending file_rest s = file_rest i" by simp
  moreover from assms(3) have "coded_ok file_inv FileInputStream t" "pending file_rest t = drop k (pending file_rest s)"
    by (simp_all add: consumes_def)
  ultimately show ?thesis using file_in.dtor_spec [of t] by auto
qed

lemma coded_session_witness:
  "\<exists>s t i'. CodedInputStream_ctor FileInputStream demo_file = Some (Inr s) \<and>
     ReadRaw FileInputStream 2 s = Some (Inr (True, [0xAC, 2], t)) \<and>
     CodedInputStream_dtor FileInputStream t = Inr i' \<and> file_rest i' = [7]"
proof -
  obtain s where s: "CodedInputStream_ctor FileInputStream demo_file = Some (Inr s)" "coded_ok file_inv FileInputStream s"
    "readable file_rest s = [0xAC, 2, 7]" by (rule demo_coded)
  from file_in.read_raw_spec [OF s(2), of 2] obtain t where
    t: "ReadRaw FileInputStream 2 s = Some (Inr (True, [0xAC, 2], t))"
    "consumes file_inv file_rest FileInputStream (min (nat 2) (length (readable file_rest s))) s t"
    unfolding takes_bytes_def by (auto simp: s(3) eval_nat_numeral)
  from coded_session [OF demo_file_inv s(1) t(2)] s(1) t(1) show ?thesis by (auto simp: demo_file_rest s(3))
qed

text \<open>
  \<open>ReadTag\<close> returns the varint at the front as a tag and remembers it, 0 where there is none; at a
  limit or the end of the stream it also reports that the message ended properly, unless the
  total limit of the stream cut it off, and it never reports so while a byte is readable.
\<close>

theorem read_tag_end:
  assumes "coded_ok file_inv FileInputStream s" and "\<not> legitimate_message_end s"
  shows "\<exists>tag t. ReadTag FileInputStream s = Some (Inr (tag, t)) \<and> LastTagWas tag t \<and>
    (case varint_of kMaxVarintBytes (readable file_rest s) of
       Varint n bs \<Rightarrow> tag = word_of_nat n \<and> (tag \<noteq> 0 \<longrightarrow> readable file_rest t = bs)
     | _ \<Rightarrow> tag = 0) \<and>
    (readable file_rest s = [] \<and> at_message_end s \<longrightarrow> ConsumedEntireMessage t) \<and>
    (readable file_rest s \<noteq> [] \<longrightarrow> \<not> ConsumedEntireMessage t)"
  using file_in.read_tag_no_last_tag_spec [OF assms(1)] assms(2)
  by (force simp: takes_tag_def ReadTag_def LastTagWas_def ConsumedEntireMessage_def split: if_splits varint.splits)

lemma read_tag_end_witness:
  "\<exists>s t. CodedInputStream_ctor FileInputStream demo_file = Some (Inr s) \<and>
     ReadTag FileInputStream (s\<lparr>legitimate_message_end := False\<rparr>) = Some (Inr (300, t)) \<and> LastTagWas 300 t \<and>
     \<not> ConsumedEntireMessage t"
proof -
  obtain s where s: "CodedInputStream_ctor FileInputStream demo_file = Some (Inr s)" "coded_ok file_inv FileInputStream s"
    "readable file_rest s = [0xAC, 2, 7]" by (rule demo_coded)
  with read_tag_end [of "s\<lparr>legitimate_message_end := False\<rparr>"] show ?thesis by (auto simp: demo_varint)
qed

text \<open>
  \<open>Skip\<close> moves over exactly \<open>n\<close> bytes, buffered or not, when as many are readable; otherwise it says so
  and leaves nothing readable.
\<close>

theorem coded_skip:
  assumes "coded_ok file_inv FileInputStream s" and "0 \<le> n"
  shows "\<exists>t. Skip FileInputStream n s = Inr (nat n \<le> length (readable file_rest s), t) \<and>
    readable file_rest t = drop (nat n) (readable file_rest s)"
  using assms by (rule skip_result)

lemma coded_skip_witness:
  "\<exists>s t. CodedInputStream_ctor FileInputStream demo_file = Some (Inr s) \<and>
     Skip FileInputStream 2 s = Inr (True, t) \<and> readable file_rest t = [7]"
proof -
  obtain s where s: "CodedInputStream_ctor FileInputStream demo_file = Some (Inr s)" "coded_ok file_inv FileInputStream s"
    "readable file_rest s = [0xAC, 2, 7]" by (rule demo_coded)
  from coded_skip [OF s(2), of 2] s show ?thesis by auto
qed

end
