(* ===== verification/Wire_Fields.thy ===== *)
theory Wire_Fields
  imports Wire_Format Coded_Input_Tags
begin

text \<open>
  One field on the wire: tags, zig-zag and fixed-size integers are read back as they were written, and every
  type of field keeps the contract \<open>wire_primitive\<close>: its reader takes exactly the bytes its writer writes.
\<close>

section \<open>Tags\<close>

lemma unat_wire_type: "unat (wire_type_value t) < 8"
  by (cases t) simp_all

lemma wire_type_value_inject: "wire_type_value t = wire_type_value u \<longleftrightarrow> t = u"
  by (cases t; cases u) simp_all

lemma bit_wire_type: "bit (wire_type_value t) n \<Longrightarrow> n < 3"
  by (cases t) (auto simp: bit_1_iff bit_numeral_rec split: nat.splits)

lemma GetTagWireType_MakeTag: "GetTagWireType (MakeTag f t) = wire_type_value t"
proof -
  have "wire_type_value t AND 7 = wire_type_value t" by (cases t) simp_all
  moreover have "push_bit 3 w AND 7 = (0 :: 32 word)" for w
  proof (rule bit_word_eqI)
    fix n
    assume "n < LENGTH(32)"
    have "(7 :: 32 word) = mask 3" by (simp add: mask_eq_exp_minus_1)
    then have "push_bit 3 w AND 7 = push_bit 3 w AND mask 3" by (simp only:)
    then show "bit (push_bit 3 w AND 7) n = bit (0 :: 32 word) n" by (simp add: bit_simps)
  qed
  ultimately show ?thesis
    by (simp add: GetTagWireType_def MakeTag_def kTagTypeMask_def kTagTypeBits_def bit.conj_disj_distrib2)
qed

lemma drop_bit_MakeTag: "drop_bit kTagTypeBits (MakeTag f t) = take_bit 29 (word_of_int f)"
proof -
  have "drop_bit 3 (wire_type_value t) = 0" by (cases t) simp_all
  moreover have "drop_bit 3 (push_bit 3 w) = take_bit 29 (w :: 32 word)" for w
    by (rule bit_word_eqI) (auto simp: bit_simps)
  ultimately show ?thesis by (simp add: MakeTag_def kTagTypeBits_def drop_bit_or)
qed

lemma GetTagFieldNumber_MakeTag:
  assumes "0 \<le> f" and "f < 2 ^ 29"
  shows "GetTagFieldNumber (MakeTag f t) = f"
proof -
  have t: "take_bit 29 f = f" "take_bit 32 f = f" using assms by (simp_all add: take_bit_int_eq_self)
  have "take_bit 29 (word_of_int f :: 32 word) = word_of_int f" by (simp add: take_bit_of_int t)
  moreover have "sint (word_of_int f :: 32 word) = f"
    using assms by (simp add: signed_of_int signed_take_bit_int_eq_self)
  ultimately show ?thesis by (simp add: GetTagFieldNumber_def drop_bit_MakeTag)
qed

lemma MakeTag_inject:
  assumes "0 \<le> f" and "f < 2 ^ 29" and "0 \<le> g" and "g < 2 ^ 29"
  shows "MakeTag f t = MakeTag g u \<longleftrightarrow> f = g \<and> t = u"
  using GetTagFieldNumber_MakeTag [of f t] GetTagFieldNumber_MakeTag [of g u] GetTagWireType_MakeTag [of f t]
    GetTagWireType_MakeTag [of g u] assms wire_type_value_inject [of t u] by metis

text \<open>The size of a tag does not depend on the wire type.\<close>

lemma push_div_8:
  "unat (push_bit 3 w OR wire_type_value t) div 8 = unat (push_bit 3 w :: 32 word) div 8"
proof -
  have "drop_bit 3 (push_bit 3 w OR wire_type_value t) = drop_bit 3 (push_bit 3 w :: 32 word)"
  proof -
    have "drop_bit 3 (wire_type_value t) = 0" by (cases t) simp_all
    then show ?thesis by (simp add: drop_bit_or)
  qed
  moreover have "unat (drop_bit 3 x) = unat x div 8" for x :: "32 word"
    using unat_div_distrib [of x 8] by (simp add: drop_bit_eq_div)
  ultimately show ?thesis by metis
qed

lemma length_varint_enc_eighth:
  assumes "n div 8 = m div 8"
  shows "length (varint_enc n) = length (varint_enc m)"
proof -
  have "n div 128 = m div 128" using assms by (metis div_mult2_eq num_double numeral_times_numeral)
  then show ?thesis by (cases "n < 128"; cases "m < 128") (auto simp: varint_enc_small varint_enc_big)
qed

lemma TagSize_spec:
  "WireFormatLite_TagSize f type =
     (if type = TYPE_GROUP then length (WireFormatLite_WriteTagToArray f WIRETYPE_START_GROUP @ WireFormatLite_WriteTagToArray f WIRETYPE_END_GROUP)
      else length (WireFormatLite_WriteTagToArray f t))"
proof -
  have "length (WireFormatLite_WriteTagToArray f u) = VarintSize32 (push_bit kTagTypeBits (word_of_int f))" for u
    by (simp add: WireFormatLite_WriteTagToArray_def WriteTagToArray_def WriteVarint32ToArray_def UnsafeVarint_enc
        VarintSize32_length MakeTag_def kTagTypeBits_def length_varint_enc_eighth [OF push_div_8])
  then show ?thesis by (simp add: WireFormatLite_TagSize_def)
qed

section \<open>Zig-zag\<close>

lemma minus_low_bit: "NOT (n AND 1) + 1 = (if odd n then - 1 else (0 :: 'a::len word))"
  by (simp add: minus_eq_not_plus_1 [symmetric] and_one_eq odd_iff_mod_2_eq_one)

lemma bit_ZigZagEncode:
  "bit (ZigZagEncode32 v) n \<longleftrightarrow> n < 32 \<and> bit v 31 \<noteq> (0 < n \<and> bit v (n - 1))"
  "bit (ZigZagEncode64 w) n \<longleftrightarrow> n < 64 \<and> bit w 63 \<noteq> (0 < n \<and> bit w (n - 1))"
proof -
  have len: "bit v m \<Longrightarrow> m < 32" "bit w m \<Longrightarrow> m < 64" for m using bit_imp_le_length [of v m] bit_imp_le_length [of w m] by simp_all
  show "bit (ZigZagEncode32 v) n \<longleftrightarrow> n < 32 \<and> bit v 31 \<noteq> (0 < n \<and> bit v (n - 1))"
    by (cases n, simp_all only: ZigZagEncode32_def bit_xor_iff bit_push_bit_iff bit_signed_drop_bit_iff) (auto dest: len)
  show "bit (ZigZagEncode64 w) n \<longleftrightarrow> n < 64 \<and> bit w 63 \<noteq> (0 < n \<and> bit w (n - 1))"
    by (cases n, simp_all only: ZigZagEncode64_def bit_xor_iff bit_push_bit_iff bit_signed_drop_bit_iff) (auto dest: len)
qed

lemma bit_ZigZagDecode:
  "bit (ZigZagDecode32 m) n \<longleftrightarrow> n < 32 \<and> bit m (Suc n) \<noteq> bit m 0"
  "bit (ZigZagDecode64 k) n \<longleftrightarrow> n < 64 \<and> bit k (Suc n) \<noteq> bit k 0"
proof -
  have len: "bit m i \<Longrightarrow> i < 32" "bit k i \<Longrightarrow> i < 64" for i using bit_imp_le_length [of m i] bit_imp_le_length [of k i] by simp_all
  show "bit (ZigZagDecode32 m) n \<longleftrightarrow> n < 32 \<and> bit m (Suc n) \<noteq> bit m 0"
    by (simp only: ZigZagDecode32_def minus_low_bit bit_xor_iff bit_drop_bit_eq o_def) (auto simp: bit_0 dest: len)
  show "bit (ZigZagDecode64 k) n \<longleftrightarrow> n < 64 \<and> bit k (Suc n) \<noteq> bit k 0"
    by (simp only: ZigZagDecode64_def minus_low_bit bit_xor_iff bit_drop_bit_eq o_def) (auto simp: bit_0 dest: len)
qed

lemma ZigZag_decode_encode: "ZigZagDecode32 (ZigZagEncode32 v) = v" "ZigZagDecode64 (ZigZagEncode64 w) = w"
proof -
  show "ZigZagDecode32 (ZigZagEncode32 v) = v"
  proof (rule bit_word_eqI)
    fix n
    assume "n < LENGTH(32)"
    then show "bit (ZigZagDecode32 (ZigZagEncode32 v)) n = bit v n"
      by (cases "n = 31") (auto simp: bit_ZigZagEncode bit_ZigZagDecode)
  qed
  show "ZigZagDecode64 (ZigZagEncode64 w) = w"
  proof (rule bit_word_eqI)
    fix n
    assume "n < LENGTH(64)"
    then show "bit (ZigZagDecode64 (ZigZagEncode64 w)) n = bit w n"
      by (cases "n = 63") (auto simp: bit_ZigZagEncode bit_ZigZagDecode)
  qed
qed

section \<open>Fixed-size integers\<close>

lemma object_bytes_32: "object_bytes 4 v = WriteLittleEndian32ToArray v"
  by (simp add: object_bytes_def WriteLittleEndian32ToArray_def upt_rec)

lemma object_bytes_64: "object_bytes 8 v = WriteLittleEndian64ToArray v"
proof -
  have "ucast (drop_bit k (ucast v :: 32 word)) = (ucast (drop_bit k v) :: byte)" if "k + 8 \<le> 32" for k
    using that by (intro bit_word_eqI) (auto simp: bit_simps)
  from this [of 0] this [of 8] this [of 16] this [of 24] have
    "ucast (ucast v :: 32 word) = (ucast v :: byte)"
    "ucast (drop_bit 8 (ucast v :: 32 word)) = (ucast (drop_bit 8 v) :: byte)"
    "ucast (drop_bit 16 (ucast v :: 32 word)) = (ucast (drop_bit 16 v) :: byte)"
    "ucast (drop_bit 24 (ucast v :: 32 word)) = (ucast (drop_bit 24 v) :: byte)" by simp_all
  moreover have "ucast (drop_bit k (ucast (drop_bit 32 v) :: 32 word)) = (ucast (drop_bit (32 + k) v) :: byte)" if "k + 8 \<le> 32" for k
    using that by (intro bit_word_eqI) (auto simp: bit_simps ac_simps)
  from this [of 0] this [of 8] this [of 16] this [of 24] have
    "ucast (ucast (drop_bit 32 v) :: 32 word) = (ucast (drop_bit 32 v) :: byte)"
    "ucast (drop_bit 8 (ucast (drop_bit 32 v) :: 32 word)) = (ucast (drop_bit 40 v) :: byte)"
    "ucast (drop_bit 16 (ucast (drop_bit 32 v) :: 32 word)) = (ucast (drop_bit 48 v) :: byte)"
    "ucast (drop_bit 24 (ucast (drop_bit 32 v) :: 32 word)) = (ucast (drop_bit 56 v) :: byte)" by simp_all
  ultimately show ?thesis by (simp add: object_bytes_def WriteLittleEndian64ToArray_def Let_def upt_rec)
qed

lemma length_little_endian [simp]:
  "length (WriteLittleEndian32ToArray v) = 4" "length (WriteLittleEndian64ToArray w) = 8"
  by (simp_all add: WriteLittleEndian32ToArray_def WriteLittleEndian64ToArray_def Let_def)

lemma little_endian_32: "ReadLittleEndian32FromArray (WriteLittleEndian32ToArray v @ bs) = v"
proof (rule bit_word_eqI)
  fix n
  assume "n < LENGTH(32)"
  then show "bit (ReadLittleEndian32FromArray (WriteLittleEndian32ToArray v @ bs)) n = bit v n"
    by (cases "n < 16"; cases "n < 24") (auto simp: ReadLittleEndian32FromArray_def WriteLittleEndian32ToArray_def bit_simps)
qed

lemma little_endian_64: "ReadLittleEndian64FromArray (WriteLittleEndian64ToArray v @ bs) = v"
proof -
  have w: "WriteLittleEndian64ToArray v = WriteLittleEndian32ToArray (ucast v) @ WriteLittleEndian32ToArray (ucast (drop_bit 32 v))"
    by (simp add: WriteLittleEndian64ToArray_def WriteLittleEndian32ToArray_def Let_def)
  have d: "drop 4 (WriteLittleEndian64ToArray v @ bs) = WriteLittleEndian32ToArray (ucast (drop_bit 32 v)) @ bs" by (simp add: w)
  have "ucast (ucast v :: 32 word) OR push_bit 32 (ucast (ucast (drop_bit 32 v) :: 32 word)) = v"
    by (rule bit_word_eqI) (auto simp: bit_simps)
  then show ?thesis by (simp add: ReadLittleEndian64FromArray_def Let_def d little_endian_32) (simp add: w little_endian_32)
qed

section \<open>The contract of a field type\<close>

text \<open>
  A reader of \<open>CodedInputStream\<close> takes exactly the bytes the writer writes and gives the value back; on
  whatever input it returns, and a value costs at least one byte.
\<close>

locale wire_primitive = zero_copy_input V inv rest size_of
  for V :: "'s zc_input" and inv :: "'s \<Rightarrow> bool" and rest :: "'s \<Rightarrow> byte list" and size_of :: "'s \<Rightarrow> nat" +
  fixes read :: "'s coded_input \<Rightarrow> ('v option \<times> 's coded_input) run"
    and to_array :: "'v \<Rightarrow> byte list"
    and wire_size :: "'v \<Rightarrow> nat"
  assumes reads_back: "coded_ok inv V s \<Longrightarrow> readable rest s = to_array v @ bs \<Longrightarrow>
      \<exists>t. read s = Some (Inr (Some v, t)) \<and> consumes inv rest V (length (to_array v)) s t"
    and returns: "coded_ok inv V s \<Longrightarrow>
      \<exists>x t k. read s = Some (Inr (x, t)) \<and> consumes inv rest V k s t \<and> (x \<noteq> None \<longrightarrow> 0 < k)"
    and sized: "length (to_array v) = wire_size v"
    and positive: "0 < wire_size v"

lemma scast_ucast: "(ucast (scast (v :: 32 word) :: 64 word) :: 32 word) = v"
  by (rule bit_word_eqI) (auto simp: bit_simps)

lemma varint_enc_pos: "0 < length (varint_enc n)"
  by (cases "n < 128") (simp_all add: varint_enc_small varint_enc_big)

context zero_copy_input
begin

text \<open>Every varint type keeps it.\<close>

lemma varint_primitive:
  assumes reader: "\<And>s. coded_ok inv V s \<Longrightarrow>
      takes_varint inv rest V kMaxVarintBytes (\<lambda>n. Some (val n)) None s (read s)"
    and writer: "\<And>v. to_array v = varint_enc (n_of v) \<and> n_of v < 2 ^ 64 \<and> val (n_of v) = v"
    and sized: "\<And>v. wire_size v = length (to_array v)"
  shows "wire_primitive V inv rest size_of read to_array wire_size"
proof unfold_locales
  fix s v bs
  assume s: "coded_ok inv V s" "readable rest s = to_array v @ bs"
  have "n_of v < 128 ^ kMaxVarintBytes"
    using writer [of v] by (simp add: kMaxVarintBytes_def)
  then have "varint_of kMaxVarintBytes (readable rest s) = Varint (n_of v) bs"
    using s(2) writer [of v] varint_of_enc [of "n_of v" kMaxVarintBytes bs] by (simp add: kMaxVarintBytes_def)
  with reader [OF s(1)] writer [of v] obtain t k where
    t: "read s = Some (Inr (Some v, t))" "consumes inv rest V k s t" "readable rest t = bs"
    by (auto simp: takes_varint_def)
  from consumes_readable [OF t(2)] t(2,3) s(2) have "bs = drop k (to_array v @ bs)" "k \<le> length (to_array v @ bs)"
    by (auto simp: consumes_def)
  from arg_cong [OF this(1), of length] this(2) have "k = length (to_array v)" by auto
  with t show "\<exists>t. read s = Some (Inr (Some v, t)) \<and> consumes inv rest V (length (to_array v)) s t" by auto
next
  fix s
  assume s: "coded_ok inv V s"
  from reader [OF s] obtain x t k where
    t: "read s = Some (Inr (x, t))" "consumes inv rest V k s t"
      "case varint_of kMaxVarintBytes (readable rest s) of
         Varint n bs \<Rightarrow> x = Some (val n) \<and> (x \<noteq> None \<longrightarrow> readable rest t = bs) | _ \<Rightarrow> x = None"
    unfolding takes_varint_def by blast
  have "0 < k" if "x \<noteq> None"
  proof -
    from t(3) that obtain n bs where n: "varint_of kMaxVarintBytes (readable rest s) = Varint n bs" "readable rest t = bs"
      by (auto split: varint.splits)
    from varint_of_suffix [OF n(1)] consumes_readable [OF t(2)] n(2) show ?thesis by (cases k) auto
  qed
  with t show "\<exists>x t k. read s = Some (Inr (x, t)) \<and> consumes inv rest V k s t \<and> (x \<noteq> None \<longrightarrow> 0 < k)" by blast
next
  show "length (to_array v) = wire_size v" "0 < wire_size v" for v using sized [of v] writer [of v] varint_enc_pos by auto
qed

text \<open>Every fixed-size type keeps it.\<close>

lemma fixed_primitive:
  assumes reader: "\<And>s. coded_ok inv V s \<Longrightarrow> \<exists>t. read s =
        Some (Inr (if n \<le> length (readable rest s) then Some (val (readable rest s)) else None, t)) \<and>
        consumes inv rest V (min n (length (readable rest s))) s t"
    and writer: "\<And>v bs. val (to_array v @ bs) = v" and sized: "\<And>v. length (to_array v) = n" and pos: "0 < n"
  shows "wire_primitive V inv rest size_of read to_array (\<lambda>_. n)"
proof unfold_locales
  fix s v bs
  assume s: "coded_ok inv V s" "readable rest s = to_array v @ bs"
  from reader [OF s(1)] show "\<exists>t. read s = Some (Inr (Some v, t)) \<and> consumes inv rest V (length (to_array v)) s t"
    by (simp add: s(2) writer sized)
next
  fix s
  assume "coded_ok inv V s"
  from reader [OF this] obtain t where
    "read s = Some (Inr (if n \<le> length (readable rest s) then Some (val (readable rest s)) else None, t))"
    "consumes inv rest V (min n (length (readable rest s))) s t" by blast
  then show "\<exists>x t k. read s = Some (Inr (x, t)) \<and> consumes inv rest V k s t \<and> (x \<noteq> None \<longrightarrow> 0 < k)"
    using pos by (cases "n \<le> length (readable rest s)") auto
qed (simp_all add: sized pos)

text \<open>A converted value.\<close>

lemma takes_varint_read_as:
  assumes "takes_varint inv rest V m (\<lambda>n. Some (val n)) None s r"
  shows "takes_varint inv rest V m (\<lambda>n. Some (f (val n))) None s (read_as f r)"
  using takes_varint_map [OF assms, of "map_option f"] by (simp add: read_as_def)

end

text \<open>What the 14 types need of the words.\<close>

lemma small_64: "unat (v :: 32 word) < 18446744073709551616"
  using unat_32_lt [of v] by simp

lemma word_of_scast: "(word_of_nat (unat (scast (v :: 32 word) :: 64 word)) :: 32 word) = v"
  using scast_ucast [of v] by (simp only: of_nat_unat)

lemma read_as_same: "read_as (\<lambda>temp. temp) r = r"
  by (cases r) (auto simp: read_as_def map_option.id [unfolded id_def] split: sum.split)

lemmas array_writers = WriteVarint32SignExtendedToArray_def WriteVarint32ToArray_def WriteVarint64ToArray_def UnsafeVarint_enc

lemma fixed_readers:
  "ReadPrimitive_FIXED32 V = ReadLittleEndian32 V" "ReadPrimitive_SFIXED32 V = ReadLittleEndian32 V"
  "ReadPrimitive_FLOAT V = ReadLittleEndian32 V" "ReadPrimitive_FIXED64 V = ReadLittleEndian64 V"
  "ReadPrimitive_SFIXED64 V = ReadLittleEndian64 V" "ReadPrimitive_DOUBLE V = ReadLittleEndian64 V"
proof -
  have d: "DecodeFloat = (\<lambda>temp. temp)" "DecodeDouble = (\<lambda>temp. temp)" by (simp_all add: fun_eq_iff DecodeFloat_def DecodeDouble_def)
  have "read_as DecodeFloat r = r" "read_as DecodeDouble q = q" for r :: "(32 word option \<times> 'x) run" and q :: "(64 word option \<times> 'x) run"
    unfolding d by (rule read_as_same)+
  then show "ReadPrimitive_FIXED32 V = ReadLittleEndian32 V" "ReadPrimitive_SFIXED32 V = ReadLittleEndian32 V"
    "ReadPrimitive_FLOAT V = ReadLittleEndian32 V" "ReadPrimitive_FIXED64 V = ReadLittleEndian64 V"
    "ReadPrimitive_SFIXED64 V = ReadLittleEndian64 V" "ReadPrimitive_DOUBLE V = ReadLittleEndian64 V"
    by (auto intro!: ext simp: read_as_same ReadPrimitive_FIXED32_def ReadPrimitive_SFIXED32_def ReadPrimitive_FLOAT_def
        ReadPrimitive_FIXED64_def ReadPrimitive_SFIXED64_def ReadPrimitive_DOUBLE_def)
qed

lemmas sizes = VarintSize32SignExtended_def VarintSize32_length VarintSize64_length

context zero_copy_input
begin

section \<open>The types\<close>

lemma Int32_primitive: "wire_primitive V inv rest size_of (ReadPrimitive_INT32 V) WriteInt32NoTagToArray Int32Size"
proof (rule varint_primitive)
  show "takes_varint inv rest V kMaxVarintBytes (\<lambda>n. Some (word_of_nat n)) None s (ReadPrimitive_INT32 V s)" if "coded_ok inv V s" for s
    using that read_varint32_spec by (simp add: ReadPrimitive_INT32_def read_as_same)
  show "WriteInt32NoTagToArray v = varint_enc (unat (scast v :: 64 word)) \<and> unat (scast v :: 64 word) < 2 ^ 64 \<and> word_of_nat (unat (scast v :: 64 word)) = v" for v
    using unat_64_lt small_64 by (simp add: WriteInt32NoTagToArray_def array_writers word_of_scast scast_ucast ZigZag_decode_encode)
  show "Int32Size v = length (WriteInt32NoTagToArray v)" for v by (simp add: WriteInt32NoTagToArray_def array_writers Int32Size_def sizes)
qed

lemma Int64_primitive: "wire_primitive V inv rest size_of (ReadPrimitive_INT64 V) WriteInt64NoTagToArray Int64Size"
proof (rule varint_primitive)
  show "takes_varint inv rest V kMaxVarintBytes (\<lambda>n. Some (word_of_nat n)) None s (ReadPrimitive_INT64 V s)" if "coded_ok inv V s" for s
    using that read_varint64_spec by (simp add: ReadPrimitive_INT64_def read_as_same)
  show "WriteInt64NoTagToArray v = varint_enc (unat v) \<and> unat v < 2 ^ 64 \<and> word_of_nat (unat v) = v" for v
    using unat_64_lt small_64 by (simp add: WriteInt64NoTagToArray_def array_writers word_of_scast scast_ucast ZigZag_decode_encode)
  show "Int64Size v = length (WriteInt64NoTagToArray v)" for v by (simp add: WriteInt64NoTagToArray_def array_writers Int64Size_def sizes)
qed

lemma UInt32_primitive: "wire_primitive V inv rest size_of (ReadPrimitive_UINT32 V) WriteUInt32NoTagToArray UInt32Size"
proof (rule varint_primitive)
  show "takes_varint inv rest V kMaxVarintBytes (\<lambda>n. Some (word_of_nat n)) None s (ReadPrimitive_UINT32 V s)" if "coded_ok inv V s" for s
    using that read_varint32_spec by (simp add: ReadPrimitive_UINT32_def read_as_same)
  show "WriteUInt32NoTagToArray v = varint_enc (unat v) \<and> unat v < 2 ^ 64 \<and> word_of_nat (unat v) = v" for v
    using unat_64_lt small_64 by (simp add: WriteUInt32NoTagToArray_def array_writers word_of_scast scast_ucast ZigZag_decode_encode)
  show "UInt32Size v = length (WriteUInt32NoTagToArray v)" for v by (simp add: WriteUInt32NoTagToArray_def array_writers UInt32Size_def sizes)
qed

lemma UInt64_primitive: "wire_primitive V inv rest size_of (ReadPrimitive_UINT64 V) WriteUInt64NoTagToArray UInt64Size"
proof (rule varint_primitive)
  show "takes_varint inv rest V kMaxVarintBytes (\<lambda>n. Some (word_of_nat n)) None s (ReadPrimitive_UINT64 V s)" if "coded_ok inv V s" for s
    using that read_varint64_spec by (simp add: ReadPrimitive_UINT64_def read_as_same)
  show "WriteUInt64NoTagToArray v = varint_enc (unat v) \<and> unat v < 2 ^ 64 \<and> word_of_nat (unat v) = v" for v
    using unat_64_lt small_64 by (simp add: WriteUInt64NoTagToArray_def array_writers word_of_scast scast_ucast ZigZag_decode_encode)
  show "UInt64Size v = length (WriteUInt64NoTagToArray v)" for v by (simp add: WriteUInt64NoTagToArray_def array_writers UInt64Size_def sizes)
qed

lemma SInt32_primitive: "wire_primitive V inv rest size_of (ReadPrimitive_SINT32 V) WriteSInt32NoTagToArray SInt32Size"
proof (rule varint_primitive)
  show "takes_varint inv rest V kMaxVarintBytes (\<lambda>n. Some (ZigZagDecode32 (word_of_nat n))) None s (ReadPrimitive_SINT32 V s)" if "coded_ok inv V s" for s
    using that takes_varint_read_as [OF read_varint32_spec] by (auto simp: ReadPrimitive_SINT32_def)
  show "WriteSInt32NoTagToArray v = varint_enc (unat (ZigZagEncode32 v)) \<and> unat (ZigZagEncode32 v) < 2 ^ 64 \<and> ZigZagDecode32 (word_of_nat (unat (ZigZagEncode32 v))) = v" for v
    using unat_64_lt small_64 by (simp add: WriteSInt32NoTagToArray_def array_writers word_of_scast scast_ucast ZigZag_decode_encode)
  show "SInt32Size v = length (WriteSInt32NoTagToArray v)" for v by (simp add: WriteSInt32NoTagToArray_def array_writers SInt32Size_def sizes)
qed

lemma SInt64_primitive: "wire_primitive V inv rest size_of (ReadPrimitive_SINT64 V) WriteSInt64NoTagToArray SInt64Size"
proof (rule varint_primitive)
  show "takes_varint inv rest V kMaxVarintBytes (\<lambda>n. Some (ZigZagDecode64 (word_of_nat n))) None s (ReadPrimitive_SINT64 V s)" if "coded_ok inv V s" for s
    using that takes_varint_read_as [OF read_varint64_spec] by (auto simp: ReadPrimitive_SINT64_def)
  show "WriteSInt64NoTagToArray v = varint_enc (unat (ZigZagEncode64 v)) \<and> unat (ZigZagEncode64 v) < 2 ^ 64 \<and> ZigZagDecode64 (word_of_nat (unat (ZigZagEncode64 v))) = v" for v
    using unat_64_lt small_64 by (simp add: WriteSInt64NoTagToArray_def array_writers word_of_scast scast_ucast ZigZag_decode_encode)
  show "SInt64Size v = length (WriteSInt64NoTagToArray v)" for v by (simp add: WriteSInt64NoTagToArray_def array_writers SInt64Size_def sizes)
qed

lemma Bool_primitive: "wire_primitive V inv rest size_of (ReadPrimitive_BOOL V) WriteBoolNoTagToArray (\<lambda>_. kBoolSize)"
proof (rule varint_primitive)
  show "takes_varint inv rest V kMaxVarintBytes (\<lambda>n. Some ((word_of_nat n :: 64 word) \<noteq> 0)) None s (ReadPrimitive_BOOL V s)" if "coded_ok inv V s" for s
    using that takes_varint_read_as [OF read_varint64_spec] by (auto simp: ReadPrimitive_BOOL_def)
  show "WriteBoolNoTagToArray v = varint_enc (if v then 1 else 0) \<and> (if v then 1 else 0 :: nat) < 2 ^ 64 \<and> (word_of_nat ((if v then 1 else 0)) :: 64 word) \<noteq> 0 = v" for v
    using unat_64_lt small_64 by (simp add: WriteBoolNoTagToArray_def array_writers word_of_scast scast_ucast ZigZag_decode_encode)
  show "(\<lambda>_. kBoolSize) v = length (WriteBoolNoTagToArray v)" for v by (simp add: WriteBoolNoTagToArray_def array_writers kBoolSize_def varint_enc_small)
qed

lemma Enum_primitive: "wire_primitive V inv rest size_of (ReadPrimitive_ENUM V) WriteEnumNoTagToArray EnumSize"
proof (rule varint_primitive)
  show "takes_varint inv rest V kMaxVarintBytes (\<lambda>n. Some (word_of_nat n)) None s (ReadPrimitive_ENUM V s)" if "coded_ok inv V s" for s
    using that read_varint32_spec by (simp add: ReadPrimitive_ENUM_def read_as_same)
  show "WriteEnumNoTagToArray v = varint_enc (unat (scast v :: 64 word)) \<and> unat (scast v :: 64 word) < 2 ^ 64 \<and> word_of_nat (unat (scast v :: 64 word)) = v" for v
    using unat_64_lt small_64 by (simp add: WriteEnumNoTagToArray_def array_writers word_of_scast scast_ucast ZigZag_decode_encode)
  show "EnumSize v = length (WriteEnumNoTagToArray v)" for v by (simp add: WriteEnumNoTagToArray_def array_writers EnumSize_def sizes)
qed

lemma Fixed32_primitive: "wire_primitive V inv rest size_of (ReadPrimitive_FIXED32 V) WriteFixed32NoTagToArray (\<lambda>_. kFixed32Size)"
  unfolding kFixed32Size_def fixed_readers
  by (rule fixed_primitive [OF read_little_endian_spec(1)]) (simp_all add: WriteFixed32NoTagToArray_def little_endian_32 EncodeFloat_def EncodeDouble_def)

lemma Fixed64_primitive: "wire_primitive V inv rest size_of (ReadPrimitive_FIXED64 V) WriteFixed64NoTagToArray (\<lambda>_. kFixed64Size)"
  unfolding kFixed64Size_def fixed_readers
  by (rule fixed_primitive [OF read_little_endian_spec(2)]) (simp_all add: WriteFixed64NoTagToArray_def little_endian_64 EncodeFloat_def EncodeDouble_def)

lemma SFixed32_primitive: "wire_primitive V inv rest size_of (ReadPrimitive_SFIXED32 V) WriteSFixed32NoTagToArray (\<lambda>_. kFixed32Size)"
  unfolding kFixed32Size_def fixed_readers
  by (rule fixed_primitive [OF read_little_endian_spec(1)]) (simp_all add: WriteSFixed32NoTagToArray_def little_endian_32 EncodeFloat_def EncodeDouble_def)

lemma SFixed64_primitive: "wire_primitive V inv rest size_of (ReadPrimitive_SFIXED64 V) WriteSFixed64NoTagToArray (\<lambda>_. kFixed64Size)"
  unfolding kFixed64Size_def fixed_readers
  by (rule fixed_primitive [OF read_little_endian_spec(2)]) (simp_all add: WriteSFixed64NoTagToArray_def little_endian_64 EncodeFloat_def EncodeDouble_def)

lemma Float_primitive: "wire_primitive V inv rest size_of (ReadPrimitive_FLOAT V) WriteFloatNoTagToArray (\<lambda>_. kFixed32Size)"
  unfolding kFixed32Size_def fixed_readers
  by (rule fixed_primitive [OF read_little_endian_spec(1)]) (simp_all add: WriteFloatNoTagToArray_def little_endian_32 EncodeFloat_def EncodeDouble_def)

lemma Double_primitive: "wire_primitive V inv rest size_of (ReadPrimitive_DOUBLE V) WriteDoubleNoTagToArray (\<lambda>_. kFixed64Size)"
  unfolding kFixed64Size_def fixed_readers
  by (rule fixed_primitive [OF read_little_endian_spec(2)]) (simp_all add: WriteDoubleNoTagToArray_def little_endian_64 EncodeFloat_def EncodeDouble_def)

end

section \<open>Every type on the stream of the program\<close>

interpretation int32_in: wire_primitive FileInputStream file_inv file_rest file_size
    "ReadPrimitive_INT32 FileInputStream" WriteInt32NoTagToArray Int32Size
  by (rule file_in.Int32_primitive)

interpretation int64_in: wire_primitive FileInputStream file_inv file_rest file_size
    "ReadPrimitive_INT64 FileInputStream" WriteInt64NoTagToArray Int64Size
  by (rule file_in.Int64_primitive)

interpretation uint32_in: wire_primitive FileInputStream file_inv file_rest file_size
    "ReadPrimitive_UINT32 FileInputStream" WriteUInt32NoTagToArray UInt32Size
  by (rule file_in.UInt32_primitive)

interpretation uint64_in: wire_primitive FileInputStream file_inv file_rest file_size
    "ReadPrimitive_UINT64 FileInputStream" WriteUInt64NoTagToArray UInt64Size
  by (rule file_in.UInt64_primitive)

interpretation sint32_in: wire_primitive FileInputStream file_inv file_rest file_size
    "ReadPrimitive_SINT32 FileInputStream" WriteSInt32NoTagToArray SInt32Size
  by (rule file_in.SInt32_primitive)

interpretation sint64_in: wire_primitive FileInputStream file_inv file_rest file_size
    "ReadPrimitive_SINT64 FileInputStream" WriteSInt64NoTagToArray SInt64Size
  by (rule file_in.SInt64_primitive)

interpretation fixed32_in: wire_primitive FileInputStream file_inv file_rest file_size
    "ReadPrimitive_FIXED32 FileInputStream" WriteFixed32NoTagToArray "\<lambda>_. kFixed32Size"
  by (rule file_in.Fixed32_primitive)

interpretation fixed64_in: wire_primitive FileInputStream file_inv file_rest file_size
    "ReadPrimitive_FIXED64 FileInputStream" WriteFixed64NoTagToArray "\<lambda>_. kFixed64Size"
  by (rule file_in.Fixed64_primitive)

interpretation sfixed32_in: wire_primitive FileInputStream file_inv file_rest file_size
    "ReadPrimitive_SFIXED32 FileInputStream" WriteSFixed32NoTagToArray "\<lambda>_. kFixed32Size"
  by (rule file_in.SFixed32_primitive)

interpretation sfixed64_in: wire_primitive FileInputStream file_inv file_rest file_size
    "ReadPrimitive_SFIXED64 FileInputStream" WriteSFixed64NoTagToArray "\<lambda>_. kFixed64Size"
  by (rule file_in.SFixed64_primitive)

interpretation float_in: wire_primitive FileInputStream file_inv file_rest file_size
    "ReadPrimitive_FLOAT FileInputStream" WriteFloatNoTagToArray "\<lambda>_. kFixed32Size"
  by (rule file_in.Float_primitive)

interpretation double_in: wire_primitive FileInputStream file_inv file_rest file_size
    "ReadPrimitive_DOUBLE FileInputStream" WriteDoubleNoTagToArray "\<lambda>_. kFixed64Size"
  by (rule file_in.Double_primitive)

interpretation bool_in: wire_primitive FileInputStream file_inv file_rest file_size
    "ReadPrimitive_BOOL FileInputStream" WriteBoolNoTagToArray "\<lambda>_. kBoolSize"
  by (rule file_in.Bool_primitive)

interpretation enum_in: wire_primitive FileInputStream file_inv file_rest file_size
    "ReadPrimitive_ENUM FileInputStream" WriteEnumNoTagToArray EnumSize
  by (rule file_in.Enum_primitive)

end
