(* ===== verification/Wire_Repeated.thy ===== *)
theory Wire_Repeated
  imports Wire_Fields
begin

text \<open>
  Packed fields and the repeats of a field: inside the contract \<open>wire_primitive\<close>, whatever the type, the readers
  of \<open>Wire_Format\<close> append to the field exactly the values on the wire and return, and the fast paths for
  the fixed-size types do what the loops do.
\<close>

section \<open>Room in the field\<close>

lemma AddAlreadyReserved_spec:
  assumes s: "rf_ok s" and room: "rf_current_size s < Capacity s"
  shows "\<exists>t. AddAlreadyReserved v s = Inr t \<and> rf_ok t \<and> elements t = elements s @ [v] \<and>
    rf_current_size t = rf_current_size s + 1 \<and> Capacity t = Capacity s"
proof -
  have "rf_current_size s + int (length [v]) \<le> Capacity s" using room by simp
  from rf_copy_end [OF s this] obtain t where "rf_put (rf_current_size s) v s = Inr t" "rf_current_size t = rf_current_size s"
    "Capacity t = Capacity s" "elements (t\<lparr>rf_current_size := rf_current_size s + 1\<rparr>) = elements s @ [v]"
    "rf_ok (t\<lparr>rf_current_size := rf_current_size s + 1\<rparr>)" by (auto simp: bind_res_Inr_iff)
  then show ?thesis by (simp add: AddAlreadyReserved_def Capacity_def)
qed

lemma rf_size_elements: "rf_ok s \<Longrightarrow> rf_current_size s = int (length (elements s))"
  using length_elements by metis

section \<open>Limits\<close>

lemma readable_length: "coded_ok okI V s \<Longrightarrow> int (length (readable rest s)) \<le> closest_limit s - CurrentPosition s"
  by (auto simp: readable_def coded_ok_def)

text \<open>A limit at the end of bytes that are there, below the largest position, is in force.\<close>

lemma push_limit_exact:
  assumes ok: "coded_ok okI V s" and push: "PushLimit (int n) s = (old, t)"
    and n: "n \<le> length (readable rest s)" and pos: "CurrentPosition s + int n < INT_MAX"
  shows "current_limit t = CurrentPosition s + int n"
proof (cases "int n < current_limit s - CurrentPosition s")
  case True
  then have "int n \<le> INT_MAX - CurrentPosition s" using pos by linarith
  with True push show ?thesis by (auto simp: PushLimit_def RecomputeBufferLimits_def Let_def)
next
  case False
  with push have "t = s" by (simp add: PushLimit_def Let_def split: if_splits)
  moreover have "int n \<le> current_limit s - CurrentPosition s"
    using readable_length [OF ok, of rest] n by (simp add: closest_limit_def)
  ultimately show ?thesis using False by simp
qed

lemma BytesUntilLimit_at: "current_limit s < INT_MAX \<Longrightarrow> BytesUntilLimit s = current_limit s - CurrentPosition s"
  by (simp add: BytesUntilLimit_def)

lemma consumes_limits:
  "consumes okI rest V k s t \<Longrightarrow> current_limit t = current_limit s \<and> total_bytes_limit t = total_bytes_limit s \<and>
     CurrentPosition t = CurrentPosition s + int k \<and> coded_ok okI V t"
  by (simp add: consumes_def coded_frame_def)

section \<open>Packed fields\<close>

context zero_copy_input
begin

text \<open>The length in front.\<close>

lemma read_length:
  assumes ok: "coded_ok inv V s" and s: "readable rest s = WriteVarint32ToArray (word_of_nat n) @ bs" and n: "int n \<le> INT_MAX"
  shows "\<exists>t. ReadVarintSizeAsInt V s = Some (Inr (Some (int n), t)) \<and>
    consumes inv rest V (length (WriteVarint32ToArray (word_of_nat n))) s t \<and> readable rest t = bs"
proof -
  have u: "unat (word_of_nat n :: 32 word) = n" using n by (simp add: unsigned_of_nat INT_MAX_def take_bit_nat_eq_self)
  then have w: "WriteVarint32ToArray (word_of_nat n) = varint_enc n" by (simp add: array_writers)
  have big: "n < 128 ^ kMaxVarintBytes" "n mod 2 ^ 64 = n" using n by (simp_all add: INT_MAX_def kMaxVarintBytes_def)
  then have "varint_of kMaxVarintBytes (readable rest s) = Varint n bs"
    using s varint_of_enc [of n kMaxVarintBytes bs] by (simp add: w kMaxVarintBytes_def)
  with read_varint_size_spec [OF ok] n big(2) obtain t k where
    t: "ReadVarintSizeAsInt V s = Some (Inr (Some (int n), t))" "consumes inv rest V k s t" "readable rest t = bs"
    by (auto simp: takes_varint_def)
  from consumes_readable [OF t(2)] t(2,3) s have "bs = drop k (varint_enc n @ bs)" "k \<le> length (varint_enc n @ bs)"
    by (auto simp: consumes_def w)
  from arg_cong [OF this(1), of length] this(2) have "k = length (varint_enc n)" by auto
  with t w show ?thesis by auto
qed

end

context wire_primitive
begin

lemma read_until_limit_values:
  "coded_ok inv V s \<Longrightarrow> rf_ok vals \<Longrightarrow> readable rest s = concat (map to_array vs) \<Longrightarrow>
   current_limit s < INT_MAX \<Longrightarrow> current_limit s = CurrentPosition s + int (length (readable rest s)) \<Longrightarrow>
   int (length (elements vals)) + int (length vs) \<le> INT_MAX \<Longrightarrow>
   \<exists>t w. read_until_limit read s vals = Some (Inr (True, t, w)) \<and> consumes inv rest V (length (readable rest s)) s t \<and>
     rf_ok w \<and> elements w = elements vals @ vs"
proof (induction vs arbitrary: s vals)
  case Nil
  then show ?case
    by (subst read_until_limit.simps) (simp add: BytesUntilLimit_at consumes_def coded_frame_def)
next
  case (Cons v vs)
  from reads_back [OF Cons.prems(1), of v "concat (map to_array vs)"] Cons.prems(3) obtain t where
    t: "read s = Some (Inr (Some v, t))" "consumes inv rest V (length (to_array v)) s t" by auto
  have rest1: "readable rest t = concat (map to_array vs)" using consumes_readable [OF t(2)] Cons.prems(3) by simp
  obtain u where u: "rf_Add v vals = Inr u" "rf_ok u" "elements u = elements vals @ [v]"
    using rf_Add_spec [OF Cons.prems(2), of v] Cons.prems(2,6) by (auto simp: rf_size_elements)
  have lim: "current_limit t = current_limit s" "CurrentPosition t = CurrentPosition s + int (length (to_array v))" "coded_ok inv V t"
    using consumes_limits [OF t(2)] by simp_all
  from Cons.IH [OF lim(3) u(2) rest1] Cons.prems(3-6) lim rest1 u(3) obtain y w where
    y: "read_until_limit read t u = Some (Inr (True, y, w))" "consumes inv rest V (length (readable rest t)) t y"
      "rf_ok w" "elements w = elements u @ vs" by auto
  have "BytesUntilLimit s > 0"
    using Cons.prems(3-5) sized [of v] positive [of v] by (simp add: BytesUntilLimit_at)
  moreover have "consumes inv rest V (length (readable rest s)) s y"
    using consumes_trans [OF t(2) y(2)] Cons.prems(3) rest1 by simp
  ultimately show ?case using t(1) u y by (subst read_until_limit.simps) simp
qed

text \<open>On any input the loop returns.\<close>

lemma read_until_limit_returns:
  "coded_ok inv V s \<Longrightarrow> rf_ok vals \<Longrightarrow> int (length (elements vals)) + int (length (readable rest s)) \<le> INT_MAX \<Longrightarrow>
   \<exists>b t w k vs. read_until_limit read s vals = Some (Inr (b, t, w)) \<and> consumes inv rest V k s t \<and> rf_ok w \<and>
     elements w = elements vals @ vs"
proof (induction "length (readable rest s)" arbitrary: s vals rule: less_induct)
  case less
  have same: "consumes inv rest V 0 s s" using less.prems(1) by (simp add: consumes_def coded_frame_def)
  from returns [OF less.prems(1)] obtain x t k where
    t: "read s = Some (Inr (x, t))" "consumes inv rest V k s t" "x \<noteq> None \<longrightarrow> 0 < k" by blast
  show ?case
  proof (cases "BytesUntilLimit s > 0")
    case False
    then have "read_until_limit read s vals = Some (Inr (True, s, vals))" by (subst read_until_limit.simps) simp
    with same less.prems(2) show ?thesis by fastforce
  next
    case more_bytes: True
    show ?thesis
    proof (cases x)
      case None
      with t(1) more_bytes have "read_until_limit read s vals = Some (Inr (False, t, vals))"
        by (subst read_until_limit.simps) simp
      with t(2) less.prems(2) show ?thesis by fastforce
    next
      case (Some v)
      have k: "0 < k" "k \<le> length (readable rest s)" using t(2,3) Some by (simp_all add: consumes_def)
      have len: "length (readable rest t) = length (readable rest s) - k" using consumes_readable [OF t(2)] by simp
      obtain u where u: "rf_Add v vals = Inr u" "rf_ok u" "elements u = elements vals @ [v]"
        using rf_Add_spec [OF less.prems(2), of v] less.prems(2,3) k by (auto simp: rf_size_elements)
      have "coded_ok inv V t" using t(2) by (simp add: consumes_def)
      from less.hyps [OF _ this u(2)] less.prems(3) len k u(3) obtain b y w l vs where
        y: "read_until_limit read t u = Some (Inr (b, y, w))" "consumes inv rest V l t y" "rf_ok w" "elements w = elements u @ vs"
        by fastforce
      from t(1) more_bytes Some u(1) y(1) have "read_until_limit read s vals = Some (Inr (b, y, w))"
        by (subst read_until_limit.simps) simp
      with y consumes_trans [OF t(2) y(2)] u(3) show ?thesis by fastforce
    qed
  qed
qed

lemma packed_values:
  assumes ok: "coded_ok inv V s" and vals_ok: "rf_ok vals"
    and bytes: "bytes = concat (map to_array vs)"
    and s: "readable rest s = WriteVarint32ToArray (word_of_nat (length bytes)) @ bytes @ bs"
    and pos: "CurrentPosition s + int (length (WriteVarint32ToArray (word_of_nat (length bytes)) @ bytes)) < INT_MAX"
    and room: "int (length (elements vals)) + int (length vs) \<le> INT_MAX"
  shows "\<exists>t w. ReadPackedPrimitive V read s vals = Some (Inr (True, t, w)) \<and>
    consumes inv rest V (length (WriteVarint32ToArray (word_of_nat (length bytes)) @ bytes)) s
      (t\<lparr>legitimate_message_end := legitimate_message_end s\<rparr>) \<and> rf_ok w \<and> elements w = elements vals @ vs"
proof -
  have "0 \<le> CurrentPosition s" using ok by (simp add: coded_ok_def)
  then have "int (length bytes) \<le> INT_MAX" using pos by simp
  from read_length [OF ok s this] obtain s1 where
    s1: "ReadVarintSizeAsInt V s = Some (Inr (Some (int (length bytes)), s1))"
      "consumes inv rest V (length (WriteVarint32ToArray (word_of_nat (length bytes)))) s s1" "readable rest s1 = bytes @ bs" by blast
  note lim1 = consumes_limits [OF s1(2)]
  then have ok1: "coded_ok inv V s1" by simp
  obtain old s2 where push: "PushLimit (int (length bytes)) s1 = (old, s2)" by force
  have len: "length bytes \<le> length (readable rest s1)" "CurrentPosition s1 + int (length bytes) < INT_MAX"
    using s1(3) lim1 pos by simp_all
  have cur: "current_limit s2 = CurrentPosition s1 + int (length bytes)" by (rule push_limit_exact [OF ok1 push len])
  have r2: "readable rest s2 = bytes" using push_limit_spec(10) [OF ok1 push, of rest] s1(3) by simp
  have "readable rest s2 = concat (map to_array vs)" "current_limit s2 < INT_MAX"
    "current_limit s2 = CurrentPosition s2 + int (length (readable rest s2))"
    using r2 bytes cur len push_limit_spec(4) [OF ok1 push] by simp_all
  from read_until_limit_values [OF push_limit_spec(2) [OF ok1 push] vals_ok this room] obtain s3 w where
    s3: "read_until_limit read s2 vals = Some (Inr (True, s3, w))" "consumes inv rest V (length (readable rest s2)) s2 s3"
      "rf_ok w" "elements w = elements vals @ vs" by blast
  have "legitimate_message_end s1 = legitimate_message_end s" using s1(2) by (simp add: consumes_def coded_frame_def)
  with pop_limit_spec(1) [OF ok1 push s3(2)] consumes_trans [OF s1(2)] r2 have
    "consumes inv rest V (length (WriteVarint32ToArray (word_of_nat (length bytes)) @ bytes)) s
      ((PopLimit old s3)\<lparr>legitimate_message_end := legitimate_message_end s\<rparr>)" by fastforce
  moreover have "ReadPackedPrimitive V read s vals = Some (Inr (True, PopLimit old s3, w))"
    using s1(1) push s3(1) by (simp add: ReadPackedPrimitive_def)
  ultimately show ?thesis using s3(3,4) by blast
qed

text \<open>The slow path of the fixed-size types.\<close>

lemma read_entries_values:
  "coded_ok inv V s \<Longrightarrow> rf_ok vals \<Longrightarrow> readable rest s = concat (map to_array vs) @ bs \<Longrightarrow>
   int (length (elements vals)) + int (length vs) \<le> INT_MAX \<Longrightarrow>
   \<exists>t w. read_entries read (length vs) s vals = Some (Inr (True, t, w)) \<and>
     consumes inv rest V (length (concat (map to_array vs))) s t \<and> rf_ok w \<and> elements w = elements vals @ vs"
proof (induction vs arbitrary: s vals)
  case Nil
  then show ?case by (simp add: consumes_def coded_frame_def)
next
  case (Cons v vs)
  from reads_back [OF Cons.prems(1), of v "concat (map to_array vs) @ bs"] Cons.prems(3) obtain t where
    t: "read s = Some (Inr (Some v, t))" "consumes inv rest V (length (to_array v)) s t" by auto
  obtain u where u: "rf_Add v vals = Inr u" "rf_ok u" "elements u = elements vals @ [v]"
    using rf_Add_spec [OF Cons.prems(2), of v] Cons.prems(2,4) by (auto simp: rf_size_elements)
  have "coded_ok inv V t" "readable rest t = concat (map to_array vs) @ bs"
    using consumes_limits [OF t(2)] consumes_readable [OF t(2)] Cons.prems(3) by simp_all
  from Cons.IH [OF this(1) u(2) this(2)] Cons.prems(4) u(3) obtain y w where
    y: "read_entries read (length vs) t u = Some (Inr (True, y, w))" "consumes inv rest V (length (concat (map to_array vs))) t y"
      "rf_ok w" "elements w = elements u @ vs" by auto
  with t(1) u consumes_trans [OF t(2) y(2)] show ?case by simp
qed

end

section \<open>Fixed-size types\<close>

text \<open>
  The object representation of a value is what is on the wire, and every string of its length is the
  representation of one value.
\<close>

locale wire_fixed = wire_primitive V inv rest size_of read to_array "\<lambda>_. n"
  for V :: "'s zc_input" and inv :: "'s \<Rightarrow> bool" and rest :: "'s \<Rightarrow> byte list" and size_of :: "'s \<Rightarrow> nat"
    and read :: "'s coded_input \<Rightarrow> ('v option \<times> 's coded_input) run" and to_array :: "'v \<Rightarrow> byte list" and n :: nat +
  fixes of_bytes :: "byte list \<Rightarrow> 'v"
    and bytes_of :: "'v \<Rightarrow> byte list"
  assumes of_bytes_inverse: "of_bytes (to_array v) = v"
    and to_array_inverse: "length bs = n \<Longrightarrow> to_array (of_bytes bs) = bs"
    and object: "bytes_of v = to_array v"

context wire_fixed
begin

lemma length_all: "length (concat (map to_array vs)) = length vs * n"
  by (induction vs) (simp_all add: sized)

lemma pieces: "map (\<lambda>i. of_bytes (take n (drop (i * n) (concat (map to_array vs))))) [0..<length vs] = vs"
proof (induction vs)
  case (Cons v vs)
  have "[0..<length (v # vs)] = 0 # map Suc [0..<length vs]" by (metis length_Cons map_Suc_upt upt_conv_Cons zero_less_Suc)
  with Cons.IH show ?case by (simp add: sized of_bytes_inverse o_def)
qed simp

text \<open>Bytes are the representations of values.\<close>

lemma split_bytes: "m * n \<le> length bs \<Longrightarrow> \<exists>vs. length vs = m \<and> concat (map to_array vs) = take (m * n) bs"
proof (induction m arbitrary: bs)
  case (Suc m)
  then have "m * n \<le> length (drop n bs)" "length (take n bs) = n" by simp_all
  with Suc.IH obtain vs where "length vs = m" "concat (map to_array vs) = take (m * n) (drop n bs)" by blast
  with to_array_inverse [OF \<open>length (take n bs) = n\<close>] show ?case
    by (intro exI [of _ "of_bytes (take n bs) # vs"]) (simp add: take_add)
qed simp

text \<open>Storing the representations of values stores the values.\<close>

lemma store_elements:
  assumes "start + length vs \<le> length mem"
  shows "store_bytes of_bytes bytes_of n start (concat (map to_array vs)) mem =
    take start mem @ vs @ drop (start + length vs) mem"
proof -
  let ?all = "vs @ drop (start + length vs) mem"
  have eq: "bytes_of = to_array" by (rule ext) (rule object)
  have split: "concat (map bytes_of (drop start mem)) =
      concat (map to_array (take (length vs) (drop start mem))) @ concat (map to_array (drop (length vs) (drop start mem)))"
    by (simp only: eq concat_append [symmetric] map_append [symmetric] append_take_drop_id)
  have k: "length (concat (map to_array vs)) = length (concat (map to_array (take (length vs) (drop start mem))))"
    using assms by (simp add: length_all)
  have "drop (length (concat (map to_array vs))) (concat (map bytes_of (drop start mem))) =
      concat (map to_array (drop (length vs) (drop start mem)))"
    by (simp only: split k drop_append diff_self_eq_0 drop_0 drop_all order_refl append_Nil)
  then have "concat (map to_array vs) @ drop (length (concat (map to_array vs))) (concat (map bytes_of (drop start mem))) =
      concat (map to_array ?all)"
    by (simp add: add.commute)
  moreover have "length mem - start = length ?all" using assms by simp
  ultimately show ?thesis using pieces [of ?all] by (simp only: store_bytes_def Let_def)
qed

lemma packed_fast_elements:
  assumes vals: "rf_ok vals" and room: "int (length (elements vals)) + int (length vs) \<le> INT_MAX"
  shows "\<exists>w. rf_Resize (rf_current_size vals + int (length vs)) zero vals = Inr w \<and>
    rf_ok (w\<lparr>rf_memory := store_bytes of_bytes bytes_of n (nat (rf_current_size vals)) (concat (map to_array vs)) (rf_memory w)\<rparr>) \<and>
    elements (w\<lparr>rf_memory := store_bytes of_bytes bytes_of n (nat (rf_current_size vals)) (concat (map to_array vs)) (rf_memory w)\<rparr>) =
      elements vals @ vs"
proof -
  let ?old = "nat (rf_current_size vals)"
  have old: "rf_current_size vals = int ?old" "length (elements vals) = ?old" using rf_size_elements [OF vals] by simp_all
  then have "0 \<le> rf_current_size vals + int (length vs)" "rf_current_size vals + int (length vs) \<le> INT_MAX" using room by linarith+
  from rf_Resize_spec [OF vals this, of zero] obtain w where
    w: "rf_Resize (rf_current_size vals + int (length vs)) zero vals = Inr w" "rf_ok w"
      "elements w = take (nat (rf_current_size vals + int (length vs))) (elements vals) @
         replicate (nat (rf_current_size vals + int (length vs)) - length (elements vals)) zero" by blast
  have sum: "nat (rf_current_size vals + int (length vs)) = ?old + length vs" using old(1) by linarith
  have e: "elements w = elements vals @ replicate (length vs) zero" using w(3) sum old(2) by simp
  have size: "rf_current_size w = int (?old + length vs)" using rf_size_elements [OF w(2)] e old(2) by simp
  then have nsize: "nat (rf_current_size w) = ?old + length vs" by (simp only: nat_int)
  have len: "?old + length vs \<le> length (rf_memory w)" proof -
    have "int (?old + length vs) \<le> int (length (rf_memory w))"
      using w(2) unfolding rf_ok_def Capacity_def size [symmetric] by blast
    then show ?thesis by (simp only: of_nat_le_iff)
  qed
  let ?mem = "store_bytes of_bytes bytes_of n ?old (concat (map to_array vs)) (rf_memory w)"
  have mem: "?mem = take ?old (rf_memory w) @ vs @ drop (?old + length vs) (rf_memory w)" by (rule store_elements [OF len])
  have "take ?old (rf_memory w) = take ?old (elements w)" by (simp add: elements_def nsize min_def)
  then have "take ?old (rf_memory w) = elements vals" using e old(2) by simp
  with mem old(2) have "take (?old + length vs) ?mem = elements vals @ vs" by simp
  moreover have "length ?mem = length (rf_memory w)" using mem len by simp
  ultimately show ?thesis using w(1,2) by (intro exI [of _ w]) (simp add: elements_def nsize rf_ok_def Capacity_def)
qed

lemma packed_fixed_elements:
  assumes ok: "coded_ok inv V s" and vals_ok: "rf_ok vals"
    and bytes: "bytes = concat (map to_array vs)"
    and s: "readable rest s = WriteVarint32ToArray (word_of_nat (length bytes)) @ bytes @ bs"
    and small: "int (length bytes) \<le> INT_MAX"
    and room: "int (length (elements vals)) + int (length vs) \<le> INT_MAX"
  shows "\<exists>t w. ReadPackedFixedSizePrimitive V (int n) of_bytes bytes_of zero read s vals = Some (Inr (True, t, w)) \<and>
    consumes inv rest V (length (WriteVarint32ToArray (word_of_nat (length bytes)) @ bytes)) s t \<and> rf_ok w \<and>
    elements w = elements vals @ vs"
proof -
  from read_length [OF ok s small] obtain s1 where
    s1: "ReadVarintSizeAsInt V s = Some (Inr (Some (int (length bytes)), s1))"
      "consumes inv rest V (length (WriteVarint32ToArray (word_of_nat (length bytes)))) s s1" "readable rest s1 = bytes @ bs" by blast
  have ok1: "coded_ok inv V s1" using s1(2) by (simp add: consumes_def)
  have len: "length bytes = length vs * n" by (simp add: bytes length_all)
  then have n: "int (length bytes) div int n = int (length vs)" "int (length vs) * int n = int (length bytes)"
    using positive by simp_all
  show ?thesis
  proof (cases "packed_bytes_limit s1 \<ge> int (length bytes)")
    case True
    obtain w where w: "rf_Resize (rf_current_size vals + int (length vs)) zero vals = Inr w"
      "rf_ok (w\<lparr>rf_memory := store_bytes of_bytes bytes_of n (nat (rf_current_size vals)) bytes (rf_memory w)\<rparr>)"
      "elements (w\<lparr>rf_memory := store_bytes of_bytes bytes_of n (nat (rf_current_size vals)) bytes (rf_memory w)\<rparr>) = elements vals @ vs"
      using packed_fast_elements [OF vals_ok room, of zero] by (auto simp: bytes)
    have "0 \<le> int (length bytes)" by simp
    from read_raw_spec [OF ok1 this] obtain t where
      "ReadRaw V (int (length bytes)) s1 = Some (Inr (True, bytes, t))" "consumes inv rest V (length bytes) s1 t"
      by (auto simp: takes_bytes_def s1(3))
    with s1(1) w n True consumes_trans [OF s1(2)] show ?thesis
      by (simp add: ReadPackedFixedSizePrimitive_def Let_def)
  next
    case False
    from read_entries_values [OF ok1 vals_ok _ room] s1(3) bytes obtain t w where
      "read_entries read (length vs) s1 vals = Some (Inr (True, t, w))" "consumes inv rest V (length bytes) s1 t" "rf_ok w"
      "elements w = elements vals @ vs" by auto
    with s1(1) n False consumes_trans [OF s1(2)] show ?thesis
      by (simp add: ReadPackedFixedSizePrimitive_def Let_def)
  qed
qed

text \<open>When bytes are missing the fast path leaves the elements as they were.\<close>

lemma packed_fast_missing:
  assumes ok: "coded_ok inv V s" and vals_ok: "rf_ok vals"
    and s: "readable rest s = WriteVarint32ToArray (word_of_nat N) @ bs" and short: "length bs < N" and N: "N = m * n"
    and small: "int N \<le> INT_MAX" and room: "int (length (elements vals)) + int m \<le> INT_MAX"
    and limit: "\<And>t. consumes inv rest V (length (WriteVarint32ToArray (word_of_nat N))) s t \<Longrightarrow> packed_bytes_limit t \<ge> int N"
  shows "\<exists>t w. ReadPackedFixedSizePrimitive V (int n) of_bytes bytes_of zero read s vals = Some (Inr (False, t, w)) \<and>
    elements w = elements vals"
proof -
  from read_length [OF ok s small] obtain s1 where
    s1: "ReadVarintSizeAsInt V s = Some (Inr (Some (int N), s1))"
      "consumes inv rest V (length (WriteVarint32ToArray (word_of_nat N))) s s1" "readable rest s1 = bs" by blast
  have ok1: "coded_ok inv V s1" using s1(2) by (simp add: consumes_def)
  have n: "int N div int n = int m" "int m * int n = int N" using positive by (simp_all add: N)
  have size: "rf_current_size vals = int (length (elements vals))" by (rule rf_size_elements [OF vals_ok])
  then have "0 \<le> rf_current_size vals + int m" "rf_current_size vals + int m \<le> INT_MAX" using room by linarith+
  from rf_Resize_spec [OF vals_ok this, of zero] obtain w where
    w: "rf_Resize (rf_current_size vals + int m) zero vals = Inr w" "rf_ok w"
      "elements w = take (nat (rf_current_size vals + int m)) (elements vals) @
         replicate (nat (rf_current_size vals + int m) - length (elements vals)) zero" by blast
  let ?k = "nat (rf_current_size vals)"
  have k: "length (elements vals) = ?k" "?k \<le> nat (rf_current_size vals + int m)" "0 \<le> rf_current_size vals"
    using length_elements [OF vals_ok] by linarith+
  then have "take ?k (elements w) = elements vals" "length (elements w) = nat (rf_current_size vals + int m)" using w(3) by simp_all
  note ew = this
  have cur: "rf_current_size w = rf_current_size vals + int m"
    using length_elements [OF w(2)] ew(2) k(3) by linarith
  then have "?k \<le> nat (rf_current_size w)" using k(2) by simp
  then have old: "take ?k (rf_memory w) = elements vals"
    using ew(1) by (simp add: elements_def [of w] min_absorb1)
  have "0 \<le> int N" by simp
  from read_raw_spec [OF ok1 this] short s1(3) obtain t where
    t: "ReadRaw V (int N) s1 = Some (Inr (False, bs, t))"
    by (auto simp: takes_bytes_def)
  let ?w = "w\<lparr>rf_memory := store_bytes of_bytes bytes_of n (nat (rf_current_size vals)) bs (rf_memory w)\<rparr>"
  have "take (nat (rf_current_size vals)) (rf_memory ?w) = elements vals"
    using old k(1) by (simp add: store_bytes_def Let_def)
  moreover have "0 < m" using short N by (cases m) simp_all
  then have "rf_current_size ?w > 0" using cur k(3) by simp
  ultimately have "elements (Truncate (rf_current_size vals) ?w) = elements vals"
    by (simp add: Truncate_def elements_def [of "w\<lparr>rf_memory := m, rf_current_size := c\<rparr>" for m c])
  with s1(1) t w(1) n limit [OF s1(2)] show ?thesis by (simp add: ReadPackedFixedSizePrimitive_def Let_def)
qed

end

end
