(* ===== verification/Wire_Tagged.thy ===== *)
theory Wire_Tagged
  imports Wire_Repeated
begin

text \<open>
  The repeats of a field, each behind its tag: what \<open>ExpectTag\<close> finds, and that \<open>ReadRepeatedPrimitive\<close> and its
  version for the fixed-size types take a run of elements off the front of the stream, in order.
\<close>

section \<open>Expecting a tag\<close>

lemma tag_bytes:
  fixes tag :: "32 word"
  shows "unat tag < 2 ^ 7 \<Longrightarrow> varint_enc (unat tag) = [ucast tag]"
    and "2 ^ 7 \<le> unat tag \<Longrightarrow> unat tag < 2 ^ 14 \<Longrightarrow> varint_enc (unat tag) = [ucast (tag OR 0x80), ucast (drop_bit 7 tag)]"
proof -
  show "varint_enc (unat tag) = [ucast tag]" if "unat tag < 2 ^ 7"
    using that ucast_byte_small [of tag] by (simp add: varint_enc_small)
  show "varint_enc (unat tag) = [ucast (tag OR 0x80), ucast (drop_bit 7 tag)]" if n: "2 ^ 7 \<le> unat tag" "unat tag < 2 ^ 14"
  proof -
    have "unat (tag OR 0x80) = unat tag OR 128" by (simp add: unsigned_or_eq)
    then have or: "unat (ucast (tag OR 0x80) :: byte) = (unat tag OR 128) mod 256" by (simp add: unat_ucast_byte)
    have "(unat tag OR 128) mod 256 = unat tag mod 128 + 128"
    proof (cases "odd (unat tag div 128)")
      case True
      then obtain k where k: "unat tag div 128 = 2 * k + 1" by (elim oddE)
      then have "unat tag = 256 * k + (unat tag mod 128 + 128)" using div_mult_mod_eq [of "unat tag" 128] by simp
      moreover have "unat tag mod 128 + 128 < 256" by simp
      ultimately have "unat tag mod 256 = unat tag mod 128 + 128" by (metis mod_less mod_mult_self3 mult.commute add.commute mod_mult_self4)
      with True show ?thesis by (simp add: nat_or_128)
    next
      case False
      then obtain k where k: "unat tag div 128 = 2 * k" by (auto elim: evenE)
      then have "unat tag + 128 = 256 * k + (unat tag mod 128 + 128)" using div_mult_mod_eq [of "unat tag" 128] by simp
      moreover have "unat tag mod 128 + 128 < 256" by simp
      ultimately have "(unat tag + 128) mod 256 = unat tag mod 128 + 128" by (metis mod_less mod_mult_self3 mult.commute add.commute mod_mult_self4)
      with False show ?thesis by (simp add: nat_or_128)
    qed
    with or have "unat (ucast (tag OR 0x80) :: byte) = unat (word_of_nat (unat tag mod 128 + 128) :: byte)"
      using unat_byte_of_nat_small [of "unat tag mod 128 + 128"] by simp
    then have a: "ucast (tag OR 0x80) = (word_of_nat (unat tag mod 128 + 128) :: byte)" by (rule unsigned_word_eqI)
    have "unat (drop_bit 7 tag) = unat tag div 128" by (rule unat_drop_7)
    moreover have "unat tag div 128 < 128" using n by (simp add: less_mult_imp_div_less)
    ultimately have b: "ucast (drop_bit 7 tag) = (word_of_nat (unat tag div 128) :: byte)" "varint_enc (unat tag div 128) = [word_of_nat (unat tag div 128)]"
      using ucast_byte_small [of "drop_bit 7 tag"] by (simp_all add: varint_enc_small)
    show ?thesis using n by (simp add: varint_enc_big a b)
  qed
qed

lemma byte_is_tag: "unat (tag :: 32 word) < 2 ^ 7 \<Longrightarrow> (ucast (b :: byte) :: 32 word) = tag \<longleftrightarrow> b = ucast tag"
proof -
  assume n: "unat tag < 2 ^ 7"
  then have "unat (ucast tag :: byte) = unat tag" by (simp add: unat_ucast_byte)
  then show ?thesis by (metis unat_ucast_byte_32 unsigned_word_eqI)
qed

text \<open>The array version, with as many bytes in the buffer as a tag takes.\<close>

lemma ExpectTagFromArray_Some:
  assumes "ExpectTagFromArray buffer tag = Some bs" and "length (varint_enc (unat tag)) \<le> length buffer"
  shows "buffer = varint_enc (unat tag) @ bs"
proof (cases "unat tag < 2 ^ 7")
  case True
  with assms tag_bytes(1) [OF True] byte_is_tag [OF True] show ?thesis
    by (cases buffer) (auto simp: ExpectTagFromArray_def split: if_splits)
next
  case False
  with assms have small: "unat tag < 2 ^ 14" by (auto simp: ExpectTagFromArray_def split: if_splits)
  have "2 ^ 7 \<le> unat tag" using False by simp
  note enc = tag_bytes(2) [OF this small]
  obtain a b cs where "buffer = a # b # cs" using assms(2) enc by (cases buffer; cases "tl buffer") auto
  with assms(1) False enc show ?thesis by (auto simp: ExpectTagFromArray_def split: if_splits)
qed

lemma expect_tag_spec:
  assumes ok: "coded_ok okI V s" and r: "ExpectTag tag s = (b, t)"
  shows "if b then consumes okI rest V (length (varint_enc (unat tag))) s t \<and> readable rest s = varint_enc (unat tag) @ readable rest t
    else t = s"
proof -
  obtain more where buf: "readable rest s = buffer_bytes s @ more" "int (length (buffer_bytes s)) = ci_size s"
    "take (nat (ci_size s)) (ci_data s) = buffer_bytes s" using ok by (rule buffer_prefix)
  have len: "ci_size s \<le> int (length (ci_data s))" using coded_ok_size [OF ok] by simp
  have adv: "consumes okI rest V k s (Advance (int k) s) \<and> readable rest s = take k (ci_data s) @ readable rest (Advance (int k) s)"
    if "int k \<le> ci_size s" for k
  proof -
    from advance_consumes [OF ok _ that, of rest] have c: "consumes okI rest V k s (Advance (int k) s)"
      "take k (ci_data s) = take k (readable rest s)" by simp_all
    from consumes_readable [OF c(1)] c show ?thesis by simp
  qed
  show ?thesis
  proof (cases b)
    case False
    with r show ?thesis by (auto simp: ExpectTag_def split: if_splits)
  next
    case b: True
    show ?thesis
    proof (cases "unat tag < 2 ^ 7")
      case True
      with r b have t: "0 < ci_size s" "ucast (ci_data s ! 0) = tag" "t = Advance 1 s"
        by (auto simp: ExpectTag_def BufferSize_def split: if_splits)
      then have "take 1 (ci_data s) = varint_enc (unat tag)"
        using len byte_is_tag [OF True] tag_bytes(1) [OF True] by (cases "ci_data s") auto
      with adv [of 1] t b tag_bytes(1) [OF True] show ?thesis by simp
    next
      case False
      with r b have t: "unat tag < 2 ^ 14" "2 \<le> ci_size s" "ci_data s ! 0 = ucast (tag OR 0x80)"
        "ci_data s ! 1 = ucast (drop_bit 7 tag)" "t = Advance 2 s"
        by (auto simp: ExpectTag_def BufferSize_def split: if_splits)
      have "2 ^ 7 \<le> unat tag" using False by simp
      note enc = tag_bytes(2) [OF this t(1)]
      have "take 2 (ci_data s) = varint_enc (unat tag)"
        using len t enc by (cases "ci_data s"; cases "tl (ci_data s)") (auto simp: numeral_2_eq_2)
      moreover have "length (varint_enc (unat tag)) = 2" using enc by simp
      ultimately show ?thesis using adv [of 2] t(2,5) b by simp
    qed
  qed
qed

section \<open>Runs of elements\<close>

text \<open>The wire format of repeated elements, each behind its tag.\<close>

definition tagged :: "('v \<Rightarrow> byte list) \<Rightarrow> 32 word \<Rightarrow> 'v list \<Rightarrow> byte list" where
  "tagged to_array tag vs = concat (map (\<lambda>v. varint_enc (unat tag) @ to_array v) vs)"

lemma tagged_simps [simp]:
  "tagged to_array tag [] = []"
  "tagged to_array tag (v # vs) = varint_enc (unat tag) @ to_array v @ tagged to_array tag vs"
  by (simp_all add: tagged_def)

context wire_primitive
begin

text \<open>The loop takes elements from the front; what follows the run does not start with the tag.\<close>

lemma read_reserved_elements:
  "coded_ok inv V s \<Longrightarrow> rf_ok vals \<Longrightarrow> rf_current_size vals + int n \<le> Capacity vals \<Longrightarrow>
   readable rest s = tagged to_array tag vs @ bs \<Longrightarrow> (\<And>cs. bs \<noteq> varint_enc (unat tag) @ cs) \<Longrightarrow>
   \<exists>t w us ws k. read_reserved read tag n s vals = Some (Inr (True, t, w)) \<and> consumes inv rest V k s t \<and> rf_ok w \<and>
     vs = us @ ws \<and> elements w = elements vals @ us \<and> readable rest t = tagged to_array tag ws @ bs"
proof (induction n arbitrary: s vals vs)
  case 0
  have "consumes inv rest V 0 s s" using 0(1) by (simp add: consumes_def coded_frame_def)
  with 0 show ?case by fastforce
next
  case (Suc n)
  obtain b t where e: "ExpectTag tag s = (b, t)" by force
  note found = expect_tag_spec [OF Suc.prems(1) e, of rest]
  show ?case
  proof (cases b)
    case False
    then have "t = s" "consumes inv rest V 0 s s" using found Suc.prems(1) by (simp_all add: consumes_def coded_frame_def)
    with False e Suc.prems(2,4) show ?thesis by fastforce
  next
    case True
    with found have t: "consumes inv rest V (length (varint_enc (unat tag))) s t"
      "readable rest s = varint_enc (unat tag) @ readable rest t" by simp_all
    obtain v vs' where vs: "vs = v # vs'" using t(2) Suc.prems(4,5) by (cases vs) auto
    then have "readable rest t = to_array v @ tagged to_array tag vs' @ bs" using t(2) Suc.prems(4) by simp
    moreover have "coded_ok inv V t" using t(1) by (simp add: consumes_def)
    ultimately obtain u where u: "read t = Some (Inr (Some v, u))" "consumes inv rest V (length (to_array v)) t u"
      "readable rest u = tagged to_array tag vs' @ bs"
      using reads_back [of t v "tagged to_array tag vs' @ bs"] consumes_readable by fastforce
    have "rf_current_size vals < Capacity vals" using Suc.prems(3) by simp
    from AddAlreadyReserved_spec [OF Suc.prems(2) this, of v] obtain x where
      x: "AddAlreadyReserved v vals = Inr x" "rf_ok x" "elements x = elements vals @ [v]"
        "rf_current_size x = rf_current_size vals + 1" "Capacity x = Capacity vals" by blast
    have "coded_ok inv V u" "rf_current_size x + int n \<le> Capacity x" using u(2) x Suc.prems(3) by (simp_all add: consumes_def)
    from Suc.IH [OF this(1) x(2) this(2) u(3) Suc.prems(5)] obtain y w us ws k where
      y: "read_reserved read tag n u x = Some (Inr (True, y, w))" "consumes inv rest V k u y" "rf_ok w"
        "vs' = us @ ws" "elements w = elements x @ us" "readable rest y = tagged to_array tag ws @ bs" by blast
    have "consumes inv rest V (length (varint_enc (unat tag)) + length (to_array v) + k) s y"
      using consumes_trans [OF consumes_trans [OF t(1) u(2)] y(2)] .
    moreover have "read_reserved read tag (Suc n) s vals = Some (Inr (True, y, w))" using e True u(1) x(1) y(1) by simp
    moreover have "vs = (v # us) @ ws" "elements w = elements vals @ (v # us)" using vs y(4,5) x(3) by simp_all
    ultimately show ?thesis using y(3,6) by blast
  qed
qed

lemma repeated_elements:
  assumes ok: "coded_ok inv V s" and vals_ok: "rf_ok vals" and room: "int (length (elements vals)) < INT_MAX"
    and s: "readable rest s = to_array v @ tagged to_array tag vs @ bs" and ends: "\<And>cs. bs \<noteq> varint_enc (unat tag) @ cs"
  shows "\<exists>t w us ws k. ReadRepeatedPrimitive read tag s vals = Some (Inr (True, t, w)) \<and> consumes inv rest V k s t \<and> rf_ok w \<and>
    vs = us @ ws \<and> elements w = elements vals @ v # us \<and> readable rest t = tagged to_array tag ws @ bs"
proof -
  from reads_back [OF ok s] obtain u where u: "read s = Some (Inr (Some v, u))" "consumes inv rest V (length (to_array v)) s u" by blast
  have "readable rest u = tagged to_array tag vs @ bs" using consumes_readable [OF u(2)] s by simp
  moreover obtain x where x: "rf_Add v vals = Inr x" "rf_ok x" "elements x = elements vals @ [v]"
    using rf_Add_spec [OF vals_ok, of v] room rf_size_elements [OF vals_ok] by auto
  moreover have "rf_current_size x + int (nat (Capacity x - rf_current_size x)) \<le> Capacity x" using x(2) by (simp add: rf_ok_def)
  moreover have "coded_ok inv V u" using u(2) by (simp add: consumes_def)
  ultimately obtain y w us ws k where
    y: "read_reserved read tag (nat (Capacity x - rf_current_size x)) u x = Some (Inr (True, y, w))" "consumes inv rest V k u y" "rf_ok w"
      "vs = us @ ws" "elements w = elements x @ us" "readable rest y = tagged to_array tag ws @ bs"
    using read_reserved_elements [OF _ x(2) _ _ ends] by meson
  with u(1) x consumes_trans [OF u(2) y(2)] show ?thesis by (fastforce simp: ReadRepeatedPrimitive_def)
qed

end

text \<open>
  For the fixed-size types no assumption on the input is needed: whatever the loop over the buffer
  has added is what stands at the front of the buffer.
\<close>

context wire_fixed
begin

lemma read_from_array_elements:
  assumes from_array: "\<And>buf. from_array buf = (of_bytes (take n buf), drop n buf)"
  shows "rf_ok vals \<Longrightarrow> rf_current_size vals + int m \<le> Capacity vals \<Longrightarrow>
    m * (length (varint_enc (unat tag)) + n) \<le> length buffer \<Longrightarrow>
    \<exists>us w more. read_from_array from_array tag m buffer vals = Inr (length us, w) \<and> rf_ok w \<and> length us \<le> m \<and>
      elements w = elements vals @ us \<and> buffer = tagged to_array tag us @ more"
proof (induction m arbitrary: buffer vals)
  case 0
  then show ?case by (intro exI [of _ "[]"]) simp
next
  case (Suc m)
  show ?case
  proof (cases "ExpectTagFromArray buffer tag")
    case None
    with Suc.prems(1) show ?thesis by (intro exI [of _ "[]"]) simp
  next
    case (Some buf)
    have buf: "buffer = varint_enc (unat tag) @ buf" using ExpectTagFromArray_Some [OF Some] Suc.prems(3) by simp
    then have len: "length (take n buf) = n" "m * (length (varint_enc (unat tag)) + n) \<le> length (drop n buf)"
      using Suc.prems(3) by simp_all
    let ?v = "of_bytes (take n buf)"
    have "rf_current_size vals < Capacity vals" using Suc.prems(2) by simp
    from AddAlreadyReserved_spec [OF Suc.prems(1) this, of ?v] obtain x where
      x: "AddAlreadyReserved ?v vals = Inr x" "rf_ok x" "elements x = elements vals @ [?v]"
        "rf_current_size x = rf_current_size vals + 1" "Capacity x = Capacity vals" by blast
    then have "rf_current_size x + int m \<le> Capacity x" using Suc.prems(2) by simp
    from Suc.IH [OF x(2) this len(2)] obtain us w more where
      w: "read_from_array from_array tag m (drop n buf) x = Inr (length us, w)" "rf_ok w" "length us \<le> m"
        "elements w = elements x @ us" "drop n buf = tagged to_array tag us @ more" by blast
    have "buffer = tagged to_array tag (?v # us) @ more"
      using buf w(5) to_array_inverse [OF len(1)] append_take_drop_id [of n buf] by simp
    moreover have "read_from_array from_array tag (Suc m) buffer vals = Inr (length (?v # us), w)"
      using Some x(1) w(1) by (simp add: from_array)
    moreover have "length (?v # us) \<le> Suc m" "elements w = elements vals @ (?v # us)" using w x(3) by simp_all
    ultimately show ?thesis using w(2) by blast
  qed
qed

lemma repeated_fixed_elements:
  assumes from_array: "\<And>buf. from_array buf = (of_bytes (take n buf), drop n buf)"
    and ok: "coded_ok inv V s" and vals_ok: "rf_ok vals" and room: "int (length (elements vals)) < INT_MAX"
    and s: "readable rest s = to_array v @ bs"
    and tag_size: "tag_size = int (length (varint_enc (unat tag)))"
  shows "\<exists>t w us k. ReadRepeatedFixedSizePrimitive V (int n) read from_array tag_size tag s vals = Some (Inr (True, t, w)) \<and>
    consumes inv rest V k s t \<and> rf_ok w \<and> elements w = elements vals @ v # us \<and> bs = tagged to_array tag us @ readable rest t"
proof -
  from reads_back [OF ok s] obtain u where u: "read s = Some (Inr (Some v, u))" "consumes inv rest V (length (to_array v)) s u" by blast
  have ru: "readable rest u = bs" and oku: "coded_ok inv V u" using consumes_readable [OF u(2)] s u(2) by (simp_all add: consumes_def)
  obtain x where x: "rf_Add v vals = Inr x" "rf_ok x" "elements x = elements vals @ [v]"
    using rf_Add_spec [OF vals_ok, of v] room rf_size_elements [OF vals_ok] by auto
  obtain more where buf: "readable rest u = buffer_bytes u @ more" "int (length (buffer_bytes u)) = ci_size u"
    using oku by (rule buffer_prefix)
  let ?per = "length (varint_enc (unat tag)) + n"
  have per: "tag_size + int n = int ?per" "0 < ?per" using positive by (simp_all add: tag_size)
  let ?m = "min (Capacity x - rf_current_size x) (ci_size u div int ?per)"
  show ?thesis
  proof (cases "BufferSize u > 0")
    case False
    then have "ReadRepeatedFixedSizePrimitive V (int n) read from_array tag_size tag s vals = Some (Inr (True, u, x))"
      using u(1) x(1) by (simp add: ReadRepeatedFixedSizePrimitive_def)
    with u(2) x(2,3) ru show ?thesis by fastforce
  next
    case True
    have m: "0 \<le> ?m" using True x(2) per by (simp add: rf_ok_def BufferSize_def div_int_pos_iff)
    then have "rf_current_size x + int (nat ?m) \<le> Capacity x" by simp
    moreover have "nat ?m * ?per \<le> length (buffer_bytes u)"
    proof -
      have "?m * int ?per \<le> ci_size u div int ?per * int ?per" by (intro mult_right_mono) simp_all
      also have "\<dots> \<le> ci_size u" using div_mult_mod_eq [of "ci_size u" "int ?per"] per(2) by (metis add_le_same_cancel1 linorder_not_le of_nat_0_less_iff pos_mod_sign add_increasing2 order_refl)
      finally have "int (nat ?m * ?per) \<le> int (length (buffer_bytes u))" using m buf(2) by (simp only: of_nat_mult int_nat_eq if_True)
      then show ?thesis by (simp only: of_nat_le_iff)
    qed
    ultimately obtain us w rst where
      w: "read_from_array from_array tag (nat ?m) (buffer_bytes u) x = Inr (length us, w)" "rf_ok w"
        "elements w = elements x @ us" "buffer_bytes u = tagged to_array tag us @ rst"
      using read_from_array_elements [OF from_array x(2)] by metis
    have len: "length (tagged to_array tag us) = length us * ?per" by (induction us) (simp_all add: sized)
    show ?thesis
    proof (cases "us = []")
      case True
      then have "ReadRepeatedFixedSizePrimitive V (int n) read from_array tag_size tag s vals = Some (Inr (True, u, w))"
        using u(1) x(1) w(1) \<open>BufferSize u > 0\<close> per
        by (simp add: ReadRepeatedFixedSizePrimitive_def GetDirectBufferPointerInline_def BufferSize_def Let_def)
      with u(2) w(2,3) x(3) True ru show ?thesis by fastforce
    next
      case False
      let ?bytes = "int (length us) * int ?per"
      have "0 < int (length us)" "0 < int ?per" using False per(2) by (simp_all only: of_nat_0_less_iff length_greater_0_conv not_False_eq_True)
      then have "0 < ?bytes" by (rule mult_pos_pos)
      moreover have "nat ?bytes = length (tagged to_array tag us)" by (simp only: len of_nat_mult [symmetric] nat_int)
      ultimately have bytes: "0 < ?bytes" "nat ?bytes = length (tagged to_array tag us)" by blast+
      have "nat ?bytes \<le> length (readable rest u)" using bytes(2) w(4) buf(1) by simp
      with skip_spec [OF oku, of ?bytes] bytes(1) obtain t where
        t: "Skip V ?bytes u = Inr (True, t)" "consumes inv rest V (nat ?bytes) u t" by auto
      have "ReadRepeatedFixedSizePrimitive V (int n) read from_array tag_size tag s vals = Some (Inr (True, t, w))"
        using u(1) x(1) w(1) t(1) bytes(1) \<open>BufferSize u > 0\<close>
        by (simp add: ReadRepeatedFixedSizePrimitive_def GetDirectBufferPointerInline_def BufferSize_def Let_def per(1))
      moreover have b: "bs = tagged to_array tag us @ rst @ more" using ru buf(1) w(4) by simp
      then have "readable rest t = rst @ more" using consumes_readable [OF t(2)] unfolding ru bytes(2) by simp
      with b have "bs = tagged to_array tag us @ readable rest t" by simp
      moreover have "elements w = elements vals @ v # us" using w(3) x(3) by simp
      ultimately show ?thesis using consumes_trans [OF u(2) t(2)] w(2) by blast
    qed
  qed
qed

end

section \<open>The fixed-size types of the program's stream\<close>

lemma le_bytes_32:
  assumes "length bs = 4"
  shows "WriteLittleEndian32ToArray (ReadLittleEndian32FromArray bs) = bs"
proof -
  obtain a b c d where bs: "bs = [a, b, c, d]" using assms by (auto simp: length_Suc_conv numeral_eq_Suc)
  have "ucast (drop_bit (8 * i) (ucast a OR push_bit 8 (ucast b) OR push_bit 16 (ucast c) OR push_bit 24 (ucast d) :: 32 word)) = ([a, b, c, d] ! i :: byte)"
    if "i < 4" for i
  proof (rule bit_word_eqI)
    fix k
    assume k: "k < LENGTH(8)"
    have byte: "bit (x :: byte) j \<Longrightarrow> j < 8" for x j using bit_imp_le_length [of x j] by simp
    from that consider "i = 0" | "i = 1" | "i = 2" | "i = 3" by linarith
    then show "bit (ucast (drop_bit (8 * i) (ucast a OR push_bit 8 (ucast b) OR push_bit 16 (ucast c) OR push_bit 24 (ucast d) :: 32 word)) :: byte) k = bit ([a, b, c, d] ! i) k"
      using k by cases (auto simp: bit_simps dest: byte)
  qed
  from this [of 0] this [of 1] this [of 2] this [of 3] show ?thesis
    by (simp add: bs WriteLittleEndian32ToArray_def ReadLittleEndian32FromArray_def numeral_eq_Suc)
qed

lemma le_bytes_64:
  assumes "length bs = 8"
  shows "WriteLittleEndian64ToArray (ReadLittleEndian64FromArray bs) = bs"
proof -
  let ?x = "ReadLittleEndian32FromArray (take 4 bs)" and ?y = "ReadLittleEndian32FromArray (drop 4 bs)"
  have v: "ReadLittleEndian64FromArray bs = ucast ?x OR push_bit 32 (ucast ?y)"
    by (simp add: ReadLittleEndian64FromArray_def Let_def file_in.little_endian_take)
  have low: "ucast (ucast ?x OR push_bit 32 (ucast ?y) :: 64 word) = ?x"
    by (rule bit_word_eqI) (auto simp: bit_simps)
  have high: "ucast (drop_bit 32 (ucast ?x OR push_bit 32 (ucast ?y) :: 64 word)) = ?y"
    by (rule bit_word_eqI) (auto simp: bit_simps dest: bit_imp_le_length)
  have "WriteLittleEndian64ToArray w = WriteLittleEndian32ToArray (ucast w) @ WriteLittleEndian32ToArray (ucast (drop_bit 32 w))" for w
    by (simp add: WriteLittleEndian64ToArray_def WriteLittleEndian32ToArray_def Let_def)
  note split = this
  show ?thesis unfolding split v low high using assms by (simp add: le_bytes_32)
qed

text \<open>Reading the whole object representation.\<close>

lemma le_exact:
  "ReadLittleEndian32FromArray (WriteLittleEndian32ToArray v) = v" "ReadLittleEndian64FromArray (WriteLittleEndian64ToArray w) = w"
  using little_endian_32 [of v "[]"] little_endian_64 [of w "[]"] by simp_all

interpretation fixed32_fixed: wire_fixed FileInputStream file_inv file_rest file_size
    "ReadPrimitive_FIXED32 FileInputStream" WriteFixed32NoTagToArray kFixed32Size ReadLittleEndian32FromArray "object_bytes 4"
  by unfold_locales (simp_all add: WriteFixed32NoTagToArray_def kFixed32Size_def le_exact le_bytes_32 object_bytes_32)

interpretation fixed64_fixed: wire_fixed FileInputStream file_inv file_rest file_size
    "ReadPrimitive_FIXED64 FileInputStream" WriteFixed64NoTagToArray kFixed64Size ReadLittleEndian64FromArray "object_bytes 8"
  by unfold_locales (simp_all add: WriteFixed64NoTagToArray_def kFixed64Size_def le_exact le_bytes_64 object_bytes_64)

interpretation sfixed32_fixed: wire_fixed FileInputStream file_inv file_rest file_size
    "ReadPrimitive_SFIXED32 FileInputStream" WriteSFixed32NoTagToArray kFixed32Size ReadLittleEndian32FromArray "object_bytes 4"
  by unfold_locales (simp_all add: WriteSFixed32NoTagToArray_def kFixed32Size_def le_exact le_bytes_32 object_bytes_32)

interpretation sfixed64_fixed: wire_fixed FileInputStream file_inv file_rest file_size
    "ReadPrimitive_SFIXED64 FileInputStream" WriteSFixed64NoTagToArray kFixed64Size ReadLittleEndian64FromArray "object_bytes 8"
  by unfold_locales (simp_all add: WriteSFixed64NoTagToArray_def kFixed64Size_def le_exact le_bytes_64 object_bytes_64)

interpretation float_fixed: wire_fixed FileInputStream file_inv file_rest file_size
    "ReadPrimitive_FLOAT FileInputStream" WriteFloatNoTagToArray kFixed32Size ReadLittleEndian32FromArray "object_bytes 4"
  by unfold_locales (simp_all add: WriteFloatNoTagToArray_def EncodeFloat_def kFixed32Size_def le_exact le_bytes_32 object_bytes_32)

interpretation double_fixed: wire_fixed FileInputStream file_inv file_rest file_size
    "ReadPrimitive_DOUBLE FileInputStream" WriteDoubleNoTagToArray kFixed64Size ReadLittleEndian64FromArray "object_bytes 8"
  by unfold_locales (simp_all add: WriteDoubleNoTagToArray_def EncodeDouble_def kFixed64Size_def le_exact le_bytes_64 object_bytes_64)

end
