(* ===== verification/Output_Contract.thy ===== *)
theory Output_Contract
  imports Output_Stream
begin

text \<open>The output streams keep the contract of \<open>ZeroCopyOutputStream\<close>.\<close>

section \<open>ArrayOutputStream\<close>

definition array_out_ok :: "nat \<Rightarrow> array_output \<Rightarrow> bool" where
  "array_out_ok r s \<longleftrightarrow> ao_size s = int (length (ao_data s)) \<and> (0 < ao_size s \<longrightarrow> 0 < ao_block_size s) \<and>
     0 \<le> ao_position s \<and> ao_position s \<le> ao_size s \<and> 0 \<le> ao_last_returned_size s \<and>
     int r \<le> ao_last_returned_size s \<and> int r \<le> ao_position s"

text \<open>The array is used up.\<close>

definition array_out_full :: "array_output \<Rightarrow> bool" where
  "array_out_full s \<longleftrightarrow> ao_size s \<le> ao_position s"

definition array_out :: "array_output \<Rightarrow> byte list" where
  "array_out s = take (nat (ao_position s)) (ao_data s)"

lemma overwrite_take: "x + length bs \<le> n \<Longrightarrow> n \<le> length xs \<Longrightarrow> take n (overwrite x bs xs) = overwrite x bs (take n xs)"
  by (simp add: overwrite_def drop_take min_absorb1)

lemma take_slice:
  assumes "0 \<le> x" and "0 \<le> n" and "x + n \<le> p" and "p \<le> int (length xs)"
  shows "slice x n xs = take (nat n) (drop (length (take (nat p) xs) - nat (p - x)) (take (nat p) xs))"
proof -
  have "length (take (nat p) xs) - nat (p - x) = nat x" "nat n \<le> nat p - nat x" using assms by auto
  then show ?thesis using assms by (simp add: slice_def drop_take)
qed

lemma store_address:
  assumes "0 \<le> x" and "x \<le> p" and "p \<le> int (length xs)"
  shows "length (take (nat p) xs) - nat (p - x) = nat x"
  using assms by auto

interpretation array_out: zero_copy_output ArrayOutputStream array_out_ok array_out_full array_out ao_position
proof unfold_locales
  fix r and s :: array_output
  assume ok: "array_out_ok r s"
  show "(\<exists>a n s' d. zo_Next ArrayOutputStream s = Inr (Some (a, n), s') \<and> 0 < n \<and> array_out_ok (nat n) s' \<and>
        array_out s' = array_out s @ d \<and> length d = nat n \<and> ao_position s' = a + n) \<or>
      (\<exists>s' s''. zo_Next ArrayOutputStream s = Inr (None, s') \<and> array_out_full s' \<and> zo_BackUp ArrayOutputStream 0 s' = Inr s'' \<and> array_out_full s'')"
  proof (cases "ao_position s < ao_size s")
    case True
    let ?n = "min (ao_block_size s) (ao_size s - ao_position s)"
    let ?s = "s\<lparr>ao_last_returned_size := ?n, ao_position := ao_position s + ?n\<rparr>"
    have n: "0 < ?n" "ao_position s + ?n \<le> ao_size s" using ok True by (auto simp: array_out_ok_def)
    have "array_out ?s = array_out s @ slice (ao_position s) ?n (ao_data s)"
      using ok n by (simp add: array_out_def slice_def nat_add_distrib take_add array_out_ok_def)
    moreover have "length (slice (ao_position s) ?n (ao_data s)) = nat ?n"
      using ok n length_slice [of "ao_position s" ?n "ao_data s"] by (simp add: array_out_ok_def)
    moreover have "array_out_ok (nat ?n) ?s" using ok n by (simp add: array_out_ok_def)
    moreover have "zo_Next ArrayOutputStream s = Inr (Some (ao_position s, ?n), ?s)"
      using True by (simp add: ArrayOutputStream_def ArrayOutputStream_Next_def Let_def)
    ultimately show ?thesis using n by (intro disjI1 exI conjI) (assumption | simp)+
  next
    case False
    then show ?thesis by (simp add: ArrayOutputStream_def ArrayOutputStream_Next_def ArrayOutputStream_BackUp_def array_out_full_def)
  qed
  show "r \<le> length (array_out s)" using ok by (simp add: array_out_def array_out_ok_def) linarith
  show "zo_ByteCount ArrayOutputStream s = int (length (array_out s))"
    using ok by (auto simp: ArrayOutputStream_def ArrayOutputStream_ByteCount_def array_out_def array_out_ok_def)
next
  fix r and s :: array_output and n
  assume "array_out_ok r s" "0 \<le> n" "n \<le> int r"
  moreover from this have "length (array_out s) - nat n = nat (ao_position s - n)"
    by (auto simp: array_out_def array_out_ok_def)
  ultimately show "\<exists>s'. zo_BackUp ArrayOutputStream n s = Inr s' \<and>
      (array_out_full s' \<or> array_out_ok 0 s' \<and> array_out s' = take (length (array_out s) - nat n) (array_out s))"
    by (simp add: ArrayOutputStream_def ArrayOutputStream_BackUp_def array_out_ok_def array_out_def)
next
  fix r and s :: array_output and x and bs :: "byte list"
  assume ok: "array_out_ok r s" and x: "ao_position s - int r \<le> x" "x + int (length bs) \<le> ao_position s"
  have "0 \<le> x" "x \<le> ao_position s" "ao_position s \<le> int (length (ao_data s))"
    using ok x by (auto simp: array_out_ok_def)
  note address = store_address [OF this]
  have *: "nat x + length bs \<le> nat (ao_position s)" "nat (ao_position s) \<le> length (ao_data s)"
    using \<open>0 \<le> x\<close> \<open>ao_position s \<le> int (length (ao_data s))\<close> x(2) by linarith+
  show "array_out_ok r (zo_store ArrayOutputStream x bs s) \<and>
      ao_position (zo_store ArrayOutputStream x bs s) = ao_position s \<and>
      array_out (zo_store ArrayOutputStream x bs s) =
        overwrite (length (array_out s) - nat (ao_position s - x)) bs (array_out s)"
  proof -
    define d where "d = overwrite (nat x) bs (ao_data s)"
    have "length d = length (ao_data s)" using * by (simp add: d_def)
    moreover have "take (nat (ao_position s)) d = overwrite (nat x) bs (take (nat (ao_position s)) (ao_data s))"
      using * by (simp only: d_def overwrite_take)
    moreover have "zo_store ArrayOutputStream x bs s = s\<lparr>ao_data := d\<rparr>" by (simp add: ArrayOutputStream_def d_def)
    ultimately show ?thesis
      using ok address by (simp only: array_out_ok_def array_out_def) simp
  qed
next
  fix r and s :: array_output and x n
  assume ok: "array_out_ok r s" and x: "ao_position s - int r \<le> x" "0 \<le> n" "x + n \<le> ao_position s"
  then show "zo_load ArrayOutputStream x n s =
      take (nat n) (drop (length (array_out s) - nat (ao_position s - x)) (array_out s))"
    using take_slice [of x n "ao_position s" "ao_data s"]
    by (simp add: ArrayOutputStream_def array_out_def array_out_ok_def)
qed (simp add: ArrayOutputStream_def)

section \<open>StringOutputStream\<close>

definition string_out_ok :: "nat \<Rightarrow> string_output \<Rightarrow> bool" where
  "string_out_ok r s \<longleftrightarrow> r \<le> length (so_target s) \<and> (\<forall>c n. n \<le> so_grow s c n) \<and>
     int (length (so_target s)) \<le> so_capacity s"

lemma string_resize_capacity: "\<forall>c n. n \<le> so_grow s c n \<Longrightarrow> n \<le> so_capacity (STLStringResizeUninitialized n s)"
  by (simp add: STLStringResizeUninitialized_def)

lemma string_resize_smaller:
  "n \<le> length (so_target s) \<Longrightarrow> so_target (STLStringResizeUninitialized (int n) s) = take n (so_target s)"
  by (simp add: STLStringResizeUninitialized_def)

interpretation string_out: zero_copy_output StringOutputStream string_out_ok "\<lambda>s. False" so_target
    "\<lambda>s. int (length (so_target s))"
proof unfold_locales
  fix r and s :: string_output
  assume ok: "string_out_ok r s"
  let ?old = "int (length (so_target s))"
  let ?new = "max (min (if ?old < so_capacity s then so_capacity s else ?old * 2) (?old + 2147483647)) kMinimumSize"
  let ?s = "STLStringResizeUninitialized ?new s"
  have new: "?old < ?new" using ok by (auto simp: string_out_ok_def kMinimumSize_def)
  then have target: "so_target ?s = so_target s @ replicate (nat (?new - ?old)) 0"
    by (simp add: STLStringResizeUninitialized_def)
  have len: "int (length (so_target ?s)) = ?new" using new by (simp add: target)
  have nxt: "zo_Next StringOutputStream s = Inr (Some (?old, int (length (so_target ?s)) - ?old), ?s)"
    by (simp add: StringOutputStream_def StringOutputStream_Next_def Let_def)
  have "string_out_ok (nat (int (length (so_target ?s)) - ?old)) ?s"
  proof -
    have "so_grow ?s = so_grow s" by (simp add: STLStringResizeUninitialized_def)
    moreover have "?new \<le> so_capacity ?s" using ok by (intro string_resize_capacity) (simp add: string_out_ok_def)
    moreover have "nat (int (length (so_target ?s)) - ?old) \<le> length (so_target ?s)" by linarith
    ultimately show ?thesis using ok unfolding string_out_ok_def len by simp
  qed
  then show "(\<exists>a n s' d. zo_Next StringOutputStream s = Inr (Some (a, n), s') \<and> 0 < n \<and> string_out_ok (nat n) s' \<and>
        so_target s' = so_target s @ d \<and> length d = nat n \<and> int (length (so_target s')) = a + n) \<or>
      (\<exists>s' s''. zo_Next StringOutputStream s = Inr (None, s') \<and> False \<and> zo_BackUp StringOutputStream 0 s' = Inr s'' \<and> False)"
    using new len target nxt by (intro disjI1 exI conjI) (assumption | simp)+
  show "r \<le> length (so_target s)" using ok by (simp add: string_out_ok_def)
  show "zo_ByteCount StringOutputStream s = int (length (so_target s))"
    by (simp add: StringOutputStream_def StringOutputStream_ByteCount_def)
next
  fix r and s :: string_output and n
  assume ok: "string_out_ok r s" and n: "0 \<le> n" "n \<le> int r"
  let ?m = "length (so_target s) - nat n"
  have m: "int (length (so_target s)) - n = int ?m" using ok n by (auto simp: string_out_ok_def)
  let ?s = "STLStringResizeUninitialized (int ?m) s"
  have "n \<le> int (length (so_target s))" using ok n by (simp add: string_out_ok_def)
  with n(1) have "StringOutputStream_BackUp n s = Inr ?s"
    unfolding StringOutputStream_BackUp_def m by (simp only: simp_thms if_False)
  then have "zo_BackUp StringOutputStream n s = Inr ?s" by (simp add: StringOutputStream_def)
  moreover have "so_target ?s = take ?m (so_target s)" by (intro string_resize_smaller) simp
  moreover have "so_capacity ?s = so_capacity s" "so_grow ?s = so_grow s"
    using ok by (auto simp: STLStringResizeUninitialized_def string_out_ok_def)
  ultimately show "\<exists>s'. zo_BackUp StringOutputStream n s = Inr s' \<and>
      (False \<or> string_out_ok 0 s' \<and> so_target s' = take (length (so_target s) - nat n) (so_target s))"
    using ok by (intro exI [of _ ?s]) (simp add: string_out_ok_def, linarith)
next
  fix r and s :: string_output and x and bs :: "byte list"
  assume ok: "string_out_ok r s" and x: "int (length (so_target s)) - int r \<le> x" "x + int (length bs) \<le> int (length (so_target s))"
  then have "0 \<le> x" "nat x + length bs \<le> length (so_target s)" by (auto simp: string_out_ok_def)
  moreover from this have "length (so_target s) - nat (int (length (so_target s)) - x) = nat x" by linarith
  ultimately show "string_out_ok r (zo_store StringOutputStream x bs s) \<and>
      int (length (so_target (zo_store StringOutputStream x bs s))) = int (length (so_target s)) \<and>
      so_target (zo_store StringOutputStream x bs s) =
        overwrite (length (so_target s) - nat (int (length (so_target s)) - x)) bs (so_target s)"
    using ok by (simp add: StringOutputStream_def string_out_ok_def)
next
  fix r and s :: string_output and x n
  assume ok: "string_out_ok r s" and x: "int (length (so_target s)) - int r \<le> x" "0 \<le> n" "x + n \<le> int (length (so_target s))"
  then show "zo_load StringOutputStream x n s =
      take (nat n) (drop (length (so_target s) - nat (int (length (so_target s)) - x)) (so_target s))"
    using take_slice [of x n "int (length (so_target s))" "so_target s"]
    by (simp add: StringOutputStream_def string_out_ok_def)
qed (simp add: StringOutputStream_def)

section \<open>Copying streams\<close>

text \<open>The contract of \<open>CopyingOutputStream\<close>: \<open>sent\<close> is what went through; a failed \<open>Write\<close> may have sent a part.\<close>

locale copying_output =
  fixes wr :: "byte list \<Rightarrow> 'c \<Rightarrow> (bool \<times> 'c) res"
    and c_ok :: "'c \<Rightarrow> bool"
    and sent :: "'c \<Rightarrow> byte list"
    and may_fail :: bool
  assumes write_spec: "c_ok c \<Longrightarrow>
      \<exists>b c'. wr bs c = Inr (b, c') \<and> c_ok c' \<and> (b \<longrightarrow> sent c' = sent c @ bs) \<and> (b \<or> may_fail)"

definition oa_ok :: "('c \<Rightarrow> bool) \<Rightarrow> ('c \<Rightarrow> byte list) \<Rightarrow> nat \<Rightarrow> 'c out_adaptor \<Rightarrow> bool" where
  "oa_ok c_ok sent r a \<longleftrightarrow> c_ok (oa_stream a) \<and> \<not> oa_failed a \<and> 0 \<le> oa_buffer_used a \<and> oa_buffer_used a \<le> oa_buffer_size a \<and>
     0 < oa_buffer_size a \<and>
     (oa_buffer a = None \<longrightarrow> oa_buffer_used a = 0) \<and>
     (oa_buffer a \<noteq> None \<longrightarrow> int (length (oa_bytes a)) = oa_buffer_size a) \<and>
     int r \<le> oa_buffer_used a \<and> (0 < r \<longrightarrow> oa_buffer_used a = oa_buffer_size a) \<and>
     oa_position a = int (length (sent (oa_stream a)))"

lemma oa_bytes_simps [simp]:
  "oa_buffer a = None \<Longrightarrow> oa_bytes a = []" "oa_bytes (a\<lparr>oa_buffer := Some bs\<rparr>) = bs"
  "oa_bytes (a\<lparr>oa_stream := c\<rparr>) = oa_bytes a" "oa_bytes (a\<lparr>oa_position := n\<rparr>) = oa_bytes a"
  "oa_bytes (a\<lparr>oa_buffer_used := n\<rparr>) = oa_bytes a"
  by (simp_all add: oa_bytes_def)

definition oa_out :: "('c \<Rightarrow> byte list) \<Rightarrow> 'c out_adaptor \<Rightarrow> byte list" where
  "oa_out sent a = sent (oa_stream a) @ take (nat (oa_buffer_used a)) (oa_bytes a)"

lemma oa_out_length:
  "oa_ok c_ok sent r a \<Longrightarrow> length (oa_out sent a) = length (sent (oa_stream a)) + nat (oa_buffer_used a)"
  by (cases "oa_buffer a = None") (auto simp: oa_ok_def oa_out_def)

lemma oa_store_spec:
  assumes ok: "oa_ok c_ok sent r a" and x: "oa_buffer_used a - int r \<le> x" "x + int (length bs) \<le> oa_buffer_used a"
  shows "oa_ok c_ok sent r (oa_store x bs a)" and "oa_buffer_used (oa_store x bs a) = oa_buffer_used a"
    and "oa_out sent (oa_store x bs a) = overwrite (length (oa_out sent a) - nat (oa_buffer_used a - x)) bs (oa_out sent a)"
proof -
  show u: "oa_buffer_used (oa_store x bs a) = oa_buffer_used a" by (simp add: oa_store_def)
  have x0: "0 \<le> x" "x \<le> oa_buffer_used a" using ok x by (auto simp: oa_ok_def)
  show "oa_ok c_ok sent r (oa_store x bs a)"
    using ok x x0 by (cases "oa_buffer a") (auto simp: oa_ok_def oa_store_def oa_bytes_def)
  let ?n = "nat (oa_buffer_used a)"
  have pos: "length (oa_out sent a) - nat (oa_buffer_used a - x) = length (sent (oa_stream a)) + nat x"
    using x0 oa_out_length [OF ok] by linarith
  have "take ?n (oa_bytes (oa_store x bs a)) = overwrite (nat x) bs (take ?n (oa_bytes a))"
  proof (cases "oa_buffer a")
    case None
    then have "oa_buffer_used a = 0" using ok by (simp add: oa_ok_def)
    then have "length bs = 0" using x x0 by linarith
    then have "bs = []" by simp
    with None show ?thesis by (simp add: oa_store_def oa_bytes_def overwrite_def)
  next
    case (Some b)
    then have b: "oa_bytes a = b" "oa_bytes (oa_store x bs a) = overwrite (nat x) bs b" by (simp_all add: oa_store_def oa_bytes_def)
    moreover have "nat x + length bs \<le> ?n" using x x0 by linarith
    moreover have "?n \<le> length b" using ok Some b(1) by (simp add: oa_ok_def) linarith
    ultimately show ?thesis by (simp add: overwrite_take)
  qed
  then show "oa_out sent (oa_store x bs a) = overwrite (length (oa_out sent a) - nat (oa_buffer_used a - x)) bs (oa_out sent a)"
    unfolding pos by (simp add: oa_out_def u) (simp add: oa_store_def overwrite_def add.assoc)
qed

context copying_output
begin

lemma write_buffer_spec:
  assumes ok: "oa_ok c_ok sent r a"
  obtains a' where "WriteBuffer wr a = Inr (True, a')" and "oa_ok c_ok sent 0 a'" and "oa_out sent a' = oa_out sent a"
      and "oa_buffer_used a' = 0" and "oa_buffer_size a' = oa_buffer_size a"
    | a' where "WriteBuffer wr a = Inr (False, a')" and "oa_failed a'" and may_fail
proof (cases "oa_buffer_used a = 0")
  case True
  then have "oa_ok c_ok sent 0 a" using ok by (auto simp: oa_ok_def)
  with True ok show thesis using that(1) [of a] by (simp add: WriteBuffer_def oa_ok_def)
next
  case False
  have "c_ok (oa_stream a)" using ok by (simp add: oa_ok_def)
  from write_spec [OF this, of "take (nat (oa_buffer_used a)) (oa_bytes a)"] obtain b c where
    w: "wr (take (nat (oa_buffer_used a)) (oa_bytes a)) (oa_stream a) = Inr (b, c)" "c_ok c"
      "b \<longrightarrow> sent c = sent (oa_stream a) @ take (nat (oa_buffer_used a)) (oa_bytes a)" "b \<or> may_fail" by blast
  show thesis
  proof (cases b)
    case True
    let ?a = "a\<lparr>oa_stream := c, oa_position := oa_position a + oa_buffer_used a, oa_buffer_used := 0\<rparr>"
    have "int (length (sent c)) = oa_position a + oa_buffer_used a"
      using True w(3) ok oa_out_length [OF ok] by (simp add: oa_out_def oa_ok_def)
    then have "oa_ok c_ok sent 0 ?a" using ok w(2) by (simp add: oa_ok_def)
    moreover have "oa_out sent ?a = oa_out sent a" using True w(3) by (simp add: oa_out_def)
    ultimately show thesis using True w(1) False ok that(1) [of ?a] by (simp add: WriteBuffer_def oa_ok_def)
  next
    case no: False
    with False w(1,4) ok show thesis
      using that(2) [of "OutAdaptor_FreeBuffer (a\<lparr>oa_stream := c, oa_failed := True\<rparr>)"]
      by (simp add: WriteBuffer_def oa_ok_def OutAdaptor_FreeBuffer_def)
  qed
qed

lemma allocate_spec:
  assumes ok: "oa_ok c_ok sent r a" and used: "oa_buffer_used a < oa_buffer_size a"
  shows "\<exists>d. OutAdaptor_AllocateBufferIfNeeded a = a\<lparr>oa_buffer := Some (take (nat (oa_buffer_used a)) (oa_bytes a) @ d)\<rparr> \<and>
    int (length d) = oa_buffer_size a - oa_buffer_used a"
proof (cases "oa_buffer a")
  case None
  with ok show ?thesis
    by (intro exI [of _ "replicate (nat (oa_buffer_size a)) 0"])
       (simp add: OutAdaptor_AllocateBufferIfNeeded_def oa_ok_def oa_bytes_def)
next
  case (Some b)
  with ok used show ?thesis
    by (intro exI [of _ "drop (nat (oa_buffer_used a)) b"])
       (auto simp: OutAdaptor_AllocateBufferIfNeeded_def oa_ok_def oa_bytes_def)
qed

lemma out_adaptor_next:
  assumes ok: "oa_ok c_ok sent r a"
  obtains p n a' d where "OutAdaptor_Next wr a = Inr (Some (p, n), a')" and "0 < n" and "oa_ok c_ok sent (nat n) a'"
      and "oa_out sent a' = oa_out sent a @ d" and "length d = nat n" and "oa_buffer_used a' = p + n"
      and "oa_buffer_size a' = oa_buffer_size a"
    | a' where "OutAdaptor_Next wr a = Inr (None, a')" and "oa_failed a'" and may_fail
proof -
  note found = that
  have fill: thesis if b: "oa_ok c_ok sent s b" "oa_out sent b = oa_out sent a" "oa_buffer_size b = oa_buffer_size a"
    "oa_buffer_used b < oa_buffer_size b"
    "(if oa_buffer_used a = oa_buffer_size a then WriteBuffer wr a else Inr (True, a)) = Inr (True, b)" for b s
  proof -
    obtain d where d: "OutAdaptor_AllocateBufferIfNeeded b = b\<lparr>oa_buffer := Some (take (nat (oa_buffer_used b)) (oa_bytes b) @ d)\<rparr>"
      "int (length d) = oa_buffer_size b - oa_buffer_used b" using allocate_spec [OF b(1,4)] by blast
    let ?n = "oa_buffer_size b - oa_buffer_used b"
    let ?a' = "b\<lparr>oa_buffer := Some (take (nat (oa_buffer_used b)) (oa_bytes b) @ d), oa_buffer_used := oa_buffer_size b\<rparr>"
    have len: "length (take (nat (oa_buffer_used b)) (oa_bytes b)) = nat (oa_buffer_used b)"
      using oa_out_length [OF b(1)] by (simp add: oa_out_def)
    have "OutAdaptor_Next wr a = Inr (Some (oa_buffer_used b, ?n), ?a')"
      using b(5) d(1) by (simp add: OutAdaptor_Next_def)
    moreover have "oa_ok c_ok sent (nat ?n) ?a'" using b(1,4) d(2) len by (auto simp: oa_ok_def)
    moreover have "nat (oa_buffer_size b) = length (take (nat (oa_buffer_used b)) (oa_bytes b) @ d)"
      using d(2) len b(1) by (simp add: oa_ok_def) linarith
    then have "take (nat (oa_buffer_size b)) (take (nat (oa_buffer_used b)) (oa_bytes b) @ d) =
        take (nat (oa_buffer_used b)) (oa_bytes b) @ d" by (intro take_all) (simp only:)
    then have "oa_out sent ?a' = oa_out sent b @ d" by (simp only: oa_out_def) simp
    then have "oa_out sent ?a' = oa_out sent a @ d" by (simp only: b(2))
    ultimately show thesis using b(3,4) d(2) by (intro found(1) [of "oa_buffer_used b" ?n ?a' d]) simp_all
  qed
  show thesis
  proof (cases "oa_buffer_used a = oa_buffer_size a")
    case False
    then have "oa_buffer_used a < oa_buffer_size a" using ok by (simp add: oa_ok_def)
    with False ok show thesis by (intro fill [of r a]) simp_all
  next
    case True
    from ok show thesis
    proof (cases rule: write_buffer_spec)
      case (1 b)
      then have "oa_buffer_used b < oa_buffer_size b" by (simp add: oa_ok_def)
      with 1 True show thesis by (intro fill [of 0 b]) simp_all
    next
      case (2 b)
      with True show thesis using that(2) by (simp add: OutAdaptor_Next_def)
    qed
  qed
qed

lemma out_adaptor_back_up:
  assumes ok: "oa_ok c_ok sent r a" and n: "0 \<le> n" "n \<le> int r"
  shows "\<exists>a'. OutAdaptor_BackUp wr n a = Inr a' \<and>
    (may_fail \<and> oa_failed a' \<or> oa_ok c_ok sent 0 a' \<and> oa_out sent a' = take (length (oa_out sent a) - nat n) (oa_out sent a))"
proof (cases "n = 0")
  case True
  from ok show ?thesis
    by (cases rule: write_buffer_spec) (use True in \<open>auto simp: OutAdaptor_BackUp_def OutAdaptor_Flush_def\<close>)
next
  case False
  let ?a = "a\<lparr>oa_buffer_used := oa_buffer_used a - n\<rparr>"
  have "OutAdaptor_BackUp wr n a = Inr ?a"
    using False n ok by (simp add: OutAdaptor_BackUp_def oa_ok_def)
  moreover have "oa_ok c_ok sent 0 ?a" using False n ok by (auto simp: oa_ok_def)
  moreover have "oa_out sent ?a = take (length (oa_out sent a) - nat n) (oa_out sent a)"
  proof -
    have "length (oa_out sent a) - nat n = length (sent (oa_stream a)) + nat (oa_buffer_used a - n)"
      using oa_out_length [OF ok] n ok by (auto simp: oa_ok_def)
    moreover have "nat (oa_buffer_used a - n) \<le> nat (oa_buffer_used a)" using n by simp
    ultimately show ?thesis by (simp add: oa_out_def oa_bytes_def min_absorb1)
  qed
  ultimately show ?thesis by blast
qed

lemma aliased_loop_spec:
  "oa_ok c_ok sent r a \<Longrightarrow> \<exists>b a'. aliased_loop wr data a = Some (Inr (b, a')) \<and>
     (b \<longrightarrow> may_fail \<and> oa_failed a' \<or> oa_ok c_ok sent 0 a' \<and> oa_out sent a' = oa_out sent a @ data)"
proof (induction "length data" arbitrary: data a r rule: less_induct)
  case less
  from less.prems show ?case
  proof (cases rule: out_adaptor_next)
    case (2 a')
    then show ?thesis by (subst aliased_loop.simps) (auto intro: exI [of _ False])
  next
    case (1 p n a1 d)
    have len: "length (oa_out sent a1) = length (oa_out sent a) + nat n" using 1 by simp
    have addr: "oa_buffer_used a1 - p = n" using 1(6) by simp
    show ?thesis
    proof (cases "int (length data) \<le> n")
      case True
      let ?a2 = "oa_store p data a1"
      have x: "oa_buffer_used a1 - int (nat n) \<le> p" "p + int (length data) \<le> oa_buffer_used a1" using 1(2,6) True by simp_all
      note st = oa_store_spec [OF 1(3) x]
      have "oa_out sent ?a2 = overwrite (length (oa_out sent a)) data (oa_out sent a @ d)"
        using st(3) len addr 1(4) by simp
      then have out2: "oa_out sent ?a2 = oa_out sent a @ data @ drop (length data) d" by (simp add: overwrite_def)
      have "0 \<le> n - int (length data)" "n - int (length data) \<le> int (nat n)" using True 1(2) by simp_all
      from out_adaptor_back_up [OF st(1) this] obtain a3 where a3: "OutAdaptor_BackUp wr (n - int (length data)) ?a2 = Inr a3"
        "may_fail \<and> oa_failed a3 \<or> oa_ok c_ok sent 0 a3 \<and>
          oa_out sent a3 = take (length (oa_out sent ?a2) - nat (n - int (length data))) (oa_out sent ?a2)" by blast
      have "length (oa_out sent ?a2) - nat (n - int (length data)) = length (oa_out sent a @ data)"
        using True 1(2,5) by (simp add: out2)
      then have "take (length (oa_out sent ?a2) - nat (n - int (length data))) (oa_out sent ?a2) = oa_out sent a @ data"
        by (simp add: out2)
      with a3 1(1) True show ?thesis by (subst aliased_loop.simps) auto
    next
      case False
      let ?part = "take (nat n) data" let ?a2 = "oa_store p ?part a1"
      have x: "oa_buffer_used a1 - int (nat n) \<le> p" "p + int (length ?part) \<le> oa_buffer_used a1" using 1(2,6) False by simp_all
      note st = oa_store_spec [OF 1(3) x]
      have "oa_out sent ?a2 = overwrite (length (oa_out sent a)) ?part (oa_out sent a @ d)"
        using st(3) len addr 1(4) by simp
      then have out2: "oa_out sent ?a2 = oa_out sent a @ ?part" using False 1(5) by (simp add: overwrite_def)
      have "length (drop (nat n) data) < length data" using False 1(2) by simp
      from less.hyps [OF this st(1)] obtain b a' where "aliased_loop wr (drop (nat n) data) ?a2 = Some (Inr (b, a'))"
        "b \<longrightarrow> may_fail \<and> oa_failed a' \<or> oa_ok c_ok sent 0 a' \<and> oa_out sent a' = oa_out sent ?a2 @ drop (nat n) data" by blast
      with 1(1) False out2 show ?thesis by (subst aliased_loop.simps) simp
    qed
  qed
qed

text \<open>An error is not permanent for \<open>Next\<close>: after a failed one the next call hands out a buffer again.\<close>

lemma next_after_failure:
  assumes "oa_ok c_ok sent r a" and "OutAdaptor_Next wr a = Inr (None, b)"
  shows "\<exists>n c. OutAdaptor_Next wr b = Inr (Some (0, n), c) \<and> 0 < n \<and> oa_failed c"
proof -
  from assms(1) have size: "0 < oa_buffer_size a" by (simp add: oa_ok_def)
  from assms(2) have "oa_buffer_used a = oa_buffer_size a" "WriteBuffer wr a = Inr (False, b)"
    by (auto simp: OutAdaptor_Next_def Let_def bind_res_Inr_iff split: if_splits prod.splits)
  moreover from this size assms(1) have "oa_buffer_used b = 0 \<and> oa_buffer_size b = oa_buffer_size a \<and> oa_failed b"
    by (auto simp: WriteBuffer_def OutAdaptor_FreeBuffer_def Let_def bind_res_Inr_iff oa_ok_def split: if_splits prod.splits)
  ultimately show ?thesis
    using size by (auto simp: OutAdaptor_Next_def OutAdaptor_AllocateBufferIfNeeded_def split: option.split)
qed

lemma adaptor_stream:
  "zero_copy_output (OutAdaptor wr) (oa_ok c_ok sent) (\<lambda>a. may_fail \<and> oa_failed a) (oa_out sent) oa_buffer_used"
proof unfold_locales
  fix r a
  assume ok: "oa_ok c_ok sent r a"
  from ok show "(\<exists>p n s' d. zo_Next (OutAdaptor wr) a = Inr (Some (p, n), s') \<and> 0 < n \<and> oa_ok c_ok sent (nat n) s' \<and>
        oa_out sent s' = oa_out sent a @ d \<and> length d = nat n \<and> oa_buffer_used s' = p + n) \<or>
      (\<exists>s' s''. zo_Next (OutAdaptor wr) a = Inr (None, s') \<and> (may_fail \<and> oa_failed s') \<and> zo_BackUp (OutAdaptor wr) 0 s' = Inr s'' \<and> may_fail \<and> oa_failed s'')"
    by (cases rule: out_adaptor_next) (auto simp: OutAdaptor_def OutAdaptor_BackUp_def OutAdaptor_Flush_def WriteBuffer_def)
  show "r \<le> length (oa_out sent a)" using oa_out_length [OF ok] ok by (simp add: oa_ok_def) linarith
  show "zo_ByteCount (OutAdaptor wr) a = int (length (oa_out sent a))"
    using oa_out_length [OF ok] ok by (simp add: OutAdaptor_def OutAdaptor_ByteCount_def oa_ok_def)
next
  fix r a and n :: int
  assume "oa_ok c_ok sent r a" "0 \<le> n" "n \<le> int r"
  from out_adaptor_back_up [OF this] show "\<exists>s'. zo_BackUp (OutAdaptor wr) n a = Inr s' \<and>
      (may_fail \<and> oa_failed s' \<or> oa_ok c_ok sent 0 s' \<and> oa_out sent s' = take (length (oa_out sent a) - nat n) (oa_out sent a))"
    by (simp add: OutAdaptor_def)
next
  fix r a x and bs :: "byte list"
  assume "oa_ok c_ok sent r a" "oa_buffer_used a - int r \<le> x" "x + int (length bs) \<le> oa_buffer_used a"
  from oa_store_spec [OF this] show "oa_ok c_ok sent r (zo_store (OutAdaptor wr) x bs a) \<and>
      oa_buffer_used (zo_store (OutAdaptor wr) x bs a) = oa_buffer_used a \<and>
      oa_out sent (zo_store (OutAdaptor wr) x bs a) =
        overwrite (length (oa_out sent a) - nat (oa_buffer_used a - x)) bs (oa_out sent a)"
    by (simp add: OutAdaptor_def)
next
  fix r a x and n :: int
  assume ok: "oa_ok c_ok sent r a" and x: "oa_buffer_used a - int r \<le> x" "0 \<le> n" "x + n \<le> oa_buffer_used a"
  have x0: "0 \<le> x" using ok x by (simp add: oa_ok_def)
  have len: "oa_buffer_used a \<le> int (length (oa_bytes a))"
    using ok by (cases "oa_buffer a = None") (auto simp: oa_ok_def)
  have "length (oa_out sent a) - nat (oa_buffer_used a - x) = length (sent (oa_stream a)) + nat x"
    using x x0 oa_out_length [OF ok] by linarith
  moreover have "length (take (nat (oa_buffer_used a)) (oa_bytes a)) - nat (oa_buffer_used a - x) = nat x"
    using len x x0 by auto
  ultimately show "zo_load (OutAdaptor wr) x n a =
      take (nat n) (drop (length (oa_out sent a) - nat (oa_buffer_used a - x)) (oa_out sent a))"
    using take_slice [OF x0 x(2,3) len] by (simp add: OutAdaptor_def oa_out_def)
next
  fix r a and bs :: "byte list"
  assume ok: "oa_ok c_ok sent r a"
  show "\<exists>b s'. zo_WriteAliasedRaw (OutAdaptor wr) bs a = Some (Inr (b, s')) \<and>
      (b \<longrightarrow> may_fail \<and> oa_failed s' \<or> oa_ok c_ok sent 0 s' \<and> oa_out sent s' = oa_out sent a @ bs)"
  proof (cases "int (length bs) \<ge> oa_buffer_size a")
    case False
    with aliased_loop_spec [OF ok, of bs] show ?thesis by (simp add: OutAdaptor_def OutAdaptor_WriteAliasedRaw_def)
  next
    case True
    from ok show ?thesis
    proof (cases rule: write_buffer_spec)
      case (1 a1)
      then have "c_ok (oa_stream a1)" by (simp add: oa_ok_def)
      from write_spec [OF this, of bs] obtain b c where c: "wr bs (oa_stream a1) = Inr (b, c)" "c_ok c"
        "b \<longrightarrow> sent c = sent (oa_stream a1) @ bs" by blast
      let ?a2 = "a1\<lparr>oa_stream := c, oa_position := oa_position a1 + int (length bs)\<rparr>"
      have "b \<Longrightarrow> oa_ok c_ok sent 0 ?a2 \<and> oa_out sent ?a2 = oa_out sent a @ bs"
        using 1(2-4) c(2,3) by (auto simp: oa_ok_def oa_out_def)
      with True 1(1) c(1) show ?thesis
        by (intro exI [of _ b] exI [of _ "if b then ?a2 else a1\<lparr>oa_stream := c\<rparr>"]) (cases b, simp_all add: OutAdaptor_def OutAdaptor_WriteAliasedRaw_def OutAdaptor_Flush_def)
    next
      case (2 a1)
      with True show ?thesis
        by (intro exI [of _ False] exI [of _ a1]) (simp add: OutAdaptor_def OutAdaptor_WriteAliasedRaw_def OutAdaptor_Flush_def)
    qed
  qed
qed

end

section \<open>Files and C++ streams\<close>

lemma write_loop_ok: "write_loop buf evs = ((True, bs, e), evs') \<Longrightarrow> bs = buf"
proof (induction buf evs arbitrary: bs e rule: write_loop.induct)
  case (3 b buf k evs)
  then show ?case by (auto split: if_splits prod.splits)
qed (auto split: if_splits)

interpretation file_copying: copying_output CopyingFileOutputStream_Write "\<lambda>c. \<not> co_is_closed c" co_sent True
proof unfold_locales
  fix c :: copying_file_out and bs
  assume "\<not> co_is_closed c"
  moreover obtain b w e evs where "write_loop bs (co_events c) = ((b, w, e), evs)" by (metis surj_pair)
  moreover from this have "b \<Longrightarrow> w = bs" by (auto dest: write_loop_ok)
  ultimately show "\<exists>b c'. CopyingFileOutputStream_Write bs c = Inr (b, c') \<and> \<not> co_is_closed c' \<and>
      (b \<longrightarrow> co_sent c' = co_sent c @ bs) \<and> (b \<or> True)"
    by (cases e) (auto simp: CopyingFileOutputStream_Write_def)
qed

text \<open>A kernel that takes some bytes with every call, or is interrupted, takes everything in the end.\<close>

fun patient :: "write_event list \<Rightarrow> bool" where
  "patient [] \<longleftrightarrow> True"
| "patient (Takes k # evs) \<longleftrightarrow> 0 < k \<and> patient evs"
| "patient (Write_fails e # evs) \<longleftrightarrow> e = EINTR \<and> patient evs"

lemma write_loop_patient: "patient evs \<Longrightarrow> write_loop buf evs = ((b, w, e), evs') \<Longrightarrow> b \<and> patient evs'"
proof (induction buf evs arbitrary: w rule: write_loop.induct)
  case (3 b buf k evs)
  then show ?case by (auto split: if_splits prod.splits)
qed (auto split: if_splits)

definition patient_file :: "copying_file_out \<Rightarrow> bool" where
  "patient_file c \<longleftrightarrow> \<not> co_is_closed c \<and> patient (co_events c)"

interpretation patient_copying: copying_output CopyingFileOutputStream_Write patient_file co_sent False
proof unfold_locales
  fix c :: copying_file_out and bs
  assume c: "patient_file c"
  moreover obtain b w e evs where loop: "write_loop bs (co_events c) = ((b, w, e), evs)" by (metis surj_pair)
  moreover from this c have "b \<and> patient evs" by (auto simp: patient_file_def dest: write_loop_patient)
  moreover from this loop have "w = bs" by (auto dest: write_loop_ok)
  ultimately show "\<exists>b c'. CopyingFileOutputStream_Write bs c = Inr (b, c') \<and> patient_file c' \<and>
      (b \<longrightarrow> co_sent c' = co_sent c @ bs) \<and> (b \<or> False)"
    by (cases e) (auto simp: CopyingFileOutputStream_Write_def patient_file_def)
qed

interpretation ostream_copying: copying_output CopyingOstreamOutputStream_Write "\<lambda>c. True" os_written True
  by unfold_locales (auto simp: CopyingOstreamOutputStream_Write_def Let_def split: list.splits)

interpretation file_out: zero_copy_output FileOutputStream "oa_ok (\<lambda>c. \<not> co_is_closed c) co_sent" oa_failed
    "oa_out co_sent" oa_buffer_used
  unfolding FileOutputStream_def by (rule file_copying.adaptor_stream [simplified])

interpretation ostream_out: zero_copy_output OstreamOutputStream "oa_ok (\<lambda>c. True) os_written" oa_failed
    "oa_out os_written" oa_buffer_used
  unfolding OstreamOutputStream_def by (rule ostream_copying.adaptor_stream [simplified])

interpretation patient_out: zero_copy_output FileOutputStream "oa_ok patient_file co_sent" "\<lambda>a. False"
    "oa_out co_sent" oa_buffer_used
  unfolding FileOutputStream_def by (rule patient_copying.adaptor_stream [simplified])

end
