(* ===== verification/Coded_Output_Correct.thy ===== *)
theory Coded_Output_Correct
  imports Coded_Output Output_Contract
begin

text \<open>
  Writing through the cursor is appending to a list of bytes: over any stream that keeps the contract
  of \<open>ZeroCopyOutputStream\<close>, the bytes of every write follow those written before, through any sequence
  of stream buffers and patch buffers, until the stream reports an error, and no write runs on
  for ever.
\<close>

section \<open>States of the cursor\<close>

text \<open>
  In an error the patch buffer takes all writes. Otherwise the patch buffer of \<open>end_\<close> bytes stands for the
  last bytes of the buffer of the stream, or the cursor is in that buffer, 16 bytes of which follow \<open>end_\<close>.
\<close>

definition eps_state :: "(nat \<Rightarrow> 's \<Rightarrow> bool) \<Rightarrow> ('s \<Rightarrow> bool) \<Rightarrow> ('s \<Rightarrow> int) \<Rightarrow> 's eps_copy \<Rightarrow> int \<Rightarrow> bool" where
  "eps_state okS failedS addr s ptr \<longleftrightarrow> length (eps_buffer s) = 32 \<and> \<not> aliasing_enabled s \<and>
     (if had_error s then
        failedS (eps_stream s) \<and> eps_buffer_end s \<noteq> Nullptr \<and> 0 \<le> eps_end s \<and> eps_end s \<le> 16 \<and> 0 \<le> ptr \<and> ptr \<le> eps_end s + 16
      else
        (\<exists>r. okS r (eps_stream s) \<and>
           (case eps_buffer_end s of
              Nullptr \<Rightarrow> addr (eps_stream s) - int r \<le> eps_end s \<and> eps_end s + 16 = addr (eps_stream s) \<and>
                addr (eps_stream s) - int r \<le> ptr \<and> ptr \<le> addr (eps_stream s)
            | Own_buffer \<Rightarrow> eps_end s = 0 \<and> 0 \<le> ptr \<and> ptr \<le> 16
            | At e \<Rightarrow> addr (eps_stream s) - int r \<le> e \<and> e + eps_end s = addr (eps_stream s) \<and>
                0 \<le> eps_end s \<and> eps_end s \<le> 16 \<and> 0 \<le> ptr \<and> ptr \<le> eps_end s + 16)))"

text \<open>The bytes of the stream before the address \<open>x\<close>.\<close>

definition upto :: "('s \<Rightarrow> byte list) \<Rightarrow> ('s \<Rightarrow> int) \<Rightarrow> int \<Rightarrow> 's \<Rightarrow> byte list" where
  "upto out addr x st = take (length (out st) - nat (addr st - x)) (out st)"

text \<open>What has been written when the cursor is \<open>ptr\<close>.\<close>

definition eps_content :: "('s \<Rightarrow> byte list) \<Rightarrow> ('s \<Rightarrow> int) \<Rightarrow> 's eps_copy \<Rightarrow> int \<Rightarrow> byte list" where
  "eps_content out addr s ptr =
     (case eps_buffer_end s of
        Nullptr \<Rightarrow> upto out addr ptr (eps_stream s)
      | Own_buffer \<Rightarrow> out (eps_stream s) @ take (nat ptr) (eps_buffer s)
      | At e \<Rightarrow> upto out addr e (eps_stream s) @ take (nat ptr) (eps_buffer s))"

text \<open>The result of writing \<open>bs\<close>, with the errors of the stream.\<close>

definition eps_writes ::
    "(nat \<Rightarrow> 's \<Rightarrow> bool) \<Rightarrow> ('s \<Rightarrow> bool) \<Rightarrow> ('s \<Rightarrow> byte list) \<Rightarrow> ('s \<Rightarrow> int) \<Rightarrow> byte list \<Rightarrow> 's eps_copy \<Rightarrow> int \<Rightarrow> 's eps_copy \<Rightarrow> int \<Rightarrow> bool" where
  "eps_writes okS failedS out addr bs s p t q \<longleftrightarrow> eps_state okS failedS addr t q \<and> (had_error s \<longrightarrow> had_error t) \<and>
     (\<not> had_error t \<longrightarrow> eps_content out addr t q = eps_content out addr s p @ bs)"

lemma eps_writes_trans:
  "eps_writes okS failedS out addr bs s p t q \<Longrightarrow> eps_writes okS failedS out addr cs t q u l \<Longrightarrow> eps_writes okS failedS out addr (bs @ cs) s p u l"
  by (auto simp: eps_writes_def)

lemma eps_writes_refl: "eps_state okS failedS addr s p \<Longrightarrow> eps_writes okS failedS out addr [] s p s p"
  by (simp add: eps_writes_def)

text \<open>A flushed state: the rest of the buffer of the stream begins at \<open>buffer_end_\<close>.\<close>

definition eps_flushed :: "(nat \<Rightarrow> 's \<Rightarrow> bool) \<Rightarrow> ('s \<Rightarrow> byte list) \<Rightarrow> ('s \<Rightarrow> int) \<Rightarrow> byte list \<Rightarrow> int \<Rightarrow> 's eps_copy \<Rightarrow> bool" where
  "eps_flushed okS out addr c n s \<longleftrightarrow> length (eps_buffer s) = 32 \<and> \<not> aliasing_enabled s \<and> \<not> had_error s \<and> 0 \<le> n \<and>
     (\<exists>r. okS r (eps_stream s) \<and> n \<le> int r \<and>
        (case eps_buffer_end s of
           Nullptr \<Rightarrow> False
         | Own_buffer \<Rightarrow> n = 0 \<and> out (eps_stream s) = c
         | At e \<Rightarrow> e + n = addr (eps_stream s) \<and> upto out addr e (eps_stream s) = c))"

context zero_copy_output
begin

lemma upto_addr: "upto out addr (addr st) st = out st"
  by (simp add: upto_def)

lemma store_upto:
  assumes "ok r st" and "addr st - int r \<le> x" and "x + int (length bs) \<le> addr st"
  shows "upto out addr (x + int (length bs)) (zo_store V x bs st) = upto out addr x st @ bs"
    and "y \<le> x \<Longrightarrow> addr st - int r \<le> y \<Longrightarrow> upto out addr y (zo_store V x bs st) = upto out addr y st"
proof -
  let ?k = "length (out st) - nat (addr st - x)"
  have st: "addr (zo_store V x bs st) = addr st" "out (zo_store V x bs st) = overwrite ?k bs (out st)"
    using out_store [OF assms] by simp_all
  have len: "nat (addr st - x) \<le> length (out st)" using out_room [OF assms(1)] assms(2) by linarith
  have kb: "?k + length bs \<le> length (out st)" "nat (addr st - (x + int (length bs))) = nat (addr st - x) - length bs"
    using len assms(3) by linarith+
  then have "length (out st) - nat (addr st - (x + int (length bs))) = ?k + length bs" using len assms(3) by linarith
  then show "upto out addr (x + int (length bs)) (zo_store V x bs st) = upto out addr x st @ bs"
    unfolding upto_def st length_overwrite [OF kb(1)] by (simp only: take_overwrite_end [OF diff_le_self])
  show "upto out addr y (zo_store V x bs st) = upto out addr y st" if "y \<le> x" "addr st - int r \<le> y"
  proof -
    have "length (out st) - nat (addr st - y) \<le> ?k" using that by linarith
    with kb show ?thesis by (simp add: upto_def st)
  qed
qed

lemma patch_bounds:
  assumes "eps_state ok failed addr s p" and "eps_buffer_end s \<noteq> Nullptr"
  shows "0 \<le> eps_end s" and "eps_end s \<le> 16" and "0 \<le> p" and "p \<le> eps_end s + 16"
  using assms by (cases "eps_buffer_end s"; auto simp: eps_state_def split: if_splits)+

lemma cursor_bound: "eps_state ok failed addr s p \<Longrightarrow> p \<le> eps_end s + 16"
  by (cases "eps_buffer_end s"; auto simp: eps_state_def split: if_splits)

lemma eps_put_writes:
  assumes s: "eps_state ok failed addr s p" and len: "p + int (length bs) \<le> eps_end s + 16"
  shows "eps_writes ok failed out addr bs s p (eps_put V p bs s) (p + int (length bs))" and "eps_end (eps_put V p bs s) = eps_end s"
    and "had_error (eps_put V p bs s) = had_error s"
proof -
  show "eps_end (eps_put V p bs s) = eps_end s" "had_error (eps_put V p bs s) = had_error s"
    by (simp_all add: eps_put_def split: buf_end.split)
  show "eps_writes ok failed out addr bs s p (eps_put V p bs s) (p + int (length bs))"
  proof (cases "eps_buffer_end s = Nullptr")
    case True
    then obtain r where e: "\<not> had_error s" and r: "ok r (eps_stream s)" "addr (eps_stream s) - int r \<le> p"
        "eps_end s + 16 = addr (eps_stream s)" "addr (eps_stream s) - int r \<le> eps_end s"
      using s by (auto simp: eps_state_def split: if_splits)
    have le: "p + int (length bs) \<le> addr (eps_stream s)" using len r(3) by simp
    note st = out_store [OF r(1,2) le] and up = store_upto(1) [OF r(1,2) le]
    have "eps_state ok failed addr (eps_put V p bs s) (p + int (length bs))"
      using s True e st r le by (auto simp: eps_state_def eps_put_def)
    moreover have "eps_content out addr (eps_put V p bs s) (p + int (length bs)) = eps_content out addr s p @ bs"
      using True up by (simp add: eps_content_def eps_put_def)
    ultimately show ?thesis using e by (simp add: eps_writes_def)
  next
    case False
    then have put: "eps_put V p bs s = s\<lparr>eps_buffer := overwrite (nat p) bs (eps_buffer s)\<rparr>"
      by (simp add: eps_put_def split: buf_end.split)
    have p: "0 \<le> p" "eps_end s \<le> 16" "length (eps_buffer s) = 32"
      using patch_bounds [OF s False] s by (simp_all add: eps_state_def)
    then have fits: "nat p + length bs \<le> 32" "nat (p + int (length bs)) = nat p + length bs" using len by linarith+
    then have "take (nat (p + int (length bs))) (overwrite (nat p) bs (eps_buffer s)) = take (nat p) (eps_buffer s) @ bs"
      using p(3) by (simp add: take_overwrite_end)
    then have "eps_content out addr (eps_put V p bs s) (p + int (length bs)) = eps_content out addr s p @ bs"
      using False by (simp add: eps_content_def put split: buf_end.split)
    moreover have "eps_state ok failed addr (eps_put V p bs s) (p + int (length bs))"
      using s False fits(1) p len by (auto simp: eps_state_def put split: if_splits buf_end.splits)
    ultimately show ?thesis by (simp add: eps_writes_def put)
  qed
qed

lemma next_loop_spec:
  assumes "ok r st"
  obtains a n st' d where "next_loop V st = Some (Inr (Some (a, n), st'))" and "0 < n" and "ok (nat n) st'"
      and "out st' = out st @ d" and "length d = nat n" and "addr st' = a + n"
    | st' st'' where "next_loop V st = Some (Inr (None, st'))" and "failed st'" and "zo_BackUp V 0 st' = Inr st''" and "failed st''"
  using out_next [OF assms]
proof (elim disjE exE conjE)
  fix a n st' d
  assume found: "\<And>a n st' d. next_loop V st = Some (Inr (Some (a, n), st')) \<Longrightarrow> 0 < n \<Longrightarrow> ok (nat n) st' \<Longrightarrow>
      out st' = out st @ d \<Longrightarrow> length d = nat n \<Longrightarrow> addr st' = a + n \<Longrightarrow> thesis"
    and n: "zo_Next V st = Inr (Some (a, n), st')" "0 < n" "ok (nat n) st'" "out st' = out st @ d" "length d = nat n" "addr st' = a + n"
  from n(1,2) have "next_loop V st = Some (Inr (Some (a, n), st'))" by (subst next_loop.simps) simp
  with n found show thesis by blast
next
  fix st' st''
  assume found: "\<And>st' st''. next_loop V st = Some (Inr (None, st')) \<Longrightarrow> failed st' \<Longrightarrow>
      zo_BackUp V 0 st' = Inr st'' \<Longrightarrow> failed st'' \<Longrightarrow> thesis"
    and n: "zo_Next V st = Inr (None, st')" "failed st'" "zo_BackUp V 0 st' = Inr st''" "failed st''"
  from n(1) have "next_loop V st = Some (Inr (None, st'))" by (subst next_loop.simps) simp
  with n(2-) found show thesis by blast
qed

text \<open>Copying the patch buffer out completes the buffer of the stream.\<close>

lemma copy_out_complete:
  assumes s: "eps_state ok failed addr s p" and e: "\<not> had_error s" "eps_buffer_end s \<noteq> Nullptr"
  obtains r st where "eps_copy_out V (take (nat (eps_end s)) (eps_buffer s)) s = s\<lparr>eps_stream := st\<rparr>" and "ok r st"
    and "out st = eps_content out addr s (eps_end s)"
proof (cases "eps_buffer_end s")
  case (At x)
  then obtain r where r: "ok r (eps_stream s)" "addr (eps_stream s) - int r \<le> x" "x + eps_end s = addr (eps_stream s)"
      "0 \<le> eps_end s" "eps_end s \<le> 16" "length (eps_buffer s) = 32"
    using s e by (auto simp: eps_state_def)
  let ?bs = "take (nat (eps_end s)) (eps_buffer s)"
  have len: "x + int (length ?bs) = addr (eps_stream s)" using r by simp
  then have le: "x + int (length ?bs) \<le> addr (eps_stream s)" by simp
  have "addr (zo_store V x ?bs (eps_stream s)) = addr (eps_stream s)" using out_store [OF r(1,2) le] by simp
  then have "out (zo_store V x ?bs (eps_stream s)) = upto out addr x (eps_stream s) @ ?bs"
    using store_upto(1) [OF r(1,2) le] len by (metis upto_addr)
  with that [of "zo_store V x ?bs (eps_stream s)" r] out_store [OF r(1,2) le] At show thesis
    by (simp add: eps_copy_out_def eps_content_def)
next
  case Own_buffer
  then obtain r where "ok r (eps_stream s)" "eps_end s = 0" using s e by (auto simp: eps_state_def)
  with that [of "eps_stream s" r] Own_buffer show thesis by (simp add: eps_copy_out_def eps_content_def)
qed (use e in simp)

lemma content_split:
  assumes "eps_state ok failed addr s p" and "eps_buffer_end s \<noteq> Nullptr" and "eps_end s \<le> p"
  shows "eps_content out addr s p =
    eps_content out addr s (eps_end s) @ take (nat (p - eps_end s)) (take 16 (drop (nat (eps_end s)) (eps_buffer s)))"
proof -
  have "0 \<le> eps_end s" "p - eps_end s \<le> 16"
    using patch_bounds [OF assms(1,2)] by simp_all
  then have "nat p = nat (eps_end s) + nat (p - eps_end s)" "nat (p - eps_end s) \<le> 16" using assms(3) by linarith+
  then show ?thesis
    using assms(2) by (simp add: eps_content_def take_add min_absorb1 split: buf_end.split)
qed

lemma eps_next_spec:
  assumes s: "eps_state ok failed addr s p" and e: "\<not> had_error s" and p: "eps_end s \<le> p"
  shows "\<exists>q t. eps_Next V s = Some (Inr (q, t)) \<and> eps_writes ok failed out addr [] s p t (q + (p - eps_end s)) \<and>
    (had_error t \<longrightarrow> q = 0 \<and> (\<exists>st. zo_BackUp V 0 (eps_stream t) = Inr st \<and> failed st)) \<and> (\<not> had_error t \<longrightarrow> q + (p - eps_end s) - eps_end t < p - eps_end s)"
proof -
  let ?o = "p - eps_end s"
  have o: "0 \<le> ?o" "?o \<le> 16" using p cursor_bound [OF s] by simp_all
  have buf: "length (eps_buffer s) = 32" "\<not> aliasing_enabled s" using s by (simp_all add: eps_state_def)
  show ?thesis
  proof (cases "eps_buffer_end s = Nullptr")
    case True
    then obtain r where r: "ok r (eps_stream s)" "addr (eps_stream s) - int r \<le> eps_end s" "eps_end s + 16 = addr (eps_stream s)"
      using s e by (auto simp: eps_state_def)
    let ?st = "eps_stream s"
    let ?tail = "take 16 (drop (length (out ?st) - 16) (out ?st))"
    have "nat (addr ?st - eps_end s) = 16" using r(3) by linarith
    then have load: "zo_load V (eps_end s) kSlopBytes ?st = ?tail"
      using out_load [OF r(1,2), of 16] r(3) by (simp add: kSlopBytes_def)
    have room: "16 \<le> length (out ?st)" using out_room [OF r(1)] r(2,3) by linarith
    let ?t = "s\<lparr>eps_buffer := overwrite 0 ?tail (eps_buffer s), eps_buffer_end := At (eps_end s), eps_end := kSlopBytes\<rparr>"
    have nxt: "eps_Next V s = Some (Inr (0, ?t))" using True load by (simp add: eps_Next_def)
    have "eps_state ok failed addr ?t ?o" using r o buf room e by (auto simp: eps_state_def kSlopBytes_def)
    moreover have "eps_content out addr ?t ?o = eps_content out addr s p"
    proof -
      have "nat (addr ?st - p) = 16 - nat ?o" "nat ?o \<le> 16" using r(3) o by linarith+
      then have "length (out ?st) - nat (addr ?st - p) = (length (out ?st) - 16) + nat ?o" using room by linarith
      then have "upto out addr p ?st = take (length (out ?st) - 16) (out ?st) @ take (nat ?o) ?tail"
        using \<open>nat ?o \<le> 16\<close> by (simp add: upto_def take_add min_absorb1)
      moreover have "nat (addr ?st - eps_end s) = 16" using r(3) by linarith
      moreover have "take (nat ?o) (overwrite 0 ?tail (eps_buffer s)) = take (nat ?o) ?tail"
        using room \<open>nat ?o \<le> 16\<close> by (simp add: overwrite_def)
      ultimately show ?thesis using True by (simp add: eps_content_def upto_def)
    qed
    ultimately have "eps_writes ok failed out addr [] s p ?t (0 + ?o)" using e by (simp add: eps_writes_def)
    then show ?thesis using nxt e by (intro exI [of _ 0] exI [of _ ?t]) (simp add: kSlopBytes_def)
  next
    case False
    from s e False obtain r st where co: "eps_copy_out V (take (nat (eps_end s)) (eps_buffer s)) s = s\<lparr>eps_stream := st\<rparr>"
      "ok r st" "out st = eps_content out addr s (eps_end s)" by (rule copy_out_complete)
    let ?slop = "take 16 (drop (nat (eps_end s)) (eps_buffer s))"
    have "0 \<le> eps_end s" "eps_end s \<le> 16" using patch_bounds [OF s False] by simp_all
    then have slop: "length ?slop = 16" using buf(1) by simp
    have content: "eps_content out addr s p = out st @ take (nat ?o) ?slop"
      using content_split [OF s False p] co(3) by simp
    from co(2) show ?thesis
    proof (cases rule: next_loop_spec)
      case (2 st' st'')
      let ?t = "s\<lparr>eps_stream := st', had_error := True, eps_end := kSlopBytes\<rparr>"
      have "eps_Next V s = Some (Inr (0, ?t))" using False co(1) 2 by (simp add: eps_Next_def eps_Error_def Let_def)
      moreover have "eps_state ok failed addr ?t ?o" using buf False o 2(2) by (simp add: eps_state_def kSlopBytes_def)
      ultimately show ?thesis using 2(3,4) by (intro exI [of _ 0] exI [of _ ?t]) (simp add: eps_writes_def)
    next
      case (1 a n st' d)
      show ?thesis
      proof (cases "16 < n")
        case True
        let ?st = "zo_store V a ?slop st'"
        let ?t = "s\<lparr>eps_stream := ?st, eps_end := a + n - kSlopBytes, eps_buffer_end := Nullptr\<rparr>"
        have x: "addr st' - int (nat n) \<le> a" "a + int (length ?slop) \<le> addr st'" using 1(2,6) True slop by simp_all
        note st = out_store [OF 1(3) x] and up = store_upto(1) [OF 1(3) x]
        have nxt: "eps_Next V s = Some (Inr (a, ?t))"
          using False co(1) 1(1) True by (simp add: eps_Next_def kSlopBytes_def Let_def)
        have "eps_state ok failed addr ?t (a + ?o)"
          using buf e st 1(2,6) True o by (auto simp: eps_state_def kSlopBytes_def)
        moreover have "eps_content out addr ?t (a + ?o) = eps_content out addr s p"
        proof -
          have "upto out addr a st' = out st" using 1(2,4,5,6) by (simp add: upto_def)
          with up slop have full: "upto out addr (a + 16) ?st = out st @ ?slop" by simp
          have "length (out ?st) = length (out st) + nat n" "addr ?st = a + n"
            using st x 1(2,4,5,6) slop by auto
          then have "upto out addr (a + ?o) ?st = take (length (out st) + nat ?o) (out ?st)"
            "upto out addr (a + 16) ?st = take (length (out st) + 16) (out ?st)"
            using o True 1(2) by (auto simp: upto_def intro!: arg_cong [where f = "\<lambda>k. take k (out ?st)"])
          then have "upto out addr (a + ?o) ?st = take (length (out st) + nat ?o) (upto out addr (a + 16) ?st)"
            using o by (simp add: min_absorb1)
          with full slop content show ?thesis by (simp add: eps_content_def)
        qed
        ultimately have "eps_writes ok failed out addr [] s p ?t (a + ?o)" using e by (simp add: eps_writes_def)
        then show ?thesis using nxt True e by (intro exI [of _ a] exI [of _ ?t]) (simp add: kSlopBytes_def)
      next
        case small: False
        let ?t = "s\<lparr>eps_stream := st', eps_buffer := overwrite 0 ?slop (eps_buffer s), eps_buffer_end := At a, eps_end := n\<rparr>"
        have nxt: "eps_Next V s = Some (Inr (0, ?t))"
          using False co(1) 1(1) small by (simp add: eps_Next_def kSlopBytes_def Let_def)
        have "eps_state ok failed addr ?t ?o"
          using buf e 1(2,3,6) small o slop by (auto simp: eps_state_def)
        moreover have "eps_content out addr ?t ?o = eps_content out addr s p"
        proof -
          have "upto out addr a st' = out st" using 1(2,4,5,6) by (simp add: upto_def)
          moreover have "take (nat ?o) (overwrite 0 ?slop (eps_buffer s)) = take (nat ?o) ?slop"
            using slop o by (simp add: overwrite_def)
          ultimately show ?thesis using content by (simp add: eps_content_def)
        qed
        ultimately have "eps_writes ok failed out addr [] s p ?t (0 + ?o)" using e by (simp add: eps_writes_def)
        then show ?thesis using nxt 1(2) e by (intro exI [of _ 0] exI [of _ ?t]) simp
      qed
    qed
  qed
qed

section \<open>Space and flushing\<close>

lemma ensure_space_fallback_spec:
  "eps_state ok failed addr s p \<Longrightarrow> had_error s \<or> eps_end s \<le> p \<Longrightarrow>
   \<exists>q t. EnsureSpaceFallback V p s = Some (Inr (q, t)) \<and> eps_writes ok failed out addr [] s p t q \<and>
     (had_error t \<longrightarrow> q \<le> eps_end t) \<and> (\<not> had_error t \<longrightarrow> q < eps_end t)"
proof (induction "nat (p - eps_end s)" arbitrary: s p rule: less_induct)
  case less
  show ?case
  proof (cases "had_error s")
    case True
    then have "eps_state ok failed addr s 0" using less.prems(1) by (auto simp: eps_state_def)
    moreover have "0 \<le> eps_end s" using True less.prems(1) by (simp add: eps_state_def)
    ultimately show ?thesis
      using True by (intro exI [of _ 0] exI [of _ s]) (subst EnsureSpaceFallback.simps, simp add: eps_writes_def)
  next
    case False
    then have p: "eps_end s \<le> p" using less.prems(2) by simp
    from eps_next_spec [OF less.prems(1) False p] obtain q t where
      t: "eps_Next V s = Some (Inr (q, t))" "eps_writes ok failed out addr [] s p t (q + (p - eps_end s))"
        "had_error t \<longrightarrow> q = 0 \<and> (\<exists>st. zo_BackUp V 0 (eps_stream t) = Inr st \<and> failed st)" "\<not> had_error t \<longrightarrow> q + (p - eps_end s) - eps_end t < p - eps_end s" by blast
    let ?q = "q + (p - eps_end s)"
    have st: "eps_state ok failed addr t ?q" using t(2) by (simp add: eps_writes_def)
    show ?thesis
    proof (cases "?q \<ge> eps_end t")
      case True
      have "\<exists>r u. EnsureSpaceFallback V ?q t = Some (Inr (r, u)) \<and> eps_writes ok failed out addr [] t ?q u r \<and>
          (had_error u \<longrightarrow> r \<le> eps_end u) \<and> (\<not> had_error u \<longrightarrow> r < eps_end u)"
      proof (cases "had_error t")
        case err: True
        then have "eps_state ok failed addr t 0" "0 \<le> eps_end t" using st by (auto simp: eps_state_def)
        then show ?thesis
          using err by (intro exI [of _ 0] exI [of _ t]) (subst EnsureSpaceFallback.simps, simp add: eps_writes_def)
      next
        case no: False
        then have "nat (?q - eps_end t) < nat (p - eps_end s)" using t(4) True by simp
        from less.hyps [OF this st] True show ?thesis by simp
      qed
      then obtain r u where u: "EnsureSpaceFallback V ?q t = Some (Inr (r, u))" "eps_writes ok failed out addr [] t ?q u r"
        "had_error u \<longrightarrow> r \<le> eps_end u" "\<not> had_error u \<longrightarrow> r < eps_end u" by blast
      have "EnsureSpaceFallback V p s = Some (Inr (r, u))"
        using False t(1) True u(1) by (subst EnsureSpaceFallback.simps) (simp add: Let_def)
      with u eps_writes_trans [OF t(2) u(2)] show ?thesis by auto
    next
      case below: False
      then have "EnsureSpaceFallback V p s = Some (Inr (?q, t))"
        using False t(1) by (subst EnsureSpaceFallback.simps) (simp add: Let_def)
      with t(2) below show ?thesis by auto
    qed
  qed
qed

lemma ensure_space_spec:
  assumes "eps_state ok failed addr s p"
  obtains q t where "EnsureSpace V p s = Some (Inr (q, t))" and "eps_writes ok failed out addr [] s p t q" and "q \<le> eps_end t"
proof (cases "p \<ge> eps_end s")
  case False
  with assms that [of p s] show thesis by (simp add: EnsureSpace_def eps_writes_refl)
next
  case True
  with ensure_space_fallback_spec [OF assms] obtain q t where "EnsureSpaceFallback V p s = Some (Inr (q, t))"
    "eps_writes ok failed out addr [] s p t q" "q \<le> eps_end t" by (metis less_imp_le)
  with True that show thesis by (simp add: EnsureSpace_def)
qed

lemma write_raw_fallback_spec:
  "eps_state ok failed addr s p \<Longrightarrow>
   \<exists>q t. WriteRawFallback V data p s = Some (Inr (q, t)) \<and> eps_writes ok failed out addr data s p t q"
proof (induction "length data" arbitrary: data s p rule: less_induct)
  case less
  let ?n = "GetSize p s"
  have n: "?n = eps_end s + 16 - p" by (simp add: GetSize_def kSlopBytes_def)
  have "p \<le> eps_end s + 16" by (rule cursor_bound [OF less.prems])
  then have n0: "0 \<le> ?n" using n by simp
  show ?case
  proof (cases "?n < int (length data)")
    case False
    then have "p + int (length data) \<le> eps_end s + 16" using n by simp
    from eps_put_writes(1) [OF less.prems this] False show ?thesis
      by (subst WriteRawFallback.simps) (simp add: Let_def)
  next
    case True
    let ?bs = "take (nat ?n) data" let ?s = "eps_put V p ?bs s"
    have len: "int (length ?bs) = ?n" using True n0 by simp
    then have fit: "p + int (length ?bs) \<le> eps_end s + 16" using n by simp
    note put = eps_put_writes [OF less.prems fit]
    have st: "eps_state ok failed addr ?s (p + ?n)" using put(1) len by (simp add: eps_writes_def)
    have "eps_end ?s \<le> p + ?n" using put(2) n by simp
    with ensure_space_fallback_spec [OF st] obtain q t where
      t: "EnsureSpaceFallback V (p + ?n) ?s = Some (Inr (q, t))" "eps_writes ok failed out addr [] ?s (p + ?n) t q"
        "q \<le> eps_end t" by (metis less_imp_le)
    have stt: "eps_state ok failed addr t q" using t(2) by (simp add: eps_writes_def)
    have step: "eps_writes ok failed out addr ?bs s p t q" using eps_writes_trans [OF put(1)] t(2) len by force
    show ?thesis
    proof (cases "?n = 0")
      case False
      then have "length (drop (nat ?n) data) < length data" using True n0 by simp
      from less.hyps [OF this stt] obtain r u where u: "WriteRawFallback V (drop (nat ?n) data) q t = Some (Inr (r, u))"
        "eps_writes ok failed out addr (drop (nat ?n) data) t q u r" by blast
      have "WriteRawFallback V data p s = Some (Inr (r, u))"
        using True t(1) u(1) by (subst WriteRawFallback.simps) (simp add: Let_def)
      with eps_writes_trans [OF step u(2)] show ?thesis by auto
    next
      case zero: True
      \<comment> \<open>no space was left; now there is\<close>
      let ?m = "GetSize q t"
      have m: "16 \<le> ?m" "?m = eps_end t + 16 - q" using t(3) by (simp_all add: GetSize_def kSlopBytes_def)
      have "\<exists>r u. WriteRawFallback V data q t = Some (Inr (r, u)) \<and> eps_writes ok failed out addr data t q u r"
      proof (cases "?m < int (length data)")
        case False
        then have "q + int (length data) \<le> eps_end t + 16" using m by simp
        from eps_put_writes(1) [OF stt this] False show ?thesis
          by (subst WriteRawFallback.simps) (simp add: Let_def)
      next
        case more: True
        let ?cs = "take (nat ?m) data" let ?t = "eps_put V q ?cs t"
        have lenm: "int (length ?cs) = ?m" using more m(1) by simp
        then have fitm: "q + int (length ?cs) \<le> eps_end t + 16" using m by simp
        note putm = eps_put_writes [OF stt fitm]
        have sm: "eps_state ok failed addr ?t (q + ?m)" using putm(1) lenm by (simp add: eps_writes_def)
        have "eps_end ?t \<le> q + ?m" using putm(2) m by simp
        with ensure_space_fallback_spec [OF sm] obtain l v where
          v: "EnsureSpaceFallback V (q + ?m) ?t = Some (Inr (l, v))" "eps_writes ok failed out addr [] ?t (q + ?m) v l" by blast
        have sv: "eps_state ok failed addr v l" using v(2) by (simp add: eps_writes_def)
        have stepm: "eps_writes ok failed out addr ?cs t q v l" using eps_writes_trans [OF putm(1)] v(2) lenm by force
        have "length (drop (nat ?m) data) < length data" using more m(1) by simp
        from less.hyps [OF this sv] obtain r u where u: "WriteRawFallback V (drop (nat ?m) data) l v = Some (Inr (r, u))"
          "eps_writes ok failed out addr (drop (nat ?m) data) v l u r" by blast
        have "WriteRawFallback V data q t = Some (Inr (r, u))"
          using more v(1) u(1) by (subst WriteRawFallback.simps) (simp add: Let_def)
        with eps_writes_trans [OF stepm u(2)] show ?thesis by auto
      qed
      then obtain r u where u: "WriteRawFallback V data q t = Some (Inr (r, u))" "eps_writes ok failed out addr data t q u r" by blast
      have "WriteRawFallback V data p s = Some (Inr (r, u))"
        using True zero t(1) u(1) by (subst WriteRawFallback.simps) (simp add: Let_def)
      with eps_writes_trans [OF step u(2)] zero show ?thesis by auto
    qed
  qed
qed

lemma write_raw_spec:
  assumes "eps_state ok failed addr s p"
  shows "\<exists>q t. eps_WriteRaw V data p s = Some (Inr (q, t)) \<and> eps_writes ok failed out addr data s p t q"
proof (cases "eps_end s - p < int (length data)")
  case True
  with write_raw_fallback_spec [OF assms] show ?thesis by (simp add: eps_WriteRaw_def)
next
  case False
  then have "p + int (length data) \<le> eps_end s + 16" by simp
  from eps_put_writes(1) [OF assms this] False show ?thesis by (simp add: eps_WriteRaw_def)
qed

text \<open>A write of at most 16 bytes after \<open>EnsureSpace\<close>.\<close>

lemma write_after_space:
  assumes "eps_state ok failed addr s p" and "length bs \<le> 16"
  obtains q t where "EnsureSpace V p s = Some (Inr (q, t))" and "q \<le> eps_end t"
    and "eps_writes ok failed out addr bs s p (eps_put V q bs t) (q + int (length bs))"
    and "eps_end (eps_put V q bs t) = eps_end t"
proof -
  from assms(1) obtain q t where t: "EnsureSpace V p s = Some (Inr (q, t))" "eps_writes ok failed out addr [] s p t q" "q \<le> eps_end t"
    by (rule ensure_space_spec)
  have "q + int (length bs) \<le> eps_end t + 16" using assms(2) t(3) by simp
  note put = eps_put_writes [OF _ this]
  have "eps_state ok failed addr t q" using t(2) by (simp add: eps_writes_def)
  from put(1) [OF this] put(2) [OF this] eps_writes_trans [OF t(2)] that [OF t(1,3)] show thesis by force
qed

lemma flush_spec:
  "eps_state ok failed addr s p \<Longrightarrow> \<not> had_error s \<Longrightarrow>
   \<exists>n t. eps_Flush V p s = Some (Inr (n, t)) \<and>
     (if had_error t then n = 0 \<and> eps_state ok failed addr t 0 \<and> (\<exists>st. zo_BackUp V 0 (eps_stream t) = Inr st \<and> failed st) else eps_flushed ok out addr (eps_content out addr s p) n t)"
proof (induction "nat (p - eps_end s)" arbitrary: s p rule: less_induct)
  case less
  note s = less.prems(1) and e = less.prems(2)
  have buf: "length (eps_buffer s) = 32" "\<not> aliasing_enabled s" using s by (simp_all add: eps_state_def)
  show ?case
  proof (cases "eps_buffer_end s \<noteq> Nullptr \<and> p > eps_end s")
    case True
    then have p: "eps_end s \<le> p" by simp
    from eps_next_spec [OF s e p] obtain q t where
      t: "eps_Next V s = Some (Inr (q, t))" "eps_writes ok failed out addr [] s p t (q + (p - eps_end s))"
        "had_error t \<longrightarrow> q = 0 \<and> (\<exists>st. zo_BackUp V 0 (eps_stream t) = Inr st \<and> failed st)" "\<not> had_error t \<longrightarrow> q + (p - eps_end s) - eps_end t < p - eps_end s" by blast
    let ?q = "q + (p - eps_end s)"
    have st: "eps_state ok failed addr t ?q" using t(2) by (simp add: eps_writes_def)
    show ?thesis
    proof (cases "had_error t")
      case err: True
      then have "eps_state ok failed addr t 0" using st by (auto simp: eps_state_def)
      moreover have "eps_Flush V p s = Some (Inr (0, t))" using True t(1) err by (subst eps_Flush.simps) (simp add: Let_def)
      ultimately show ?thesis using err t(3) by auto
    next
      case no: False
      have "nat (?q - eps_end t) < nat (p - eps_end s)" using t(4) no True by simp
      from less.hyps [OF this st no] obtain n u where u: "eps_Flush V ?q t = Some (Inr (n, u))"
        "if had_error u then n = 0 \<and> eps_state ok failed addr u 0 \<and> (\<exists>st. zo_BackUp V 0 (eps_stream u) = Inr st \<and> failed st) else eps_flushed ok out addr (eps_content out addr t ?q) n u" by blast
      have "eps_Flush V p s = Some (Inr (n, u))" using True t(1) no u(1) by (subst eps_Flush.simps) (simp add: Let_def)
      moreover have "eps_content out addr t ?q = eps_content out addr s p" using t(2) no by (simp add: eps_writes_def)
      ultimately show ?thesis using u(2) by auto
    qed
  next
    case False
    show ?thesis
    proof (cases "eps_buffer_end s")
      case Nullptr
      then obtain r where r: "ok r (eps_stream s)" "addr (eps_stream s) - int r \<le> p" "p \<le> addr (eps_stream s)"
          "eps_end s + 16 = addr (eps_stream s)"
        using s e by (auto simp: eps_state_def)
      let ?t = "s\<lparr>eps_buffer_end := At p\<rparr>" let ?n = "eps_end s + kSlopBytes - p"
      have "eps_Flush V p s = Some (Inr (?n, ?t))" using Nullptr by (subst eps_Flush.simps) simp
      moreover have "eps_flushed ok out addr (eps_content out addr s p) ?n ?t"
        using r e buf Nullptr by (auto simp: eps_flushed_def eps_content_def kSlopBytes_def)
      ultimately show ?thesis using e by auto
    next
      case Own_buffer
      then obtain r where r: "ok r (eps_stream s)" "eps_end s = 0" "0 \<le> p" using s e by (auto simp: eps_state_def)
      then have "p = 0" using False Own_buffer by simp
      then have "eps_flushed ok out addr (eps_content out addr s p) 0 s"
        using r e buf Own_buffer by (auto simp: eps_flushed_def eps_content_def)
      moreover have "eps_Flush V p s = Some (Inr (0, s))"
        using Own_buffer r \<open>p = 0\<close> by (subst eps_Flush.simps) simp
      ultimately show ?thesis using e by auto
    next
      case (At x)
      then obtain r where r: "ok r (eps_stream s)" "addr (eps_stream s) - int r \<le> x" "x + eps_end s = addr (eps_stream s)"
          "0 \<le> p" "eps_end s \<le> 16"
        using s e by (auto simp: eps_state_def)
      have p: "p \<le> eps_end s" using False At by simp
      let ?bs = "take (nat p) (eps_buffer s)"
      have len: "int (length ?bs) = p" using p r buf(1) by simp
      then have le: "x + int (length ?bs) \<le> addr (eps_stream s)" using p r(3) by simp
      let ?st = "zo_store V x ?bs (eps_stream s)"
      let ?t = "s\<lparr>eps_stream := ?st, eps_buffer_end := At (x + p)\<rparr>"
      have "eps_Flush V p s = Some (Inr (eps_end s - p, ?t))"
        using False At by (subst eps_Flush.simps) (simp add: eps_copy_out_def)
      moreover have "upto out addr (x + p) ?st = eps_content out addr s p"
        using store_upto(1) [OF r(1,2) le] len At by (simp add: eps_content_def)
      then have "eps_flushed ok out addr (eps_content out addr s p) (eps_end s - p) ?t"
        using out_store [OF r(1,2) le] r p e buf by (auto simp: eps_flushed_def)
      ultimately show ?thesis using e by auto
    qed
  qed
qed

lemma set_initial_buffer_spec:
  assumes f: "eps_flushed ok out addr c n s" and set: "SetInitialBuffer (eps_buffer_end s) n s = (q, t)"
  shows "eps_state ok failed addr t q" and "\<not> had_error t" and "eps_content out addr t q = c"
proof -
  obtain r where r: "ok r (eps_stream s)" "n \<le> int r" and cases: "case eps_buffer_end s of Nullptr \<Rightarrow> False
      | Own_buffer \<Rightarrow> n = 0 \<and> out (eps_stream s) = c
      | At e \<Rightarrow> e + n = addr (eps_stream s) \<and> upto out addr e (eps_stream s) = c"
    using f by (auto simp: eps_flushed_def)
  have b: "length (eps_buffer s) = 32" "\<not> aliasing_enabled s" "\<not> had_error s" "0 \<le> n" using f by (simp_all add: eps_flushed_def)
  have "eps_state ok failed addr t q \<and> \<not> had_error t \<and> eps_content out addr t q = c"
  proof (cases "eps_buffer_end s")
    case Own_buffer
    with cases set b r show ?thesis by (auto simp: SetInitialBuffer_def eps_state_def eps_content_def)
  next
    case (At e)
    with cases set b r show ?thesis
      by (auto simp: SetInitialBuffer_def kSlopBytes_def eps_state_def eps_content_def split: if_splits)
  qed (use cases in simp)
  then show "eps_state ok failed addr t q" "\<not> had_error t" "eps_content out addr t q = c" by blast+
qed

lemma flushed_out:
  assumes "eps_flushed ok out addr c n s"
  obtains r where "ok r (eps_stream s)" and "n \<le> int r" and "0 \<le> n"
    and "c = take (length (out (eps_stream s)) - nat n) (out (eps_stream s))"
proof -
  from assms obtain r where r: "ok r (eps_stream s)" "n \<le> int r" "0 \<le> n" "case eps_buffer_end s of Nullptr \<Rightarrow> False
      | Own_buffer \<Rightarrow> n = 0 \<and> out (eps_stream s) = c
      | At e \<Rightarrow> e + n = addr (eps_stream s) \<and> upto out addr e (eps_stream s) = c"
    by (auto simp: eps_flushed_def)
  have "c = take (length (out (eps_stream s)) - nat n) (out (eps_stream s))"
  proof (cases "eps_buffer_end s")
    case (At e)
    then have "addr (eps_stream s) - e = n" using r(4) by simp
    with At r(4) show ?thesis by (simp add: upto_def)
  qed (use r(4) in auto)
  with r(1-3) that show thesis by blast
qed

text \<open>After \<open>Trim\<close> the stream has what was written, unless it has failed.\<close>

lemma trim_spec:
  assumes s: "eps_state ok failed addr s p"
  shows "\<exists>q t. eps_Trim V p s = Some (Inr (q, t)) \<and> (had_error s \<longrightarrow> had_error t) \<and>
    (failed (eps_stream t) \<or>
     ok 0 (eps_stream t) \<and> out (eps_stream t) = eps_content out addr s p \<and> q = 0 \<and> eps_state ok failed addr t 0)"
proof (cases "had_error s")
  case True
  then show ?thesis using s by (auto simp: eps_Trim_def eps_state_def)
next
  case False
  from flush_spec [OF s False] obtain n t where t: "eps_Flush V p s = Some (Inr (n, t))"
    "if had_error t then n = 0 \<and> eps_state ok failed addr t 0 \<and> (\<exists>st. zo_BackUp V 0 (eps_stream t) = Inr st \<and> failed st)
     else eps_flushed ok out addr (eps_content out addr s p) n t" by blast
  show ?thesis
  proof (cases "had_error t")
    case True
    then show ?thesis using t False by (auto simp: eps_Trim_def)
  next
    case no: False
    with t(2) have f: "eps_flushed ok out addr (eps_content out addr s p) n t" by simp
    then obtain r where r: "ok r (eps_stream t)" "n \<le> int r" "0 \<le> n"
      "eps_content out addr s p = take (length (out (eps_stream t)) - nat n) (out (eps_stream t))" by (rule flushed_out)
    from out_back_up [OF r(1,3,2)] obtain st where st: "zo_BackUp V n (eps_stream t) = Inr st"
      "failed st \<or> ok 0 st \<and> out st = take (length (out (eps_stream t)) - nat n) (out (eps_stream t))" by blast
    let ?t = "t\<lparr>eps_stream := st, eps_buffer_end := Own_buffer, eps_end := 0\<rparr>"
    have run: "eps_Trim V p s = Some (Inr (0, ?t))" using t(1) st(1) False by (simp add: eps_Trim_def)
    have "ok 0 st \<Longrightarrow> eps_state ok failed addr ?t 0" using f no by (auto simp: eps_state_def eps_flushed_def)
    with run st(2) r(4) False show ?thesis by auto
  qed
qed

end

section \<open>CodedOutputStream\<close>

abbreviation co_state :: "(nat \<Rightarrow> 's \<Rightarrow> bool) \<Rightarrow> ('s \<Rightarrow> bool) \<Rightarrow> ('s \<Rightarrow> int) \<Rightarrow> 's coded_output \<Rightarrow> bool" where
  "co_state okS failedS addr s \<equiv> eps_state okS failedS addr (co_impl s) (co_cur s)"

abbreviation co_content :: "('s \<Rightarrow> byte list) \<Rightarrow> ('s \<Rightarrow> int) \<Rightarrow> 's coded_output \<Rightarrow> byte list" where
  "co_content out addr s \<equiv> eps_content out addr (co_impl s) (co_cur s)"

text \<open>\<open>t\<close> is a state after writing \<open>bs\<close> in the state \<open>s\<close>; the bytes count unless there was an error.\<close>

definition co_writes ::
    "(nat \<Rightarrow> 's \<Rightarrow> bool) \<Rightarrow> ('s \<Rightarrow> bool) \<Rightarrow> ('s \<Rightarrow> byte list) \<Rightarrow> ('s \<Rightarrow> int) \<Rightarrow> byte list \<Rightarrow> 's coded_output \<Rightarrow> 's coded_output \<Rightarrow> bool" where
  "co_writes okS failedS out addr bs s t \<longleftrightarrow> eps_writes okS failedS out addr bs (co_impl s) (co_cur s) (co_impl t) (co_cur t)"

lemma co_writes_state: "co_writes okS failedS out addr bs s t \<Longrightarrow> co_state okS failedS addr t"
  by (simp add: co_writes_def eps_writes_def)

lemma co_writes_trans:
  "co_writes okS failedS out addr bs s t \<Longrightarrow> co_writes okS failedS out addr cs t u \<Longrightarrow> co_writes okS failedS out addr (bs @ cs) s u"
  unfolding co_writes_def by (rule eps_writes_trans)

text \<open>Storing through the pointer \<open>GetDirectBufferForNBytesAndAdvance\<close> returned.\<close>

definition store_direct :: "'s zc_output \<Rightarrow> buf_end \<Rightarrow> byte list \<Rightarrow> 's coded_output \<Rightarrow> 's coded_output" where
  "store_direct V b bs s =
     (case b of
        At x \<Rightarrow> s\<lparr>co_impl := (co_impl s)\<lparr>eps_stream := zo_store V x bs (eps_stream (co_impl s))\<rparr>\<rparr>
      | Own_buffer \<Rightarrow> s\<lparr>co_impl := (co_impl s)\<lparr>eps_buffer := overwrite 0 bs (eps_buffer (co_impl s))\<rparr>\<rparr>
      | Nullptr \<Rightarrow> s)"

lemma set_initial_buffer_end: "SetInitialBuffer d n (s\<lparr>eps_buffer_end := x\<rparr>) = SetInitialBuffer d n s"
  by (simp add: SetInitialBuffer_def split: buf_end.split)

lemma set_initial_buffer_stream:
  "SetInitialBuffer d n s = (q, t) \<Longrightarrow> SetInitialBuffer d n (s\<lparr>eps_stream := st\<rparr>) = (q, t\<lparr>eps_stream := st\<rparr>)"
  "SetInitialBuffer d n s = (q, t) \<Longrightarrow> eps_stream t = eps_stream s"
  by (auto simp: SetInitialBuffer_def split: buf_end.splits if_splits)

context zero_copy_output
begin

lemma ctor_spec:
  assumes "ok r st" and junk: "length junk = 32"
  shows "\<exists>s. CodedOutputStream_ctor V st True det junk = Inr s \<and>
    (co_state ok failed addr s \<and> \<not> had_error (co_impl s) \<and> co_content out addr s = out st \<or>
     (\<exists>st'. zo_Next V st = Inr (None, st') \<and> failed st'))"
  using out_next [OF assms(1)]
proof (elim disjE exE conjE)
  fix a n st' d
  assume n: "zo_Next V st = Inr (Some (a, n), st')" "0 < n" "ok (nat n) st'" "out st' = out st @ d" "length d = nat n" "addr st' = a + n"
  let ?e = "(snd (EpsCopyOutputStream_ctor st det junk))\<lparr>eps_stream := st'\<rparr>"
  obtain q t where t: "SetInitialBuffer (At a) n ?e = (q, t)" by (cases "SetInitialBuffer (At a) n ?e")
  have "eps_flushed ok out addr (out st) n (?e\<lparr>eps_buffer_end := At a\<rparr>)"
    using n junk by (auto simp: eps_flushed_def upto_def EpsCopyOutputStream_ctor_def)
  moreover have "SetInitialBuffer (eps_buffer_end (?e\<lparr>eps_buffer_end := At a\<rparr>)) n (?e\<lparr>eps_buffer_end := At a\<rparr>) = (q, t)"
    using t by (simp add: set_initial_buffer_end)
  ultimately have "eps_state ok failed addr t q" "\<not> had_error t" "eps_content out addr t q = out st"
    by (rule set_initial_buffer_spec)+
  with n(1,2) t show ?thesis
    by (simp add: CodedOutputStream_ctor_def InitEagerly_def EpsCopyOutputStream_ctor_def)
next
  fix st' st''
  assume n: "zo_Next V st = Inr (None, st')" and f: "failed st'"
  then show ?thesis by (simp add: CodedOutputStream_ctor_def InitEagerly_def EpsCopyOutputStream_ctor_def)
qed

lemma write_small_spec:
  assumes "co_state ok failed addr s" and "length bs \<le> 16"
  shows "\<exists>t. write_small V bs s = Some (Inr t) \<and> co_writes ok failed out addr bs s t"
proof -
  from assms obtain q t where "EnsureSpace V (co_cur s) (co_impl s) = Some (Inr (q, t))"
    "eps_writes ok failed out addr bs (co_impl s) (co_cur s) (eps_put V q bs t) (q + int (length bs))"
    by (rule write_after_space)
  then show ?thesis by (simp add: write_small_def co_writes_def)
qed

lemma coded_write_raw_spec:
  assumes "co_state ok failed addr s"
  shows "\<exists>t. WriteRaw V bs s = Some (Inr t) \<and> co_writes ok failed out addr bs s t"
  using write_raw_spec [OF assms, of bs] by (auto simp: WriteRaw_def co_writes_def)

lemma error_state: "eps_state ok failed addr t p \<Longrightarrow> had_error t \<Longrightarrow> eps_state ok failed addr t 0"
  by (auto simp: eps_state_def)

lemma had_error_spec:
  assumes s: "co_state ok failed addr s"
  shows "\<exists>t. HadError V s = Some (Inr (had_error (co_impl t), t)) \<and> co_writes ok failed out addr [] s t"
proof (cases "had_error (co_impl s)")
  case True
  with error_state [OF s] show ?thesis by (auto simp: HadError_def FlushAndResetBuffer_def co_writes_def eps_writes_def)
next
  case False
  from flush_spec [OF s False] obtain n t where t: "eps_Flush V (co_cur s) (co_impl s) = Some (Inr (n, t))"
    "if had_error t then n = 0 \<and> eps_state ok failed addr t 0 \<and> (\<exists>st. zo_BackUp V 0 (eps_stream t) = Inr st \<and> failed st)
     else eps_flushed ok out addr (co_content out addr s) n t" by blast
  show ?thesis
  proof (cases "had_error t")
    case True
    with t False show ?thesis by (auto simp: HadError_def FlushAndResetBuffer_def co_writes_def eps_writes_def)
  next
    case no: False
    obtain q u where u: "SetInitialBuffer (eps_buffer_end t) n t = (q, u)" by (cases "SetInitialBuffer (eps_buffer_end t) n t")
    from t(2) no have "eps_flushed ok out addr (co_content out addr s) n t" by simp
    from set_initial_buffer_spec [OF this u] t(1) u False no show ?thesis
      by (auto simp: HadError_def FlushAndResetBuffer_def co_writes_def eps_writes_def)
  qed
qed

lemma direct_buffer_spec:
  assumes s: "co_state ok failed addr s" and sz: "0 \<le> sz"
  shows "\<exists>b t. GetDirectBufferForNBytesAndAdvance V sz s = Some (Inr (b, t)) \<and>
    (case b of None \<Rightarrow> co_writes ok failed out addr [] s t
     | Some b \<Rightarrow> \<forall>bs. int (length bs) = sz \<longrightarrow> co_writes ok failed out addr bs s (store_direct V b bs t))"
proof (cases "had_error (co_impl s)")
  case True
  with error_state [OF s] show ?thesis
    by (auto simp: GetDirectBufferForNBytesAndAdvance_def eps_GetDirectBufferForNBytesAndAdvance_def co_writes_def eps_writes_def)
next
  case False
  from flush_spec [OF s False] obtain n t where t: "eps_Flush V (co_cur s) (co_impl s) = Some (Inr (n, t))"
    "if had_error t then n = 0 \<and> eps_state ok failed addr t 0 \<and> (\<exists>st. zo_BackUp V 0 (eps_stream t) = Inr st \<and> failed st)
     else eps_flushed ok out addr (co_content out addr s) n t" by blast
  show ?thesis
  proof (cases "had_error t")
    case True
    with t False show ?thesis
      by (auto simp: GetDirectBufferForNBytesAndAdvance_def eps_GetDirectBufferForNBytesAndAdvance_def co_writes_def eps_writes_def)
  next
    case no: False
    with t(2) have f: "eps_flushed ok out addr (co_content out addr s) n t" by simp
    show ?thesis
    proof (cases "n \<ge> sz")
      case small: False
      obtain q u where u: "SetInitialBuffer (eps_buffer_end t) n t = (q, u)" by (cases "SetInitialBuffer (eps_buffer_end t) n t")
      from set_initial_buffer_spec [OF f u] t(1) u False no small show ?thesis
        by (auto simp: GetDirectBufferForNBytesAndAdvance_def eps_GetDirectBufferForNBytesAndAdvance_def co_writes_def eps_writes_def)
    next
      case fits: True
      let ?after = "case eps_buffer_end t of At e \<Rightarrow> At (e + sz) | e \<Rightarrow> e"
      obtain q u where u: "SetInitialBuffer ?after (n - sz) t = (q, u)" by (cases "SetInitialBuffer ?after (n - sz) t")
      let ?s = "s\<lparr>co_cur := q, co_impl := u\<rparr>"
      have run: "GetDirectBufferForNBytesAndAdvance V sz s = Some (Inr (Some (eps_buffer_end t), ?s))"
        using t(1) False no fits u
        by (simp add: GetDirectBufferForNBytesAndAdvance_def eps_GetDirectBufferForNBytesAndAdvance_def)
      have "co_writes ok failed out addr bs s (store_direct V (eps_buffer_end t) bs ?s)" if len: "int (length bs) = sz" for bs
      proof (cases "eps_buffer_end t")
        case Nullptr
        then show ?thesis using f by (simp add: eps_flushed_def)
      next
        case Own_buffer
        then have n: "n = 0" "sz = 0" "bs = []" using f fits sz len by (auto simp: eps_flushed_def)
        with set_initial_buffer_spec [OF f] u Own_buffer no False show ?thesis
          by (simp add: store_direct_def co_writes_def eps_writes_def overwrite_def)
      next
        case (At e)
        from f At obtain r where r: "ok r (eps_stream t)" "n \<le> int r" "e + n = addr (eps_stream t)"
          "upto out addr e (eps_stream t) = co_content out addr s" "length (eps_buffer t) = 32" "\<not> aliasing_enabled t"
          by (auto simp: eps_flushed_def)
        have x: "addr (eps_stream t) - int r \<le> e" "e + int (length bs) \<le> addr (eps_stream t)" using r(2,3) fits len by simp_all
        let ?st = "zo_store V e bs (eps_stream t)"
        note st = out_store [OF r(1) x] and up = store_upto(1) [OF r(1) x]
        let ?t = "t\<lparr>eps_stream := ?st, eps_buffer_end := At (e + sz)\<rparr>"
        have "eps_flushed ok out addr (co_content out addr s @ bs) (n - sz) ?t"
          using st up r no fits sz len by (auto simp: eps_flushed_def)
        moreover have "SetInitialBuffer (eps_buffer_end ?t) (n - sz) ?t = (q, u\<lparr>eps_stream := ?st\<rparr>)"
          using set_initial_buffer_stream(1) [OF u, of ?st] At by (simp add: set_initial_buffer_end)
        ultimately have "eps_state ok failed addr (u\<lparr>eps_stream := ?st\<rparr>) q" "\<not> had_error (u\<lparr>eps_stream := ?st\<rparr>)"
          "eps_content out addr (u\<lparr>eps_stream := ?st\<rparr>) q = co_content out addr s @ bs"
          by (rule set_initial_buffer_spec)+
        with False At set_initial_buffer_stream(2) [OF u] show ?thesis
          by (simp add: store_direct_def co_writes_def eps_writes_def)
      qed
      with run show ?thesis by auto
    qed
  qed
qed

text \<open>What a destroyed \<open>CodedOutputStream\<close> has left in the stream.\<close>

lemma coded_dtor_spec:
  assumes "co_state ok failed addr s"
  shows "\<exists>st. CodedOutputStream_dtor V s = Some (Inr st) \<and>
    (failed st \<or> \<not> had_error (co_impl s) \<and> ok 0 st \<and> out st = co_content out addr s)"
proof -
  have "eps_state ok failed addr t 0 \<Longrightarrow> had_error t \<Longrightarrow> failed (eps_stream t)" for t by (simp add: eps_state_def)
  with trim_spec [OF assms] show ?thesis by (auto simp: CodedOutputStream_dtor_def Trim_def)
qed

end

end
