(* ===== verification/Framing.thy ===== *)
theory Framing
  imports Coded_Output_Correct Coded_Input_Tags
begin

text \<open>
  The framing of \<open>util/proto.h\<close>: \<open>sendMesgTo\<close> writes the size of a message as a varint and then the message,
  \<open>recvMesgFrom\<close> reads them back. The templates work for any message class \<open>T\<close>; what they use of it is
  the parameter: its size, its serialisation into an array and into a stream, and its parser.
\<close>

section \<open>The templates\<close>

record 'm message_class =
  ByteSize :: "'m \<Rightarrow> int"
  SerializeWithCachedSizesToArray :: "'m \<Rightarrow> byte list"
  SerializeWithCachedSizes :: "'m \<Rightarrow> file_output coded_output \<Rightarrow> file_output coded_output run"
  MergeFromCodedStream :: "'m \<Rightarrow> file_input coded_input \<Rightarrow> (bool \<times> 'm \<times> file_input coded_input) run"

text \<open>
  The inner scope of \<open>sendMesgTo\<close>, for any output stream: whether it goes on to the end, and the stream
  after the destructor of \<open>output\<close>. \<open>junk\<close> is what the memory of its patch buffer holds.
\<close>

definition send_scope ::
    "'s zc_output \<Rightarrow> int \<Rightarrow> byte list \<Rightarrow> ('s coded_output \<Rightarrow> 's coded_output run) \<Rightarrow> byte list \<Rightarrow> 's \<Rightarrow> (bool \<times> 's) run" where
  "send_scope V size_of array serialize junk out =
     bind_run (Some (CodedOutputStream_ctor V out True False junk)) (\<lambda>output.
     bind_run (WriteVarint32 V (word_of_int size_of) output) (\<lambda>output.
     bind_run (GetDirectBufferForNBytesAndAdvance V size_of output) (\<lambda>(buffer, output).
     bind_run
       (case buffer of
          Some b \<Rightarrow> return_run (True, store_direct V b array output)
        | None \<Rightarrow>
            bind_run (serialize output) (\<lambda>output.
            bind_run (HadError V output) (\<lambda>(err, output). return_run (\<not> err, output))))
       (\<lambda>(ok, output).
     bind_run (CodedOutputStream_dtor V output) (\<lambda>out. return_run (ok, out))))))"

definition sendMesgTo :: "'m message_class \<Rightarrow> byte list \<Rightarrow> 'm \<Rightarrow> file_output \<Rightarrow> (bool \<times> file_output) run" where
  "sendMesgTo C junk message out =
     bind_run (send_scope FileOutputStream (ByteSize C message) (SerializeWithCachedSizesToArray C message)
         (SerializeWithCachedSizes C message) junk out) (\<lambda>(ok, out).
       if \<not> ok then return_run (False, out)
       else Some (bind_res (FileOutputStream_Flush out) (\<lambda>(_, out). Inr (True, out))))"

text \<open>Leaving \<open>recvMesgFrom\<close> destroys its \<open>input\<close>.\<close>

definition leave_recv :: "bool \<Rightarrow> 'm \<Rightarrow> file_input coded_input \<Rightarrow> (bool \<times> 'm \<times> file_input) run" where
  "leave_recv result message input =
     Some (bind_res (CodedInputStream_dtor FileInputStream input) (\<lambda>i. Inr (result, message, i)))"

definition recvMesgFrom :: "'m message_class \<Rightarrow> 'm \<Rightarrow> file_input \<Rightarrow> (bool \<times> 'm \<times> file_input) run" where
  "recvMesgFrom C message i =
     bind_run (CodedInputStream_ctor FileInputStream i) (\<lambda>input.
     bind_run (ReadVarint32 FileInputStream input) (\<lambda>(r, input).
       case r of
         None \<Rightarrow> leave_recv False message input
       | Some sz \<Rightarrow>
           let (limit, input) = PushLimit (sint sz) input
           in bind_run (MergeFromCodedStream C message input) (\<lambda>(ok, message, input).
                if \<not> ok then leave_recv False message input
                else if \<not> ConsumedEntireMessage input then leave_recv False message input
                else leave_recv True message (PopLimit limit input))))"

section \<open>Sending\<close>

text \<open>The bytes of a message on the connection.\<close>

definition frame :: "byte list \<Rightarrow> byte list" where
  "frame bytes = WriteVarint32ToArray (word_of_nat (length bytes)) @ bytes"

lemma length_size_prefix: "length (WriteVarint32ToArray v) \<le> 5"
proof -
  have "unat v < 128 ^ Suc 4" using unat_32_lt [of v] by simp
  from varint_enc_length [OF this] show ?thesis by (simp add: WriteVarint32ToArray_def UnsafeVarint_enc)
qed

context zero_copy_output
begin

lemma send_scope_spec:
  assumes st: "ok r st" and junk: "length junk = 32" and nxt: "\<And>st'. zo_Next V st = Inr (None, st') \<Longrightarrow> \<not> failed st'"
    and serialize: "\<And>s. co_state ok failed addr s \<Longrightarrow> \<exists>t. serialize s = Some (Inr t) \<and> co_writes ok failed out addr bytes s t"
  shows "\<exists>b st'. send_scope V (int (length bytes)) bytes serialize junk st = Some (Inr (b, st')) \<and>
    (failed st' \<or> b \<and> ok 0 st' \<and> out st' = out st @ frame bytes)"
proof -
  let ?sz = "int (length bytes)"
  let ?len = "WriteVarint32ToArray (word_of_nat (length bytes))"
  from ctor_spec [OF st junk, of False] nxt obtain s where s: "CodedOutputStream_ctor V st True False junk = Inr s"
    "co_state ok failed addr s" "\<not> had_error (co_impl s)" "co_content out addr s = out st" by blast
  have "length ?len \<le> 16" using length_size_prefix [of "word_of_nat (length bytes)"] by simp
  from write_small_spec [OF s(2) this] obtain t where t: "WriteVarint32 V (word_of_nat (length bytes)) s = Some (Inr t)"
    "co_writes ok failed out addr ?len s t" by (auto simp: WriteVarint32_def)
  from direct_buffer_spec [OF co_writes_state [OF t(2)], of ?sz] obtain b u where
    u: "GetDirectBufferForNBytesAndAdvance V ?sz t = Some (Inr (b, u))"
      "case b of None \<Rightarrow> co_writes ok failed out addr [] t u
       | Some b \<Rightarrow> \<forall>bs. int (length bs) = ?sz \<longrightarrow> co_writes ok failed out addr bs t (store_direct V b bs u)" by auto
  have "\<exists>good v. (case b of
          Some b \<Rightarrow> return_run (True, store_direct V b bytes u)
        | None \<Rightarrow> bind_run (serialize u) (\<lambda>output.
            bind_run (HadError V output) (\<lambda>(err, output). return_run (\<not> err, output)))) = Some (Inr (good, v)) \<and>
      co_writes ok failed out addr bytes t v \<and> (good \<or> had_error (co_impl v))"
  proof (cases b)
    case (Some p)
    with u(2) show ?thesis by auto
  next
    case None
    with u(2) have u2: "co_writes ok failed out addr [] t u" by simp
    from serialize [OF co_writes_state [OF this]] obtain v where v: "serialize u = Some (Inr v)"
      "co_writes ok failed out addr bytes u v" by blast
    from had_error_spec [OF co_writes_state [OF v(2)]] obtain w where
      w: "HadError V v = Some (Inr (had_error (co_impl w), w))" "co_writes ok failed out addr [] v w" by blast
    from co_writes_trans [OF co_writes_trans [OF u2 v(2)] w(2)] have "co_writes ok failed out addr bytes t w" by simp
    with None v(1) w(1) show ?thesis by auto
  qed
  then obtain good v where v: "(case b of
          Some b \<Rightarrow> return_run (True, store_direct V b bytes u)
        | None \<Rightarrow> bind_run (serialize u) (\<lambda>output.
            bind_run (HadError V output) (\<lambda>(err, output). return_run (\<not> err, output)))) = Some (Inr (good, v))"
    "co_writes ok failed out addr bytes t v" "good \<or> had_error (co_impl v)" by blast
  from coded_dtor_spec [OF co_writes_state [OF v(2)]] obtain st' where
    d: "CodedOutputStream_dtor V v = Some (Inr st')"
      "failed st' \<or> \<not> had_error (co_impl v) \<and> ok 0 st' \<and> out st' = co_content out addr v" by blast
  have "send_scope V ?sz bytes serialize junk st = Some (Inr (good, st'))"
    unfolding send_scope_def by (simp add: s(1) t(1) u(1) v(1) d(1))
  moreover have "co_writes ok failed out addr (frame bytes) s v"
    using co_writes_trans [OF t(2) v(2)] by (simp add: frame_def)
  then have "\<not> had_error (co_impl v) \<Longrightarrow> co_content out addr v = out st @ frame bytes"
    using s(4) by (simp add: co_writes_def eps_writes_def)
  ultimately show ?thesis using d(2) v(3) by auto
qed

end

context copying_output
begin

lemma flush_sends:
  assumes "oa_ok c_ok sent r a"
  shows "\<exists>b a'. OutAdaptor_Flush wr a = Inr (b, a') \<and>
    (may_fail \<and> oa_failed a' \<or> oa_ok c_ok sent 0 a' \<and> sent (oa_stream a') = oa_out sent a)"
  using assms
proof (cases rule: write_buffer_spec)
  case (1 a')
  then have "sent (oa_stream a') = oa_out sent a" by (simp add: oa_out_def)
  with 1 show ?thesis by (auto simp: OutAdaptor_Flush_def)
qed (auto simp: OutAdaptor_Flush_def)

end

lemma failed_flush: "oa_failed a \<Longrightarrow> FileOutputStream_Flush a = Inr (False, a)"
  by (simp add: FileOutputStream_Flush_def OutAdaptor_Flush_def WriteBuffer_def)

lemma fresh_next: "oa_buffer_used a < oa_buffer_size a \<Longrightarrow> zo_Next FileOutputStream a \<noteq> Inr (None, a')"
  by (simp add: FileOutputStream_def OutAdaptor_def OutAdaptor_Next_def Let_def)

text \<open>A serialiser writes \<open>bytes\<close>, up to errors of the stream.\<close>

definition serializes ::
    "(nat \<Rightarrow> file_output \<Rightarrow> bool) \<Rightarrow> (file_output \<Rightarrow> bool) \<Rightarrow> (file_output coded_output \<Rightarrow> file_output coded_output run) \<Rightarrow> byte list \<Rightarrow> bool" where
  "serializes okS failedS f bytes \<longleftrightarrow> (\<forall>s. co_state okS failedS oa_buffer_used s \<longrightarrow>
     (\<exists>t. f s = Some (Inr t) \<and> co_writes okS failedS (oa_out co_sent) oa_buffer_used bytes s t))"

lemma serializesD:
  "serializes okS failedS f bytes \<Longrightarrow> co_state okS failedS oa_buffer_used s \<Longrightarrow>
   \<exists>t. f s = Some (Inr t) \<and> co_writes okS failedS (oa_out co_sent) oa_buffer_used bytes s t"
  by (simp add: serializes_def)

abbreviation open_file :: "nat \<Rightarrow> file_output \<Rightarrow> bool" where
  "open_file \<equiv> oa_ok (\<lambda>c. \<not> co_is_closed c) co_sent"

lemma send_spec:
  assumes "open_file 0 a" and "oa_buffer_used a < oa_buffer_size a" and junk: "length junk = 32"
    and msg: "ByteSize C m = int (length bytes)" "SerializeWithCachedSizesToArray C m = bytes"
    and ser: "serializes open_file oa_failed (SerializeWithCachedSizes C m) bytes"
  shows "\<exists>b a'. sendMesgTo C junk m a = Some (Inr (b, a')) \<and>
    (oa_failed a' \<or> b \<and> open_file 0 a' \<and> co_sent (oa_stream a') = oa_out co_sent a @ frame bytes)"
proof -
  have "\<not> oa_failed st'" if "zo_Next FileOutputStream a = Inr (None, st')" for st'
    using fresh_next [OF assms(2), of st'] that by blast
  from file_out.send_scope_spec [OF assms(1) junk this serializesD [OF ser]] obtain b st where
    st: "send_scope FileOutputStream (int (length bytes)) bytes (SerializeWithCachedSizes C m) junk a = Some (Inr (b, st))"
      "oa_failed st \<or> b \<and> open_file 0 st \<and> oa_out co_sent st = oa_out co_sent a @ frame bytes" by blast
  show ?thesis
  proof (cases "oa_failed st")
    case True
    then have "sendMesgTo C junk m a = Some (Inr (b, st))"
      using st(1) failed_flush [OF True] by (cases b) (simp_all add: sendMesgTo_def msg)
    with True show ?thesis by blast
  next
    case False
    with st(2) have "b" "open_file 0 st" "oa_out co_sent st = oa_out co_sent a @ frame bytes" by simp_all
    from file_copying.flush_sends [OF this(2)] obtain c a' where "FileOutputStream_Flush st = Inr (c, a')"
      "oa_failed a' \<or> open_file 0 a' \<and> co_sent (oa_stream a') = oa_out co_sent st" by (auto simp: FileOutputStream_Flush_def)
    with st(1) \<open>b\<close> \<open>oa_out co_sent st = _\<close> show ?thesis by (auto simp: sendMesgTo_def msg)
  qed
qed

lemma send_patient_spec:
  assumes "oa_ok patient_file co_sent 0 a" and junk: "length junk = 32"
    and msg: "ByteSize C m = int (length bytes)" "SerializeWithCachedSizesToArray C m = bytes"
    and ser: "serializes (oa_ok patient_file co_sent) (\<lambda>a. False) (SerializeWithCachedSizes C m) bytes"
  shows "\<exists>a'. sendMesgTo C junk m a = Some (Inr (True, a')) \<and> oa_ok patient_file co_sent 0 a' \<and>
    co_sent (oa_stream a') = oa_out co_sent a @ frame bytes"
proof -
  have "\<exists>b st. send_scope FileOutputStream (int (length bytes)) bytes (SerializeWithCachedSizes C m) junk a = Some (Inr (b, st)) \<and>
      (False \<or> b \<and> oa_ok patient_file co_sent 0 st \<and> oa_out co_sent st = oa_out co_sent a @ frame bytes)"
    by (rule patient_out.send_scope_spec [OF assms(1) junk]) (simp, rule serializesD [OF ser])
  then obtain st where
    st: "send_scope FileOutputStream (int (length bytes)) bytes (SerializeWithCachedSizes C m) junk a = Some (Inr (True, st))"
      "oa_ok patient_file co_sent 0 st" "oa_out co_sent st = oa_out co_sent a @ frame bytes" by auto
  from patient_copying.flush_sends [OF st(2)] obtain c a' where "FileOutputStream_Flush st = Inr (c, a')"
    "oa_ok patient_file co_sent 0 a'" "co_sent (oa_stream a') = oa_out co_sent st" by (auto simp: FileOutputStream_Flush_def)
  with st show ?thesis by (simp add: sendMesgTo_def msg)
qed

section \<open>Receiving\<close>

text \<open>
  A parser reads the message \<open>m\<close> from \<open>bytes\<close>: with the limit after them, and all levels of the recursion left, it
  consumes them all and notes the proper end, which \<open>ReadTag\<close> finds there.
\<close>

definition parses :: "('m \<Rightarrow> file_input coded_input \<Rightarrow> (bool \<times> 'm \<times> file_input coded_input) run) \<Rightarrow> 'm \<Rightarrow> byte list \<Rightarrow> 'm \<Rightarrow> bool" where
  "parses merge start bytes m \<longleftrightarrow> (\<forall>s. coded_ok file_inv FileInputStream s \<and> readable file_rest s = bytes \<and>
       CurrentPosition s + int (length bytes) < total_bytes_limit s \<and> current_limit s = CurrentPosition s + int (length bytes) \<and>
       recursion_budget s = default_recursion_limit \<longrightarrow>
     (\<exists>t tag. merge start s = Some (Inr (True, m, t\<lparr>legitimate_message_end := True, last_tag := tag\<rparr>)) \<and>
        consumes file_inv file_rest FileInputStream (length bytes) s t))"

lemma pop_limit_flags:
  "PopLimit old (s\<lparr>legitimate_message_end := b, last_tag := tag\<rparr>) = (PopLimit old s)\<lparr>last_tag := tag\<rparr>"
  by (simp add: PopLimit_def RecomputeBufferLimits_def Let_def)

text \<open>The size is read off the front.\<close>

lemma read_size:
  assumes i: "file_inv i" and rest: "file_rest i = frame bytes @ later" and small: "int (length bytes) + 5 < INT_MAX"
  obtains s t where "CodedInputStream_ctor FileInputStream i = Some (Inr s)"
    and "ReadVarint32 FileInputStream s = Some (Inr (Some (word_of_nat (length bytes)), t))"
    and "coded_ok file_inv FileInputStream t" and "pending file_rest t = bytes @ later"
    and "take (length bytes) (readable file_rest t) = bytes"
    and "CurrentPosition t + int (length bytes) < total_bytes_limit t" and "CurrentPosition t + int (length bytes) < current_limit t"
    and "recursion_budget t = default_recursion_limit"
proof -
  let ?enc = "WriteVarint32ToArray (word_of_nat (length bytes) :: 32 word)"
  let ?more = "take (nat INT_MAX - length ?enc) (bytes @ later)"
  have n: "unat (word_of_nat (length bytes) :: 32 word) = length bytes"
    using small by (simp add: INT_MAX_def unsigned_of_nat take_bit_nat_eq_self)
  have enc: "length ?enc \<le> 5" by (rule length_size_prefix)
  from file_in.ctor_spec [OF i] obtain s where s: "CodedInputStream_ctor FileInputStream i = Some (Inr s)"
    "coded_ok file_inv FileInputStream s" "pending file_rest s = frame bytes @ later" "CurrentPosition s = 0"
    "closest_limit s = INT_MAX" by (auto simp: rest)
  have read: "readable file_rest s = ?enc @ ?more"
    using enc by (simp add: readable_def s frame_def INT_MAX_def)
  have "length bytes < 128 ^ 10" using small by (simp add: INT_MAX_def)
  then have v: "varint_of kMaxVarintBytes (readable file_rest s) = Varint (length bytes) ?more"
    by (simp add: read WriteVarint32ToArray_def UnsafeVarint_enc n kMaxVarintBytes_def varint_of_enc del: take_append)
  from file_in.read_varint32_spec [OF s(2)] obtain t k where
    t: "ReadVarint32 FileInputStream s = Some (Inr (Some (word_of_nat (length bytes)), t))"
      "consumes file_inv file_rest FileInputStream k s t" "readable file_rest t = ?more"
    unfolding takes_varint_def v by auto
  have "k \<le> length (readable file_rest s)" using t(2) by (simp add: consumes_def)
  moreover have "drop k (readable file_rest s) = ?more" using consumes_readable [OF t(2)] t(3) by simp
  then have "length (readable file_rest s) - k = length ?more" by (metis length_drop)
  moreover have "length (readable file_rest s) = length ?enc + length ?more" by (simp only: read length_append)
  ultimately have k: "k = length ?enc" by linarith
  show thesis
  proof (rule that [OF s(1) t(1)])
    show "coded_ok file_inv FileInputStream t" using t(2) by (simp add: consumes_def)
    show "pending file_rest t = bytes @ later" using t(2) k s(3) by (simp add: consumes_def frame_def)
    have "length bytes \<le> nat INT_MAX - length ?enc" using small enc by (simp add: INT_MAX_def)
    then show "take (length bytes) (readable file_rest t) = bytes" by (simp add: t(3) min_absorb1)
    have "INT_MAX \<le> total_bytes_limit t" "INT_MAX \<le> current_limit t" "CurrentPosition t = int k"
      using t(2) s(4,5) by (simp_all add: consumes_def coded_frame_def closest_limit_def)
    with small enc k show "CurrentPosition t + int (length bytes) < total_bytes_limit t"
      "CurrentPosition t + int (length bytes) < current_limit t" by simp_all
    have "recursion_budget s = default_recursion_limit" by (rule file_in.ctor_budget [OF i s(1)])
    then show "recursion_budget t = default_recursion_limit" using t(2) by (simp add: consumes_def coded_frame_def)
  qed
qed

lemma recv_spec:
  assumes i: "file_inv i" and rest: "file_rest i = frame bytes @ later" and small: "int (length bytes) + 5 < INT_MAX"
    and parse: "parses (MergeFromCodedStream C) start bytes m"
  shows "\<exists>i'. recvMesgFrom C start i = Some (Inr (True, m, i')) \<and> file_inv i' \<and> file_rest i' = later"
proof -
  obtain s t where t: "CodedInputStream_ctor FileInputStream i = Some (Inr s)"
    "ReadVarint32 FileInputStream s = Some (Inr (Some (word_of_nat (length bytes)), t))"
    "coded_ok file_inv FileInputStream t" "pending file_rest t = bytes @ later"
    "take (length bytes) (readable file_rest t) = bytes"
    "CurrentPosition t + int (length bytes) < total_bytes_limit t" "CurrentPosition t + int (length bytes) < current_limit t"
    "recursion_budget t = default_recursion_limit" by (rule read_size [OF i rest small])
  have sz: "sint (word_of_nat (length bytes) :: 32 word) = int (length bytes)"
    using small by (simp add: INT_MAX_def signed_of_nat signed_take_bit_int_eq_self)
  obtain old u where push: "PushLimit (int (length bytes)) t = (old, u)" by (cases "PushLimit (int (length bytes)) t")
  note p = push_limit_spec [OF t(3) push]
  have "readable file_rest u = bytes" using p(10) [of file_rest] t(5) by simp
  moreover have "CurrentPosition u + int (length bytes) < total_bytes_limit u" using p(4,5) t(6) by simp
  moreover have "current_limit u = CurrentPosition u + int (length bytes)"
    using push_limit_at [OF t(3) push] p(4) t(7) by simp
  moreover have "recursion_budget u = default_recursion_limit" using p(8) t(8) by simp
  ultimately obtain w tag where w: "MergeFromCodedStream C start u =
      Some (Inr (True, m, w\<lparr>legitimate_message_end := True, last_tag := tag\<rparr>))"
    "consumes file_inv file_rest FileInputStream (length bytes) u w"
    using parse p(2) unfolding parses_def by blast
  from pop_limit_spec(1) [OF t(3) push w(2)] have pop: "coded_ok file_inv FileInputStream (PopLimit old w)"
    "pending file_rest (PopLimit old w) = later" by (simp_all add: consumes_def t(4))
  then have "coded_ok file_inv FileInputStream ((PopLimit old w)\<lparr>last_tag := tag\<rparr>)"
    "pending file_rest ((PopLimit old w)\<lparr>last_tag := tag\<rparr>) = later" by simp_all
  with file_in.dtor_spec obtain i' where "CodedInputStream_dtor FileInputStream ((PopLimit old w)\<lparr>last_tag := tag\<rparr>) = Inr i'"
    "file_inv i'" "file_rest i' = later" by metis
  then show ?thesis
    using w(1) by (simp add: recvMesgFrom_def t(1,2) sz push leave_recv_def ConsumedEntireMessage_def pop_limit_flags)
qed

section \<open>A message that fits in the buffer\<close>

text \<open>The inner scope then only fills the buffer of the stream; the single write is that of \<open>Flush\<close>.\<close>

lemma frame_nonempty: "0 < length (frame bytes)"
proof -
  have "varint_enc n \<noteq> []" for n by (subst varint_enc.simps) simp
  then show ?thesis by (simp add: frame_def WriteVarint32ToArray_def UnsafeVarint_enc)
qed

lemma send_scope_fits:
  assumes a: "open_file 0 a" and fits: "oa_buffer_used a + int (length (frame bytes)) + 16 < oa_buffer_size a"
  shows "\<exists>b. send_scope FileOutputStream (int (length bytes)) bytes serialize junk a = Some (Inr (True, b)) \<and>
    oa_stream b = oa_stream a \<and> \<not> oa_failed b \<and> oa_buffer_used b = oa_buffer_used a + int (length (frame bytes)) \<and>
    length (oa_bytes b) = nat (oa_buffer_size a)"
proof -
  let ?u = "oa_buffer_used a" and ?S = "oa_buffer_size a" and ?enc = "WriteVarint32ToArray (word_of_nat (length bytes))"
  let ?l = "int (length ?enc)" and ?n = "int (length bytes)"
  have u: "0 \<le> ?u" "?u < ?S" "?u + ?l + ?n + 16 < ?S" and len: "length (frame bytes) = length ?enc + length bytes"
    using a fits by (simp_all add: oa_ok_def frame_def)
  from file_copying.allocate_spec [OF a u(2)] obtain rest where
    "OutAdaptor_AllocateBufferIfNeeded a = a\<lparr>oa_buffer := Some (take (nat ?u) (oa_bytes a) @ rest)\<rparr>" "int (length rest) = ?S - ?u"
    by blast
  moreover have "length (take (nat ?u) (oa_bytes a)) = nat ?u" using oa_out_length [OF a] by (simp add: oa_out_def)
  ultimately obtain mem where mem: "OutAdaptor_AllocateBufferIfNeeded a = a\<lparr>oa_buffer := Some mem\<rparr>" "int (length mem) = ?S"
    using u(1) by fastforce
  let ?a1 = "a\<lparr>oa_buffer := Some mem, oa_buffer_used := ?S\<rparr>"
  have nxt: "zo_Next FileOutputStream a = Inr (Some (?u, ?S - ?u), ?a1)"
    using u mem(1) by (simp add: FileOutputStream_def OutAdaptor_def OutAdaptor_Next_def Let_def)
  have put: "zo_store FileOutputStream x bs (a\<lparr>oa_buffer := Some m, oa_buffer_used := k\<rparr>) =
      a\<lparr>oa_buffer := Some (overwrite (nat x) bs m), oa_buffer_used := k\<rparr>" for x bs m k
    by (simp add: FileOutputStream_def OutAdaptor_def oa_store_def)
  have undo: "zo_BackUp FileOutputStream n (a\<lparr>oa_buffer := Some m, oa_buffer_used := ?S\<rparr>) =
      Inr (a\<lparr>oa_buffer := Some m, oa_buffer_used := ?S - n\<rparr>)" if "0 < n" "n \<le> ?S" for n m
    using that by (simp add: FileOutputStream_def OutAdaptor_def OutAdaptor_BackUp_def)
  let ?m1 = "overwrite (nat ?u) ?enc mem" let ?m2 = "overwrite (nat (?u + ?l)) bytes ?m1"
  let ?st = "\<lambda>m. a\<lparr>oa_buffer := Some m, oa_buffer_used := ?S\<rparr>"
  let ?s = "\<lambda>m cur. \<lparr>co_impl = \<lparr>eps_end = ?S - 16, eps_buffer_end = Nullptr, eps_buffer = junk, eps_stream = ?st m,
      had_error = False, aliasing_enabled = False, is_serialization_deterministic = False\<rparr>,
      co_cur = cur, co_start_count = oa_position a + ?u\<rparr>"
  have count: "zo_ByteCount FileOutputStream a = oa_position a + ?u"
    by (simp add: FileOutputStream_def OutAdaptor_def OutAdaptor_ByteCount_def)
  have c: "CodedOutputStream_ctor FileOutputStream a True False junk = Inr (?s mem ?u)"
    using u nxt count
    by (simp add: CodedOutputStream_ctor_def InitEagerly_def EpsCopyOutputStream_ctor_def SetInitialBuffer_def kSlopBytes_def)
  have w: "WriteVarint32 FileOutputStream (word_of_nat (length bytes)) (?s mem ?u) = Some (Inr (?s ?m1 (?u + ?l)))"
    using u by (simp add: WriteVarint32_def write_small_def EnsureSpace_def eps_put_def put)
  have d: "GetDirectBufferForNBytesAndAdvance FileOutputStream ?n (?s ?m1 (?u + ?l)) =
      Some (Inr (Some (At (?u + ?l)), ?s ?m1 (?u + ?l + ?n)))"
    using u by (subst GetDirectBufferForNBytesAndAdvance_def, subst eps_GetDirectBufferForNBytesAndAdvance_def,
        subst eps_Flush.simps) (simp add: SetInitialBuffer_def kSlopBytes_def)
  have x: "store_direct FileOutputStream (At (?u + ?l)) bytes (?s ?m1 (?u + ?l + ?n)) = ?s ?m2 (?u + ?l + ?n)"
    by (simp add: store_direct_def put)
  let ?b = "a\<lparr>oa_buffer := Some ?m2, oa_buffer_used := ?u + ?l + ?n\<rparr>"
  have t: "CodedOutputStream_dtor FileOutputStream (?s ?m2 (?u + ?l + ?n)) = Some (Inr ?b)"
    using u by (subst CodedOutputStream_dtor_def, subst Trim_def, subst eps_Trim_def, subst eps_Flush.simps)
      (simp add: undo kSlopBytes_def)
  have "send_scope FileOutputStream ?n bytes serialize junk a = Some (Inr (True, ?b))"
    unfolding send_scope_def by (simp add: c w d x t)
  moreover have "length ?m2 = length mem"
    using u mem(2) by (simp add: overwrite_def)
  ultimately show ?thesis using a mem(2) len by (intro exI [of _ ?b]) (simp add: oa_ok_def)
qed

section \<open>A message class\<close>

text \<open>Messages of two bytes, for the witnesses: the parser reads them and then looks for the end.\<close>

definition demo_class :: "byte list message_class" where
  "demo_class = \<lparr>ByteSize = \<lambda>m. int (length m), SerializeWithCachedSizesToArray = \<lambda>m. m,
     SerializeWithCachedSizes = WriteRaw FileOutputStream,
     MergeFromCodedStream = \<lambda>m s.
       bind_run (ReadRaw FileInputStream 2 s) (\<lambda>(ok, bs, s).
       bind_run (ReadTag FileInputStream s) (\<lambda>(tag, s). return_run (ok \<and> tag = 0, bs, s)))\<rparr>"

lemma demo_class_fields:
  "ByteSize demo_class m = int (length m)" "SerializeWithCachedSizesToArray demo_class m = m"
  by (simp_all add: demo_class_def)

lemma demo_serializes:
  "serializes open_file oa_failed (SerializeWithCachedSizes demo_class m) m"
  "serializes (oa_ok patient_file co_sent) (\<lambda>a. False) (SerializeWithCachedSizes demo_class m) m"
  using file_out.coded_write_raw_spec patient_out.coded_write_raw_spec by (simp_all add: serializes_def demo_class_def)

lemma demo_parses: "parses (MergeFromCodedStream demo_class) start [x, y] [x, y]"
  unfolding parses_def
proof (intro allI impI, elim conjE)
  fix s
  assume s: "coded_ok file_inv FileInputStream s" "readable file_rest s = [x, y]"
    and lim: "CurrentPosition s + int (length [x, y]) < total_bytes_limit s"
  from file_in.read_raw_spec [OF s(1), of 2] s(2) obtain t where
    t: "ReadRaw FileInputStream 2 s = Some (Inr (True, [x, y], t))" "consumes file_inv file_rest FileInputStream 2 s t"
    by (auto simp: takes_bytes_def numeral_2_eq_2)
  have r: "readable file_rest t = []" using consumes_readable [OF t(2)] s(2) by simp
  have ok: "coded_ok file_inv FileInputStream t" and "at_message_end t"
    using t(2) lim by (simp_all add: consumes_def coded_frame_def at_message_end_def)
  with file_in.read_tag_no_last_tag_spec [OF ok] r obtain u k where
    u: "ReadTagNoLastTag FileInputStream t = Some (Inr (0, u\<lparr>legitimate_message_end := True\<rparr>))"
      "consumes file_inv file_rest FileInputStream k t u" by (auto simp: takes_tag_def)
  then have "k = 0" using r by (simp add: consumes_def)
  with consumes_trans [OF t(2)] u(2) have "consumes file_inv file_rest FileInputStream 2 s u" by fastforce
  with t(1) u(1) show "\<exists>t tag. MergeFromCodedStream demo_class start s =
      Some (Inr (True, [x, y], t\<lparr>legitimate_message_end := True, last_tag := tag\<rparr>)) \<and>
      consumes file_inv file_rest FileInputStream (length [x, y]) s t"
    by (auto simp: demo_class_def ReadTag_def numeral_2_eq_2)
qed

lemma demo_output:
  "open_file 0 (FileOutputStream_ctor evs b)" "patient evs \<Longrightarrow> oa_ok patient_file co_sent 0 (FileOutputStream_ctor evs b)"
  "oa_out co_sent (FileOutputStream_ctor evs b) = []" "oa_buffer_used (FileOutputStream_ctor evs b) = 0"
  "oa_buffer_size (FileOutputStream_ctor evs b) = 8192" "co_events (oa_stream (FileOutputStream_ctor evs b)) = evs"
  "co_sent (oa_stream (FileOutputStream_ctor evs b)) = []"
  by (simp_all add: FileOutputStream_ctor_def CopyingOutputStreamAdaptor_ctor_def CopyingFileOutputStream_ctor_def
      oa_ok_def oa_out_def patient_file_def kDefaultBlockSize_def)

lemma demo_input:
  assumes "bs \<noteq> []"
  shows "file_inv (FileInputStream_ctor [Fails EINTR, Arrives bs] False (\<lambda>evs n. evs) 0)"
    and "file_rest (FileInputStream_ctor [Fails EINTR, Arrives bs] False (\<lambda>evs n. evs) 0) = bs"
  using assms by (simp_all add: FileInputStream_ctor_def CopyingInputStreamAdaptor_ctor_def CopyingFileInputStream_ctor_def
      file_inv_def file_ok_def file_rest_def buffer_get_def kDefaultBlockSize_def EINTR_def)

section \<open>Properties\<close>

text \<open>
  C10: A message that was sent is received: whatever the stream still had in its buffer, whatever part of
  the data the kernel takes with each call on one side and delivers on the other, \<open>sendMesgTo\<close>
  returns true, and \<open>recvMesgFrom\<close> on any connection that begins with what it has sent returns true with
  the message and leaves the connection at the byte after it, where the next message begins. The
  serialiser and the parser of the message class are only assumed to agree on its bytes.
\<close>

theorem framing_roundtrip:
  assumes "oa_ok patient_file co_sent 0 a" and "length junk = 32"
    and "ByteSize C m = int (length bytes)" and "SerializeWithCachedSizesToArray C m = bytes"
    and "serializes (oa_ok patient_file co_sent) (\<lambda>a. False) (SerializeWithCachedSizes C m) bytes"
    and "parses (MergeFromCodedStream C) start bytes m" and "int (length bytes) + 5 < INT_MAX"
  shows "\<exists>a'. sendMesgTo C junk m a = Some (Inr (True, a')) \<and> oa_ok patient_file co_sent 0 a' \<and>
    co_sent (oa_stream a') = oa_out co_sent a @ frame bytes \<and>
    (\<forall>i later. file_inv i \<and> file_rest i = frame bytes @ later \<longrightarrow>
       (\<exists>i'. recvMesgFrom C start i = Some (Inr (True, m, i')) \<and> file_inv i' \<and> file_rest i' = later))"
  using send_patient_spec [OF assms(1-5)] recv_spec [OF _ _ assms(7,6)] by blast

lemma framing_roundtrip_witness:
  "\<exists>a' i'. sendMesgTo demo_class (replicate 32 0) [7, 8] (FileOutputStream_ctor [Takes 1, Write_fails EINTR] 0) =
       Some (Inr (True, a')) \<and> co_sent (oa_stream a') = frame [7, 8] \<and>
     recvMesgFrom demo_class [] (FileInputStream_ctor [Fails EINTR, Arrives (frame [7, 8] @ [9])] False (\<lambda>evs n. evs) 0) =
       Some (Inr (True, [7, 8], i')) \<and> file_rest i' = [9]"
proof -
  let ?a = "FileOutputStream_ctor [Takes 1, Write_fails EINTR] 0"
  have "oa_ok patient_file co_sent 0 ?a" by (simp add: demo_output)
  from framing_roundtrip [where start = "[]" and junk = "replicate 32 0", OF this _ demo_class_fields demo_serializes(2)
      demo_parses [where x = 7 and y = 8]]
  obtain a' where a': "sendMesgTo demo_class (replicate 32 0) [7, 8] ?a = Some (Inr (True, a'))"
    "co_sent (oa_stream a') = frame [7, 8]" "\<And>i later. file_inv i \<Longrightarrow> file_rest i = frame [7, 8] @ later \<Longrightarrow>
       \<exists>i'. recvMesgFrom demo_class [] i = Some (Inr (True, [7, 8], i')) \<and> file_inv i' \<and> file_rest i' = later"
    by (auto simp: INT_MAX_def demo_output)
  have "frame [7, 8] @ [9] \<noteq> []" by simp
  from a'(3) [OF demo_input [OF this]] a'(1,2) show ?thesis by auto
qed

text \<open>
  Sending over a connection that may fail: \<open>sendMesgTo\<close> returns, and unless the stream has recorded an
  error it returns true and exactly the size and the message have been written to the
  descriptor after what was buffered before; nothing stays in the buffer.
\<close>

theorem send_writes_frame:
  assumes "open_file 0 a" and "oa_buffer_used a < oa_buffer_size a" and "length junk = 32"
    and "ByteSize C m = int (length bytes)" and "SerializeWithCachedSizesToArray C m = bytes"
    and "serializes open_file oa_failed (SerializeWithCachedSizes C m) bytes"
  shows "\<exists>b a'. sendMesgTo C junk m a = Some (Inr (b, a')) \<and>
    (oa_failed a' \<or> b \<and> co_sent (oa_stream a') = oa_out co_sent a @ WriteVarint32ToArray (word_of_nat (length bytes)) @ bytes)"
  using send_spec [OF assms] by (auto simp: frame_def)

lemma send_writes_frame_witness:
  "\<exists>b a'. sendMesgTo demo_class (replicate 32 0) [7, 8] (FileOutputStream_ctor [Takes 2, Takes 0] 0) = Some (Inr (b, a')) \<and>
     (oa_failed a' \<or> b \<and> co_sent (oa_stream a') = WriteVarint32ToArray 2 @ [7, 8])"
  using send_writes_frame [OF demo_output(1) _ _ demo_class_fields demo_serializes(1), of "[Takes 2, Takes 0]" 0 "replicate 32 0" "[7, 8]"]
  by (simp add: demo_output)

text \<open>
  C11: A failed connection goes unnoticed: a message that fits in the buffer of the stream is reported as
  sent whatever the descriptor answers, also when its write fails and not a byte has been sent.
\<close>

theorem send_hides_failure:
  assumes "open_file 0 a" and "ByteSize C m = int (length bytes)" and "SerializeWithCachedSizesToArray C m = bytes"
    and "oa_buffer_used a + int (length (frame bytes)) + 16 < oa_buffer_size a"
  shows "\<exists>a'. sendMesgTo C junk m a = Some (Inr (True, a')) \<and>
    (\<forall>e evs. co_events (oa_stream a) = Write_fails e # evs \<and> e \<noteq> EINTR \<longrightarrow>
       oa_failed a' \<and> co_sent (oa_stream a') = co_sent (oa_stream a))"
proof -
  from send_scope_fits [OF assms(1,4)] obtain b where
    b: "send_scope FileOutputStream (int (length bytes)) bytes (SerializeWithCachedSizes C m) junk a = Some (Inr (True, b))"
      "oa_stream b = oa_stream a" "\<not> oa_failed b" "oa_buffer_used b = oa_buffer_used a + int (length (frame bytes))"
      "length (oa_bytes b) = nat (oa_buffer_size a)" by blast
  let ?buf = "take (nat (oa_buffer_used b)) (oa_bytes b)"
  have a: "0 \<le> oa_buffer_used a" "\<not> co_is_closed (oa_stream a)" using assms(1) by (simp_all add: oa_ok_def)
  then have "0 < oa_buffer_used b" "\<not> co_is_closed (oa_stream a)" using b(4) frame_nonempty [of bytes] by linarith+
  moreover from this(1) b(4,5) assms(4) have "?buf \<noteq> []" by auto
  then obtain x xs where buf: "?buf = x # xs" by (cases ?buf) auto
  obtain good w e evs where loop: "write_loop ?buf (co_events (oa_stream a)) = ((good, w, e), evs)" by (metis surj_pair)
  moreover have "\<not> good \<and> w = []" if "co_events (oa_stream a) = Write_fails e' # evs'" "e' \<noteq> EINTR" for e' evs'
    using loop that by (simp add: buf)
  ultimately show ?thesis
    using b(1-3) by (cases good; cases e)
      (force simp: sendMesgTo_def assms(2,3) FileOutputStream_Flush_def OutAdaptor_Flush_def WriteBuffer_def
        CopyingFileOutputStream_Write_def OutAdaptor_FreeBuffer_def Let_def)+
qed

lemma send_hides_failure_witness:
  "\<exists>a'. sendMesgTo demo_class (replicate 32 0) [7, 8] (FileOutputStream_ctor [Write_fails 32] 0) = Some (Inr (True, a')) \<and>
     oa_failed a' \<and> co_sent (oa_stream a') = []"
proof -
  have "length (frame [7, 8]) \<le> 7" using length_size_prefix [of "word_of_nat (length [7, 8 :: byte])"] by (simp add: frame_def)
  then show ?thesis
    using send_hides_failure [OF demo_output(1) demo_class_fields, of "[Write_fails 32]" 0 "[7, 8]" "replicate 32 0"]
    by (auto simp: demo_output EINTR_def)
qed

end
