(* ===== verification/Wire_Session.thy ===== *)
theory Wire_Session
  imports Wire_Tagged Framing
begin

text \<open>
  Whole sessions: fields of any type, each behind its tag, are written to a \<open>CodedOutputStream\<close> over a descriptor and
  read back from a \<open>CodedInputStream\<close> over another.
\<close>

section \<open>Values of any type\<close>

text \<open>The value of a field of one of the 14 types, and what the templates do at its type.\<close>

datatype wire_value =
  Val_Int32 "32 word"
| Val_Int64 "64 word"
| Val_UInt32 "32 word"
| Val_UInt64 "64 word"
| Val_SInt32 "32 word"
| Val_SInt64 "64 word"
| Val_Fixed32 "32 word"
| Val_Fixed64 "64 word"
| Val_SFixed32 "32 word"
| Val_SFixed64 "64 word"
| Val_Float "32 word"
| Val_Double "64 word"
| Val_Bool bool
| Val_Enum "32 word"

fun value_to_array :: "wire_value \<Rightarrow> byte list" where
  "value_to_array (Val_Int32 v) = WriteInt32NoTagToArray v"
| "value_to_array (Val_Int64 v) = WriteInt64NoTagToArray v"
| "value_to_array (Val_UInt32 v) = WriteUInt32NoTagToArray v"
| "value_to_array (Val_UInt64 v) = WriteUInt64NoTagToArray v"
| "value_to_array (Val_SInt32 v) = WriteSInt32NoTagToArray v"
| "value_to_array (Val_SInt64 v) = WriteSInt64NoTagToArray v"
| "value_to_array (Val_Fixed32 v) = WriteFixed32NoTagToArray v"
| "value_to_array (Val_Fixed64 v) = WriteFixed64NoTagToArray v"
| "value_to_array (Val_SFixed32 v) = WriteSFixed32NoTagToArray v"
| "value_to_array (Val_SFixed64 v) = WriteSFixed64NoTagToArray v"
| "value_to_array (Val_Float v) = WriteFloatNoTagToArray v"
| "value_to_array (Val_Double v) = WriteDoubleNoTagToArray v"
| "value_to_array (Val_Bool v) = WriteBoolNoTagToArray v"
| "value_to_array (Val_Enum v) = WriteEnumNoTagToArray v"

fun value_size :: "wire_value \<Rightarrow> nat" where
  "value_size (Val_Int32 v) = Int32Size v"
| "value_size (Val_Int64 v) = Int64Size v"
| "value_size (Val_UInt32 v) = UInt32Size v"
| "value_size (Val_UInt64 v) = UInt64Size v"
| "value_size (Val_SInt32 v) = SInt32Size v"
| "value_size (Val_SInt64 v) = SInt64Size v"
| "value_size (Val_Fixed32 v) = kFixed32Size"
| "value_size (Val_Fixed64 v) = kFixed64Size"
| "value_size (Val_SFixed32 v) = kFixed32Size"
| "value_size (Val_SFixed64 v) = kFixed64Size"
| "value_size (Val_Float v) = kFixed32Size"
| "value_size (Val_Double v) = kFixed64Size"
| "value_size (Val_Bool v) = kBoolSize"
| "value_size (Val_Enum v) = EnumSize v"

fun value_wire_type :: "wire_value \<Rightarrow> wire_type" where
  "value_wire_type (Val_Int32 v) = WIRETYPE_VARINT"
| "value_wire_type (Val_Int64 v) = WIRETYPE_VARINT"
| "value_wire_type (Val_UInt32 v) = WIRETYPE_VARINT"
| "value_wire_type (Val_UInt64 v) = WIRETYPE_VARINT"
| "value_wire_type (Val_SInt32 v) = WIRETYPE_VARINT"
| "value_wire_type (Val_SInt64 v) = WIRETYPE_VARINT"
| "value_wire_type (Val_Fixed32 v) = WIRETYPE_FIXED32"
| "value_wire_type (Val_Fixed64 v) = WIRETYPE_FIXED64"
| "value_wire_type (Val_SFixed32 v) = WIRETYPE_FIXED32"
| "value_wire_type (Val_SFixed64 v) = WIRETYPE_FIXED64"
| "value_wire_type (Val_Float v) = WIRETYPE_FIXED32"
| "value_wire_type (Val_Double v) = WIRETYPE_FIXED64"
| "value_wire_type (Val_Bool v) = WIRETYPE_VARINT"
| "value_wire_type (Val_Enum v) = WIRETYPE_VARINT"

fun write_value :: "'s zc_output \<Rightarrow> wire_value \<Rightarrow> 's coded_output \<Rightarrow> 's coded_output run" where
  "write_value V (Val_Int32 v) output = WriteInt32NoTag V v output"
| "write_value V (Val_Int64 v) output = WriteInt64NoTag V v output"
| "write_value V (Val_UInt32 v) output = WriteUInt32NoTag V v output"
| "write_value V (Val_UInt64 v) output = WriteUInt64NoTag V v output"
| "write_value V (Val_SInt32 v) output = WriteSInt32NoTag V v output"
| "write_value V (Val_SInt64 v) output = WriteSInt64NoTag V v output"
| "write_value V (Val_Fixed32 v) output = WriteFixed32NoTag V v output"
| "write_value V (Val_Fixed64 v) output = WriteFixed64NoTag V v output"
| "write_value V (Val_SFixed32 v) output = WriteSFixed32NoTag V v output"
| "write_value V (Val_SFixed64 v) output = WriteSFixed64NoTag V v output"
| "write_value V (Val_Float v) output = WriteFloatNoTag V v output"
| "write_value V (Val_Double v) output = WriteDoubleNoTag V v output"
| "write_value V (Val_Bool v) output = WriteBoolNoTag V v output"
| "write_value V (Val_Enum v) output = WriteEnumNoTag V v output"

text \<open>Reading at the type of a given value.\<close>

fun read_like :: "'s zc_input \<Rightarrow> wire_value \<Rightarrow> 's coded_input \<Rightarrow> (wire_value option \<times> 's coded_input) run" where
  "read_like V (Val_Int32 _) input = read_as Val_Int32 (ReadPrimitive_INT32 V input)"
| "read_like V (Val_Int64 _) input = read_as Val_Int64 (ReadPrimitive_INT64 V input)"
| "read_like V (Val_UInt32 _) input = read_as Val_UInt32 (ReadPrimitive_UINT32 V input)"
| "read_like V (Val_UInt64 _) input = read_as Val_UInt64 (ReadPrimitive_UINT64 V input)"
| "read_like V (Val_SInt32 _) input = read_as Val_SInt32 (ReadPrimitive_SINT32 V input)"
| "read_like V (Val_SInt64 _) input = read_as Val_SInt64 (ReadPrimitive_SINT64 V input)"
| "read_like V (Val_Fixed32 _) input = read_as Val_Fixed32 (ReadPrimitive_FIXED32 V input)"
| "read_like V (Val_Fixed64 _) input = read_as Val_Fixed64 (ReadPrimitive_FIXED64 V input)"
| "read_like V (Val_SFixed32 _) input = read_as Val_SFixed32 (ReadPrimitive_SFIXED32 V input)"
| "read_like V (Val_SFixed64 _) input = read_as Val_SFixed64 (ReadPrimitive_SFIXED64 V input)"
| "read_like V (Val_Float _) input = read_as Val_Float (ReadPrimitive_FLOAT V input)"
| "read_like V (Val_Double _) input = read_as Val_Double (ReadPrimitive_DOUBLE V input)"
| "read_like V (Val_Bool _) input = read_as Val_Bool (ReadPrimitive_BOOL V input)"
| "read_like V (Val_Enum _) input = read_as Val_Enum (ReadPrimitive_ENUM V input)"

section \<open>Writers\<close>

text \<open>Every writer appends what the array writer of its type writes.\<close>

lemma write_value_small: "write_value V v output = write_small V (value_to_array v) output"
  by (cases v)
     (simp_all add: WriteInt32NoTag_def WriteInt32NoTagToArray_def
        WriteInt64NoTag_def WriteInt64NoTagToArray_def
        WriteUInt32NoTag_def WriteUInt32NoTagToArray_def
        WriteUInt64NoTag_def WriteUInt64NoTagToArray_def
        WriteSInt32NoTag_def WriteSInt32NoTagToArray_def
        WriteSInt64NoTag_def WriteSInt64NoTagToArray_def
        WriteFixed32NoTag_def WriteFixed32NoTagToArray_def
        WriteFixed64NoTag_def WriteFixed64NoTagToArray_def
        WriteSFixed32NoTag_def WriteSFixed32NoTagToArray_def
        WriteSFixed64NoTag_def WriteSFixed64NoTagToArray_def
        WriteFloatNoTag_def WriteFloatNoTagToArray_def
        WriteDoubleNoTag_def WriteDoubleNoTagToArray_def
        WriteBoolNoTag_def WriteBoolNoTagToArray_def
        WriteEnumNoTag_def WriteEnumNoTagToArray_def
        WriteVarint32_def WriteVarint64_def WriteVarint32SignExtended_def WriteVarint32SignExtendedToArray_def
        WriteLittleEndian32_def WriteLittleEndian64_def)

lemma read_like_value:
  assumes "coded_ok file_inv FileInputStream s" and "readable file_rest s = value_to_array v @ bs"
  shows "\<exists>t. read_like FileInputStream v s = Some (Inr (Some v, t)) \<and>
    consumes file_inv file_rest FileInputStream (length (value_to_array v)) s t"
proof (cases v)
  case (Val_Int32 x)
  with int32_in.reads_back [OF assms(1), of x bs] assms(2) show ?thesis by (auto simp: read_as_def)
next
  case (Val_Int64 x)
  with int64_in.reads_back [OF assms(1), of x bs] assms(2) show ?thesis by (auto simp: read_as_def)
next
  case (Val_UInt32 x)
  with uint32_in.reads_back [OF assms(1), of x bs] assms(2) show ?thesis by (auto simp: read_as_def)
next
  case (Val_UInt64 x)
  with uint64_in.reads_back [OF assms(1), of x bs] assms(2) show ?thesis by (auto simp: read_as_def)
next
  case (Val_SInt32 x)
  with sint32_in.reads_back [OF assms(1), of x bs] assms(2) show ?thesis by (auto simp: read_as_def)
next
  case (Val_SInt64 x)
  with sint64_in.reads_back [OF assms(1), of x bs] assms(2) show ?thesis by (auto simp: read_as_def)
next
  case (Val_Fixed32 x)
  with fixed32_in.reads_back [OF assms(1), of x bs] assms(2) show ?thesis by (auto simp: read_as_def)
next
  case (Val_Fixed64 x)
  with fixed64_in.reads_back [OF assms(1), of x bs] assms(2) show ?thesis by (auto simp: read_as_def)
next
  case (Val_SFixed32 x)
  with sfixed32_in.reads_back [OF assms(1), of x bs] assms(2) show ?thesis by (auto simp: read_as_def)
next
  case (Val_SFixed64 x)
  with sfixed64_in.reads_back [OF assms(1), of x bs] assms(2) show ?thesis by (auto simp: read_as_def)
next
  case (Val_Float x)
  with float_in.reads_back [OF assms(1), of x bs] assms(2) show ?thesis by (auto simp: read_as_def)
next
  case (Val_Double x)
  with double_in.reads_back [OF assms(1), of x bs] assms(2) show ?thesis by (auto simp: read_as_def)
next
  case (Val_Bool x)
  with bool_in.reads_back [OF assms(1), of x bs] assms(2) show ?thesis by (auto simp: read_as_def)
next
  case (Val_Enum x)
  with enum_in.reads_back [OF assms(1), of x bs] assms(2) show ?thesis by (auto simp: read_as_def)
qed

lemma length_value: "length (value_to_array v) = value_size v"
  by (cases v)
     (simp_all add: int32_in.sized
        int64_in.sized
        uint32_in.sized
        uint64_in.sized
        sint32_in.sized
        sint64_in.sized
        fixed32_in.sized
        fixed64_in.sized
        sfixed32_in.sized
        sfixed64_in.sized
        float_in.sized
        double_in.sized
        bool_in.sized
        enum_in.sized)

lemma length_value_bound: "length (value_to_array v) \<le> 10"
proof -
  have b32: "length (varint_enc (unat w)) \<le> 10" for w :: "32 word"
    using varint_enc_length [of "unat w" 4] unat_32_lt [of w] by simp
  have b64: "length (varint_enc (unat w)) \<le> 10" for w :: "64 word"
    using varint_enc_length [of "unat w" 9] unat_64_lt [of w] by simp
  show ?thesis
    by (cases v)
       (simp_all add: b32 b64 varint_enc_small array_writers WriteInt32NoTagToArray_def
        WriteInt64NoTagToArray_def
        WriteUInt32NoTagToArray_def
        WriteUInt64NoTagToArray_def
        WriteSInt32NoTagToArray_def
        WriteSInt64NoTagToArray_def
        WriteFixed32NoTagToArray_def
        WriteFixed64NoTagToArray_def
        WriteSFixed32NoTagToArray_def
        WriteSFixed64NoTagToArray_def
        WriteFloatNoTagToArray_def
        WriteDoubleNoTagToArray_def
        WriteBoolNoTagToArray_def
        WriteEnumNoTagToArray_def)
qed


section \<open>Sessions\<close>

text \<open>Writing fields, and reading the fields of given numbers and types back: number, wire type and value of each.\<close>

fun write_fields :: "'s zc_output \<Rightarrow> (int \<times> wire_value) list \<Rightarrow> 's coded_output \<Rightarrow> 's coded_output run" where
  "write_fields V [] output = return_run output"
| "write_fields V ((f, v) # fs) output =
     bind_run (WireFormatLite_WriteTag V f (value_wire_type v) output) (\<lambda>output.
     bind_run (write_value V v output) (write_fields V fs))"

definition write_session :: "byte list \<Rightarrow> (int \<times> wire_value) list \<Rightarrow> file_output \<Rightarrow> (bool \<times> file_output) run" where
  "write_session junk fs out =
     bind_run (Some (CodedOutputStream_ctor FileOutputStream out True False junk)) (\<lambda>output.
     bind_run (write_fields FileOutputStream fs output) (\<lambda>output.
     bind_run (CodedOutputStream_dtor FileOutputStream output) (\<lambda>out. Some (FileOutputStream_Flush out))))"

fun read_fields ::
    "(int \<times> wire_value) list \<Rightarrow> file_input coded_input \<Rightarrow> ((int \<times> 32 word \<times> wire_value option) list \<times> file_input coded_input) run" where
  "read_fields [] s = return_run ([], s)"
| "read_fields ((f, v) # fs) s =
     bind_run (ReadTag FileInputStream s) (\<lambda>(tag, s).
     bind_run (read_like FileInputStream v s) (\<lambda>(x, s).
     bind_run (read_fields fs s) (\<lambda>(xs, s). return_run ((GetTagFieldNumber tag, GetTagWireType tag, x) # xs, s))))"

definition read_session :: "(int \<times> wire_value) list \<Rightarrow> file_input \<Rightarrow> ((int \<times> 32 word \<times> wire_value option) list \<times> file_input) run" where
  "read_session fs i =
     bind_run (CodedInputStream_ctor FileInputStream i) (\<lambda>s.
     bind_run (read_fields fs s) (\<lambda>(xs, s).
     Some (bind_res (CodedInputStream_dtor FileInputStream s) (\<lambda>i. Inr (xs, i)))))"

definition field_bytes :: "int \<times> wire_value \<Rightarrow> byte list" where
  "field_bytes p = WireFormatLite_WriteTagToArray (fst p) (value_wire_type (snd p)) @ value_to_array (snd p)"

lemma field_bytes_pair: "field_bytes (f, v) = WireFormatLite_WriteTagToArray f (value_wire_type v) @ value_to_array v"
  by (simp add: field_bytes_def)

lemma length_tag: "length (WireFormatLite_WriteTagToArray f t) \<le> 5"
  by (simp add: WireFormatLite_WriteTagToArray_def WriteTagToArray_def length_size_prefix)

lemma write_fields_spec:
  "co_state (oa_ok patient_file co_sent) (\<lambda>a. False) oa_buffer_used s \<Longrightarrow>
   \<exists>t. write_fields FileOutputStream fs s = Some (Inr t) \<and>
     co_writes (oa_ok patient_file co_sent) (\<lambda>a. False) (oa_out co_sent) oa_buffer_used (concat (map field_bytes fs)) s t"
proof (induction fs arbitrary: s)
  case Nil
  then show ?case by (simp add: co_writes_def eps_writes_refl)
next
  case (Cons p fs)
  obtain f v where p: "p = (f, v)" by force
  have "length (WireFormatLite_WriteTagToArray f (value_wire_type v)) \<le> 16" using length_tag [of f "value_wire_type v"] by simp
  from patient_out.write_small_spec [OF Cons.prems this] obtain t where
    t: "WireFormatLite_WriteTag FileOutputStream f (value_wire_type v) s = Some (Inr t)"
      "co_writes (oa_ok patient_file co_sent) (\<lambda>a. False) (oa_out co_sent) oa_buffer_used (WireFormatLite_WriteTagToArray f (value_wire_type v)) s t"
    by (auto simp: WireFormatLite_WriteTag_def WriteTag_def WriteVarint32_def WireFormatLite_WriteTagToArray_def WriteTagToArray_def)
  have "length (value_to_array v) \<le> 16" using length_value_bound [of v] by simp
  from patient_out.write_small_spec [OF co_writes_state [OF t(2)] this] obtain u where
    u: "write_value FileOutputStream v t = Some (Inr u)"
      "co_writes (oa_ok patient_file co_sent) (\<lambda>a. False) (oa_out co_sent) oa_buffer_used (value_to_array v) t u"
    by (auto simp: write_value_small)
  from Cons.IH [OF co_writes_state [OF u(2)]] obtain w where
    w: "write_fields FileOutputStream fs u = Some (Inr w)"
      "co_writes (oa_ok patient_file co_sent) (\<lambda>a. False) (oa_out co_sent) oa_buffer_used (concat (map field_bytes fs)) u w" by blast
  from co_writes_trans [OF co_writes_trans [OF t(2) u(2)] w(2)] show ?case
    using t(1) u(1) w(1) by (simp add: p field_bytes_pair)
qed

lemma write_session_spec:
  assumes a: "oa_ok patient_file co_sent 0 a" and junk: "length junk = 32"
  shows "\<exists>b a'. write_session junk fs a = Some (Inr (b, a')) \<and> oa_ok patient_file co_sent 0 a' \<and>
    co_sent (oa_stream a') = oa_out co_sent a @ concat (map field_bytes fs)"
proof -
  from patient_out.ctor_spec [OF a junk, of False] obtain s where
    s: "CodedOutputStream_ctor FileOutputStream a True False junk = Inr s"
      "co_state (oa_ok patient_file co_sent) (\<lambda>a. False) oa_buffer_used s"
      "co_content (oa_out co_sent) oa_buffer_used s = oa_out co_sent a" "\<not> had_error (co_impl s)" by auto
  from write_fields_spec [OF s(2), of fs] obtain t where
    t: "write_fields FileOutputStream fs s = Some (Inr t)"
      "co_writes (oa_ok patient_file co_sent) (\<lambda>a. False) (oa_out co_sent) oa_buffer_used (concat (map field_bytes fs)) s t" by blast
  from patient_out.coded_dtor_spec [OF co_writes_state [OF t(2)]] obtain st where
    st: "CodedOutputStream_dtor FileOutputStream t = Some (Inr st)" "\<not> had_error (co_impl t)" "oa_ok patient_file co_sent 0 st"
      "oa_out co_sent st = co_content (oa_out co_sent) oa_buffer_used t" by auto
  have "oa_out co_sent st = oa_out co_sent a @ concat (map field_bytes fs)"
    using t(2) s(3) st(2,4) by (simp add: co_writes_def eps_writes_def)
  moreover from patient_copying.flush_sends [OF st(3)] obtain c a' where "FileOutputStream_Flush st = Inr (c, a')"
    "oa_ok patient_file co_sent 0 a'" "co_sent (oa_stream a') = oa_out co_sent st" by (auto simp: FileOutputStream_Flush_def)
  ultimately show ?thesis using s(1) t(1) st(1) by (simp add: write_session_def)
qed

lemma MakeTag_nonzero: "0 < f \<Longrightarrow> f < 2 ^ 29 \<Longrightarrow> MakeTag f t \<noteq> 0"
  using GetTagFieldNumber_MakeTag [of f t] by (auto simp: GetTagFieldNumber_def)

lemma read_tag_back:
  assumes ok: "coded_ok file_inv FileInputStream s" and nz: "tag \<noteq> 0"
    and s: "readable file_rest s = WriteTagToArray tag @ bs"
  shows "\<exists>t. ReadTag FileInputStream s = Some (Inr (tag, t)) \<and> coded_ok file_inv FileInputStream t \<and> readable file_rest t = bs \<and>
    pending file_rest t = drop (length (WriteTagToArray tag)) (pending file_rest s)"
proof -
  have w: "WriteTagToArray tag = varint_enc (unat tag)" by (simp add: WriteTagToArray_def array_writers)
  have "unat tag < 128 ^ kMaxVarintBytes" using unat_32_lt [of tag] by (simp add: kMaxVarintBytes_def)
  then have v: "varint_of kMaxVarintBytes (readable file_rest s) = Varint (unat tag) bs"
    using s varint_of_enc [of "unat tag" kMaxVarintBytes bs] by (simp add: w kMaxVarintBytes_def)
  with file_in.read_tag_no_last_tag_spec [OF ok] nz obtain u k b where
    u: "ReadTagNoLastTag FileInputStream s = Some (Inr (tag, u\<lparr>legitimate_message_end := b\<rparr>))"
      "consumes file_inv file_rest FileInputStream k s u" "readable file_rest u = bs"
    by (auto simp: takes_tag_def)
  from consumes_readable [OF u(2)] u(2,3) s have "bs = drop k (WriteTagToArray tag @ bs)" "k \<le> length (WriteTagToArray tag @ bs)"
    by (auto simp: consumes_def)
  from arg_cong [OF this(1), of length] this(2) have "k = length (WriteTagToArray tag)" by auto
  with u show ?thesis by (simp add: ReadTag_def consumes_def)
qed

lemma read_fields_spec:
  "coded_ok file_inv FileInputStream s \<Longrightarrow> readable file_rest s = concat (map field_bytes fs) @ bs \<Longrightarrow>
   list_all (\<lambda>p. 0 < fst p \<and> fst p < 2 ^ 29) fs \<Longrightarrow>
   \<exists>t. read_fields fs s = Some (Inr (map (\<lambda>p. (fst p, wire_type_value (value_wire_type (snd p)), Some (snd p))) fs, t)) \<and>
     coded_ok file_inv FileInputStream t \<and> pending file_rest t = drop (length (concat (map field_bytes fs))) (pending file_rest s)"
proof (induction fs arbitrary: s)
  case Nil
  then show ?case by simp
next
  case (Cons p fs)
  obtain f v where p: "p = (f, v)" by force
  let ?tag = "MakeTag f (value_wire_type v)"
  have f: "0 < f" "f < 2 ^ 29" using Cons.prems(3) by (simp_all add: p)
  have "readable file_rest s = WriteTagToArray ?tag @ value_to_array v @ concat (map field_bytes fs) @ bs"
    using Cons.prems(2) by (simp add: p field_bytes_pair WireFormatLite_WriteTagToArray_def)
  from read_tag_back [OF Cons.prems(1) MakeTag_nonzero [OF f] this] obtain t where
    t: "ReadTag FileInputStream s = Some (Inr (?tag, t))" "coded_ok file_inv FileInputStream t"
      "readable file_rest t = value_to_array v @ concat (map field_bytes fs) @ bs"
      "pending file_rest t = drop (length (WriteTagToArray ?tag)) (pending file_rest s)" by blast
  from read_like_value [OF t(2,3)] obtain u where
    u: "read_like FileInputStream v t = Some (Inr (Some v, u))"
      "consumes file_inv file_rest FileInputStream (length (value_to_array v)) t u" by blast
  have "coded_ok file_inv FileInputStream u" "readable file_rest u = concat (map field_bytes fs) @ bs"
    "pending file_rest u = drop (length (value_to_array v)) (pending file_rest t)"
    using u(2) consumes_readable [OF u(2)] t(3) by (simp_all add: consumes_def)
  with Cons.IH [of u] Cons.prems(3) obtain w where
    w: "read_fields fs u = Some (Inr (map (\<lambda>p. (fst p, wire_type_value (value_wire_type (snd p)), Some (snd p))) fs, w))"
      "coded_ok file_inv FileInputStream w" "pending file_rest w = drop (length (concat (map field_bytes fs))) (pending file_rest u)"
    by auto
  have "GetTagFieldNumber ?tag = f" using f by (simp add: GetTagFieldNumber_MakeTag)
  moreover have "pending file_rest w = drop (length (concat (map field_bytes (p # fs)))) (pending file_rest s)"
    using w(3) t(4) \<open>pending file_rest u = _\<close> by (simp add: p field_bytes_pair WireFormatLite_WriteTagToArray_def add.commute add.left_commute)
  ultimately show ?case using t(1) u(1) w(1,2) by (simp add: p GetTagWireType_MakeTag)
qed

lemma read_session_spec:
  assumes i: "file_inv i" "file_rest i = concat (map field_bytes fs) @ later"
    and small: "int (length (concat (map field_bytes fs))) \<le> INT_MAX" and fs: "list_all (\<lambda>p. 0 < fst p \<and> fst p < 2 ^ 29) fs"
  shows "\<exists>i'. read_session fs i =
      Some (Inr (map (\<lambda>p. (fst p, wire_type_value (value_wire_type (snd p)), Some (snd p))) fs, i')) \<and> file_inv i' \<and> file_rest i' = later"
proof -
  from file_in.ctor_spec [OF i(1)] obtain s where s: "CodedInputStream_ctor FileInputStream i = Some (Inr s)"
    "coded_ok file_inv FileInputStream s" "pending file_rest s = file_rest i" "CurrentPosition s = 0" "closest_limit s = INT_MAX" by blast
  have "length (concat (map field_bytes fs)) \<le> nat INT_MAX" using small by simp
  then have "readable file_rest s = concat (map field_bytes fs) @ take (nat INT_MAX - length (concat (map field_bytes fs))) later"
    by (simp only: readable_def s(3-5) i(2) diff_zero take_append take_all)
  from read_fields_spec [OF s(2) this fs] obtain t where
    t: "read_fields fs s = Some (Inr (map (\<lambda>p. (fst p, wire_type_value (value_wire_type (snd p)), Some (snd p))) fs, t))"
      "coded_ok file_inv FileInputStream t" "pending file_rest t = later" using s(3) i(2) by auto
  from file_in.dtor_spec [OF t(2)] t s(1) show ?thesis by (auto simp: read_session_def)
qed

section \<open>Properties\<close>

text \<open>
  C32: Fields survive the wire: any list of fields of any of the 14 types, written with \<open>WriteTag\<close> and the writer of
  the type through a \<open>CodedOutputStream\<close> to a descriptor that is slow but does not fail, and read back with \<open>ReadTag\<close> and
  \<open>ReadPrimitive\<close> from any descriptor that begins with what was sent, comes back with the same numbers, wire types
  and values; exactly the bytes of the fields are written and read, and their number is what the size functions say.
\<close>

theorem fields_roundtrip:
  assumes "oa_ok patient_file co_sent 0 a" and "length junk = 32" and "\<forall>p\<in>set fs. 0 < fst p \<and> fst p < 2 ^ 29"
    and "int (length (concat (map field_bytes fs))) \<le> INT_MAX"
  shows "\<exists>b a'. write_session junk fs a = Some (Inr (b, a')) \<and>
    co_sent (oa_stream a') = oa_out co_sent a @ concat (map field_bytes fs) \<and>
    (\<forall>i later. file_inv i \<and> file_rest i = concat (map field_bytes fs) @ later \<longrightarrow>
       (\<exists>i'. read_session fs i = Some (Inr (map (\<lambda>(f, v). (f, wire_type_value (value_wire_type v), Some v)) fs, i')) \<and>
          file_rest i' = later)) \<and>
    (\<forall>f v. length (field_bytes (f, v)) = WireFormatLite_TagSize f TYPE_INT32 + value_size v)"
proof -
  have fs: "list_all (\<lambda>p. 0 < fst p \<and> fst p < 2 ^ 29) fs" using assms(3) by (simp add: list_all_iff)
  have "map (\<lambda>(f, v). (f, wire_type_value (value_wire_type v), Some v)) fs =
      map (\<lambda>p. (fst p, wire_type_value (value_wire_type (snd p)), Some (snd p))) fs" by (simp add: case_prod_unfold)
  note eq = this
  obtain b a' where "write_session junk fs a = Some (Inr (b, a'))" "co_sent (oa_stream a') = oa_out co_sent a @ concat (map field_bytes fs)"
    using write_session_spec [OF assms(1,2), of fs] by blast
  moreover have "\<exists>i'. read_session fs i = Some (Inr (map (\<lambda>(f, v). (f, wire_type_value (value_wire_type v), Some v)) fs, i')) \<and> file_rest i' = later"
    if "file_inv i" "file_rest i = concat (map field_bytes fs) @ later" for i later
    unfolding eq using read_session_spec [OF that assms(4) fs] by blast
  moreover have "length (field_bytes (f, v)) = WireFormatLite_TagSize f TYPE_INT32 + value_size v" for f v
    using TagSize_spec [of f TYPE_INT32 "value_wire_type v"] by (simp add: field_bytes_pair length_value)
  ultimately show ?thesis by blast
qed

lemma fields_roundtrip_witness:
  "\<exists>b a' i'. write_session (replicate 32 0) [(1, Val_SInt32 (- 1)), (2, Val_Bool True)] (FileOutputStream_ctor [Takes 1, Write_fails EINTR] 0) =
      Some (Inr (b, a')) \<and> co_sent (oa_stream a') = [8, 1, 16, 1] \<and>
    read_session [(1, Val_SInt32 (- 1)), (2, Val_Bool True)] (FileInputStream_ctor [Fails EINTR, Arrives [8, 1, 16, 1, 9]] False (\<lambda>evs n. evs) 0) =
      Some (Inr ([(1, 0, Some (Val_SInt32 (- 1))), (2, 0, Some (Val_Bool True))], i')) \<and> file_rest i' = [9]"
proof -
  let ?fs = "[(1, Val_SInt32 (- 1)), (2, Val_Bool True)]"
  have b: "field_bytes (1, Val_SInt32 (- 1)) = [8, 1]" "field_bytes (2, Val_Bool True) = [16, 1]" by code_simp+
  have "oa_ok patient_file co_sent 0 (FileOutputStream_ctor [Takes 1, Write_fails EINTR] 0)" by (simp add: demo_output)
  from fields_roundtrip [where fs = ?fs and junk = "replicate 32 0", OF this] b obtain c a' where
    a': "write_session (replicate 32 0) ?fs (FileOutputStream_ctor [Takes 1, Write_fails EINTR] 0) = Some (Inr (c, a'))"
      "co_sent (oa_stream a') = [8, 1, 16, 1]"
      "\<And>i later. file_inv i \<Longrightarrow> file_rest i = [8, 1, 16, 1] @ later \<Longrightarrow>
         \<exists>i'. read_session ?fs i = Some (Inr ([(1, 0, Some (Val_SInt32 (- 1))), (2, 0, Some (Val_Bool True))], i')) \<and> file_rest i' = later"
    by (auto simp: INT_MAX_def demo_output)
  have "[8, 1, 16, 1, 9] \<noteq> ([] :: byte list)" by simp
  from a'(3) [OF demo_input(1) [OF this], of "[9]"] demo_input(2) [OF this] a'(1,2) show ?thesis by auto
qed

end
