(* ===== verification/Wire_Properties.thy ===== *)
theory Wire_Properties
  imports Wire_Session
begin

text \<open>
  The properties of the readers of packed and repeated fields, on the stream of the program.
\<close>

section \<open>Streams and fields for the witnesses\<close>

lemma demo_field: "rf_ok (RepeatedField_ctor 4 x)" "rf_ok (RepeatedField_ctor 8 x)" "elements (RepeatedField_ctor n x) = []"
  by (simp_all add: rf_ok_def RepeatedField_ctor_def Capacity_def elements_def kRepHeaderSize_def INT_MAX_def)

lemma demo_stream:
  assumes "bs \<noteq> []" and "length bs < 1000"
  obtains s where "CodedInputStream_ctor FileInputStream (FileInputStream_ctor [Fails EINTR, Arrives bs] False (\<lambda>evs n. evs) 0) = Some (Inr s)"
    and "coded_ok file_inv FileInputStream s" and "readable file_rest s = bs" and "CurrentPosition s = 0"
    and "current_limit s = INT_MAX" and "total_bytes_limit s = INT_MAX"
proof -
  from file_in.ctor_spec [OF demo_input(1) [OF assms(1)]] demo_input(2) [OF assms(1)] obtain s where
    "CodedInputStream_ctor FileInputStream (FileInputStream_ctor [Fails EINTR, Arrives bs] False (\<lambda>evs n. evs) 0) = Some (Inr s)"
    "coded_ok file_inv FileInputStream s" "pending file_rest s = bs" "CurrentPosition s = 0" "closest_limit s = INT_MAX" by auto
  moreover from this(2,5) have "current_limit s = INT_MAX" "total_bytes_limit s = INT_MAX" by (auto simp: coded_ok_def closest_limit_def)
  ultimately show thesis using that assms(2) by (simp add: readable_def INT_MAX_def)
qed

section \<open>Properties\<close>

text \<open>
  C34: A packed field of \<open>sint32\<close> is read back, whatever the pieces of the stream: behind the length the values are
  appended to the field in order, nothing of what follows is touched, and the limit at the end of the
  field is gone afterwards. The position must stay below \<open>INT_MAX\<close>, where \<open>PushLimit\<close> refuses the limit.
\<close>

theorem packed_roundtrip:
  assumes "coded_ok file_inv FileInputStream s" and "rf_ok xs"
    and "bytes = concat (map WriteSInt32NoTagToArray vs)" and "readable file_rest s = frame bytes @ bs"
    and "CurrentPosition s + int (length (frame bytes)) < INT_MAX" and "int (length (elements xs)) + int (length vs) \<le> INT_MAX"
  shows "\<exists>t w. ReadPackedPrimitive FileInputStream (ReadPrimitive_SINT32 FileInputStream) s xs = Some (Inr (True, t, w)) \<and>
    rf_ok w \<and> elements w = elements xs @ vs \<and> readable file_rest t = bs \<and> current_limit t = current_limit s"
proof -
  have "readable file_rest s = WriteVarint32ToArray (word_of_nat (length bytes)) @ bytes @ bs" using assms(4) by (simp add: frame_def)
  from sint32_in.packed_values [OF assms(1-3) this assms(5) [unfolded frame_def] assms(6)] obtain t w where
    t: "ReadPackedPrimitive FileInputStream (ReadPrimitive_SINT32 FileInputStream) s xs = Some (Inr (True, t, w))"
      "consumes file_inv file_rest FileInputStream (length (frame bytes)) s (t\<lparr>legitimate_message_end := legitimate_message_end s\<rparr>)"
      "rf_ok w" "elements w = elements xs @ vs" by (auto simp: frame_def)
  from consumes_readable [OF t(2)] consumes_limits [OF t(2)] assms(4) have "readable file_rest t = bs" "current_limit t = current_limit s" by simp_all
  with t show ?thesis by blast
qed

lemma packed_roundtrip_witness:
  "\<exists>s t w. CodedInputStream_ctor FileInputStream (FileInputStream_ctor [Fails EINTR, Arrives [2, 1, 2, 9]] False (\<lambda>evs n. evs) 0) = Some (Inr s) \<and>
    ReadPackedPrimitive FileInputStream (ReadPrimitive_SINT32 FileInputStream) s (RepeatedField_ctor 4 0) = Some (Inr (True, t, w)) \<and>
    elements w = [- 1, 1] \<and> readable file_rest t = [9]"
proof -
  obtain s where s: "CodedInputStream_ctor FileInputStream (FileInputStream_ctor [Fails EINTR, Arrives [2, 1, 2, 9]] False (\<lambda>evs n. evs) 0) = Some (Inr s)"
    "coded_ok file_inv FileInputStream s" "readable file_rest s = [2, 1, 2, 9]" "CurrentPosition s = 0"
    by (rule demo_stream [of "[2, 1, 2, 9]"]) simp_all
  have "WriteSInt32NoTagToArray (- 1) = [1]" "WriteSInt32NoTagToArray 1 = [2]" "frame [1, 2] = [2, 1, 2]" by code_simp+
  with packed_roundtrip [OF s(2) demo_field(1) [where x = 0], where bytes = "[1, 2]" and vs = "[- 1, 1]" and bs = "[9]"] s(1,3,4)
  show ?thesis by (auto simp: demo_field INT_MAX_def)
qed

text \<open>
  C35: A packed field of \<open>double\<close> below a limit is read into the memory of the field at once: when the bytes of the \<open>m\<close>
  values are there, the values with these representations are appended and what follows is left; when
  the stream ends before, the read fails and the field has the elements it had, although its memory was grown
  and overwritten.
\<close>

theorem packed_fixed_fast:
  assumes "coded_ok file_inv FileInputStream s" and "rf_ok xs" and "N = m * 8" and "int N \<le> INT_MAX"
    and "readable file_rest s = WriteVarint32ToArray (word_of_nat N) @ bs" and "int (length (elements xs)) + int m \<le> INT_MAX"
    and "current_limit s < INT_MAX" and "total_bytes_limit s = INT_MAX"
    and "CurrentPosition s + int (length (WriteVarint32ToArray (word_of_nat N))) + int N \<le> current_limit s"
  shows "\<exists>b t w. ReadPackedFixedSizePrimitive FileInputStream 8 ReadLittleEndian64FromArray (object_bytes 8) 0
        (ReadPrimitive_DOUBLE FileInputStream) s xs = Some (Inr (b, t, w)) \<and>
    (if N \<le> length bs then b \<and> readable file_rest t = drop N bs \<and>
       (\<exists>ds. length ds = m \<and> concat (map WriteDoubleNoTagToArray ds) = take N bs \<and> elements w = elements xs @ ds)
     else \<not> b \<and> elements w = elements xs)"
proof (cases "N \<le> length bs")
  case True
  obtain ds where ds: "length ds = m" "concat (map WriteDoubleNoTagToArray ds) = take N bs"
    using double_fixed.split_bytes [of m bs] True assms(3) by (auto simp: kFixed64Size_def)
  let ?bytes = "take N bs"
  have len: "length ?bytes = N" using True by simp
  have "readable file_rest s = WriteVarint32ToArray (word_of_nat (length ?bytes)) @ ?bytes @ drop N bs"
    unfolding len using assms(5) by simp
  from double_fixed.packed_fixed_elements [OF assms(1,2) ds(2) [symmetric] this, of 0] len assms(4,6) ds(1) obtain t w where
    t: "ReadPackedFixedSizePrimitive FileInputStream 8 ReadLittleEndian64FromArray (object_bytes 8) 0
        (ReadPrimitive_DOUBLE FileInputStream) s xs = Some (Inr (True, t, w))" "elements w = elements xs @ ds"
      "consumes file_inv file_rest FileInputStream (length (WriteVarint32ToArray (word_of_nat N)) + N) s t"
    by (auto simp: kFixed64Size_def)
  from consumes_readable [OF t(3)] assms(5) have "readable file_rest t = drop N bs" by simp
  with t True ds show ?thesis by auto
next
  case False
  have limit: "packed_bytes_limit t \<ge> int N"
    if "consumes file_inv file_rest FileInputStream (length (WriteVarint32ToArray (word_of_nat N))) s t" for t
    using consumes_limits [OF that] assms(7-9) by (simp add: packed_bytes_limit_def BytesUntilLimit_def BytesUntilTotalBytesLimit_def)
  have "N = m * kFixed64Size" "length bs < N" using assms(3) False by (simp_all add: kFixed64Size_def)
  from double_fixed.packed_fast_missing [OF assms(1,2,5) this(2,1) assms(4,6) limit, of 0] False show ?thesis
    by (auto simp: kFixed64Size_def)
qed

lemma packed_fixed_fast_witness:
  "\<exists>s t w. coded_ok file_inv FileInputStream s \<and>
    ReadPackedFixedSizePrimitive FileInputStream 8 ReadLittleEndian64FromArray (object_bytes 8) 0
      (ReadPrimitive_DOUBLE FileInputStream) s (RepeatedField_ctor 8 0) = Some (Inr (False, t, w)) \<and> elements w = []"
proof -
  obtain s where s: "coded_ok file_inv FileInputStream s" "readable file_rest s = [8, 1, 2]" "CurrentPosition s = 0"
    "current_limit s = INT_MAX" "total_bytes_limit s = INT_MAX"
    by (rule demo_stream [of "[8, 1, 2]"]) simp_all
  obtain old t where push: "PushLimit 100 s = (old, t)" by force
  have t: "coded_ok file_inv FileInputStream t" "CurrentPosition t = 0" "total_bytes_limit t = INT_MAX" "readable file_rest t = [8, 1, 2]"
    using push_limit_spec(2,4,5) [OF s(1) push] push_limit_spec(10) [OF s(1) push, of file_rest] s by simp_all
  have "current_limit t = 100"
    using push s(3,4) by (auto simp: PushLimit_def RecomputeBufferLimits_def Let_def INT_MAX_def split: if_splits)
  moreover have "WriteVarint32ToArray (word_of_nat 8) = [8]" by code_simp
  ultimately show ?thesis
    using packed_fixed_fast [OF t(1) demo_field(2) [where x = 0], where N = 8 and m = 1 and bs = "[1, 2]"] t
    by - (rule exI [of _ t], auto simp: demo_field INT_MAX_def)
qed

text \<open>
  C36: Repeated fields of fixed size are read straight from the buffer of the stream, without a check per element: for
  any input, any room in the field and any tag whose size is given correctly, no read leaves the buffer and no store
  leaves the memory of the field, and the elements added are the first one and the ones that stand behind their
  tags at the front of the stream; exactly their bytes are consumed.
\<close>

theorem repeated_fixed_safe:
  assumes "coded_ok file_inv FileInputStream s" and "rf_ok xs" and "int (length (elements xs)) < INT_MAX"
    and "readable file_rest s = WriteFixed32NoTagToArray v @ bs"
  shows "\<exists>t w vs. ReadRepeatedFixedSizePrimitive FileInputStream 4 (ReadPrimitive_FIXED32 FileInputStream) ReadPrimitiveFromArray_FIXED32
        (int (TagSize tag)) tag s xs = Some (Inr (True, t, w)) \<and> rf_ok w \<and> elements w = elements xs @ v # vs \<and>
    bs = concat (map (\<lambda>x. WriteTagToArray tag @ WriteFixed32NoTagToArray x) vs) @ readable file_rest t"
proof -
  have arr: "ReadPrimitiveFromArray_FIXED32 buf = (ReadLittleEndian32FromArray (take kFixed32Size buf), drop kFixed32Size buf)" for buf
    by (simp add: ReadPrimitiveFromArray_FIXED32_def kFixed32Size_def file_in.little_endian_take)
  from fixed32_fixed.repeated_fixed_elements [OF arr assms, of "int (TagSize tag)" tag] obtain t w vs where
    "ReadRepeatedFixedSizePrimitive FileInputStream 4 (ReadPrimitive_FIXED32 FileInputStream) ReadPrimitiveFromArray_FIXED32
        (int (TagSize tag)) tag s xs = Some (Inr (True, t, w))" "rf_ok w" "elements w = elements xs @ v # vs"
    "bs = tagged WriteFixed32NoTagToArray tag vs @ readable file_rest t"
    by (auto simp: TagSize_length kFixed32Size_def)
  then show ?thesis by (auto simp: tagged_def WriteTagToArray_def array_writers)
qed

lemma repeated_fixed_safe_witness:
  "\<exists>s t w vs. CodedInputStream_ctor FileInputStream (FileInputStream_ctor [Fails EINTR, Arrives [7, 0, 0, 0, 13, 8, 0, 0, 0]] False (\<lambda>evs n. evs) 0) = Some (Inr s) \<and>
    ReadRepeatedFixedSizePrimitive FileInputStream 4 (ReadPrimitive_FIXED32 FileInputStream) ReadPrimitiveFromArray_FIXED32 1 13 s
      (RepeatedField_ctor 4 0) = Some (Inr (True, t, w)) \<and> elements w = 7 # vs"
proof -
  obtain s where s: "CodedInputStream_ctor FileInputStream (FileInputStream_ctor [Fails EINTR, Arrives [7, 0, 0, 0, 13, 8, 0, 0, 0]] False (\<lambda>evs n. evs) 0) = Some (Inr s)"
    "coded_ok file_inv FileInputStream s" "readable file_rest s = [7, 0, 0, 0, 13, 8, 0, 0, 0]"
    by (rule demo_stream [of "[7, 0, 0, 0, 13, 8, 0, 0, 0]"]) simp_all
  have "WriteFixed32NoTagToArray 7 = [7, 0, 0, 0]" by code_simp
  moreover have "TagSize 13 = 1" by (simp add: TagSize_def)
  ultimately show ?thesis
    using repeated_fixed_safe [OF s(2) demo_field(1), of 0 7 "[13, 8, 0, 0, 0]" 13] s(1,3) by (auto simp: demo_field INT_MAX_def)
qed

end
