(* ===== verification/Serialize.thy ===== *)
theory Serialize
  imports Messages Wire_Session
begin

text \<open>
  What the generated serialisers (\<open>P2P_Protocol.pb.cc\<close>) have in common: a field is written through the cursor of an
  \<open>EpsCopyOutputStream\<close> if its has-bit is set, fields are written one after the other. Three functions they call are
  defined in files of the library that are not in the repository; they are the parameter \<open>runtime\<close>, and
  \<open>runtime_ok\<close> says what \<open>wire_format_lite.h\<close>, \<open>message.h\<close> and \<open>unknown_field_set.h\<close> document of them.
\<close>

section \<open>The library\<close>

text \<open>
  A serialiser takes the cursor and the stream to the cursor behind what it wrote. \<open>InternalWriteMessage\<close> is given the
  number of the field, \<open>_InternalSerialize\<close> of the message, and its cached size; \<open>MaybeComputeUnknownFieldsSize\<close>
  the size without the unknown fields, and these.
\<close>

type_synonym 's serializer = "int \<times> 's eps_copy \<Rightarrow> (int \<times> 's eps_copy) run"

record 's runtime =
  InternalWriteMessage :: "int \<Rightarrow> 's serializer \<Rightarrow> int \<Rightarrow> 's serializer"
  InternalSerializeUnknownFieldsToArray :: "unknown_field list \<Rightarrow> 's serializer"
  MaybeComputeUnknownFieldsSize :: "nat \<Rightarrow> unknown_field list \<Rightarrow> nat"

text \<open>The wire format of unknown fields.\<close>

fun unknown_field_bytes :: "unknown_field \<Rightarrow> byte list" and unknown_bytes :: "unknown_field list \<Rightarrow> byte list" where
  "unknown_field_bytes (U_varint n v) = WriteUInt64ToArray (int n) v"
| "unknown_field_bytes (U_fixed64 n v) = WriteFixed64ToArray (int n) v"
| "unknown_field_bytes (U_length_delimited n bs) =
     WireFormatLite_WriteTagToArray (int n) WIRETYPE_LENGTH_DELIMITED @ WriteVarint32ToArray (word_of_nat (length bs)) @ bs"
| "unknown_field_bytes (U_group n us) =
     WireFormatLite_WriteTagToArray (int n) WIRETYPE_START_GROUP @ unknown_bytes us @
     WireFormatLite_WriteTagToArray (int n) WIRETYPE_END_GROUP"
| "unknown_field_bytes (U_fixed32 n v) = WriteFixed32ToArray (int n) v"
| "unknown_bytes [] = []"
| "unknown_bytes (u # us) = unknown_field_bytes u @ unknown_bytes us"

text \<open>A field of the type of a message, and a serialiser that writes given bytes, up to errors of the stream.\<close>

definition delimited :: "int \<Rightarrow> byte list \<Rightarrow> byte list" where
  "delimited num bs =
     WireFormatLite_WriteTagToArray num WIRETYPE_LENGTH_DELIMITED @ WriteVarint32ToArray (word_of_nat (length bs)) @ bs"

definition puts ::
    "(nat \<Rightarrow> 's \<Rightarrow> bool) \<Rightarrow> ('s \<Rightarrow> bool) \<Rightarrow> ('s \<Rightarrow> byte list) \<Rightarrow> ('s \<Rightarrow> int) \<Rightarrow> 's serializer \<Rightarrow> byte list \<Rightarrow> bool" where
  "puts okS failedS out addr f bs \<longleftrightarrow> (\<forall>s p. eps_state okS failedS addr s p \<longrightarrow>
     (\<exists>q t. f (p, s) = Some (Inr (q, t)) \<and> eps_writes okS failedS out addr bs s p t q))"

definition runtime_ok ::
    "(nat \<Rightarrow> 's \<Rightarrow> bool) \<Rightarrow> ('s \<Rightarrow> bool) \<Rightarrow> ('s \<Rightarrow> byte list) \<Rightarrow> ('s \<Rightarrow> int) \<Rightarrow> 's runtime \<Rightarrow> bool" where
  "runtime_ok okS failedS out addr R \<longleftrightarrow>
     (\<forall>num f bs. puts okS failedS out addr f bs \<and> length bs < 2 ^ 31 \<longrightarrow>
        puts okS failedS out addr (InternalWriteMessage R num f (int (length bs))) (delimited num bs)) \<and>
     (\<forall>us. puts okS failedS out addr (InternalSerializeUnknownFieldsToArray R us) (unknown_bytes us)) \<and>
     (\<forall>n us. MaybeComputeUnknownFieldsSize R n us = n + length (unknown_bytes us))"

section \<open>Parts of the generated serialisers\<close>

text \<open>One statement after the other; a block under \<open>if (cached_has_bits & ...)\<close>; a loop over a repeated field.\<close>

definition then_put :: "'s serializer \<Rightarrow> 's serializer \<Rightarrow> 's serializer" where
  "then_put f g target = bind_run (f target) g"

definition when_set :: "'a option \<Rightarrow> ('a \<Rightarrow> 's serializer) \<Rightarrow> 's serializer" where
  "when_set v f target = (case v of None \<Rightarrow> return_run target | Some x \<Rightarrow> f x target)"

fun for_each :: "'a list \<Rightarrow> ('a \<Rightarrow> 's serializer) \<Rightarrow> 's serializer" where
  "for_each [] f target = return_run target"
| "for_each (x # xs) f target = bind_run (f x target) (for_each xs f)"

text \<open>The bytes of a \<open>std::string\<close>.\<close>

definition string_bytes :: "string \<Rightarrow> byte list" where
  "string_bytes s = map of_char s"

text \<open>The three kinds of blocks. The check of UTF-8 before a string only writes to the log.\<close>

definition put_int64 :: "'s zc_output \<Rightarrow> int \<Rightarrow> int \<Rightarrow> 's serializer" where
  "put_int64 V num v target =
     bind_run (EnsureSpace V (fst target) (snd target)) (\<lambda>target.
       return_run (eps_append V (WriteInt64ToArray num (word_of_int v)) target))"

definition put_bool :: "'s zc_output \<Rightarrow> int \<Rightarrow> bool \<Rightarrow> 's serializer" where
  "put_bool V num v target =
     bind_run (EnsureSpace V (fst target) (snd target)) (\<lambda>target.
       return_run (eps_append V (WriteBoolToArray num v) target))"

definition put_string :: "'s zc_output \<Rightarrow> 32 word \<Rightarrow> string \<Rightarrow> 's serializer" where
  "put_string V num v target = WriteStringMaybeAliased V num (string_bytes v) (fst target) (snd target)"

text \<open>
  The cached size of a message is what \<open>ByteSizeLong\<close> left there; a message is serialised right after its size has
  been computed. The size is cast to \<open>int\<close>.
\<close>

definition ToCachedSize :: "nat \<Rightarrow> int" where
  "ToCachedSize n = signed_take_bit 31 (int n)"

definition ToIntSize :: "nat \<Rightarrow> int" where
  "ToIntSize n = signed_take_bit 31 (int n)"

definition put_message :: "'s runtime \<Rightarrow> int \<Rightarrow> ('m \<Rightarrow> 's serializer) \<Rightarrow> ('m \<Rightarrow> nat) \<Rightarrow> 'm \<Rightarrow> 's serializer" where
  "put_message R num serialize ByteSizeLong m = InternalWriteMessage R num (serialize m) (ToCachedSize (ByteSizeLong m))"

definition put_unknown :: "'s runtime \<Rightarrow> unknown_field list \<Rightarrow> 's serializer" where
  "put_unknown R us target =
     (if us \<noteq> [] then InternalSerializeUnknownFieldsToArray R us target else return_run target)"

section \<open>Sizes of fields\<close>

definition when_size :: "'a option \<Rightarrow> ('a \<Rightarrow> nat) \<Rightarrow> nat" where
  "when_size v f = (case v of None \<Rightarrow> 0 | Some x \<Rightarrow> f x)"

definition string_size :: "string \<Rightarrow> nat" where
  "string_size v = 1 + StringSize (string_bytes v)"

definition int64_size :: "int \<Rightarrow> nat" where
  "int64_size v = Int64SizePlusOne (word_of_int v)"

definition message_size :: "('m \<Rightarrow> nat) \<Rightarrow> 'm \<Rightarrow> nat" where
  "message_size ByteSizeLong v = 1 + MessageSize ByteSizeLong v"

definition entries_size :: "('m \<Rightarrow> nat) \<Rightarrow> 'm list \<Rightarrow> nat" where
  "entries_size ByteSizeLong vs = 1 * length vs + sum_list (map (MessageSize ByteSizeLong) vs)"

section \<open>What the parts write\<close>

text \<open>The bytes of a field that may be absent.\<close>

definition when_bytes :: "'a option \<Rightarrow> ('a \<Rightarrow> byte list) \<Rightarrow> byte list" where
  "when_bytes v f = (case v of None \<Rightarrow> [] | Some x \<Rightarrow> f x)"

definition int64_field :: "int \<Rightarrow> int \<Rightarrow> byte list" where
  "int64_field num v = WriteInt64ToArray num (word_of_int v)"

definition string_field :: "int \<Rightarrow> string \<Rightarrow> byte list" where
  "string_field num v = delimited num (string_bytes v)"

lemma putsD:
  assumes "puts okS failedS out addr f bs" and "eps_state okS failedS addr s p"
  obtains q t where "f (p, s) = Some (Inr (q, t))" and "eps_writes okS failedS out addr bs s p t q"
    and "eps_state okS failedS addr t q"
proof -
  from assms obtain q t where "f (p, s) = Some (Inr (q, t))" "eps_writes okS failedS out addr bs s p t q"
    unfolding puts_def by blast
  with that show thesis by (simp add: eps_writes_def)
qed

lemma puts_return: "puts okS failedS out addr return_run []"
  by (auto simp: puts_def intro: eps_writes_refl)

lemma then_puts:
  assumes "puts okS failedS out addr f as" and "puts okS failedS out addr g bs"
  shows "puts okS failedS out addr (then_put f g) (as @ bs)"
  unfolding puts_def
proof (intro allI impI)
  fix s p assume "eps_state okS failedS addr s p"
  from putsD [OF assms(1) this] obtain q t where t: "f (p, s) = Some (Inr (q, t))"
    "eps_writes okS failedS out addr as s p t q" "eps_state okS failedS addr t q" .
  from putsD [OF assms(2) t(3)] obtain r u where "g (q, t) = Some (Inr (r, u))" "eps_writes okS failedS out addr bs t q u r" .
  with t show "\<exists>r u. then_put f g (p, s) = Some (Inr (r, u)) \<and> eps_writes okS failedS out addr (as @ bs) s p u r"
    by (auto simp: then_put_def intro: eps_writes_trans)
qed

lemma when_puts:
  assumes "\<And>x. v = Some x \<Longrightarrow> puts okS failedS out addr (f x) (b x)"
  shows "puts okS failedS out addr (when_set v f) (when_bytes v b)"
proof (cases v)
  case None
  then have "when_set v f = return_run" by (simp add: fun_eq_iff when_set_def)
  with None show ?thesis by (simp add: when_bytes_def puts_return)
next
  case (Some x)
  then have "when_set v f = f x" by (simp add: fun_eq_iff when_set_def)
  with Some assms show ?thesis by (simp add: when_bytes_def)
qed

lemma for_each_puts:
  assumes "\<And>x. x \<in> set xs \<Longrightarrow> puts okS failedS out addr (f x) (b x)"
  shows "puts okS failedS out addr (for_each xs f) (concat (map b xs))"
  using assms
proof (induction xs)
  case Nil
  have "for_each [] f = return_run" by (simp add: fun_eq_iff)
  then show ?case by (simp add: puts_return)
next
  case (Cons x xs)
  have "for_each (x # xs) f = then_put (f x) (for_each xs f)" by (simp add: fun_eq_iff then_put_def)
  with Cons show ?case by (simp add: then_puts)
qed

lemma tag_or_2: "push_bit 3 num OR 2 = MakeTag (uint num) WIRETYPE_LENGTH_DELIMITED" for num :: "32 word"
  by (simp add: MakeTag_def)

lemma UnsafeWriteSize_varint: "UnsafeWriteSize v = WriteVarint32ToArray v" for v :: "32 word"
  by (simp add: UnsafeWriteSize_enc WriteVarint32ToArray_def UnsafeVarint_enc)

lemma short_size:
  assumes "n < 128"
  shows "WriteVarint32ToArray (word_of_nat n) = [word_of_nat n]"
proof -
  have "unat (word_of_nat n :: 32 word) = n" using assms by (simp add: unat_of_nat take_bit_nat_eq_self)
  with assms show ?thesis by (simp add: WriteVarint32ToArray_def UnsafeVarint_enc varint_enc_small)
qed

context zero_copy_output
begin

lemma put_small:
  assumes "length bs \<le> 16"
  shows "puts ok failed out addr (\<lambda>target. bind_run (EnsureSpace V (fst target) (snd target)) (\<lambda>target.
    return_run (eps_append V bs target))) bs"
  unfolding puts_def
proof (intro allI impI)
  fix s p assume "eps_state ok failed addr s p"
  from write_after_space [OF this assms] obtain q t where "EnsureSpace V p s = Some (Inr (q, t))"
    "eps_writes ok failed out addr bs s p (eps_put V q bs t) (q + int (length bs))" by blast
  then show "\<exists>q u. bind_run (EnsureSpace V (fst (p, s)) (snd (p, s))) (\<lambda>target. return_run (eps_append V bs target)) = Some (Inr (q, u)) \<and>
      eps_writes ok failed out addr bs s p u q" by simp
qed

lemma append_writes:
  assumes st: "eps_state ok failed addr s p" and as: "p + int (length as) \<le> eps_end s + 16"
    and bs: "p + int (length as) + int (length bs) \<le> eps_end s + 16"
  shows "eps_writes ok failed out addr (as @ bs) s p
      (eps_put V (p + int (length as)) bs (eps_put V p as s)) (p + int (length as) + int (length bs))"
    and "eps_end (eps_put V (p + int (length as)) bs (eps_put V p as s)) = eps_end s"
proof -
  note a = eps_put_writes [OF st as]
  have "eps_state ok failed addr (eps_put V p as s) (p + int (length as))" using a(1) by (simp add: eps_writes_def)
  note b = eps_put_writes [OF this, of bs, unfolded a(2), OF bs]
  from eps_writes_trans [OF a(1) b(1)] show "eps_writes ok failed out addr (as @ bs) s p
      (eps_put V (p + int (length as)) bs (eps_put V p as s)) (p + int (length as) + int (length bs))" .
  from a(2) b(2) show "eps_end (eps_put V (p + int (length as)) bs (eps_put V p as s)) = eps_end s" by simp
qed

lemma write_string_long:
  assumes st: "eps_state ok failed addr s p"
  shows "\<exists>q t. WriteStringMaybeAliasedOutline V num str p s = Some (Inr (q, t)) \<and>
    eps_writes ok failed out addr (WriteTagToArray (push_bit 3 num OR 2) @ WriteVarint32ToArray (word_of_nat (length str)) @ str) s p t q"
proof -
  let ?tag = "WriteTagToArray (push_bit 3 num OR 2)" let ?size = "WriteVarint32ToArray (word_of_nat (length str))"
  from st obtain q t where t: "EnsureSpace V p s = Some (Inr (q, t))" "eps_writes ok failed out addr [] s p t q" "q \<le> eps_end t"
    by (rule ensure_space_spec)
  have stt: "eps_state ok failed addr t q" using t(2) by (simp add: eps_writes_def)
  have "int (length ?tag) \<le> 5" "int (length ?size) \<le> 5" using length_size_prefix by (simp_all add: WriteTagToArray_def)
  with t(3) have "q + int (length ?tag) \<le> eps_end t + 16" "q + int (length ?tag) + int (length ?size) \<le> eps_end t + 16" by linarith+
  from append_writes(1) [OF stt this] eps_writes_trans [OF t(2)] obtain r u where
    u: "(r, u) = (q + int (length ?tag) + int (length ?size), eps_put V (q + int (length ?tag)) ?size (eps_put V q ?tag t))"
      "eps_writes ok failed out addr (?tag @ ?size) s p u r" by force
  then have stu: "eps_state ok failed addr u r" by (simp add: eps_writes_def)
  from write_raw_spec [OF this] obtain l v where v: "eps_WriteRaw V str r u = Some (Inr (l, v))"
    "eps_writes ok failed out addr str u r v l" by blast
  have "\<not> aliasing_enabled u" using stu by (simp add: eps_state_def)
  then have "WriteStringMaybeAliasedOutline V num str p s = Some (Inr (l, v))"
    using t(1) u(1) v(1) by (simp add: WriteStringMaybeAliasedOutline_def WriteLengthDelim_def eps_WriteTag_def Let_def
        WriteTagToArray_def WriteVarint32ToArray_def UnsafeWriteSize_varint eps_WriteRawMaybeAliased_def)
  with eps_writes_trans [OF u(2) v(2)] show ?thesis by auto
qed

lemma write_string_short:
  assumes st: "eps_state ok failed addr s p" and short: "\<not> string_outline num str p s"
  shows "eps_writes ok failed out addr (WriteTagToArray (push_bit 3 num OR 2) @ WriteVarint32ToArray (word_of_nat (length str)) @ str) s p
    (snd (write_short_string V num str (p, s))) (fst (write_short_string V num str (p, s)))"
proof -
  let ?tag = "WriteTagToArray (push_bit 3 num OR 2)" let ?size = "[word_of_nat (length str)] :: byte list"
  have "length ?tag = TagSize (push_bit 3 num)"
    by (simp add: WriteTagToArray_def WriteVarint32ToArray_def UnsafeVarint_enc TagSize_length length_varint_enc_eighth [OF push_div_8, of num WIRETYPE_LENGTH_DELIMITED, simplified])
  with short have str: "length str < 128" and fit: "p + int (length ?tag) + 1 + int (length str) \<le> eps_end s + 16"
    by (auto simp: string_outline_def)
  from fit have "p + int (length ?tag) \<le> eps_end s + 16" "p + int (length ?tag) + int (length ?size) \<le> eps_end s + 16" by simp_all
  note two = append_writes [OF st this]
  let ?t = "eps_put V (p + int (length ?tag)) ?size (eps_put V p ?tag s)"
  have "eps_state ok failed addr ?t (p + int (length ?tag) + int (length ?size))" using two(1) by (simp add: eps_writes_def)
  moreover have "p + int (length ?tag) + int (length ?size) + int (length str) \<le> eps_end ?t + 16" using fit two(2) by simp
  ultimately have "eps_writes ok failed out addr str ?t (p + int (length ?tag) + int (length ?size))
      (eps_put V (p + int (length ?tag) + int (length ?size)) str ?t) (p + int (length ?tag) + int (length ?size) + int (length str))"
    by (rule eps_put_writes(1))
  from eps_writes_trans [OF two(1) this] show ?thesis
    by (simp add: short_size [OF str, unfolded WriteVarint32ToArray_def] write_short_string_def WriteTagToArray_def
        WriteVarint32ToArray_def)
qed

lemma put_string_puts: "puts ok failed out addr (put_string V num v) (string_field (uint num) v)"
  unfolding puts_def
proof (intro allI impI)
  fix s p assume st: "eps_state ok failed addr s p"
  have field: "string_field (uint num) v = WriteTagToArray (push_bit 3 num OR 2) @
      WriteVarint32ToArray (word_of_nat (length (string_bytes v))) @ string_bytes v"
    by (simp only: string_field_def delimited_def WireFormatLite_WriteTagToArray_def tag_or_2)
  show "\<exists>q t. put_string V num v (p, s) = Some (Inr (q, t)) \<and> eps_writes ok failed out addr (string_field (uint num) v) s p t q"
  proof (cases "string_outline num (string_bytes v) p s")
    case True
    with write_string_long [OF st, of num "string_bytes v"] show ?thesis
      by (simp add: put_string_def WriteStringMaybeAliased_def field)
  next
    case False
    from write_string_short [OF st False] False show ?thesis
      by (cases "write_short_string V num (string_bytes v) (p, s)") (simp add: put_string_def WriteStringMaybeAliased_def field)
  qed
qed

lemma length_varints:
  "length (WireFormatLite_WriteTagToArray num t) \<le> 5" "length (WriteVarint64ToArray v) \<le> 10"
proof -
  show "length (WireFormatLite_WriteTagToArray num t) \<le> 5"
    using length_size_prefix by (simp add: WireFormatLite_WriteTagToArray_def WriteTagToArray_def)
  have "unat v < 2 ^ 64" using unsigned_less [of v] by simp
  then have "unat v < 128 ^ Suc 9" by simp
  from varint_enc_length [OF this] show "length (WriteVarint64ToArray v) \<le> 10"
    by (simp add: WriteVarint64ToArray_def UnsafeVarint_enc)
qed

lemma put_int64_puts: "puts ok failed out addr (put_int64 V num v) (int64_field num v)"
proof -
  have "length (int64_field num v) \<le> 16"
    using length_varints(1) [of num WIRETYPE_VARINT] length_varints(2) [of "word_of_int v"]
    by (simp add: int64_field_def WriteInt64ToArray_def WriteInt64NoTagToArray_def)
  from put_small [OF this] show ?thesis unfolding put_int64_def int64_field_def .
qed

lemma put_bool_puts: "puts ok failed out addr (put_bool V num v) (WriteBoolToArray num v)"
proof -
  have "length (WriteBoolToArray num v) \<le> 16"
    using length_varints(1) [of num WIRETYPE_VARINT] length_size_prefix [of 0] length_size_prefix [of 1]
    by (simp add: WriteBoolToArray_def WriteBoolNoTagToArray_def)
  from put_small [OF this] show ?thesis unfolding put_bool_def .
qed

end

lemma put_message_puts:
  assumes "runtime_ok okS failedS out addr R" and "length bs < 2 ^ 31" and "ByteSizeLong m = length bs"
    and "puts okS failedS out addr (serialize m) bs"
  shows "puts okS failedS out addr (put_message R num serialize ByteSizeLong m) (delimited num bs)"
proof -
  have "ToCachedSize (length bs) = int (length bs)"
    using assms(2) by (simp add: ToCachedSize_def signed_take_bit_int_eq_self_iff)
  with assms show ?thesis by (simp add: put_message_def runtime_ok_def)
qed

lemma put_unknown_puts:
  assumes "runtime_ok okS failedS out addr R"
  shows "puts okS failedS out addr (put_unknown R us) (unknown_bytes us)"
proof (cases "us = []")
  case True
  then have "put_unknown R us = return_run" by (simp add: fun_eq_iff put_unknown_def)
  with True show ?thesis by (simp add: puts_return)
next
  case False
  then have "put_unknown R us = InternalSerializeUnknownFieldsToArray R us" by (simp add: fun_eq_iff put_unknown_def)
  with assms show ?thesis by (simp add: runtime_ok_def)
qed

section \<open>Sizes\<close>

lemma length_tag_1:
  assumes "0 < num" and "num < 16"
  shows "length (WireFormatLite_WriteTagToArray num t) = 1"
proof -
  have "unat (word_of_int (8 * num) :: 32 word) < 128"
    using assms by (simp only: unsigned_of_int) (simp add: take_bit_int_eq_self)
  moreover have "push_bit 3 (word_of_int num :: 32 word) = word_of_int (8 * num)" by (simp add: push_bit_eq_mult)
  ultimately have "unat (push_bit 3 (word_of_int num :: 32 word)) < 128" by simp
  then show ?thesis
    using TagSize_spec [of num TYPE_INT32 t] by (simp add: WireFormatLite_TagSize_def kTagTypeBits_def VarintSize32_length varint_enc_small)
qed

lemma length_delimited:
  "0 < num \<Longrightarrow> num < 16 \<Longrightarrow> length (delimited num bs) = 1 + LengthDelimitedSize (length bs)"
  by (simp add: delimited_def length_tag_1 LengthDelimitedSize_def VarintSize32_length WriteVarint32ToArray_def UnsafeVarint_enc)

lemma length_string_field: "0 < num \<Longrightarrow> num < 16 \<Longrightarrow> length (string_field num v) = string_size v"
  by (simp add: string_size_def string_field_def length_delimited StringSize_def)

lemma length_int64_field: "0 < num \<Longrightarrow> num < 16 \<Longrightarrow> length (int64_field num v) = int64_size v"
  by (simp add: int64_size_def int64_field_def WriteInt64ToArray_def length_tag_1 Int64SizePlusOne_def VarintSize64_length
      WriteInt64NoTagToArray_def WriteVarint64ToArray_def UnsafeVarint_enc)

lemma length_bool_field: "0 < num \<Longrightarrow> num < 16 \<Longrightarrow> length (WriteBoolToArray num v) = 1 + 1"
  by (cases v) (simp_all add: WriteBoolToArray_def length_tag_1 WriteBoolNoTagToArray_def WriteVarint32ToArray_def UnsafeVarint_enc varint_enc_small)

lemma entries_size:
  assumes "0 < num" and "num < 16" and "\<And>m. ByteSizeLong m = length (b m)"
  shows "length (concat (map (\<lambda>m. delimited num (b m)) ms)) = entries_size ByteSizeLong ms"
  using assms by (induction ms) (simp_all add: entries_size_def MessageSize_def length_delimited)

lemma runtime_size: "runtime_ok okS failedS out addr R \<Longrightarrow> MaybeComputeUnknownFieldsSize R n us = n + length (unknown_bytes us)"
  by (simp add: runtime_ok_def)

lemmas field_lengths = length_string_field length_int64_field length_bool_field length_delimited

section \<open>A runtime\<close>

text \<open>An instance of the parameter: the tag and the size, then the message; the unknown fields as raw bytes.\<close>

definition plain_runtime :: "'s zc_output \<Rightarrow> 's runtime" where
  "plain_runtime V = \<lparr>InternalWriteMessage = \<lambda>num serialize cached_size.
       then_put (\<lambda>target. bind_run (EnsureSpace V (fst target) (snd target)) (\<lambda>target.
         return_run (eps_append V (WireFormatLite_WriteTagToArray num WIRETYPE_LENGTH_DELIMITED @
           WriteVarint32ToArray (word_of_int cached_size)) target))) serialize,
     InternalSerializeUnknownFieldsToArray = \<lambda>us target. eps_WriteRaw V (unknown_bytes us) (fst target) (snd target),
     MaybeComputeUnknownFieldsSize = \<lambda>n us. n + length (unknown_bytes us)\<rparr>"

context zero_copy_output
begin

lemma plain_runtime_ok: "runtime_ok ok failed out addr (plain_runtime V)"
  unfolding runtime_ok_def
proof (intro conjI allI impI, elim conjE)
  fix num f and bs :: "byte list"
  assume f: "puts ok failed out addr f bs"
  have "length (WireFormatLite_WriteTagToArray num WIRETYPE_LENGTH_DELIMITED @ WriteVarint32ToArray (word_of_nat (length bs))) \<le> 16"
    using length_varints(1) [of num WIRETYPE_LENGTH_DELIMITED] length_size_prefix [of "word_of_nat (length bs)"] by simp
  from then_puts [OF put_small [OF this] f]
  show "puts ok failed out addr (InternalWriteMessage (plain_runtime V) num f (int (length bs))) (delimited num bs)"
    by (simp add: plain_runtime_def delimited_def del: length_append)
next
  fix us
  have "\<exists>q t. eps_WriteRaw V (unknown_bytes us) p s = Some (Inr (q, t)) \<and> eps_writes ok failed out addr (unknown_bytes us) s p t q"
    if "eps_state ok failed addr s p" for s p
    using write_raw_spec [OF that] .
  then show "puts ok failed out addr (InternalSerializeUnknownFieldsToArray (plain_runtime V) us) (unknown_bytes us)"
    by (simp add: plain_runtime_def puts_def)
next
  fix n us show "MaybeComputeUnknownFieldsSize (plain_runtime V) n us = n + length (unknown_bytes us)"
    by (simp add: plain_runtime_def)
qed

lemma put_string_at: "uint num = k \<Longrightarrow> puts ok failed out addr (put_string V num v) (string_field k v)"
  using put_string_puts [of num v] by simp

end

end
