(* ===== verification/Wire_Messages.thy ===== *)
theory Wire_Messages
  imports Serialize
begin

text \<open>
  The serialisers of the messages of \<open>P2P_Protocol.proto\<close> (\<open>P2P_Protocol.pb.cc\<close>): for every class
  \<open>_InternalSerialize\<close>, \<open>RequiredFieldsByteSizeFallback\<close> where it has one, and \<open>ByteSizeLong\<close>. The bytes of a
  message are specified beside them by the wire format: its fields in the order of their numbers, then the unknown ones.
  The lemmas of a class say that \<open>ByteSizeLong\<close> is the number of these bytes and that \<open>_InternalSerialize\<close>
  writes them, over any stream and at any position of the cursor in its buffers.
\<close>

section \<open>AddFileRequest\<close>

definition AddFileRequest_bytes :: "AddFileRequest \<Rightarrow> byte list" where
  "AddFileRequest_bytes m =
     when_bytes (afq_filenamehash m) (int64_field 1) @
     when_bytes (afq_sourcehostname m) (string_field 2) @
     when_bytes (afq_sourceport m) (string_field 3) @
     unknown_bytes (afq_unknown m)"

definition AddFileRequest_RequiredFieldsByteSizeFallback :: "AddFileRequest \<Rightarrow> nat" where
  "AddFileRequest_RequiredFieldsByteSizeFallback m =
     0 + when_size (afq_sourcehostname m) string_size +
     when_size (afq_sourceport m) string_size +
     when_size (afq_filenamehash m) int64_size"

definition AddFileRequest_ByteSizeLong :: "'s runtime \<Rightarrow> AddFileRequest \<Rightarrow> nat" where
  "AddFileRequest_ByteSizeLong R m = MaybeComputeUnknownFieldsSize R
     (0 + (if afq_filenamehash m \<noteq> None \<and> afq_sourcehostname m \<noteq> None \<and> afq_sourceport m \<noteq> None
      then string_size (AddFileRequest_sourcehostname m) + string_size (AddFileRequest_sourceport m) + int64_size (AddFileRequest_filenamehash m)
      else AddFileRequest_RequiredFieldsByteSizeFallback m))
     (afq_unknown m)"

definition AddFileRequest_InternalSerialize :: "'s zc_output \<Rightarrow> 's runtime \<Rightarrow> AddFileRequest \<Rightarrow> 's serializer" where
  "AddFileRequest_InternalSerialize V R m =
     then_put (when_set (afq_filenamehash m) (put_int64 V 1)) (
     then_put (when_set (afq_sourcehostname m) (put_string V 2)) (
     then_put (when_set (afq_sourceport m) (put_string V 3)) (
     put_unknown R (afq_unknown m))))"

section \<open>LookupFileRequest\<close>

definition LookupFileRequest_bytes :: "LookupFileRequest \<Rightarrow> byte list" where
  "LookupFileRequest_bytes m =
     when_bytes (lfq_filenamehash m) (int64_field 1) @
     when_bytes (lfq_sourcehostname m) (string_field 2) @
     when_bytes (lfq_sourceport m) (string_field 3) @
     unknown_bytes (lfq_unknown m)"

definition LookupFileRequest_RequiredFieldsByteSizeFallback :: "LookupFileRequest \<Rightarrow> nat" where
  "LookupFileRequest_RequiredFieldsByteSizeFallback m =
     0 + when_size (lfq_sourcehostname m) string_size +
     when_size (lfq_sourceport m) string_size +
     when_size (lfq_filenamehash m) int64_size"

definition LookupFileRequest_ByteSizeLong :: "'s runtime \<Rightarrow> LookupFileRequest \<Rightarrow> nat" where
  "LookupFileRequest_ByteSizeLong R m = MaybeComputeUnknownFieldsSize R
     (0 + (if lfq_filenamehash m \<noteq> None \<and> lfq_sourcehostname m \<noteq> None \<and> lfq_sourceport m \<noteq> None
      then string_size (LookupFileRequest_sourcehostname m) + string_size (LookupFileRequest_sourceport m) + int64_size (LookupFileRequest_filenamehash m)
      else LookupFileRequest_RequiredFieldsByteSizeFallback m))
     (lfq_unknown m)"

definition LookupFileRequest_InternalSerialize :: "'s zc_output \<Rightarrow> 's runtime \<Rightarrow> LookupFileRequest \<Rightarrow> 's serializer" where
  "LookupFileRequest_InternalSerialize V R m =
     then_put (when_set (lfq_filenamehash m) (put_int64 V 1)) (
     then_put (when_set (lfq_sourcehostname m) (put_string V 2)) (
     then_put (when_set (lfq_sourceport m) (put_string V 3)) (
     put_unknown R (lfq_unknown m))))"

section \<open>DeleteFileRequest\<close>

definition DeleteFileRequest_bytes :: "DeleteFileRequest \<Rightarrow> byte list" where
  "DeleteFileRequest_bytes m =
     when_bytes (dfq_filenamehash m) (int64_field 1) @
     when_bytes (dfq_sourcehostname m) (string_field 2) @
     when_bytes (dfq_sourceport m) (string_field 3) @
     unknown_bytes (dfq_unknown m)"

definition DeleteFileRequest_RequiredFieldsByteSizeFallback :: "DeleteFileRequest \<Rightarrow> nat" where
  "DeleteFileRequest_RequiredFieldsByteSizeFallback m =
     0 + when_size (dfq_sourcehostname m) string_size +
     when_size (dfq_sourceport m) string_size +
     when_size (dfq_filenamehash m) int64_size"

definition DeleteFileRequest_ByteSizeLong :: "'s runtime \<Rightarrow> DeleteFileRequest \<Rightarrow> nat" where
  "DeleteFileRequest_ByteSizeLong R m = MaybeComputeUnknownFieldsSize R
     (0 + (if dfq_filenamehash m \<noteq> None \<and> dfq_sourcehostname m \<noteq> None \<and> dfq_sourceport m \<noteq> None
      then string_size (DeleteFileRequest_sourcehostname m) + string_size (DeleteFileRequest_sourceport m) + int64_size (DeleteFileRequest_filenamehash m)
      else DeleteFileRequest_RequiredFieldsByteSizeFallback m))
     (dfq_unknown m)"

definition DeleteFileRequest_InternalSerialize :: "'s zc_output \<Rightarrow> 's runtime \<Rightarrow> DeleteFileRequest \<Rightarrow> 's serializer" where
  "DeleteFileRequest_InternalSerialize V R m =
     then_put (when_set (dfq_filenamehash m) (put_int64 V 1)) (
     then_put (when_set (dfq_sourcehostname m) (put_string V 2)) (
     then_put (when_set (dfq_sourceport m) (put_string V 3)) (
     put_unknown R (dfq_unknown m))))"

section \<open>LookupFileResponse\<close>

definition LookupFileResponse_bytes :: "LookupFileResponse \<Rightarrow> byte list" where
  "LookupFileResponse_bytes m =
     when_bytes (lfp_ifexists m) (WriteBoolToArray 1) @
     when_bytes (lfp_successorhostname m) (string_field 2) @
     when_bytes (lfp_successorport m) (string_field 3) @
     when_bytes (lfp_ownerhostname m) (string_field 4) @
     when_bytes (lfp_ownerport m) (string_field 5) @
     unknown_bytes (lfp_unknown m)"

definition LookupFileResponse_RequiredFieldsByteSizeFallback :: "LookupFileResponse \<Rightarrow> nat" where
  "LookupFileResponse_RequiredFieldsByteSizeFallback m =
     0 + when_size (lfp_successorhostname m) string_size +
     when_size (lfp_successorport m) string_size +
     when_size (lfp_ifexists m) (\<lambda>v. 1 + 1)"

definition LookupFileResponse_ByteSizeLong :: "'s runtime \<Rightarrow> LookupFileResponse \<Rightarrow> nat" where
  "LookupFileResponse_ByteSizeLong R m = MaybeComputeUnknownFieldsSize R
     (0 + (if lfp_ifexists m \<noteq> None \<and> lfp_successorhostname m \<noteq> None \<and> lfp_successorport m \<noteq> None
      then string_size (LookupFileResponse_successorhostname m) + string_size (LookupFileResponse_successorport m) + (1 + 1)
      else LookupFileResponse_RequiredFieldsByteSizeFallback m) +
     when_size (lfp_ownerhostname m) string_size +
     when_size (lfp_ownerport m) string_size)
     (lfp_unknown m)"

definition LookupFileResponse_InternalSerialize :: "'s zc_output \<Rightarrow> 's runtime \<Rightarrow> LookupFileResponse \<Rightarrow> 's serializer" where
  "LookupFileResponse_InternalSerialize V R m =
     then_put (when_set (lfp_ifexists m) (put_bool V 1)) (
     then_put (when_set (lfp_successorhostname m) (put_string V 2)) (
     then_put (when_set (lfp_successorport m) (put_string V 3)) (
     then_put (when_set (lfp_ownerhostname m) (put_string V 4)) (
     then_put (when_set (lfp_ownerport m) (put_string V 5)) (
     put_unknown R (lfp_unknown m))))))"

section \<open>FileInfoResponse\<close>

definition FileInfoResponse_bytes :: "FileInfoResponse \<Rightarrow> byte list" where
  "FileInfoResponse_bytes m =
     when_bytes (fip_ownerhostname m) (string_field 1) @
     when_bytes (fip_ownerport m) (string_field 2) @
     unknown_bytes (fip_unknown m)"

definition FileInfoResponse_RequiredFieldsByteSizeFallback :: "FileInfoResponse \<Rightarrow> nat" where
  "FileInfoResponse_RequiredFieldsByteSizeFallback m =
     0 + when_size (fip_ownerhostname m) string_size +
     when_size (fip_ownerport m) string_size"

definition FileInfoResponse_ByteSizeLong :: "'s runtime \<Rightarrow> FileInfoResponse \<Rightarrow> nat" where
  "FileInfoResponse_ByteSizeLong R m = MaybeComputeUnknownFieldsSize R
     (0 + (if fip_ownerhostname m \<noteq> None \<and> fip_ownerport m \<noteq> None
      then string_size (FileInfoResponse_ownerhostname m) + string_size (FileInfoResponse_ownerport m)
      else FileInfoResponse_RequiredFieldsByteSizeFallback m))
     (fip_unknown m)"

definition FileInfoResponse_InternalSerialize :: "'s zc_output \<Rightarrow> 's runtime \<Rightarrow> FileInfoResponse \<Rightarrow> 's serializer" where
  "FileInfoResponse_InternalSerialize V R m =
     then_put (when_set (fip_ownerhostname m) (put_string V 1)) (
     then_put (when_set (fip_ownerport m) (put_string V 2)) (
     put_unknown R (fip_unknown m)))"

section \<open>DownloadRequest\<close>

definition DownloadRequest_bytes :: "DownloadRequest \<Rightarrow> byte list" where
  "DownloadRequest_bytes m =
     when_bytes (dlq_filenamehash m) (int64_field 1) @
     when_bytes (dlq_sourcehostname m) (string_field 2) @
     when_bytes (dlq_sourceport m) (string_field 3) @
     unknown_bytes (dlq_unknown m)"

definition DownloadRequest_RequiredFieldsByteSizeFallback :: "DownloadRequest \<Rightarrow> nat" where
  "DownloadRequest_RequiredFieldsByteSizeFallback m =
     0 + when_size (dlq_sourcehostname m) string_size +
     when_size (dlq_sourceport m) string_size +
     when_size (dlq_filenamehash m) int64_size"

definition DownloadRequest_ByteSizeLong :: "'s runtime \<Rightarrow> DownloadRequest \<Rightarrow> nat" where
  "DownloadRequest_ByteSizeLong R m = MaybeComputeUnknownFieldsSize R
     (0 + (if dlq_filenamehash m \<noteq> None \<and> dlq_sourcehostname m \<noteq> None \<and> dlq_sourceport m \<noteq> None
      then string_size (DownloadRequest_sourcehostname m) + string_size (DownloadRequest_sourceport m) + int64_size (DownloadRequest_filenamehash m)
      else DownloadRequest_RequiredFieldsByteSizeFallback m))
     (dlq_unknown m)"

definition DownloadRequest_InternalSerialize :: "'s zc_output \<Rightarrow> 's runtime \<Rightarrow> DownloadRequest \<Rightarrow> 's serializer" where
  "DownloadRequest_InternalSerialize V R m =
     then_put (when_set (dlq_filenamehash m) (put_int64 V 1)) (
     then_put (when_set (dlq_sourcehostname m) (put_string V 2)) (
     then_put (when_set (dlq_sourceport m) (put_string V 3)) (
     put_unknown R (dlq_unknown m))))"

section \<open>JoinRequest\<close>

definition JoinRequest_bytes :: "JoinRequest \<Rightarrow> byte list" where
  "JoinRequest_bytes m =
     when_bytes (jnq_newhostname m) (string_field 1) @
     when_bytes (jnq_newport m) (string_field 2) @
     when_bytes (jnq_newhostnamehash m) (int64_field 3) @
     unknown_bytes (jnq_unknown m)"

definition JoinRequest_RequiredFieldsByteSizeFallback :: "JoinRequest \<Rightarrow> nat" where
  "JoinRequest_RequiredFieldsByteSizeFallback m =
     0 + when_size (jnq_newhostname m) string_size +
     when_size (jnq_newport m) string_size +
     when_size (jnq_newhostnamehash m) int64_size"

definition JoinRequest_ByteSizeLong :: "'s runtime \<Rightarrow> JoinRequest \<Rightarrow> nat" where
  "JoinRequest_ByteSizeLong R m = MaybeComputeUnknownFieldsSize R
     (0 + (if jnq_newhostname m \<noteq> None \<and> jnq_newport m \<noteq> None \<and> jnq_newhostnamehash m \<noteq> None
      then string_size (JoinRequest_newhostname m) + string_size (JoinRequest_newport m) + int64_size (JoinRequest_newhostnamehash m)
      else JoinRequest_RequiredFieldsByteSizeFallback m))
     (jnq_unknown m)"

definition JoinRequest_InternalSerialize :: "'s zc_output \<Rightarrow> 's runtime \<Rightarrow> JoinRequest \<Rightarrow> 's serializer" where
  "JoinRequest_InternalSerialize V R m =
     then_put (when_set (jnq_newhostname m) (put_string V 1)) (
     then_put (when_set (jnq_newport m) (put_string V 2)) (
     then_put (when_set (jnq_newhostnamehash m) (put_int64 V 3)) (
     put_unknown R (jnq_unknown m))))"

section \<open>RouteTableEntry\<close>

definition RouteTableEntry_bytes :: "RouteTableEntry \<Rightarrow> byte list" where
  "RouteTableEntry_bytes m =
     when_bytes (rte_hostname m) (string_field 1) @
     when_bytes (rte_port m) (string_field 2) @
     when_bytes (rte_hostnamehash m) (int64_field 3) @
     unknown_bytes (rte_unknown m)"

definition RouteTableEntry_RequiredFieldsByteSizeFallback :: "RouteTableEntry \<Rightarrow> nat" where
  "RouteTableEntry_RequiredFieldsByteSizeFallback m =
     0 + when_size (rte_hostname m) string_size +
     when_size (rte_port m) string_size +
     when_size (rte_hostnamehash m) int64_size"

definition RouteTableEntry_ByteSizeLong :: "'s runtime \<Rightarrow> RouteTableEntry \<Rightarrow> nat" where
  "RouteTableEntry_ByteSizeLong R m = MaybeComputeUnknownFieldsSize R
     (0 + (if rte_hostname m \<noteq> None \<and> rte_port m \<noteq> None \<and> rte_hostnamehash m \<noteq> None
      then string_size (RouteTableEntry_hostname m) + string_size (RouteTableEntry_port m) + int64_size (RouteTableEntry_hostnamehash m)
      else RouteTableEntry_RequiredFieldsByteSizeFallback m))
     (rte_unknown m)"

definition RouteTableEntry_InternalSerialize :: "'s zc_output \<Rightarrow> 's runtime \<Rightarrow> RouteTableEntry \<Rightarrow> 's serializer" where
  "RouteTableEntry_InternalSerialize V R m =
     then_put (when_set (rte_hostname m) (put_string V 1)) (
     then_put (when_set (rte_port m) (put_string V 2)) (
     then_put (when_set (rte_hostnamehash m) (put_int64 V 3)) (
     put_unknown R (rte_unknown m))))"

section \<open>RouteTableInit\<close>

definition RouteTableInit_bytes :: "RouteTableInit \<Rightarrow> byte list" where
  "RouteTableInit_bytes m =
     concat (map (\<lambda>e. delimited 1 (RouteTableEntry_bytes e)) (rti_entry m)) @
     unknown_bytes (rti_unknown m)"

definition RouteTableInit_ByteSizeLong :: "'s runtime \<Rightarrow> RouteTableInit \<Rightarrow> nat" where
  "RouteTableInit_ByteSizeLong R m = MaybeComputeUnknownFieldsSize R
     (0 + entries_size (RouteTableEntry_ByteSizeLong R) (rti_entry m))
     (rti_unknown m)"

definition RouteTableInit_InternalSerialize :: "'s zc_output \<Rightarrow> 's runtime \<Rightarrow> RouteTableInit \<Rightarrow> 's serializer" where
  "RouteTableInit_InternalSerialize V R m =
     then_put (for_each (rti_entry m) (put_message R 1 (RouteTableEntry_InternalSerialize V R) (RouteTableEntry_ByteSizeLong R))) (
     put_unknown R (rti_unknown m))"

section \<open>FileTableEntry\<close>

definition FileTableEntry_bytes :: "FileTableEntry \<Rightarrow> byte list" where
  "FileTableEntry_bytes m =
     when_bytes (fte_filenamehash m) (int64_field 1) @
     when_bytes (fte_ownerhostname m) (string_field 2) @
     when_bytes (fte_ownerport m) (string_field 3) @
     unknown_bytes (fte_unknown m)"

definition FileTableEntry_RequiredFieldsByteSizeFallback :: "FileTableEntry \<Rightarrow> nat" where
  "FileTableEntry_RequiredFieldsByteSizeFallback m =
     0 + when_size (fte_ownerhostname m) string_size +
     when_size (fte_ownerport m) string_size +
     when_size (fte_filenamehash m) int64_size"

definition FileTableEntry_ByteSizeLong :: "'s runtime \<Rightarrow> FileTableEntry \<Rightarrow> nat" where
  "FileTableEntry_ByteSizeLong R m = MaybeComputeUnknownFieldsSize R
     (0 + (if fte_filenamehash m \<noteq> None \<and> fte_ownerhostname m \<noteq> None \<and> fte_ownerport m \<noteq> None
      then string_size (FileTableEntry_ownerhostname m) + string_size (FileTableEntry_ownerport m) + int64_size (FileTableEntry_filenamehash m)
      else FileTableEntry_RequiredFieldsByteSizeFallback m))
     (fte_unknown m)"

definition FileTableEntry_InternalSerialize :: "'s zc_output \<Rightarrow> 's runtime \<Rightarrow> FileTableEntry \<Rightarrow> 's serializer" where
  "FileTableEntry_InternalSerialize V R m =
     then_put (when_set (fte_filenamehash m) (put_int64 V 1)) (
     then_put (when_set (fte_ownerhostname m) (put_string V 2)) (
     then_put (when_set (fte_ownerport m) (put_string V 3)) (
     put_unknown R (fte_unknown m))))"

section \<open>FileTable\<close>

definition FileTable_bytes :: "FileTable \<Rightarrow> byte list" where
  "FileTable_bytes m =
     concat (map (\<lambda>e. delimited 1 (FileTableEntry_bytes e)) (ftb_entry m)) @
     unknown_bytes (ftb_unknown m)"

definition FileTable_ByteSizeLong :: "'s runtime \<Rightarrow> FileTable \<Rightarrow> nat" where
  "FileTable_ByteSizeLong R m = MaybeComputeUnknownFieldsSize R
     (0 + entries_size (FileTableEntry_ByteSizeLong R) (ftb_entry m))
     (ftb_unknown m)"

definition FileTable_InternalSerialize :: "'s zc_output \<Rightarrow> 's runtime \<Rightarrow> FileTable \<Rightarrow> 's serializer" where
  "FileTable_InternalSerialize V R m =
     then_put (for_each (ftb_entry m) (put_message R 1 (FileTableEntry_InternalSerialize V R) (FileTableEntry_ByteSizeLong R))) (
     put_unknown R (ftb_unknown m))"

section \<open>RouteUpdateRequest\<close>

definition RouteUpdateRequest_bytes :: "RouteUpdateRequest \<Rightarrow> byte list" where
  "RouteUpdateRequest_bytes m =
     when_bytes (ruq_newhostname m) (string_field 1) @
     when_bytes (ruq_newport m) (string_field 2) @
     when_bytes (ruq_newhostnamehash m) (int64_field 3) @
     unknown_bytes (ruq_unknown m)"

definition RouteUpdateRequest_RequiredFieldsByteSizeFallback :: "RouteUpdateRequest \<Rightarrow> nat" where
  "RouteUpdateRequest_RequiredFieldsByteSizeFallback m =
     0 + when_size (ruq_newhostname m) string_size +
     when_size (ruq_newport m) string_size +
     when_size (ruq_newhostnamehash m) int64_size"

definition RouteUpdateRequest_ByteSizeLong :: "'s runtime \<Rightarrow> RouteUpdateRequest \<Rightarrow> nat" where
  "RouteUpdateRequest_ByteSizeLong R m = MaybeComputeUnknownFieldsSize R
     (0 + (if ruq_newhostname m \<noteq> None \<and> ruq_newport m \<noteq> None \<and> ruq_newhostnamehash m \<noteq> None
      then string_size (RouteUpdateRequest_newhostname m) + string_size (RouteUpdateRequest_newport m) + int64_size (RouteUpdateRequest_newhostnamehash m)
      else RouteUpdateRequest_RequiredFieldsByteSizeFallback m))
     (ruq_unknown m)"

definition RouteUpdateRequest_InternalSerialize :: "'s zc_output \<Rightarrow> 's runtime \<Rightarrow> RouteUpdateRequest \<Rightarrow> 's serializer" where
  "RouteUpdateRequest_InternalSerialize V R m =
     then_put (when_set (ruq_newhostname m) (put_string V 1)) (
     then_put (when_set (ruq_newport m) (put_string V 2)) (
     then_put (when_set (ruq_newhostnamehash m) (put_int64 V 3)) (
     put_unknown R (ruq_unknown m))))"

section \<open>RouteUpdateResponse\<close>

definition RouteUpdateResponse_bytes :: "RouteUpdateResponse \<Rightarrow> byte list" where
  "RouteUpdateResponse_bytes m =
     when_bytes (rup_nextupdatehostname m) (string_field 1) @
     when_bytes (rup_nextupdateport m) (string_field 2) @
     when_bytes (rup_nextupdatehostnamehash m) (int64_field 3) @
     when_bytes (rup_curupdatehostnamehash m) (int64_field 4) @
     unknown_bytes (rup_unknown m)"

definition RouteUpdateResponse_RequiredFieldsByteSizeFallback :: "RouteUpdateResponse \<Rightarrow> nat" where
  "RouteUpdateResponse_RequiredFieldsByteSizeFallback m =
     0 + when_size (rup_nextupdatehostname m) string_size +
     when_size (rup_nextupdateport m) string_size +
     when_size (rup_nextupdatehostnamehash m) int64_size +
     when_size (rup_curupdatehostnamehash m) int64_size"

definition RouteUpdateResponse_ByteSizeLong :: "'s runtime \<Rightarrow> RouteUpdateResponse \<Rightarrow> nat" where
  "RouteUpdateResponse_ByteSizeLong R m = MaybeComputeUnknownFieldsSize R
     (0 + (if rup_nextupdatehostname m \<noteq> None \<and> rup_nextupdateport m \<noteq> None \<and> rup_nextupdatehostnamehash m \<noteq> None \<and> rup_curupdatehostnamehash m \<noteq> None
      then string_size (RouteUpdateResponse_nextupdatehostname m) + string_size (RouteUpdateResponse_nextupdateport m) + int64_size (RouteUpdateResponse_nextupdatehostnamehash m) + int64_size (RouteUpdateResponse_curupdatehostnamehash m)
      else RouteUpdateResponse_RequiredFieldsByteSizeFallback m))
     (rup_unknown m)"

definition RouteUpdateResponse_InternalSerialize :: "'s zc_output \<Rightarrow> 's runtime \<Rightarrow> RouteUpdateResponse \<Rightarrow> 's serializer" where
  "RouteUpdateResponse_InternalSerialize V R m =
     then_put (when_set (rup_nextupdatehostname m) (put_string V 1)) (
     then_put (when_set (rup_nextupdateport m) (put_string V 2)) (
     then_put (when_set (rup_nextupdatehostnamehash m) (put_int64 V 3)) (
     then_put (when_set (rup_curupdatehostnamehash m) (put_int64 V 4)) (
     put_unknown R (rup_unknown m)))))"

section \<open>RouteDeleteRequest\<close>

definition RouteDeleteRequest_bytes :: "RouteDeleteRequest \<Rightarrow> byte list" where
  "RouteDeleteRequest_bytes m =
     concat (map (\<lambda>e. delimited 1 (RouteTableEntry_bytes e)) (rdq_entry m)) @
     unknown_bytes (rdq_unknown m)"

definition RouteDeleteRequest_ByteSizeLong :: "'s runtime \<Rightarrow> RouteDeleteRequest \<Rightarrow> nat" where
  "RouteDeleteRequest_ByteSizeLong R m = MaybeComputeUnknownFieldsSize R
     (0 + entries_size (RouteTableEntry_ByteSizeLong R) (rdq_entry m))
     (rdq_unknown m)"

definition RouteDeleteRequest_InternalSerialize :: "'s zc_output \<Rightarrow> 's runtime \<Rightarrow> RouteDeleteRequest \<Rightarrow> 's serializer" where
  "RouteDeleteRequest_InternalSerialize V R m =
     then_put (for_each (rdq_entry m) (put_message R 1 (RouteTableEntry_InternalSerialize V R) (RouteTableEntry_ByteSizeLong R))) (
     put_unknown R (rdq_unknown m))"

section \<open>HelpJoinRequset\<close>

definition HelpJoinRequset_bytes :: "HelpJoinRequset \<Rightarrow> byte list" where
  "HelpJoinRequset_bytes m =
     when_bytes (hjq_newhostname m) (string_field 1) @
     when_bytes (hjq_newport m) (string_field 2) @
     when_bytes (hjq_newhostnamehash m) (int64_field 3) @
     unknown_bytes (hjq_unknown m)"

definition HelpJoinRequset_RequiredFieldsByteSizeFallback :: "HelpJoinRequset \<Rightarrow> nat" where
  "HelpJoinRequset_RequiredFieldsByteSizeFallback m =
     0 + when_size (hjq_newhostname m) string_size +
     when_size (hjq_newport m) string_size +
     when_size (hjq_newhostnamehash m) int64_size"

definition HelpJoinRequset_ByteSizeLong :: "'s runtime \<Rightarrow> HelpJoinRequset \<Rightarrow> nat" where
  "HelpJoinRequset_ByteSizeLong R m = MaybeComputeUnknownFieldsSize R
     (0 + (if hjq_newhostname m \<noteq> None \<and> hjq_newport m \<noteq> None \<and> hjq_newhostnamehash m \<noteq> None
      then string_size (HelpJoinRequset_newhostname m) + string_size (HelpJoinRequset_newport m) + int64_size (HelpJoinRequset_newhostnamehash m)
      else HelpJoinRequset_RequiredFieldsByteSizeFallback m))
     (hjq_unknown m)"

definition HelpJoinRequset_InternalSerialize :: "'s zc_output \<Rightarrow> 's runtime \<Rightarrow> HelpJoinRequset \<Rightarrow> 's serializer" where
  "HelpJoinRequset_InternalSerialize V R m =
     then_put (when_set (hjq_newhostname m) (put_string V 1)) (
     then_put (when_set (hjq_newport m) (put_string V 2)) (
     then_put (when_set (hjq_newhostnamehash m) (put_int64 V 3)) (
     put_unknown R (hjq_unknown m))))"

section \<open>HelpJoinResponse\<close>

definition HelpJoinResponse_bytes :: "HelpJoinResponse \<Rightarrow> byte list" where
  "HelpJoinResponse_bytes m =
     when_bytes (hjp_responsiblehostname m) (string_field 1) @
     when_bytes (hjp_responsibleport m) (string_field 2) @
     when_bytes (hjp_responhostnamehash m) (int64_field 3) @
     unknown_bytes (hjp_unknown m)"

definition HelpJoinResponse_RequiredFieldsByteSizeFallback :: "HelpJoinResponse \<Rightarrow> nat" where
  "HelpJoinResponse_RequiredFieldsByteSizeFallback m =
     0 + when_size (hjp_responsiblehostname m) string_size +
     when_size (hjp_responsibleport m) string_size +
     when_size (hjp_responhostnamehash m) int64_size"

definition HelpJoinResponse_ByteSizeLong :: "'s runtime \<Rightarrow> HelpJoinResponse \<Rightarrow> nat" where
  "HelpJoinResponse_ByteSizeLong R m = MaybeComputeUnknownFieldsSize R
     (0 + (if hjp_responsiblehostname m \<noteq> None \<and> hjp_responsibleport m \<noteq> None \<and> hjp_responhostnamehash m \<noteq> None
      then string_size (HelpJoinResponse_responsiblehostname m) + string_size (HelpJoinResponse_responsibleport m) + int64_size (HelpJoinResponse_responhostnamehash m)
      else HelpJoinResponse_RequiredFieldsByteSizeFallback m))
     (hjp_unknown m)"

definition HelpJoinResponse_InternalSerialize :: "'s zc_output \<Rightarrow> 's runtime \<Rightarrow> HelpJoinResponse \<Rightarrow> 's serializer" where
  "HelpJoinResponse_InternalSerialize V R m =
     then_put (when_set (hjp_responsiblehostname m) (put_string V 1)) (
     then_put (when_set (hjp_responsibleport m) (put_string V 2)) (
     then_put (when_set (hjp_responhostnamehash m) (put_int64 V 3)) (
     put_unknown R (hjp_unknown m))))"

section \<open>LookupNodeResponse\<close>

definition LookupNodeResponse_bytes :: "LookupNodeResponse \<Rightarrow> byte list" where
  "LookupNodeResponse_bytes m =
     when_bytes (lnp_hostname m) (string_field 1) @
     when_bytes (lnp_port m) (string_field 2) @
     when_bytes (lnp_hostnamehash m) (int64_field 3) @
     unknown_bytes (lnp_unknown m)"

definition LookupNodeResponse_RequiredFieldsByteSizeFallback :: "LookupNodeResponse \<Rightarrow> nat" where
  "LookupNodeResponse_RequiredFieldsByteSizeFallback m =
     0 + when_size (lnp_hostname m) string_size +
     when_size (lnp_port m) string_size +
     when_size (lnp_hostnamehash m) int64_size"

definition LookupNodeResponse_ByteSizeLong :: "'s runtime \<Rightarrow> LookupNodeResponse \<Rightarrow> nat" where
  "LookupNodeResponse_ByteSizeLong R m = MaybeComputeUnknownFieldsSize R
     (0 + (if lnp_hostname m \<noteq> None \<and> lnp_port m \<noteq> None \<and> lnp_hostnamehash m \<noteq> None
      then string_size (LookupNodeResponse_hostname m) + string_size (LookupNodeResponse_port m) + int64_size (LookupNodeResponse_hostnamehash m)
      else LookupNodeResponse_RequiredFieldsByteSizeFallback m))
     (lnp_unknown m)"

definition LookupNodeResponse_InternalSerialize :: "'s zc_output \<Rightarrow> 's runtime \<Rightarrow> LookupNodeResponse \<Rightarrow> 's serializer" where
  "LookupNodeResponse_InternalSerialize V R m =
     then_put (when_set (lnp_hostname m) (put_string V 1)) (
     then_put (when_set (lnp_port m) (put_string V 2)) (
     then_put (when_set (lnp_hostnamehash m) (put_int64 V 3)) (
     put_unknown R (lnp_unknown m))))"

section \<open>NodeRequest\<close>

definition NodeRequest_bytes :: "NodeRequest \<Rightarrow> byte list" where
  "NodeRequest_bytes m =
     when_bytes (nrq_type m) (int64_field 1) @
     when_bytes (nrq_addfile m) (\<lambda>e. delimited 2 (AddFileRequest_bytes e)) @
     when_bytes (nrq_lookup m) (\<lambda>e. delimited 3 (LookupFileRequest_bytes e)) @
     when_bytes (nrq_deletefile m) (\<lambda>e. delimited 4 (DeleteFileRequest_bytes e)) @
     when_bytes (nrq_download m) (\<lambda>e. delimited 5 (DownloadRequest_bytes e)) @
     when_bytes (nrq_join m) (\<lambda>e. delimited 6 (JoinRequest_bytes e)) @
     when_bytes (nrq_updateroute m) (\<lambda>e. delimited 7 (RouteUpdateRequest_bytes e)) @
     when_bytes (nrq_deleteroute m) (\<lambda>e. delimited 8 (RouteDeleteRequest_bytes e)) @
     when_bytes (nrq_helpjoin m) (\<lambda>e. delimited 9 (HelpJoinRequset_bytes e)) @
     unknown_bytes (nrq_unknown m)"

definition NodeRequest_ByteSizeLong :: "'s runtime \<Rightarrow> NodeRequest \<Rightarrow> nat" where
  "NodeRequest_ByteSizeLong R m = MaybeComputeUnknownFieldsSize R
     (0 + when_size (nrq_type m) int64_size +
     when_size (nrq_addfile m) (message_size (AddFileRequest_ByteSizeLong R)) +
     when_size (nrq_lookup m) (message_size (LookupFileRequest_ByteSizeLong R)) +
     when_size (nrq_deletefile m) (message_size (DeleteFileRequest_ByteSizeLong R)) +
     when_size (nrq_download m) (message_size (DownloadRequest_ByteSizeLong R)) +
     when_size (nrq_join m) (message_size (JoinRequest_ByteSizeLong R)) +
     when_size (nrq_updateroute m) (message_size (RouteUpdateRequest_ByteSizeLong R)) +
     when_size (nrq_deleteroute m) (message_size (RouteDeleteRequest_ByteSizeLong R)) +
     when_size (nrq_helpjoin m) (message_size (HelpJoinRequset_ByteSizeLong R)))
     (nrq_unknown m)"

definition NodeRequest_InternalSerialize :: "'s zc_output \<Rightarrow> 's runtime \<Rightarrow> NodeRequest \<Rightarrow> 's serializer" where
  "NodeRequest_InternalSerialize V R m =
     then_put (when_set (nrq_type m) (put_int64 V 1)) (
     then_put (when_set (nrq_addfile m) (put_message R 2 (AddFileRequest_InternalSerialize V R) (AddFileRequest_ByteSizeLong R))) (
     then_put (when_set (nrq_lookup m) (put_message R 3 (LookupFileRequest_InternalSerialize V R) (LookupFileRequest_ByteSizeLong R))) (
     then_put (when_set (nrq_deletefile m) (put_message R 4 (DeleteFileRequest_InternalSerialize V R) (DeleteFileRequest_ByteSizeLong R))) (
     then_put (when_set (nrq_download m) (put_message R 5 (DownloadRequest_InternalSerialize V R) (DownloadRequest_ByteSizeLong R))) (
     then_put (when_set (nrq_join m) (put_message R 6 (JoinRequest_InternalSerialize V R) (JoinRequest_ByteSizeLong R))) (
     then_put (when_set (nrq_updateroute m) (put_message R 7 (RouteUpdateRequest_InternalSerialize V R) (RouteUpdateRequest_ByteSizeLong R))) (
     then_put (when_set (nrq_deleteroute m) (put_message R 8 (RouteDeleteRequest_InternalSerialize V R) (RouteDeleteRequest_ByteSizeLong R))) (
     then_put (when_set (nrq_helpjoin m) (put_message R 9 (HelpJoinRequset_InternalSerialize V R) (HelpJoinRequset_ByteSizeLong R))) (
     put_unknown R (nrq_unknown m))))))))))"

section \<open>NodeResponse\<close>

definition NodeResponse_bytes :: "NodeResponse \<Rightarrow> byte list" where
  "NodeResponse_bytes m =
     when_bytes (nrp_type m) (int64_field 1) @
     when_bytes (nrp_lookup m) (\<lambda>e. delimited 2 (LookupFileResponse_bytes e)) @
     when_bytes (nrp_fileinforsp m) (\<lambda>e. delimited 3 (FileInfoResponse_bytes e)) @
     when_bytes (nrp_routeinit m) (\<lambda>e. delimited 4 (RouteTableInit_bytes e)) @
     when_bytes (nrp_filetable m) (\<lambda>e. delimited 5 (FileTable_bytes e)) @
     when_bytes (nrp_helpjoin m) (\<lambda>e. delimited 6 (HelpJoinResponse_bytes e)) @
     when_bytes (nrp_updateroute m) (\<lambda>e. delimited 7 (RouteUpdateResponse_bytes e)) @
     when_bytes (nrp_lookupnode m) (\<lambda>e. delimited 8 (LookupNodeResponse_bytes e)) @
     unknown_bytes (nrp_unknown m)"

definition NodeResponse_ByteSizeLong :: "'s runtime \<Rightarrow> NodeResponse \<Rightarrow> nat" where
  "NodeResponse_ByteSizeLong R m = MaybeComputeUnknownFieldsSize R
     (0 + when_size (nrp_type m) int64_size +
     when_size (nrp_lookup m) (message_size (LookupFileResponse_ByteSizeLong R)) +
     when_size (nrp_fileinforsp m) (message_size (FileInfoResponse_ByteSizeLong R)) +
     when_size (nrp_routeinit m) (message_size (RouteTableInit_ByteSizeLong R)) +
     when_size (nrp_filetable m) (message_size (FileTable_ByteSizeLong R)) +
     when_size (nrp_helpjoin m) (message_size (HelpJoinResponse_ByteSizeLong R)) +
     when_size (nrp_updateroute m) (message_size (RouteUpdateResponse_ByteSizeLong R)) +
     when_size (nrp_lookupnode m) (message_size (LookupNodeResponse_ByteSizeLong R)))
     (nrp_unknown m)"

definition NodeResponse_InternalSerialize :: "'s zc_output \<Rightarrow> 's runtime \<Rightarrow> NodeResponse \<Rightarrow> 's serializer" where
  "NodeResponse_InternalSerialize V R m =
     then_put (when_set (nrp_type m) (put_int64 V 1)) (
     then_put (when_set (nrp_lookup m) (put_message R 2 (LookupFileResponse_InternalSerialize V R) (LookupFileResponse_ByteSizeLong R))) (
     then_put (when_set (nrp_fileinforsp m) (put_message R 3 (FileInfoResponse_InternalSerialize V R) (FileInfoResponse_ByteSizeLong R))) (
     then_put (when_set (nrp_routeinit m) (put_message R 4 (RouteTableInit_InternalSerialize V R) (RouteTableInit_ByteSizeLong R))) (
     then_put (when_set (nrp_filetable m) (put_message R 5 (FileTable_InternalSerialize V R) (FileTable_ByteSizeLong R))) (
     then_put (when_set (nrp_helpjoin m) (put_message R 6 (HelpJoinResponse_InternalSerialize V R) (HelpJoinResponse_ByteSizeLong R))) (
     then_put (when_set (nrp_updateroute m) (put_message R 7 (RouteUpdateResponse_InternalSerialize V R) (RouteUpdateResponse_ByteSizeLong R))) (
     then_put (when_set (nrp_lookupnode m) (put_message R 8 (LookupNodeResponse_InternalSerialize V R) (LookupNodeResponse_ByteSizeLong R))) (
     put_unknown R (nrp_unknown m)))))))))"

section \<open>Sizes\<close>

lemma AddFileRequest_size:
  assumes "runtime_ok okS failedS out addr R"
  shows "AddFileRequest_ByteSizeLong R m = length (AddFileRequest_bytes m)"
  by (simp add: AddFileRequest_ByteSizeLong_def AddFileRequest_RequiredFieldsByteSizeFallback_def
      AddFileRequest_bytes_def runtime_size [OF assms] when_size_def when_bytes_def field_lengths
      AddFileRequest_filenamehash_def AddFileRequest_sourcehostname_def AddFileRequest_sourceport_def split: option.split)

lemma LookupFileRequest_size:
  assumes "runtime_ok okS failedS out addr R"
  shows "LookupFileRequest_ByteSizeLong R m = length (LookupFileRequest_bytes m)"
  by (simp add: LookupFileRequest_ByteSizeLong_def LookupFileRequest_RequiredFieldsByteSizeFallback_def
      LookupFileRequest_bytes_def runtime_size [OF assms] when_size_def when_bytes_def field_lengths
      LookupFileRequest_filenamehash_def LookupFileRequest_sourcehostname_def LookupFileRequest_sourceport_def split: option.split)

lemma DeleteFileRequest_size:
  assumes "runtime_ok okS failedS out addr R"
  shows "DeleteFileRequest_ByteSizeLong R m = length (DeleteFileRequest_bytes m)"
  by (simp add: DeleteFileRequest_ByteSizeLong_def DeleteFileRequest_RequiredFieldsByteSizeFallback_def
      DeleteFileRequest_bytes_def runtime_size [OF assms] when_size_def when_bytes_def field_lengths
      DeleteFileRequest_filenamehash_def DeleteFileRequest_sourcehostname_def DeleteFileRequest_sourceport_def split: option.split)

lemma LookupFileResponse_size:
  assumes "runtime_ok okS failedS out addr R"
  shows "LookupFileResponse_ByteSizeLong R m = length (LookupFileResponse_bytes m)"
  by (simp add: LookupFileResponse_ByteSizeLong_def LookupFileResponse_RequiredFieldsByteSizeFallback_def
      LookupFileResponse_bytes_def runtime_size [OF assms] when_size_def when_bytes_def field_lengths
      LookupFileResponse_ifexists_def LookupFileResponse_successorhostname_def LookupFileResponse_successorport_def split: option.split)

lemma FileInfoResponse_size:
  assumes "runtime_ok okS failedS out addr R"
  shows "FileInfoResponse_ByteSizeLong R m = length (FileInfoResponse_bytes m)"
  by (simp add: FileInfoResponse_ByteSizeLong_def FileInfoResponse_RequiredFieldsByteSizeFallback_def
      FileInfoResponse_bytes_def runtime_size [OF assms] when_size_def when_bytes_def field_lengths
      FileInfoResponse_ownerhostname_def FileInfoResponse_ownerport_def split: option.split)

lemma DownloadRequest_size:
  assumes "runtime_ok okS failedS out addr R"
  shows "DownloadRequest_ByteSizeLong R m = length (DownloadRequest_bytes m)"
  by (simp add: DownloadRequest_ByteSizeLong_def DownloadRequest_RequiredFieldsByteSizeFallback_def
      DownloadRequest_bytes_def runtime_size [OF assms] when_size_def when_bytes_def field_lengths
      DownloadRequest_filenamehash_def DownloadRequest_sourcehostname_def DownloadRequest_sourceport_def split: option.split)

lemma JoinRequest_size:
  assumes "runtime_ok okS failedS out addr R"
  shows "JoinRequest_ByteSizeLong R m = length (JoinRequest_bytes m)"
  by (simp add: JoinRequest_ByteSizeLong_def JoinRequest_RequiredFieldsByteSizeFallback_def
      JoinRequest_bytes_def runtime_size [OF assms] when_size_def when_bytes_def field_lengths
      JoinRequest_newhostname_def JoinRequest_newport_def JoinRequest_newhostnamehash_def split: option.split)

lemma RouteTableEntry_size:
  assumes "runtime_ok okS failedS out addr R"
  shows "RouteTableEntry_ByteSizeLong R m = length (RouteTableEntry_bytes m)"
  by (simp add: RouteTableEntry_ByteSizeLong_def RouteTableEntry_RequiredFieldsByteSizeFallback_def
      RouteTableEntry_bytes_def runtime_size [OF assms] when_size_def when_bytes_def field_lengths
      RouteTableEntry_hostname_def RouteTableEntry_port_def RouteTableEntry_hostnamehash_def split: option.split)

lemma RouteTableInit_size:
  assumes "runtime_ok okS failedS out addr R"
  shows "RouteTableInit_ByteSizeLong R m = length (RouteTableInit_bytes m)"
  by (simp add: RouteTableInit_ByteSizeLong_def
      RouteTableInit_bytes_def runtime_size [OF assms] entries_size [OF _ _ RouteTableEntry_size [OF assms]])

lemma FileTableEntry_size:
  assumes "runtime_ok okS failedS out addr R"
  shows "FileTableEntry_ByteSizeLong R m = length (FileTableEntry_bytes m)"
  by (simp add: FileTableEntry_ByteSizeLong_def FileTableEntry_RequiredFieldsByteSizeFallback_def
      FileTableEntry_bytes_def runtime_size [OF assms] when_size_def when_bytes_def field_lengths
      FileTableEntry_filenamehash_def FileTableEntry_ownerhostname_def FileTableEntry_ownerport_def split: option.split)

lemma FileTable_size:
  assumes "runtime_ok okS failedS out addr R"
  shows "FileTable_ByteSizeLong R m = length (FileTable_bytes m)"
  by (simp add: FileTable_ByteSizeLong_def
      FileTable_bytes_def runtime_size [OF assms] entries_size [OF _ _ FileTableEntry_size [OF assms]])

lemma RouteUpdateRequest_size:
  assumes "runtime_ok okS failedS out addr R"
  shows "RouteUpdateRequest_ByteSizeLong R m = length (RouteUpdateRequest_bytes m)"
  by (simp add: RouteUpdateRequest_ByteSizeLong_def RouteUpdateRequest_RequiredFieldsByteSizeFallback_def
      RouteUpdateRequest_bytes_def runtime_size [OF assms] when_size_def when_bytes_def field_lengths
      RouteUpdateRequest_newhostname_def RouteUpdateRequest_newport_def RouteUpdateRequest_newhostnamehash_def split: option.split)

lemma RouteUpdateResponse_size:
  assumes "runtime_ok okS failedS out addr R"
  shows "RouteUpdateResponse_ByteSizeLong R m = length (RouteUpdateResponse_bytes m)"
  by (simp add: RouteUpdateResponse_ByteSizeLong_def RouteUpdateResponse_RequiredFieldsByteSizeFallback_def
      RouteUpdateResponse_bytes_def runtime_size [OF assms] when_size_def when_bytes_def field_lengths
      RouteUpdateResponse_nextupdatehostname_def RouteUpdateResponse_nextupdateport_def RouteUpdateResponse_nextupdatehostnamehash_def RouteUpdateResponse_curupdatehostnamehash_def split: option.split)

lemma RouteDeleteRequest_size:
  assumes "runtime_ok okS failedS out addr R"
  shows "RouteDeleteRequest_ByteSizeLong R m = length (RouteDeleteRequest_bytes m)"
  by (simp add: RouteDeleteRequest_ByteSizeLong_def
      RouteDeleteRequest_bytes_def runtime_size [OF assms] entries_size [OF _ _ RouteTableEntry_size [OF assms]])

lemma HelpJoinRequset_size:
  assumes "runtime_ok okS failedS out addr R"
  shows "HelpJoinRequset_ByteSizeLong R m = length (HelpJoinRequset_bytes m)"
  by (simp add: HelpJoinRequset_ByteSizeLong_def HelpJoinRequset_RequiredFieldsByteSizeFallback_def
      HelpJoinRequset_bytes_def runtime_size [OF assms] when_size_def when_bytes_def field_lengths
      HelpJoinRequset_newhostname_def HelpJoinRequset_newport_def HelpJoinRequset_newhostnamehash_def split: option.split)

lemma HelpJoinResponse_size:
  assumes "runtime_ok okS failedS out addr R"
  shows "HelpJoinResponse_ByteSizeLong R m = length (HelpJoinResponse_bytes m)"
  by (simp add: HelpJoinResponse_ByteSizeLong_def HelpJoinResponse_RequiredFieldsByteSizeFallback_def
      HelpJoinResponse_bytes_def runtime_size [OF assms] when_size_def when_bytes_def field_lengths
      HelpJoinResponse_responsiblehostname_def HelpJoinResponse_responsibleport_def HelpJoinResponse_responhostnamehash_def split: option.split)

lemma LookupNodeResponse_size:
  assumes "runtime_ok okS failedS out addr R"
  shows "LookupNodeResponse_ByteSizeLong R m = length (LookupNodeResponse_bytes m)"
  by (simp add: LookupNodeResponse_ByteSizeLong_def LookupNodeResponse_RequiredFieldsByteSizeFallback_def
      LookupNodeResponse_bytes_def runtime_size [OF assms] when_size_def when_bytes_def field_lengths
      LookupNodeResponse_hostname_def LookupNodeResponse_port_def LookupNodeResponse_hostnamehash_def split: option.split)

lemma NodeRequest_size:
  assumes "runtime_ok okS failedS out addr R"
  shows "NodeRequest_ByteSizeLong R m = length (NodeRequest_bytes m)"
  by (simp add: NodeRequest_ByteSizeLong_def
      NodeRequest_bytes_def runtime_size [OF assms] when_size_def when_bytes_def field_lengths message_size_def MessageSize_def
      AddFileRequest_size [OF assms]
      DeleteFileRequest_size [OF assms]
      DownloadRequest_size [OF assms]
      HelpJoinRequset_size [OF assms]
      JoinRequest_size [OF assms]
      LookupFileRequest_size [OF assms]
      RouteDeleteRequest_size [OF assms]
      RouteUpdateRequest_size [OF assms]
      split: option.split)

lemma NodeResponse_size:
  assumes "runtime_ok okS failedS out addr R"
  shows "NodeResponse_ByteSizeLong R m = length (NodeResponse_bytes m)"
  by (simp add: NodeResponse_ByteSizeLong_def
      NodeResponse_bytes_def runtime_size [OF assms] when_size_def when_bytes_def field_lengths message_size_def MessageSize_def
      FileInfoResponse_size [OF assms]
      FileTable_size [OF assms]
      HelpJoinResponse_size [OF assms]
      LookupFileResponse_size [OF assms]
      LookupNodeResponse_size [OF assms]
      RouteTableInit_size [OF assms]
      RouteUpdateResponse_size [OF assms]
      split: option.split)

section \<open>Serialisation\<close>

context zero_copy_output
begin

lemma AddFileRequest_puts:
  assumes "runtime_ok ok failed out addr R"
  shows "puts ok failed out addr (AddFileRequest_InternalSerialize V R m) (AddFileRequest_bytes m)"
  unfolding AddFileRequest_InternalSerialize_def AddFileRequest_bytes_def
  by (intro then_puts when_puts put_int64_puts put_bool_puts put_string_at put_unknown_puts [OF assms]) simp_all

lemma LookupFileRequest_puts:
  assumes "runtime_ok ok failed out addr R"
  shows "puts ok failed out addr (LookupFileRequest_InternalSerialize V R m) (LookupFileRequest_bytes m)"
  unfolding LookupFileRequest_InternalSerialize_def LookupFileRequest_bytes_def
  by (intro then_puts when_puts put_int64_puts put_bool_puts put_string_at put_unknown_puts [OF assms]) simp_all

lemma DeleteFileRequest_puts:
  assumes "runtime_ok ok failed out addr R"
  shows "puts ok failed out addr (DeleteFileRequest_InternalSerialize V R m) (DeleteFileRequest_bytes m)"
  unfolding DeleteFileRequest_InternalSerialize_def DeleteFileRequest_bytes_def
  by (intro then_puts when_puts put_int64_puts put_bool_puts put_string_at put_unknown_puts [OF assms]) simp_all

lemma LookupFileResponse_puts:
  assumes "runtime_ok ok failed out addr R"
  shows "puts ok failed out addr (LookupFileResponse_InternalSerialize V R m) (LookupFileResponse_bytes m)"
  unfolding LookupFileResponse_InternalSerialize_def LookupFileResponse_bytes_def
  by (intro then_puts when_puts put_int64_puts put_bool_puts put_string_at put_unknown_puts [OF assms]) simp_all

lemma FileInfoResponse_puts:
  assumes "runtime_ok ok failed out addr R"
  shows "puts ok failed out addr (FileInfoResponse_InternalSerialize V R m) (FileInfoResponse_bytes m)"
  unfolding FileInfoResponse_InternalSerialize_def FileInfoResponse_bytes_def
  by (intro then_puts when_puts put_int64_puts put_bool_puts put_string_at put_unknown_puts [OF assms]) simp_all

lemma DownloadRequest_puts:
  assumes "runtime_ok ok failed out addr R"
  shows "puts ok failed out addr (DownloadRequest_InternalSerialize V R m) (DownloadRequest_bytes m)"
  unfolding DownloadRequest_InternalSerialize_def DownloadRequest_bytes_def
  by (intro then_puts when_puts put_int64_puts put_bool_puts put_string_at put_unknown_puts [OF assms]) simp_all

lemma JoinRequest_puts:
  assumes "runtime_ok ok failed out addr R"
  shows "puts ok failed out addr (JoinRequest_InternalSerialize V R m) (JoinRequest_bytes m)"
  unfolding JoinRequest_InternalSerialize_def JoinRequest_bytes_def
  by (intro then_puts when_puts put_int64_puts put_bool_puts put_string_at put_unknown_puts [OF assms]) simp_all

lemma RouteTableEntry_puts:
  assumes "runtime_ok ok failed out addr R"
  shows "puts ok failed out addr (RouteTableEntry_InternalSerialize V R m) (RouteTableEntry_bytes m)"
  unfolding RouteTableEntry_InternalSerialize_def RouteTableEntry_bytes_def
  by (intro then_puts when_puts put_int64_puts put_bool_puts put_string_at put_unknown_puts [OF assms]) simp_all

lemma RouteTableInit_puts:
  assumes R: "runtime_ok ok failed out addr R" and "length (RouteTableInit_bytes m) < 2 ^ 31"
  shows "puts ok failed out addr (RouteTableInit_InternalSerialize V R m) (RouteTableInit_bytes m)"
  unfolding RouteTableInit_InternalSerialize_def RouteTableInit_bytes_def
proof (intro then_puts for_each_puts put_unknown_puts [OF R])
  fix e assume "e \<in> set (rti_entry m)"
  then have "length (RouteTableEntry_bytes e) \<le> length (RouteTableInit_bytes m)"
    by (simp add: RouteTableInit_bytes_def) (auto dest!: split_list simp: delimited_def)
  with assms(2) show "puts ok failed out addr
      (put_message R 1 (RouteTableEntry_InternalSerialize V R) (RouteTableEntry_ByteSizeLong R) e) (delimited 1 (RouteTableEntry_bytes e))"
    by (intro put_message_puts [OF R] RouteTableEntry_size [OF R] RouteTableEntry_puts [OF R]) linarith
qed

lemma FileTableEntry_puts:
  assumes "runtime_ok ok failed out addr R"
  shows "puts ok failed out addr (FileTableEntry_InternalSerialize V R m) (FileTableEntry_bytes m)"
  unfolding FileTableEntry_InternalSerialize_def FileTableEntry_bytes_def
  by (intro then_puts when_puts put_int64_puts put_bool_puts put_string_at put_unknown_puts [OF assms]) simp_all

lemma FileTable_puts:
  assumes R: "runtime_ok ok failed out addr R" and "length (FileTable_bytes m) < 2 ^ 31"
  shows "puts ok failed out addr (FileTable_InternalSerialize V R m) (FileTable_bytes m)"
  unfolding FileTable_InternalSerialize_def FileTable_bytes_def
proof (intro then_puts for_each_puts put_unknown_puts [OF R])
  fix e assume "e \<in> set (ftb_entry m)"
  then have "length (FileTableEntry_bytes e) \<le> length (FileTable_bytes m)"
    by (simp add: FileTable_bytes_def) (auto dest!: split_list simp: delimited_def)
  with assms(2) show "puts ok failed out addr
      (put_message R 1 (FileTableEntry_InternalSerialize V R) (FileTableEntry_ByteSizeLong R) e) (delimited 1 (FileTableEntry_bytes e))"
    by (intro put_message_puts [OF R] FileTableEntry_size [OF R] FileTableEntry_puts [OF R]) linarith
qed

lemma RouteUpdateRequest_puts:
  assumes "runtime_ok ok failed out addr R"
  shows "puts ok failed out addr (RouteUpdateRequest_InternalSerialize V R m) (RouteUpdateRequest_bytes m)"
  unfolding RouteUpdateRequest_InternalSerialize_def RouteUpdateRequest_bytes_def
  by (intro then_puts when_puts put_int64_puts put_bool_puts put_string_at put_unknown_puts [OF assms]) simp_all

lemma RouteUpdateResponse_puts:
  assumes "runtime_ok ok failed out addr R"
  shows "puts ok failed out addr (RouteUpdateResponse_InternalSerialize V R m) (RouteUpdateResponse_bytes m)"
  unfolding RouteUpdateResponse_InternalSerialize_def RouteUpdateResponse_bytes_def
  by (intro then_puts when_puts put_int64_puts put_bool_puts put_string_at put_unknown_puts [OF assms]) simp_all

lemma RouteDeleteRequest_puts:
  assumes R: "runtime_ok ok failed out addr R" and "length (RouteDeleteRequest_bytes m) < 2 ^ 31"
  shows "puts ok failed out addr (RouteDeleteRequest_InternalSerialize V R m) (RouteDeleteRequest_bytes m)"
  unfolding RouteDeleteRequest_InternalSerialize_def RouteDeleteRequest_bytes_def
proof (intro then_puts for_each_puts put_unknown_puts [OF R])
  fix e assume "e \<in> set (rdq_entry m)"
  then have "length (RouteTableEntry_bytes e) \<le> length (RouteDeleteRequest_bytes m)"
    by (simp add: RouteDeleteRequest_bytes_def) (auto dest!: split_list simp: delimited_def)
  with assms(2) show "puts ok failed out addr
      (put_message R 1 (RouteTableEntry_InternalSerialize V R) (RouteTableEntry_ByteSizeLong R) e) (delimited 1 (RouteTableEntry_bytes e))"
    by (intro put_message_puts [OF R] RouteTableEntry_size [OF R] RouteTableEntry_puts [OF R]) linarith
qed

lemma HelpJoinRequset_puts:
  assumes "runtime_ok ok failed out addr R"
  shows "puts ok failed out addr (HelpJoinRequset_InternalSerialize V R m) (HelpJoinRequset_bytes m)"
  unfolding HelpJoinRequset_InternalSerialize_def HelpJoinRequset_bytes_def
  by (intro then_puts when_puts put_int64_puts put_bool_puts put_string_at put_unknown_puts [OF assms]) simp_all

lemma HelpJoinResponse_puts:
  assumes "runtime_ok ok failed out addr R"
  shows "puts ok failed out addr (HelpJoinResponse_InternalSerialize V R m) (HelpJoinResponse_bytes m)"
  unfolding HelpJoinResponse_InternalSerialize_def HelpJoinResponse_bytes_def
  by (intro then_puts when_puts put_int64_puts put_bool_puts put_string_at put_unknown_puts [OF assms]) simp_all

lemma LookupNodeResponse_puts:
  assumes "runtime_ok ok failed out addr R"
  shows "puts ok failed out addr (LookupNodeResponse_InternalSerialize V R m) (LookupNodeResponse_bytes m)"
  unfolding LookupNodeResponse_InternalSerialize_def LookupNodeResponse_bytes_def
  by (intro then_puts when_puts put_int64_puts put_bool_puts put_string_at put_unknown_puts [OF assms]) simp_all

lemma NodeRequest_puts:
  assumes R: "runtime_ok ok failed out addr R" and len: "length (NodeRequest_bytes m) < 2 ^ 31"
  shows "puts ok failed out addr (NodeRequest_InternalSerialize V R m) (NodeRequest_bytes m)"
proof -
  note short = len [unfolded NodeRequest_bytes_def when_bytes_def delimited_def]
  have f2: "puts ok failed out addr (put_message R 2 (AddFileRequest_InternalSerialize V R) (AddFileRequest_ByteSizeLong R) e) (delimited 2 (AddFileRequest_bytes e))"
    if "nrq_addfile m = Some e" for e
    using short that by (intro put_message_puts [OF R] AddFileRequest_size [OF R] AddFileRequest_puts [OF R]) simp_all
  have f3: "puts ok failed out addr (put_message R 3 (LookupFileRequest_InternalSerialize V R) (LookupFileRequest_ByteSizeLong R) e) (delimited 3 (LookupFileRequest_bytes e))"
    if "nrq_lookup m = Some e" for e
    using short that by (intro put_message_puts [OF R] LookupFileRequest_size [OF R] LookupFileRequest_puts [OF R]) simp_all
  have f4: "puts ok failed out addr (put_message R 4 (DeleteFileRequest_InternalSerialize V R) (DeleteFileRequest_ByteSizeLong R) e) (delimited 4 (DeleteFileRequest_bytes e))"
    if "nrq_deletefile m = Some e" for e
    using short that by (intro put_message_puts [OF R] DeleteFileRequest_size [OF R] DeleteFileRequest_puts [OF R]) simp_all
  have f5: "puts ok failed out addr (put_message R 5 (DownloadRequest_InternalSerialize V R) (DownloadRequest_ByteSizeLong R) e) (delimited 5 (DownloadRequest_bytes e))"
    if "nrq_download m = Some e" for e
    using short that by (intro put_message_puts [OF R] DownloadRequest_size [OF R] DownloadRequest_puts [OF R]) simp_all
  have f6: "puts ok failed out addr (put_message R 6 (JoinRequest_InternalSerialize V R) (JoinRequest_ByteSizeLong R) e) (delimited 6 (JoinRequest_bytes e))"
    if "nrq_join m = Some e" for e
    using short that by (intro put_message_puts [OF R] JoinRequest_size [OF R] JoinRequest_puts [OF R]) simp_all
  have f7: "puts ok failed out addr (put_message R 7 (RouteUpdateRequest_InternalSerialize V R) (RouteUpdateRequest_ByteSizeLong R) e) (delimited 7 (RouteUpdateRequest_bytes e))"
    if "nrq_updateroute m = Some e" for e
    using short that by (intro put_message_puts [OF R] RouteUpdateRequest_size [OF R] RouteUpdateRequest_puts [OF R]) simp_all
  have f8: "puts ok failed out addr (put_message R 8 (RouteDeleteRequest_InternalSerialize V R) (RouteDeleteRequest_ByteSizeLong R) e) (delimited 8 (RouteDeleteRequest_bytes e))"
    if "nrq_deleteroute m = Some e" for e
    using short that by (intro put_message_puts [OF R] RouteDeleteRequest_size [OF R] RouteDeleteRequest_puts [OF R]) simp_all
  have f9: "puts ok failed out addr (put_message R 9 (HelpJoinRequset_InternalSerialize V R) (HelpJoinRequset_ByteSizeLong R) e) (delimited 9 (HelpJoinRequset_bytes e))"
    if "nrq_helpjoin m = Some e" for e
    using short that by (intro put_message_puts [OF R] HelpJoinRequset_size [OF R] HelpJoinRequset_puts [OF R]) simp_all
  show ?thesis
    unfolding NodeRequest_InternalSerialize_def NodeRequest_bytes_def
    by (intro then_puts when_puts put_int64_puts put_unknown_puts [OF R]) (fact f2 f3 f4 f5 f6 f7 f8 f9)+
qed

lemma NodeResponse_puts:
  assumes R: "runtime_ok ok failed out addr R" and len: "length (NodeResponse_bytes m) < 2 ^ 31"
  shows "puts ok failed out addr (NodeResponse_InternalSerialize V R m) (NodeResponse_bytes m)"
proof -
  note short = len [unfolded NodeResponse_bytes_def when_bytes_def delimited_def]
  have f2: "puts ok failed out addr (put_message R 2 (LookupFileResponse_InternalSerialize V R) (LookupFileResponse_ByteSizeLong R) e) (delimited 2 (LookupFileResponse_bytes e))"
    if "nrp_lookup m = Some e" for e
    using short that by (intro put_message_puts [OF R] LookupFileResponse_size [OF R] LookupFileResponse_puts [OF R]) simp_all
  have f3: "puts ok failed out addr (put_message R 3 (FileInfoResponse_InternalSerialize V R) (FileInfoResponse_ByteSizeLong R) e) (delimited 3 (FileInfoResponse_bytes e))"
    if "nrp_fileinforsp m = Some e" for e
    using short that by (intro put_message_puts [OF R] FileInfoResponse_size [OF R] FileInfoResponse_puts [OF R]) simp_all
  have f4: "puts ok failed out addr (put_message R 4 (RouteTableInit_InternalSerialize V R) (RouteTableInit_ByteSizeLong R) e) (delimited 4 (RouteTableInit_bytes e))"
    if "nrp_routeinit m = Some e" for e
    using short that by (intro put_message_puts [OF R] RouteTableInit_size [OF R] RouteTableInit_puts [OF R]) simp_all
  have f5: "puts ok failed out addr (put_message R 5 (FileTable_InternalSerialize V R) (FileTable_ByteSizeLong R) e) (delimited 5 (FileTable_bytes e))"
    if "nrp_filetable m = Some e" for e
    using short that by (intro put_message_puts [OF R] FileTable_size [OF R] FileTable_puts [OF R]) simp_all
  have f6: "puts ok failed out addr (put_message R 6 (HelpJoinResponse_InternalSerialize V R) (HelpJoinResponse_ByteSizeLong R) e) (delimited 6 (HelpJoinResponse_bytes e))"
    if "nrp_helpjoin m = Some e" for e
    using short that by (intro put_message_puts [OF R] HelpJoinResponse_size [OF R] HelpJoinResponse_puts [OF R]) simp_all
  have f7: "puts ok failed out addr (put_message R 7 (RouteUpdateResponse_InternalSerialize V R) (RouteUpdateResponse_ByteSizeLong R) e) (delimited 7 (RouteUpdateResponse_bytes e))"
    if "nrp_updateroute m = Some e" for e
    using short that by (intro put_message_puts [OF R] RouteUpdateResponse_size [OF R] RouteUpdateResponse_puts [OF R]) simp_all
  have f8: "puts ok failed out addr (put_message R 8 (LookupNodeResponse_InternalSerialize V R) (LookupNodeResponse_ByteSizeLong R) e) (delimited 8 (LookupNodeResponse_bytes e))"
    if "nrp_lookupnode m = Some e" for e
    using short that by (intro put_message_puts [OF R] LookupNodeResponse_size [OF R] LookupNodeResponse_puts [OF R]) simp_all
  show ?thesis
    unfolding NodeResponse_InternalSerialize_def NodeResponse_bytes_def
    by (intro then_puts when_puts put_int64_puts put_unknown_puts [OF R]) (fact f2 f3 f4 f5 f6 f7 f8)+
qed

end

end
