(* ===== verification/Parse_Context.thy ===== *)
theory Parse_Context
  imports Wire_Messages
begin

text \<open>
  What the generated parsers (\<open>_InternalParse\<close> in \<open>P2P_Protocol.pb.cc\<close>) have in common: the loop over the
  fields of a message, with the label \<open>handle_unusual\<close>, and the parsers of a field of each type. They read from a
  \<open>ParseContext\<close> (\<open>parse_context.h\<close>) through a pointer; the functions of it that leave the current piece of the input
  are defined in \<open>parse_context.cc\<close>, which is not in the repository. The context is the parameter: the record of its
  operations, and the locale \<open>parse_context\<close> with the laws on them that the header documents, for a well-formed input.
\<close>

section \<open>The operations of a context\<close>

text \<open>
  A state \<open>'c\<close> is the context with the pointer, and \<open>None\<close> stands for a null pointer. \<open>pc_Done\<close> is
  \<open>Done(&ptr)\<close>, \<open>pc_ReadTag\<close> and \<open>pc_ReadVarint64\<close> the functions of these names, \<open>pc_GreedyString\<close>
  \<open>InlineGreedyStringParser\<close>, which is given the string and returns its new value. \<open>pc_Push\<close> is
  \<open>ReadSizeAndPushLimitAndDepth\<close> and returns the old limit; \<open>pc_Pop\<close> is \<open>depth_++\<close> with \<open>PopLimit\<close>.
  \<open>pc_peek\<close> is \<open>*ptr\<close> and \<open>pc_advance\<close> \<open>ptr += 1\<close>.
\<close>

record 'c context_ops =
  pc_Done :: "'c \<Rightarrow> (bool \<times> 'c option) run"
  pc_ReadTag :: "'c \<Rightarrow> (32 word \<times> 'c option) run"
  pc_ReadVarint64 :: "'c \<Rightarrow> (64 word \<times> 'c option) run"
  pc_GreedyString :: "byte list \<Rightarrow> 'c \<Rightarrow> (byte list \<times> 'c option) run"
  pc_Push :: "'c \<Rightarrow> (int \<times> 'c option) run"
  pc_Pop :: "int \<Rightarrow> 'c \<Rightarrow> (bool \<times> 'c) run"
  pc_DataAvailable :: "'c \<Rightarrow> bool"
  pc_peek :: "'c \<Rightarrow> byte"
  pc_advance :: "'c \<Rightarrow> 'c"
  pc_SetLastTag :: "32 word \<Rightarrow> 'c \<Rightarrow> 'c"
  pc_UnknownFieldParse :: "32 word \<Rightarrow> unknown_field list \<Rightarrow> 'c \<Rightarrow> (unknown_field list \<times> 'c option) run"

text \<open>A parser of (a part of) a message: the message as far as it was read, and the pointer.\<close>

type_synonym ('m, 'c) parser = "'m \<Rightarrow> 'c \<Rightarrow> ('m \<times> 'c option) run"

text \<open>The parser of one field; \<open>None\<close> is \<open>goto handle_unusual\<close>.\<close>

type_synonym ('m, 'c) field_parser = "32 word \<Rightarrow> 'm \<Rightarrow> 'c \<Rightarrow> ('m \<times> 'c option) option run"

text \<open>
  The \<open>while\<close> loop. \<open>CHK_\<close> ends it with a null pointer. \<open>ReadTag\<close> returns the tag 0 with a null pointer, which
  ends in the \<open>CHK_\<close> of \<open>handle_unusual\<close>.
\<close>

partial_function (option) parse_loop ::
    "'c context_ops \<Rightarrow> ('m, 'c) field_parser \<Rightarrow> (32 word \<Rightarrow> ('m, 'c) parser) \<Rightarrow> ('m, 'c) parser" where
  "parse_loop P field unknown m ctx =
     bind_run (pc_Done P ctx) (\<lambda>(done, ptr).
       case ptr of
         None \<Rightarrow> return_run (m, None)
       | Some ctx \<Rightarrow>
           if done then return_run (m, Some ctx)
           else
             bind_run (pc_ReadTag P ctx) (\<lambda>(tag, ptr).
             case ptr of
               None \<Rightarrow> return_run (m, None)
             | Some ctx \<Rightarrow>
                 bind_run (field tag m ctx) (\<lambda>r.
                 case r of
                   Some (m, None) \<Rightarrow> return_run (m, None)
                 | Some (m, Some ctx) \<Rightarrow> parse_loop P field unknown m ctx
                 | None \<Rightarrow>
                     if tag = 0 \<or> tag AND 7 = 4 then return_run (m, Some (pc_SetLastTag P tag ctx))
                     else
                       bind_run (unknown tag m ctx) (\<lambda>(m, ptr).
                       case ptr of
                         None \<Rightarrow> return_run (m, None)
                       | Some ctx \<Rightarrow> parse_loop P field unknown m ctx))))"

text \<open>A \<open>case\<close> of the \<open>switch\<close> on the number of the field: its low byte must be the expected one.\<close>

definition field_case :: "32 word \<Rightarrow> byte \<Rightarrow> 32 word \<Rightarrow> ('m \<times> 'c option) run \<Rightarrow> ('m \<times> 'c option) option run \<Rightarrow> ('m \<times> 'c option) option run" where
  "field_case num expected tag body others =
     (if drop_bit 3 tag = num then
        (if ucast tag = expected then bind_run body (\<lambda>r. return_run (Some r)) else return_run None)
      else others)"

text \<open>The values of the types: the value is stored and its has-bit set even if the pointer becomes null.\<close>

definition parse_int64 :: "'c context_ops \<Rightarrow> (int \<Rightarrow> 'm \<Rightarrow> 'm) \<Rightarrow> ('m, 'c) parser" where
  "parse_int64 P put m ctx = bind_run (pc_ReadVarint64 P ctx) (\<lambda>(v, ptr). return_run (put (sint v) m, ptr))"

definition parse_bool :: "'c context_ops \<Rightarrow> (bool \<Rightarrow> 'm \<Rightarrow> 'm) \<Rightarrow> ('m, 'c) parser" where
  "parse_bool P put m ctx = bind_run (pc_ReadVarint64 P ctx) (\<lambda>(v, ptr). return_run (put (v \<noteq> 0) m, ptr))"

definition bytes_string :: "byte list \<Rightarrow> string" where
  "bytes_string bs = map (\<lambda>b. char_of (unat b)) bs"

definition parse_string :: "'c context_ops \<Rightarrow> ('m \<Rightarrow> string) \<Rightarrow> (string \<Rightarrow> 'm \<Rightarrow> 'm) \<Rightarrow> ('m, 'c) parser" where
  "parse_string P get put m ctx =
     bind_run (pc_GreedyString P (string_bytes (get m)) ctx) (\<lambda>(s, ptr). return_run (put (bytes_string s) m, ptr))"

text \<open>\<open>ctx->ParseMessage(msg, ptr)\<close>.\<close>

definition ParseMessage :: "'c context_ops \<Rightarrow> ('m, 'c) parser \<Rightarrow> ('m, 'c) parser" where
  "ParseMessage P InternalParse msg ctx =
     bind_run (pc_Push P ctx) (\<lambda>(old, ptr).
     bind_run (case ptr of None \<Rightarrow> return_run (msg, None) | Some ctx \<Rightarrow> InternalParse msg ctx) (\<lambda>(msg, ptr).
     case ptr of
       None \<Rightarrow> return_run (msg, None)
     | Some ctx \<Rightarrow>
         bind_run (pc_Pop P old ctx) (\<lambda>(ended, ctx). return_run (msg, if ended then Some ctx else None))))"

text \<open>\<open>UnknownFieldParse(tag, mutable_unknown_fields(), ptr, ctx)\<close>.\<close>

definition parse_unknown ::
    "'c context_ops \<Rightarrow> ('m \<Rightarrow> unknown_field list) \<Rightarrow> (unknown_field list \<Rightarrow> 'm \<Rightarrow> 'm) \<Rightarrow> 32 word \<Rightarrow> ('m, 'c) parser" where
  "parse_unknown P get put tag m ctx =
     bind_run (pc_UnknownFieldParse P tag (get m) ctx) (\<lambda>(us, ptr). return_run (put us m, ptr))"

text \<open>A sub-message is made when it is missing; the new one is merged into an old one.\<close>

definition parse_message :: "'c context_ops \<Rightarrow> ('n, 'c) parser \<Rightarrow> ('m \<Rightarrow> 'n) \<Rightarrow> ('n \<Rightarrow> 'm \<Rightarrow> 'm) \<Rightarrow> ('m, 'c) parser" where
  "parse_message P InternalParse mutable put m ctx =
     bind_run (ParseMessage P InternalParse (mutable m) ctx) (\<lambda>(n, ptr). return_run (put n m, ptr))"

text \<open>A repeated sub-message: further ones follow directly while the next byte is the tag, if it is in the buffer.\<close>

partial_function (option) parse_repeated ::
    "'c context_ops \<Rightarrow> ('n, 'c) parser \<Rightarrow> 'n \<Rightarrow> byte \<Rightarrow> ('n \<Rightarrow> 'm \<Rightarrow> 'm) \<Rightarrow> ('m, 'c) parser" where
  "parse_repeated P InternalParse new tag add m ctx =
     bind_run (ParseMessage P InternalParse new ctx) (\<lambda>(n, ptr).
       let m = add n m
       in case ptr of
            None \<Rightarrow> return_run (m, None)
          | Some ctx \<Rightarrow>
              if \<not> pc_DataAvailable P ctx then return_run (m, Some ctx)
              else if pc_peek P ctx = tag then parse_repeated P InternalParse new tag add m (pc_advance P ctx)
              else return_run (m, Some ctx))"

section \<open>The laws of a context\<close>

text \<open>
  \<open>sees c bs outer\<close>: from the pointer to the current limit there are the bytes \<open>bs\<close>, and \<open>outer\<close> are the limits
  pushed before, the innermost first, each with the old limit it has to be popped with and the bytes from the end
  of what lies inside to it. Messages are nested to less than \<open>depth\<close>.
\<close>

locale parse_context =
  fixes P :: "'c context_ops"
    and sees :: "'c \<Rightarrow> byte list \<Rightarrow> (int \<times> byte list) list \<Rightarrow> bool"
    and depth :: nat
  assumes done_end: "sees c [] os \<Longrightarrow> \<exists>d. pc_Done P c = return_run (True, Some d) \<and> sees d [] os"
    and done_more: "sees c bs os \<Longrightarrow> bs \<noteq> [] \<Longrightarrow> \<exists>d. pc_Done P c = return_run (False, Some d) \<and> sees d bs os"
    and read_tag: "sees c (WriteTagToArray tag @ bs) os \<Longrightarrow> tag \<noteq> 0 \<Longrightarrow>
      \<exists>d. pc_ReadTag P c = return_run (tag, Some d) \<and> sees d bs os"
    and read_varint: "sees c (WriteVarint64ToArray v @ bs) os \<Longrightarrow>
      \<exists>d. pc_ReadVarint64 P c = return_run (v, Some d) \<and> sees d bs os"
    and greedy_string: "sees c (WriteVarint32ToArray (word_of_nat (length s)) @ s @ bs) os \<Longrightarrow> int (length s) < INT_MAX - 16 \<Longrightarrow>
      \<exists>d. pc_GreedyString P str c = return_run (s, Some d) \<and> sees d bs os"
    and push: "sees c (WriteVarint32ToArray (word_of_nat (length ms)) @ ms @ bs) os \<Longrightarrow> int (length ms) < INT_MAX - 16 \<Longrightarrow>
      length os < depth \<Longrightarrow> \<exists>old d. pc_Push P c = return_run (old, Some d) \<and> sees d ms ((old, bs) # os)"
    and pop: "sees c [] ((old, bs) # os) \<Longrightarrow> \<exists>d. pc_Pop P old c = return_run (True, d) \<and> sees d bs os"
    and available: "sees c bs os \<Longrightarrow> pc_DataAvailable P c \<Longrightarrow> bs \<noteq> [] \<and> pc_peek P c = hd bs \<and> sees (pc_advance P c) (tl bs) os"
begin

end

text \<open>A parser that reads exactly the bytes of a message, with room for \<open>levels\<close> further levels of messages.\<close>

definition reads_message ::
    "('c \<Rightarrow> byte list \<Rightarrow> (int \<times> byte list) list \<Rightarrow> bool) \<Rightarrow> nat \<Rightarrow> nat \<Rightarrow> ('m, 'c) parser \<Rightarrow> 'm \<Rightarrow> byte list \<Rightarrow> 'm \<Rightarrow> bool" where
  "reads_message sees depth levels parse start bs m \<longleftrightarrow> (\<forall>c os. sees c bs os \<and> length os + levels \<le> depth \<longrightarrow>
     (\<exists>d. parse start c = return_run (m, Some d) \<and> sees d [] os))"

text \<open>A parser that goes on behind the bytes \<open>bs\<close> with the message \<open>m'\<close>.\<close>

definition advances ::
    "('c \<Rightarrow> byte list \<Rightarrow> (int \<times> byte list) list \<Rightarrow> bool) \<Rightarrow> nat \<Rightarrow> nat \<Rightarrow> ('m, 'c) parser \<Rightarrow> 'm \<Rightarrow> byte list \<Rightarrow> 'm \<Rightarrow> bool" where
  "advances sees depth levels loop m bs m' \<longleftrightarrow> (\<forall>c r os. sees c (bs @ r) os \<and> length os + levels \<le> depth \<longrightarrow>
     (\<exists>d. loop m c = loop m' d \<and> sees d r os))"

text \<open>A parser of a value that reads \<open>bs\<close>.\<close>

definition reads_field ::
    "('c \<Rightarrow> byte list \<Rightarrow> (int \<times> byte list) list \<Rightarrow> bool) \<Rightarrow> nat \<Rightarrow> nat \<Rightarrow> ('m, 'c) parser \<Rightarrow> 'm \<Rightarrow> byte list \<Rightarrow> 'm \<Rightarrow> bool" where
  "reads_field sees depth levels parse m bs m' \<longleftrightarrow> (\<forall>c r os. sees c (bs @ r) os \<and> length os + levels \<le> depth \<longrightarrow>
     (\<exists>d. parse m c = return_run (m', Some d) \<and> sees d r os))"

text \<open>A \<open>case\<close> of the \<open>switch\<close> that handles the tag.\<close>

definition handles ::
    "('c \<Rightarrow> byte list \<Rightarrow> (int \<times> byte list) list \<Rightarrow> bool) \<Rightarrow> nat \<Rightarrow> nat \<Rightarrow> ('m, 'c) field_parser \<Rightarrow> 32 word \<Rightarrow> 'm \<Rightarrow> byte list \<Rightarrow> 'm \<Rightarrow> bool" where
  "handles sees depth levels field tag m bs m' \<longleftrightarrow> (\<forall>c r os. sees c (bs @ r) os \<and> length os + levels \<le> depth \<longrightarrow>
     (\<exists>d. field tag m c = return_run (Some (m', Some d)) \<and> sees d r os))"

lemma advances_nil: "advances sees depth levels loop m [] m"
  by (auto simp: advances_def)

lemma advances_append:
  assumes "advances sees depth levels loop m as m'" and "advances sees depth levels loop m' bs m''"
  shows "advances sees depth levels loop m (as @ bs) m''"
  using assms unfolding advances_def by (metis append_assoc)

lemma advances_when:
  assumes "\<And>x. v = Some x \<Longrightarrow> advances sees depth levels loop m (b x) m'" and "v = None \<Longrightarrow> m' = m"
  shows "advances sees depth levels loop m (when_bytes v b) m'"
  using assms by (cases v) (simp_all add: when_bytes_def advances_nil)

lemma string_bytes_inverse [simp]: "bytes_string (string_bytes s) = s"
proof -
  have "char_of (unat (of_char c :: byte)) = c" for c
  proof -
    have "unat (word_of_nat (of_char c) :: byte) = of_char c"
      by (simp add: unsigned_of_nat take_bit_eq_mod of_char_mod_256)
    then have "unat (of_char c :: byte) = of_char c" by (simp only: of_nat_of_char)
    then show ?thesis by simp
  qed
  then show ?thesis by (induction s) (simp_all add: bytes_string_def string_bytes_def)
qed

context parse_context
begin

lemma loop_end:
  assumes "sees c [] os"
  shows "\<exists>d. parse_loop P field unknown m c = return_run (m, Some d) \<and> sees d [] os"
proof -
  from done_end [OF assms] obtain d where "pc_Done P c = return_run (True, Some d)" "sees d [] os" by blast
  then show ?thesis by (subst parse_loop.simps) simp
qed

lemma loop_step:
  assumes "tag \<noteq> 0" and field: "handles sees depth levels field tag m bs m'"
  shows "advances sees depth levels (parse_loop P field unknown) m (WriteTagToArray tag @ bs) m'"
  unfolding advances_def
proof (intro allI impI, elim conjE)
  fix c r os
  assume c: "sees c ((WriteTagToArray tag @ bs) @ r) os" and lev: "length os + levels \<le> depth"
  have "(WriteTagToArray tag @ bs) @ r \<noteq> []"
    by (simp add: WriteTagToArray_def WriteVarint32ToArray_def UnsafeVarint_enc) (subst varint_enc.simps, simp)
  from done_more [OF c this] obtain d where d: "pc_Done P c = return_run (False, Some d)"
    "sees d (WriteTagToArray tag @ bs @ r) os" by auto
  from read_tag [OF d(2) assms(1)] obtain e where e: "pc_ReadTag P d = return_run (tag, Some e)" "sees e (bs @ r) os" by blast
  from field e(2) lev obtain f where f: "field tag m e = return_run (Some (m', Some f))" "sees f r os"
    unfolding handles_def by blast
  have "parse_loop P field unknown m c = parse_loop P field unknown m' f"
    by (subst parse_loop.simps) (simp add: d e f)
  with f(2) show "\<exists>d. parse_loop P field unknown m c = parse_loop P field unknown m' d \<and> sees d r os" by blast
qed

lemma reads_messageI:
  assumes "advances sees depth levels (parse_loop P field unknown) start bs m"
  shows "reads_message sees depth levels (parse_loop P field unknown) start bs m"
  unfolding reads_message_def
proof (intro allI impI, elim conjE)
  fix c os
  assume "sees c bs os" and "length os + levels \<le> depth"
  then have "sees c (bs @ []) os" "length os + levels \<le> depth" by simp_all
  with assms obtain d where "parse_loop P field unknown start c = parse_loop P field unknown m d" "sees d [] os"
    unfolding advances_def by blast
  with loop_end [of d os field unknown m]
  show "\<exists>d. parse_loop P field unknown start c = return_run (m, Some d) \<and> sees d [] os" by metis
qed

lemma handlesI:
  assumes "\<And>c. field tag m c = bind_run (parse m c) (\<lambda>r. return_run (Some r))"
    and "reads_field sees depth levels parse m bs m'"
  shows "handles sees depth levels field tag m bs m'"
  unfolding handles_def
proof (intro allI impI)
  fix c r os
  assume "sees c (bs @ r) os \<and> length os + levels \<le> depth"
  with assms(2) obtain d where "parse m c = return_run (m', Some d)" "sees d r os" unfolding reads_field_def by blast
  with assms(1) show "\<exists>d. field tag m c = return_run (Some (m', Some d)) \<and> sees d r os" by simp
qed

section \<open>Fields\<close>

text \<open>The tags of the fields of the messages.\<close>

lemma make_tags:
  "MakeTag 1 WIRETYPE_VARINT = 8" "MakeTag 3 WIRETYPE_VARINT = 24" "MakeTag 4 WIRETYPE_VARINT = 32"
  "MakeTag 1 WIRETYPE_LENGTH_DELIMITED = 10" "MakeTag 2 WIRETYPE_LENGTH_DELIMITED = 18" "MakeTag 3 WIRETYPE_LENGTH_DELIMITED = 26"
  "MakeTag 4 WIRETYPE_LENGTH_DELIMITED = 34" "MakeTag 5 WIRETYPE_LENGTH_DELIMITED = 42" "MakeTag 6 WIRETYPE_LENGTH_DELIMITED = 50"
  "MakeTag 7 WIRETYPE_LENGTH_DELIMITED = 58" "MakeTag 8 WIRETYPE_LENGTH_DELIMITED = 66" "MakeTag 9 WIRETYPE_LENGTH_DELIMITED = 74"
  "WireFormatLite_WriteTagToArray 1 WIRETYPE_LENGTH_DELIMITED = [10]"
  by code_simp+

lemma parse_int64_reads:
  assumes "- (2 ^ 63) \<le> v" and "v < 2 ^ 63"
  shows "reads_field sees depth levels (parse_int64 P put) m (WriteVarint64ToArray (word_of_int v)) (put v m)"
  unfolding reads_field_def
proof (intro allI impI, elim conjE)
  fix c r os
  assume "sees c (WriteVarint64ToArray (word_of_int v) @ r) os"
  from read_varint [OF this] obtain d where "pc_ReadVarint64 P c = return_run (word_of_int v, Some d)" "sees d r os" by blast
  moreover have "sint (word_of_int v :: 64 word) = v" using assms by (simp add: signed_of_int signed_take_bit_int_eq_self)
  ultimately show "\<exists>d. parse_int64 P put m c = return_run (put v m, Some d) \<and> sees d r os" by (simp add: parse_int64_def)
qed

lemma parse_bool_reads:
  "reads_field sees depth levels (parse_bool P put) m (WriteBoolNoTagToArray v) (put v m)"
  unfolding reads_field_def
proof (intro allI impI, elim conjE)
  fix c r os
  let ?w = "if v then 1 else 0 :: 64 word"
  assume c: "sees c (WriteBoolNoTagToArray v @ r) os"
  have "WriteBoolNoTagToArray v = WriteVarint64ToArray ?w"
    by (simp add: WriteBoolNoTagToArray_def WriteVarint32ToArray_def WriteVarint64ToArray_def UnsafeVarint_enc)
  with read_varint [of c ?w r os] c obtain d where "pc_ReadVarint64 P c = return_run (?w, Some d)" "sees d r os" by auto
  then show "\<exists>d. parse_bool P put m c = return_run (put v m, Some d) \<and> sees d r os" by (simp add: parse_bool_def)
qed

lemma parse_string_reads:
  assumes "int (length v) < INT_MAX - 16"
  shows "reads_field sees depth levels (parse_string P get put) m
    (WriteVarint32ToArray (word_of_nat (length (string_bytes v))) @ string_bytes v) (put v m)"
  unfolding reads_field_def
proof (intro allI impI, elim conjE)
  fix c r os
  assume "sees c ((WriteVarint32ToArray (word_of_nat (length (string_bytes v))) @ string_bytes v) @ r) os"
  then have c: "sees c (WriteVarint32ToArray (word_of_nat (length (string_bytes v))) @ string_bytes v @ r) os" by simp
  have "int (length (string_bytes v)) < INT_MAX - 16" using assms by (simp add: string_bytes_def)
  from greedy_string [OF c this] obtain d where "pc_GreedyString P (string_bytes (get m)) c = return_run (string_bytes v, Some d)"
    "sees d r os" by blast
  then show "\<exists>d. parse_string P get put m c = return_run (put v m, Some d) \<and> sees d r os" by (simp add: parse_string_def)
qed

lemma ParseMessage_reads:
  assumes "reads_message sees depth levels parse n bs n'" and len: "int (length bs) < INT_MAX - 16"
  shows "reads_field sees depth (Suc levels) (ParseMessage P parse) n (WriteVarint32ToArray (word_of_nat (length bs)) @ bs) n'"
  unfolding reads_field_def
proof (intro allI impI, elim conjE)
  fix c r os
  assume "sees c ((WriteVarint32ToArray (word_of_nat (length bs)) @ bs) @ r) os" and lev: "length os + Suc levels \<le> depth"
  then have c: "sees c (WriteVarint32ToArray (word_of_nat (length bs)) @ bs @ r) os" and "length os < depth" by simp_all
  from push [OF c len this(2)] obtain old d where d: "pc_Push P c = return_run (old, Some d)" "sees d bs ((old, r) # os)" by blast
  with assms(1) lev obtain e where e: "parse n d = return_run (n', Some e)" "sees e [] ((old, r) # os)"
    unfolding reads_message_def by fastforce
  from pop [OF e(2)] obtain f where "pc_Pop P old e = return_run (True, f)" "sees f r os" by blast
  with d e show "\<exists>d. ParseMessage P parse n c = return_run (n', Some d) \<and> sees d r os" by (simp add: ParseMessage_def)
qed

lemma parse_message_reads:
  assumes "reads_message sees depth levels parse (mutable m) bs n" and "int (length bs) < INT_MAX - 16"
  shows "reads_field sees depth (Suc levels) (parse_message P parse mutable put) m
    (WriteVarint32ToArray (word_of_nat (length bs)) @ bs) (put n m)"
  using ParseMessage_reads [OF assms] unfolding reads_field_def by (fastforce simp: parse_message_def)

text \<open>The fields of the types, behind their tags.\<close>

lemma int64_advances:
  assumes "\<And>c. field tag m c = bind_run (parse_int64 P put m c) (\<lambda>r. return_run (Some r))"
    and "MakeTag num WIRETYPE_VARINT = tag" and "tag \<noteq> 0" and "- (2 ^ 63) \<le> v \<and> v < 2 ^ 63"
  shows "advances sees depth levels (parse_loop P field unknown) m (int64_field num v) (put v m)"
  using loop_step [OF assms(3) handlesI [where field = field and tag = tag and m = m and parse = "parse_int64 P put", OF assms(1) parse_int64_reads]] assms(2,4)
  by (simp add: int64_field_def WriteInt64ToArray_def WireFormatLite_WriteTagToArray_def WriteInt64NoTagToArray_def)

lemma bool_advances:
  assumes "\<And>c. field tag m c = bind_run (parse_bool P put m c) (\<lambda>r. return_run (Some r))"
    and "MakeTag num WIRETYPE_VARINT = tag" and "tag \<noteq> 0"
  shows "advances sees depth levels (parse_loop P field unknown) m (WriteBoolToArray num v) (put v m)"
  using loop_step [OF assms(3) handlesI [where field = field and tag = tag and m = m and parse = "parse_bool P put", OF assms(1) parse_bool_reads]] assms(2)
  by (simp add: WriteBoolToArray_def WireFormatLite_WriteTagToArray_def)

lemma string_advances:
  assumes "\<And>c. field tag m c = bind_run (parse_string P get put m c) (\<lambda>r. return_run (Some r))"
    and "MakeTag num WIRETYPE_LENGTH_DELIMITED = tag" and "tag \<noteq> 0" and "int (length v) < INT_MAX - 16"
  shows "advances sees depth levels (parse_loop P field unknown) m (string_field num v) (put v m)"
  using loop_step [OF assms(3) handlesI [where field = field and tag = tag and m = m and parse = "parse_string P get put", OF assms(1) parse_string_reads [OF assms(4)]]] assms(2)
  by (simp add: string_field_def delimited_def WireFormatLite_WriteTagToArray_def)

lemma message_advances:
  assumes "\<And>c. field tag m c = bind_run (parse_message P parse mutable put m c) (\<lambda>r. return_run (Some r))"
    and "MakeTag num WIRETYPE_LENGTH_DELIMITED = tag" and "tag \<noteq> 0"
    and "reads_message sees depth levels parse (mutable m) bs n" and "int (length bs) < INT_MAX - 16"
  shows "advances sees depth (Suc levels) (parse_loop P field unknown) m (delimited num bs) (put n m)"
  using loop_step [OF assms(3) handlesI [where field = field and tag = tag and m = m and parse = "parse_message P parse mutable put",
      OF assms(1) parse_message_reads [where mutable = mutable and m = m, OF assms(4,5)]]] assms(2)
  by (simp add: delimited_def WireFormatLite_WriteTagToArray_def)

text \<open>The same for a field that may be absent; \<open>m'\<close> is the message with the field.\<close>

lemma when_int64:
  assumes "\<And>c. field tag m c = bind_run (parse_int64 P put m c) (\<lambda>r. return_run (Some r))"
    and "MakeTag num WIRETYPE_VARINT = tag" and "tag \<noteq> 0"
    and "\<And>x. v = Some x \<Longrightarrow> - (2 ^ 63) \<le> x \<and> x < 2 ^ 63" and "\<And>x. v = Some x \<Longrightarrow> m' = put x m" and "v = None \<Longrightarrow> m' = m"
  shows "advances sees depth levels (parse_loop P field unknown) m (when_bytes v (int64_field num)) m'"
  using int64_advances [where field = field and tag = tag and m = m and put = put, OF assms(1-3)] assms(4-6)
  by (intro advances_when) simp_all

lemma when_bool:
  assumes "\<And>c. field tag m c = bind_run (parse_bool P put m c) (\<lambda>r. return_run (Some r))"
    and "MakeTag num WIRETYPE_VARINT = tag" and "tag \<noteq> 0"
    and "\<And>x. v = Some x \<Longrightarrow> m' = put x m" and "v = None \<Longrightarrow> m' = m"
  shows "advances sees depth levels (parse_loop P field unknown) m (when_bytes v (WriteBoolToArray num)) m'"
  using bool_advances [where field = field and tag = tag and m = m and put = put, OF assms(1-3)] assms(4-5)
  by (intro advances_when) simp_all

lemma when_string:
  assumes "\<And>c. field tag m c = bind_run (parse_string P get put m c) (\<lambda>r. return_run (Some r))"
    and "MakeTag num WIRETYPE_LENGTH_DELIMITED = tag" and "tag \<noteq> 0"
    and "\<And>x. v = Some x \<Longrightarrow> int (length x) < INT_MAX - 16" and "\<And>x. v = Some x \<Longrightarrow> m' = put x m" and "v = None \<Longrightarrow> m' = m"
  shows "advances sees depth levels (parse_loop P field unknown) m (when_bytes v (string_field num)) m'"
  using string_advances [where field = field and tag = tag and m = m and get = get and put = put, OF assms(1-3)] assms(4-6)
  by (intro advances_when) simp_all

lemma when_message:
  assumes "\<And>c. field tag m c = bind_run (parse_message P parse mutable put m c) (\<lambda>r. return_run (Some r))"
    and "MakeTag num WIRETYPE_LENGTH_DELIMITED = tag" and "tag \<noteq> 0"
    and "\<And>x. v = Some x \<Longrightarrow> reads_message sees depth levels parse (mutable m) (b x) x"
    and "\<And>x. v = Some x \<Longrightarrow> int (length (b x)) < INT_MAX - 16" and "\<And>x. v = Some x \<Longrightarrow> m' = put x m" and "v = None \<Longrightarrow> m' = m"
  shows "advances sees depth (Suc levels) (parse_loop P field unknown) m (when_bytes v (\<lambda>x. delimited num (b x))) m'"
  using message_advances [where field = field and tag = tag and m = m and put = put and mutable = mutable, OF assms(1-3)] assms(4-7)
  by (intro advances_when) simp_all

text \<open>
  Repeated messages: one run of the inner loop reads some of them, as many as the buffer shows; the outer loop then
  goes on with the rest.
\<close>

lemma ParseMessage_then:
  assumes "reads_message sees depth levels parse n bs n' \<and> int (length bs) < INT_MAX - 16" and "length os + Suc levels \<le> depth"
    and "sees c (WriteVarint32ToArray (word_of_nat (length bs)) @ bs @ r) os"
  obtains d where "ParseMessage P parse n c = return_run (n', Some d)" and "sees d r os"
proof -
  from assms(3) have "sees c ((WriteVarint32ToArray (word_of_nat (length bs)) @ bs) @ r) os" by simp
  with ParseMessage_reads [OF conjunct1 [OF assms(1)] conjunct2 [OF assms(1)]] assms(2) that show thesis
    unfolding reads_field_def by blast
qed

lemma parse_repeated_reads:
  assumes "\<And>e. e \<in> set (x # xs) \<Longrightarrow> reads_message sees depth levels parse new (b e) e \<and> int (length (b e)) < INT_MAX - 16"
    and one: "WireFormatLite_WriteTagToArray num WIRETYPE_LENGTH_DELIMITED = [tag]" and lev: "length os + Suc levels \<le> depth"
    and "sees c (WriteVarint32ToArray (word_of_nat (length (b x))) @ b x @ concat (map (\<lambda>e. delimited num (b e)) xs)) os"
  shows "\<exists>ys zs d. xs = ys @ zs \<and> parse_repeated P parse new tag add m c = return_run (fold add (x # ys) m, Some d) \<and>
    sees d (concat (map (\<lambda>e. delimited num (b e)) zs)) os"
  using assms(1,4)
proof (induction xs arbitrary: x m c)
  case Nil
  from Nil(2) have "sees c (WriteVarint32ToArray (word_of_nat (length (b x))) @ b x @ []) os" by simp
  with Nil(1) [of x] lev obtain d where d: "ParseMessage P parse new c = return_run (x, Some d)" "sees d [] os"
    using ParseMessage_then [of levels parse new "b x" x os c "[]"] by auto
  have "\<not> pc_DataAvailable P d" using available [OF d(2)] by blast
  then have "parse_repeated P parse new tag add m c = return_run (fold add [x] m, Some d)"
    by (subst parse_repeated.simps) (simp add: d(1))
  with d(2) show ?case by fastforce
next
  case (Cons y xs)
  let ?more = "concat (map (\<lambda>e. delimited num (b e)) (y # xs))"
  have "reads_message sees depth levels parse new (b x) x \<and> int (length (b x)) < INT_MAX - 16" using Cons.prems(1) by simp
  from ParseMessage_then [OF this lev Cons.prems(2)] obtain d where
    d: "ParseMessage P parse new c = return_run (x, Some d)" "sees d ?more os" .
  have more: "?more = tag # WriteVarint32ToArray (word_of_nat (length (b y))) @ b y @ concat (map (\<lambda>e. delimited num (b e)) xs)"
    by (simp add: delimited_def one)
  show ?case
  proof (cases "pc_DataAvailable P d")
    case False
    then have "parse_repeated P parse new tag add m c = return_run (fold add [x] m, Some d)"
      by (subst parse_repeated.simps) (simp add: d(1))
    with d(2) show ?thesis by fastforce
  next
    case True
    with available [OF d(2)] more have a: "pc_peek P d = tag"
      "sees (pc_advance P d) (WriteVarint32ToArray (word_of_nat (length (b y))) @ b y @ concat (map (\<lambda>e. delimited num (b e)) xs)) os"
      by simp_all
    have "\<And>e. e \<in> set (y # xs) \<Longrightarrow> reads_message sees depth levels parse new (b e) e \<and> int (length (b e)) < INT_MAX - 16"
      using Cons.prems(1) by simp
    from Cons.IH [OF this a(2), of "add x m"] obtain ys zs f where f: "xs = ys @ zs"
      "parse_repeated P parse new tag add (add x m) (pc_advance P d) = return_run (fold add (y # ys) (add x m), Some f)"
      "sees f (concat (map (\<lambda>e. delimited num (b e)) zs)) os" by blast
    have "parse_repeated P parse new tag add m c = return_run (fold add (x # y # ys) m, Some f)"
      using True a(1) f(2) by (subst parse_repeated.simps) (simp add: d(1))
    with f(1,3) show ?thesis by (metis append_Cons)
  qed
qed

lemma repeated_reads:
  assumes field: "\<And>m c. field tag m c = bind_run (parse_repeated P parse new first_byte add m c) (\<lambda>r. return_run (Some r))"
    and tag: "MakeTag num WIRETYPE_LENGTH_DELIMITED = tag" "tag \<noteq> 0"
    and one: "WireFormatLite_WriteTagToArray num WIRETYPE_LENGTH_DELIMITED = [first_byte]"
    and each: "\<And>e. e \<in> set es \<Longrightarrow> reads_message sees depth levels parse new (b e) e \<and> int (length (b e)) < INT_MAX - 16"
  shows "reads_message sees depth (Suc levels) (parse_loop P field unknown) m (concat (map (\<lambda>e. delimited num (b e)) es)) (fold add es m)"
  unfolding reads_message_def
proof (intro allI impI, elim conjE)
  fix c os
  assume "sees c (concat (map (\<lambda>e. delimited num (b e)) es)) os" and lev: "length os + Suc levels \<le> depth"
  with each show "\<exists>d. parse_loop P field unknown m c = return_run (fold add es m, Some d) \<and> sees d [] os"
  proof (induction "length es" arbitrary: es m c rule: less_induct)
    case less
    show ?case
    proof (cases es)
      case Nil
      with less.prems(2) loop_end [of c os field unknown m] show ?thesis by simp
    next
      case (Cons x xs)
      let ?rest = "\<lambda>zs. concat (map (\<lambda>e. delimited num (b e)) zs)"
      let ?body = "WriteVarint32ToArray (word_of_nat (length (b x))) @ b x @ ?rest xs"
      have "WriteTagToArray tag @ ?body = ?rest es" using tag(1) Cons by (simp add: delimited_def WireFormatLite_WriteTagToArray_def)
      with less.prems(2) have c: "sees c (WriteTagToArray tag @ ?body) os" by simp
      moreover have "WriteTagToArray tag @ ?body \<noteq> []" using one tag(1) by (simp add: WireFormatLite_WriteTagToArray_def)
      ultimately obtain d where d: "pc_Done P c = return_run (False, Some d)" "sees d (WriteTagToArray tag @ ?body) os"
        using done_more by blast
      from read_tag [OF d(2) tag(2)] obtain e where e: "pc_ReadTag P d = return_run (tag, Some e)" "sees e ?body os" by blast
      have "\<And>y. y \<in> set (x # xs) \<Longrightarrow> reads_message sees depth levels parse new (b y) y \<and> int (length (b y)) < INT_MAX - 16"
        using less.prems(1) Cons by simp
      from parse_repeated_reads [OF this one lev e(2), where add = add and m = m] obtain ys zs f where f: "xs = ys @ zs"
        "parse_repeated P parse new first_byte add m e = return_run (fold add (x # ys) m, Some f)" "sees f (?rest zs) os" by blast
      have "parse_loop P field unknown m c = parse_loop P field unknown (fold add (x # ys) m) f"
        by (subst parse_loop.simps) (simp add: d(1) e(1) field f(2))
      moreover have "length zs < length es" "\<And>y. y \<in> set zs \<Longrightarrow> reads_message sees depth levels parse new (b y) y \<and> int (length (b y)) < INT_MAX - 16"
        using Cons f(1) less.prems(1) by simp_all
      from less.hyps [OF this f(3) lev, of "fold add (x # ys) m"] Cons f(1) have
        "\<exists>g. parse_loop P field unknown (fold add (x # ys) m) f = return_run (fold add es m, Some g) \<and> sees g [] os" by simp
      ultimately show ?thesis by simp
    qed
  qed
qed

end

end
