(* ===== verification/Wire_Parse.thy ===== *)
theory Wire_Parse
  imports Parse_Context
begin

text \<open>
  The parsers of the messages of \<open>P2P_Protocol.proto\<close> (\<open>P2P_Protocol.pb.cc\<close>): for every class the \<open>switch\<close> of
  \<open>_InternalParse\<close> on the number of a field, and the loop around it. \<open>X_wire_ok\<close> says which messages of class \<open>X\<close> the
  wire format can carry: the integers have 64 bits, and there are no unknown fields. The lemmas say that
  \<open>_InternalParse\<close>, on the bytes of such a message, makes the message of an empty one.
\<close>

section \<open>AddFileRequest\<close>

definition AddFileRequest_field :: "'c context_ops \<Rightarrow> (AddFileRequest, 'c) field_parser" where
  "AddFileRequest_field P tag m ctx =
     field_case 1 8 tag (parse_int64 P (\<lambda>v m. m\<lparr>afq_filenamehash := Some v\<rparr>) m ctx) (
     field_case 2 18 tag (parse_string P AddFileRequest_sourcehostname (\<lambda>v m. m\<lparr>afq_sourcehostname := Some v\<rparr>) m ctx) (
     field_case 3 26 tag (parse_string P AddFileRequest_sourceport (\<lambda>v m. m\<lparr>afq_sourceport := Some v\<rparr>) m ctx) (
     return_run None)))"

definition AddFileRequest_InternalParse :: "'c context_ops \<Rightarrow> (AddFileRequest, 'c) parser" where
  "AddFileRequest_InternalParse P = parse_loop P (AddFileRequest_field P) (parse_unknown P afq_unknown (\<lambda>us m. m\<lparr>afq_unknown := us\<rparr>))"

definition AddFileRequest_wire_ok :: "AddFileRequest \<Rightarrow> bool" where
  "AddFileRequest_wire_ok m \<longleftrightarrow> afq_unknown m = [] \<and>
     (\<forall>v. afq_filenamehash m = Some v \<longrightarrow> - (2 ^ 63) \<le> v \<and> v < 2 ^ 63)"

section \<open>LookupFileRequest\<close>

definition LookupFileRequest_field :: "'c context_ops \<Rightarrow> (LookupFileRequest, 'c) field_parser" where
  "LookupFileRequest_field P tag m ctx =
     field_case 1 8 tag (parse_int64 P (\<lambda>v m. m\<lparr>lfq_filenamehash := Some v\<rparr>) m ctx) (
     field_case 2 18 tag (parse_string P LookupFileRequest_sourcehostname (\<lambda>v m. m\<lparr>lfq_sourcehostname := Some v\<rparr>) m ctx) (
     field_case 3 26 tag (parse_string P LookupFileRequest_sourceport (\<lambda>v m. m\<lparr>lfq_sourceport := Some v\<rparr>) m ctx) (
     return_run None)))"

definition LookupFileRequest_InternalParse :: "'c context_ops \<Rightarrow> (LookupFileRequest, 'c) parser" where
  "LookupFileRequest_InternalParse P = parse_loop P (LookupFileRequest_field P) (parse_unknown P lfq_unknown (\<lambda>us m. m\<lparr>lfq_unknown := us\<rparr>))"

definition LookupFileRequest_wire_ok :: "LookupFileRequest \<Rightarrow> bool" where
  "LookupFileRequest_wire_ok m \<longleftrightarrow> lfq_unknown m = [] \<and>
     (\<forall>v. lfq_filenamehash m = Some v \<longrightarrow> - (2 ^ 63) \<le> v \<and> v < 2 ^ 63)"

section \<open>DeleteFileRequest\<close>

definition DeleteFileRequest_field :: "'c context_ops \<Rightarrow> (DeleteFileRequest, 'c) field_parser" where
  "DeleteFileRequest_field P tag m ctx =
     field_case 1 8 tag (parse_int64 P (\<lambda>v m. m\<lparr>dfq_filenamehash := Some v\<rparr>) m ctx) (
     field_case 2 18 tag (parse_string P DeleteFileRequest_sourcehostname (\<lambda>v m. m\<lparr>dfq_sourcehostname := Some v\<rparr>) m ctx) (
     field_case 3 26 tag (parse_string P DeleteFileRequest_sourceport (\<lambda>v m. m\<lparr>dfq_sourceport := Some v\<rparr>) m ctx) (
     return_run None)))"

definition DeleteFileRequest_InternalParse :: "'c context_ops \<Rightarrow> (DeleteFileRequest, 'c) parser" where
  "DeleteFileRequest_InternalParse P = parse_loop P (DeleteFileRequest_field P) (parse_unknown P dfq_unknown (\<lambda>us m. m\<lparr>dfq_unknown := us\<rparr>))"

definition DeleteFileRequest_wire_ok :: "DeleteFileRequest \<Rightarrow> bool" where
  "DeleteFileRequest_wire_ok m \<longleftrightarrow> dfq_unknown m = [] \<and>
     (\<forall>v. dfq_filenamehash m = Some v \<longrightarrow> - (2 ^ 63) \<le> v \<and> v < 2 ^ 63)"

section \<open>LookupFileResponse\<close>

definition LookupFileResponse_field :: "'c context_ops \<Rightarrow> (LookupFileResponse, 'c) field_parser" where
  "LookupFileResponse_field P tag m ctx =
     field_case 1 8 tag (parse_bool P (\<lambda>v m. m\<lparr>lfp_ifexists := Some v\<rparr>) m ctx) (
     field_case 2 18 tag (parse_string P LookupFileResponse_successorhostname (\<lambda>v m. m\<lparr>lfp_successorhostname := Some v\<rparr>) m ctx) (
     field_case 3 26 tag (parse_string P LookupFileResponse_successorport (\<lambda>v m. m\<lparr>lfp_successorport := Some v\<rparr>) m ctx) (
     field_case 4 34 tag (parse_string P LookupFileResponse_ownerhostname (\<lambda>v m. m\<lparr>lfp_ownerhostname := Some v\<rparr>) m ctx) (
     field_case 5 42 tag (parse_string P LookupFileResponse_ownerport (\<lambda>v m. m\<lparr>lfp_ownerport := Some v\<rparr>) m ctx) (
     return_run None)))))"

definition LookupFileResponse_InternalParse :: "'c context_ops \<Rightarrow> (LookupFileResponse, 'c) parser" where
  "LookupFileResponse_InternalParse P = parse_loop P (LookupFileResponse_field P) (parse_unknown P lfp_unknown (\<lambda>us m. m\<lparr>lfp_unknown := us\<rparr>))"

definition LookupFileResponse_wire_ok :: "LookupFileResponse \<Rightarrow> bool" where
  "LookupFileResponse_wire_ok m \<longleftrightarrow> lfp_unknown m = []"

section \<open>FileInfoResponse\<close>

definition FileInfoResponse_field :: "'c context_ops \<Rightarrow> (FileInfoResponse, 'c) field_parser" where
  "FileInfoResponse_field P tag m ctx =
     field_case 1 10 tag (parse_string P FileInfoResponse_ownerhostname (\<lambda>v m. m\<lparr>fip_ownerhostname := Some v\<rparr>) m ctx) (
     field_case 2 18 tag (parse_string P FileInfoResponse_ownerport (\<lambda>v m. m\<lparr>fip_ownerport := Some v\<rparr>) m ctx) (
     return_run None))"

definition FileInfoResponse_InternalParse :: "'c context_ops \<Rightarrow> (FileInfoResponse, 'c) parser" where
  "FileInfoResponse_InternalParse P = parse_loop P (FileInfoResponse_field P) (parse_unknown P fip_unknown (\<lambda>us m. m\<lparr>fip_unknown := us\<rparr>))"

definition FileInfoResponse_wire_ok :: "FileInfoResponse \<Rightarrow> bool" where
  "FileInfoResponse_wire_ok m \<longleftrightarrow> fip_unknown m = []"

section \<open>DownloadRequest\<close>

definition DownloadRequest_field :: "'c context_ops \<Rightarrow> (DownloadRequest, 'c) field_parser" where
  "DownloadRequest_field P tag m ctx =
     field_case 1 8 tag (parse_int64 P (\<lambda>v m. m\<lparr>dlq_filenamehash := Some v\<rparr>) m ctx) (
     field_case 2 18 tag (parse_string P DownloadRequest_sourcehostname (\<lambda>v m. m\<lparr>dlq_sourcehostname := Some v\<rparr>) m ctx) (
     field_case 3 26 tag (parse_string P DownloadRequest_sourceport (\<lambda>v m. m\<lparr>dlq_sourceport := Some v\<rparr>) m ctx) (
     return_run None)))"

definition DownloadRequest_InternalParse :: "'c context_ops \<Rightarrow> (DownloadRequest, 'c) parser" where
  "DownloadRequest_InternalParse P = parse_loop P (DownloadRequest_field P) (parse_unknown P dlq_unknown (\<lambda>us m. m\<lparr>dlq_unknown := us\<rparr>))"

definition DownloadRequest_wire_ok :: "DownloadRequest \<Rightarrow> bool" where
  "DownloadRequest_wire_ok m \<longleftrightarrow> dlq_unknown m = [] \<and>
     (\<forall>v. dlq_filenamehash m = Some v \<longrightarrow> - (2 ^ 63) \<le> v \<and> v < 2 ^ 63)"

section \<open>JoinRequest\<close>

definition JoinRequest_field :: "'c context_ops \<Rightarrow> (JoinRequest, 'c) field_parser" where
  "JoinRequest_field P tag m ctx =
     field_case 1 10 tag (parse_string P JoinRequest_newhostname (\<lambda>v m. m\<lparr>jnq_newhostname := Some v\<rparr>) m ctx) (
     field_case 2 18 tag (parse_string P JoinRequest_newport (\<lambda>v m. m\<lparr>jnq_newport := Some v\<rparr>) m ctx) (
     field_case 3 24 tag (parse_int64 P (\<lambda>v m. m\<lparr>jnq_newhostnamehash := Some v\<rparr>) m ctx) (
     return_run None)))"

definition JoinRequest_InternalParse :: "'c context_ops \<Rightarrow> (JoinRequest, 'c) parser" where
  "JoinRequest_InternalParse P = parse_loop P (JoinRequest_field P) (parse_unknown P jnq_unknown (\<lambda>us m. m\<lparr>jnq_unknown := us\<rparr>))"

definition JoinRequest_wire_ok :: "JoinRequest \<Rightarrow> bool" where
  "JoinRequest_wire_ok m \<longleftrightarrow> jnq_unknown m = [] \<and>
     (\<forall>v. jnq_newhostnamehash m = Some v \<longrightarrow> - (2 ^ 63) \<le> v \<and> v < 2 ^ 63)"

section \<open>RouteTableEntry\<close>

definition RouteTableEntry_field :: "'c context_ops \<Rightarrow> (RouteTableEntry, 'c) field_parser" where
  "RouteTableEntry_field P tag m ctx =
     field_case 1 10 tag (parse_string P RouteTableEntry_hostname (\<lambda>v m. m\<lparr>rte_hostname := Some v\<rparr>) m ctx) (
     field_case 2 18 tag (parse_string P RouteTableEntry_port (\<lambda>v m. m\<lparr>rte_port := Some v\<rparr>) m ctx) (
     field_case 3 24 tag (parse_int64 P (\<lambda>v m. m\<lparr>rte_hostnamehash := Some v\<rparr>) m ctx) (
     return_run None)))"

definition RouteTableEntry_InternalParse :: "'c context_ops \<Rightarrow> (RouteTableEntry, 'c) parser" where
  "RouteTableEntry_InternalParse P = parse_loop P (RouteTableEntry_field P) (parse_unknown P rte_unknown (\<lambda>us m. m\<lparr>rte_unknown := us\<rparr>))"

definition RouteTableEntry_wire_ok :: "RouteTableEntry \<Rightarrow> bool" where
  "RouteTableEntry_wire_ok m \<longleftrightarrow> rte_unknown m = [] \<and>
     (\<forall>v. rte_hostnamehash m = Some v \<longrightarrow> - (2 ^ 63) \<le> v \<and> v < 2 ^ 63)"

section \<open>RouteTableInit\<close>

definition RouteTableInit_field :: "'c context_ops \<Rightarrow> (RouteTableInit, 'c) field_parser" where
  "RouteTableInit_field P tag m ctx =
     field_case 1 10 tag (parse_repeated P (RouteTableEntry_InternalParse P) RouteTableEntry_default 10 (\<lambda>e m. m\<lparr>rti_entry := rti_entry m @ [e]\<rparr>) m ctx) (
     return_run None)"

definition RouteTableInit_InternalParse :: "'c context_ops \<Rightarrow> (RouteTableInit, 'c) parser" where
  "RouteTableInit_InternalParse P = parse_loop P (RouteTableInit_field P) (parse_unknown P rti_unknown (\<lambda>us m. m\<lparr>rti_unknown := us\<rparr>))"

definition RouteTableInit_wire_ok :: "RouteTableInit \<Rightarrow> bool" where
  "RouteTableInit_wire_ok m \<longleftrightarrow> rti_unknown m = [] \<and>
     (\<forall>e\<in>set (rti_entry m). RouteTableEntry_wire_ok e)"

section \<open>FileTableEntry\<close>

definition FileTableEntry_field :: "'c context_ops \<Rightarrow> (FileTableEntry, 'c) field_parser" where
  "FileTableEntry_field P tag m ctx =
     field_case 1 8 tag (parse_int64 P (\<lambda>v m. m\<lparr>fte_filenamehash := Some v\<rparr>) m ctx) (
     field_case 2 18 tag (parse_string P FileTableEntry_ownerhostname (\<lambda>v m. m\<lparr>fte_ownerhostname := Some v\<rparr>) m ctx) (
     field_case 3 26 tag (parse_string P FileTableEntry_ownerport (\<lambda>v m. m\<lparr>fte_ownerport := Some v\<rparr>) m ctx) (
     return_run None)))"

definition FileTableEntry_InternalParse :: "'c context_ops \<Rightarrow> (FileTableEntry, 'c) parser" where
  "FileTableEntry_InternalParse P = parse_loop P (FileTableEntry_field P) (parse_unknown P fte_unknown (\<lambda>us m. m\<lparr>fte_unknown := us\<rparr>))"

definition FileTableEntry_wire_ok :: "FileTableEntry \<Rightarrow> bool" where
  "FileTableEntry_wire_ok m \<longleftrightarrow> fte_unknown m = [] \<and>
     (\<forall>v. fte_filenamehash m = Some v \<longrightarrow> - (2 ^ 63) \<le> v \<and> v < 2 ^ 63)"

section \<open>FileTable\<close>

definition FileTable_field :: "'c context_ops \<Rightarrow> (FileTable, 'c) field_parser" where
  "FileTable_field P tag m ctx =
     field_case 1 10 tag (parse_repeated P (FileTableEntry_InternalParse P) FileTableEntry_default 10 (\<lambda>e m. m\<lparr>ftb_entry := ftb_entry m @ [e]\<rparr>) m ctx) (
     return_run None)"

definition FileTable_InternalParse :: "'c context_ops \<Rightarrow> (FileTable, 'c) parser" where
  "FileTable_InternalParse P = parse_loop P (FileTable_field P) (parse_unknown P ftb_unknown (\<lambda>us m. m\<lparr>ftb_unknown := us\<rparr>))"

definition FileTable_wire_ok :: "FileTable \<Rightarrow> bool" where
  "FileTable_wire_ok m \<longleftrightarrow> ftb_unknown m = [] \<and>
     (\<forall>e\<in>set (ftb_entry m). FileTableEntry_wire_ok e)"

section \<open>RouteUpdateRequest\<close>

definition RouteUpdateRequest_field :: "'c context_ops \<Rightarrow> (RouteUpdateRequest, 'c) field_parser" where
  "RouteUpdateRequest_field P tag m ctx =
     field_case 1 10 tag (parse_string P RouteUpdateRequest_newhostname (\<lambda>v m. m\<lparr>ruq_newhostname := Some v\<rparr>) m ctx) (
     field_case 2 18 tag (parse_string P RouteUpdateRequest_newport (\<lambda>v m. m\<lparr>ruq_newport := Some v\<rparr>) m ctx) (
     field_case 3 24 tag (parse_int64 P (\<lambda>v m. m\<lparr>ruq_newhostnamehash := Some v\<rparr>) m ctx) (
     return_run None)))"

definition RouteUpdateRequest_InternalParse :: "'c context_ops \<Rightarrow> (RouteUpdateRequest, 'c) parser" where
  "RouteUpdateRequest_InternalParse P = parse_loop P (RouteUpdateRequest_field P) (parse_unknown P ruq_unknown (\<lambda>us m. m\<lparr>ruq_unknown := us\<rparr>))"

definition RouteUpdateRequest_wire_ok :: "RouteUpdateRequest \<Rightarrow> bool" where
  "RouteUpdateRequest_wire_ok m \<longleftrightarrow> ruq_unknown m = [] \<and>
     (\<forall>v. ruq_newhostnamehash m = Some v \<longrightarrow> - (2 ^ 63) \<le> v \<and> v < 2 ^ 63)"

section \<open>RouteUpdateResponse\<close>

definition RouteUpdateResponse_field :: "'c context_ops \<Rightarrow> (RouteUpdateResponse, 'c) field_parser" where
  "RouteUpdateResponse_field P tag m ctx =
     field_case 1 10 tag (parse_string P RouteUpdateResponse_nextupdatehostname (\<lambda>v m. m\<lparr>rup_nextupdatehostname := Some v\<rparr>) m ctx) (
     field_case 2 18 tag (parse_string P RouteUpdateResponse_nextupdateport (\<lambda>v m. m\<lparr>rup_nextupdateport := Some v\<rparr>) m ctx) (
     field_case 3 24 tag (parse_int64 P (\<lambda>v m. m\<lparr>rup_nextupdatehostnamehash := Some v\<rparr>) m ctx) (
     field_case 4 32 tag (parse_int64 P (\<lambda>v m. m\<lparr>rup_curupdatehostnamehash := Some v\<rparr>) m ctx) (
     return_run None))))"

definition RouteUpdateResponse_InternalParse :: "'c context_ops \<Rightarrow> (RouteUpdateResponse, 'c) parser" where
  "RouteUpdateResponse_InternalParse P = parse_loop P (RouteUpdateResponse_field P) (parse_unknown P rup_unknown (\<lambda>us m. m\<lparr>rup_unknown := us\<rparr>))"

definition RouteUpdateResponse_wire_ok :: "RouteUpdateResponse \<Rightarrow> bool" where
  "RouteUpdateResponse_wire_ok m \<longleftrightarrow> rup_unknown m = [] \<and>
     (\<forall>v. rup_nextupdatehostnamehash m = Some v \<longrightarrow> - (2 ^ 63) \<le> v \<and> v < 2 ^ 63) \<and>
     (\<forall>v. rup_curupdatehostnamehash m = Some v \<longrightarrow> - (2 ^ 63) \<le> v \<and> v < 2 ^ 63)"

section \<open>RouteDeleteRequest\<close>

definition RouteDeleteRequest_field :: "'c context_ops \<Rightarrow> (RouteDeleteRequest, 'c) field_parser" where
  "RouteDeleteRequest_field P tag m ctx =
     field_case 1 10 tag (parse_repeated P (RouteTableEntry_InternalParse P) RouteTableEntry_default 10 (\<lambda>e m. m\<lparr>rdq_entry := rdq_entry m @ [e]\<rparr>) m ctx) (
     return_run None)"

definition RouteDeleteRequest_InternalParse :: "'c context_ops \<Rightarrow> (RouteDeleteRequest, 'c) parser" where
  "RouteDeleteRequest_InternalParse P = parse_loop P (RouteDeleteRequest_field P) (parse_unknown P rdq_unknown (\<lambda>us m. m\<lparr>rdq_unknown := us\<rparr>))"

definition RouteDeleteRequest_wire_ok :: "RouteDeleteRequest \<Rightarrow> bool" where
  "RouteDeleteRequest_wire_ok m \<longleftrightarrow> rdq_unknown m = [] \<and>
     (\<forall>e\<in>set (rdq_entry m). RouteTableEntry_wire_ok e)"

section \<open>HelpJoinRequset\<close>

definition HelpJoinRequset_field :: "'c context_ops \<Rightarrow> (HelpJoinRequset, 'c) field_parser" where
  "HelpJoinRequset_field P tag m ctx =
     field_case 1 10 tag (parse_string P HelpJoinRequset_newhostname (\<lambda>v m. m\<lparr>hjq_newhostname := Some v\<rparr>) m ctx) (
     field_case 2 18 tag (parse_string P HelpJoinRequset_newport (\<lambda>v m. m\<lparr>hjq_newport := Some v\<rparr>) m ctx) (
     field_case 3 24 tag (parse_int64 P (\<lambda>v m. m\<lparr>hjq_newhostnamehash := Some v\<rparr>) m ctx) (
     return_run None)))"

definition HelpJoinRequset_InternalParse :: "'c context_ops \<Rightarrow> (HelpJoinRequset, 'c) parser" where
  "HelpJoinRequset_InternalParse P = parse_loop P (HelpJoinRequset_field P) (parse_unknown P hjq_unknown (\<lambda>us m. m\<lparr>hjq_unknown := us\<rparr>))"

definition HelpJoinRequset_wire_ok :: "HelpJoinRequset \<Rightarrow> bool" where
  "HelpJoinRequset_wire_ok m \<longleftrightarrow> hjq_unknown m = [] \<and>
     (\<forall>v. hjq_newhostnamehash m = Some v \<longrightarrow> - (2 ^ 63) \<le> v \<and> v < 2 ^ 63)"

section \<open>HelpJoinResponse\<close>

definition HelpJoinResponse_field :: "'c context_ops \<Rightarrow> (HelpJoinResponse, 'c) field_parser" where
  "HelpJoinResponse_field P tag m ctx =
     field_case 1 10 tag (parse_string P HelpJoinResponse_responsiblehostname (\<lambda>v m. m\<lparr>hjp_responsiblehostname := Some v\<rparr>) m ctx) (
     field_case 2 18 tag (parse_string P HelpJoinResponse_responsibleport (\<lambda>v m. m\<lparr>hjp_responsibleport := Some v\<rparr>) m ctx) (
     field_case 3 24 tag (parse_int64 P (\<lambda>v m. m\<lparr>hjp_responhostnamehash := Some v\<rparr>) m ctx) (
     return_run None)))"

definition HelpJoinResponse_InternalParse :: "'c context_ops \<Rightarrow> (HelpJoinResponse, 'c) parser" where
  "HelpJoinResponse_InternalParse P = parse_loop P (HelpJoinResponse_field P) (parse_unknown P hjp_unknown (\<lambda>us m. m\<lparr>hjp_unknown := us\<rparr>))"

definition HelpJoinResponse_wire_ok :: "HelpJoinResponse \<Rightarrow> bool" where
  "HelpJoinResponse_wire_ok m \<longleftrightarrow> hjp_unknown m = [] \<and>
     (\<forall>v. hjp_responhostnamehash m = Some v \<longrightarrow> - (2 ^ 63) \<le> v \<and> v < 2 ^ 63)"

section \<open>LookupNodeResponse\<close>

definition LookupNodeResponse_field :: "'c context_ops \<Rightarrow> (LookupNodeResponse, 'c) field_parser" where
  "LookupNodeResponse_field P tag m ctx =
     field_case 1 10 tag (parse_string P LookupNodeResponse_hostname (\<lambda>v m. m\<lparr>lnp_hostname := Some v\<rparr>) m ctx) (
     field_case 2 18 tag (parse_string P LookupNodeResponse_port (\<lambda>v m. m\<lparr>lnp_port := Some v\<rparr>) m ctx) (
     field_case 3 24 tag (parse_int64 P (\<lambda>v m. m\<lparr>lnp_hostnamehash := Some v\<rparr>) m ctx) (
     return_run None)))"

definition LookupNodeResponse_InternalParse :: "'c context_ops \<Rightarrow> (LookupNodeResponse, 'c) parser" where
  "LookupNodeResponse_InternalParse P = parse_loop P (LookupNodeResponse_field P) (parse_unknown P lnp_unknown (\<lambda>us m. m\<lparr>lnp_unknown := us\<rparr>))"

definition LookupNodeResponse_wire_ok :: "LookupNodeResponse \<Rightarrow> bool" where
  "LookupNodeResponse_wire_ok m \<longleftrightarrow> lnp_unknown m = [] \<and>
     (\<forall>v. lnp_hostnamehash m = Some v \<longrightarrow> - (2 ^ 63) \<le> v \<and> v < 2 ^ 63)"

section \<open>NodeRequest\<close>

definition NodeRequest_field :: "'c context_ops \<Rightarrow> (NodeRequest, 'c) field_parser" where
  "NodeRequest_field P tag m ctx =
     field_case 1 8 tag (parse_int64 P (\<lambda>v m. m\<lparr>nrq_type := Some v\<rparr>) m ctx) (
     field_case 2 18 tag (parse_message P (AddFileRequest_InternalParse P) NodeRequest_addfile (\<lambda>v m. m\<lparr>nrq_addfile := Some v\<rparr>) m ctx) (
     field_case 3 26 tag (parse_message P (LookupFileRequest_InternalParse P) NodeRequest_lookup (\<lambda>v m. m\<lparr>nrq_lookup := Some v\<rparr>) m ctx) (
     field_case 4 34 tag (parse_message P (DeleteFileRequest_InternalParse P) NodeRequest_deletefile (\<lambda>v m. m\<lparr>nrq_deletefile := Some v\<rparr>) m ctx) (
     field_case 5 42 tag (parse_message P (DownloadRequest_InternalParse P) NodeRequest_download (\<lambda>v m. m\<lparr>nrq_download := Some v\<rparr>) m ctx) (
     field_case 6 50 tag (parse_message P (JoinRequest_InternalParse P) NodeRequest_join (\<lambda>v m. m\<lparr>nrq_join := Some v\<rparr>) m ctx) (
     field_case 7 58 tag (parse_message P (RouteUpdateRequest_InternalParse P) NodeRequest_updateroute (\<lambda>v m. m\<lparr>nrq_updateroute := Some v\<rparr>) m ctx) (
     field_case 8 66 tag (parse_message P (RouteDeleteRequest_InternalParse P) NodeRequest_deleteroute (\<lambda>v m. m\<lparr>nrq_deleteroute := Some v\<rparr>) m ctx) (
     field_case 9 74 tag (parse_message P (HelpJoinRequset_InternalParse P) NodeRequest_helpjoin (\<lambda>v m. m\<lparr>nrq_helpjoin := Some v\<rparr>) m ctx) (
     return_run None)))))))))"

definition NodeRequest_InternalParse :: "'c context_ops \<Rightarrow> (NodeRequest, 'c) parser" where
  "NodeRequest_InternalParse P = parse_loop P (NodeRequest_field P) (parse_unknown P nrq_unknown (\<lambda>us m. m\<lparr>nrq_unknown := us\<rparr>))"

definition NodeRequest_wire_ok :: "NodeRequest \<Rightarrow> bool" where
  "NodeRequest_wire_ok m \<longleftrightarrow> nrq_unknown m = [] \<and>
     (\<forall>v. nrq_type m = Some v \<longrightarrow> - (2 ^ 63) \<le> v \<and> v < 2 ^ 63) \<and>
     (\<forall>v. nrq_addfile m = Some v \<longrightarrow> AddFileRequest_wire_ok v) \<and>
     (\<forall>v. nrq_lookup m = Some v \<longrightarrow> LookupFileRequest_wire_ok v) \<and>
     (\<forall>v. nrq_deletefile m = Some v \<longrightarrow> DeleteFileRequest_wire_ok v) \<and>
     (\<forall>v. nrq_download m = Some v \<longrightarrow> DownloadRequest_wire_ok v) \<and>
     (\<forall>v. nrq_join m = Some v \<longrightarrow> JoinRequest_wire_ok v) \<and>
     (\<forall>v. nrq_updateroute m = Some v \<longrightarrow> RouteUpdateRequest_wire_ok v) \<and>
     (\<forall>v. nrq_deleteroute m = Some v \<longrightarrow> RouteDeleteRequest_wire_ok v) \<and>
     (\<forall>v. nrq_helpjoin m = Some v \<longrightarrow> HelpJoinRequset_wire_ok v)"

section \<open>NodeResponse\<close>

definition NodeResponse_field :: "'c context_ops \<Rightarrow> (NodeResponse, 'c) field_parser" where
  "NodeResponse_field P tag m ctx =
     field_case 1 8 tag (parse_int64 P (\<lambda>v m. m\<lparr>nrp_type := Some v\<rparr>) m ctx) (
     field_case 2 18 tag (parse_message P (LookupFileResponse_InternalParse P) NodeResponse_lookup (\<lambda>v m. m\<lparr>nrp_lookup := Some v\<rparr>) m ctx) (
     field_case 3 26 tag (parse_message P (FileInfoResponse_InternalParse P) NodeResponse_fileinforsp (\<lambda>v m. m\<lparr>nrp_fileinforsp := Some v\<rparr>) m ctx) (
     field_case 4 34 tag (parse_message P (RouteTableInit_InternalParse P) NodeResponse_routeinit (\<lambda>v m. m\<lparr>nrp_routeinit := Some v\<rparr>) m ctx) (
     field_case 5 42 tag (parse_message P (FileTable_InternalParse P) NodeResponse_filetable (\<lambda>v m. m\<lparr>nrp_filetable := Some v\<rparr>) m ctx) (
     field_case 6 50 tag (parse_message P (HelpJoinResponse_InternalParse P) NodeResponse_helpjoin (\<lambda>v m. m\<lparr>nrp_helpjoin := Some v\<rparr>) m ctx) (
     field_case 7 58 tag (parse_message P (RouteUpdateResponse_InternalParse P) NodeResponse_updateroute (\<lambda>v m. m\<lparr>nrp_updateroute := Some v\<rparr>) m ctx) (
     field_case 8 66 tag (parse_message P (LookupNodeResponse_InternalParse P) NodeResponse_lookupnode (\<lambda>v m. m\<lparr>nrp_lookupnode := Some v\<rparr>) m ctx) (
     return_run None))))))))"

definition NodeResponse_InternalParse :: "'c context_ops \<Rightarrow> (NodeResponse, 'c) parser" where
  "NodeResponse_InternalParse P = parse_loop P (NodeResponse_field P) (parse_unknown P nrp_unknown (\<lambda>us m. m\<lparr>nrp_unknown := us\<rparr>))"

definition NodeResponse_wire_ok :: "NodeResponse \<Rightarrow> bool" where
  "NodeResponse_wire_ok m \<longleftrightarrow> nrp_unknown m = [] \<and>
     (\<forall>v. nrp_type m = Some v \<longrightarrow> - (2 ^ 63) \<le> v \<and> v < 2 ^ 63) \<and>
     (\<forall>v. nrp_lookup m = Some v \<longrightarrow> LookupFileResponse_wire_ok v) \<and>
     (\<forall>v. nrp_fileinforsp m = Some v \<longrightarrow> FileInfoResponse_wire_ok v) \<and>
     (\<forall>v. nrp_routeinit m = Some v \<longrightarrow> RouteTableInit_wire_ok v) \<and>
     (\<forall>v. nrp_filetable m = Some v \<longrightarrow> FileTable_wire_ok v) \<and>
     (\<forall>v. nrp_helpjoin m = Some v \<longrightarrow> HelpJoinResponse_wire_ok v) \<and>
     (\<forall>v. nrp_updateroute m = Some v \<longrightarrow> RouteUpdateResponse_wire_ok v) \<and>
     (\<forall>v. nrp_lookupnode m = Some v \<longrightarrow> LookupNodeResponse_wire_ok v)"

section \<open>Round trips\<close>

context parse_context
begin

lemma AddFileRequest_reads:
  assumes ok: "AddFileRequest_wire_ok m" and len: "int (length (AddFileRequest_bytes m)) < INT_MAX - 16"
  shows "reads_message sees depth 0 (AddFileRequest_InternalParse P) AddFileRequest_default (AddFileRequest_bytes m) m"
proof -
  let ?loop = "parse_loop P (AddFileRequest_field P) (parse_unknown P afq_unknown (\<lambda>us m. m\<lparr>afq_unknown := us\<rparr>))"
  note short = len [unfolded AddFileRequest_bytes_def when_bytes_def string_field_def delimited_def]
  let ?m0 = AddFileRequest_default
  let ?m1 = "?m0\<lparr>afq_filenamehash := afq_filenamehash m\<rparr>"
  let ?m2 = "?m1\<lparr>afq_sourcehostname := afq_sourcehostname m\<rparr>"
  let ?m3 = "?m2\<lparr>afq_sourceport := afq_sourceport m\<rparr>"
  have s1: "advances sees depth 0 ?loop ?m0 (when_bytes (afq_filenamehash m) (int64_field 1)) ?m1"
    by (rule when_int64 [where tag = 8 and put = "\<lambda>v m. m\<lparr>afq_filenamehash := Some v\<rparr>"])
       (use ok in \<open>simp_all add: AddFileRequest_field_def field_case_def make_tags AddFileRequest_default_def AddFileRequest_wire_ok_def\<close>)
  have s2: "advances sees depth 0 ?loop ?m1 (when_bytes (afq_sourcehostname m) (string_field 2)) ?m2"
    by (rule when_string [where tag = 18 and get = AddFileRequest_sourcehostname and put = "\<lambda>v m. m\<lparr>afq_sourcehostname := Some v\<rparr>"])
       (use short in \<open>simp_all add: AddFileRequest_field_def field_case_def make_tags AddFileRequest_default_def string_bytes_def\<close>)
  have s3: "advances sees depth 0 ?loop ?m2 (when_bytes (afq_sourceport m) (string_field 3)) ?m3"
    by (rule when_string [where tag = 26 and get = AddFileRequest_sourceport and put = "\<lambda>v m. m\<lparr>afq_sourceport := Some v\<rparr>"])
       (use short in \<open>simp_all add: AddFileRequest_field_def field_case_def make_tags AddFileRequest_default_def string_bytes_def\<close>)
  have "?m3 = m" using ok by (cases m) (simp add: AddFileRequest_default_def AddFileRequest_wire_ok_def)
  then have "advances sees depth 0 ?loop ?m0 (AddFileRequest_bytes m) m"
    using ok advances_append [OF s1 advances_append [OF s2 s3]]
    by (simp add: AddFileRequest_bytes_def AddFileRequest_wire_ok_def)
  then show ?thesis unfolding AddFileRequest_InternalParse_def by (rule reads_messageI)
qed

lemma AddFileRequest_reads_up:
  assumes "AddFileRequest_wire_ok m" and "int (length (AddFileRequest_bytes m)) < INT_MAX - 16" and "0 \<le> k"
  shows "reads_message sees depth k (AddFileRequest_InternalParse P) AddFileRequest_default (AddFileRequest_bytes m) m"
  using AddFileRequest_reads [OF assms(1,2)] assms(3) unfolding reads_message_def by auto

lemma LookupFileRequest_reads:
  assumes ok: "LookupFileRequest_wire_ok m" and len: "int (length (LookupFileRequest_bytes m)) < INT_MAX - 16"
  shows "reads_message sees depth 0 (LookupFileRequest_InternalParse P) LookupFileRequest_default (LookupFileRequest_bytes m) m"
proof -
  let ?loop = "parse_loop P (LookupFileRequest_field P) (parse_unknown P lfq_unknown (\<lambda>us m. m\<lparr>lfq_unknown := us\<rparr>))"
  note short = len [unfolded LookupFileRequest_bytes_def when_bytes_def string_field_def delimited_def]
  let ?m0 = LookupFileRequest_default
  let ?m1 = "?m0\<lparr>lfq_filenamehash := lfq_filenamehash m\<rparr>"
  let ?m2 = "?m1\<lparr>lfq_sourcehostname := lfq_sourcehostname m\<rparr>"
  let ?m3 = "?m2\<lparr>lfq_sourceport := lfq_sourceport m\<rparr>"
  have s1: "advances sees depth 0 ?loop ?m0 (when_bytes (lfq_filenamehash m) (int64_field 1)) ?m1"
    by (rule when_int64 [where tag = 8 and put = "\<lambda>v m. m\<lparr>lfq_filenamehash := Some v\<rparr>"])
       (use ok in \<open>simp_all add: LookupFileRequest_field_def field_case_def make_tags LookupFileRequest_default_def LookupFileRequest_wire_ok_def\<close>)
  have s2: "advances sees depth 0 ?loop ?m1 (when_bytes (lfq_sourcehostname m) (string_field 2)) ?m2"
    by (rule when_string [where tag = 18 and get = LookupFileRequest_sourcehostname and put = "\<lambda>v m. m\<lparr>lfq_sourcehostname := Some v\<rparr>"])
       (use short in \<open>simp_all add: LookupFileRequest_field_def field_case_def make_tags LookupFileRequest_default_def string_bytes_def\<close>)
  have s3: "advances sees depth 0 ?loop ?m2 (when_bytes (lfq_sourceport m) (string_field 3)) ?m3"
    by (rule when_string [where tag = 26 and get = LookupFileRequest_sourceport and put = "\<lambda>v m. m\<lparr>lfq_sourceport := Some v\<rparr>"])
       (use short in \<open>simp_all add: LookupFileRequest_field_def field_case_def make_tags LookupFileRequest_default_def string_bytes_def\<close>)
  have "?m3 = m" using ok by (cases m) (simp add: LookupFileRequest_default_def LookupFileRequest_wire_ok_def)
  then have "advances sees depth 0 ?loop ?m0 (LookupFileRequest_bytes m) m"
    using ok advances_append [OF s1 advances_append [OF s2 s3]]
    by (simp add: LookupFileRequest_bytes_def LookupFileRequest_wire_ok_def)
  then show ?thesis unfolding LookupFileRequest_InternalParse_def by (rule reads_messageI)
qed

lemma LookupFileRequest_reads_up:
  assumes "LookupFileRequest_wire_ok m" and "int (length (LookupFileRequest_bytes m)) < INT_MAX - 16" and "0 \<le> k"
  shows "reads_message sees depth k (LookupFileRequest_InternalParse P) LookupFileRequest_default (LookupFileRequest_bytes m) m"
  using LookupFileRequest_reads [OF assms(1,2)] assms(3) unfolding reads_message_def by auto

lemma DeleteFileRequest_reads:
  assumes ok: "DeleteFileRequest_wire_ok m" and len: "int (length (DeleteFileRequest_bytes m)) < INT_MAX - 16"
  shows "reads_message sees depth 0 (DeleteFileRequest_InternalParse P) DeleteFileRequest_default (DeleteFileRequest_bytes m) m"
proof -
  let ?loop = "parse_loop P (DeleteFileRequest_field P) (parse_unknown P dfq_unknown (\<lambda>us m. m\<lparr>dfq_unknown := us\<rparr>))"
  note short = len [unfolded DeleteFileRequest_bytes_def when_bytes_def string_field_def delimited_def]
  let ?m0 = DeleteFileRequest_default
  let ?m1 = "?m0\<lparr>dfq_filenamehash := dfq_filenamehash m\<rparr>"
  let ?m2 = "?m1\<lparr>dfq_sourcehostname := dfq_sourcehostname m\<rparr>"
  let ?m3 = "?m2\<lparr>dfq_sourceport := dfq_sourceport m\<rparr>"
  have s1: "advances sees depth 0 ?loop ?m0 (when_bytes (dfq_filenamehash m) (int64_field 1)) ?m1"
    by (rule when_int64 [where tag = 8 and put = "\<lambda>v m. m\<lparr>dfq_filenamehash := Some v\<rparr>"])
       (use ok in \<open>simp_all add: DeleteFileRequest_field_def field_case_def make_tags DeleteFileRequest_default_def DeleteFileRequest_wire_ok_def\<close>)
  have s2: "advances sees depth 0 ?loop ?m1 (when_bytes (dfq_sourcehostname m) (string_field 2)) ?m2"
    by (rule when_string [where tag = 18 and get = DeleteFileRequest_sourcehostname and put = "\<lambda>v m. m\<lparr>dfq_sourcehostname := Some v\<rparr>"])
       (use short in \<open>simp_all add: DeleteFileRequest_field_def field_case_def make_tags DeleteFileRequest_default_def string_bytes_def\<close>)
  have s3: "advances sees depth 0 ?loop ?m2 (when_bytes (dfq_sourceport m) (string_field 3)) ?m3"
    by (rule when_string [where tag = 26 and get = DeleteFileRequest_sourceport and put = "\<lambda>v m. m\<lparr>dfq_sourceport := Some v\<rparr>"])
       (use short in \<open>simp_all add: DeleteFileRequest_field_def field_case_def make_tags DeleteFileRequest_default_def string_bytes_def\<close>)
  have "?m3 = m" using ok by (cases m) (simp add: DeleteFileRequest_default_def DeleteFileRequest_wire_ok_def)
  then have "advances sees depth 0 ?loop ?m0 (DeleteFileRequest_bytes m) m"
    using ok advances_append [OF s1 advances_append [OF s2 s3]]
    by (simp add: DeleteFileRequest_bytes_def DeleteFileRequest_wire_ok_def)
  then show ?thesis unfolding DeleteFileRequest_InternalParse_def by (rule reads_messageI)
qed

lemma DeleteFileRequest_reads_up:
  assumes "DeleteFileRequest_wire_ok m" and "int (length (DeleteFileRequest_bytes m)) < INT_MAX - 16" and "0 \<le> k"
  shows "reads_message sees depth k (DeleteFileRequest_InternalParse P) DeleteFileRequest_default (DeleteFileRequest_bytes m) m"
  using DeleteFileRequest_reads [OF assms(1,2)] assms(3) unfolding reads_message_def by auto

lemma LookupFileResponse_reads:
  assumes ok: "LookupFileResponse_wire_ok m" and len: "int (length (LookupFileResponse_bytes m)) < INT_MAX - 16"
  shows "reads_message sees depth 0 (LookupFileResponse_InternalParse P) LookupFileResponse_default (LookupFileResponse_bytes m) m"
proof -
  let ?loop = "parse_loop P (LookupFileResponse_field P) (parse_unknown P lfp_unknown (\<lambda>us m. m\<lparr>lfp_unknown := us\<rparr>))"
  note short = len [unfolded LookupFileResponse_bytes_def when_bytes_def string_field_def delimited_def]
  let ?m0 = LookupFileResponse_default
  let ?m1 = "?m0\<lparr>lfp_ifexists := lfp_ifexists m\<rparr>"
  let ?m2 = "?m1\<lparr>lfp_successorhostname := lfp_successorhostname m\<rparr>"
  let ?m3 = "?m2\<lparr>lfp_successorport := lfp_successorport m\<rparr>"
  let ?m4 = "?m3\<lparr>lfp_ownerhostname := lfp_ownerhostname m\<rparr>"
  let ?m5 = "?m4\<lparr>lfp_ownerport := lfp_ownerport m\<rparr>"
  have s1: "advances sees depth 0 ?loop ?m0 (when_bytes (lfp_ifexists m) (WriteBoolToArray 1)) ?m1"
    by (rule when_bool [where tag = 8 and put = "\<lambda>v m. m\<lparr>lfp_ifexists := Some v\<rparr>"])
       (use ok in \<open>simp_all add: LookupFileResponse_field_def field_case_def make_tags LookupFileResponse_default_def\<close>)
  have s2: "advances sees depth 0 ?loop ?m1 (when_bytes (lfp_successorhostname m) (string_field 2)) ?m2"
    by (rule when_string [where tag = 18 and get = LookupFileResponse_successorhostname and put = "\<lambda>v m. m\<lparr>lfp_successorhostname := Some v\<rparr>"])
       (use short in \<open>simp_all add: LookupFileResponse_field_def field_case_def make_tags LookupFileResponse_default_def string_bytes_def\<close>)
  have s3: "advances sees depth 0 ?loop ?m2 (when_bytes (lfp_successorport m) (string_field 3)) ?m3"
    by (rule when_string [where tag = 26 and get = LookupFileResponse_successorport and put = "\<lambda>v m. m\<lparr>lfp_successorport := Some v\<rparr>"])
       (use short in \<open>simp_all add: LookupFileResponse_field_def field_case_def make_tags LookupFileResponse_default_def string_bytes_def\<close>)
  have s4: "advances sees depth 0 ?loop ?m3 (when_bytes (lfp_ownerhostname m) (string_field 4)) ?m4"
    by (rule when_string [where tag = 34 and get = LookupFileResponse_ownerhostname and put = "\<lambda>v m. m\<lparr>lfp_ownerhostname := Some v\<rparr>"])
       (use short in \<open>simp_all add: LookupFileResponse_field_def field_case_def make_tags LookupFileResponse_default_def string_bytes_def\<close>)
  have s5: "advances sees depth 0 ?loop ?m4 (when_bytes (lfp_ownerport m) (string_field 5)) ?m5"
    by (rule when_string [where tag = 42 and get = LookupFileResponse_ownerport and put = "\<lambda>v m. m\<lparr>lfp_ownerport := Some v\<rparr>"])
       (use short in \<open>simp_all add: LookupFileResponse_field_def field_case_def make_tags LookupFileResponse_default_def string_bytes_def\<close>)
  have "?m5 = m" using ok by (cases m) (simp add: LookupFileResponse_default_def LookupFileResponse_wire_ok_def)
  then have "advances sees depth 0 ?loop ?m0 (LookupFileResponse_bytes m) m"
    using ok advances_append [OF s1 advances_append [OF s2 advances_append [OF s3 advances_append [OF s4 s5]]]]
    by (simp add: LookupFileResponse_bytes_def LookupFileResponse_wire_ok_def)
  then show ?thesis unfolding LookupFileResponse_InternalParse_def by (rule reads_messageI)
qed

lemma LookupFileResponse_reads_up:
  assumes "LookupFileResponse_wire_ok m" and "int (length (LookupFileResponse_bytes m)) < INT_MAX - 16" and "0 \<le> k"
  shows "reads_message sees depth k (LookupFileResponse_InternalParse P) LookupFileResponse_default (LookupFileResponse_bytes m) m"
  using LookupFileResponse_reads [OF assms(1,2)] assms(3) unfolding reads_message_def by auto

lemma FileInfoResponse_reads:
  assumes ok: "FileInfoResponse_wire_ok m" and len: "int (length (FileInfoResponse_bytes m)) < INT_MAX - 16"
  shows "reads_message sees depth 0 (FileInfoResponse_InternalParse P) FileInfoResponse_default (FileInfoResponse_bytes m) m"
proof -
  let ?loop = "parse_loop P (FileInfoResponse_field P) (parse_unknown P fip_unknown (\<lambda>us m. m\<lparr>fip_unknown := us\<rparr>))"
  note short = len [unfolded FileInfoResponse_bytes_def when_bytes_def string_field_def delimited_def]
  let ?m0 = FileInfoResponse_default
  let ?m1 = "?m0\<lparr>fip_ownerhostname := fip_ownerhostname m\<rparr>"
  let ?m2 = "?m1\<lparr>fip_ownerport := fip_ownerport m\<rparr>"
  have s1: "advances sees depth 0 ?loop ?m0 (when_bytes (fip_ownerhostname m) (string_field 1)) ?m1"
    by (rule when_string [where tag = 10 and get = FileInfoResponse_ownerhostname and put = "\<lambda>v m. m\<lparr>fip_ownerhostname := Some v\<rparr>"])
       (use short in \<open>simp_all add: FileInfoResponse_field_def field_case_def make_tags FileInfoResponse_default_def string_bytes_def\<close>)
  have s2: "advances sees depth 0 ?loop ?m1 (when_bytes (fip_ownerport m) (string_field 2)) ?m2"
    by (rule when_string [where tag = 18 and get = FileInfoResponse_ownerport and put = "\<lambda>v m. m\<lparr>fip_ownerport := Some v\<rparr>"])
       (use short in \<open>simp_all add: FileInfoResponse_field_def field_case_def make_tags FileInfoResponse_default_def string_bytes_def\<close>)
  have "?m2 = m" using ok by (cases m) (simp add: FileInfoResponse_default_def FileInfoResponse_wire_ok_def)
  then have "advances sees depth 0 ?loop ?m0 (FileInfoResponse_bytes m) m"
    using ok advances_append [OF s1 s2]
    by (simp add: FileInfoResponse_bytes_def FileInfoResponse_wire_ok_def)
  then show ?thesis unfolding FileInfoResponse_InternalParse_def by (rule reads_messageI)
qed

lemma FileInfoResponse_reads_up:
  assumes "FileInfoResponse_wire_ok m" and "int (length (FileInfoResponse_bytes m)) < INT_MAX - 16" and "0 \<le> k"
  shows "reads_message sees depth k (FileInfoResponse_InternalParse P) FileInfoResponse_default (FileInfoResponse_bytes m) m"
  using FileInfoResponse_reads [OF assms(1,2)] assms(3) unfolding reads_message_def by auto

lemma DownloadRequest_reads:
  assumes ok: "DownloadRequest_wire_ok m" and len: "int (length (DownloadRequest_bytes m)) < INT_MAX - 16"
  shows "reads_message sees depth 0 (DownloadRequest_InternalParse P) DownloadRequest_default (DownloadRequest_bytes m) m"
proof -
  let ?loop = "parse_loop P (DownloadRequest_field P) (parse_unknown P dlq_unknown (\<lambda>us m. m\<lparr>dlq_unknown := us\<rparr>))"
  note short = len [unfolded DownloadRequest_bytes_def when_bytes_def string_field_def delimited_def]
  let ?m0 = DownloadRequest_default
  let ?m1 = "?m0\<lparr>dlq_filenamehash := dlq_filenamehash m\<rparr>"
  let ?m2 = "?m1\<lparr>dlq_sourcehostname := dlq_sourcehostname m\<rparr>"
  let ?m3 = "?m2\<lparr>dlq_sourceport := dlq_sourceport m\<rparr>"
  have s1: "advances sees depth 0 ?loop ?m0 (when_bytes (dlq_filenamehash m) (int64_field 1)) ?m1"
    by (rule when_int64 [where tag = 8 and put = "\<lambda>v m. m\<lparr>dlq_filenamehash := Some v\<rparr>"])
       (use ok in \<open>simp_all add: DownloadRequest_field_def field_case_def make_tags DownloadRequest_default_def DownloadRequest_wire_ok_def\<close>)
  have s2: "advances sees depth 0 ?loop ?m1 (when_bytes (dlq_sourcehostname m) (string_field 2)) ?m2"
    by (rule when_string [where tag = 18 and get = DownloadRequest_sourcehostname and put = "\<lambda>v m. m\<lparr>dlq_sourcehostname := Some v\<rparr>"])
       (use short in \<open>simp_all add: DownloadRequest_field_def field_case_def make_tags DownloadRequest_default_def string_bytes_def\<close>)
  have s3: "advances sees depth 0 ?loop ?m2 (when_bytes (dlq_sourceport m) (string_field 3)) ?m3"
    by (rule when_string [where tag = 26 and get = DownloadRequest_sourceport and put = "\<lambda>v m. m\<lparr>dlq_sourceport := Some v\<rparr>"])
       (use short in \<open>simp_all add: DownloadRequest_field_def field_case_def make_tags DownloadRequest_default_def string_bytes_def\<close>)
  have "?m3 = m" using ok by (cases m) (simp add: DownloadRequest_default_def DownloadRequest_wire_ok_def)
  then have "advances sees depth 0 ?loop ?m0 (DownloadRequest_bytes m) m"
    using ok advances_append [OF s1 advances_append [OF s2 s3]]
    by (simp add: DownloadRequest_bytes_def DownloadRequest_wire_ok_def)
  then show ?thesis unfolding DownloadRequest_InternalParse_def by (rule reads_messageI)
qed

lemma DownloadRequest_reads_up:
  assumes "DownloadRequest_wire_ok m" and "int (length (DownloadRequest_bytes m)) < INT_MAX - 16" and "0 \<le> k"
  shows "reads_message sees depth k (DownloadRequest_InternalParse P) DownloadRequest_default (DownloadRequest_bytes m) m"
  using DownloadRequest_reads [OF assms(1,2)] assms(3) unfolding reads_message_def by auto

lemma JoinRequest_reads:
  assumes ok: "JoinRequest_wire_ok m" and len: "int (length (JoinRequest_bytes m)) < INT_MAX - 16"
  shows "reads_message sees depth 0 (JoinRequest_InternalParse P) JoinRequest_default (JoinRequest_bytes m) m"
proof -
  let ?loop = "parse_loop P (JoinRequest_field P) (parse_unknown P jnq_unknown (\<lambda>us m. m\<lparr>jnq_unknown := us\<rparr>))"
  note short = len [unfolded JoinRequest_bytes_def when_bytes_def string_field_def delimited_def]
  let ?m0 = JoinRequest_default
  let ?m1 = "?m0\<lparr>jnq_newhostname := jnq_newhostname m\<rparr>"
  let ?m2 = "?m1\<lparr>jnq_newport := jnq_newport m\<rparr>"
  let ?m3 = "?m2\<lparr>jnq_newhostnamehash := jnq_newhostnamehash m\<rparr>"
  have s1: "advances sees depth 0 ?loop ?m0 (when_bytes (jnq_newhostname m) (string_field 1)) ?m1"
    by (rule when_string [where tag = 10 and get = JoinRequest_newhostname and put = "\<lambda>v m. m\<lparr>jnq_newhostname := Some v\<rparr>"])
       (use short in \<open>simp_all add: JoinRequest_field_def field_case_def make_tags JoinRequest_default_def string_bytes_def\<close>)
  have s2: "advances sees depth 0 ?loop ?m1 (when_bytes (jnq_newport m) (string_field 2)) ?m2"
    by (rule when_string [where tag = 18 and get = JoinRequest_newport and put = "\<lambda>v m. m\<lparr>jnq_newport := Some v\<rparr>"])
       (use short in \<open>simp_all add: JoinRequest_field_def field_case_def make_tags JoinRequest_default_def string_bytes_def\<close>)
  have s3: "advances sees depth 0 ?loop ?m2 (when_bytes (jnq_newhostnamehash m) (int64_field 3)) ?m3"
    by (rule when_int64 [where tag = 24 and put = "\<lambda>v m. m\<lparr>jnq_newhostnamehash := Some v\<rparr>"])
       (use ok in \<open>simp_all add: JoinRequest_field_def field_case_def make_tags JoinRequest_default_def JoinRequest_wire_ok_def\<close>)
  have "?m3 = m" using ok by (cases m) (simp add: JoinRequest_default_def JoinRequest_wire_ok_def)
  then have "advances sees depth 0 ?loop ?m0 (JoinRequest_bytes m) m"
    using ok advances_append [OF s1 advances_append [OF s2 s3]]
    by (simp add: JoinRequest_bytes_def JoinRequest_wire_ok_def)
  then show ?thesis unfolding JoinRequest_InternalParse_def by (rule reads_messageI)
qed

lemma JoinRequest_reads_up:
  assumes "JoinRequest_wire_ok m" and "int (length (JoinRequest_bytes m)) < INT_MAX - 16" and "0 \<le> k"
  shows "reads_message sees depth k (JoinRequest_InternalParse P) JoinRequest_default (JoinRequest_bytes m) m"
  using JoinRequest_reads [OF assms(1,2)] assms(3) unfolding reads_message_def by auto

lemma RouteTableEntry_reads:
  assumes ok: "RouteTableEntry_wire_ok m" and len: "int (length (RouteTableEntry_bytes m)) < INT_MAX - 16"
  shows "reads_message sees depth 0 (RouteTableEntry_InternalParse P) RouteTableEntry_default (RouteTableEntry_bytes m) m"
proof -
  let ?loop = "parse_loop P (RouteTableEntry_field P) (parse_unknown P rte_unknown (\<lambda>us m. m\<lparr>rte_unknown := us\<rparr>))"
  note short = len [unfolded RouteTableEntry_bytes_def when_bytes_def string_field_def delimited_def]
  let ?m0 = RouteTableEntry_default
  let ?m1 = "?m0\<lparr>rte_hostname := rte_hostname m\<rparr>"
  let ?m2 = "?m1\<lparr>rte_port := rte_port m\<rparr>"
  let ?m3 = "?m2\<lparr>rte_hostnamehash := rte_hostnamehash m\<rparr>"
  have s1: "advances sees depth 0 ?loop ?m0 (when_bytes (rte_hostname m) (string_field 1)) ?m1"
    by (rule when_string [where tag = 10 and get = RouteTableEntry_hostname and put = "\<lambda>v m. m\<lparr>rte_hostname := Some v\<rparr>"])
       (use short in \<open>simp_all add: RouteTableEntry_field_def field_case_def make_tags RouteTableEntry_default_def string_bytes_def\<close>)
  have s2: "advances sees depth 0 ?loop ?m1 (when_bytes (rte_port m) (string_field 2)) ?m2"
    by (rule when_string [where tag = 18 and get = RouteTableEntry_port and put = "\<lambda>v m. m\<lparr>rte_port := Some v\<rparr>"])
       (use short in \<open>simp_all add: RouteTableEntry_field_def field_case_def make_tags RouteTableEntry_default_def string_bytes_def\<close>)
  have s3: "advances sees depth 0 ?loop ?m2 (when_bytes (rte_hostnamehash m) (int64_field 3)) ?m3"
    by (rule when_int64 [where tag = 24 and put = "\<lambda>v m. m\<lparr>rte_hostnamehash := Some v\<rparr>"])
       (use ok in \<open>simp_all add: RouteTableEntry_field_def field_case_def make_tags RouteTableEntry_default_def RouteTableEntry_wire_ok_def\<close>)
  have "?m3 = m" using ok by (cases m) (simp add: RouteTableEntry_default_def RouteTableEntry_wire_ok_def)
  then have "advances sees depth 0 ?loop ?m0 (RouteTableEntry_bytes m) m"
    using ok advances_append [OF s1 advances_append [OF s2 s3]]
    by (simp add: RouteTableEntry_bytes_def RouteTableEntry_wire_ok_def)
  then show ?thesis unfolding RouteTableEntry_InternalParse_def by (rule reads_messageI)
qed

lemma RouteTableEntry_reads_up:
  assumes "RouteTableEntry_wire_ok m" and "int (length (RouteTableEntry_bytes m)) < INT_MAX - 16" and "0 \<le> k"
  shows "reads_message sees depth k (RouteTableEntry_InternalParse P) RouteTableEntry_default (RouteTableEntry_bytes m) m"
  using RouteTableEntry_reads [OF assms(1,2)] assms(3) unfolding reads_message_def by auto

lemma RouteTableInit_reads:
  assumes ok: "RouteTableInit_wire_ok m" and len: "int (length (RouteTableInit_bytes m)) < INT_MAX - 16"
  shows "reads_message sees depth 1 (RouteTableInit_InternalParse P) RouteTableInit_default (RouteTableInit_bytes m) m"
proof -
  have add: "fold (\<lambda>e m. m\<lparr>rti_entry := rti_entry m @ [e]\<rparr>) es m = m\<lparr>rti_entry := rti_entry m @ es\<rparr>" for es m
    by (induction es arbitrary: m) simp_all
  have "RouteTableInit_bytes m = concat (map (\<lambda>e. delimited 1 (RouteTableEntry_bytes e)) (rti_entry m))"
    using ok by (simp add: RouteTableInit_bytes_def RouteTableInit_wire_ok_def)
  moreover have "RouteTableInit_default\<lparr>rti_entry := rti_entry m\<rparr> = m"
    using ok by (cases m) (simp add: RouteTableInit_default_def RouteTableInit_wire_ok_def)
  then have "fold (\<lambda>e m. m\<lparr>rti_entry := rti_entry m @ [e]\<rparr>) (rti_entry m) RouteTableInit_default = m"
    by (simp add: add) (simp add: RouteTableInit_default_def)
  moreover have "reads_message sees depth 0 (RouteTableEntry_InternalParse P) RouteTableEntry_default (RouteTableEntry_bytes e) e \<and>
      int (length (RouteTableEntry_bytes e)) < INT_MAX - 16" if "e \<in> set (rti_entry m)" for e
  proof -
    have "length (RouteTableEntry_bytes e) \<le> length (RouteTableInit_bytes m)"
      using that by (auto dest!: split_list simp: RouteTableInit_bytes_def delimited_def)
    with len have "int (length (RouteTableEntry_bytes e)) < INT_MAX - 16" by linarith
    with ok that RouteTableEntry_reads show ?thesis by (auto simp: RouteTableInit_wire_ok_def)
  qed
  note each = this
  have "reads_message sees depth (Suc 0) (RouteTableInit_InternalParse P) RouteTableInit_default
      (concat (map (\<lambda>e. delimited 1 (RouteTableEntry_bytes e)) (rti_entry m)))
      (fold (\<lambda>e m. m\<lparr>rti_entry := rti_entry m @ [e]\<rparr>) (rti_entry m) RouteTableInit_default)"
    unfolding RouteTableInit_InternalParse_def
    by (rule repeated_reads [where tag = 10 and first_byte = 10, OF _ _ _ _ each]) (simp_all add: RouteTableInit_field_def field_case_def make_tags)
  ultimately show ?thesis by simp
qed

lemma RouteTableInit_reads_up:
  assumes "RouteTableInit_wire_ok m" and "int (length (RouteTableInit_bytes m)) < INT_MAX - 16" and "1 \<le> k"
  shows "reads_message sees depth k (RouteTableInit_InternalParse P) RouteTableInit_default (RouteTableInit_bytes m) m"
  using RouteTableInit_reads [OF assms(1,2)] assms(3) unfolding reads_message_def by auto

lemma FileTableEntry_reads:
  assumes ok: "FileTableEntry_wire_ok m" and len: "int (length (FileTableEntry_bytes m)) < INT_MAX - 16"
  shows "reads_message sees depth 0 (FileTableEntry_InternalParse P) FileTableEntry_default (FileTableEntry_bytes m) m"
proof -
  let ?loop = "parse_loop P (FileTableEntry_field P) (parse_unknown P fte_unknown (\<lambda>us m. m\<lparr>fte_unknown := us\<rparr>))"
  note short = len [unfolded FileTableEntry_bytes_def when_bytes_def string_field_def delimited_def]
  let ?m0 = FileTableEntry_default
  let ?m1 = "?m0\<lparr>fte_filenamehash := fte_filenamehash m\<rparr>"
  let ?m2 = "?m1\<lparr>fte_ownerhostname := fte_ownerhostname m\<rparr>"
  let ?m3 = "?m2\<lparr>fte_ownerport := fte_ownerport m\<rparr>"
  have s1: "advances sees depth 0 ?loop ?m0 (when_bytes (fte_filenamehash m) (int64_field 1)) ?m1"
    by (rule when_int64 [where tag = 8 and put = "\<lambda>v m. m\<lparr>fte_filenamehash := Some v\<rparr>"])
       (use ok in \<open>simp_all add: FileTableEntry_field_def field_case_def make_tags FileTableEntry_default_def FileTableEntry_wire_ok_def\<close>)
  have s2: "advances sees depth 0 ?loop ?m1 (when_bytes (fte_ownerhostname m) (string_field 2)) ?m2"
    by (rule when_string [where tag = 18 and get = FileTableEntry_ownerhostname and put = "\<lambda>v m. m\<lparr>fte_ownerhostname := Some v\<rparr>"])
       (use short in \<open>simp_all add: FileTableEntry_field_def field_case_def make_tags FileTableEntry_default_def string_bytes_def\<close>)
  have s3: "advances sees depth 0 ?loop ?m2 (when_bytes (fte_ownerport m) (string_field 3)) ?m3"
    by (rule when_string [where tag = 26 and get = FileTableEntry_ownerport and put = "\<lambda>v m. m\<lparr>fte_ownerport := Some v\<rparr>"])
       (use short in \<open>simp_all add: FileTableEntry_field_def field_case_def make_tags FileTableEntry_default_def string_bytes_def\<close>)
  have "?m3 = m" using ok by (cases m) (simp add: FileTableEntry_default_def FileTableEntry_wire_ok_def)
  then have "advances sees depth 0 ?loop ?m0 (FileTableEntry_bytes m) m"
    using ok advances_append [OF s1 advances_append [OF s2 s3]]
    by (simp add: FileTableEntry_bytes_def FileTableEntry_wire_ok_def)
  then show ?thesis unfolding FileTableEntry_InternalParse_def by (rule reads_messageI)
qed

lemma FileTableEntry_reads_up:
  assumes "FileTableEntry_wire_ok m" and "int (length (FileTableEntry_bytes m)) < INT_MAX - 16" and "0 \<le> k"
  shows "reads_message sees depth k (FileTableEntry_InternalParse P) FileTableEntry_default (FileTableEntry_bytes m) m"
  using FileTableEntry_reads [OF assms(1,2)] assms(3) unfolding reads_message_def by auto

lemma FileTable_reads:
  assumes ok: "FileTable_wire_ok m" and len: "int (length (FileTable_bytes m)) < INT_MAX - 16"
  shows "reads_message sees depth 1 (FileTable_InternalParse P) FileTable_default (FileTable_bytes m) m"
proof -
  have add: "fold (\<lambda>e m. m\<lparr>ftb_entry := ftb_entry m @ [e]\<rparr>) es m = m\<lparr>ftb_entry := ftb_entry m @ es\<rparr>" for es m
    by (induction es arbitrary: m) simp_all
  have "FileTable_bytes m = concat (map (\<lambda>e. delimited 1 (FileTableEntry_bytes e)) (ftb_entry m))"
    using ok by (simp add: FileTable_bytes_def FileTable_wire_ok_def)
  moreover have "FileTable_default\<lparr>ftb_entry := ftb_entry m\<rparr> = m"
    using ok by (cases m) (simp add: FileTable_default_def FileTable_wire_ok_def)
  then have "fold (\<lambda>e m. m\<lparr>ftb_entry := ftb_entry m @ [e]\<rparr>) (ftb_entry m) FileTable_default = m"
    by (simp add: add) (simp add: FileTable_default_def)
  moreover have "reads_message sees depth 0 (FileTableEntry_InternalParse P) FileTableEntry_default (FileTableEntry_bytes e) e \<and>
      int (length (FileTableEntry_bytes e)) < INT_MAX - 16" if "e \<in> set (ftb_entry m)" for e
  proof -
    have "length (FileTableEntry_bytes e) \<le> length (FileTable_bytes m)"
      using that by (auto dest!: split_list simp: FileTable_bytes_def delimited_def)
    with len have "int (length (FileTableEntry_bytes e)) < INT_MAX - 16" by linarith
    with ok that FileTableEntry_reads show ?thesis by (auto simp: FileTable_wire_ok_def)
  qed
  note each = this
  have "reads_message sees depth (Suc 0) (FileTable_InternalParse P) FileTable_default
      (concat (map (\<lambda>e. delimited 1 (FileTableEntry_bytes e)) (ftb_entry m)))
      (fold (\<lambda>e m. m\<lparr>ftb_entry := ftb_entry m @ [e]\<rparr>) (ftb_entry m) FileTable_default)"
    unfolding FileTable_InternalParse_def
    by (rule repeated_reads [where tag = 10 and first_byte = 10, OF _ _ _ _ each]) (simp_all add: FileTable_field_def field_case_def make_tags)
  ultimately show ?thesis by simp
qed

lemma FileTable_reads_up:
  assumes "FileTable_wire_ok m" and "int (length (FileTable_bytes m)) < INT_MAX - 16" and "1 \<le> k"
  shows "reads_message sees depth k (FileTable_InternalParse P) FileTable_default (FileTable_bytes m) m"
  using FileTable_reads [OF assms(1,2)] assms(3) unfolding reads_message_def by auto

lemma RouteUpdateRequest_reads:
  assumes ok: "RouteUpdateRequest_wire_ok m" and len: "int (length (RouteUpdateRequest_bytes m)) < INT_MAX - 16"
  shows "reads_message sees depth 0 (RouteUpdateRequest_InternalParse P) RouteUpdateRequest_default (RouteUpdateRequest_bytes m) m"
proof -
  let ?loop = "parse_loop P (RouteUpdateRequest_field P) (parse_unknown P ruq_unknown (\<lambda>us m. m\<lparr>ruq_unknown := us\<rparr>))"
  note short = len [unfolded RouteUpdateRequest_bytes_def when_bytes_def string_field_def delimited_def]
  let ?m0 = RouteUpdateRequest_default
  let ?m1 = "?m0\<lparr>ruq_newhostname := ruq_newhostname m\<rparr>"
  let ?m2 = "?m1\<lparr>ruq_newport := ruq_newport m\<rparr>"
  let ?m3 = "?m2\<lparr>ruq_newhostnamehash := ruq_newhostnamehash m\<rparr>"
  have s1: "advances sees depth 0 ?loop ?m0 (when_bytes (ruq_newhostname m) (string_field 1)) ?m1"
    by (rule when_string [where tag = 10 and get = RouteUpdateRequest_newhostname and put = "\<lambda>v m. m\<lparr>ruq_newhostname := Some v\<rparr>"])
       (use short in \<open>simp_all add: RouteUpdateRequest_field_def field_case_def make_tags RouteUpdateRequest_default_def string_bytes_def\<close>)
  have s2: "advances sees depth 0 ?loop ?m1 (when_bytes (ruq_newport m) (string_field 2)) ?m2"
    by (rule when_string [where tag = 18 and get = RouteUpdateRequest_newport and put = "\<lambda>v m. m\<lparr>ruq_newport := Some v\<rparr>"])
       (use short in \<open>simp_all add: RouteUpdateRequest_field_def field_case_def make_tags RouteUpdateRequest_default_def string_bytes_def\<close>)
  have s3: "advances sees depth 0 ?loop ?m2 (when_bytes (ruq_newhostnamehash m) (int64_field 3)) ?m3"
    by (rule when_int64 [where tag = 24 and put = "\<lambda>v m. m\<lparr>ruq_newhostnamehash := Some v\<rparr>"])
       (use ok in \<open>simp_all add: RouteUpdateRequest_field_def field_case_def make_tags RouteUpdateRequest_default_def RouteUpdateRequest_wire_ok_def\<close>)
  have "?m3 = m" using ok by (cases m) (simp add: RouteUpdateRequest_default_def RouteUpdateRequest_wire_ok_def)
  then have "advances sees depth 0 ?loop ?m0 (RouteUpdateRequest_bytes m) m"
    using ok advances_append [OF s1 advances_append [OF s2 s3]]
    by (simp add: RouteUpdateRequest_bytes_def RouteUpdateRequest_wire_ok_def)
  then show ?thesis unfolding RouteUpdateRequest_InternalParse_def by (rule reads_messageI)
qed

lemma RouteUpdateRequest_reads_up:
  assumes "RouteUpdateRequest_wire_ok m" and "int (length (RouteUpdateRequest_bytes m)) < INT_MAX - 16" and "0 \<le> k"
  shows "reads_message sees depth k (RouteUpdateRequest_InternalParse P) RouteUpdateRequest_default (RouteUpdateRequest_bytes m) m"
  using RouteUpdateRequest_reads [OF assms(1,2)] assms(3) unfolding reads_message_def by auto

lemma RouteUpdateResponse_reads:
  assumes ok: "RouteUpdateResponse_wire_ok m" and len: "int (length (RouteUpdateResponse_bytes m)) < INT_MAX - 16"
  shows "reads_message sees depth 0 (RouteUpdateResponse_InternalParse P) RouteUpdateResponse_default (RouteUpdateResponse_bytes m) m"
proof -
  let ?loop = "parse_loop P (RouteUpdateResponse_field P) (parse_unknown P rup_unknown (\<lambda>us m. m\<lparr>rup_unknown := us\<rparr>))"
  note short = len [unfolded RouteUpdateResponse_bytes_def when_bytes_def string_field_def delimited_def]
  let ?m0 = RouteUpdateResponse_default
  let ?m1 = "?m0\<lparr>rup_nextupdatehostname := rup_nextupdatehostname m\<rparr>"
  let ?m2 = "?m1\<lparr>rup_nextupdateport := rup_nextupdateport m\<rparr>"
  let ?m3 = "?m2\<lparr>rup_nextupdatehostnamehash := rup_nextupdatehostnamehash m\<rparr>"
  let ?m4 = "?m3\<lparr>rup_curupdatehostnamehash := rup_curupdatehostnamehash m\<rparr>"
  have s1: "advances sees depth 0 ?loop ?m0 (when_bytes (rup_nextupdatehostname m) (string_field 1)) ?m1"
    by (rule when_string [where tag = 10 and get = RouteUpdateResponse_nextupdatehostname and put = "\<lambda>v m. m\<lparr>rup_nextupdatehostname := Some v\<rparr>"])
       (use short in \<open>simp_all add: RouteUpdateResponse_field_def field_case_def make_tags RouteUpdateResponse_default_def string_bytes_def\<close>)
  have s2: "advances sees depth 0 ?loop ?m1 (when_bytes (rup_nextupdateport m) (string_field 2)) ?m2"
    by (rule when_string [where tag = 18 and get = RouteUpdateResponse_nextupdateport and put = "\<lambda>v m. m\<lparr>rup_nextupdateport := Some v\<rparr>"])
       (use short in \<open>simp_all add: RouteUpdateResponse_field_def field_case_def make_tags RouteUpdateResponse_default_def string_bytes_def\<close>)
  have s3: "advances sees depth 0 ?loop ?m2 (when_bytes (rup_nextupdatehostnamehash m) (int64_field 3)) ?m3"
    by (rule when_int64 [where tag = 24 and put = "\<lambda>v m. m\<lparr>rup_nextupdatehostnamehash := Some v\<rparr>"])
       (use ok in \<open>simp_all add: RouteUpdateResponse_field_def field_case_def make_tags RouteUpdateResponse_default_def RouteUpdateResponse_wire_ok_def\<close>)
  have s4: "advances sees depth 0 ?loop ?m3 (when_bytes (rup_curupdatehostnamehash m) (int64_field 4)) ?m4"
    by (rule when_int64 [where tag = 32 and put = "\<lambda>v m. m\<lparr>rup_curupdatehostnamehash := Some v\<rparr>"])
       (use ok in \<open>simp_all add: RouteUpdateResponse_field_def field_case_def make_tags RouteUpdateResponse_default_def RouteUpdateResponse_wire_ok_def\<close>)
  have "?m4 = m" using ok by (cases m) (simp add: RouteUpdateResponse_default_def RouteUpdateResponse_wire_ok_def)
  then have "advances sees depth 0 ?loop ?m0 (RouteUpdateResponse_bytes m) m"
    using ok advances_append [OF s1 advances_append [OF s2 advances_append [OF s3 s4]]]
    by (simp add: RouteUpdateResponse_bytes_def RouteUpdateResponse_wire_ok_def)
  then show ?thesis unfolding RouteUpdateResponse_InternalParse_def by (rule reads_messageI)
qed

lemma RouteUpdateResponse_reads_up:
  assumes "RouteUpdateResponse_wire_ok m" and "int (length (RouteUpdateResponse_bytes m)) < INT_MAX - 16" and "0 \<le> k"
  shows "reads_message sees depth k (RouteUpdateResponse_InternalParse P) RouteUpdateResponse_default (RouteUpdateResponse_bytes m) m"
  using RouteUpdateResponse_reads [OF assms(1,2)] assms(3) unfolding reads_message_def by auto

lemma RouteDeleteRequest_reads:
  assumes ok: "RouteDeleteRequest_wire_ok m" and len: "int (length (RouteDeleteRequest_bytes m)) < INT_MAX - 16"
  shows "reads_message sees depth 1 (RouteDeleteRequest_InternalParse P) RouteDeleteRequest_default (RouteDeleteRequest_bytes m) m"
proof -
  have add: "fold (\<lambda>e m. m\<lparr>rdq_entry := rdq_entry m @ [e]\<rparr>) es m = m\<lparr>rdq_entry := rdq_entry m @ es\<rparr>" for es m
    by (induction es arbitrary: m) simp_all
  have "RouteDeleteRequest_bytes m = concat (map (\<lambda>e. delimited 1 (RouteTableEntry_bytes e)) (rdq_entry m))"
    using ok by (simp add: RouteDeleteRequest_bytes_def RouteDeleteRequest_wire_ok_def)
  moreover have "RouteDeleteRequest_default\<lparr>rdq_entry := rdq_entry m\<rparr> = m"
    using ok by (cases m) (simp add: RouteDeleteRequest_default_def RouteDeleteRequest_wire_ok_def)
  then have "fold (\<lambda>e m. m\<lparr>rdq_entry := rdq_entry m @ [e]\<rparr>) (rdq_entry m) RouteDeleteRequest_default = m"
    by (simp add: add) (simp add: RouteDeleteRequest_default_def)
  moreover have "reads_message sees depth 0 (RouteTableEntry_InternalParse P) RouteTableEntry_default (RouteTableEntry_bytes e) e \<and>
      int (length (RouteTableEntry_bytes e)) < INT_MAX - 16" if "e \<in> set (rdq_entry m)" for e
  proof -
    have "length (RouteTableEntry_bytes e) \<le> length (RouteDeleteRequest_bytes m)"
      using that by (auto dest!: split_list simp: RouteDeleteRequest_bytes_def delimited_def)
    with len have "int (length (RouteTableEntry_bytes e)) < INT_MAX - 16" by linarith
    with ok that RouteTableEntry_reads show ?thesis by (auto simp: RouteDeleteRequest_wire_ok_def)
  qed
  note each = this
  have "reads_message sees depth (Suc 0) (RouteDeleteRequest_InternalParse P) RouteDeleteRequest_default
      (concat (map (\<lambda>e. delimited 1 (RouteTableEntry_bytes e)) (rdq_entry m)))
      (fold (\<lambda>e m. m\<lparr>rdq_entry := rdq_entry m @ [e]\<rparr>) (rdq_entry m) RouteDeleteRequest_default)"
    unfolding RouteDeleteRequest_InternalParse_def
    by (rule repeated_reads [where tag = 10 and first_byte = 10, OF _ _ _ _ each]) (simp_all add: RouteDeleteRequest_field_def field_case_def make_tags)
  ultimately show ?thesis by simp
qed

lemma RouteDeleteRequest_reads_up:
  assumes "RouteDeleteRequest_wire_ok m" and "int (length (RouteDeleteRequest_bytes m)) < INT_MAX - 16" and "1 \<le> k"
  shows "reads_message sees depth k (RouteDeleteRequest_InternalParse P) RouteDeleteRequest_default (RouteDeleteRequest_bytes m) m"
  using RouteDeleteRequest_reads [OF assms(1,2)] assms(3) unfolding reads_message_def by auto

lemma HelpJoinRequset_reads:
  assumes ok: "HelpJoinRequset_wire_ok m" and len: "int (length (HelpJoinRequset_bytes m)) < INT_MAX - 16"
  shows "reads_message sees depth 0 (HelpJoinRequset_InternalParse P) HelpJoinRequset_default (HelpJoinRequset_bytes m) m"
proof -
  let ?loop = "parse_loop P (HelpJoinRequset_field P) (parse_unknown P hjq_unknown (\<lambda>us m. m\<lparr>hjq_unknown := us\<rparr>))"
  note short = len [unfolded HelpJoinRequset_bytes_def when_bytes_def string_field_def delimited_def]
  let ?m0 = HelpJoinRequset_default
  let ?m1 = "?m0\<lparr>hjq_newhostname := hjq_newhostname m\<rparr>"
  let ?m2 = "?m1\<lparr>hjq_newport := hjq_newport m\<rparr>"
  let ?m3 = "?m2\<lparr>hjq_newhostnamehash := hjq_newhostnamehash m\<rparr>"
  have s1: "advances sees depth 0 ?loop ?m0 (when_bytes (hjq_newhostname m) (string_field 1)) ?m1"
    by (rule when_string [where tag = 10 and get = HelpJoinRequset_newhostname and put = "\<lambda>v m. m\<lparr>hjq_newhostname := Some v\<rparr>"])
       (use short in \<open>simp_all add: HelpJoinRequset_field_def field_case_def make_tags HelpJoinRequset_default_def string_bytes_def\<close>)
  have s2: "advances sees depth 0 ?loop ?m1 (when_bytes (hjq_newport m) (string_field 2)) ?m2"
    by (rule when_string [where tag = 18 and get = HelpJoinRequset_newport and put = "\<lambda>v m. m\<lparr>hjq_newport := Some v\<rparr>"])
       (use short in \<open>simp_all add: HelpJoinRequset_field_def field_case_def make_tags HelpJoinRequset_default_def string_bytes_def\<close>)
  have s3: "advances sees depth 0 ?loop ?m2 (when_bytes (hjq_newhostnamehash m) (int64_field 3)) ?m3"
    by (rule when_int64 [where tag = 24 and put = "\<lambda>v m. m\<lparr>hjq_newhostnamehash := Some v\<rparr>"])
       (use ok in \<open>simp_all add: HelpJoinRequset_field_def field_case_def make_tags HelpJoinRequset_default_def HelpJoinRequset_wire_ok_def\<close>)
  have "?m3 = m" using ok by (cases m) (simp add: HelpJoinRequset_default_def HelpJoinRequset_wire_ok_def)
  then have "advances sees depth 0 ?loop ?m0 (HelpJoinRequset_bytes m) m"
    using ok advances_append [OF s1 advances_append [OF s2 s3]]
    by (simp add: HelpJoinRequset_bytes_def HelpJoinRequset_wire_ok_def)
  then show ?thesis unfolding HelpJoinRequset_InternalParse_def by (rule reads_messageI)
qed

lemma HelpJoinRequset_reads_up:
  assumes "HelpJoinRequset_wire_ok m" and "int (length (HelpJoinRequset_bytes m)) < INT_MAX - 16" and "0 \<le> k"
  shows "reads_message sees depth k (HelpJoinRequset_InternalParse P) HelpJoinRequset_default (HelpJoinRequset_bytes m) m"
  using HelpJoinRequset_reads [OF assms(1,2)] assms(3) unfolding reads_message_def by auto

lemma HelpJoinResponse_reads:
  assumes ok: "HelpJoinResponse_wire_ok m" and len: "int (length (HelpJoinResponse_bytes m)) < INT_MAX - 16"
  shows "reads_message sees depth 0 (HelpJoinResponse_InternalParse P) HelpJoinResponse_default (HelpJoinResponse_bytes m) m"
proof -
  let ?loop = "parse_loop P (HelpJoinResponse_field P) (parse_unknown P hjp_unknown (\<lambda>us m. m\<lparr>hjp_unknown := us\<rparr>))"
  note short = len [unfolded HelpJoinResponse_bytes_def when_bytes_def string_field_def delimited_def]
  let ?m0 = HelpJoinResponse_default
  let ?m1 = "?m0\<lparr>hjp_responsiblehostname := hjp_responsiblehostname m\<rparr>"
  let ?m2 = "?m1\<lparr>hjp_responsibleport := hjp_responsibleport m\<rparr>"
  let ?m3 = "?m2\<lparr>hjp_responhostnamehash := hjp_responhostnamehash m\<rparr>"
  have s1: "advances sees depth 0 ?loop ?m0 (when_bytes (hjp_responsiblehostname m) (string_field 1)) ?m1"
    by (rule when_string [where tag = 10 and get = HelpJoinResponse_responsiblehostname and put = "\<lambda>v m. m\<lparr>hjp_responsiblehostname := Some v\<rparr>"])
       (use short in \<open>simp_all add: HelpJoinResponse_field_def field_case_def make_tags HelpJoinResponse_default_def string_bytes_def\<close>)
  have s2: "advances sees depth 0 ?loop ?m1 (when_bytes (hjp_responsibleport m) (string_field 2)) ?m2"
    by (rule when_string [where tag = 18 and get = HelpJoinResponse_responsibleport and put = "\<lambda>v m. m\<lparr>hjp_responsibleport := Some v\<rparr>"])
       (use short in \<open>simp_all add: HelpJoinResponse_field_def field_case_def make_tags HelpJoinResponse_default_def string_bytes_def\<close>)
  have s3: "advances sees depth 0 ?loop ?m2 (when_bytes (hjp_responhostnamehash m) (int64_field 3)) ?m3"
    by (rule when_int64 [where tag = 24 and put = "\<lambda>v m. m\<lparr>hjp_responhostnamehash := Some v\<rparr>"])
       (use ok in \<open>simp_all add: HelpJoinResponse_field_def field_case_def make_tags HelpJoinResponse_default_def HelpJoinResponse_wire_ok_def\<close>)
  have "?m3 = m" using ok by (cases m) (simp add: HelpJoinResponse_default_def HelpJoinResponse_wire_ok_def)
  then have "advances sees depth 0 ?loop ?m0 (HelpJoinResponse_bytes m) m"
    using ok advances_append [OF s1 advances_append [OF s2 s3]]
    by (simp add: HelpJoinResponse_bytes_def HelpJoinResponse_wire_ok_def)
  then show ?thesis unfolding HelpJoinResponse_InternalParse_def by (rule reads_messageI)
qed

lemma HelpJoinResponse_reads_up:
  assumes "HelpJoinResponse_wire_ok m" and "int (length (HelpJoinResponse_bytes m)) < INT_MAX - 16" and "0 \<le> k"
  shows "reads_message sees depth k (HelpJoinResponse_InternalParse P) HelpJoinResponse_default (HelpJoinResponse_bytes m) m"
  using HelpJoinResponse_reads [OF assms(1,2)] assms(3) unfolding reads_message_def by auto

lemma LookupNodeResponse_reads:
  assumes ok: "LookupNodeResponse_wire_ok m" and len: "int (length (LookupNodeResponse_bytes m)) < INT_MAX - 16"
  shows "reads_message sees depth 0 (LookupNodeResponse_InternalParse P) LookupNodeResponse_default (LookupNodeResponse_bytes m) m"
proof -
  let ?loop = "parse_loop P (LookupNodeResponse_field P) (parse_unknown P lnp_unknown (\<lambda>us m. m\<lparr>lnp_unknown := us\<rparr>))"
  note short = len [unfolded LookupNodeResponse_bytes_def when_bytes_def string_field_def delimited_def]
  let ?m0 = LookupNodeResponse_default
  let ?m1 = "?m0\<lparr>lnp_hostname := lnp_hostname m\<rparr>"
  let ?m2 = "?m1\<lparr>lnp_port := lnp_port m\<rparr>"
  let ?m3 = "?m2\<lparr>lnp_hostnamehash := lnp_hostnamehash m\<rparr>"
  have s1: "advances sees depth 0 ?loop ?m0 (when_bytes (lnp_hostname m) (string_field 1)) ?m1"
    by (rule when_string [where tag = 10 and get = LookupNodeResponse_hostname and put = "\<lambda>v m. m\<lparr>lnp_hostname := Some v\<rparr>"])
       (use short in \<open>simp_all add: LookupNodeResponse_field_def field_case_def make_tags LookupNodeResponse_default_def string_bytes_def\<close>)
  have s2: "advances sees depth 0 ?loop ?m1 (when_bytes (lnp_port m) (string_field 2)) ?m2"
    by (rule when_string [where tag = 18 and get = LookupNodeResponse_port and put = "\<lambda>v m. m\<lparr>lnp_port := Some v\<rparr>"])
       (use short in \<open>simp_all add: LookupNodeResponse_field_def field_case_def make_tags LookupNodeResponse_default_def string_bytes_def\<close>)
  have s3: "advances sees depth 0 ?loop ?m2 (when_bytes (lnp_hostnamehash m) (int64_field 3)) ?m3"
    by (rule when_int64 [where tag = 24 and put = "\<lambda>v m. m\<lparr>lnp_hostnamehash := Some v\<rparr>"])
       (use ok in \<open>simp_all add: LookupNodeResponse_field_def field_case_def make_tags LookupNodeResponse_default_def LookupNodeResponse_wire_ok_def\<close>)
  have "?m3 = m" using ok by (cases m) (simp add: LookupNodeResponse_default_def LookupNodeResponse_wire_ok_def)
  then have "advances sees depth 0 ?loop ?m0 (LookupNodeResponse_bytes m) m"
    using ok advances_append [OF s1 advances_append [OF s2 s3]]
    by (simp add: LookupNodeResponse_bytes_def LookupNodeResponse_wire_ok_def)
  then show ?thesis unfolding LookupNodeResponse_InternalParse_def by (rule reads_messageI)
qed

lemma LookupNodeResponse_reads_up:
  assumes "LookupNodeResponse_wire_ok m" and "int (length (LookupNodeResponse_bytes m)) < INT_MAX - 16" and "0 \<le> k"
  shows "reads_message sees depth k (LookupNodeResponse_InternalParse P) LookupNodeResponse_default (LookupNodeResponse_bytes m) m"
  using LookupNodeResponse_reads [OF assms(1,2)] assms(3) unfolding reads_message_def by auto

lemma NodeRequest_reads:
  assumes ok: "NodeRequest_wire_ok m" and len: "int (length (NodeRequest_bytes m)) < INT_MAX - 16"
  shows "reads_message sees depth (Suc 1) (NodeRequest_InternalParse P) NodeRequest_default (NodeRequest_bytes m) m"
proof -
  let ?loop = "parse_loop P (NodeRequest_field P) (parse_unknown P nrq_unknown (\<lambda>us m. m\<lparr>nrq_unknown := us\<rparr>))"
  note short = len [unfolded NodeRequest_bytes_def when_bytes_def string_field_def delimited_def]
  let ?m0 = NodeRequest_default
  let ?m1 = "?m0\<lparr>nrq_type := nrq_type m\<rparr>"
  let ?m2 = "?m1\<lparr>nrq_addfile := nrq_addfile m\<rparr>"
  let ?m3 = "?m2\<lparr>nrq_lookup := nrq_lookup m\<rparr>"
  let ?m4 = "?m3\<lparr>nrq_deletefile := nrq_deletefile m\<rparr>"
  let ?m5 = "?m4\<lparr>nrq_download := nrq_download m\<rparr>"
  let ?m6 = "?m5\<lparr>nrq_join := nrq_join m\<rparr>"
  let ?m7 = "?m6\<lparr>nrq_updateroute := nrq_updateroute m\<rparr>"
  let ?m8 = "?m7\<lparr>nrq_deleteroute := nrq_deleteroute m\<rparr>"
  let ?m9 = "?m8\<lparr>nrq_helpjoin := nrq_helpjoin m\<rparr>"
  have s1: "advances sees depth (Suc 1) ?loop ?m0 (when_bytes (nrq_type m) (int64_field 1)) ?m1"
    by (rule when_int64 [where tag = 8 and put = "\<lambda>v m. m\<lparr>nrq_type := Some v\<rparr>"])
       (use ok in \<open>simp_all add: NodeRequest_field_def field_case_def make_tags NodeRequest_default_def NodeRequest_wire_ok_def\<close>)
  have r2: "reads_message sees depth 1 (AddFileRequest_InternalParse P) (NodeRequest_addfile ?m1) (AddFileRequest_bytes x) x \<and> int (length (AddFileRequest_bytes x)) < INT_MAX - 16"
    if "nrq_addfile m = Some x" for x
  proof -
    have "int (length (AddFileRequest_bytes x)) < INT_MAX - 16" using short that by simp
    moreover have "NodeRequest_addfile ?m1 = AddFileRequest_default" by (simp add: NodeRequest_addfile_def NodeRequest_default_def)
    moreover have "AddFileRequest_wire_ok x" using ok that by (simp add: NodeRequest_wire_ok_def)
    ultimately show ?thesis using AddFileRequest_reads_up [of x 1] by simp
  qed
  have s2: "advances sees depth (Suc 1) ?loop ?m1 (when_bytes (nrq_addfile m) (\<lambda>x. delimited 2 (AddFileRequest_bytes x))) ?m2"
    by (rule when_message [where tag = 18 and parse = "AddFileRequest_InternalParse P" and mutable = NodeRequest_addfile and put = "\<lambda>v m. m\<lparr>nrq_addfile := Some v\<rparr>"])
       (use r2 in \<open>simp_all add: NodeRequest_field_def field_case_def make_tags NodeRequest_default_def\<close>)
  have r3: "reads_message sees depth 1 (LookupFileRequest_InternalParse P) (NodeRequest_lookup ?m2) (LookupFileRequest_bytes x) x \<and> int (length (LookupFileRequest_bytes x)) < INT_MAX - 16"
    if "nrq_lookup m = Some x" for x
  proof -
    have "int (length (LookupFileRequest_bytes x)) < INT_MAX - 16" using short that by simp
    moreover have "NodeRequest_lookup ?m2 = LookupFileRequest_default" by (simp add: NodeRequest_lookup_def NodeRequest_default_def)
    moreover have "LookupFileRequest_wire_ok x" using ok that by (simp add: NodeRequest_wire_ok_def)
    ultimately show ?thesis using LookupFileRequest_reads_up [of x 1] by simp
  qed
  have s3: "advances sees depth (Suc 1) ?loop ?m2 (when_bytes (nrq_lookup m) (\<lambda>x. delimited 3 (LookupFileRequest_bytes x))) ?m3"
    by (rule when_message [where tag = 26 and parse = "LookupFileRequest_InternalParse P" and mutable = NodeRequest_lookup and put = "\<lambda>v m. m\<lparr>nrq_lookup := Some v\<rparr>"])
       (use r3 in \<open>simp_all add: NodeRequest_field_def field_case_def make_tags NodeRequest_default_def\<close>)
  have r4: "reads_message sees depth 1 (DeleteFileRequest_InternalParse P) (NodeRequest_deletefile ?m3) (DeleteFileRequest_bytes x) x \<and> int (length (DeleteFileRequest_bytes x)) < INT_MAX - 16"
    if "nrq_deletefile m = Some x" for x
  proof -
    have "int (length (DeleteFileRequest_bytes x)) < INT_MAX - 16" using short that by simp
    moreover have "NodeRequest_deletefile ?m3 = DeleteFileRequest_default" by (simp add: NodeRequest_deletefile_def NodeRequest_default_def)
    moreover have "DeleteFileRequest_wire_ok x" using ok that by (simp add: NodeRequest_wire_ok_def)
    ultimately show ?thesis using DeleteFileRequest_reads_up [of x 1] by simp
  qed
  have s4: "advances sees depth (Suc 1) ?loop ?m3 (when_bytes (nrq_deletefile m) (\<lambda>x. delimited 4 (DeleteFileRequest_bytes x))) ?m4"
    by (rule when_message [where tag = 34 and parse = "DeleteFileRequest_InternalParse P" and mutable = NodeRequest_deletefile and put = "\<lambda>v m. m\<lparr>nrq_deletefile := Some v\<rparr>"])
       (use r4 in \<open>simp_all add: NodeRequest_field_def field_case_def make_tags NodeRequest_default_def\<close>)
  have r5: "reads_message sees depth 1 (DownloadRequest_InternalParse P) (NodeRequest_download ?m4) (DownloadRequest_bytes x) x \<and> int (length (DownloadRequest_bytes x)) < INT_MAX - 16"
    if "nrq_download m = Some x" for x
  proof -
    have "int (length (DownloadRequest_bytes x)) < INT_MAX - 16" using short that by simp
    moreover have "NodeRequest_download ?m4 = DownloadRequest_default" by (simp add: NodeRequest_download_def NodeRequest_default_def)
    moreover have "DownloadRequest_wire_ok x" using ok that by (simp add: NodeRequest_wire_ok_def)
    ultimately show ?thesis using DownloadRequest_reads_up [of x 1] by simp
  qed
  have s5: "advances sees depth (Suc 1) ?loop ?m4 (when_bytes (nrq_download m) (\<lambda>x. delimited 5 (DownloadRequest_bytes x))) ?m5"
    by (rule when_message [where tag = 42 and parse = "DownloadRequest_InternalParse P" and mutable = NodeRequest_download and put = "\<lambda>v m. m\<lparr>nrq_download := Some v\<rparr>"])
       (use r5 in \<open>simp_all add: NodeRequest_field_def field_case_def make_tags NodeRequest_default_def\<close>)
  have r6: "reads_message sees depth 1 (JoinRequest_InternalParse P) (NodeRequest_join ?m5) (JoinRequest_bytes x) x \<and> int (length (JoinRequest_bytes x)) < INT_MAX - 16"
    if "nrq_join m = Some x" for x
  proof -
    have "int (length (JoinRequest_bytes x)) < INT_MAX - 16" using short that by simp
    moreover have "NodeRequest_join ?m5 = JoinRequest_default" by (simp add: NodeRequest_join_def NodeRequest_default_def)
    moreover have "JoinRequest_wire_ok x" using ok that by (simp add: NodeRequest_wire_ok_def)
    ultimately show ?thesis using JoinRequest_reads_up [of x 1] by simp
  qed
  have s6: "advances sees depth (Suc 1) ?loop ?m5 (when_bytes (nrq_join m) (\<lambda>x. delimited 6 (JoinRequest_bytes x))) ?m6"
    by (rule when_message [where tag = 50 and parse = "JoinRequest_InternalParse P" and mutable = NodeRequest_join and put = "\<lambda>v m. m\<lparr>nrq_join := Some v\<rparr>"])
       (use r6 in \<open>simp_all add: NodeRequest_field_def field_case_def make_tags NodeRequest_default_def\<close>)
  have r7: "reads_message sees depth 1 (RouteUpdateRequest_InternalParse P) (NodeRequest_updateroute ?m6) (RouteUpdateRequest_bytes x) x \<and> int (length (RouteUpdateRequest_bytes x)) < INT_MAX - 16"
    if "nrq_updateroute m = Some x" for x
  proof -
    have "int (length (RouteUpdateRequest_bytes x)) < INT_MAX - 16" using short that by simp
    moreover have "NodeRequest_updateroute ?m6 = RouteUpdateRequest_default" by (simp add: NodeRequest_updateroute_def NodeRequest_default_def)
    moreover have "RouteUpdateRequest_wire_ok x" using ok that by (simp add: NodeRequest_wire_ok_def)
    ultimately show ?thesis using RouteUpdateRequest_reads_up [of x 1] by simp
  qed
  have s7: "advances sees depth (Suc 1) ?loop ?m6 (when_bytes (nrq_updateroute m) (\<lambda>x. delimited 7 (RouteUpdateRequest_bytes x))) ?m7"
    by (rule when_message [where tag = 58 and parse = "RouteUpdateRequest_InternalParse P" and mutable = NodeRequest_updateroute and put = "\<lambda>v m. m\<lparr>nrq_updateroute := Some v\<rparr>"])
       (use r7 in \<open>simp_all add: NodeRequest_field_def field_case_def make_tags NodeRequest_default_def\<close>)
  have r8: "reads_message sees depth 1 (RouteDeleteRequest_InternalParse P) (NodeRequest_deleteroute ?m7) (RouteDeleteRequest_bytes x) x \<and> int (length (RouteDeleteRequest_bytes x)) < INT_MAX - 16"
    if "nrq_deleteroute m = Some x" for x
  proof -
    have "int (length (RouteDeleteRequest_bytes x)) < INT_MAX - 16" using short that by simp
    moreover have "NodeRequest_deleteroute ?m7 = RouteDeleteRequest_default" by (simp add: NodeRequest_deleteroute_def NodeRequest_default_def)
    moreover have "RouteDeleteRequest_wire_ok x" using ok that by (simp add: NodeRequest_wire_ok_def)
    ultimately show ?thesis using RouteDeleteRequest_reads_up [of x 1] by simp
  qed
  have s8: "advances sees depth (Suc 1) ?loop ?m7 (when_bytes (nrq_deleteroute m) (\<lambda>x. delimited 8 (RouteDeleteRequest_bytes x))) ?m8"
    by (rule when_message [where tag = 66 and parse = "RouteDeleteRequest_InternalParse P" and mutable = NodeRequest_deleteroute and put = "\<lambda>v m. m\<lparr>nrq_deleteroute := Some v\<rparr>"])
       (use r8 in \<open>simp_all add: NodeRequest_field_def field_case_def make_tags NodeRequest_default_def\<close>)
  have r9: "reads_message sees depth 1 (HelpJoinRequset_InternalParse P) (NodeRequest_helpjoin ?m8) (HelpJoinRequset_bytes x) x \<and> int (length (HelpJoinRequset_bytes x)) < INT_MAX - 16"
    if "nrq_helpjoin m = Some x" for x
  proof -
    have "int (length (HelpJoinRequset_bytes x)) < INT_MAX - 16" using short that by simp
    moreover have "NodeRequest_helpjoin ?m8 = HelpJoinRequset_default" by (simp add: NodeRequest_helpjoin_def NodeRequest_default_def)
    moreover have "HelpJoinRequset_wire_ok x" using ok that by (simp add: NodeRequest_wire_ok_def)
    ultimately show ?thesis using HelpJoinRequset_reads_up [of x 1] by simp
  qed
  have s9: "advances sees depth (Suc 1) ?loop ?m8 (when_bytes (nrq_helpjoin m) (\<lambda>x. delimited 9 (HelpJoinRequset_bytes x))) ?m9"
    by (rule when_message [where tag = 74 and parse = "HelpJoinRequset_InternalParse P" and mutable = NodeRequest_helpjoin and put = "\<lambda>v m. m\<lparr>nrq_helpjoin := Some v\<rparr>"])
       (use r9 in \<open>simp_all add: NodeRequest_field_def field_case_def make_tags NodeRequest_default_def\<close>)
  have "?m9 = m" using ok by (cases m) (simp add: NodeRequest_default_def NodeRequest_wire_ok_def)
  then have "advances sees depth (Suc 1) ?loop ?m0 (NodeRequest_bytes m) m"
    using ok advances_append [OF s1 advances_append [OF s2 advances_append [OF s3 advances_append [OF s4 advances_append [OF s5 advances_append [OF s6 advances_append [OF s7 advances_append [OF s8 s9]]]]]]]]
    by (simp add: NodeRequest_bytes_def NodeRequest_wire_ok_def)
  then show ?thesis unfolding NodeRequest_InternalParse_def by (rule reads_messageI)
qed

lemma NodeRequest_reads_up:
  assumes "NodeRequest_wire_ok m" and "int (length (NodeRequest_bytes m)) < INT_MAX - 16" and "2 \<le> k"
  shows "reads_message sees depth k (NodeRequest_InternalParse P) NodeRequest_default (NodeRequest_bytes m) m"
  using NodeRequest_reads [OF assms(1,2)] assms(3) unfolding reads_message_def by auto

lemma NodeResponse_reads:
  assumes ok: "NodeResponse_wire_ok m" and len: "int (length (NodeResponse_bytes m)) < INT_MAX - 16"
  shows "reads_message sees depth (Suc 1) (NodeResponse_InternalParse P) NodeResponse_default (NodeResponse_bytes m) m"
proof -
  let ?loop = "parse_loop P (NodeResponse_field P) (parse_unknown P nrp_unknown (\<lambda>us m. m\<lparr>nrp_unknown := us\<rparr>))"
  note short = len [unfolded NodeResponse_bytes_def when_bytes_def string_field_def delimited_def]
  let ?m0 = NodeResponse_default
  let ?m1 = "?m0\<lparr>nrp_type := nrp_type m\<rparr>"
  let ?m2 = "?m1\<lparr>nrp_lookup := nrp_lookup m\<rparr>"
  let ?m3 = "?m2\<lparr>nrp_fileinforsp := nrp_fileinforsp m\<rparr>"
  let ?m4 = "?m3\<lparr>nrp_routeinit := nrp_routeinit m\<rparr>"
  let ?m5 = "?m4\<lparr>nrp_filetable := nrp_filetable m\<rparr>"
  let ?m6 = "?m5\<lparr>nrp_helpjoin := nrp_helpjoin m\<rparr>"
  let ?m7 = "?m6\<lparr>nrp_updateroute := nrp_updateroute m\<rparr>"
  let ?m8 = "?m7\<lparr>nrp_lookupnode := nrp_lookupnode m\<rparr>"
  have s1: "advances sees depth (Suc 1) ?loop ?m0 (when_bytes (nrp_type m) (int64_field 1)) ?m1"
    by (rule when_int64 [where tag = 8 and put = "\<lambda>v m. m\<lparr>nrp_type := Some v\<rparr>"])
       (use ok in \<open>simp_all add: NodeResponse_field_def field_case_def make_tags NodeResponse_default_def NodeResponse_wire_ok_def\<close>)
  have r2: "reads_message sees depth 1 (LookupFileResponse_InternalParse P) (NodeResponse_lookup ?m1) (LookupFileResponse_bytes x) x \<and> int (length (LookupFileResponse_bytes x)) < INT_MAX - 16"
    if "nrp_lookup m = Some x" for x
  proof -
    have "int (length (LookupFileResponse_bytes x)) < INT_MAX - 16" using short that by simp
    moreover have "NodeResponse_lookup ?m1 = LookupFileResponse_default" by (simp add: NodeResponse_lookup_def NodeResponse_default_def)
    moreover have "LookupFileResponse_wire_ok x" using ok that by (simp add: NodeResponse_wire_ok_def)
    ultimately show ?thesis using LookupFileResponse_reads_up [of x 1] by simp
  qed
  have s2: "advances sees depth (Suc 1) ?loop ?m1 (when_bytes (nrp_lookup m) (\<lambda>x. delimited 2 (LookupFileResponse_bytes x))) ?m2"
    by (rule when_message [where tag = 18 and parse = "LookupFileResponse_InternalParse P" and mutable = NodeResponse_lookup and put = "\<lambda>v m. m\<lparr>nrp_lookup := Some v\<rparr>"])
       (use r2 in \<open>simp_all add: NodeResponse_field_def field_case_def make_tags NodeResponse_default_def\<close>)
  have r3: "reads_message sees depth 1 (FileInfoResponse_InternalParse P) (NodeResponse_fileinforsp ?m2) (FileInfoResponse_bytes x) x \<and> int (length (FileInfoResponse_bytes x)) < INT_MAX - 16"
    if "nrp_fileinforsp m = Some x" for x
  proof -
    have "int (length (FileInfoResponse_bytes x)) < INT_MAX - 16" using short that by simp
    moreover have "NodeResponse_fileinforsp ?m2 = FileInfoResponse_default" by (simp add: NodeResponse_fileinforsp_def NodeResponse_default_def)
    moreover have "FileInfoResponse_wire_ok x" using ok that by (simp add: NodeResponse_wire_ok_def)
    ultimately show ?thesis using FileInfoResponse_reads_up [of x 1] by simp
  qed
  have s3: "advances sees depth (Suc 1) ?loop ?m2 (when_bytes (nrp_fileinforsp m) (\<lambda>x. delimited 3 (FileInfoResponse_bytes x))) ?m3"
    by (rule when_message [where tag = 26 and parse = "FileInfoResponse_InternalParse P" and mutable = NodeResponse_fileinforsp and put = "\<lambda>v m. m\<lparr>nrp_fileinforsp := Some v\<rparr>"])
       (use r3 in \<open>simp_all add: NodeResponse_field_def field_case_def make_tags NodeResponse_default_def\<close>)
  have r4: "reads_message sees depth 1 (RouteTableInit_InternalParse P) (NodeResponse_routeinit ?m3) (RouteTableInit_bytes x) x \<and> int (length (RouteTableInit_bytes x)) < INT_MAX - 16"
    if "nrp_routeinit m = Some x" for x
  proof -
    have "int (length (RouteTableInit_bytes x)) < INT_MAX - 16" using short that by simp
    moreover have "NodeResponse_routeinit ?m3 = RouteTableInit_default" by (simp add: NodeResponse_routeinit_def NodeResponse_default_def)
    moreover have "RouteTableInit_wire_ok x" using ok that by (simp add: NodeResponse_wire_ok_def)
    ultimately show ?thesis using RouteTableInit_reads_up [of x 1] by simp
  qed
  have s4: "advances sees depth (Suc 1) ?loop ?m3 (when_bytes (nrp_routeinit m) (\<lambda>x. delimited 4 (RouteTableInit_bytes x))) ?m4"
    by (rule when_message [where tag = 34 and parse = "RouteTableInit_InternalParse P" and mutable = NodeResponse_routeinit and put = "\<lambda>v m. m\<lparr>nrp_routeinit := Some v\<rparr>"])
       (use r4 in \<open>simp_all add: NodeResponse_field_def field_case_def make_tags NodeResponse_default_def\<close>)
  have r5: "reads_message sees depth 1 (FileTable_InternalParse P) (NodeResponse_filetable ?m4) (FileTable_bytes x) x \<and> int (length (FileTable_bytes x)) < INT_MAX - 16"
    if "nrp_filetable m = Some x" for x
  proof -
    have "int (length (FileTable_bytes x)) < INT_MAX - 16" using short that by simp
    moreover have "NodeResponse_filetable ?m4 = FileTable_default" by (simp add: NodeResponse_filetable_def NodeResponse_default_def)
    moreover have "FileTable_wire_ok x" using ok that by (simp add: NodeResponse_wire_ok_def)
    ultimately show ?thesis using FileTable_reads_up [of x 1] by simp
  qed
  have s5: "advances sees depth (Suc 1) ?loop ?m4 (when_bytes (nrp_filetable m) (\<lambda>x. delimited 5 (FileTable_bytes x))) ?m5"
    by (rule when_message [where tag = 42 and parse = "FileTable_InternalParse P" and mutable = NodeResponse_filetable and put = "\<lambda>v m. m\<lparr>nrp_filetable := Some v\<rparr>"])
       (use r5 in \<open>simp_all add: NodeResponse_field_def field_case_def make_tags NodeResponse_default_def\<close>)
  have r6: "reads_message sees depth 1 (HelpJoinResponse_InternalParse P) (NodeResponse_helpjoin ?m5) (HelpJoinResponse_bytes x) x \<and> int (length (HelpJoinResponse_bytes x)) < INT_MAX - 16"
    if "nrp_helpjoin m = Some x" for x
  proof -
    have "int (length (HelpJoinResponse_bytes x)) < INT_MAX - 16" using short that by simp
    moreover have "NodeResponse_helpjoin ?m5 = HelpJoinResponse_default" by (simp add: NodeResponse_helpjoin_def NodeResponse_default_def)
    moreover have "HelpJoinResponse_wire_ok x" using ok that by (simp add: NodeResponse_wire_ok_def)
    ultimately show ?thesis using HelpJoinResponse_reads_up [of x 1] by simp
  qed
  have s6: "advances sees depth (Suc 1) ?loop ?m5 (when_bytes (nrp_helpjoin m) (\<lambda>x. delimited 6 (HelpJoinResponse_bytes x))) ?m6"
    by (rule when_message [where tag = 50 and parse = "HelpJoinResponse_InternalParse P" and mutable = NodeResponse_helpjoin and put = "\<lambda>v m. m\<lparr>nrp_helpjoin := Some v\<rparr>"])
       (use r6 in \<open>simp_all add: NodeResponse_field_def field_case_def make_tags NodeResponse_default_def\<close>)
  have r7: "reads_message sees depth 1 (RouteUpdateResponse_InternalParse P) (NodeResponse_updateroute ?m6) (RouteUpdateResponse_bytes x) x \<and> int (length (RouteUpdateResponse_bytes x)) < INT_MAX - 16"
    if "nrp_updateroute m = Some x" for x
  proof -
    have "int (length (RouteUpdateResponse_bytes x)) < INT_MAX - 16" using short that by simp
    moreover have "NodeResponse_updateroute ?m6 = RouteUpdateResponse_default" by (simp add: NodeResponse_updateroute_def NodeResponse_default_def)
    moreover have "RouteUpdateResponse_wire_ok x" using ok that by (simp add: NodeResponse_wire_ok_def)
    ultimately show ?thesis using RouteUpdateResponse_reads_up [of x 1] by simp
  qed
  have s7: "advances sees depth (Suc 1) ?loop ?m6 (when_bytes (nrp_updateroute m) (\<lambda>x. delimited 7 (RouteUpdateResponse_bytes x))) ?m7"
    by (rule when_message [where tag = 58 and parse = "RouteUpdateResponse_InternalParse P" and mutable = NodeResponse_updateroute and put = "\<lambda>v m. m\<lparr>nrp_updateroute := Some v\<rparr>"])
       (use r7 in \<open>simp_all add: NodeResponse_field_def field_case_def make_tags NodeResponse_default_def\<close>)
  have r8: "reads_message sees depth 1 (LookupNodeResponse_InternalParse P) (NodeResponse_lookupnode ?m7) (LookupNodeResponse_bytes x) x \<and> int (length (LookupNodeResponse_bytes x)) < INT_MAX - 16"
    if "nrp_lookupnode m = Some x" for x
  proof -
    have "int (length (LookupNodeResponse_bytes x)) < INT_MAX - 16" using short that by simp
    moreover have "NodeResponse_lookupnode ?m7 = LookupNodeResponse_default" by (simp add: NodeResponse_lookupnode_def NodeResponse_default_def)
    moreover have "LookupNodeResponse_wire_ok x" using ok that by (simp add: NodeResponse_wire_ok_def)
    ultimately show ?thesis using LookupNodeResponse_reads_up [of x 1] by simp
  qed
  have s8: "advances sees depth (Suc 1) ?loop ?m7 (when_bytes (nrp_lookupnode m) (\<lambda>x. delimited 8 (LookupNodeResponse_bytes x))) ?m8"
    by (rule when_message [where tag = 66 and parse = "LookupNodeResponse_InternalParse P" and mutable = NodeResponse_lookupnode and put = "\<lambda>v m. m\<lparr>nrp_lookupnode := Some v\<rparr>"])
       (use r8 in \<open>simp_all add: NodeResponse_field_def field_case_def make_tags NodeResponse_default_def\<close>)
  have "?m8 = m" using ok by (cases m) (simp add: NodeResponse_default_def NodeResponse_wire_ok_def)
  then have "advances sees depth (Suc 1) ?loop ?m0 (NodeResponse_bytes m) m"
    using ok advances_append [OF s1 advances_append [OF s2 advances_append [OF s3 advances_append [OF s4 advances_append [OF s5 advances_append [OF s6 advances_append [OF s7 s8]]]]]]]
    by (simp add: NodeResponse_bytes_def NodeResponse_wire_ok_def)
  then show ?thesis unfolding NodeResponse_InternalParse_def by (rule reads_messageI)
qed

lemma NodeResponse_reads_up:
  assumes "NodeResponse_wire_ok m" and "int (length (NodeResponse_bytes m)) < INT_MAX - 16" and "2 \<le> k"
  shows "reads_message sees depth k (NodeResponse_InternalParse P) NodeResponse_default (NodeResponse_bytes m) m"
  using NodeResponse_reads [OF assms(1,2)] assms(3) unfolding reads_message_def by auto

end

end
