(* ===== verification/Coded_Context.thy ===== *)
theory Coded_Context
  imports Wire_Parse
begin

text \<open>
  The laws of \<open>Parse_Context\<close> hold of a context made of the operations of \<open>CodedInputStream\<close>: the parser reads from a
  stream over a descriptor below the limit of the message, whatever pieces the descriptor delivers.
\<close>

section \<open>The context\<close>

text \<open>Unknown fields are refused here.\<close>

definition coded_context :: "file_input coded_input context_ops" where
  "coded_context = \<lparr>
     pc_Done = \<lambda>s. return_run (BytesUntilLimit s = 0, Some s),
     pc_ReadTag = \<lambda>s. bind_run (ReadTag FileInputStream s) (\<lambda>(tag, s). return_run (tag, if tag = 0 then None else Some s)),
     pc_ReadVarint64 = \<lambda>s. bind_run (ReadVarint64 FileInputStream s) (\<lambda>(v, s).
       return_run (case v of None \<Rightarrow> (0, None) | Some v \<Rightarrow> (v, Some s))),
     pc_GreedyString = \<lambda>str s. bind_run (ReadVarintSizeAsInt FileInputStream s) (\<lambda>(n, s).
       case n of None \<Rightarrow> return_run (str, None)
       | Some n \<Rightarrow> bind_run (ReadString FileInputStream str n s) (\<lambda>(ok, str, s). return_run (str, if ok then Some s else None))),
     pc_Push = \<lambda>s. bind_run (ReadVarintSizeAsInt FileInputStream s) (\<lambda>(n, s).
       case n of None \<Rightarrow> return_run (0, None)
       | Some n \<Rightarrow> let ((old, budget), s) = IncrementRecursionDepthAndPushLimit n s
                   in return_run (old, if budget < 0 then None else Some s)),
     pc_Pop = \<lambda>old s. return_run (BytesUntilLimit s = 0, snd (DecrementRecursionDepthAndPopLimit old s)),
     pc_DataAvailable = \<lambda>s. BufferSize s > 0,
     pc_peek = \<lambda>s. ci_data s ! 0,
     pc_advance = Advance 1,
     pc_SetLastTag = \<lambda>tag s. s\<lparr>last_tag := tag\<rparr>,
     pc_UnknownFieldParse = \<lambda>tag us s. return_run (us, None)\<rparr>"

text \<open>The limits from the current one, at position \<open>p\<close>, out to the limit \<open>q\<close> of the whole message.\<close>

fun limits_chain :: "int \<Rightarrow> (int \<times> byte list) list \<Rightarrow> int \<Rightarrow> bool" where
  "limits_chain p [] q \<longleftrightarrow> p = q"
| "limits_chain p ((old, bs) # os) q \<longleftrightarrow> old = p + int (length bs) \<and> limits_chain old os q"

text \<open>What is to be read when the parser was started in the state \<open>s0\<close>.\<close>

definition coded_sees ::
    "file_input coded_input \<Rightarrow> file_input coded_input \<Rightarrow> byte list \<Rightarrow> (int \<times> byte list) list \<Rightarrow> bool" where
  "coded_sees s0 s bs os \<longleftrightarrow> coded_ok file_inv FileInputStream s \<and>
     pending file_rest s = bs @ concat (map snd os) @ drop (nat (current_limit s0 - CurrentPosition s0)) (pending file_rest s0) \<and>
     total_bytes_limit s = total_bytes_limit s0 \<and> recursion_limit s = recursion_limit s0 \<and>
     recursion_budget s + int (length os) = recursion_budget s0 \<and>
     current_limit s = CurrentPosition s + int (length bs) \<and> limits_chain (current_limit s) os (current_limit s0) \<and>
     current_limit s0 < total_bytes_limit s0"

lemma limits_chain_le: "limits_chain p os q \<Longrightarrow> p \<le> q"
  by (induction p os q rule: limits_chain.induct) auto

lemma sees_readable:
  assumes "coded_sees s0 s bs os"
  shows "coded_ok file_inv FileInputStream s" and "readable file_rest s = bs" and "BytesUntilLimit s = int (length bs)"
    and "CurrentPosition s + int (length bs) < total_bytes_limit s"
proof -
  note s = assms [unfolded coded_sees_def]
  show ok: "coded_ok file_inv FileInputStream s" using s by blast
  have "current_limit s \<le> current_limit s0" using s limits_chain_le by blast
  then have lim: "current_limit s < total_bytes_limit s" using s by simp
  moreover have "total_bytes_limit s \<le> INT_MAX" using ok by (simp add: coded_ok_def)
  ultimately show "BytesUntilLimit s = int (length bs)" using s by (simp add: BytesUntilLimit_def)
  have "closest_limit s - CurrentPosition s = int (length bs)" using lim s by (simp add: closest_limit_def)
  then show "readable file_rest s = bs" using s by (simp add: readable_def)
  show "CurrentPosition s + int (length bs) < total_bytes_limit s" using lim s by simp
qed

lemma sees_last_tag [simp]: "coded_sees s0 (s\<lparr>last_tag := tag\<rparr>) bs os = coded_sees s0 s bs os"
  by (simp add: coded_sees_def)

lemma budget_update [simp]:
  "coded_ok okI V (s\<lparr>recursion_budget := n\<rparr>) = coded_ok okI V s" "pending rest (s\<lparr>recursion_budget := n\<rparr>) = pending rest s"
  "CurrentPosition (s\<lparr>recursion_budget := n\<rparr>) = CurrentPosition s"
proof -
  show p: "CurrentPosition (s\<lparr>recursion_budget := n\<rparr>) = CurrentPosition s" by (simp add: CurrentPosition_def BufferSize_def)
  show "pending rest (s\<lparr>recursion_budget := n\<rparr>) = pending rest s" by (simp add: pending_def)
  show "coded_ok okI V (s\<lparr>recursion_budget := n\<rparr>) = coded_ok okI V s" unfolding coded_ok_def p by (simp add: closest_limit_def)
qed

lemma sees_after:
  assumes s: "coded_sees s0 s (xs @ bs) os" and c: "consumes file_inv file_rest FileInputStream k s t"
    and bs: "readable file_rest t = bs"
  shows "coded_sees s0 t bs os"
proof -
  note r = sees_readable [OF s]
  have "drop k (xs @ bs) = bs" using consumes_readable [OF c] bs r(2) by simp
  moreover have "k \<le> length (xs @ bs)" using c r(2) by (simp add: consumes_def)
  moreover have "length (xs @ bs) - k = length bs" using calculation(1) by (metis length_drop)
  ultimately have "k = length xs" by simp
  with c s show ?thesis by (auto simp: coded_sees_def consumes_def coded_frame_def)
qed

section \<open>The laws\<close>

lemma varint_at:
  assumes "bs = UnsafeVarint v @ r" and "unat v < 2 ^ 64"
  shows "varint_of kMaxVarintBytes bs = Varint (unat v) r"
proof -
  have "unat v < 128 ^ 10" using assms(2) by simp
  with assms(1) show ?thesis by (simp add: UnsafeVarint_enc kMaxVarintBytes_def varint_of_enc)
qed

lemma small_word: "unat (v :: 32 word) < 2 ^ 64" "unat (w :: 64 word) < 2 ^ 64"
proof -
  have "unat v < 2 ^ 32" using unsigned_less [of v] by simp
  then show "unat v < 2 ^ 64" by simp
  show "unat w < 2 ^ 64" using unsigned_less [of w] by simp
qed

lemma sees_tag:
  assumes s: "coded_sees s0 s (WriteTagToArray tag @ bs) os" and "tag \<noteq> 0"
  shows "\<exists>t. pc_ReadTag coded_context s = return_run (tag, Some t) \<and> coded_sees s0 t bs os"
proof -
  note r = sees_readable [OF s]
  have v: "varint_of kMaxVarintBytes (readable file_rest s) = Varint (unat tag) bs"
    by (rule varint_at [OF _ small_word(1)]) (simp add: r(2) WriteTagToArray_def WriteVarint32ToArray_def)
  then have "readable file_rest s \<noteq> []" by auto
  with file_in.read_tag_no_last_tag_spec [OF r(1)] v assms(2) obtain u k where
    u: "ReadTagNoLastTag FileInputStream s = return_run (tag, u\<lparr>legitimate_message_end := legitimate_message_end s\<rparr>)"
      "consumes file_inv file_rest FileInputStream k s u" "readable file_rest u = bs"
    unfolding takes_tag_def by auto
  have "u\<lparr>legitimate_message_end := legitimate_message_end s\<rparr> = u" using u(2) by (simp add: consumes_def coded_frame_def)
  with u(1) assms(2) sees_after [OF s u(2,3)] show ?thesis by (simp add: coded_context_def ReadTag_def)
qed

lemma sees_varint:
  assumes s: "coded_sees s0 s (WriteVarint64ToArray v @ bs) os"
  shows "\<exists>t. pc_ReadVarint64 coded_context s = return_run (v, Some t) \<and> coded_sees s0 t bs os"
proof -
  note r = sees_readable [OF s]
  have "varint_of kMaxVarintBytes (readable file_rest s) = Varint (unat v) bs"
    by (rule varint_at [OF _ small_word(2)]) (simp add: r(2) WriteVarint64ToArray_def)
  with file_in.read_varint64_spec [OF r(1)] obtain t k where "ReadVarint64 FileInputStream s = return_run (Some v, t)"
    "consumes file_inv file_rest FileInputStream k s t" "readable file_rest t = bs"
    unfolding takes_varint_def by auto
  with sees_after [OF s] show ?thesis by (simp add: coded_context_def)
qed

lemma sees_size:
  assumes s: "coded_sees s0 s (WriteVarint32ToArray (word_of_nat n) @ bs) os" and n: "int n < INT_MAX - 16"
  obtains t where "ReadVarintSizeAsInt FileInputStream s = return_run (Some (int n), t)" and "coded_sees s0 t bs os"
proof -
  note r = sees_readable [OF s]
  have un: "unat (word_of_nat n :: 32 word) = n" using n by (simp add: INT_MAX_def unsigned_of_nat take_bit_nat_eq_self)
  have "varint_of kMaxVarintBytes (readable file_rest s) = Varint (unat (word_of_nat n :: 32 word)) bs"
    by (rule varint_at [OF _ small_word(1)]) (simp add: r(2) WriteVarint32ToArray_def)
  moreover have "n mod 2 ^ 64 = n" "int n \<le> INT_MAX" using n by (simp_all add: INT_MAX_def)
  ultimately obtain t k where "ReadVarintSizeAsInt FileInputStream s = return_run (Some (int n), t)"
    "consumes file_inv file_rest FileInputStream k s t" "readable file_rest t = bs"
    using file_in.read_varint_size_spec [OF r(1)] unfolding takes_varint_def un by auto
  with sees_after [OF s] that show thesis by blast
qed

lemma sees_string:
  assumes s: "coded_sees s0 s (WriteVarint32ToArray (word_of_nat (length str)) @ str @ bs) os" and n: "int (length str) < INT_MAX - 16"
  shows "\<exists>t. pc_GreedyString coded_context old s = return_run (str, Some t) \<and> coded_sees s0 t bs os"
proof -
  from sees_size [OF s n] obtain t where t: "ReadVarintSizeAsInt FileInputStream s = return_run (Some (int (length str)), t)"
    "coded_sees s0 t (str @ bs) os" .
  note r = sees_readable [OF t(2)]
  from file_in.read_string_spec [OF r(1), of "int (length str)" old] obtain u where
    u: "ReadString FileInputStream old (int (length str)) t = return_run (True, str, u)"
      "consumes file_inv file_rest FileInputStream (length str) t u" by (auto simp: takes_bytes_def r(2))
  have "readable file_rest u = bs" using consumes_readable [OF u(2)] r(2) by simp
  with t(1) u(1) sees_after [OF t(2) u(2)] show ?thesis by (simp add: coded_context_def)
qed

lemma sees_push:
  assumes s: "coded_sees s0 s (WriteVarint32ToArray (word_of_nat (length ms)) @ ms @ bs) os" and n: "int (length ms) < INT_MAX - 16"
    and depth: "length os < nat (recursion_budget s0)"
  shows "\<exists>old t. pc_Push coded_context s = return_run (old, Some t) \<and> coded_sees s0 t ms ((old, bs) # os)"
proof -
  from sees_size [OF s n] obtain t where t: "ReadVarintSizeAsInt FileInputStream s = return_run (Some (int (length ms)), t)"
    "coded_sees s0 t (ms @ bs) os" .
  note sees = t(2) [unfolded coded_sees_def] and r = sees_readable [OF t(2)]
  obtain old u where push: "PushLimit (int (length ms)) t = (old, u)" by (cases "PushLimit (int (length ms)) t")
  note p = push_limit_spec [OF r(1) push]
  have "current_limit u = CurrentPosition t + int (length ms)"
    by (rule push_limit_at [OF r(1) push]) (use sees in simp_all)
  moreover have "limits_chain (CurrentPosition t + int (length ms)) ((current_limit t, bs) # os) (current_limit s0)"
    using sees by auto
  ultimately have "coded_sees s0 (u\<lparr>recursion_budget := recursion_budget u - 1\<rparr>) ms ((old, bs) # os)"
    using sees p(1,2,4-9) p(3) [of file_rest] by (simp add: coded_sees_def)
  moreover have "int (length os) < recursion_budget s0" using depth by linarith
  then have "0 \<le> recursion_budget u - 1" using sees p(8) by linarith
  ultimately show ?thesis using t(1) push by (auto simp: coded_context_def IncrementRecursionDepthAndPushLimit_def)
qed

lemma sees_pop:
  assumes s: "coded_sees s0 s [] ((old, bs) # os)"
  shows "\<exists>t. pc_Pop coded_context old s = return_run (True, t) \<and> coded_sees s0 t bs os"
proof -
  note sees = s [unfolded coded_sees_def] and r = sees_readable [OF s]
  have old: "old = CurrentPosition s + int (length bs)" and chain: "limits_chain old os (current_limit s0)"
    and total: "total_bytes_limit s = total_bytes_limit s0" "current_limit s0 < total_bytes_limit s0" using sees by auto
  have "old \<le> current_limit s0" using chain by (rule limits_chain_le)
  moreover have max: "total_bytes_limit s \<le> INT_MAX" using r(1) by (simp add: coded_ok_def)
  ultimately have lim: "old \<le> INT_MAX" "CurrentPosition s \<le> min old (total_bytes_limit s)" using old total by linarith+
  define t where "t = RecomputeBufferLimits (s\<lparr>current_limit := old, total_bytes_limit := total_bytes_limit s\<rparr>)"
  note t = recompute_limits [OF r(1) lim(1) max lim(2), folded t_def]
  have "s\<lparr>current_limit := old\<rparr> = s\<lparr>current_limit := old, total_bytes_limit := total_bytes_limit s\<rparr>" by simp
  then have "PopLimit old s = t\<lparr>legitimate_message_end := False\<rparr>" by (simp only: PopLimit_def t_def)
  then have pop: "snd (DecrementRecursionDepthAndPopLimit old s) =
      t\<lparr>legitimate_message_end := False, recursion_budget := recursion_budget t + 1\<rparr>"
    by (simp add: DecrementRecursionDepthAndPopLimit_def Let_def)
  have "coded_sees s0 (t\<lparr>recursion_budget := recursion_budget t + 1\<rparr>) bs os"
    unfolding coded_sees_def budget_update
  proof (intro conjI)
    show "coded_ok file_inv FileInputStream t" by (rule t(1))
    have "pending file_rest t = pending file_rest s" by (rule t(2))
    also have "\<dots> = bs @ concat (map snd os) @ drop (nat (current_limit s0 - CurrentPosition s0)) (pending file_rest s0)"
      using sees by simp
    finally show "pending file_rest t = bs @ concat (map snd os) @ drop (nat (current_limit s0 - CurrentPosition s0)) (pending file_rest s0)" .
    have "recursion_budget s + int (length ((old, bs) # os)) = recursion_budget s0" using sees by blast
    then show "recursion_budget (t\<lparr>recursion_budget := recursion_budget t + 1\<rparr>) + int (length os) = recursion_budget s0"
      using t(8) by simp
    show "total_bytes_limit (t\<lparr>recursion_budget := recursion_budget t + 1\<rparr>) = total_bytes_limit s0" using t(5) total(1) by simp
    show "recursion_limit (t\<lparr>recursion_budget := recursion_budget t + 1\<rparr>) = recursion_limit s0" using t(9) sees by simp
    show "current_limit (t\<lparr>recursion_budget := recursion_budget t + 1\<rparr>) = CurrentPosition t + int (length bs)"
      using t(3,4) old by simp
    show "limits_chain (current_limit (t\<lparr>recursion_budget := recursion_budget t + 1\<rparr>)) os (current_limit s0)" using t(4) chain by simp
    show "current_limit s0 < total_bytes_limit s0" by (rule total(2))
  qed
  then have "coded_sees s0 (snd (DecrementRecursionDepthAndPopLimit old s)) bs os"
    unfolding pop by (auto simp: coded_sees_def)
  then show ?thesis using r(3) by (simp add: coded_context_def)
qed

lemma sees_available:
  assumes s: "coded_sees s0 s bs os" and avail: "pc_DataAvailable coded_context s"
  shows "bs \<noteq> [] \<and> pc_peek coded_context s = hd bs \<and> coded_sees s0 (pc_advance coded_context s) (tl bs) os"
proof -
  note r = sees_readable [OF s]
  have size: "1 \<le> ci_size s" using avail by (simp add: coded_context_def BufferSize_def)
  note a = advance_consumes [OF r(1) zero_le_one size, of file_rest]
  have len: "1 \<le> length bs" using a(1) r(2) by (simp add: consumes_def)
  then have bs: "bs = hd bs # tl bs" by (cases bs) simp_all
  have "1 \<le> length (ci_data s)" using coded_ok_size [OF r(1)] size by linarith
  moreover have "take 1 (ci_data s) = take 1 bs" using a(2) r(2) by simp
  ultimately have "ci_data s ! 0 = hd bs" using len by (cases "ci_data s"; cases bs) simp_all
  moreover have "readable file_rest (Advance 1 s) = tl bs" using consumes_readable [OF a(1)] r(2) by (simp add: drop_Suc)
  moreover have "coded_sees s0 s ([hd bs] @ tl bs) os" using s bs by simp
  ultimately show ?thesis using sees_after [of s0 s "[hd bs]" "tl bs"] a(1) len by (auto simp: coded_context_def)
qed

interpretation coded_ctx: parse_context coded_context "coded_sees s0" "nat (recursion_budget s0)" for s0
proof
  fix c os assume "coded_sees s0 c [] os"
  with sees_readable(3) [OF this] show "\<exists>d. pc_Done coded_context c = return_run (True, Some d) \<and> coded_sees s0 d [] os"
    by (simp add: coded_context_def)
next
  fix c bs os assume "coded_sees s0 c bs os" "bs \<noteq> []"
  with sees_readable(3) [OF this(1)] show "\<exists>d. pc_Done coded_context c = return_run (False, Some d) \<and> coded_sees s0 d bs os"
    by (simp add: coded_context_def)
qed (rule sees_tag sees_varint sees_string sees_push sees_pop sees_available; assumption)+

text \<open>With the recursion limit of a new stream.\<close>

definition sees_budget :: "file_input coded_input \<Rightarrow> file_input coded_input \<Rightarrow> byte list \<Rightarrow> (int \<times> byte list) list \<Rightarrow> bool" where
  "sees_budget k s bs os \<longleftrightarrow> recursion_budget k = default_recursion_limit \<and> coded_sees k s bs os"

lemma sees_budget_context: "parse_context coded_context (sees_budget k) (nat default_recursion_limit)"
  unfolding sees_budget_def
  by unfold_locales (auto intro: coded_ctx.done_end coded_ctx.done_more coded_ctx.read_tag coded_ctx.read_varint
      coded_ctx.greedy_string coded_ctx.pop dest: coded_ctx.available coded_ctx.push)

section \<open>The message class\<close>

text \<open>\<open>MergeFromCodedStream\<close> over this context: parse up to the limit, note the end there, then check the required fields.\<close>

definition coded_merge ::
    "('m, file_input coded_input) parser \<Rightarrow> ('m \<Rightarrow> bool) \<Rightarrow> 'm \<Rightarrow> file_input coded_input \<Rightarrow> (bool \<times> 'm \<times> file_input coded_input) run" where
  "coded_merge InternalParse IsInitialized message s =
     bind_run (InternalParse message s) (\<lambda>(message, ptr).
       case ptr of
         None \<Rightarrow> return_run (False, message, s)
       | Some t \<Rightarrow> bind_run (ReadTag FileInputStream t) (\<lambda>(tag, t). return_run (tag = 0 \<and> IsInitialized message, message, t)))"

lemma coded_merge_result:
  assumes reads: "reads_message (sees_budget s) (nat default_recursion_limit) levels InternalParse start bs m"
    and levels: "levels \<le> nat default_recursion_limit"
    and ok: "coded_ok file_inv FileInputStream s" and bs: "readable file_rest s = bs"
    and lim: "CurrentPosition s + int (length bs) < total_bytes_limit s" "current_limit s = CurrentPosition s + int (length bs)"
    and budget: "recursion_budget s = default_recursion_limit"
  shows "\<exists>t. coded_merge InternalParse IsInitialized start s =
      Some (Inr (IsInitialized m, m, t\<lparr>legitimate_message_end := True, last_tag := 0\<rparr>)) \<and>
    consumes file_inv file_rest FileInputStream (length bs) s t"
proof -
  have "closest_limit s - CurrentPosition s = int (length bs)" using lim by (simp add: closest_limit_def)
  then have "take (length bs) (pending file_rest s) = bs" using bs by (simp add: readable_def)
  then have "pending file_rest s = bs @ drop (length bs) (pending file_rest s)" by (metis append_take_drop_id)
  then have "sees_budget s s bs []" using ok lim budget by (simp add: coded_sees_def sees_budget_def)
  moreover have "length ([] :: (int \<times> byte list) list) + levels \<le> nat default_recursion_limit" using levels by simp
  ultimately obtain d where d: "InternalParse start s = return_run (m, Some d)" "coded_sees s d [] []"
    using reads unfolding reads_message_def sees_budget_def by blast
  note r = sees_readable [OF d(2)]
  have "at_message_end d" using r(4) by (simp add: at_message_end_def)
  with file_in.read_tag_no_last_tag_spec [OF r(1)] r(2) obtain u k where
    u: "ReadTagNoLastTag FileInputStream d = Some (Inr (0, u\<lparr>legitimate_message_end := True\<rparr>))"
      "consumes file_inv file_rest FileInputStream k d u" by (auto simp: takes_tag_def)
  then have "k = 0" using r(2) by (simp add: consumes_def)
  define t where "t = u\<lparr>legitimate_message_end := legitimate_message_end s, last_tag := last_tag s\<rparr>"
  have "t\<lparr>legitimate_message_end := True, last_tag := 0\<rparr> = u\<lparr>legitimate_message_end := True, last_tag := 0\<rparr>" by (simp add: t_def)
  with d(1) u(1) have "coded_merge InternalParse IsInitialized start s =
      Some (Inr (IsInitialized m, m, t\<lparr>legitimate_message_end := True, last_tag := 0\<rparr>))"
    by (simp add: coded_merge_def ReadTag_def)
  moreover have "consumes file_inv file_rest FileInputStream (length bs) s t"
    using u(2) \<open>k = 0\<close> d(2) bs lim by (simp add: consumes_def coded_frame_def coded_sees_def t_def nat_diff_distrib)
  ultimately show ?thesis by blast
qed

end
