(* ===== verification/Message_Transfer.thy ===== *)
theory Message_Transfer
  imports Coded_Context Proto_Messages
begin

text \<open>
  The messages on the connection: \<open>sendMesgTo\<close> and \<open>recvMesgFrom\<close> of \<open>util/proto.h\<close> at the classes \<open>NodeRequest\<close> and
  \<open>NodeResponse\<close>, with the generated serialisers and parsers. Of what the library does outside its headers three
  functions are parameters: the \<open>runtime\<close> of \<open>Serialize\<close>, \<open>SerializeWithCachedSizesToArray\<close>, which writes what
  \<open>SerializeWithCachedSizes\<close> writes, and \<open>MergeFromCodedStream\<close>, which runs \<open>_InternalParse\<close> of the class over a
  context that keeps the laws of \<open>parse_context\<close> and then asks \<open>IsInitialized\<close>.
\<close>

section \<open>The classes\<close>

definition MessageLite_SerializeWithCachedSizes :: "'s serializer \<Rightarrow> 's coded_output \<Rightarrow> 's coded_output run" where
  "MessageLite_SerializeWithCachedSizes InternalSerialize output =
     via_impl (\<lambda>cur impl. InternalSerialize (cur, impl)) output"

definition MessageLite_ByteSize :: "('m \<Rightarrow> nat) \<Rightarrow> 'm \<Rightarrow> int" where
  "MessageLite_ByteSize ByteSizeLong m = ToIntSize (ByteSizeLong m)"

type_synonym 'm merger = "'m \<Rightarrow> file_input coded_input \<Rightarrow> (bool \<times> 'm \<times> file_input coded_input) run"

definition NodeRequest_class :: "file_output runtime \<Rightarrow> (NodeRequest \<Rightarrow> byte list) \<Rightarrow> NodeRequest merger \<Rightarrow> NodeRequest message_class" where
  "NodeRequest_class R to_array merge = \<lparr>ByteSize = MessageLite_ByteSize (NodeRequest_ByteSizeLong R),
     SerializeWithCachedSizesToArray = to_array,
     SerializeWithCachedSizes = \<lambda>m. MessageLite_SerializeWithCachedSizes (NodeRequest_InternalSerialize FileOutputStream R m),
     MergeFromCodedStream = merge\<rparr>"

definition NodeResponse_class :: "file_output runtime \<Rightarrow> (NodeResponse \<Rightarrow> byte list) \<Rightarrow> NodeResponse merger \<Rightarrow> NodeResponse message_class" where
  "NodeResponse_class R to_array merge = \<lparr>ByteSize = MessageLite_ByteSize (NodeResponse_ByteSizeLong R),
     SerializeWithCachedSizesToArray = to_array,
     SerializeWithCachedSizes = \<lambda>m. MessageLite_SerializeWithCachedSizes (NodeResponse_InternalSerialize FileOutputStream R m),
     MergeFromCodedStream = merge\<rparr>"

text \<open>Runtimes over a descriptor that never fails for good.\<close>

abbreviation patient_runtime :: "file_output runtime \<Rightarrow> bool" where
  "patient_runtime \<equiv> runtime_ok (oa_ok patient_file co_sent) (\<lambda>a. False) (oa_out co_sent) oa_buffer_used"

lemma serializes_puts:
  assumes "puts okS failedS (oa_out co_sent) oa_buffer_used f bs"
  shows "serializes okS failedS (MessageLite_SerializeWithCachedSizes f) bs"
  unfolding serializes_def
proof (intro allI impI)
  fix s assume "co_state okS failedS oa_buffer_used s"
  from putsD [OF assms this] obtain q t where "f (co_cur s, co_impl s) = Some (Inr (q, t))"
    "eps_writes okS failedS (oa_out co_sent) oa_buffer_used bs (co_impl s) (co_cur s) t q" .
  then show "\<exists>t. MessageLite_SerializeWithCachedSizes f s = Some (Inr t) \<and>
      co_writes okS failedS (oa_out co_sent) oa_buffer_used bs s t"
    by (simp add: MessageLite_SerializeWithCachedSizes_def co_writes_def)
qed

lemma ToIntSize_small: "n < 2 ^ 31 \<Longrightarrow> ToIntSize n = int n"
  by (simp add: ToIntSize_def signed_take_bit_int_eq_self_iff)

section \<open>The parser of the library\<close>

text \<open>
  \<open>merges P sees merge\<close>: \<open>merge\<close>, given the parser of a class and its \<open>IsInitialized\<close>, is \<open>MergeFromCodedStream\<close> of the
  class over the context \<open>P\<close>; \<open>sees k\<close> is what the context is to read in the \<open>k\<close>-th call. The recursion limit is
  the default one of \<open>CodedInputStream\<close>.
\<close>

definition rejects :: "'m merger \<Rightarrow> 'm \<Rightarrow> byte list \<Rightarrow> 'm \<Rightarrow> bool" where
  "rejects merge start bytes m \<longleftrightarrow> (\<forall>s. coded_ok file_inv FileInputStream s \<and> readable file_rest s = bytes \<and>
       CurrentPosition s + int (length bytes) < total_bytes_limit s \<and> current_limit s = CurrentPosition s + int (length bytes) \<and>
       recursion_budget s = default_recursion_limit \<longrightarrow>
     (\<exists>t tag b. merge start s = Some (Inr (False, m, t\<lparr>legitimate_message_end := b, last_tag := tag\<rparr>)) \<and>
        consumes file_inv file_rest FileInputStream (length bytes) s t))"

definition merges ::
    "'c context_ops \<Rightarrow> ('k \<Rightarrow> 'c \<Rightarrow> byte list \<Rightarrow> (int \<times> byte list) list \<Rightarrow> bool) \<Rightarrow>
     (('m, 'c) parser \<Rightarrow> ('m \<Rightarrow> bool) \<Rightarrow> 'm merger) \<Rightarrow> bool" where
  "merges P sees merge \<longleftrightarrow> (\<forall>k. parse_context P (sees k) (nat default_recursion_limit)) \<and>
     (\<forall>InternalParse IsInitialized start bs m levels.
        levels \<le> nat default_recursion_limit \<and>
        (\<forall>k. reads_message (sees k) (nat default_recursion_limit) levels InternalParse start bs m) \<longrightarrow>
        (if IsInitialized m then parses (merge InternalParse IsInitialized) start bs m
         else rejects (merge InternalParse IsInitialized) start bs m))"

text \<open>\<open>MergeFromCodedStream\<close> over the context of \<open>Coded_Context\<close> is one.\<close>

lemma coded_merges: "merges coded_context sees_budget coded_merge"
  unfolding merges_def
proof (intro conjI allI impI, rule sees_budget_context, elim conjE)
  fix parse :: "('m, file_input coded_input) parser" and init start bs m and levels :: nat
  assume l: "levels \<le> nat default_recursion_limit"
    and r: "\<forall>k. reads_message (sees_budget k) (nat default_recursion_limit) levels parse start bs m"
  show "if init m then parses (coded_merge parse init) start bs m else rejects (coded_merge parse init) start bs m"
  proof (cases "init m")
    case True
    with coded_merge_result [OF spec [OF r] l, of _ init] have "parses (coded_merge parse init) start bs m"
      unfolding parses_def by metis
    with True show ?thesis by simp
  next
    case False
    with coded_merge_result [OF spec [OF r] l, of _ init] have "rejects (coded_merge parse init) start bs m"
      unfolding rejects_def by metis
    with False show ?thesis by simp
  qed
qed

section \<open>Receiving\<close>

lemma recv_rejects:
  assumes i: "file_inv i" and rest: "file_rest i = frame bytes @ later" and small: "int (length bytes) + 5 < INT_MAX"
    and parse: "rejects (MergeFromCodedStream C) start bytes m"
  shows "\<exists>i'. recvMesgFrom C start i = Some (Inr (False, m, i')) \<and> file_inv i' \<and> file_rest i' = later"
proof -
  obtain s t where t: "CodedInputStream_ctor FileInputStream i = Some (Inr s)"
    "ReadVarint32 FileInputStream s = Some (Inr (Some (word_of_nat (length bytes)), t))"
    "coded_ok file_inv FileInputStream t" "pending file_rest t = bytes @ later"
    "take (length bytes) (readable file_rest t) = bytes"
    "CurrentPosition t + int (length bytes) < total_bytes_limit t" "CurrentPosition t + int (length bytes) < current_limit t"
    "recursion_budget t = default_recursion_limit" by (rule read_size [OF i rest small])
  have sz: "sint (word_of_nat (length bytes) :: 32 word) = int (length bytes)"
    using small by (simp add: INT_MAX_def signed_of_nat signed_take_bit_int_eq_self)
  obtain old u where push: "PushLimit (int (length bytes)) t = (old, u)" by (cases "PushLimit (int (length bytes)) t")
  note p = push_limit_spec [OF t(3) push]
  have "readable file_rest u = bytes" using p(10) [of file_rest] t(5) by simp
  moreover have "CurrentPosition u + int (length bytes) < total_bytes_limit u" using p(4,5) t(6) by simp
  moreover have "current_limit u = CurrentPosition u + int (length bytes)"
    using push_limit_at [OF t(3) push] p(4) t(7) by simp
  moreover have "recursion_budget u = default_recursion_limit" using p(8) t(8) by simp
  ultimately obtain w tag b where w: "MergeFromCodedStream C start u =
      Some (Inr (False, m, w\<lparr>legitimate_message_end := b, last_tag := tag\<rparr>))"
    "consumes file_inv file_rest FileInputStream (length bytes) u w"
    using parse p(2) unfolding rejects_def by blast
  have "coded_ok file_inv FileInputStream (w\<lparr>legitimate_message_end := b, last_tag := tag\<rparr>)"
    "pending file_rest (w\<lparr>legitimate_message_end := b, last_tag := tag\<rparr>) = later"
    using w(2) p(3) [of file_rest] t(4) by (simp_all add: consumes_def)
  with file_in.dtor_spec obtain i' where
    "CodedInputStream_dtor FileInputStream (w\<lparr>legitimate_message_end := b, last_tag := tag\<rparr>) = Inr i'"
    "file_inv i'" "file_rest i' = later" by metis
  then show ?thesis using w(1) by (simp add: recvMesgFrom_def t(1,2) sz push leave_recv_def)
qed

section \<open>Transfers\<close>

lemma NodeRequest_sent:
  assumes R: "patient_runtime R" and m: "int (length (NodeRequest_bytes m)) + 17 < INT_MAX" and a: "oa_ok patient_file co_sent 0 a"
    and junk: "length junk = 32" and arr: "to_array m = NodeRequest_bytes m"
  shows "\<exists>a'. sendMesgTo (NodeRequest_class R to_array merge) junk m a = Some (Inr (True, a')) \<and>
    oa_ok patient_file co_sent 0 a' \<and> co_sent (oa_stream a') = oa_out co_sent a @ frame (NodeRequest_bytes m)"
proof -
  have len: "length (NodeRequest_bytes m) < 2 ^ 31" using m by (simp add: INT_MAX_def)
  have ser: "serializes (oa_ok patient_file co_sent) (\<lambda>a. False)
      (SerializeWithCachedSizes (NodeRequest_class R to_array merge) m) (NodeRequest_bytes m)"
    using serializes_puts [OF patient_out.NodeRequest_puts [OF R len]] by (simp add: NodeRequest_class_def)
  have size: "ByteSize (NodeRequest_class R to_array merge) m = int (length (NodeRequest_bytes m))"
    by (simp add: NodeRequest_class_def MessageLite_ByteSize_def NodeRequest_size [OF R] ToIntSize_small [OF len])
  have array: "SerializeWithCachedSizesToArray (NodeRequest_class R to_array merge) m = NodeRequest_bytes m"
    using arr by (simp add: NodeRequest_class_def)
  show ?thesis by (rule send_patient_spec [OF a junk size array ser])
qed

lemma NodeResponse_sent:
  assumes R: "patient_runtime R" and m: "int (length (NodeResponse_bytes m)) + 17 < INT_MAX" and a: "oa_ok patient_file co_sent 0 a"
    and junk: "length junk = 32" and arr: "to_array m = NodeResponse_bytes m"
  shows "\<exists>a'. sendMesgTo (NodeResponse_class R to_array merge) junk m a = Some (Inr (True, a')) \<and>
    oa_ok patient_file co_sent 0 a' \<and> co_sent (oa_stream a') = oa_out co_sent a @ frame (NodeResponse_bytes m)"
proof -
  have len: "length (NodeResponse_bytes m) < 2 ^ 31" using m by (simp add: INT_MAX_def)
  have ser: "serializes (oa_ok patient_file co_sent) (\<lambda>a. False)
      (SerializeWithCachedSizes (NodeResponse_class R to_array merge) m) (NodeResponse_bytes m)"
    using serializes_puts [OF patient_out.NodeResponse_puts [OF R len]] by (simp add: NodeResponse_class_def)
  have size: "ByteSize (NodeResponse_class R to_array merge) m = int (length (NodeResponse_bytes m))"
    by (simp add: NodeResponse_class_def MessageLite_ByteSize_def NodeResponse_size [OF R] ToIntSize_small [OF len])
  have array: "SerializeWithCachedSizesToArray (NodeResponse_class R to_array merge) m = NodeResponse_bytes m"
    using arr by (simp add: NodeResponse_class_def)
  show ?thesis by (rule send_patient_spec [OF a junk size array ser])
qed

text \<open>What arrives: the message, accepted if it is complete.\<close>

lemma merges_received:
  assumes "merges P sees merge" and "levels \<le> 2"
    and "\<And>k. parse_context P (sees k) (nat default_recursion_limit) \<Longrightarrow>
      reads_message (sees k) (nat default_recursion_limit) levels InternalParse start bs m"
    and "MergeFromCodedStream C = merge InternalParse IsInitialized"
    and "file_inv i" and "file_rest i = frame bs @ later" and "int (length bs) + 17 < INT_MAX"
  shows "\<exists>i'. recvMesgFrom C start i = Some (Inr (IsInitialized m, m, i')) \<and> file_inv i' \<and> file_rest i' = later"
proof -
  have "levels \<le> nat default_recursion_limit" using assms(2) by (simp add: default_recursion_limit_def)
  with assms(1,3) have "if IsInitialized m then parses (MergeFromCodedStream C) start bs m else rejects (MergeFromCodedStream C) start bs m"
    unfolding merges_def assms(4) by blast
  moreover have "int (length bs) + 5 < INT_MAX" using assms(7) by simp
  ultimately show ?thesis
    using recv_spec [OF assms(5,6)] recv_rejects [OF assms(5,6)] by (cases "IsInitialized m") simp_all
qed

section \<open>Properties\<close>

definition demo_request :: NodeRequest where
  "demo_request = generate_lookup_request 300 ''h'' ''80''"

lemma demo_request_bytes: "NodeRequest_bytes demo_request = [8, 3, 26, 10, 8, 172, 2, 18, 1, 104, 26, 2, 56, 48]"
  by code_simp

lemma demo_request_ok: "NodeRequest_wire_ok demo_request" "NodeRequest_IsInitialized demo_request"
  by (simp_all add: demo_request_def generator_defs accessor_defs message_defs NodeRequest_wire_ok_def LookupFileRequest_wire_ok_def)

lemma frame_small: "length bs < 128 \<Longrightarrow> frame bs = word_of_nat (length bs) # bs"
  by (simp add: frame_def short_size)

definition demo_response :: NodeResponse where
  "demo_response = generate_routetable_init
     \<lparr>rti_entry = [\<lparr>rte_hostname = Some ''h'', rte_port = Some ''8'', rte_hostnamehash = Some 5, rte_unknown = []\<rparr>], rti_unknown = []\<rparr>"

lemma demo_response_bytes: "NodeResponse_bytes demo_response = [8, 4, 34, 10, 10, 8, 10, 1, 104, 18, 1, 56, 24, 5]"
  by code_simp

lemma demo_response_ok: "NodeResponse_wire_ok demo_response" "NodeResponse_IsInitialized demo_response"
  by (simp_all add: demo_response_def generator_defs accessor_defs message_defs NodeResponse_wire_ok_def RouteTableInit_wire_ok_def
      RouteTableEntry_wire_ok_def)

text \<open>
  C8: A request crosses the connection: over a descriptor that never fails for good, whatever part of the data each call
  takes and however they arrive on the other side, \<open>sendMesgTo\<close> returns true, and \<open>recvMesgFrom\<close> into an empty
  \<open>NodeRequest\<close> makes exactly the message that was sent, with every nested message, and leaves the connection at the
  next one. It returns true if the message has all its required fields; one that lacks some is sent without complaint and
  refused by the receiver.
\<close>

theorem request_transferred:
  assumes "patient_runtime R" and "merges P sees merge" and "to_array m = NodeRequest_bytes m"
    and "oa_ok patient_file co_sent 0 a" and "length junk = 32"
    and "NodeRequest_wire_ok m" and "int (length (NodeRequest_bytes m)) + 17 < INT_MAX"
  defines "C \<equiv> NodeRequest_class R to_array (merge (NodeRequest_InternalParse P) NodeRequest_IsInitialized)"
  shows "\<exists>a'. sendMesgTo C junk m a = Some (Inr (True, a')) \<and> co_sent (oa_stream a') = oa_out co_sent a @ frame (NodeRequest_bytes m) \<and>
    (\<forall>i later. file_inv i \<and> file_rest i = frame (NodeRequest_bytes m) @ later \<longrightarrow>
       (\<exists>i'. recvMesgFrom C NodeRequest_default i = Some (Inr (NodeRequest_IsInitialized m, m, i')) \<and> file_rest i' = later))"
proof -
  have "int (length (NodeRequest_bytes m)) < INT_MAX - 16" using assms(7) by simp
  then have "reads_message (sees k) (nat default_recursion_limit) 2 (NodeRequest_InternalParse P) NodeRequest_default (NodeRequest_bytes m) m"
    if "parse_context P (sees k) (nat default_recursion_limit)" for k
    using parse_context.NodeRequest_reads_up [OF that assms(6)] by blast
  note reads = this
  have merge: "MergeFromCodedStream C = merge (NodeRequest_InternalParse P) NodeRequest_IsInitialized"
    by (simp add: C_def NodeRequest_class_def)
  have "\<exists>i'. recvMesgFrom C NodeRequest_default i = Some (Inr (NodeRequest_IsInitialized m, m, i')) \<and> file_rest i' = later"
    if "file_inv i" "file_rest i = frame (NodeRequest_bytes m) @ later" for i later
    using merges_received [OF assms(2) order_refl reads merge that assms(7)] by blast
  then show ?thesis
    using NodeRequest_sent [where to_array = to_array, OF assms(1,7,4,5,3)] unfolding C_def by blast
qed

lemma request_transferred_witness:
  "let C = NodeRequest_class (plain_runtime FileOutputStream) NodeRequest_bytes (coded_merge (NodeRequest_InternalParse coded_context) NodeRequest_IsInitialized)
   in \<exists>a' i'. sendMesgTo C (replicate 32 0) demo_request (FileOutputStream_ctor [Takes 1, Write_fails EINTR] 0) = Some (Inr (True, a')) \<and>
     co_sent (oa_stream a') = [14, 8, 3, 26, 10, 8, 172, 2, 18, 1, 104, 26, 2, 56, 48] \<and>
     recvMesgFrom C NodeRequest_default (FileInputStream_ctor [Fails EINTR, Arrives ([14, 8, 3, 26, 10, 8, 172, 2, 18, 1, 104, 26, 2, 56, 48] @ [9])] False (\<lambda>evs n. evs) 0) =
       Some (Inr (True, demo_request, i')) \<and> file_rest i' = [9]"
proof -
  let ?C = "NodeRequest_class (plain_runtime FileOutputStream) NodeRequest_bytes (coded_merge (NodeRequest_InternalParse coded_context) NodeRequest_IsInitialized)"
  have f: "frame (NodeRequest_bytes demo_request) = [14, 8, 3, 26, 10, 8, 172, 2, 18, 1, 104, 26, 2, 56, 48]"
    by (simp add: demo_request_bytes frame_small)
  have "oa_ok patient_file co_sent 0 (FileOutputStream_ctor [Takes 1, Write_fails EINTR] 0)" by (simp add: demo_output)
  from request_transferred [where junk = "replicate 32 0" and to_array = NodeRequest_bytes and m = demo_request and merge = coded_merge,
      OF patient_out.plain_runtime_ok coded_merges refl this _ demo_request_ok(1)]
  obtain a' where a': "sendMesgTo ?C (replicate 32 0) demo_request (FileOutputStream_ctor [Takes 1, Write_fails EINTR] 0) = Some (Inr (True, a'))"
    "co_sent (oa_stream a') = [14, 8, 3, 26, 10, 8, 172, 2, 18, 1, 104, 26, 2, 56, 48]"
    "\<And>i later. file_inv i \<Longrightarrow> file_rest i = [14, 8, 3, 26, 10, 8, 172, 2, 18, 1, 104, 26, 2, 56, 48] @ later \<Longrightarrow>
       \<exists>i'. recvMesgFrom ?C NodeRequest_default i = Some (Inr (True, demo_request, i')) \<and> file_rest i' = later"
    using f demo_request_ok(2) by (auto simp: demo_request_bytes INT_MAX_def demo_output)
  have "[14, 8, 3, 26, 10, 8, 172, 2, 18, 1, 104, 26, 2, 56, 48] @ [9] \<noteq> []" by simp
  from a'(3) [OF demo_input [OF this]] a'(1,2) show ?thesis by auto
qed

text \<open>
  C9: A response crosses the connection the same way, with the finger table or the file table of a joining node in it.
\<close>

theorem response_transferred:
  assumes "patient_runtime R" and "merges P sees merge" and "to_array m = NodeResponse_bytes m"
    and "oa_ok patient_file co_sent 0 a" and "length junk = 32"
    and "NodeResponse_wire_ok m" and "int (length (NodeResponse_bytes m)) + 17 < INT_MAX"
  defines "C \<equiv> NodeResponse_class R to_array (merge (NodeResponse_InternalParse P) NodeResponse_IsInitialized)"
  shows "\<exists>a'. sendMesgTo C junk m a = Some (Inr (True, a')) \<and> co_sent (oa_stream a') = oa_out co_sent a @ frame (NodeResponse_bytes m) \<and>
    (\<forall>i later. file_inv i \<and> file_rest i = frame (NodeResponse_bytes m) @ later \<longrightarrow>
       (\<exists>i'. recvMesgFrom C NodeResponse_default i = Some (Inr (NodeResponse_IsInitialized m, m, i')) \<and> file_rest i' = later))"
proof -
  have "int (length (NodeResponse_bytes m)) < INT_MAX - 16" using assms(7) by simp
  then have "reads_message (sees k) (nat default_recursion_limit) 2 (NodeResponse_InternalParse P) NodeResponse_default (NodeResponse_bytes m) m"
    if "parse_context P (sees k) (nat default_recursion_limit)" for k
    using parse_context.NodeResponse_reads_up [OF that assms(6)] by blast
  note reads = this
  have merge: "MergeFromCodedStream C = merge (NodeResponse_InternalParse P) NodeResponse_IsInitialized"
    by (simp add: C_def NodeResponse_class_def)
  have "\<exists>i'. recvMesgFrom C NodeResponse_default i = Some (Inr (NodeResponse_IsInitialized m, m, i')) \<and> file_rest i' = later"
    if "file_inv i" "file_rest i = frame (NodeResponse_bytes m) @ later" for i later
    using merges_received [OF assms(2) order_refl reads merge that assms(7)] by blast
  then show ?thesis
    using NodeResponse_sent [where to_array = to_array, OF assms(1,7,4,5,3)] unfolding C_def by blast
qed

lemma response_transferred_witness:
  "let C = NodeResponse_class (plain_runtime FileOutputStream) NodeResponse_bytes (coded_merge (NodeResponse_InternalParse coded_context) NodeResponse_IsInitialized)
   in \<exists>a' i'. sendMesgTo C (replicate 32 0) demo_response (FileOutputStream_ctor [Takes 1, Write_fails EINTR] 0) = Some (Inr (True, a')) \<and>
     co_sent (oa_stream a') = [14, 8, 4, 34, 10, 10, 8, 10, 1, 104, 18, 1, 56, 24, 5] \<and>
     recvMesgFrom C NodeResponse_default (FileInputStream_ctor [Fails EINTR, Arrives ([14, 8, 4, 34, 10, 10, 8, 10, 1, 104, 18, 1, 56, 24, 5] @ [9])] False (\<lambda>evs n. evs) 0) =
       Some (Inr (True, demo_response, i')) \<and> file_rest i' = [9]"
proof -
  let ?C = "NodeResponse_class (plain_runtime FileOutputStream) NodeResponse_bytes (coded_merge (NodeResponse_InternalParse coded_context) NodeResponse_IsInitialized)"
  have f: "frame (NodeResponse_bytes demo_response) = [14, 8, 4, 34, 10, 10, 8, 10, 1, 104, 18, 1, 56, 24, 5]"
    by (simp add: demo_response_bytes frame_small)
  have "oa_ok patient_file co_sent 0 (FileOutputStream_ctor [Takes 1, Write_fails EINTR] 0)" by (simp add: demo_output)
  from response_transferred [where junk = "replicate 32 0" and to_array = NodeResponse_bytes and m = demo_response and merge = coded_merge,
      OF patient_out.plain_runtime_ok coded_merges refl this _ demo_response_ok(1)]
  obtain a' where a': "sendMesgTo ?C (replicate 32 0) demo_response (FileOutputStream_ctor [Takes 1, Write_fails EINTR] 0) = Some (Inr (True, a'))"
    "co_sent (oa_stream a') = [14, 8, 4, 34, 10, 10, 8, 10, 1, 104, 18, 1, 56, 24, 5]"
    "\<And>i later. file_inv i \<Longrightarrow> file_rest i = [14, 8, 4, 34, 10, 10, 8, 10, 1, 104, 18, 1, 56, 24, 5] @ later \<Longrightarrow>
       \<exists>i'. recvMesgFrom ?C NodeResponse_default i = Some (Inr (True, demo_response, i')) \<and> file_rest i' = later"
    using f demo_response_ok(2) by (auto simp: demo_response_bytes INT_MAX_def demo_output)
  have "[14, 8, 4, 34, 10, 10, 8, 10, 1, 104, 18, 1, 56, 24, 5] @ [9] \<noteq> []" by simp
  from a'(3) [OF demo_input [OF this]] a'(1,2) show ?thesis by auto
qed

text \<open>
  C33: The size announced is the size sent: for every class, \<open>ByteSizeLong\<close>, on the path for complete messages as on the
  one for messages that lack required fields, is the number of bytes of the wire format of the message, with its nested
  messages and unknown fields. So the cached sizes in front of nested messages and the size in front of the whole are right.
\<close>

theorem byte_sizes:
  assumes "runtime_ok okS failedS out addr R"
  shows "NodeRequest_ByteSizeLong R request = length (NodeRequest_bytes request) \<and>
    NodeResponse_ByteSizeLong R response = length (NodeResponse_bytes response) \<and>
    RouteTableInit_ByteSizeLong R table = length (RouteTableInit_bytes table) \<and>
    FileTable_ByteSizeLong R files_table = length (FileTable_bytes files_table) \<and>
    LookupFileResponse_ByteSizeLong R answer = length (LookupFileResponse_bytes answer)"
  by (simp add: NodeRequest_size [OF assms] NodeResponse_size [OF assms] RouteTableInit_size [OF assms] FileTable_size [OF assms]
      LookupFileResponse_size [OF assms])

lemma byte_sizes_witness:
  "NodeRequest_ByteSizeLong (plain_runtime FileOutputStream) demo_request = 14 \<and>
   NodeResponse_ByteSizeLong (plain_runtime FileOutputStream) demo_response = 14 \<and>
   LookupFileResponse_ByteSizeLong (plain_runtime FileOutputStream) (LookupFileResponse_set_ifexists True LookupFileResponse_default) = 2"
proof -
  have "length (LookupFileResponse_bytes (LookupFileResponse_set_ifexists True LookupFileResponse_default)) = 2" by code_simp
  with byte_sizes [OF patient_out.plain_runtime_ok, of demo_request demo_response]
    byte_sizes [OF patient_out.plain_runtime_ok, where answer = "LookupFileResponse_set_ifexists True LookupFileResponse_default"]
  show ?thesis by (simp add: demo_request_bytes demo_response_bytes)
qed

end
