(* ===== verification/Parse_Varint.thy ===== *)
theory Parse_Varint
  imports Wire_Format
begin

text \<open>
  The varint readers of the generated parsers, the inline functions of \<open>google/protobuf/parse_context.h\<close>. They read
  from memory without asking how much is there: the caller guarantees enough bytes, and a read past the bytes given here
  is the failure \<open>Out_of_bounds\<close>. A pointer is the list of the bytes from it on, \<open>None\<close> is \<open>nullptr\<close>. The machine is
  little endian. Their slow paths are defined in \<open>parse_context.cc\<close>, which is not in the repository; they are
  parameters here, with the contract \<open>varint_reader\<close> where a result depends on them. \<open>ParseBigVarint\<close>, which is in the
  header, meets that contract.
\<close>

definition byte_at :: "byte list \<Rightarrow> nat \<Rightarrow> byte res" where
  "byte_at p i = (if i < length p then Inr (p ! i) else Inl Out_of_bounds)"

section \<open>Two bytes at a time\<close>

text \<open>\<open>EndianHelper<2>::Load\<close>, which is \<open>UnalignedLoad<uint16_t>\<close>.\<close>

definition UnalignedLoad16 :: "byte list \<Rightarrow> 16 word res" where
  "UnalignedLoad16 p = (case p of b0 # b1 # _ \<Rightarrow> Inr (ucast b0 OR push_bit 8 (ucast b1)) | _ \<Rightarrow> Inl Out_of_bounds)"

definition DecodeTwoBytes :: "byte list \<Rightarrow> (32 word \<times> byte list) res" where
  "DecodeTwoBytes ptr =
     bind_res (UnalignedLoad16 ptr) (\<lambda>loaded.
       let v = ucast loaded :: 32 word;
           x = scast (ucast v :: 8 word) :: 32 word;
           v = v + x;
           ptr = drop (if v < x then 2 else 1) ptr
       in Inr (v AND (x + x), ptr))"

section \<open>The decoded values\<close>

lemma byte_bit: "bit (b :: byte) n \<Longrightarrow> n < 8"
  using bit_imp_le_length [of b n] by simp

lemma byte_bit_7: "bit (b :: byte) n \<Longrightarrow> 7 \<le> n \<Longrightarrow> bit b 7"
  using byte_bit [of b n] by (cases "n = 7") simp_all

lemma loaded_or: "ucast (ucast b0 OR push_bit 8 (ucast b1) :: 16 word) = (ucast (b0 :: byte) OR push_bit 8 (ucast (b1 :: byte)) :: 32 word)"
  by (rule bit_eqI) (auto simp: bit_simps dest: byte_bit)

lemma low_byte: "ucast (ucast b0 OR push_bit 8 (ucast b1) :: 32 word) = (b0 :: byte)" for b1 :: byte
  by (rule bit_eqI) (auto simp: bit_simps dest: byte_bit)

lemma or_add: "(ucast (b0 :: byte) OR push_bit 8 (ucast (b1 :: byte)) :: 32 word) = ucast b0 + push_bit 8 (ucast b1)"
  by (rule disjunctive_add [symmetric]) (auto simp: bit_simps dest: byte_bit)

lemma or_nat: "(ucast (b0 :: byte) + push_bit 8 (ucast (b1 :: byte)) :: 32 word) = word_of_nat (unat b0 + 256 * unat b1)"
  by (simp add: push_bit_eq_mult)

lemma bit7: "bit (b :: byte) 7 \<longleftrightarrow> 128 \<le> unat b"
proof -
  have "unat b < 256" using unsigned_less [of b] by simp
  then have "unat b div 128 = (if 128 \<le> unat b then 1 else 0)" by (simp add: div_nat_eqI)
  then have "odd (unat b div 128) \<longleftrightarrow> 128 \<le> unat b" by simp
  moreover have "bit b 7 \<longleftrightarrow> bit (unat b) 7" by (simp add: bit_unsigned_iff)
  ultimately show ?thesis by (simp add: bit_iff_odd)
qed

lemma minus_256: "- (256 :: 32 word) = NOT (mask 8)"
  using minus_exp_eq_not_mask [of 8, where 'a = "32 word"] by simp

lemma scast_small: "unat (b :: byte) < 128 \<Longrightarrow> (scast b :: 32 word) = word_of_nat (unat b)"
proof -
  assume "unat b < 128"
  then have "\<not> bit b 7" by (simp add: bit7)
  then have "(scast b :: 32 word) = ucast b"
    by (intro bit_eqI) (auto simp: bit_simps min_def dest: byte_bit_7)
  then show ?thesis by simp
qed

lemma scast_large: "128 \<le> unat (b :: byte) \<Longrightarrow> (scast b :: 32 word) = word_of_nat (unat b) - 256"
proof -
  assume "128 \<le> unat b"
  then have "bit b 7" by (simp add: bit7)
  then have "(scast b :: 32 word) = ucast b OR NOT (mask 8)"
    by (intro bit_eqI) (auto simp: bit_simps min_def not_less dest: byte_bit le_antisym [of 7])
  also have "\<dots> = ucast b + NOT (mask 8)"
    by (rule disjunctive_add [symmetric]) (auto simp: bit_simps dest: byte_bit)
  finally show ?thesis by (simp add: minus_256 [symmetric])
qed

lemma mask_parts:
  fixes a h :: "32 word"
  assumes "take_bit 8 a = a" "take_bit 8 h = 0"
  shows "(a + h) AND a = a" "(a + h) AND (a - 256) = a + h"
proof -
  have a: "bit a n \<Longrightarrow> n < 8" for n
    using bit_take_bit_iff [of 8 a n] assms(1) by simp
  have h: "bit h n \<Longrightarrow> 8 \<le> n" for n
    using bit_take_bit_iff [of 8 h n] assms(2) by auto
  have s: "a + h = a OR h" by (rule disjunctive_add) (use a h in \<open>metis not_le\<close>)
  have m: "a - 256 = a OR NOT (mask 8)"
  proof -
    have "a + NOT (mask 8) = a OR NOT (mask 8)" by (rule disjunctive_add) (use a in \<open>auto simp: bit_simps\<close>)
    then show ?thesis by (simp add: minus_256 [symmetric])
  qed
  show "(a + h) AND a = a" unfolding s by (rule bit_eqI) (auto simp: bit_simps)
  show "(a + h) AND (a - 256) = a + h" unfolding s m by (rule bit_eqI) (auto simp: bit_simps dest: a h)
qed

lemma low_byte': "ucast (word_of_nat (unat b0 + 256 * unat b1) :: 32 word) = (b0 :: byte)" for b1 :: byte
  using low_byte [of b0 b1] by (simp only: or_add or_nat)

lemma DecodeTwoBytes_cons: "DecodeTwoBytes (b0 # b1 # bs) =
    (let x = scast b0 :: 32 word; v = word_of_nat (unat b0 + 256 * unat b1) + x in
       Inr (v AND (x + x), drop (if v < x then 2 else 1) (b0 # b1 # bs)))"
  by (simp only: DecodeTwoBytes_def UnalignedLoad16_def list.case bind_res.simps loaded_or or_add or_nat low_byte' Let_def)

lemma unat_32: "n < 2 ^ 32 \<Longrightarrow> unat (word_of_nat n :: 32 word) = n"
  by (simp add: unat_of_nat)

lemma low_8: "n < 256 \<Longrightarrow> take_bit 8 (word_of_nat n :: 32 word) = word_of_nat n"
  using take_bit_of_nat [of 8 n, where 'a = "32 word"] take_bit_nat_eq_self [of n 8] by simp

lemma high_8: "take_bit 8 (word_of_nat (256 * k) :: 32 word) = 0"
proof -
  have z: "take_bit 8 (256 * k) = (0 :: nat)" by (simp add: take_bit_eq_mod)
  have "take_bit 8 (word_of_nat (256 * k) :: 32 word) = word_of_nat (take_bit 8 (256 * k))" by (rule take_bit_of_nat)
  also have "\<dots> = 0" unfolding z by simp
  finally show ?thesis .
qed

lemma add_masked:
  fixes n k :: nat
  assumes "k < 256"
  shows "n < 128 \<Longrightarrow>
      (let x = word_of_nat n :: 32 word; v = word_of_nat (n + 256 * k) + x in (v AND (x + x), v < x)) = (word_of_nat (2 * n), False)"
    and "128 \<le> n \<Longrightarrow> n < 256 \<Longrightarrow>
      (let x = word_of_nat n - 256 :: 32 word; v = word_of_nat (n + 256 * k) + x in (v AND (x + x), v < x)) =
        (word_of_nat (2 * (n - 128) + 256 * k), True)"
proof -
  assume n: "n < 128"
  have s: "word_of_nat (n + 256 * k) + word_of_nat n = (word_of_nat (2 * n) + word_of_nat (256 * k) :: 32 word)"
    "word_of_nat n + word_of_nat n = (word_of_nat (2 * n) :: 32 word)" by simp_all
  have "\<not> (word_of_nat (2 * n + 256 * k) :: 32 word) < word_of_nat n"
    using n assms unat_32 [of n] unat_32 [of "2 * n + 256 * k"] unfolding word_less_nat_alt by simp
  moreover have "(word_of_nat (2 * n) + word_of_nat (256 * k)) AND word_of_nat (2 * n) = (word_of_nat (2 * n) :: 32 word)"
    by (rule mask_parts(1) [OF low_8 high_8]) (use n assms in simp_all)
  ultimately show "(let x = word_of_nat n :: 32 word; v = word_of_nat (n + 256 * k) + x in (v AND (x + x), v < x)) = (word_of_nat (2 * n), False)"
    by (simp only: Let_def s) (simp only: of_nat_add)
next
  assume n: "128 \<le> n" "n < 256"
  define a where "a = 2 * (n - 128)"
  with n have a: "n + n = a + 256" "a < 256" by simp_all
  have a2: "word_of_nat n + word_of_nat n = (word_of_nat a + 256 :: 32 word)"
    using arg_cong [OF a(1), of "word_of_nat :: nat \<Rightarrow> 32 word"] by simp
  have s: "word_of_nat (n + 256 * k) + (word_of_nat n - 256) = (word_of_nat a + word_of_nat (256 * k) :: 32 word)"
    "(word_of_nat n - 256) + (word_of_nat n - 256) = (word_of_nat a - 256 :: 32 word)"
    using a2 by (simp_all add: algebra_simps)
  have "word_of_nat (2 ^ 32 + n - 256) = (word_of_nat (2 ^ 32 + n) - word_of_nat 256 :: 32 word)"
    by (rule of_nat_diff) simp
  then have x0: "word_of_nat n - 256 = (word_of_nat (2 ^ 32 + n - 256) :: 32 word)" by simp
  have x: "unat (word_of_nat n - 256 :: 32 word) = 2 ^ 32 + n - 256"
    unfolding x0 by (rule unat_32) (use n in simp)
  have "unat (word_of_nat (a + 256 * k) :: 32 word) = a + 256 * k"
    by (rule unat_32) (use a assms in simp)
  then have "(word_of_nat (a + 256 * k) :: 32 word) < word_of_nat n - 256"
    unfolding word_less_nat_alt x using a(2) assms n by simp
  moreover have "(word_of_nat a + word_of_nat (256 * k)) AND (word_of_nat a - 256) = (word_of_nat a + word_of_nat (256 * k) :: 32 word)"
    by (rule mask_parts(2) [OF low_8 high_8]) (use a assms in simp_all)
  ultimately show "(let x = word_of_nat n - 256 :: 32 word; v = word_of_nat (n + 256 * k) + x in (v AND (x + x), v < x)) =
        (word_of_nat (2 * (n - 128) + 256 * k), True)"
    by (simp only: Let_def s a_def [symmetric]) (simp only: of_nat_add)
qed

lemma DecodeTwoBytes_value:
  "DecodeTwoBytes (b0 # b1 # bs) =
     Inr (if unat b0 < 128 then (word_of_nat (2 * unat b0), b1 # bs) else (word_of_nat (2 * (unat b0 - 128) + 256 * unat b1), bs))"
proof -
  have b: "unat b0 < 256" "unat b1 < 256" using unsigned_less [of b0] unsigned_less [of b1] by simp_all
  show ?thesis
  proof (cases "unat b0 < 128")
    case True
    from add_masked(1) [OF b(2) True] show ?thesis
      unfolding DecodeTwoBytes_cons scast_small [OF True] Let_def
      by (simp only: prod.inject if_False if_True True drop_Suc_Cons drop_0 One_nat_def)
  next
    case False
    then have l: "128 \<le> unat b0" by simp
    from add_masked(2) [OF b(2) l b(1)] show ?thesis
      unfolding DecodeTwoBytes_cons scast_large [OF l] Let_def
      by (simp only: prod.inject if_False if_True False drop_Suc_Cons drop_0 numeral_2_eq_2)
  qed
qed


section \<open>Big varints\<close>

text \<open>The loop of \<open>ParseBigVarint\<close>, for \<open>i\<close> from 1 to 4; \<open>rounds\<close> is how often it still runs.\<close>

fun big_varint_loop :: "nat \<Rightarrow> nat \<Rightarrow> 64 word \<Rightarrow> byte list \<Rightarrow> (64 word \<times> byte list) option res" where
  "big_varint_loop 0 i res p = Inr None"
| "big_varint_loop (Suc rounds) i res p =
     bind_res (DecodeTwoBytes (drop (2 * i) p)) (\<lambda>(tmp, pnew).
       let res = res + push_bit (14 * i - 1) (ucast tmp - 2)
       in if 0 \<le> sint (ucast tmp :: 16 word) then Inr (Some (res, pnew)) else big_varint_loop rounds (i + 1) res p)"

definition ParseBigVarint :: "byte list \<Rightarrow> (64 word \<times> byte list) option res" where
  "ParseBigVarint p =
     bind_res (DecodeTwoBytes p) (\<lambda>(tmp, pnew).
       let res = ucast (drop_bit 1 tmp)
       in if 0 \<le> sint (ucast tmp :: 16 word) then Inr (Some (res, pnew)) else big_varint_loop 4 1 res p)"

lemma nonneg_16: "n < 2 ^ 16 \<Longrightarrow> 0 \<le> sint (ucast (word_of_nat n :: 32 word) :: 16 word) \<longleftrightarrow> n < 2 ^ 15"
proof -
  assume n: "n < 2 ^ 16"
  have "n div 2 ^ 15 = (if n < 2 ^ 15 then 0 else 1)" using n by (auto intro: div_nat_eqI)
  then have "bit n 15 \<longleftrightarrow> \<not> n < 2 ^ 15" by (simp add: bit_iff_odd)
  moreover have "bit (ucast (word_of_nat n :: 32 word) :: 16 word) 15 \<longleftrightarrow> bit n 15" by (simp add: bit_simps)
  ultimately show ?thesis using bit_last_iff [of "ucast (word_of_nat n :: 32 word) :: 16 word"] by auto
qed

definition two_groups :: "nat \<Rightarrow> nat \<Rightarrow> nat \<times> nat" where
  "two_groups n0 n1 = (if n0 < 128 then (n0, 1) else (n0 - 128 + 128 * n1, 2))"

lemma DecodeTwoBytes_groups:
  assumes "two_groups (unat b0) (unat b1) = (t, k)"
  shows "DecodeTwoBytes (b0 # b1 # bs) = Inr (word_of_nat (2 * t), drop k (b0 # b1 # bs))" and "t < 2 ^ 15"
    and "0 \<le> sint (ucast (word_of_nat (2 * t) :: 32 word) :: 16 word) \<longleftrightarrow> t < 2 ^ 14"
proof -
  have b: "unat b0 < 256" "unat b1 < 256" using unsigned_less [of b0] unsigned_less [of b1] by simp_all
  have t: "2 * t = (if unat b0 < 128 then 2 * unat b0 else 2 * (unat b0 - 128) + 256 * unat b1)" "k = (if unat b0 < 128 then 1 else 2)"
    using assms by (auto simp: two_groups_def split: if_splits)
  show "DecodeTwoBytes (b0 # b1 # bs) = Inr (word_of_nat (2 * t), drop k (b0 # b1 # bs))"
    unfolding DecodeTwoBytes_value t
    by (cases "unat b0 < 128") (simp_all only: if_True if_False drop_Suc_Cons drop_0 One_nat_def numeral_2_eq_2)
  show lt: "t < 2 ^ 15" using t b by (cases "unat b0 < 128") simp_all
  show "0 \<le> sint (ucast (word_of_nat (2 * t) :: 32 word) :: 16 word) \<longleftrightarrow> t < 2 ^ 14"
    using nonneg_16 [of "2 * t"] lt by simp
qed


lemma varint_of_groups:
  assumes "two_groups (unat b0) (unat b1) = (t, k)"
  shows "t < 2 ^ 14 \<Longrightarrow> varint_of (Suc (Suc m)) (b0 # b1 # bs) = Varint t (drop k (b0 # b1 # bs))"
    and "\<not> t < 2 ^ 14 \<Longrightarrow> varint_of (Suc (Suc m)) (b0 # b1 # bs) =
      (case varint_of m bs of Varint v r \<Rightarrow> Varint (t - 2 ^ 14 + 2 ^ 14 * v) r | e \<Rightarrow> e)"
proof -
  have b: "unat b0 < 256" "unat b1 < 256" using unsigned_less [of b0] unsigned_less [of b1] by simp_all
  show "t < 2 ^ 14 \<Longrightarrow> varint_of (Suc (Suc m)) (b0 # b1 # bs) = Varint t (drop k (b0 # b1 # bs))"
    using assms b by (auto simp: two_groups_def split: if_splits)
  show "\<not> t < 2 ^ 14 \<Longrightarrow> varint_of (Suc (Suc m)) (b0 # b1 # bs) =
      (case varint_of m bs of Varint v r \<Rightarrow> Varint (t - 2 ^ 14 + 2 ^ 14 * v) r | e \<Rightarrow> e)"
    using assms b by (cases "varint_of m bs") (auto simp: two_groups_def algebra_simps split: if_splits)
qed

lemma ucast_double: "t < 2 ^ 15 \<Longrightarrow> (ucast (word_of_nat (2 * t) :: 32 word) :: 64 word) = 2 * word_of_nat t"
proof -
  assume "t < 2 ^ 15"
  then have "unat (word_of_nat (2 * t) :: 32 word) = 2 * t" by (intro unat_32) simp
  moreover have "(ucast (word_of_nat (2 * t) :: 32 word) :: 64 word) = word_of_nat (unat (word_of_nat (2 * t) :: 32 word))" by simp
  ultimately have "(ucast (word_of_nat (2 * t) :: 32 word) :: 64 word) = word_of_nat (2 * t)" by metis
  then show ?thesis by simp
qed

lemma half_double: "t < 2 ^ 15 \<Longrightarrow> ucast (drop_bit 1 (word_of_nat (2 * t) :: 32 word)) = (word_of_nat t :: 64 word)"
proof -
  assume "t < 2 ^ 15"
  then have "unat (word_of_nat (2 * t) :: 32 word) = 2 * t" by (intro unat_32) simp
  then have "unat (drop_bit 1 (word_of_nat (2 * t) :: 32 word)) = t"
    using unat_drop_bit_eq [of 1 "word_of_nat (2 * t) :: 32 word"] by (simp only: drop_bit_eq_div) simp
  moreover have "(ucast (drop_bit 1 (word_of_nat (2 * t) :: 32 word)) :: 64 word) = word_of_nat (unat (drop_bit 1 (word_of_nat (2 * t) :: 32 word)))"
    by simp
  ultimately show ?thesis by (simp only:)
qed

lemma add_group:
  assumes "t < 2 ^ 15" "0 < i"
  shows "word_of_nat (acc + 2 ^ (14 * i)) + push_bit (14 * i - 1) (ucast (word_of_nat (2 * t) :: 32 word) - 2) =
    (word_of_nat (acc + 2 ^ (14 * i) * t) :: 64 word)"
proof -
  obtain n where n: "14 * i = Suc n" using assms(2) by (cases "14 * i") auto
  have "push_bit n (2 * word_of_nat t - 2) = (2 ^ Suc n * word_of_nat t - 2 ^ Suc n :: 64 word)"
    by (simp add: push_bit_eq_mult algebra_simps)
  then show ?thesis unfolding ucast_double [OF assms(1)] n diff_Suc_1 by simp
qed

lemma big_varint_loop_value:
  "0 < i \<Longrightarrow> 2 * i + 2 * rounds \<le> length p \<Longrightarrow>
    big_varint_loop rounds i (word_of_nat (acc + 2 ^ (14 * i))) p =
      Inr (case varint_of (2 * rounds) (drop (2 * i) p) of
             Varint v r \<Rightarrow> Some (word_of_nat (acc + 2 ^ (14 * i) * v), r)
           | _ \<Rightarrow> None)"
proof (induction rounds arbitrary: i acc)
  case (Suc rounds)
  from Suc.prems(2) have "2 \<le> length (drop (2 * i) p)" by simp
  then obtain b0 b1 bs where d: "drop (2 * i) p = b0 # b1 # bs"
    by (cases "drop (2 * i) p"; cases "tl (drop (2 * i) p)") auto
  have bs: "drop (2 * (i + 1)) p = bs" using d by (metis drop_drop drop0 drop_Suc_Cons mult_2 add.assoc add_Suc_right numeral_2_eq_2 mult_Suc_right add.commute Suc_eq_plus1 list.sel(3) drop_Suc tl_drop)
  obtain t k where g: "two_groups (unat b0) (unat b1) = (t, k)" by fastforce
  note two = DecodeTwoBytes_groups [OF g]
  show ?case
  proof (cases "t < 2 ^ 14")
    case True
    then show ?thesis
      unfolding big_varint_loop.simps d two(1) bind_res.simps prod.case Let_def two(3) add_group [OF two(2) Suc.prems(1)] mult_Suc_right
        add_2_eq_Suc varint_of_groups(1) [OF g True]
      by simp
  next
    case False
    then obtain u where t: "t = u + 2 ^ 14" by (metis le_add_diff_inverse2 not_less)
    have "14 * (i + 1) = 14 * i + 14" by simp
    then have e: "2 ^ (14 * (i + 1)) = (2 ^ (14 * i) * 2 ^ 14 :: nat)" by (metis power_add)
    have a: "acc + 2 ^ (14 * i) * t = (acc + 2 ^ (14 * i) * u) + 2 ^ (14 * (i + 1))" unfolding e t by (simp add: algebra_simps)
    have ih: "big_varint_loop rounds (i + 1) (word_of_nat (acc + 2 ^ (14 * i) * t)) p =
      Inr (case varint_of (2 * rounds) bs of
             Varint v r \<Rightarrow> Some (word_of_nat (acc + 2 ^ (14 * i) * u + 2 ^ (14 * (i + 1)) * v), r)
           | _ \<Rightarrow> None)"
      unfolding a by (rule Suc.IH [of "i + 1", unfolded bs]) (use Suc.prems in simp_all)
    have v: "acc + 2 ^ (14 * i) * u + 2 ^ (14 * (i + 1)) * v = acc + 2 ^ (14 * i) * (u + 2 ^ 14 * v)" for v
      unfolding e by (simp only: distrib_left mult.assoc add.assoc)
    have "t - 2 ^ 14 = u" using t by simp
    then show ?thesis
      unfolding big_varint_loop.simps d two(1) bind_res.simps prod.case Let_def two(3) add_group [OF two(2) Suc.prems(1)] mult_Suc_right
        add_2_eq_Suc varint_of_groups(2) [OF g False] ih v
      using False by (cases "varint_of (2 * rounds) bs") (simp_all only: if_False varint.case)
  qed
qed simp

lemma ParseBigVarint_value:
  assumes "10 \<le> length p"
  shows "ParseBigVarint p =
    Inr (case varint_of kMaxVarintBytes p of Varint v r \<Rightarrow> Some (word_of_nat v, r) | _ \<Rightarrow> None)"
proof -
  from assms obtain b0 b1 bs where d: "p = b0 # b1 # bs" by (cases p; cases "tl p") auto
  obtain t k where g: "two_groups (unat b0) (unat b1) = (t, k)" by fastforce
  note two = DecodeTwoBytes_groups [OF g]
  note res = half_double [OF two(2)]
  have k: "kMaxVarintBytes = Suc (Suc 8)" by (simp add: kMaxVarintBytes_def)
  show ?thesis
  proof (cases "t < 2 ^ 14")
    case True
    then show ?thesis
      unfolding ParseBigVarint_def d two(1) bind_res.simps prod.case Let_def two(3) res k varint_of_groups(1) [OF g True] by simp
  next
    case False
    then have a: "t - 2 ^ 14 + 2 ^ 14 = t" by simp
    have bs: "drop 2 p = bs" unfolding d by simp
    have "2 * 1 + 2 * 4 \<le> length p" using assms by simp
    from big_varint_loop_value [OF zero_less_one this, of "t - 2 ^ 14"]
    have "big_varint_loop 4 1 (word_of_nat t) p =
      Inr (case varint_of 8 bs of Varint v r \<Rightarrow> Some (word_of_nat (t - 2 ^ 14 + 2 ^ 14 * v), r) | _ \<Rightarrow> None)"
      unfolding nat_mult_1_right a bs by simp
    then show ?thesis
      unfolding ParseBigVarint_def two(1) [of bs, folded d] bind_res.simps prod.case Let_def two(3) res k varint_of_groups(2) [OF g False, of 8 bs, folded d]
      using False by (cases "varint_of 8 bs") simp_all
  qed
qed

section \<open>The other readers\<close>

text \<open>\<open>VarintParse\<close>; \<open>slow\<close> is \<open>VarintParseSlow\<close>. The result is the new pointer and the value of \<open>*out\<close>.\<close>

definition VarintParse ::
    "(byte list \<Rightarrow> 32 word \<Rightarrow> (byte list option \<times> 'a word) res) \<Rightarrow> byte list \<Rightarrow> (byte list option \<times> 'a::len word) res" where
  "VarintParse slow p =
     bind_res (byte_at p 0) (\<lambda>b0.
       let res = ucast b0 :: 32 word
       in if res AND 0x80 = 0 then Inr (Some (drop 1 p), ucast res)
          else bind_res (byte_at p 1) (\<lambda>b1.
            let b = ucast b1 :: 32 word;
                res = res + push_bit 7 (b - 1)
            in if b AND 0x80 = 0 then Inr (Some (drop 2 p), ucast res) else slow p res))"

text \<open>\<open>ReadTag\<close>, with \<open>ReadTagFallback\<close> as a parameter.\<close>

definition ReadTag_inline ::
    "(byte list \<Rightarrow> 32 word \<Rightarrow> (byte list option \<times> 32 word) res) \<Rightarrow> byte list \<Rightarrow> (byte list option \<times> 32 word) res" where
  "ReadTag_inline fallback p =
     bind_res (byte_at p 0) (\<lambda>b0.
       let res = ucast b0 :: 32 word
       in if res < 128 then Inr (Some (drop 1 p), res)
          else bind_res (byte_at p 1) (\<lambda>b1.
            let second = ucast b1 :: 32 word;
                res = res + push_bit 7 (second - 1)
            in if second < 128 then Inr (Some (drop 2 p), res) else fallback p res))"

text \<open>\<open>ReadSize\<close>, with \<open>ReadSizeFallback\<close> as a parameter.\<close>

definition ReadSize ::
    "(byte list \<Rightarrow> 32 word \<Rightarrow> (byte list option \<times> 32 word) res) \<Rightarrow> byte list \<Rightarrow> (byte list option \<times> 32 word) res" where
  "ReadSize fallback p =
     bind_res (byte_at p 0) (\<lambda>b0.
       let res = ucast b0 :: 32 word in if res < 128 then Inr (Some (drop 1 p), res) else fallback p res)"

definition ReadVarint64_at ::
    "(byte list \<Rightarrow> 32 word \<Rightarrow> (byte list option \<times> 64 word) res) \<Rightarrow> byte list \<Rightarrow> (byte list option \<times> 64 word) res" where
  "ReadVarint64_at slow p = VarintParse slow p"

definition ReadVarint32_at ::
    "(byte list \<Rightarrow> 32 word \<Rightarrow> (byte list option \<times> 32 word) res) \<Rightarrow> byte list \<Rightarrow> (byte list option \<times> 32 word) res" where
  "ReadVarint32_at slow p = VarintParse slow p"

definition ReadVarintZigZag64 ::
    "(byte list \<Rightarrow> 32 word \<Rightarrow> (byte list option \<times> 64 word) res) \<Rightarrow> byte list \<Rightarrow> (byte list option \<times> 64 word) res" where
  "ReadVarintZigZag64 slow p = bind_res (VarintParse slow p) (\<lambda>(q, tmp). Inr (q, ZigZagDecode64 tmp))"

definition ReadVarintZigZag32 ::
    "(byte list \<Rightarrow> 32 word \<Rightarrow> (byte list option \<times> 64 word) res) \<Rightarrow> byte list \<Rightarrow> (byte list option \<times> 32 word) res" where
  "ReadVarintZigZag32 slow p = bind_res (VarintParse slow p) (\<lambda>(q, tmp). Inr (q, ZigZagDecode32 (ucast tmp)))"

text \<open>\<open>ReadPackedVarintArray\<close>: \<open>room\<close> is \<open>end - ptr\<close>, \<open>add\<close> the functor.\<close>

partial_function (option) ReadPackedVarintArray ::
    "(byte list \<Rightarrow> 32 word \<Rightarrow> (byte list option \<times> 64 word) res) \<Rightarrow> (64 word \<Rightarrow> 's \<Rightarrow> 's) \<Rightarrow> int \<Rightarrow> byte list \<Rightarrow> 's \<Rightarrow>
       (byte list option \<times> 's) run" where
  "ReadPackedVarintArray slow add room p s =
     (if 0 < room then
        bind_run (Some (VarintParse slow p)) (\<lambda>(q, varint).
          case q of
            None \<Rightarrow> return_run (None, s)
          | Some q \<Rightarrow> ReadPackedVarintArray slow add (room - (int (length p) - int (length q))) q (add varint s))
      else return_run (Some p, s))"

section \<open>The contract of the slow path\<close>

text \<open>Called with two continued bytes and what they add up to, the slow path reads the rest of at most ten bytes.\<close>

locale varint_reader =
  fixes slow :: "byte list \<Rightarrow> 32 word \<Rightarrow> (byte list option \<times> 'a::len word) res"
  assumes slow_value: "128 \<le> unat b0 \<Longrightarrow> 128 \<le> unat b1 \<Longrightarrow> 8 \<le> length bs \<Longrightarrow>
      varint_of kMaxVarintBytes (b0 # b1 # bs) = Varint v r \<Longrightarrow>
      slow (b0 # b1 # bs) (word_of_nat (unat b0 - 128 + 128 * unat b1)) = Inr (Some r, word_of_nat v)"
    and slow_overlong: "128 \<le> unat b0 \<Longrightarrow> 128 \<le> unat b1 \<Longrightarrow> 8 \<le> length bs \<Longrightarrow>
      varint_of kMaxVarintBytes (b0 # b1 # bs) = Overlong \<Longrightarrow>
      \<exists>v. slow (b0 # b1 # bs) (word_of_nat (unat b0 - 128 + 128 * unat b1)) = Inr (None, v)"

lemma two_bytes_sum:
  assumes "128 \<le> unat (b0 :: byte)"
  shows "ucast b0 + push_bit 7 (ucast (b1 :: byte) - 1) = (word_of_nat (unat b0 - 128 + 128 * unat b1) :: 32 word)"
proof -
  obtain n where n: "unat b0 = n + 128" using assms by (metis le_add_diff_inverse2)
  have "(ucast b0 :: 32 word) = word_of_nat (unat b0)" by simp
  then have "(ucast b0 :: 32 word) = word_of_nat n + 128" unfolding n by simp
  then show ?thesis unfolding n by (simp add: push_bit_eq_mult algebra_simps)
qed

lemma ucast_nat: "n < 2 ^ 32 \<Longrightarrow> (ucast (word_of_nat n :: 32 word) :: 'a::len word) = word_of_nat n"
proof -
  assume "n < 2 ^ 32"
  moreover have "(ucast (word_of_nat n :: 32 word) :: 'a word) = word_of_nat (unat (word_of_nat n :: 32 word))"
    by (rule of_nat_unat [symmetric])
  ultimately show ?thesis by (simp only: unat_32)
qed

context varint_reader
begin

lemma VarintParse_value:
  assumes "10 \<le> length p"
  shows "varint_of kMaxVarintBytes p = Varint v r \<Longrightarrow> VarintParse slow p = Inr (Some r, word_of_nat v)"
    and "varint_of kMaxVarintBytes p = Overlong \<Longrightarrow> \<exists>v. VarintParse slow p = Inr (None, v)"
proof -
  from assms obtain b0 b1 bs where p: "p = b0 # b1 # bs" and l: "8 \<le> length bs" by (cases p; cases "tl p") auto
  have k: "kMaxVarintBytes = Suc (Suc 8)" by (simp add: kMaxVarintBytes_def)
  have b: "unat b0 < 256" "unat b1 < 256" using unsigned_less [of b0] unsigned_less [of b1] by simp_all
  have at: "byte_at p 0 = Inr b0" "byte_at p 1 = Inr b1" "drop 1 p = b1 # bs" "drop 2 p = bs" by (simp_all add: byte_at_def p)
  have c: "(ucast b0 :: 32 word) AND 128 = 0 \<longleftrightarrow> unat b0 < 128" "(ucast b1 :: 32 word) AND 128 = 0 \<longleftrightarrow> unat b1 < 128"
    by (rule byte_continues, simp)+
  note def = VarintParse_def at bind_res.simps Let_def c
  consider "unat b0 < 128" | "128 \<le> unat b0" "unat b1 < 128" | "128 \<le> unat b0" "128 \<le> unat b1" by fastforce
  then show "varint_of kMaxVarintBytes p = Varint v r \<Longrightarrow> VarintParse slow p = Inr (Some r, word_of_nat v)"
  proof cases
    case 1
    have u: "(ucast (ucast b0 :: 32 word) :: 'a word) = word_of_nat (unat b0)"
      using b of_nat_unat [of b0, where 'a = "32 word"] ucast_nat [of "unat b0", where 'a = 'a] by simp
    assume "varint_of kMaxVarintBytes p = Varint v r"
    with 1 have "v = unat b0" "r = b1 # bs" unfolding p k by (simp_all only: varint_of.simps if_True varint.inject)
    with 1 u show "VarintParse slow p = Inr (Some r, word_of_nat v)"
      unfolding def by (simp only: if_True)
  next
    case 2
    have lt: "unat b0 - 128 + 128 * unat b1 < 2 ^ 32" using b by simp
    from 2(1) have n: "\<not> unat b0 < 128" by simp
    assume "varint_of kMaxVarintBytes p = Varint v r"
    then have "v = unat b0 - 128 + 128 * unat b1" "r = bs"
      using n 2(2) unfolding p k by (simp_all only: varint_of.simps varint_cons.simps if_True if_False varint.inject)
    then show "VarintParse slow p = Inr (Some r, word_of_nat v)"
      unfolding def two_bytes_sum [OF 2(1)] using n 2(2) by (simp only: ucast_nat [OF lt] if_True if_False)
  next
    case 3
    then show "varint_of kMaxVarintBytes p = Varint v r \<Longrightarrow> VarintParse slow p = Inr (Some r, word_of_nat v)"
      unfolding def two_bytes_sum [OF 3(1)] using slow_value [OF 3 l, of v r] by (simp add: p)
  qed
  assume o: "varint_of kMaxVarintBytes p = Overlong"
  then have o2: "varint_of (Suc (Suc 8)) (b0 # b1 # bs) = Overlong" unfolding p k .
  have n: "\<not> unat b0 < 128"
    using o2 by (rule contrapos_pn) (simp only: varint_of.simps if_True varint.distinct not_False_eq_True)
  moreover have "\<not> unat b1 < 128"
    using o2 by (rule contrapos_pn) (simp only: varint_of.simps varint_cons.simps n if_True if_False varint.distinct not_False_eq_True)
  ultimately have n: "\<not> unat b0 < 128" "\<not> unat b1 < 128" by blast+
  then have l128: "128 \<le> unat b0" "128 \<le> unat b1" by simp_all
  from slow_overlong [OF l128 l, folded p, OF o] show "\<exists>v. VarintParse slow p = Inr (None, v)"
    unfolding def two_bytes_sum [OF l128(1)] using n by (simp only: if_False)
qed

end

text \<open>\<open>ParseBigVarint\<close> as a slow path: it starts again at the first byte.\<close>

definition big_slow :: "byte list \<Rightarrow> 32 word \<Rightarrow> (byte list option \<times> 64 word) res" where
  "big_slow p res =
     bind_res (ParseBigVarint p) (\<lambda>r. Inr (case r of Some (v, q) \<Rightarrow> (Some q, v) | None \<Rightarrow> (None, 0)))"

interpretation big: varint_reader big_slow
proof unfold_locales
  fix b0 b1 :: byte and bs :: "byte list" and v r
  assume l: "8 \<le> length bs"
  note p = ParseBigVarint_value [of "b0 # b1 # bs"]
  show "varint_of kMaxVarintBytes (b0 # b1 # bs) = Varint v r \<Longrightarrow>
      big_slow (b0 # b1 # bs) (word_of_nat (unat b0 - 128 + 128 * unat b1)) = Inr (Some r, word_of_nat v)"
    using p l by (simp only: big_slow_def length_Cons bind_res.simps varint.case option.case prod.case)
  show "varint_of kMaxVarintBytes (b0 # b1 # bs) = Overlong \<Longrightarrow>
      \<exists>v. big_slow (b0 # b1 # bs) (word_of_nat (unat b0 - 128 + 128 * unat b1)) = Inr (None, v)"
    using p l by (simp only: big_slow_def length_Cons bind_res.simps varint.case option.case) blast
qed

section \<open>What the readers give\<close>

lemma byte_at_Cons [simp]: "byte_at (b # bs) 0 = Inr b" "byte_at (b # bs) (Suc n) = byte_at bs n"
  by (simp_all add: byte_at_def)

lemma byte_below_128: "(ucast (b :: byte) :: 32 word) < 128 \<longleftrightarrow> unat b < 128"
proof -
  have "unat (word_of_nat (unat b) :: 32 word) = unat b" by (rule unat_32) (use unsigned_less [of b, where 'a = nat] in simp)
  then have "unat (ucast b :: 32 word) = unat b" by (simp only: of_nat_unat)
  then show ?thesis by (simp add: word_less_nat_alt)
qed

text \<open>Tags and sizes of one and of two bytes do not reach the slow path; a longer one gets what the two bytes add up to.\<close>

lemma ReadTag_inline_value:
  "unat b0 < 128 \<Longrightarrow> ReadTag_inline fallback (b0 # bs) = Inr (Some bs, word_of_nat (unat b0))"
  "128 \<le> unat b0 \<Longrightarrow> unat b1 < 128 \<Longrightarrow>
     ReadTag_inline fallback (b0 # b1 # bs) = Inr (Some bs, word_of_nat (unat b0 - 128 + 128 * unat b1))"
  "128 \<le> unat b0 \<Longrightarrow> 128 \<le> unat b1 \<Longrightarrow>
     ReadTag_inline fallback (b0 # b1 # bs) = fallback (b0 # b1 # bs) (word_of_nat (unat b0 - 128 + 128 * unat b1))"
proof -
  show "unat b0 < 128 \<Longrightarrow> ReadTag_inline fallback (b0 # bs) = Inr (Some bs, word_of_nat (unat b0))"
    by (simp add: ReadTag_inline_def byte_below_128)
  have "ReadTag_inline fallback (b0 # b1 # bs) =
      (if unat b1 < 128 then Inr (Some bs, ucast b0 + push_bit 7 (ucast b1 - 1))
       else fallback (b0 # b1 # bs) (ucast b0 + push_bit 7 (ucast b1 - 1)))" if "128 \<le> unat b0"
    using that by (simp add: ReadTag_inline_def byte_below_128 Let_def)
  then show "128 \<le> unat b0 \<Longrightarrow> unat b1 < 128 \<Longrightarrow>
      ReadTag_inline fallback (b0 # b1 # bs) = Inr (Some bs, word_of_nat (unat b0 - 128 + 128 * unat b1))"
    "128 \<le> unat b0 \<Longrightarrow> 128 \<le> unat b1 \<Longrightarrow>
      ReadTag_inline fallback (b0 # b1 # bs) = fallback (b0 # b1 # bs) (word_of_nat (unat b0 - 128 + 128 * unat b1))"
    by (simp_all only: two_bytes_sum if_True) simp
qed

lemma ReadSize_value:
  "unat b0 < 128 \<Longrightarrow> ReadSize fallback (b0 # bs) = Inr (Some bs, word_of_nat (unat b0))"
  "128 \<le> unat b0 \<Longrightarrow> ReadSize fallback (b0 # bs) = fallback (b0 # bs) (word_of_nat (unat b0))"
  by (simp_all add: ReadSize_def byte_below_128)

text \<open>An array of varints with at least ten readable bytes behind it.\<close>

lemma varint_of_word: "varint_of kMaxVarintBytes (varint_enc (unat (v :: 64 word)) @ r) = Varint (unat v) r"
proof (rule varint_of_enc)
  have "unat v < 2 ^ 64" using unsigned_less [of v] by simp
  also have "(2 :: nat) ^ 64 < 128 ^ kMaxVarintBytes" by (simp add: kMaxVarintBytes_def)
  finally show "unat v < 128 ^ kMaxVarintBytes" .
qed (simp add: kMaxVarintBytes_def)

lemma packed_varint_array:
  assumes slow: "varint_reader slow" and "10 \<le> length r"
  shows "ReadPackedVarintArray slow add (int (length (concat (map (\<lambda>v. varint_enc (unat v)) vs))))
      (concat (map (\<lambda>v. varint_enc (unat v)) vs) @ r) s = return_run (Some r, fold add vs s)"
proof (induction vs arbitrary: s)
  case Nil
  then show ?case by (subst ReadPackedVarintArray.simps) simp
next
  case (Cons v vs)
  let ?bytes = "concat (map (\<lambda>v. varint_enc (unat v)) vs)"
  have "varint_enc (unat v) \<noteq> []" by (subst varint_enc.simps) simp
  then have pos: "0 < int (length (varint_enc (unat v)))" by simp
  have "VarintParse slow (varint_enc (unat v) @ ?bytes @ r) = Inr (Some (?bytes @ r), word_of_nat (unat v))"
    by (rule varint_reader.VarintParse_value(1) [OF slow _ varint_of_word]) (use assms(2) in simp)
  moreover have "0 < int (length (varint_enc (unat v))) + int (length ?bytes)" using pos by linarith
  ultimately show ?case using Cons.IH by (subst ReadPackedVarintArray.simps) simp
qed

section \<open>Properties\<close>

text \<open>
  C37: \<open>ParseBigVarint\<close>, which takes two bytes at a time by an addition whose carry moves the pointer and never tests a
  single byte, gives for any ten bytes exactly what the format says: the value modulo \<open>2\<^sup>6\<^sup>4\<close> and the byte after it, or
  \<open>nullptr\<close> when the tenth byte still continues. It reads no byte after the tenth.
\<close>

theorem big_varint_decodes:
  assumes "10 \<le> length p"
  shows "ParseBigVarint p =
    Inr (case varint_of kMaxVarintBytes p of Varint v r \<Rightarrow> Some (word_of_nat v, r) | _ \<Rightarrow> None)"
  using assms by (rule ParseBigVarint_value)

theorem big_varint_decodes_witness:
  "ParseBigVarint [0xAC, 0x82, 0x81, 0x01, 9, 9, 9, 9, 9, 9] = Inr (Some (2 ^ 21 + 2 ^ 14 + 300, [9, 9, 9, 9, 9, 9]))"
proof -
  let ?p = "[0xAC, 0x82, 0x81, 0x01, 9, 9, 9, 9, 9, 9] :: byte list"
  have "varint_of (Suc (Suc (Suc (Suc 6)))) ?p = Varint (2 ^ 21 + 2 ^ 14 + 300) [9, 9, 9, 9, 9, 9]"
    by (simp only: varint_of.simps unsigned_numeral) simp
  then have "varint_of kMaxVarintBytes ?p = Varint (2 ^ 21 + 2 ^ 14 + 300) [9, 9, 9, 9, 9, 9]"
    by (simp add: kMaxVarintBytes_def)
  then show ?thesis using big_varint_decodes [of ?p] by simp
qed

end
