(* ===== verification/Spec2Isabelle.thy ===== *)
theory Spec2Isabelle
  imports Proto_Stream Server_Correct Threadpool Zero_Copy_More Wire_Properties Message_Transfer Parse_Varint
begin

text \<open>
  A model of a peer-to-peer file sharing program over a Chord circle (\<open>src/src\<close>), and of the part of the
  protobuf library it is shipped with that carries its messages
  (\<open>src/src/protobuf/include/google/protobuf/io\<close>).

  \<^bold>\<open>The program.\<close> Every node has a digest on a circle of 2^16 points, the SHA-1 of its host name
  reduced by \<open>Node::get_hash\<close>, a finger table of 16 entries and a part of the distributed table that
  maps the digest of a file name to its owner. The terminal of a node publishes, withdraws, looks
  up and downloads files; the server thread of every node answers the requests of the others. A
  lookup is forwarded from finger to finger until it meets the node responsible, which answers the
  originator directly. Messages are protobuf messages with their size in front, one connection each.

  \<^bold>\<open>Theories of the program, in the order of the calls.\<close>
  \<^item> \<open>Prelude\<close>: the ways a C++ function fails to return (\<open>'a res\<close>), loops that may not end (\<open>'a run\<close>, where
    \<open>None\<close> is not returning), loops run with fuel, list facts.
  \<^item> \<open>Socket\<close> (\<open>util/socket.cpp\<close>), \<open>Proto_Stream\<close> (\<open>util/proto.cpp\<close>): descriptors and what leaks.
  \<^item> \<open>Ring\<close>, \<open>Successor\<close> (\<open>util/util.cpp\<close>, \<open>util/config.h\<close>): distances, and the mathematical circle.
  \<^item> \<open>Umap\<close>: \<open>std::unordered_map\<close>, with the locale \<open>unordered_map\<close> for what the program relies on.
  \<^item> \<open>Hashing\<close> (\<open>Node::get_hash\<close>), \<open>Node_State\<close> (\<open>node.h\<close>, and the routing decisions of \<open>lookup.cpp\<close>).
  \<^item> \<open>Messages\<close> (\<open>P2P_Protocol.proto\<close> and the classes generated from it), \<open>Proto_Messages\<close>
    (\<open>util/proto_messages.cpp\<close>).
  \<^item> \<open>Lookup\<close>, \<open>Routing\<close> (\<open>lookup.cpp\<close>): the handlers, a whole lookup; the invariant \<open>chord_ok\<close> of a complete
    circle, and that a lookup ends at the responsible node.
  \<^item> \<open>Files\<close>, \<open>Storage\<close> (\<open>node.cpp\<close>): publishing and withdrawing; the nodes refine one table \<open>stored\<close>.
  \<^item> \<open>Download\<close>, \<open>Download_Correct\<close> (\<open>download.cpp\<close>): both ends of a transfer over any segmentation.
  \<^item> \<open>Join\<close>, \<open>Join_Correct\<close>, \<open>Join_Help\<close>, \<open>Join_Theorem\<close> (\<open>join.cpp\<close>): a join keeps the circle complete
    where it does, and the cases in which it does not.
  \<^item> \<open>Network_Properties\<close>: the properties of whole networks, with a network of two hosts as witness.
  \<^item> \<open>Server\<close>, \<open>Server_Correct\<close> (\<open>node.cpp\<close>, \<open>main.cpp\<close>): the server loop, the terminal, \<open>main\<close>.
  \<^item> \<open>Threadpool\<close> (\<open>util/threadpool.cpp\<close>): a step relation with its invariants and termination.

  \<^bold>\<open>Theories of the library.\<close>
  \<^item> \<open>Varint\<close>: the varint format \<open>varint_enc\<close> and \<open>varint_of\<close>, and the array readers, writers and size functions
    of \<open>coded_stream.h\<close> and \<open>coded_stream.cc\<close> that implement it.
  \<^item> \<open>Parse_Varint\<close>: the varint readers of the generated parsers (\<open>parse_context.h\<close>), with the locale \<open>varint_reader\<close>
    for their slow paths; \<open>ParseBigVarint\<close>, which reads two bytes at a time, is shown to read the format and keeps it.
  \<^item> \<open>Zero_Copy\<close>, \<open>File_Stream\<close>, \<open>Zero_Copy_More\<close>: the locale \<open>zero_copy_input\<close> is the contract of
    \<open>ZeroCopyInputStream\<close>; the array, file, limiting and concatenating streams keep it.
  \<^item> \<open>Output_Stream\<close>, \<open>Output_Contract\<close>: the same for \<open>ZeroCopyOutputStream\<close>, whose caller writes through
    pointers into the memory of the stream; \<open>copying_output\<close> is the contract of \<open>CopyingOutputStream\<close>, kept
    by a descriptor that may fail, by one that does not, and by an \<open>ostream\<close>.
  \<^item> \<open>Coded_Input\<close> is \<open>CodedInputStream\<close>; \<open>Coded_Input_Correct\<close>, \<open>Coded_Input_Reads\<close>, \<open>Coded_Input_Limits\<close> and
    \<open>Coded_Input_Tags\<close> show, inside \<open>zero_copy_input\<close>, that every read is a function of the bytes below
    the closest limit.
  \<^item> \<open>Coded_Output\<close> is \<open>EpsCopyOutputStream\<close> and \<open>CodedOutputStream\<close>; \<open>Coded_Output_Correct\<close> shows, inside
    \<open>zero_copy_output\<close>, that every write appends its bytes through the patch buffer and returns.
  \<^item> \<open>Repeated_Field\<close> (\<open>repeated_field.h\<close>): the growing array of repeated fields; any sequence of calls refines a list.
  \<^item> \<open>Wire_Format\<close> (\<open>wire_format_lite.h\<close>): tags, zig-zag, readers, writers and sizes of fields. \<open>Wire_Fields\<close> has the
    locale \<open>wire_primitive\<close>, the contract of a field type, which the 14 types keep on every input stream;
    \<open>Wire_Repeated\<close> and \<open>Wire_Tagged\<close> show in it, and in \<open>wire_fixed\<close> for the types of fixed size, what the readers of
    packed and repeated fields append; \<open>Wire_Session\<close> and \<open>Wire_Properties\<close> are the round trips on descriptors.
  \<^item> \<open>Framing\<close> (\<open>util/proto.h\<close>): \<open>sendMesgTo\<close> and \<open>recvMesgFrom\<close> over the two, and their round trip.

  \<^bold>\<open>Messages on the wire.\<close>
  \<^item> \<open>Serialize\<close>, \<open>Wire_Messages\<close> (\<open>P2P_Protocol.pb.cc\<close>): \<open>_InternalSerialize\<close> and \<open>ByteSizeLong\<close> of every message
    class write and count the bytes that the wire format gives the message, over any output stream.
  \<^item> \<open>Parse_Context\<close>, \<open>Wire_Parse\<close>: \<open>_InternalParse\<close> of every class, inside the locale \<open>parse_context\<close>, the contract of
    \<open>ParseContext\<close>, whose functions are outside the repository; on the bytes of a message it makes the message.
  \<^item> \<open>Coded_Context\<close>: the operations of \<open>CodedInputStream\<close> keep that contract below any stack of limits.
  \<^item> \<open>Message_Transfer\<close>: requests and responses cross a connection through \<open>sendMesgTo\<close> and \<open>recvMesgFrom\<close>.

  \<^bold>\<open>State and steps.\<close> A world maps host names to nodes; an operation takes the world and returns it
  updated, or the failure. Handlers run to their end one at a time, and the messages of one operation are
  delivered in order. What the environment decides is an argument: the answers of system calls, the
  values of \<open>rand()\<close>, the segmentation of a stream, SHA-1, the content of files, the order of a
  container. Reads out of bounds, failed checks and exceptions are values of \<open>'a res\<close>.

  \<^bold>\<open>Bounds and fuel.\<close> \<open>lookup\<close> runs the forwarding of a request with fuel: more than
  \<open>finger_table_length\<close> = 16 hops are never needed in a complete circle, which \<open>lookup_finds_successor\<close>
  shows, and no amount is enough in the circles of \<open>join_misses_node_livelock\<close> and
  \<open>join_exact_hit_livelock\<close>. The update walk of a join is run with 65536 rounds, one for every point of the circle, and
  \<open>update_walk_ends\<close> shows that it visits each node at most once. The loops of the protobuf streams
  are partial functions; the lemmas about them state that they return.

  \<^bold>\<open>Not modelled.\<close>
  \<^item> Concurrent joins and handlers that interleave inside one node: the program takes no lock, so that such runs
    are data races without a meaning in C++.
  \<^item> Reflection, descriptors, arenas and \<open>Swap\<close> of the generated message classes. Functions of the library whose files
    are not in the repository are parameters: \<open>InternalWriteMessage\<close>, the handling of unknown fields,
    \<open>SerializeWithCachedSizesToArray\<close>, \<open>MergeFromCodedStream\<close> and the \<open>ParseContext\<close> it reads through. The
    network model passes messages as values, which \<open>request_transferred\<close> and \<open>response_transferred\<close> justify.
  \<^item> The buffers and limits of \<open>EpsCopyInputStream\<close> (\<open>parse_context.h\<close>), whose refilling is outside the repository.
  \<^item> A failure of the connection that the owner of a file opens to the requester.
  \<^item> Constructors of the coded streams over a bare array, cords, and debug checks (\<open>GOOGLE_DCHECK\<close>).
  \<^item> The rest of the protobuf library (descriptors, reflection, text format, JSON, compiler, tests),
    which the program does not call itself.
  \<^item> Texts printed on the terminal, and the socket addresses given to the kernel.
\<close>

end
